(* ===== verification/Prelude.thy ===== *)
theory Prelude
  imports Complex_Main "HOL-Library.Sublist" "HOL-Library.Char_ord" "HOL-Library.List_Lexorder"
begin

text \<open>
  The prelude of the development: the fact collections the components add to, the result
  type of fallible code, generic facts on lists, and the contract \<open>first_best\<close> of every
  loop of the program that keeps "the best one seen so far" (the strictest rule, the
  tightest plan window, the fullest budget, the strictest verdict).
\<close>

named_theorems go_defs \<open>definitions of the modelled Go library functions\<close>
named_theorems op_defs \<open>definitions of a component's operations\<close>

type_synonym ('e, 'a) result = "'e + 'a"

text \<open>\<open>x, err := f(); if err != nil { return err }\<close>.\<close>

definition try_res :: "'e + 'a \<Rightarrow> ('a \<Rightarrow> 'e + 'b) \<Rightarrow> 'e + 'b" where
  "try_res r k = (case r of Inl e \<Rightarrow> Inl e | Inr x \<Rightarrow> k x)"

lemma try_res_simps [simp]:
  "try_res (Inl e) k = Inl e"
  "try_res (Inr x) k = k x"
  by (simp_all add: try_res_def)

lemma try_res_Inr_iff: "try_res r k = Inr y \<longleftrightarrow> (\<exists>x. r = Inr x \<and> k x = Inr y)"
  by (cases r) auto

lemma try_res_cong [fundef_cong]:
  "r = r' \<Longrightarrow> (\<And>x. r' = Inr x \<Longrightarrow> k x = k' x) \<Longrightarrow> try_res r k = try_res r' k'"
  by (cases r') auto

text \<open>A loop that converts each element and returns at the first error.\<close>

fun traverse :: "('a \<Rightarrow> 'e + 'b) \<Rightarrow> 'a list \<Rightarrow> 'e + 'b list" where
  "traverse f [] = Inr []"
| "traverse f (x # xs) =
     (case f x of Inl e \<Rightarrow> Inl e
      | Inr y \<Rightarrow> (case traverse f xs of Inl e \<Rightarrow> Inl e | Inr ys \<Rightarrow> Inr (y # ys)))"

lemma traverse_Inr_iff: "traverse f xs = Inr ys \<longleftrightarrow> list_all2 (\<lambda>x y. f x = Inr y) xs ys"
proof (induction xs arbitrary: ys)
  case (Cons x xs)
  show ?case
  proof (cases ys)
    case Nil
    then show ?thesis by (simp split: sum.splits)
  next
    case (Cons z zs)
    have "traverse f (x # xs) = Inr (z # zs) \<longleftrightarrow> f x = Inr z \<and> traverse f xs = Inr zs"
      by (simp split: sum.split)
    with Cons Cons.IH [of zs] show ?thesis by simp
  qed
qed auto

lemma traverse_map_inverse: "(\<And>x. x \<in> set xs \<Longrightarrow> f (g x) = Inr x) \<Longrightarrow> traverse f (map g xs) = Inr xs"
  by (induction xs) auto

lemma traverse_Inr_set: "traverse f xs = Inr ys \<Longrightarrow> y \<in> set ys \<Longrightarrow> \<exists>x\<in>set xs. f x = Inr y"
proof (induction xs arbitrary: ys)
  case (Cons x xs)
  then show ?case by (cases "f x"; cases "traverse f xs") auto
qed simp

subsection \<open>Lists\<close>

lemma dropWhile_idle: "(xs = [] \<or> \<not> P (hd xs)) \<Longrightarrow> dropWhile P xs = xs"
  by (cases xs) auto

lemma takeWhile_append_stop: "\<forall>x\<in>set xs. P x \<Longrightarrow> \<not> P y \<Longrightarrow> takeWhile P (xs @ y # ys) = xs"
  by (induction xs) auto

lemma dropWhile_append_stop: "\<forall>x\<in>set xs. P x \<Longrightarrow> \<not> P y \<Longrightarrow> dropWhile P (xs @ y # ys) = y # ys"
  by (induction xs) auto

lemma find_mem: "find P xs = Some x \<Longrightarrow> x \<in> set xs \<and> P x"
  by (induction xs) (auto split: if_splits)

lemma filter_map_comm: "filter P (map f xs) = map f (filter (P \<circ> f) xs)"
  by (induction xs) auto

subsection \<open>The best one seen so far\<close>

text \<open>
  \<open>pick better acc x\<close> is the body of the loop
  \<open>if !found || better(x, best) { best, found = x, true }\<close>; ties keep the earlier element.
\<close>

definition pick :: "('a \<Rightarrow> 'a \<Rightarrow> bool) \<Rightarrow> 'a option \<Rightarrow> 'a \<Rightarrow> 'a option" where
  "pick better acc x =
     (case acc of None \<Rightarrow> Some x | Some b \<Rightarrow> if better x b then Some x else Some b)"

lemma pick_simps [simp]:
  "pick better None x = Some x"
  "pick better (Some b) x = (if better x b then Some x else Some b)"
  by (simp_all add: pick_def)

definition best :: "('a \<Rightarrow> 'a \<Rightarrow> bool) \<Rightarrow> 'a list \<Rightarrow> 'a option" where
  "best better xs = foldl (pick better) None xs"

lemma foldl_pick_Some: "\<exists>r. foldl (pick better) (Some b) xs = Some r"
  by (induction xs arbitrary: b) auto

lemma foldl_pick_mem: "foldl (pick better) (Some b) xs = Some r \<Longrightarrow> r = b \<or> r \<in> set xs"
  by (induction xs arbitrary: b) (auto split: if_splits)

lemma best_Nil [simp]: "best better [] = None"
  by (simp add: best_def)

lemma best_snoc: "best better (xs @ [x]) = pick better (best better xs) x"
  by (simp add: best_def)

lemma best_None_iff [simp]: "best better xs = None \<longleftrightarrow> xs = []"
proof (cases xs)
  case (Cons x ys)
  obtain r where "foldl (pick better) (Some x) ys = Some r"
    using foldl_pick_Some [of better x ys] by blast
  with Cons show ?thesis by (simp add: best_def)
qed simp

lemma best_mem: "best better xs = Some r \<Longrightarrow> r \<in> set xs"
  by (cases xs) (auto simp: best_def dest: foldl_pick_mem)

text \<open>
  The contract: on the values that occur (\<open>ok\<close>), \<open>better\<close> is a strict weak order. Then
  the loop returns an element no other beats, the first such one, and the same element
  up to ties whatever order the values come in.
\<close>

locale first_best =
  fixes ok :: "'a \<Rightarrow> bool" and better :: "'a \<Rightarrow> 'a \<Rightarrow> bool"
  assumes better_asym: "ok x \<Longrightarrow> ok y \<Longrightarrow> better x y \<Longrightarrow> \<not> better y x"
    and better_negtrans:
      "ok x \<Longrightarrow> ok y \<Longrightarrow> ok z \<Longrightarrow> \<not> better x y \<Longrightarrow> \<not> better y z \<Longrightarrow> \<not> better x z"
begin

lemma better_irrefl: "ok x \<Longrightarrow> \<not> better x x"
  using better_asym by blast

lemma better_trans: "ok x \<Longrightarrow> ok y \<Longrightarrow> ok z \<Longrightarrow> better x y \<Longrightarrow> better y z \<Longrightarrow> better x z"
  using better_asym better_negtrans by blast

lemma foldl_pick_upper:
  assumes "ok b" and "\<forall>x\<in>set xs. ok x" and "foldl (pick better) (Some b) xs = Some r"
  shows "\<not> better b r \<and> (\<forall>x\<in>set xs. \<not> better x r)"
  using assms
proof (induction xs arbitrary: b)
  case Nil
  then show ?case by (simp add: better_irrefl)
next
  case (Cons x xs)
  let ?b = "if better x b then x else b"
  have okb: "ok ?b" using Cons.prems by simp
  have fold: "foldl (pick better) (Some ?b) xs = Some r" using Cons.prems by (simp split: if_splits)
  then have up: "\<not> better ?b r \<and> (\<forall>x\<in>set xs. \<not> better x r)" using Cons.IH [OF okb] Cons.prems by simp
  have okr: "ok r" using foldl_pick_mem [OF fold] okb Cons.prems(2) by auto
  have "\<not> better x ?b" "\<not> better b ?b"
    using Cons.prems better_asym better_irrefl by (auto split: if_splits)
  then have "\<not> better x r" "\<not> better b r"
    using up okb okr Cons.prems better_negtrans [of x ?b r] better_negtrans [of b ?b r] by auto
  with up show ?case by simp
qed

lemma best_upper: "\<forall>x\<in>set xs. ok x \<Longrightarrow> best better xs = Some r \<Longrightarrow> x \<in> set xs \<Longrightarrow> \<not> better x r"
  using foldl_pick_upper by (cases xs) (auto simp: best_def)

lemma best_Some_bound:
  assumes "\<forall>x\<in>set xs. ok x" and "x \<in> set xs"
  obtains r where "best better xs = Some r" "r \<in> set xs" "\<not> better x r"
proof (cases "best better xs")
  case None
  then show ?thesis using assms(2) by simp
next
  case (Some r)
  then show ?thesis using that [OF Some best_mem [OF Some]] best_upper [OF assms(1) Some assms(2)] by blast
qed

text \<open>Two orders of the same values give results neither of which beats the other.\<close>

lemma best_perm:
  assumes "\<forall>x\<in>set xs. ok x" and "set ys = set xs"
    and "best better xs = Some r" and "best better ys = Some r'"
  shows "\<not> better r r' \<and> \<not> better r' r"
  using assms best_upper best_mem by metis

text \<open>Where no two distinct values tie, the order does not matter at all.\<close>

lemma best_order_free:
  assumes "\<forall>x\<in>set xs. ok x" and "set ys = set xs"
    and tie: "\<And>x y. x \<in> set xs \<Longrightarrow> y \<in> set xs \<Longrightarrow> \<not> better x y \<Longrightarrow> \<not> better y x \<Longrightarrow> x = y"
  shows "best better ys = best better xs"
proof (cases "best better xs")
  case None
  then show ?thesis using assms(2) by auto
next
  case (Some r)
  then obtain r' where r': "best better ys = Some r'"
    using assms(2) best_None_iff by (cases "best better ys") fastforce+
  have "r \<in> set xs" "r' \<in> set xs" using Some r' assms(2) best_mem by fastforce+
  with best_perm [OF assms(1,2) Some r'] have "r = r'" using tie by blast
  with Some r' show ?thesis by simp
qed

text \<open>An element that beats everything before it and that nothing after it beats is chosen.\<close>

lemma best_first:
  assumes "\<forall>x\<in>set (xs @ b # ys). ok x"
    and "\<And>x. x \<in> set xs \<Longrightarrow> better b x" and "\<And>y. y \<in> set ys \<Longrightarrow> \<not> better y b"
  shows "best better (xs @ b # ys) = Some b"
proof -
  have later: "foldl (pick better) (Some b) zs = Some b" if "\<And>y. y \<in> set zs \<Longrightarrow> \<not> better y b" for zs
    using that by (induction zs) auto
  have "pick better (best better xs) b = Some b"
    using assms(2) best_mem [of better xs] by (cases "best better xs") auto
  then show ?thesis using later [OF assms(3)] by (simp add: best_def)
qed

text \<open>What is chosen beats everything before it, and nothing after it beats it.\<close>

lemma best_split:
  assumes "\<forall>x\<in>set xs. ok x" and "best better xs = Some r"
  shows "\<exists>as bs. xs = as @ r # bs \<and> (\<forall>x\<in>set as. better r x) \<and> (\<forall>y\<in>set bs. \<not> better y r)"
  using assms
proof (induction xs arbitrary: r rule: rev_induct)
  case (snoc x xs)
  have okx: "ok x" and okxs: "\<forall>x\<in>set xs. ok x" using snoc.prems(1) by auto
  show ?case
  proof (cases "best better xs")
    case None
    with snoc.prems have "xs @ [x] = [] @ r # []" by (simp add: best_snoc)
    then show ?thesis by fastforce
  next
    case (Some b)
    have okb: "ok b" using best_mem [OF Some] okxs by blast
    obtain as bs where ab: "xs = as @ b # bs" "\<forall>x\<in>set as. better b x" "\<forall>y\<in>set bs. \<not> better y b"
      using snoc.IH [OF okxs Some] by blast
    show ?thesis
    proof (cases "better x b")
      case True
      then have r: "r = x" using snoc.prems Some by (simp add: best_snoc)
      have "better x y" if y: "y \<in> set xs" for y
        using best_upper [OF okxs Some y] better_negtrans [of x y b] True okx okb okxs y by blast
      then have "xs @ [x] = xs @ r # [] \<and> (\<forall>y\<in>set xs. better r y) \<and> (\<forall>y\<in>set []. \<not> better y r)"
        by (simp add: r)
      then show ?thesis by blast
    next
      case False
      then have r: "r = b" using snoc.prems Some by (simp add: best_snoc)
      have "xs @ [x] = as @ r # (bs @ [x]) \<and> (\<forall>x\<in>set as. better r x) \<and> (\<forall>y\<in>set (bs @ [x]). \<not> better y r)"
        using ab False by (simp add: r)
      then show ?thesis by blast
    qed
  qed
qed simp

end

text \<open>Every measure into a linear order gives such a contract.\<close>

locale ranked = fixes rank :: "'a \<Rightarrow> 'r::linorder"
begin

sublocale first_best "\<lambda>_. True" "\<lambda>x y. rank y < rank x"
  by unfold_locales auto

lemma best_max: "best (\<lambda>x y. rank y < rank x) xs = Some r \<Longrightarrow> x \<in> set xs \<Longrightarrow> rank x \<le> rank r"
  using best_upper [of xs r x] by (simp add: not_less)

end

end
