(* ===== verification/GoStrings.thy ===== *)
theory GoStrings
  imports Prelude
begin

text \<open>
  The part of Go's \<open>strings\<close>, \<open>strconv\<close> and \<open>regexp\<close> the program uses, on byte strings
  (\<open>string\<close>, a list of characters that are bytes). Case folding and white space are ASCII's:
  the settings, names and patterns the program reads are ASCII, and what Go does to a
  non-ASCII letter or space is outside the model.
\<close>

subsection \<open>Characters\<close>

abbreviation code :: "char \<Rightarrow> nat" where
  "code c \<equiv> of_char c"

definition is_digit :: "char \<Rightarrow> bool" where
  "is_digit c \<longleftrightarrow> 48 \<le> code c \<and> code c \<le> 57"

definition is_lower :: "char \<Rightarrow> bool" where
  "is_lower c \<longleftrightarrow> 97 \<le> code c \<and> code c \<le> 122"

definition is_upper :: "char \<Rightarrow> bool" where
  "is_upper c \<longleftrightarrow> 65 \<le> code c \<and> code c \<le> 90"

definition is_space :: "char \<Rightarrow> bool" where
  "is_space c \<longleftrightarrow> (9 \<le> code c \<and> code c \<le> 13) \<or> code c = 32"

definition lower_char :: "char \<Rightarrow> char" where
  "lower_char c = (if is_upper c then char_of (code c + 32) else c)"

definition digit_char :: "nat \<Rightarrow> char" where
  "digit_char n = char_of (48 + n)"

definition digit_val :: "char \<Rightarrow> nat" where
  "digit_val c = code c - 48"

lemmas char_class_defs = is_digit_def is_lower_def is_upper_def is_space_def

lemma code_digit_char: "n < 10 \<Longrightarrow> code (digit_char n) = 48 + n"
  by (simp add: digit_char_def)

lemma is_digit_digit_char [simp]: "n < 10 \<Longrightarrow> is_digit (digit_char n)"
  by (simp add: is_digit_def code_digit_char)

lemma digit_val_digit_char [simp]: "n < 10 \<Longrightarrow> digit_val (digit_char n) = n"
  by (simp add: digit_val_def code_digit_char)

lemma digit_char_inj: "m < 10 \<Longrightarrow> n < 10 \<Longrightarrow> digit_char m = digit_char n \<longleftrightarrow> m = n"
  using digit_val_digit_char by metis

subsection \<open>Case and white space\<close>

definition to_lower :: "string \<Rightarrow> string" where
  "to_lower s = map lower_char s"

definition trim_left :: "string \<Rightarrow> string" where
  "trim_left s = dropWhile is_space s"

definition trim_space :: "string \<Rightarrow> string" where
  "trim_space s = rev (trim_left (rev (trim_left s)))"

text \<open>A string neither of the two changes.\<close>

definition trimmed :: "string \<Rightarrow> bool" where
  "trimmed s \<longleftrightarrow> (s = [] \<or> (\<not> is_space (hd s) \<and> \<not> is_space (last s)))"

lemma lower_char_idle: "\<not> is_upper c \<Longrightarrow> lower_char c = c"
  by (simp add: lower_char_def)

lemma lower_char_not_upper: "\<not> is_upper (lower_char c)"
  by (auto simp: lower_char_def is_upper_def)

lemma to_lower_idle: "\<forall>c\<in>set s. \<not> is_upper c \<Longrightarrow> to_lower s = s"
  by (induction s) (auto simp: to_lower_def lower_char_idle)

lemma to_lower_idem [simp]: "to_lower (to_lower s) = to_lower s"
  by (rule to_lower_idle) (auto simp: to_lower_def lower_char_not_upper)

lemma length_to_lower [simp]: "length (to_lower s) = length s"
  by (simp add: to_lower_def)

lemma trim_space_idle: "trimmed s \<Longrightarrow> trim_space s = s"
proof (cases s rule: rev_cases)
  case (snoc t c)
  assume "trimmed s"
  with snoc have "\<not> is_space (hd s)" "\<not> is_space c" by (auto simp: trimmed_def)
  then have "dropWhile is_space s = s" "dropWhile is_space (rev s) = rev s"
    using snoc by (auto intro: dropWhile_idle)
  then show ?thesis by (simp add: trim_space_def trim_left_def)
qed (simp add: trim_space_def trim_left_def)

lemma trimmed_trim_space: "trimmed (trim_space s)"
proof -
  have hd: "dropWhile P xs = [] \<or> \<not> P (hd (dropWhile P xs))" for P and xs :: string
    using hd_dropWhile [of P xs] by blast
  let ?l = "dropWhile is_space s" and ?r = "dropWhile is_space (rev (dropWhile is_space s))"
  have "?r = [] \<or> \<not> is_space (hd ?r)" by (rule hd)
  moreover have "?r = [] \<or> \<not> is_space (last ?r)"
  proof (cases "?r = []")
    case False
    then have "?l \<noteq> []" by (metis dropWhile.simps(1) rev.simps(1))
    then have "\<not> is_space (hd ?l)" using hd by blast
    moreover have "rev ?l = takeWhile is_space (rev ?l) @ ?r" by simp
    then have "last (rev ?l) = last ?r" using False by (metis last_appendR)
    ultimately show ?thesis using \<open>?l \<noteq> []\<close> by (simp add: last_rev)
  qed simp
  ultimately show ?thesis
    by (auto simp: trim_space_def trim_left_def trimmed_def hd_rev last_rev)
qed

lemma trim_space_idem [simp]: "trim_space (trim_space s) = trim_space s"
  by (rule trim_space_idle, rule trimmed_trim_space)

lemma set_trim_space: "set (trim_space s) \<subseteq> set s"
  unfolding trim_space_def trim_left_def by (metis (no_types, lifting) set_dropWhileD set_rev subsetI)

subsection \<open>Prefixes, substrings, splitting\<close>

fun cut_prefix :: "string \<Rightarrow> string \<Rightarrow> string option" where
  "cut_prefix s [] = Some s"
| "cut_prefix [] (p # ps) = None"
| "cut_prefix (c # s) (p # ps) = (if c = p then cut_prefix s ps else None)"

definition has_prefix :: "string \<Rightarrow> string \<Rightarrow> bool" where
  "has_prefix s p \<longleftrightarrow> cut_prefix s p \<noteq> None"

definition trim_prefix :: "string \<Rightarrow> string \<Rightarrow> string" where
  "trim_prefix s p = (case cut_prefix s p of None \<Rightarrow> s | Some r \<Rightarrow> r)"

fun contains :: "string \<Rightarrow> string \<Rightarrow> bool" where
  "contains [] sub = (sub = [])"
| "contains (c # s) sub = (has_prefix (c # s) sub \<or> contains s sub)"

text \<open>\<open>strings.Cut\<close> at a one-character separator; the flag says whether it was found.\<close>

definition cut :: "char \<Rightarrow> string \<Rightarrow> string \<times> string \<times> bool" where
  "cut sep s = (takeWhile (\<lambda>c. c \<noteq> sep) s, drop 1 (dropWhile (\<lambda>c. c \<noteq> sep) s), sep \<in> set s)"

text \<open>\<open>strings.Split\<close> at a one-character separator: never empty.\<close>

fun split :: "char \<Rightarrow> string \<Rightarrow> string list" where
  "split sep [] = [[]]"
| "split sep (c # s) =
     (if c = sep then [] # split sep s
      else case split sep s of [] \<Rightarrow> [[c]] | w # ws \<Rightarrow> (c # w) # ws)"

fun join :: "string \<Rightarrow> string list \<Rightarrow> string" where
  "join sep [] = []"
| "join sep [x] = x"
| "join sep (x # y # ys) = x @ sep @ join sep (y # ys)"

text \<open>\<open>strings.Fields\<close>: the maximal runs of characters that are not white space.\<close>

fun fields_acc :: "string \<Rightarrow> string \<Rightarrow> string list" where
  "fields_acc w [] = (if w = [] then [] else [rev w])"
| "fields_acc w (c # s) =
     (if is_space c then (if w = [] then fields_acc [] s else rev w # fields_acc [] s)
      else fields_acc (c # w) s)"

definition Fields :: "string \<Rightarrow> string list" where
  "Fields s = fields_acc [] s"

lemma cut_prefix_Some_iff: "cut_prefix s p = Some r \<longleftrightarrow> s = p @ r"
  by (induction s p rule: cut_prefix.induct) auto

lemma has_prefix_iff: "has_prefix s p \<longleftrightarrow> (\<exists>r. s = p @ r)"
  by (auto simp: has_prefix_def cut_prefix_Some_iff)

lemma contains_iff: "contains s sub \<longleftrightarrow> (\<exists>l r. s = l @ sub @ r)"
proof (induction s)
  case Nil
  then show ?case by auto
next
  case (Cons c s)
  show ?case
  proof
    assume "contains (c # s) sub"
    then consider "has_prefix (c # s) sub" | "contains s sub" by auto
    then show "\<exists>l r. c # s = l @ sub @ r"
    proof cases
      case 1
      then show ?thesis by (auto simp: has_prefix_iff intro: exI [of _ "[]"])
    next
      case 2
      then obtain l r where "s = l @ sub @ r" using Cons.IH by auto
      then have "c # s = (c # l) @ sub @ r" by simp
      then show ?thesis by blast
    qed
  next
    assume "\<exists>l r. c # s = l @ sub @ r"
    then obtain l r where eq: "c # s = l @ sub @ r" by auto
    show "contains (c # s) sub"
    proof (cases l)
      case Nil
      with eq have "has_prefix (c # s) sub" by (auto simp: has_prefix_iff)
      then show ?thesis by simp
    next
      case (Cons d l')
      with eq have "s = l' @ sub @ r" by simp
      then show ?thesis using Cons.IH by auto
    qed
  qed
qed

lemma split_not_Nil [simp]: "split sep s \<noteq> []"
  by (cases s) (auto split: list.splits)

lemma split_no_sep: "sep \<notin> set s \<Longrightarrow> split sep s = [s]"
  by (induction s) (auto split: list.splits)

lemma split_append_sep: "sep \<notin> set x \<Longrightarrow> split sep (x @ sep # s) = x # split sep s"
  by (induction x) (auto split: list.splits)

lemma split_join: "xs \<noteq> [] \<Longrightarrow> \<forall>x\<in>set xs. sep \<notin> set x \<Longrightarrow> split sep (join [sep] xs) = xs"
  by (induction xs rule: induct_list012) (auto simp: split_no_sep split_append_sep)

lemma join_split: "join [sep] (split sep s) = s"
proof (induction s)
  case (Cons c s)
  obtain w ws where w: "split sep s = w # ws" by (cases "split sep s") auto
  show ?case
  proof (cases "c = sep")
    case True
    then show ?thesis using Cons.IH w by simp
  next
    case False
    then show ?thesis using Cons.IH w by (cases ws) auto
  qed
qed simp

lemma cut_append: "sep \<notin> set a \<Longrightarrow> cut sep (a @ sep # b) = (a, b, True)"
proof -
  assume "sep \<notin> set a"
  then have "\<forall>x\<in>set a. x \<noteq> sep" by auto
  then show ?thesis
    by (simp add: cut_def takeWhile_append_stop dropWhile_append_stop)
qed

lemma cut_absent: "sep \<notin> set a \<Longrightarrow> cut sep a = (a, [], False)"
  by (induction a) (auto simp: cut_def)

lemma fields_acc_word:
  "\<forall>c\<in>set s. \<not> is_space c \<Longrightarrow> fields_acc w s = (if w = [] \<and> s = [] then [] else [rev w @ s])"
  by (induction s arbitrary: w) auto

lemma fields_word: "s \<noteq> [] \<Longrightarrow> \<forall>c\<in>set s. \<not> is_space c \<Longrightarrow> Fields s = [s]"
  by (simp add: Fields_def fields_acc_word)

lemma fields_acc_two:
  "\<forall>c\<in>set a. \<not> is_space c \<Longrightarrow> w \<noteq> [] \<or> a \<noteq> [] \<Longrightarrow> is_space b \<Longrightarrow>
   fields_acc w (a @ b # s) = (rev w @ a) # fields_acc [] s"
  by (induction a arbitrary: w) auto

lemma fields_two:
  "a \<noteq> [] \<Longrightarrow> b \<noteq> [] \<Longrightarrow> \<forall>c\<in>set (a @ b). \<not> is_space c \<Longrightarrow> Fields (a @ '' '' @ b) = [a, b]"
  using fields_acc_two [of a "[]" "CHR '' ''" b]
  by (simp add: Fields_def fields_acc_word is_space_def)

subsection \<open>Decimal numbers\<close>

text \<open>The decimal digits of a number that is not negative.\<close>

function dec_str :: "int \<Rightarrow> string" where
  "dec_str n = (if n < 10 then [digit_char (nat n)] else dec_str (n div 10) @ [digit_char (nat (n mod 10))])"
  by pat_completeness auto
termination
  by (relation "measure nat") auto

declare dec_str.simps [simp del]

text \<open>\<open>strconv.Itoa\<close> and \<open>%d\<close>.\<close>

definition itoa :: "int \<Rightarrow> string" where
  "itoa i = (if i < 0 then CHR ''-'' # dec_str (- i) else dec_str i)"

text \<open>Zero-padded to a width, as \<open>%02d\<close> prints a number that is not negative.\<close>

definition pad_int :: "nat \<Rightarrow> int \<Rightarrow> string" where
  "pad_int w n = replicate (w - length (dec_str n)) (CHR ''0'') @ dec_str n"

text \<open>The value of a string of digits, read left to right.\<close>

definition digits_val :: "string \<Rightarrow> int" where
  "digits_val s = foldl (\<lambda>n c. n * 10 + int (digit_val c)) 0 s"

lemma digits_val_snoc [simp]: "digits_val (s @ [c]) = digits_val s * 10 + int (digit_val c)"
  by (simp add: digits_val_def)

lemma digits_val_Nil [simp]: "digits_val [] = 0"
  by (simp add: digits_val_def)

lemma digits_val_single: "digits_val [c] = int (digit_val c)"
  by (simp add: digits_val_def)

lemma digits_val_nonneg [simp]: "0 \<le> digits_val s"
  by (induction s rule: rev_induct) auto

lemma digits_val_dec_str [simp]: "0 \<le> n \<Longrightarrow> digits_val (dec_str n) = n"
proof (induction n rule: dec_str.induct)
  case (1 n)
  show ?case
  proof (cases "n < 10")
    case True
    then have "nat n < 10" by linarith
    with True "1.prems" show ?thesis by (simp add: dec_str.simps [of n] digits_val_single)
  next
    case False
    then have "digits_val (dec_str (n div 10)) = n div 10" using 1 by simp
    moreover have "nat (n mod 10) < 10" by simp
    ultimately show ?thesis using False by (simp add: dec_str.simps [of n])
  qed
qed

lemma digits_val_zeros: "digits_val (replicate k (CHR ''0'') @ s) = digits_val s"
  by (induction k) (auto simp: digits_val_def digit_val_def)

lemma digits_val_pad [simp]: "0 \<le> n \<Longrightarrow> digits_val (pad_int w n) = n"
  by (simp add: pad_int_def digits_val_zeros)

lemma dec_str_inj: "0 \<le> m \<Longrightarrow> 0 \<le> n \<Longrightarrow> dec_str m = dec_str n \<longleftrightarrow> m = n"
  using digits_val_dec_str by metis

lemma pad_int_inj: "0 \<le> m \<Longrightarrow> 0 \<le> n \<Longrightarrow> pad_int w m = pad_int w n \<longleftrightarrow> m = n"
  using digits_val_pad by metis

lemma dec_str_digits: "\<forall>c\<in>set (dec_str n). is_digit c"
proof (induction n rule: dec_str.induct)
  case (1 n)
  have "nat n < 10" if "n < 10" using that by linarith
  moreover have "nat (n mod 10) < 10" by simp
  ultimately show ?case using 1 by (subst dec_str.simps) auto
qed

lemma dec_str_not_Nil [simp]: "dec_str n \<noteq> []"
  by (subst dec_str.simps) simp

lemma pad_int_not_Nil [simp]: "pad_int w n \<noteq> []"
  by (simp add: pad_int_def)

lemma pad_int_digits: "\<forall>c\<in>set (pad_int w n). is_digit c"
  using dec_str_digits by (auto simp: pad_int_def is_digit_def)

lemma length_pad_int: "length (dec_str n) \<le> w \<Longrightarrow> length (pad_int w n) = w"
  by (simp add: pad_int_def)

lemma length_pad2: "n < 100 \<Longrightarrow> length (pad_int 2 n) = 2"
  by (intro length_pad_int) (auto simp: dec_str.simps [of n] dec_str.simps [of "n div 10"])

lemma digit_not_space: "is_digit c \<Longrightarrow> \<not> is_space c"
  by (auto simp: char_class_defs)

lemma digit_not_upper: "is_digit c \<Longrightarrow> \<not> is_upper c"
  by (auto simp: char_class_defs)

text \<open>
  \<open>strconv.Atoi\<close> on a 64-bit machine: an optional sign, at least one digit, and a value
  that fits an \<open>int\<close>; anything else is an error.
\<close>

definition Atoi :: "string \<Rightarrow> int option" where
  "Atoi s =
     (let (neg, ds) = (case s of [] \<Rightarrow> (False, [])
                       | c # r \<Rightarrow> if c = CHR ''-'' then (True, r)
                                  else if c = CHR ''+'' then (False, r) else (False, s));
          v = (if neg then - digits_val ds else digits_val ds)
      in if ds = [] \<or> \<not> list_all is_digit ds \<or> v < - (2 ^ 63) \<or> 2 ^ 63 \<le> v then None else Some v)"

lemma Atoi_dec_str: "0 \<le> n \<Longrightarrow> n < 2 ^ 63 \<Longrightarrow> Atoi (dec_str n) = Some n"
proof -
  assume n: "0 \<le> n" "n < 2 ^ 63"
  obtain c r where cr: "dec_str n = c # r" by (cases "dec_str n") auto
  have "is_digit c" using dec_str_digits [of n] cr by simp
  then have "c \<noteq> CHR ''-''" "c \<noteq> CHR ''+''" by (auto simp: is_digit_def)
  moreover have "list_all is_digit (c # r)"
    using dec_str_digits [of n] cr by (simp add: list_all_iff)
  moreover have "digits_val (c # r) = n" using digits_val_dec_str [of n] cr n by simp
  ultimately show ?thesis using n by (simp add: Atoi_def cr Let_def)
qed

lemma Atoi_bounds: "Atoi s = Some v \<Longrightarrow> - (2 ^ 63) \<le> v \<and> v < 2 ^ 63"
  by (auto simp: Atoi_def Let_def split: if_splits list.splits)

end
