(* ===== verification/Policy.thy ===== *)
theory Policy
  imports GoStrings
begin

text \<open>
  The control ladder (\<open>internal/contexts/policy/policy.go\<close>): how much authority the program
  has to act without being asked. The rungs form a linear order by \<open>rank\<close>; the authority a
  subsystem has is the lesser of the daemon's and its own, and every mapping from a setting
  sends a word it does not know to the lowest rung.
\<close>

datatype authority = ObserveOnly | Recommend | RequireApproval | Automatic

fun rank :: "authority \<Rightarrow> nat" where
  "rank Recommend = 1"
| "rank RequireApproval = 2"
| "rank Automatic = 3"
| "rank ObserveOnly = 0"

definition AtLeast :: "authority \<Rightarrow> authority \<Rightarrow> bool" where
  "AtLeast a other \<longleftrightarrow> rank other \<le> rank a"

definition MaySpeak :: "authority \<Rightarrow> bool" where
  "MaySpeak a \<longleftrightarrow> rank Recommend \<le> rank a"

definition MayAct :: "authority \<Rightarrow> bool" where
  "MayAct a \<longleftrightarrow> rank RequireApproval \<le> rank a"

definition NeedsApproval :: "authority \<Rightarrow> bool" where
  "NeedsApproval a \<longleftrightarrow> a = RequireApproval"

fun authority_value :: "authority \<Rightarrow> string" where
  "authority_value ObserveOnly = ''''"
| "authority_value Recommend = ''recommend''"
| "authority_value RequireApproval = ''require_approval''"
| "authority_value Automatic = ''automatic''"

definition authority_String :: "authority \<Rightarrow> string" where
  "authority_String a = (if a = ObserveOnly then ''observe_only'' else authority_value a)"

fun Describe :: "authority \<Rightarrow> string" where
  "Describe Recommend = ''says what it would do, unprompted; changes nothing''"
| "Describe RequireApproval = ''acts, but only on actions you have agreed to''"
| "Describe Automatic = ''acts without asking''"
| "Describe ObserveOnly = ''records and answers when asked; says nothing unprompted, changes nothing''"

definition Effective :: "authority \<Rightarrow> authority \<Rightarrow> authority" where
  "Effective daemon subsystem = (if rank daemon < rank subsystem then daemon else subsystem)"

definition FromDaemonMode :: "string \<Rightarrow> authority" where
  "FromDaemonMode mode = (if to_lower (trim_space mode) = ''active'' then Automatic else ObserveOnly)"

definition FromAutonomy :: "string \<Rightarrow> authority" where
  "FromAutonomy rung =
     (let v = to_lower (trim_space rung)
      in if v = ''advise'' then Recommend
         else if v = ''ask'' then RequireApproval
         else if v = ''autonomous'' then Automatic
         else ObserveOnly)"

definition FromRoutingApproval :: "bool \<Rightarrow> authority" where
  "FromRoutingApproval gated = (if gated then RequireApproval else Automatic)"

definition FromSmartRoutingIntervention :: "string \<Rightarrow> authority" where
  "FromSmartRoutingIntervention intervention =
     (let v = to_lower (trim_space intervention)
      in if v = '''' \<or> v = ''advise'' then Recommend
         else if v = ''delegate'' then RequireApproval
         else if v = ''auto'' then Automatic
         else ObserveOnly)"

subsection \<open>The ladder is a linear order\<close>

instantiation authority :: linorder
begin

definition less_eq_authority :: "authority \<Rightarrow> authority \<Rightarrow> bool" where
  "less_eq_authority a b \<longleftrightarrow> rank a \<le> rank b"

definition less_authority :: "authority \<Rightarrow> authority \<Rightarrow> bool" where
  "less_authority a b \<longleftrightarrow> rank a < rank b"

instance
proof
  fix a b :: authority
  show "a \<le> b \<Longrightarrow> b \<le> a \<Longrightarrow> a = b"
    by (cases a; cases b) (simp_all add: less_eq_authority_def)
qed (auto simp: less_eq_authority_def less_authority_def)

end

lemma rank_inj [simp]: "rank a = rank b \<longleftrightarrow> a = b"
  by (cases a; cases b) simp_all

lemma AtLeast_iff [simp]: "AtLeast a b \<longleftrightarrow> b \<le> a"
  by (simp add: AtLeast_def less_eq_authority_def)

lemma MaySpeak_iff: "MaySpeak a \<longleftrightarrow> Recommend \<le> a"
  by (simp add: MaySpeak_def less_eq_authority_def)

lemma MayAct_iff: "MayAct a \<longleftrightarrow> RequireApproval \<le> a"
  by (simp add: MayAct_def less_eq_authority_def)

lemma Effective_min: "Effective d s = min d s"
  by (auto simp: Effective_def min_def less_eq_authority_def)

lemma MayAct_cases: "MayAct a \<longleftrightarrow> NeedsApproval a \<or> a = Automatic"
  by (cases a) (auto simp: MayAct_def NeedsApproval_def)

lemma MayAct_MaySpeak: "MayAct a \<Longrightarrow> MaySpeak a"
  by (cases a) (auto simp: MayAct_def MaySpeak_def)

text \<open>A setting the program cannot read grants nothing; only an empty intervention means advice.\<close>

lemma From_range:
  "FromDaemonMode s = ObserveOnly \<or> to_lower (trim_space s) = ''active''"
  "FromAutonomy s = ObserveOnly \<or> to_lower (trim_space s) \<in> {''advise'', ''ask'', ''autonomous''}"
  "FromSmartRoutingIntervention s = ObserveOnly \<or>
     to_lower (trim_space s) \<in> {'''', ''advise'', ''delegate'', ''auto''}"
  by (auto simp: FromDaemonMode_def FromAutonomy_def FromSmartRoutingIntervention_def Let_def)

end
