(* ===== verification/GoFloat.thy ===== *)
theory GoFloat
  imports GoStrings
begin

text \<open>
  Go's \<open>float64\<close>: a finite value is the rational it stands for, and the infinities and NaN
  are values of their own. Comparisons are exact and false on NaN, as IEEE 754's are;
  arithmetic rounds to the nearest double, ties to even (\<open>round64\<close>). Formatting follows
  \<open>strconv.FormatFloat\<close>: \<open>%.nf\<close> rounds the exact decimal value half to even, and \<open>%g\<close> prints
  the fewest digits that read back as the same double. The sign of zero is not kept.
\<close>

datatype f64 = Fin rat | PInf | NInf | NaN

subsection \<open>Comparisons\<close>

definition f_lt :: "f64 \<Rightarrow> f64 \<Rightarrow> bool" where
  "f_lt a b = (case a of
       Fin x \<Rightarrow> (case b of Fin y \<Rightarrow> x < y | PInf \<Rightarrow> True | NInf \<Rightarrow> False | NaN \<Rightarrow> False)
     | NInf \<Rightarrow> (case b of Fin y \<Rightarrow> True | PInf \<Rightarrow> True | NInf \<Rightarrow> False | NaN \<Rightarrow> False)
     | PInf \<Rightarrow> False
     | NaN \<Rightarrow> False)"

definition f_eq :: "f64 \<Rightarrow> f64 \<Rightarrow> bool" where
  "f_eq a b \<longleftrightarrow> a \<noteq> NaN \<and> a = b"

definition f_le :: "f64 \<Rightarrow> f64 \<Rightarrow> bool" where
  "f_le a b \<longleftrightarrow> f_lt a b \<or> f_eq a b"

lemma f_lt_simps [simp]:
  "f_lt (Fin x) (Fin y) \<longleftrightarrow> x < y"
  "f_lt NaN b \<longleftrightarrow> False"
  "f_lt a NaN \<longleftrightarrow> False"
  "f_lt PInf b \<longleftrightarrow> False"
  "f_lt a NInf \<longleftrightarrow> False"
  by (cases a; cases b; simp add: f_lt_def)+

lemma f_eq_simps [simp]:
  "f_eq (Fin x) (Fin y) \<longleftrightarrow> x = y"
  "f_eq NaN b \<longleftrightarrow> False"
  "f_eq a NaN \<longleftrightarrow> False"
  by (auto simp: f_eq_def)

lemma f_le_Fin [simp]: "f_le (Fin x) (Fin y) \<longleftrightarrow> x \<le> y"
  by (auto simp: f_le_def)

lemma f_lt_asym: "f_lt a b \<Longrightarrow> \<not> f_lt b a"
  by (cases a; cases b) (auto simp: f_lt_def)

lemma f_lt_trans: "f_lt a b \<Longrightarrow> f_lt b c \<Longrightarrow> f_lt a c"
  by (cases a; cases b; cases c) (auto simp: f_lt_def)

lemma f_lt_negtrans: "b \<noteq> NaN \<Longrightarrow> \<not> f_lt a b \<Longrightarrow> \<not> f_lt b c \<Longrightarrow> \<not> f_lt a c"
  by (cases a; cases b; cases c) (auto simp: f_lt_def)

lemma f_lt_total: "a \<noteq> NaN \<Longrightarrow> b \<noteq> NaN \<Longrightarrow> f_lt a b \<or> a = b \<or> f_lt b a"
  by (cases a; cases b) (auto simp: f_lt_def)

text \<open>The loops that keep the smallest or the largest reading satisfy the contract of the prelude.\<close>

interpretation f_min: first_best "\<lambda>a. a \<noteq> NaN" f_lt
  using f_lt_asym f_lt_negtrans by unfold_locales blast+

interpretation f_max: first_best "\<lambda>a. a \<noteq> NaN" "\<lambda>a b. f_lt b a"
  using f_lt_asym f_lt_negtrans by unfold_locales blast+

text \<open>\<open>float64(n)\<close> of a Go int; exact, as every count converted here is far below \<open>2 ^ 53\<close>.\<close>

definition f_int :: "int \<Rightarrow> f64" where
  "f_int n = Fin (of_int n)"

lemma f_int_compare [simp]:
  "f_lt (f_int m) (f_int n) \<longleftrightarrow> m < n"
  "f_le (f_int m) (f_int n) \<longleftrightarrow> m \<le> n"
  "f_eq (f_int m) (f_int n) \<longleftrightarrow> m = n"
  by (simp_all add: f_int_def)

lemma f_int_not_NaN [simp]: "f_int n \<noteq> NaN"
  by (simp add: f_int_def)

subsection \<open>Rounding\<close>

function bit_len :: "int \<Rightarrow> int" where
  "bit_len n = (if n \<le> 0 then 0 else bit_len (n div 2) + 1)"
  by pat_completeness auto
termination
  by (relation "measure nat") auto

declare bit_len.simps [simp del]

definition pow2 :: "int \<Rightarrow> rat" where
  "pow2 k = (if 0 \<le> k then 2 ^ nat k else 1 / 2 ^ nat (- k))"

definition pow10 :: "int \<Rightarrow> rat" where
  "pow10 k = (if 0 \<le> k then 10 ^ nat k else 1 / 10 ^ nat (- k))"

definition ilog2 :: "rat \<Rightarrow> int" where
  "ilog2 a =
     (let (p, q) = quotient_of a; k = bit_len p - bit_len q
      in if pow2 k \<le> a then k else k - 1)"

definition ilog10 :: "rat \<Rightarrow> int" where
  "ilog10 a =
     (if 1 \<le> a then int (length (dec_str \<lfloor>a\<rfloor>)) - 1
      else if \<lceil>1 / a\<rceil> \<le> 1 then 0
      else - int (length (dec_str (\<lceil>1 / a\<rceil> - 1))))"

definition round_half_even :: "rat \<Rightarrow> int" where
  "round_half_even x =
     (let f = \<lfloor>x\<rfloor>; d = x - of_int f
      in if d < 1 / 2 then f else if 1 / 2 < d then f + 1 else if even f then f else f + 1)"

definition round64 :: "rat \<Rightarrow> f64" where
  "round64 x =
     (if x = 0 then Fin 0
      else let a = \<bar>x\<bar>; k = max (ilog2 a - 52) (- 1074);
               v = of_int (round_half_even (a / pow2 k)) * pow2 k
           in if 2 ^ 1024 \<le> v then (if x < 0 then NInf else PInf)
              else Fin (if x < 0 then - v else v))"

text \<open>\<open>100 - x\<close> and \<open>max(0, x)\<close> of Go, whose \<open>max\<close> is NaN when an operand is.\<close>

fun f_sub :: "f64 \<Rightarrow> f64 \<Rightarrow> f64" where
  "f_sub (Fin x) (Fin y) = round64 (x - y)"
| "f_sub NaN b = NaN"
| "f_sub a NaN = NaN"
| "f_sub PInf b = (if b = PInf then NaN else PInf)"
| "f_sub NInf b = (if b = NInf then NaN else NInf)"
| "f_sub (Fin x) PInf = NInf"
| "f_sub (Fin x) NInf = PInf"

definition f_max :: "f64 \<Rightarrow> f64 \<Rightarrow> f64" where
  "f_max a b = (if a = NaN \<or> b = NaN then NaN else if f_lt a b then b else a)"

lemma round_half_even_close: "\<bar>of_int (round_half_even x) - x\<bar> \<le> 1 / 2"
proof -
  define d where "d = x - of_int \<lfloor>x\<rfloor>"
  have d: "0 \<le> d" "d < 1" and x: "x = of_int \<lfloor>x\<rfloor> + d" unfolding d_def by linarith+
  have "round_half_even x = \<lfloor>x\<rfloor> \<and> d \<le> 1 / 2 \<or> round_half_even x = \<lfloor>x\<rfloor> + 1 \<and> 1 / 2 \<le> d"
    unfolding round_half_even_def Let_def d_def [symmetric] by auto
  then show ?thesis
  proof
    assume "round_half_even x = \<lfloor>x\<rfloor> \<and> d \<le> 1 / 2"
    then have "of_int (round_half_even x) - x = - d" "d \<le> 1 / 2" using x by simp_all
    then show ?thesis using d by simp
  next
    assume "round_half_even x = \<lfloor>x\<rfloor> + 1 \<and> 1 / 2 \<le> d"
    then have "of_int (round_half_even x) - x = 1 - d" "1 / 2 \<le> d" using x by simp_all
    then show ?thesis using d by simp
  qed
qed

lemma round_half_even_int [simp]: "round_half_even (of_int n) = n"
  by (simp add: round_half_even_def)

lemma round_half_even_mono: "x \<le> y \<Longrightarrow> round_half_even x \<le> round_half_even y"
proof -
  assume le: "x \<le> y"
  then have fl: "\<lfloor>x\<rfloor> \<le> \<lfloor>y\<rfloor>" by (rule floor_mono)
  show ?thesis
  proof (cases "\<lfloor>x\<rfloor> = \<lfloor>y\<rfloor>")
    case True
    then show ?thesis using le unfolding round_half_even_def Let_def by auto
  next
    case False
    with fl have "\<lfloor>x\<rfloor> + 1 \<le> \<lfloor>y\<rfloor>" by linarith
    moreover have "round_half_even x \<le> \<lfloor>x\<rfloor> + 1" "\<lfloor>y\<rfloor> \<le> round_half_even y"
      unfolding round_half_even_def Let_def by auto
    ultimately show ?thesis by linarith
  qed
qed

subsection \<open>Formatting\<close>

text \<open>\<open>%.nf\<close>.\<close>

definition fmt_fixed :: "nat \<Rightarrow> f64 \<Rightarrow> string" where
  "fmt_fixed n v = (case v of
       Fin x \<Rightarrow>
         (let s = pad_int (n + 1) (round_half_even (\<bar>x\<bar> * 10 ^ n));
              w = length s - n
          in (if x < 0 then ''-'' else '''') @ take w s @ (if n = 0 then '''' else ''.'' @ drop w s))
     | PInf \<Rightarrow> ''+Inf'' | NInf \<Rightarrow> ''-Inf'' | NaN \<Rightarrow> ''NaN'')"

text \<open>The \<open>n\<close> significant decimal digits nearest to \<open>a > 0\<close>, with the exponent of the first.\<close>

definition sig_digits :: "nat \<Rightarrow> rat \<Rightarrow> int \<times> int" where
  "sig_digits n a =
     (let e = ilog10 a; m = round_half_even (a / pow10 (e - int n + 1))
      in if m = 10 ^ n then (10 ^ (n - 1), e + 1) else (m, e))"

definition sig_value :: "nat \<Rightarrow> int \<times> int \<Rightarrow> rat" where
  "sig_value n d = of_int (fst d) * pow10 (snd d - int n + 1)"

text \<open>The fewest digits that read back as \<open>a\<close>; seventeen always do for a double.\<close>

definition shortest_digits :: "rat \<Rightarrow> nat" where
  "shortest_digits a =
     (case find (\<lambda>n. round64 (sig_value n (sig_digits n a)) = Fin a) [1..<17] of
        None \<Rightarrow> 17 | Some n \<Rightarrow> n)"

text \<open>
  \<open>%g\<close> without a precision, which is \<open>strconv.FormatFloat(x, 'g', -1, 64)\<close>: the exponent
  form below \<open>1e-04\<close> and from \<open>1e+06\<close> on, the plain form between.
\<close>

definition fmt_g_pos :: "rat \<Rightarrow> string" where
  "fmt_g_pos a =
     (let n = shortest_digits a; (m, e) = sig_digits n a; ds = dec_str m
      in if e < - 4 \<or> 6 \<le> e
         then take 1 ds @ (if n = 1 then '''' else ''.'' @ drop 1 ds) @ ''e'' @
              (if e < 0 then ''-'' else ''+'') @ pad_int 2 \<bar>e\<bar>
         else if e < 0 then ''0.'' @ replicate (nat (- e - 1)) (CHR ''0'') @ ds
         else if int n \<le> e + 1 then ds @ replicate (nat (e + 1 - int n)) (CHR ''0'')
         else take (nat (e + 1)) ds @ ''.'' @ drop (nat (e + 1)) ds)"

definition fmt_g :: "f64 \<Rightarrow> string" where
  "fmt_g v = (case v of
       Fin x \<Rightarrow> if x = 0 then ''0'' else if x < 0 then ''-'' @ fmt_g_pos (- x) else fmt_g_pos x
     | PInf \<Rightarrow> ''+Inf'' | NInf \<Rightarrow> ''-Inf'' | NaN \<Rightarrow> ''NaN'')"

subsection \<open>Parsing\<close>

text \<open>
  \<open>strconv.ParseFloat(s, 64)\<close>: decimal and hexadecimal floating-point literals of Go with an
  optional sign, \<open>inf\<close>, \<open>infinity\<close> and \<open>nan\<close> in any case, underscores between digits. None
  is an error, of syntax or of range.
\<close>

definition is_hex :: "char \<Rightarrow> bool" where
  "is_hex c \<longleftrightarrow> is_digit c \<or> (97 \<le> code (lower_char c) \<and> code (lower_char c) \<le> 102)"

definition hex_val :: "char \<Rightarrow> nat" where
  "hex_val c = (if is_digit c then digit_val c else code (lower_char c) - 87)"

definition base_val :: "int \<Rightarrow> (char \<Rightarrow> nat) \<Rightarrow> string \<Rightarrow> int" where
  "base_val b v s = foldl (\<lambda>n c. n * b + int (v c)) 0 s"

definition parse_exp :: "string \<Rightarrow> int option" where
  "parse_exp s =
     (let (neg, ds) = (case s of [] \<Rightarrow> (False, [])
                       | c # r \<Rightarrow> if c = CHR ''-'' then (True, r)
                                  else if c = CHR ''+'' then (False, r) else (False, s))
      in if ds = [] \<or> \<not> list_all is_digit ds then None
         else Some (if neg then - digits_val ds else digits_val ds))"

text \<open>Mantissa digits, an optional point, and what follows.\<close>

definition parse_mantissa :: "(char \<Rightarrow> bool) \<Rightarrow> string \<Rightarrow> string \<times> string \<times> string" where
  "parse_mantissa dig s =
     (let i = takeWhile dig s; r = dropWhile dig s
      in if r \<noteq> [] \<and> hd r = CHR ''.'' then (i, takeWhile dig (tl r), dropWhile dig (tl r))
         else (i, [], r))"

definition parse_dec :: "string \<Rightarrow> rat option" where
  "parse_dec s =
     (let (i, f, r) = parse_mantissa is_digit s; m = of_int (digits_val (i @ f)) / 10 ^ length f
      in if i @ f = [] then None
         else if r = [] then Some m
         else if lower_char (hd r) = CHR ''e'' then map_option (\<lambda>e. m * pow10 e) (parse_exp (tl r))
         else None)"

definition parse_hex :: "string \<Rightarrow> rat option" where
  "parse_hex s =
     (let (i, f, r) = parse_mantissa is_hex s; m = of_int (base_val 16 hex_val (i @ f)) / 16 ^ length f
      in if i @ f = [] \<or> r = [] \<or> lower_char (hd r) \<noteq> CHR ''p'' then None
         else map_option (\<lambda>e. m * pow2 e) (parse_exp (tl r)))"

text \<open>An underscore stands between two digits, or between the base prefix and a digit.\<close>

fun underscores_ok :: "bool \<Rightarrow> bool \<Rightarrow> string \<Rightarrow> bool" where
  "underscores_ok hex after_digit [] = True"
| "underscores_ok hex after_digit (c # s) =
     (if c = CHR ''_'' then
        after_digit \<and> s \<noteq> [] \<and> (if hex then is_hex (hd s) else is_digit (hd s)) \<and> underscores_ok hex False s
      else underscores_ok hex (if hex then is_hex c else is_digit c) s)"

definition ParseFloat :: "string \<Rightarrow> f64 option" where
  "ParseFloat s =
     (let (neg, body) = (case s of [] \<Rightarrow> (False, [])
                         | c # r \<Rightarrow> if c = CHR ''-'' then (True, r)
                                    else if c = CHR ''+'' then (False, r) else (False, s));
          hex = (case body of a # b # _ \<Rightarrow> a = CHR ''0'' \<and> lower_char b = CHR ''x'' | _ \<Rightarrow> False);
          num = (if hex then drop 2 body else body);
          digits = filter (\<lambda>c. c \<noteq> CHR ''_'') num
      in if to_lower body \<in> {''inf'', ''infinity''} then Some (if neg then NInf else PInf)
         else if to_lower s = ''nan'' then Some NaN
         else if CHR ''_'' \<in> set num \<and> \<not> underscores_ok hex hex num then None
         else case (if hex then parse_hex digits else parse_dec digits) of
                None \<Rightarrow> None
              | Some v \<Rightarrow> (case round64 (if neg then - v else v) of Fin x \<Rightarrow> Some (Fin x) | _ \<Rightarrow> None))"

end
