(* ===== verification/GoPath.thy ===== *)
theory GoPath
  imports GoStrings
begin

text \<open>
  Go's \<open>path/filepath\<close> on a Unix machine, as far as the program uses it: \<open>Match\<close> with its
  three-way result (matched, not matched, bad pattern), \<open>Clean\<close>, \<open>Dir\<close>, \<open>Base\<close>, \<open>IsAbs\<close> and
  \<open>Join\<close> of two elements. \<open>path.Match\<close> is the same function on Unix. A character is a byte.
\<close>

subsection \<open>Match\<close>

text \<open>
  One element of a chunk: a class with its negation and ranges, any one character but the
  separator, or the character itself.
\<close>

datatype glob = Class bool "(nat \<times> nat) list" | AnyChar | Lit char

text \<open>\<open>getEsc\<close>: a possibly escaped character of a class; the class must go on after it.\<close>

fun getEsc :: "string \<Rightarrow> (char \<times> string) option" where
  "getEsc [] = None"
| "getEsc (c # s) =
     (if c = CHR ''-'' \<or> c = CHR '']'' then None
      else if c = CHR 0x5C then (case s of d # e # r \<Rightarrow> Some (d, e # r) | _ \<Rightarrow> None)
      else if s = [] then None else Some (c, s))"

lemma getEsc_shorter: "getEsc s = Some (c, r) \<Longrightarrow> length r < length s \<and> r \<noteq> []"
  by (cases s) (auto split: if_splits list.splits)

text \<open>The ranges of a class up to its closing bracket, which must come after at least one.\<close>

function parse_class :: "bool \<Rightarrow> (nat \<times> nat) list \<Rightarrow> string \<Rightarrow> ((nat \<times> nat) list \<times> string) option" where
  "parse_class some acc s =
     (if some \<and> s \<noteq> [] \<and> hd s = CHR '']'' then Some (rev acc, tl s)
      else case getEsc s of
             None \<Rightarrow> None
           | Some (lo, r) \<Rightarrow>
               if hd r = CHR ''-'' then
                 (case getEsc (tl r) of
                    None \<Rightarrow> None
                  | Some (hi, r') \<Rightarrow> parse_class True ((code lo, code hi) # acc) r')
               else parse_class True ((code lo, code lo) # acc) r)"
  by pat_completeness auto
termination
proof (relation "measure (\<lambda>(_, _, s). length s)", goal_cases)
  case (2 some acc s x2 lo r x2a hi r')
  then have "length r < length s" "r \<noteq> []" "length r' < length (tl r)"
    using getEsc_shorter [of s lo r] getEsc_shorter [of "tl r" hi r'] by auto
  then show ?case by simp
next
  case (3 some acc s x2 lo r)
  then show ?case using getEsc_shorter [of s lo r] by auto
qed simp

declare parse_class.simps [simp del]

lemma parse_class_shorter: "parse_class some acc s = Some (rs, r) \<Longrightarrow> length r < length s"
proof (induction some acc s rule: parse_class.induct)
  case (1 some acc s)
  show ?case
  proof (cases "some \<and> s \<noteq> [] \<and> hd s = CHR '']''")
    case True
    with "1.prems" have "r = tl s" "s \<noteq> []" by (auto simp: parse_class.simps [of True acc s])
    then show ?thesis by simp
  next
    case False
    with "1.prems" obtain lo q where q: "getEsc s = Some (lo, q)"
      by (auto simp: parse_class.simps [of some acc s] split: option.splits)
    note len = getEsc_shorter [OF q]
    show ?thesis
    proof (cases "hd q = CHR ''-''")
      case True
      with False q "1.prems" obtain hi q' where q': "getEsc (tl q) = Some (hi, q')"
        by (auto simp: parse_class.simps [of some acc s] split: option.splits)
      have "length r < length q'"
        using "1.IH"(1) [OF False q refl True q' refl] "1.prems" False q True q'
        by (auto simp: parse_class.simps [of some acc s])
      then show ?thesis using len getEsc_shorter [OF q'] by (metis diff_le_self length_tl less_le_trans order_less_trans)
    next
      case nodash: False
      have "length r < length q"
        using "1.IH"(2) [OF False q refl nodash] "1.prems" False q nodash
        by (auto simp: parse_class.simps [of some acc s])
      then show ?thesis using len by simp
    qed
  qed
qed

text \<open>A chunk as its elements; None is \<open>ErrBadPattern\<close>.\<close>

function parse_chunk :: "string \<Rightarrow> glob list option" where
  "parse_chunk [] = Some []"
| "parse_chunk (c # s) =
     (if c = CHR ''['' then
        (let neg = (s \<noteq> [] \<and> hd s = CHR ''^'')
         in case parse_class False [] (if neg then tl s else s) of
              None \<Rightarrow> None
            | Some (rs, r) \<Rightarrow> map_option ((#) (Class neg rs)) (parse_chunk r))
      else if c = CHR ''?'' then map_option ((#) AnyChar) (parse_chunk s)
      else if c = CHR 0x5C then
        (case s of [] \<Rightarrow> None | d # r \<Rightarrow> map_option ((#) (Lit d)) (parse_chunk r))
      else map_option ((#) (Lit c)) (parse_chunk s))"
  by pat_completeness auto
termination
proof (relation "measure length", goal_cases)
  case (2 c s x x2 rs r)
  then have "length r < length (if x then tl s else s)" using parse_class_shorter by blast
  then show ?case by (auto split: if_splits)
qed auto

definition glob_char :: "glob \<Rightarrow> char \<Rightarrow> bool" where
  "glob_char g c = (case g of
       Class neg rs \<Rightarrow> list_ex (\<lambda>(lo, hi). lo \<le> code c \<and> code c \<le> hi) rs \<noteq> neg
     | AnyChar \<Rightarrow> c \<noteq> CHR ''/''
     | Lit d \<Rightarrow> c = d)"

text \<open>\<open>matchChunk\<close>: the rest of the name after the chunk, if the name starts with a match.\<close>

fun match_chunk :: "glob list \<Rightarrow> string \<Rightarrow> string option" where
  "match_chunk [] s = Some s"
| "match_chunk (g # gs) [] = None"
| "match_chunk (g # gs) (c # s) = (if glob_char g c then match_chunk gs s else None)"

text \<open>
  \<open>scanChunk\<close>: leading stars, then everything up to the next star outside a class. The
  escape skips a character, as the scan does.
\<close>

definition in_class :: "bool \<Rightarrow> char \<Rightarrow> bool" where
  "in_class inrange c \<longleftrightarrow> c = CHR ''['' \<or> (inrange \<and> c \<noteq> CHR '']'')"

fun scan_chunk :: "bool \<Rightarrow> string \<Rightarrow> string \<times> string" where
  "scan_chunk inrange [] = ([], [])"
| "scan_chunk inrange [c] = (if c = CHR ''*'' \<and> \<not> inrange then ([], [c]) else ([c], []))"
| "scan_chunk inrange (c # d # s) =
     (if c = CHR ''*'' \<and> \<not> inrange then ([], c # d # s)
      else if c = CHR 0x5C then apfst (\<lambda>a. c # d # a) (scan_chunk inrange s)
      else apfst ((#) c) (scan_chunk (in_class inrange c) (d # s)))"

lemma scan_chunk_length: "length (fst (scan_chunk i s)) + length (snd (scan_chunk i s)) = length s"
  by (induction i s rule: scan_chunk.induct) simp_all

lemma scan_chunk_le: "length (snd (scan_chunk i s)) \<le> length s"
  using scan_chunk_length [of i s] by simp

lemma scan_chunk_progress:
  "s \<noteq> [] \<Longrightarrow> hd s \<noteq> CHR ''*'' \<Longrightarrow> length (snd (scan_chunk False s)) < length s"
  using scan_chunk_le [of "in_class False (hd s)" "tl s"] scan_chunk_le [of False "tl (tl s)"]
  by (cases "(False, s)" rule: scan_chunk.cases) (simp_all add: less_Suc_eq_le)

text \<open>A pattern as its chunks: whether a star precedes the chunk, and the chunk.\<close>

function chunks :: "string \<Rightarrow> (bool \<times> string) list" where
  "chunks p =
     (if p = [] then []
      else case scan_chunk False (dropWhile (\<lambda>c. c = CHR ''*'') p) of
             (c, r) \<Rightarrow> (hd p = CHR ''*'', c) # chunks r)"
  by pat_completeness auto
termination
proof (relation "measure length", goal_cases)
  case (2 p c r)
  let ?q = "dropWhile (\<lambda>c. c = CHR ''*'') p"
  have r: "r = snd (scan_chunk False ?q)" using 2 by (metis snd_conv)
  have le: "length r \<le> length ?q" using scan_chunk_length [of False ?q] unfolding r by simp
  show ?case
  proof (cases "hd p = CHR ''*''")
    case True
    with 2 have "length ?q < length p" by (cases p) (auto simp: less_Suc_eq_le length_dropWhile_le)
    with le show ?thesis by simp
  next
    case False
    with 2 have "?q = p" by (cases p) auto
    then show ?thesis using scan_chunk_progress [of p] False 2 r by simp
  qed
qed simp

declare chunks.simps [simp del]

datatype match_result = Matched | NotMatched | BadPattern

text \<open>
  After a failed match the rest of the pattern is still checked, so a bad pattern is always
  reported, unless the name ran out of candidates for a trailing star before it.
\<close>

fun first_match :: "glob list \<Rightarrow> bool \<Rightarrow> string \<Rightarrow> string option" where
  \<comment> \<open>the loop over skipped characters, which stops at a separator\<close>
  "first_match gs is_last [] = None"
| "first_match gs is_last (c # s) =
     (if c = CHR ''/'' then None
      else case match_chunk gs s of
             Some t \<Rightarrow> if is_last \<and> t \<noteq> [] then first_match gs is_last s else Some t
           | None \<Rightarrow> first_match gs is_last s)"

fun match_chunks :: "(bool \<times> string) list \<Rightarrow> string \<Rightarrow> match_result" where
  "match_chunks [] name = (if name = [] then Matched else NotMatched)"
| "match_chunks ((star, chunk) # rest) name =
     (if star \<and> chunk = [] then (if CHR ''/'' \<in> set name then NotMatched else Matched)
      else case parse_chunk chunk of
             None \<Rightarrow> BadPattern
           | Some gs \<Rightarrow>
               (case match_chunk gs name of
                  Some t \<Rightarrow>
                    if t = [] \<or> rest \<noteq> [] then match_chunks rest t
                    else if star then
                      (case first_match gs (rest = []) name of
                         Some u \<Rightarrow> match_chunks rest u
                       | None \<Rightarrow> NotMatched)
                    else NotMatched
                | None \<Rightarrow>
                    (case (if star then first_match gs (rest = []) name else None) of
                       Some u \<Rightarrow> match_chunks rest u
                     | None \<Rightarrow> if list_all (\<lambda>(_, c). parse_chunk c \<noteq> None) rest then NotMatched else BadPattern)))"

definition Match :: "string \<Rightarrow> string \<Rightarrow> match_result" where
  "Match pattern name = match_chunks (chunks pattern) name"

definition matches :: "string \<Rightarrow> string \<Rightarrow> bool" where
  "matches pattern name \<longleftrightarrow> Match pattern name = Matched"

definition valid_pattern :: "string \<Rightarrow> bool" where
  "valid_pattern pattern \<longleftrightarrow> Match pattern [] \<noteq> BadPattern"

subsection \<open>Clean, Dir, Base, Join\<close>

text \<open>One element of a path on the stack of those kept, newest first.\<close>

fun clean_step :: "bool \<Rightarrow> string list \<Rightarrow> string \<Rightarrow> string list" where
  "clean_step rooted out e =
     (if e = [] \<or> e = ''.'' then out
      else if e = ''..'' then
        (case out of
           [] \<Rightarrow> if rooted then [] else [e]
         | o1 # os \<Rightarrow> if o1 = ''..'' then e # out else os)
      else e # out)"

definition is_abs :: "string \<Rightarrow> bool" where
  "is_abs p \<longleftrightarrow> has_prefix p ''/''"

definition Clean :: "string \<Rightarrow> string" where
  "Clean p =
     (let body = join ''/'' (rev (foldl (clean_step (is_abs p)) [] (split (CHR ''/'') p)))
      in if is_abs p then CHR ''/'' # body else if body = [] then ''.'' else body)"

text \<open>The path up to and with its last separator.\<close>

definition dir_part :: "string \<Rightarrow> string" where
  "dir_part p = rev (dropWhile (\<lambda>c. c \<noteq> CHR ''/'') (rev p))"

definition Dir :: "string \<Rightarrow> string" where
  "Dir p = Clean (dir_part p)"

definition Base :: "string \<Rightarrow> string" where
  "Base p =
     (if p = [] then ''.''
      else let q = rev (dropWhile (\<lambda>c. c = CHR ''/'') (rev p));
               b = rev (takeWhile (\<lambda>c. c \<noteq> CHR ''/'') (rev q))
           in if b = [] then ''/'' else b)"

definition Join2 :: "string \<Rightarrow> string \<Rightarrow> string" where
  "Join2 a b =
     (if a = [] then (if b = [] then [] else Clean b)
      else if b = [] then Clean a else Clean (a @ ''/'' @ b))"

subsection \<open>A parent is shorter\<close>

definition weight :: "string list \<Rightarrow> nat" where
  "weight es = (\<Sum>e\<leftarrow>es. Suc (length e))"

lemma weight_simps [simp]:
  "weight [] = 0" "weight (e # es) = Suc (length e) + weight es" "weight (a @ b) = weight a + weight b"
  by (simp_all add: weight_def)

lemma weight_split: "weight (split c s) = Suc (length s)"
  by (induction s) (auto split: list.splits)

lemma length_join1: "es \<noteq> [] \<Longrightarrow> Suc (length (join [c] es)) = weight es"
  by (induction es rule: induct_list012) auto

lemma weight_rev [simp]: "weight (rev es) = weight es"
  by (induction es) auto

lemma weight_clean_step: "weight (clean_step r out e) \<le> weight out + (if e = [] then 0 else Suc (length e))"
  by (auto split: list.splits)

declare clean_step.simps [simp del]

lemma weight_foldl_clean:
  "weight (foldl (clean_step r) out es) + length (filter (\<lambda>e. e = []) es) \<le> weight out + weight es"
proof (induction es arbitrary: out)
  case (Cons e es)
  have "weight (foldl (clean_step r) (clean_step r out e) es) + length (filter (\<lambda>e. e = []) es)
      \<le> weight (clean_step r out e) + weight es" by (rule Cons.IH)
  with weight_clean_step [of r out e] show ?case by (simp split: if_splits)
qed simp

lemma split_snoc_sep: "split c (s @ [c]) = split c s @ [[]]"
proof (induction s)
  case (Cons d s)
  then show ?case by (cases "split c s") auto
qed simp

lemma Clean_shorter:
  assumes "p \<noteq> []" and "last p = CHR ''/''"
  shows "Clean p = ''/'' \<or> Clean p = ''.'' \<or> length (Clean p) < length p"
proof -
  define kept where "kept = rev (foldl (clean_step (is_abs p)) [] (split (CHR ''/'') p))"
  define empties where "empties = length (filter (\<lambda>e. e = []) (split (CHR ''/'') p))"
  have w: "weight kept + empties \<le> Suc (length p)"
    using weight_foldl_clean [of "is_abs p" "[]" "split (CHR ''/'') p"]
    by (simp add: kept_def empties_def weight_split)
  obtain q where q: "p = q @ ''/''" using assms by (metis append_butlast_last_id)
  then have sp: "split (CHR ''/'') p = split (CHR ''/'') q @ [[]]" by (simp add: split_snoc_sep)
  then have one: "1 \<le> empties" by (simp add: empties_def)
  show ?thesis
  proof (cases "kept = []")
    case True
    then show ?thesis by (simp add: Clean_def kept_def [symmetric] Let_def)
  next
    case ne: False
    then have lb: "Suc (length (join ''/'' kept)) = weight kept" by (rule length_join1)
    show ?thesis
    proof (cases "is_abs p")
      case True
      have "2 \<le> empties"
      proof (cases q)
        case Nil
        with sp show ?thesis by (simp add: empties_def)
      next
        case (Cons c r)
        with True q have "c = CHR ''/''" by (auto simp: is_abs_def has_prefix_iff)
        with sp Cons show ?thesis by (simp add: empties_def)
      qed
      then have "Suc (length (join ''/'' kept)) < length p" using w lb by linarith
      moreover have "Clean p = CHR ''/'' # join ''/'' kept" using True by (simp add: Clean_def kept_def Let_def)
      ultimately have "length (Clean p) < length p" by simp
      then show ?thesis by simp
    next
      case False
      with one w lb have "length (join ''/'' kept) < length p" by simp
      moreover have "Clean p = (if join ''/'' kept = [] then ''.'' else join ''/'' kept)"
        using False by (simp add: Clean_def kept_def Let_def)
      ultimately show ?thesis by simp
    qed
  qed
qed

lemma Dir_shorter: "Dir p = ''/'' \<or> Dir p = ''.'' \<or> length (Dir p) < length p"
proof (cases "dir_part p = []")
  case True
  then show ?thesis by (simp add: Dir_def Clean_def is_abs_def has_prefix_def clean_step.simps)
next
  case False
  define u where "u = dropWhile (\<lambda>c. c \<noteq> CHR ''/'') (rev p)"
  have u: "u \<noteq> []" "hd u = CHR ''/''" using False hd_dropWhile [of "\<lambda>c. c \<noteq> CHR ''/''" "rev p"]
    by (auto simp: u_def dir_part_def)
  have "length u \<le> length p" using length_dropWhile_le [of _ "rev p"] by (simp add: u_def)
  moreover have "dir_part p = rev u" by (simp add: dir_part_def u_def)
  moreover have "last (rev u) = CHR ''/''" using u by (simp add: last_rev)
  ultimately show ?thesis using Clean_shorter [of "rev u"] u by (auto simp: Dir_def)
qed

lemma Dir_root [simp]: "Dir ''/'' = ''/''"
  by code_simp

lemma Dir_dot [simp]: "Dir ''.'' = ''.''"
  by code_simp

subsection \<open>Clean absolute paths\<close>

text \<open>
  A clean absolute path is \<open>/\<close> and its elements joined by \<open>/\<close>: none empty, dot or dot-dot.
\<close>

definition elem_ok :: "string \<Rightarrow> bool" where
  "elem_ok e \<longleftrightarrow> e \<noteq> [] \<and> e \<noteq> ''.'' \<and> e \<noteq> ''..'' \<and> CHR ''/'' \<notin> set e"

definition path_of :: "string list \<Rightarrow> string" where
  "path_of es = CHR ''/'' # join ''/'' es"

lemma split_no_sep_elems: "e \<in> set (split c s) \<Longrightarrow> c \<notin> set e"
  by (induction s arbitrary: e) (auto split: if_splits list.splits)

lemma clean_step_elems:
  "\<forall>x\<in>set out. elem_ok x \<Longrightarrow> CHR ''/'' \<notin> set e \<Longrightarrow> x \<in> set (clean_step True out e) \<Longrightarrow> elem_ok x"
proof -
  assume out: "\<forall>x\<in>set out. elem_ok x" and sep: "CHR ''/'' \<notin> set e" and x: "x \<in> set (clean_step True out e)"
  show "elem_ok x"
  proof (cases "e = [] \<or> e = ''.''")
    case True
    then show ?thesis using out x by (simp add: clean_step.simps)
  next
    case ne: False
    show ?thesis
    proof (cases "e = ''..''")
      case True
      show ?thesis
      proof (cases out)
        case (Cons o1 os)
        then have "elem_ok o1" using out by simp
        then have "o1 \<noteq> ''..''" unfolding elem_ok_def by blast
        then show ?thesis using out x Cons True by (simp add: clean_step.simps)
      qed (use x True in \<open>simp add: clean_step.simps\<close>)
    next
      case False
      with ne sep have "elem_ok e" unfolding elem_ok_def by blast
      then show ?thesis using out x ne False by (simp add: clean_step.simps) blast
    qed
  qed
qed

lemma foldl_clean_elems:
  "\<forall>x\<in>set out. elem_ok x \<Longrightarrow> \<forall>e\<in>set es. CHR ''/'' \<notin> set e \<Longrightarrow>
   \<forall>x\<in>set (foldl (clean_step True) out es). elem_ok x"
proof (induction es arbitrary: out)
  case (Cons e es)
  have "\<forall>x\<in>set (clean_step True out e). elem_ok x" using clean_step_elems Cons.prems by auto
  then show ?case using Cons.IH Cons.prems by simp
qed simp

lemma Clean_abs:
  assumes "is_abs p"
  obtains es where "\<forall>e\<in>set es. elem_ok e" and "Clean p = path_of es"
proof
  let ?es = "rev (foldl (clean_step True) [] (split (CHR ''/'') p))"
  show "\<forall>e\<in>set ?es. elem_ok e" using foldl_clean_elems [of "[]"] split_no_sep_elems by fastforce
  show "Clean p = path_of ?es" using assms by (simp add: Clean_def path_of_def)
qed

lemma is_abs_path_of [simp]: "is_abs (path_of es)"
  by (simp add: is_abs_def has_prefix_def path_of_def)

lemma foldl_clean_ok: "\<forall>e\<in>set es. elem_ok e \<Longrightarrow> foldl (clean_step r) out es = rev es @ out"
  by (induction es arbitrary: out) (auto simp: clean_step.simps elem_ok_def)

lemma split_path_of:
  "\<forall>e\<in>set es. elem_ok e \<Longrightarrow> split (CHR ''/'') (path_of es) = [] # (if es = [] then [[]] else es)"
  using split_join [of es "CHR ''/''"] by (auto simp: path_of_def elem_ok_def)

lemma Clean_path_of: "\<forall>e\<in>set es. elem_ok e \<Longrightarrow> Clean (path_of es) = path_of es"
  using foldl_clean_ok [of es True "[]"]
  by (simp add: Clean_def split_path_of clean_step.simps) (simp add: path_of_def)

lemma join_snoc: "es \<noteq> [] \<Longrightarrow> join s (es @ [e]) = join s es @ s @ e"
  by (induction es rule: induct_list012) auto

lemma dir_part_append: "CHR ''/'' \<notin> set e \<Longrightarrow> dir_part (a @ ''/'' @ e) = a @ ''/''"
proof -
  assume "CHR ''/'' \<notin> set e"
  then have "dropWhile (\<lambda>c. c \<noteq> CHR ''/'') (rev e @ CHR ''/'' # rev a) = CHR ''/'' # rev a"
    by (intro dropWhile_append_stop) auto
  then show ?thesis by (simp add: dir_part_def)
qed

lemma Dir_path_of:
  assumes ok: "\<forall>e\<in>set (es @ [e]). elem_ok e"
  shows "Dir (path_of (es @ [e])) = path_of es"
proof (cases "es = []")
  case True
  then have "dir_part (path_of (es @ [e])) = ''/''"
    using ok dir_part_append [of e "[]"] by (simp add: path_of_def elem_ok_def)
  moreover have "Clean ''/'' = ''/''" by code_simp
  ultimately show ?thesis using True by (simp add: Dir_def path_of_def)
next
  case False
  then have "path_of (es @ [e]) = path_of es @ ''/'' @ e" by (simp add: path_of_def join_snoc)
  then have d: "Dir (path_of (es @ [e])) = Clean (path_of es @ ''/'')"
    using ok dir_part_append [of e "path_of es"] by (simp add: Dir_def elem_ok_def)
  have "split (CHR ''/'') (path_of es @ ''/'') = ([] # es) @ [[]]"
    using False ok by (simp add: split_snoc_sep split_path_of)
  moreover have "is_abs (path_of es @ ''/'')" by (simp add: is_abs_def has_prefix_def path_of_def)
  ultimately show ?thesis
    using foldl_clean_ok [of es True "[]"] ok
    by (simp add: d Clean_def clean_step.simps) (simp add: path_of_def)
qed

lemma path_of_inj:
  assumes "\<forall>e\<in>set es. elem_ok e" and "\<forall>e\<in>set fs. elem_ok e" and "path_of es = path_of fs"
  shows "es = fs"
proof -
  have "(if es = [] then [[]] else es) = (if fs = [] then [[]] else fs)"
    using assms split_path_of [of es] split_path_of [of fs] by simp
  moreover have "\<not> elem_ok []" by (simp add: elem_ok_def)
  ultimately show ?thesis using assms(1,2) by (cases "es = []"; cases "fs = []") auto
qed

subsection \<open>Patterns without metacharacters\<close>

definition plain :: "string \<Rightarrow> bool" where
  "plain p \<longleftrightarrow> set p \<inter> {CHR ''*'', CHR ''?'', CHR ''['', CHR 0x5C} = {}"

lemma parse_chunk_plain: "plain p \<Longrightarrow> parse_chunk p = Some (map Lit p)"
  by (induction p) (auto simp: plain_def)

lemma match_chunk_lits: "match_chunk (map Lit p) s = cut_prefix s p"
  by (induction p arbitrary: s) (auto simp: glob_char_def split: list.splits, (case_tac s; simp add: glob_char_def)+)

lemma scan_chunk_plain: "plain p \<Longrightarrow> scan_chunk False p = (p, [])"
proof (induction False p rule: scan_chunk.induct)
  case (3 c d s)
  then have "in_class False c = False" by (auto simp: in_class_def plain_def)
  with 3 show ?case by (auto simp: plain_def)
qed (auto simp: plain_def)

lemma chunks_plain: "plain p \<Longrightarrow> chunks p = (if p = [] then [] else [(False, p)])"
proof (cases p)
  case (Cons c q)
  assume "plain p"
  with Cons have "dropWhile (\<lambda>c. c = CHR ''*'') p = p" "hd p \<noteq> CHR ''*''" by (auto simp: plain_def)
  with \<open>plain p\<close> show ?thesis
    using Cons by (subst chunks.simps) (simp add: scan_chunk_plain chunks.simps [of "[]"])
qed (simp add: chunks.simps)

lemma matches_plain: "plain p \<Longrightarrow> matches p s \<longleftrightarrow> s = p"
proof (cases "p = []")
  case False
  assume "plain p"
  then have "matches p s \<longleftrightarrow> (case cut_prefix s p of Some t \<Rightarrow> t = [] | None \<Rightarrow> False)"
    using False
    by (simp add: matches_def Match_def chunks_plain parse_chunk_plain match_chunk_lits split: option.split)
  then show ?thesis using cut_prefix_Some_iff [of s p] by (cases "cut_prefix s p") auto
qed (simp add: matches_def Match_def chunks.simps)

end
