(* ===== verification/GoTime.thy ===== *)
theory GoTime
  imports GoStrings
begin

text \<open>
  Go's \<open>time.Time\<close> as far as the program uses it: the instant in nanoseconds since the Unix
  epoch and the zone's offset from UTC in seconds, with \<open>Before\<close>, \<open>After\<close>, \<open>Add\<close>, \<open>Sub\<close>,
  \<open>Truncate(time.Second)\<close>, the clock and weekday of the zone, and \<open>Format(time.RFC3339)\<close> of
  a UTC time. The calendar is \<open>time.Time.Date\<close>'s: 400-, 100-, 4- and 1-year cycles of the
  days since the start of year 1. That the RFC 3339 text determines the instant is
  \<open>rfc3339_inj\<close>; the signed statements rest on it.
\<close>

record gotime =
  t_ns :: int
  t_off :: int

type_synonym duration = int

abbreviation second :: duration where
  "second \<equiv> 1000000000"

abbreviation minute :: duration where
  "minute \<equiv> 60 * second"

abbreviation hour :: duration where
  "hour \<equiv> 60 * minute"

text \<open>The zero \<open>time.Time\<close> is the start of year 1, UTC.\<close>

definition zero_ns :: int where
  "zero_ns = - 62135596800 * second"

definition zero_time :: gotime where
  "zero_time = \<lparr>t_ns = zero_ns, t_off = 0\<rparr>"

definition IsZero :: "gotime \<Rightarrow> bool" where
  "IsZero t \<longleftrightarrow> t_ns t = zero_ns"

definition UTC :: "gotime \<Rightarrow> gotime" where
  "UTC t = t\<lparr>t_off := 0\<rparr>"

definition Before :: "gotime \<Rightarrow> gotime \<Rightarrow> bool" where
  "Before a b \<longleftrightarrow> t_ns a < t_ns b"

definition After :: "gotime \<Rightarrow> gotime \<Rightarrow> bool" where
  "After a b \<longleftrightarrow> t_ns b < t_ns a"

definition Equal :: "gotime \<Rightarrow> gotime \<Rightarrow> bool" where
  "Equal a b \<longleftrightarrow> t_ns a = t_ns b"

definition Add :: "gotime \<Rightarrow> duration \<Rightarrow> gotime" where
  "Add t d = t\<lparr>t_ns := t_ns t + d\<rparr>"

text \<open>\<open>Sub\<close> saturates at the ends of a 64-bit duration.\<close>

definition Sub :: "gotime \<Rightarrow> gotime \<Rightarrow> duration" where
  "Sub a b = max (- (2 ^ 63)) (min (2 ^ 63 - 1) (t_ns a - t_ns b))"

definition truncate_second :: "gotime \<Rightarrow> gotime" where
  "truncate_second t = t\<lparr>t_ns := t_ns t - t_ns t mod second\<rparr>"

definition nanosecond :: "gotime \<Rightarrow> int" where
  "nanosecond t = t_ns t mod second"

text \<open>Seconds since the epoch on the zone's clock, and the day they fall on.\<close>

definition local_sec :: "gotime \<Rightarrow> int" where
  "local_sec t = t_ns t div second + t_off t"

definition day_of :: "gotime \<Rightarrow> int" where
  "day_of t = local_sec t div 86400"

definition clock_hour :: "gotime \<Rightarrow> int" where
  "clock_hour t = local_sec t mod 86400 div 3600"

definition clock_minute :: "gotime \<Rightarrow> int" where
  "clock_minute t = local_sec t mod 3600 div 60"

definition clock_second :: "gotime \<Rightarrow> int" where
  "clock_second t = local_sec t mod 60"

text \<open>Sunday is 0; 1 January 1970 was a Thursday.\<close>

definition weekday :: "gotime \<Rightarrow> nat" where
  "weekday t = nat ((day_of t + 4) mod 7)"

lemmas time_compare_defs = Before_def After_def Equal_def

lemma Sub_gt: "\<bar>d\<bar> < 2 ^ 62 \<Longrightarrow> d < Sub a b \<longleftrightarrow> d < t_ns a - t_ns b"
  by (auto simp: Sub_def)

lemma Sub_le: "\<bar>d\<bar> < 2 ^ 62 \<Longrightarrow> Sub a b \<le> d \<longleftrightarrow> t_ns a - t_ns b \<le> d"
  by (auto simp: Sub_def)

lemma Sub_lt: "\<bar>d\<bar> < 2 ^ 62 \<Longrightarrow> Sub a b < d \<longleftrightarrow> t_ns a - t_ns b < d"
  by (auto simp: Sub_def)

lemma truncate_second_le: "t_ns (truncate_second t) \<le> t_ns t"
  by (simp add: truncate_second_def)

lemma nanosecond_truncate [simp]: "nanosecond (truncate_second t) = 0"
  by (simp add: nanosecond_def truncate_second_def)

lemma t_off_simps [simp]:
  "t_off (UTC t) = 0" "t_ns (UTC t) = t_ns t" "t_off (Add t d) = t_off t" "t_ns (Add t d) = t_ns t + d"
  "t_off (truncate_second t) = t_off t"
  by (simp_all add: UTC_def Add_def truncate_second_def)

lemma clock_bounds:
  "0 \<le> clock_hour t" "clock_hour t < 24" "0 \<le> clock_minute t" "clock_minute t < 60"
  "0 \<le> clock_second t" "clock_second t < 60"
  using zdiv_mono1 [of "local_sec t mod 86400" 86399 3600] zdiv_mono1 [of "local_sec t mod 3600" 3599 60]
    pos_mod_bound [of 86400 "local_sec t"] pos_mod_bound [of 3600 "local_sec t"]
  by (simp_all add: clock_hour_def clock_minute_def clock_second_def pos_imp_zdiv_nonneg_iff)

lemma weekday_bound: "weekday t < 7"
  by (simp add: weekday_def)

lemma clock_determines:
  "local_sec t = day_of t * 86400 + clock_hour t * 3600 + clock_minute t * 60 + clock_second t"
proof -
  have *: "s = s div 86400 * 86400 + s mod 86400 div 3600 * 3600 + s mod 3600 div 60 * 60 + s mod 60"
    for s :: int
  proof -
    have "s mod 86400 mod 3600 = s mod 3600" "s mod 3600 mod 60 = s mod 60"
      by (simp_all add: mod_mod_cancel)
    then show ?thesis
      using div_mult_mod_eq [of s 86400] div_mult_mod_eq [of "s mod 86400" 3600]
        div_mult_mod_eq [of "s mod 3600" 60] by linarith
  qed
  show ?thesis
    unfolding day_of_def clock_hour_def clock_minute_def clock_second_def by (rule *)
qed

subsection \<open>The calendar\<close>

definition leap :: "int \<Rightarrow> bool" where
  "leap y \<longleftrightarrow> y mod 4 = 0 \<and> (y mod 100 \<noteq> 0 \<or> y mod 400 = 0)"

definition month_lengths :: "bool \<Rightarrow> int list" where
  "month_lengths l = [31, if l then 29 else 28, 31, 30, 31, 30, 31, 31, 30, 31, 30, 31]"

text \<open>Year and day of the year (from 0) of a day counted from the start of year 1.\<close>

definition year_yday :: "int \<Rightarrow> int \<times> int" where
  "year_yday d =
     (let n400 = d div 146097; d4 = d mod 146097;
          n100 = d4 div 36524 - d4 div 36524 div 4; d1 = d4 - 36524 * n100;
          n4 = d1 div 1461; d2 = d1 mod 1461;
          n1 = d2 div 365 - d2 div 365 div 4; d3 = d2 - 365 * n1
      in (400 * n400 + 100 * n100 + 4 * n4 + n1 + 1, d3))"

text \<open>Month and day of the month (from 1) of a day of the year.\<close>

fun month_day :: "int \<Rightarrow> int list \<Rightarrow> int \<Rightarrow> int \<times> int" where
  "month_day m [] yd = (m, yd + 1)"
| "month_day m [l] yd = (m, yd + 1)"
| "month_day m (l # k # ls) yd = (if yd < l then (m, yd + 1) else month_day (m + 1) (k # ls) (yd - l))"

definition civil :: "int \<Rightarrow> int \<times> int \<times> int" where
  "civil d = (let (y, yd) = year_yday d; (m, md) = month_day 1 (month_lengths (leap y)) yd in (y, m, md))"

text \<open>The start of year 1 is day \<open>-719162\<close> of the epoch.\<close>

definition format_year :: "int \<Rightarrow> string" where
  "format_year y = (if y < 0 then CHR ''-'' # pad_int 4 (- y) else pad_int 4 y)"

definition rfc3339 :: "gotime \<Rightarrow> string" where
  "rfc3339 t =
     (let (y, m, d) = civil (day_of t + 719162)
      in format_year y @ ''-'' @ pad_int 2 m @ ''-'' @ pad_int 2 d @ ''T'' @
         pad_int 2 (clock_hour t) @ '':'' @ pad_int 2 (clock_minute t) @ '':'' @
         pad_int 2 (clock_second t) @ ''Z'')"

text \<open>The day of a year and a day of the year.\<close>

definition year_start :: "int \<Rightarrow> int" where
  "year_start y = 365 * (y - 1) + (y - 1) div 4 - (y - 1) div 100 + (y - 1) div 400"

lemma cycle_split:
  fixes d n :: int
  assumes "0 \<le> d" and "d \<le> 4 * n" and "0 < n"
  shows "0 \<le> d div n - d div n div 4" and "d div n - d div n div 4 \<le> 3"
    and "0 \<le> d - n * (d div n - d div n div 4)" and "d - n * (d div n - d div n div 4) \<le> n"
proof -
  define q where "q = d div n"
  have d: "d = n * q + d mod n" and r: "0 \<le> d mod n" "d mod n < n" using assms by (simp_all add: q_def)
  have q: "0 \<le> q" "q \<le> 4"
    using assms zdiv_mono1 [of d "4 * n" n] by (simp_all add: q_def pos_imp_zdiv_nonneg_iff)
  have "0 \<le> q - q div 4 \<and> q - q div 4 \<le> 3 \<and> 0 \<le> d - n * (q - q div 4) \<and> d - n * (q - q div 4) \<le> n"
  proof (cases "q = 4")
    case True
    then have "d = 4 * n + d mod n" and b: "q - q div 4 = 3" using d by simp_all
    then have "d = 4 * n" using r assms by linarith
    then show ?thesis using b assms by simp
  next
    case False
    then have "q div 4 = 0" using q by simp
    then show ?thesis using d r q False by simp
  qed
  then show "0 \<le> d div n - d div n div 4" "d div n - d div n div 4 \<le> 3"
    "0 \<le> d - n * (d div n - d div n div 4)" "d - n * (d div n - d div n div 4) \<le> n"
    by (simp_all add: q_def)
qed

lemma year_yday_inverse:
  assumes "year_yday d = (y, yd)"
  shows "d = year_start y + yd" and "0 \<le> yd" and "yd < 366"
proof -
  define a where "a = d div 146097"
  define d4 where "d4 = d mod 146097"
  define b where "b = d4 div 36524 - d4 div 36524 div 4"
  define d1 where "d1 = d4 - 36524 * b"
  define c where "c = d1 div 1461"
  define d2 where "d2 = d1 mod 1461"
  define e where "e = d2 div 365 - d2 div 365 div 4"
  define d3 where "d3 = d2 - 365 * e"
  have "year_yday d = (400 * a + 100 * b + 4 * c + e + 1, d3)"
    unfolding year_yday_def Let_def a_def b_def c_def e_def d3_def d2_def d1_def d4_def by (rule refl)
  with assms have y: "y = 400 * a + 100 * b + 4 * c + e + 1" and yd: "yd = d3" by simp_all
  have d: "d = 146097 * a + d4" and d4: "0 \<le> d4" "d4 < 146097" by (simp_all add: a_def d4_def)
  have b: "0 \<le> b" "b \<le> 3" and d1: "0 \<le> d1" "d1 \<le> 36524"
    using cycle_split [of d4 36524] d4 unfolding b_def d1_def by simp_all
  have d1': "d1 = 1461 * c + d2" and d2: "0 \<le> d2" "d2 < 1461" by (simp_all add: c_def d2_def)
  have c: "0 \<le> c" "c \<le> 24" using d1 zdiv_mono1 [of d1 36524 1461] by (simp_all add: c_def pos_imp_zdiv_nonneg_iff)
  have e: "0 \<le> e" "e \<le> 3" and d3: "0 \<le> d3" "d3 < 366"
    using cycle_split [of d2 365] d2 unfolding e_def d3_def by simp_all
  have q4: "(y - 1) div 4 = 100 * a + 25 * b + c"
    by (rule int_div_pos_eq [where r = e]) (use e in \<open>simp_all add: y\<close>)
  have q100: "(y - 1) div 100 = 4 * a + b"
    by (rule int_div_pos_eq [where r = "4 * c + e"]) (use c e in \<open>simp_all add: y\<close>)
  have q400: "(y - 1) div 400 = a"
    by (rule int_div_pos_eq [where r = "100 * b + 4 * c + e"]) (use b c e in \<open>simp_all add: y\<close>)
  then have "year_start y = 365 * (400 * a + 100 * b + 4 * c + e) + (100 * a + 25 * b + c) - (4 * a + b) + a"
    unfolding year_start_def q4 q100 q400 by (simp add: y)
  then show "d = year_start y + yd" using d d1' unfolding yd d3_def d1_def by simp
  show "0 \<le> yd" "yd < 366" using d3 yd by simp_all
qed

lemma month_day_shift:
  "month_day m ls yd = (m', d') \<Longrightarrow>
   m \<le> m' \<and> yd = sum_list (take (nat (m' - m)) ls) + d' - 1"
proof (induction m ls yd rule: month_day.induct)
  case (3 m l k ls yd)
  show ?case
  proof (cases "yd < l")
    case True
    with 3 show ?thesis by auto
  next
    case False
    with 3 have "m + 1 \<le> m'" and IH: "yd - l = sum_list (take (nat (m' - (m + 1))) (k # ls)) + d' - 1" by auto
    then have "nat (m' - m) = Suc (nat (m' - (m + 1)))" by linarith
    with IH \<open>m + 1 \<le> m'\<close> show ?thesis by simp
  qed
qed auto

lemma month_day_bounds:
  "month_day m ls yd = (m', d') \<Longrightarrow> ls \<noteq> [] \<Longrightarrow> 0 \<le> yd \<Longrightarrow> yd \<le> sum_list ls \<Longrightarrow> \<forall>l\<in>set ls. l \<le> 31 \<Longrightarrow>
   m \<le> m' \<and> m' < m + int (length ls) \<and> 1 \<le> d' \<and> d' \<le> 32"
proof (induction m ls yd rule: month_day.induct)
  case (3 m l k ls yd)
  then show ?case by (cases "yd < l") fastforce+
qed auto

lemma civil_inj:
  assumes "civil d = civil d'"
  shows "d = d'"
proof -
  obtain y yd where y: "year_yday d = (y, yd)" by fastforce
  obtain y' yd' where y': "year_yday d' = (y', yd')" by fastforce
  obtain m md where m: "month_day 1 (month_lengths (leap y)) yd = (m, md)" by fastforce
  obtain m' md' where m': "month_day 1 (month_lengths (leap y')) yd' = (m', md')" by fastforce
  have eq: "y = y'" "m = m'" "md = md'"
    using assms y y' m m' by (simp_all add: civil_def)
  have "yd = yd'"
    using month_day_shift [OF m] month_day_shift [OF m'] eq by simp
  then show ?thesis using year_yday_inverse(1) [OF y] year_yday_inverse(1) [OF y'] eq by simp
qed

lemma civil_bounds:
  assumes "civil d = (y, m, md)"
  shows "0 \<le> m" "m < 100" "0 \<le> md" "md < 100"
proof -
  obtain yd where y: "year_yday d = (y, yd)" and m: "month_day 1 (month_lengths (leap y)) yd = (m, md)"
    using assms by (auto simp: civil_def split: prod.splits)
  have yd: "0 \<le> yd" "yd \<le> sum_list (month_lengths (leap y))" and "\<forall>l\<in>set (month_lengths (leap y)). l \<le> 31"
    using year_yday_inverse(2,3) [OF y] by (auto simp: month_lengths_def)
  with month_day_bounds [OF m] have "1 \<le> m \<and> m < 1 + int (length (month_lengths (leap y))) \<and> 1 \<le> md \<and> md \<le> 32"
    by (simp add: month_lengths_def)
  then show "0 \<le> m" "m < 100" "0 \<le> md" "md < 100" by (simp_all add: month_lengths_def)
qed

lemma format_year_inj:
  assumes "format_year y = format_year y'"
  shows "y = y'"
proof -
  have dig: "pad_int 4 k \<noteq> CHR ''-'' # s" for k s
    using pad_int_digits [of 4 k] by (auto simp: is_digit_def)
  show ?thesis
  proof (cases "y < 0"; cases "y' < 0")
    assume "y < 0" "y' < 0"
    then show ?thesis using assms pad_int_inj [of "- y" "- y'" 4] by (simp add: format_year_def)
  next
    assume "\<not> y < 0" "\<not> y' < 0"
    then show ?thesis using assms pad_int_inj [of y y' 4] by (simp add: format_year_def)
  next
    assume "y < 0" "\<not> y' < 0"
    then have "pad_int 4 y' = CHR ''-'' # pad_int 4 (- y)" using assms by (simp add: format_year_def)
    with dig show ?thesis by simp
  next
    assume "\<not> y < 0" "y' < 0"
    then have "pad_int 4 y = CHR ''-'' # pad_int 4 (- y')" using assms by (simp add: format_year_def)
    with dig show ?thesis by simp
  qed
qed

lemma pad2_append:
  assumes "0 \<le> a" "a < 100" "0 \<le> b" "b < 100"
  shows "pad_int 2 a @ s = pad_int 2 b @ t \<longleftrightarrow> a = b \<and> s = t"
  using assms length_pad2 pad_int_inj by (simp add: append_eq_append_conv)

lemma pad2_inj: "0 \<le> a \<Longrightarrow> a < 100 \<Longrightarrow> 0 \<le> b \<Longrightarrow> b < 100 \<Longrightarrow> pad_int 2 a = pad_int 2 b \<longleftrightarrow> a = b"
  by (rule pad_int_inj)

text \<open>The RFC 3339 text of a UTC time in whole seconds names one instant.\<close>

lemma rfc3339_inj:
  assumes "rfc3339 a = rfc3339 b"
    and a: "t_off a = 0" "nanosecond a = 0" and b: "t_off b = 0" "nanosecond b = 0"
  shows "t_ns a = t_ns b"
proof -
  obtain y m d where c: "civil (day_of a + 719162) = (y, m, d)" by (metis surj_pair)
  obtain y' m' d' where c': "civil (day_of b + 719162) = (y', m', d')" by (metis surj_pair)
  note bounds = civil_bounds [OF c] civil_bounds [OF c'] clock_bounds [of a] clock_bounds [of b]
  define tail where "tail m d t = ''-'' @ pad_int 2 m @ ''-'' @ pad_int 2 d @ ''T'' @
      pad_int 2 (clock_hour t) @ '':'' @ pad_int 2 (clock_minute t) @ '':'' @
      pad_int 2 (clock_second t) @ ''Z''" for m d t
  have eq: "format_year y @ tail m d a = format_year y' @ tail m' d' b"
    using assms(1) c c' by (simp add: rfc3339_def tail_def)
  have "length (tail m d a) = length (tail m' d' b)"
    using bounds by (simp add: tail_def length_pad2)
  with eq have "format_year y = format_year y'" and tl: "tail m d a = tail m' d' b" by simp_all
  then have "y = y'" using format_year_inj by blast
  moreover from tl have "m = m' \<and> d = d' \<and> clock_hour a = clock_hour b \<and>
      clock_minute a = clock_minute b \<and> clock_second a = clock_second b"
    using bounds by (simp add: tail_def pad2_append pad2_inj)
  moreover have "day_of a = day_of b"
    using c c' civil_inj [of "day_of a + 719162" "day_of b + 719162"] calculation by simp
  ultimately have "local_sec a = local_sec b"
    using clock_determines [of a] clock_determines [of b] by simp
  then show ?thesis
    using a b div_mult_mod_eq [of "t_ns a" second] div_mult_mod_eq [of "t_ns b" second]
    by (simp add: local_sec_def nanosecond_def)
qed

end
