(* ===== verification/FolderHours.thy ===== *)
theory FolderHours
  imports GoPath GoTime
begin

text \<open>
  Where and when a rule applies (\<open>internal/contexts/boundaries/folderhours.go\<close>): project
  folders with globs, matched against a session's working directory and its parents, and
  time windows on weekdays in the operator's time zone, parsed from the setting, printed
  back, and matched against a moment. The days of a window are a list of seven flags,
  Sunday first.
\<close>

subsection \<open>Folders\<close>

datatype fh_error =
    FolderComparator | EmptyFolder string | NotAbsolute string | BadGlob string
  | HoursComparator | WindowShape string | BadWeekday string | NoStartEnd string
  | BadClock string | NotTimeOfDay string | SameStartEnd string

text \<open>
  One folder of the list; \<open>home\<close> is the answer of \<open>userHomeDir\<close>, None when it fails. The
  parameter \<open>value\<close> is the whole setting, which the error names.
\<close>

definition parse_folder :: "string option \<Rightarrow> string \<Rightarrow> string \<Rightarrow> fh_error + string" where
  "parse_folder home value raw =
     (let p = trim_space raw
      in if p = [] then Inl (EmptyFolder value)
         else if p = ''~'' \<or> has_prefix p ''~/'' then
           (case home of
              Some h \<Rightarrow> Inr (Clean (if h \<noteq> [] then Join2 h (trim_prefix (tl p) ''/'') else p))
            | None \<Rightarrow> Inr (Clean p))
         else if \<not> is_abs p then Inl (NotAbsolute raw)
         else if \<not> valid_pattern p then Inl (BadGlob raw)
         else Inr (Clean p))"

definition parseFolders :: "string option \<Rightarrow> bool \<Rightarrow> string \<Rightarrow> fh_error + string list" where
  "parseFolders home has_op value =
     (if has_op then Inl FolderComparator
      else traverse (parse_folder home value) (split (CHR '','') value))"

text \<open>The directory, then each parent, up to one that is its own parent.\<close>

function inFolder :: "string \<Rightarrow> string \<Rightarrow> bool" where
  "inFolder d folder =
     (if matches folder d then True
      else if Dir d = d then False
      else inFolder (Dir d) folder)"
  by pat_completeness auto
termination
proof (relation "measure (\<lambda>(d, folder). if d = ''/'' \<or> d = ''.'' then 0 else Suc (length d))", goal_cases)
  case (2 d folder)
  then show ?case using Dir_shorter [of d] by auto
qed simp

declare inFolder.simps [simp del]

definition matchFolder :: "string list \<Rightarrow> string \<Rightarrow> string option" where
  "matchFolder folders dir =
     (if dir = [] \<or> \<not> is_abs dir then None
      else find (inFolder (Clean dir)) folders)"

subsection \<open>Hours\<close>

record hours_window =
  hw_days :: "bool list"
  hw_start :: int
  hw_end :: int

abbreviation minutesPerDay :: int where
  "minutesPerDay \<equiv> 1440"

definition crossesMidnight :: "hours_window \<Rightarrow> bool" where
  "crossesMidnight w \<longleftrightarrow> hw_end w < hw_start w"

definition window_holds :: "hours_window \<Rightarrow> gotime \<Rightarrow> bool" where
  "window_holds w t =
     (let m = clock_hour t * 60 + clock_minute t; day = weekday t
      in if \<not> crossesMidnight w then hw_days w ! day \<and> hw_start w \<le> m \<and> m < hw_end w
         else let yesterday = (day + 6) mod 7
              in (hw_days w ! day \<and> hw_start w \<le> m) \<or> (hw_days w ! yesterday \<and> m < hw_end w))"

definition matchHours :: "hours_window list \<Rightarrow> gotime \<Rightarrow> hours_window option" where
  "matchHours windows t = (if IsZero t then None else find (\<lambda>w. window_holds w t) windows)"

subsection \<open>Parsing hours\<close>

definition fullDayNames :: "string list" where
  "fullDayNames = [''sunday'', ''monday'', ''tuesday'', ''wednesday'', ''thursday'', ''friday'', ''saturday'']"

definition dayNames :: "string list" where
  "dayNames = [''sun'', ''mon'', ''tue'', ''wed'', ''thu'', ''fri'', ''sat'']"

definition dayIndex :: "string \<Rightarrow> nat option" where
  "dayIndex raw =
     (let s = trim_space raw
      in if length s < 3 then None
         else find (\<lambda>i. has_prefix (fullDayNames ! i) s) [0..<7])"

text \<open>The loop over the days of a range, which may wrap the week; it visits at most seven.\<close>

fun mark_days :: "nat \<Rightarrow> nat \<Rightarrow> nat \<Rightarrow> bool list \<Rightarrow> bool list" where
  "mark_days 0 d e out = out"
| "mark_days (Suc k) d e out =
     (let out' = out[d := True] in if d = e then out' else mark_days k ((d + 1) mod 7) e out')"

fun parse_day_parts :: "string list \<Rightarrow> bool list \<Rightarrow> fh_error + bool list" where
  "parse_day_parts [] out = Inr out"
| "parse_day_parts (part # parts) out =
     (let (from, to, isRange) = cut (CHR ''-'') part
      in case dayIndex from of
           None \<Rightarrow> Inl (BadWeekday part)
         | Some first \<Rightarrow>
             (case (if isRange then dayIndex to else Some first) of
                None \<Rightarrow> Inl (BadWeekday part)
              | Some final \<Rightarrow> parse_day_parts parts (mark_days 7 first final out)))"

definition parseDays :: "string \<Rightarrow> fh_error + bool list" where
  "parseDays s = parse_day_parts (split (CHR ''+'') s) (replicate 7 False)"

definition digits :: "string \<Rightarrow> bool" where
  "digits s = list_all is_digit s"

definition parseClock :: "string \<Rightarrow> bool \<Rightarrow> fh_error + int" where
  "parseClock s is_end =
     (let (h, m, ok) = cut (CHR '':'') (trim_space s)
      in if \<not> ok \<or> length h = 0 \<or> 2 < length h \<or> length m \<noteq> 2 \<or> \<not> digits h \<or> \<not> digits m
         then Inl (BadClock s)
         else let hour = digits_val h; minute = digits_val m
              in if hour = 24 \<and> minute = 0 \<and> is_end then Inr minutesPerDay
                 else if 23 < hour \<or> 59 < minute then Inl (NotTimeOfDay s)
                 else Inr (hour * 60 + minute))"

text \<open>The weekdays and the times among the fields: weekdays alone when there is no digit.\<close>

definition window_parts :: "string list \<Rightarrow> string \<times> string" where
  "window_parts fs =
     (if length fs = 2 then (hd fs, last fs)
      else if \<not> list_ex is_digit (last fs) then (last fs, [])
      else ([], last fs))"

definition parse_times :: "string \<Rightarrow> bool list \<Rightarrow> string \<Rightarrow> fh_error + hours_window" where
  "parse_times s days timePart =
     (if timePart = [] then Inr \<lparr>hw_days = days, hw_start = 0, hw_end = minutesPerDay\<rparr>
      else let (from, to, ok) = cut (CHR ''-'') timePart
           in if \<not> ok then Inl (NoStartEnd s)
              else try_res (parseClock from False) (\<lambda>start.
                   try_res (parseClock to True) (\<lambda>end.
                   if start = end then Inl (SameStartEnd s)
                   else Inr \<lparr>hw_days = days, hw_start = start, hw_end = end\<rparr>)))"

definition parseHoursWindow :: "string \<Rightarrow> fh_error + hours_window" where
  "parseHoursWindow s =
     (let fs = Fields (to_lower s)
      in if length fs = 0 \<or> 2 < length fs then Inl (WindowShape s)
         else let (daysPart, timePart) = window_parts fs
              in try_res (if daysPart \<noteq> [] then parseDays daysPart else Inr (replicate 7 True))
                   (\<lambda>days. parse_times s days timePart))"

definition parseHours :: "bool \<Rightarrow> string \<Rightarrow> fh_error + hours_window list" where
  "parseHours has_op value =
     (if has_op then Inl HoursComparator
      else traverse (\<lambda>raw. parseHoursWindow (trim_space raw)) (split (CHR '','') value))"

subsection \<open>Printing hours\<close>

definition clock :: "int \<Rightarrow> string" where
  "clock minutes = pad_int 2 (minutes div 60) @ '':'' @ pad_int 2 (minutes mod 60)"

text \<open>The last day of the run of set days that starts at a day; not every day is set.\<close>

fun run_end :: "nat \<Rightarrow> bool list \<Rightarrow> nat \<Rightarrow> nat" where
  "run_end 0 days d = d"
| "run_end (Suc k) days d = (if days ! ((d + 1) mod 7) then run_end k days ((d + 1) mod 7) else d)"

definition day_run :: "bool list \<Rightarrow> nat \<Rightarrow> string list" where
  "day_run days i =
     (let d = (i + 1) mod 7
      in if \<not> days ! d \<or> days ! ((d + 6) mod 7) then []
         else let e = run_end 7 days d
              in if d = e then [dayNames ! d] else [dayNames ! d @ ''-'' @ dayNames ! e])"

definition daysString :: "bool list \<Rightarrow> string" where
  "daysString days =
     (let count = length (filter id days)
      in if count = 7 \<or> count = 0 then [] else join ''+'' (concat (map (day_run days) [0..<7])))"

definition window_String :: "hours_window \<Rightarrow> string" where
  "window_String w =
     (let days = daysString (hw_days w);
          parts = (if days \<noteq> [] then [days] else []) @
                  (if hw_start w \<noteq> 0 \<or> hw_end w \<noteq> minutesPerDay
                   then [clock (hw_start w) @ ''-'' @ clock (hw_end w)] else [])
      in join '' '' parts)"

definition hoursString :: "hours_window list \<Rightarrow> string" where
  "hoursString windows =
     join '', '' (map (\<lambda>w. if window_String w = [] then ''all day'' else window_String w) windows)"


subsection \<open>A window is a set of stretches of the week\<close>

text \<open>
  A window any parse returns: some weekday, a start inside the day, an end up to 24:00 and
  different from the start.
\<close>

definition valid_window :: "hours_window \<Rightarrow> bool" where
  "valid_window w \<longleftrightarrow>
     length (hw_days w) = 7 \<and> True \<in> set (hw_days w) \<and> 0 \<le> hw_start w \<and> hw_start w < minutesPerDay \<and>
     0 \<le> hw_end w \<and> hw_end w \<le> minutesPerDay \<and> hw_start w \<noteq> hw_end w"

definition minute_of_week :: "gotime \<Rightarrow> int" where
  "minute_of_week t = int (weekday t) * minutesPerDay + clock_hour t * 60 + clock_minute t"

text \<open>The minutes a window lasts, past midnight included.\<close>

definition window_length :: "hours_window \<Rightarrow> int" where
  "window_length w = (hw_end w - hw_start w) mod minutesPerDay + (if hw_end w - hw_start w = minutesPerDay then minutesPerDay else 0)"

definition window_spec :: "hours_window \<Rightarrow> gotime \<Rightarrow> bool" where
  "window_spec w t \<longleftrightarrow>
     (\<exists>d<7. hw_days w ! d \<and>
       (minute_of_week t - (int d * minutesPerDay + hw_start w)) mod (7 * minutesPerDay) < window_length w)"

lemma window_length_eq:
  "valid_window w \<Longrightarrow>
   window_length w = (if hw_end w < hw_start w then hw_end w - hw_start w + 1440 else hw_end w - hw_start w)"
proof -
  assume v: "valid_window w"
  consider "hw_end w < hw_start w" | "hw_end w - hw_start w = 1440" | "hw_start w < hw_end w" "hw_end w - hw_start w < 1440"
    using v by (fastforce simp: valid_window_def)
  then show ?thesis
  proof cases
    case 1
    then have "(hw_end w - hw_start w) mod 1440 = hw_end w - hw_start w + 1440"
      using v by (intro int_mod_pos_eq [of _ _ "-1"]) (auto simp: valid_window_def)
    with 1 show ?thesis by (simp add: window_length_def)
  qed (simp_all add: window_length_def)
qed

lemma week_offset:
  fixes k m s len :: int
  assumes k: "- 6 \<le> k" "k \<le> 6" and m: "0 \<le> m" "m < 1440" and s: "0 \<le> s" "s < 1440" and len: "len \<le> 1440"
  shows "(1440 * k + m - s) mod 10080 < len \<longleftrightarrow>
    (k = 0 \<and> s \<le> m \<and> m - s < len) \<or> ((k = 1 \<or> k = - 6) \<and> m < s \<and> m - s + 1440 < len)"
proof (cases "0 \<le> 1440 * k + m - s")
  case True
  then have eq: "(1440 * k + m - s) mod 10080 = 1440 * k + m - s"
    using k m s by (intro mod_pos_pos_trivial) auto
  consider "k = 0" | "k = 1" | "k < 0" | "2 \<le> k" by linarith
  then show ?thesis unfolding eq using True k m s len by cases auto
next
  case False
  then have eq: "(1440 * k + m - s) mod 10080 = 1440 * k + m - s + 10080"
    using k m s by (intro int_mod_pos_eq [of _ _ "-1"]) auto
  consider "k = 0" | "k = - 6" | "k = 1" | "- 5 \<le> k" "k < 0" | "2 \<le> k" using k by linarith
  then show ?thesis unfolding eq using False k m s len by cases auto
qed

lemma weekday_apart:
  "a < 7 \<Longrightarrow> d < 7 \<Longrightarrow> (int a - int d = 1 \<or> int a - int d = - 6) \<longleftrightarrow> d = (a + 6) mod 7"
proof (cases "a = 0")
  case False
  moreover assume "a < 7" "d < 7"
  ultimately have "(a + 6) mod 7 = a - 1" using mod_add_self2 [of "a - 1" 7] by (simp add: add.commute)
  with False show ?thesis using \<open>a < 7\<close> \<open>d < 7\<close> by auto
qed auto

lemma window_holds_spec:
  assumes v: "valid_window w"
  shows "window_holds w t \<longleftrightarrow> window_spec w t"
proof -
  define m where "m = clock_hour t * 60 + clock_minute t"
  define a where "a = weekday t"
  let ?s = "hw_start w" and ?len = "window_length w"
  have a: "a < 7" using weekday_bound a_def by simp
  have m: "0 \<le> m" "m < 1440" using clock_bounds [of t] by (auto simp: m_def)
  have len: "?len \<le> 1440" using v by (simp add: window_length_eq) (auto simp: valid_window_def)
  have "window_spec w t \<longleftrightarrow> (\<exists>d<7. hw_days w ! d \<and> (1440 * (int a - int d) + m - ?s) mod 10080 < ?len)"
    by (simp add: window_spec_def minute_of_week_def m_def a_def algebra_simps)
  also have "\<dots> \<longleftrightarrow> (\<exists>d<7. hw_days w ! d \<and>
      (d = a \<and> ?s \<le> m \<and> m - ?s < ?len \<or> d = (a + 6) mod 7 \<and> m < ?s \<and> m - ?s + 1440 < ?len))"
  proof (intro arg_cong [where f = Ex] ext conj_cong refl)
    fix d :: nat
    assume d: "d < 7"
    show "((1440 * (int a - int d) + m - ?s) mod 10080 < ?len) =
      (d = a \<and> ?s \<le> m \<and> m - ?s < ?len \<or> d = (a + 6) mod 7 \<and> m < ?s \<and> m - ?s + 1440 < ?len)"
      using week_offset [of "int a - int d" m ?s ?len] weekday_apart [OF a d] a d m len v
      by (auto simp: valid_window_def)
  qed
  also have "\<dots> \<longleftrightarrow> (hw_days w ! a \<and> ?s \<le> m \<and> m - ?s < ?len) \<or>
      (hw_days w ! ((a + 6) mod 7) \<and> m < ?s \<and> m - ?s + 1440 < ?len)"
    using a by auto
  also have "\<dots> \<longleftrightarrow> window_holds w t"
    using m v by (auto simp: window_holds_def crossesMidnight_def Let_def m_def a_def window_length_eq valid_window_def)
  finally show ?thesis by simp
qed


subsection \<open>What is printed parses back\<close>

definition run_pairs :: "bool list \<Rightarrow> nat \<Rightarrow> (nat \<times> nat) list" where
  "run_pairs days i =
     (let d = (i + 1) mod 7 in if \<not> days ! d \<or> days ! ((d + 6) mod 7) then [] else [(d, run_end 7 days d)])"

definition all_runs :: "bool list \<Rightarrow> (nat \<times> nat) list" where
  "all_runs days = concat (map (run_pairs days) [0..<7])"

definition run_text :: "nat \<times> nat \<Rightarrow> string" where
  "run_text p = (if fst p = snd p then dayNames ! fst p else dayNames ! fst p @ ''-'' @ dayNames ! snd p)"

lemma day_run_text: "day_run days i = map run_text (run_pairs days i)"
  by (simp add: day_run_def run_pairs_def run_text_def Let_def)

definition bool_lists7 :: "bool list list" where
  "bool_lists7 = List.n_lists 7 [False, True]"

lemma runs_all:
  "list_all (\<lambda>ds. (ds = replicate 7 False \<or> ds = replicate 7 True) \<or>
     (all_runs ds \<noteq> [] \<and> list_all (\<lambda>p. fst p < 7 \<and> snd p < 7) (all_runs ds) \<and>
      foldl (\<lambda>out p. mark_days 7 (fst p) (snd p) out) (replicate 7 False) (all_runs ds) = ds)) bool_lists7"
  by code_simp


lemma dayIndex_name: "d < 7 \<Longrightarrow> dayIndex (dayNames ! d) = Some d"
proof -
  have "list_all (\<lambda>d. dayIndex (dayNames ! d) = Some d) [0..<7]" by code_simp
  then show "d < 7 \<Longrightarrow> ?thesis" by (simp add: list_all_iff)
qed

definition day_char :: "char \<Rightarrow> bool" where
  "day_char c \<longleftrightarrow> is_lower c \<or> c = CHR ''-'' \<or> c = CHR ''+''"

lemma day_name_chars: "d < 7 \<Longrightarrow> c \<in> set (dayNames ! d) \<Longrightarrow> is_lower c"
proof -
  have "list_all (\<lambda>d. list_all is_lower (dayNames ! d)) [0..<7]" by code_simp
  then show "d < 7 \<Longrightarrow> c \<in> set (dayNames ! d) \<Longrightarrow> is_lower c" by (auto simp: list_all_iff)
qed

lemma not_lower_signs: "\<not> is_lower (CHR ''-'')" "\<not> is_lower (CHR ''+'')"
  by (simp_all add: is_lower_def)

lemma day_name_signs: "d < 7 \<Longrightarrow> CHR ''-'' \<notin> set (dayNames ! d)" "d < 7 \<Longrightarrow> CHR ''+'' \<notin> set (dayNames ! d)"
  using day_name_chars not_lower_signs by blast+

lemma day_char_facts:
  assumes "day_char c"
  shows "\<not> is_space c" "\<not> is_upper c" "\<not> is_digit c" "c \<noteq> CHR '',''"
  using assms by (auto simp: day_char_def char_class_defs)

lemma run_text_sign:
  assumes "fst p < 7" "snd p < 7"
  shows "CHR ''+'' \<notin> set (run_text p)"
proof -
  have "CHR ''+'' \<notin> set ''-''" by simp
  then show ?thesis using assms day_name_signs by (simp add: run_text_def)
qed

lemma run_text_chars:
  assumes "fst p < 7" "snd p < 7" "c \<in> set (run_text p)"
  shows "day_char c"
  using assms day_name_chars by (fastforce simp: run_text_def day_char_def split: if_splits)

lemma parse_run_texts:
  "\<forall>p\<in>set ps. fst p < 7 \<and> snd p < 7 \<Longrightarrow>
   parse_day_parts (map run_text ps) out = Inr (foldl (\<lambda>out p. mark_days 7 (fst p) (snd p) out) out ps)"
proof (induction ps arbitrary: out)
  case (Cons p ps)
  then have p: "fst p < 7" "snd p < 7" by auto
  show ?case
  proof (cases "fst p = snd p")
    case True
    then show ?thesis using Cons p
      by (simp add: run_text_def cut_absent day_name_signs dayIndex_name)
  next
    case False
    then show ?thesis using Cons p
      by (simp add: run_text_def cut_append day_name_signs dayIndex_name)
  qed
qed simp

lemma all_runs_facts:
  assumes "length ds = 7" "True \<in> set ds" "False \<in> set ds"
  shows "all_runs ds \<noteq> []" "p \<in> set (all_runs ds) \<Longrightarrow> fst p < 7 \<and> snd p < 7"
    "foldl (\<lambda>out p. mark_days 7 (fst p) (snd p) out) (replicate 7 False) (all_runs ds) = ds"
proof -
  have "ds \<in> set bool_lists7" using assms by (auto simp: bool_lists7_def set_n_lists)
  moreover have "ds \<noteq> replicate 7 False" "ds \<noteq> replicate 7 True" using assms by auto
  ultimately show "all_runs ds \<noteq> []" "p \<in> set (all_runs ds) \<Longrightarrow> fst p < 7 \<and> snd p < 7"
    "foldl (\<lambda>out p. mark_days 7 (fst p) (snd p) out) (replicate 7 False) (all_runs ds) = ds"
    using runs_all unfolding list_all_iff by blast+
qed

lemma daysString_runs:
  assumes "length ds = 7" "True \<in> set ds" "False \<in> set ds"
  shows "daysString ds = join ''+'' (map run_text (all_runs ds))"
proof -
  have "length (filter id ds) \<noteq> 7" 
    using assms length_filter_less [of False ds id] by auto
  moreover have "length (filter id ds) \<noteq> 0" using assms by (auto simp: filter_empty_conv)
  moreover have "concat (map (day_run ds) [0..<7]) = map run_text (all_runs ds)"
    using day_run_text [of ds] by (simp add: all_runs_def map_concat comp_def cong: map_cong)
  ultimately show ?thesis by (simp add: daysString_def del: upt_Suc)
qed

lemma daysString_all: "length ds = 7 \<Longrightarrow> False \<notin> set ds \<Longrightarrow> daysString ds = []"
proof -
  assume ds: "length ds = 7" "False \<notin> set ds"
  then have "filter id ds = ds" by (intro filter_True) (metis (full_types) id_apply)
  with ds show ?thesis by (simp add: daysString_def)
qed

lemma set_join: "set (join s xs) \<subseteq> set s \<union> (\<Union>x\<in>set xs. set x)"
  by (induction s xs rule: join.induct) auto

lemma daysString_chars:
  assumes "length ds = 7" "True \<in> set ds" "c \<in> set (daysString ds)"
  shows "day_char c"
proof (cases "False \<in> set ds")
  case True
  note ds = assms(1,2) True
  have "c \<in> set ''+'' \<union> (\<Union>x\<in>set (map run_text (all_runs ds)). set x)"
    using assms(3) set_join unfolding daysString_runs [OF ds] by blast
  then show ?thesis
  proof
    assume "c \<in> set ''+''"
    then show ?thesis by (simp add: day_char_def)
  next
    assume "c \<in> (\<Union>x\<in>set (map run_text (all_runs ds)). set x)"
    then obtain p where "p \<in> set (all_runs ds)" "c \<in> set (run_text p)" by auto
    then show ?thesis using run_text_chars all_runs_facts(2) [OF ds] by blast
  qed
qed (use assms daysString_all in auto)

lemma join_eq_Nil: "join s xs = [] \<Longrightarrow> s \<noteq> [] \<Longrightarrow> xs \<noteq> [] \<Longrightarrow> xs = [[]]"
  by (induction s xs rule: join.induct) auto

lemma daysString_not_Nil:
  assumes "length ds = 7" "True \<in> set ds" "False \<in> set ds"
  shows "daysString ds \<noteq> []"
proof
  assume "daysString ds = []"
  then have "map run_text (all_runs ds) = [[]]"
    using join_eq_Nil all_runs_facts(1) [OF assms] daysString_runs [OF assms] by simp
  then obtain p where p: "p \<in> set (all_runs ds)" "run_text p = []" by auto
  have "list_all (\<lambda>d. dayNames ! d \<noteq> []) [0..<7]" by code_simp
  with p all_runs_facts(2) [OF assms p(1)] show False
    by (auto simp: run_text_def list_all_iff split: if_splits)
qed

lemma parseDays_daysString:
  assumes "length ds = 7" "True \<in> set ds" "False \<in> set ds"
  shows "parseDays (daysString ds) = Inr ds"
proof -
  have "split (CHR ''+'') (join [CHR ''+''] (map run_text (all_runs ds))) = map run_text (all_runs ds)"
    using all_runs_facts(1,2) [OF assms] run_text_sign by (intro split_join) auto
  then show ?thesis
    using parse_run_texts all_runs_facts [OF assms] by (simp add: parseDays_def daysString_runs [OF assms])
qed


lemma clock_chars: "c \<in> set (clock m) \<Longrightarrow> is_digit c \<or> c = CHR '':''"
  using pad_int_digits by (auto simp: clock_def)

lemma colon_not_digit: "\<not> is_digit (CHR '':'')" "\<not> is_digit (CHR ''-'')" "\<not> is_digit (CHR '','')"
  by (simp_all add: is_digit_def)

lemma clock_char_facts:
  assumes "c \<in> set (clock m)"
  shows "\<not> is_space c" "\<not> is_upper c" "c \<noteq> CHR '',''" "c \<noteq> CHR ''-''"
proof -
  have "is_digit c \<or> c = CHR '':''" using assms clock_chars by blast
  then show "\<not> is_space c" "\<not> is_upper c" "c \<noteq> CHR '',''" "c \<noteq> CHR ''-''"
    using digit_not_space digit_not_upper colon_not_digit by (auto simp: is_space_def is_upper_def)
qed

lemma trim_no_space: "\<forall>c\<in>set s. \<not> is_space c \<Longrightarrow> trim_space s = s"
  by (rule trim_space_idle) (auto simp: trimmed_def)

lemma digits_pad [simp]: "digits (pad_int w n)"
  using pad_int_digits by (simp add: digits_def list_all_iff)

lemma parseClock_clock:
  assumes m: "0 \<le> m" "m < 1440 \<or> (m = 1440 \<and> is_end)"
  shows "parseClock (clock m) is_end = Inr m"
proof (cases "m = 1440")
  case True
  have "parseClock (clock 1440) True = Inr 1440" by code_simp
  with True m show ?thesis by simp
next
  case False
  let ?h = "m div 60" and ?m = "m mod 60"
  have h: "0 \<le> ?h" "?h \<le> 23" "?m \<le> 59" "0 \<le> ?m"
    using m False zdiv_mono1 [of m 1439 60] by (auto simp: pos_imp_zdiv_nonneg_iff)
  have "CHR '':'' \<notin> set (pad_int 2 ?h)" using pad_int_digits colon_not_digit by blast
  then have cut: "cut (CHR '':'') (clock m) = (pad_int 2 ?h, pad_int 2 ?m, True)"
    using cut_append [of "CHR '':''" "pad_int 2 ?h"] by (simp add: clock_def)
  have "trim_space (clock m) = clock m" using trim_no_space clock_char_facts(1) by blast
  moreover have "length (pad_int 2 ?h) = 2" "length (pad_int 2 ?m) = 2" using length_pad2 h by auto
  moreover have "digits_val (pad_int 2 ?h) = ?h" "digits_val (pad_int 2 ?m) = ?m" using h by auto
  moreover have "?h * 60 + ?m = m" by simp
  ultimately show ?thesis
    using h by (simp add: parseClock_def cut)
qed

lemma clock_not_Nil: "clock m \<noteq> []"
  by (simp add: clock_def)

lemma clock_has_digit: "list_ex is_digit (clock m @ s)"
  using pad_int_digits pad_int_not_Nil [of 2 "m div 60"]
  by (cases "pad_int 2 (m div 60)") (auto simp: clock_def, metis list.set_intros(1))

definition times_text :: "hours_window \<Rightarrow> string" where
  "times_text w = clock (hw_start w) @ ''-'' @ clock (hw_end w)"

lemma times_text_chars:
  assumes "c \<in> set (times_text w)"
  shows "\<not> is_space c" "\<not> is_upper c" "c \<noteq> CHR '',''"
proof -
  have "c = CHR ''-'' \<or> c \<in> set (clock (hw_start w)) \<or> c \<in> set (clock (hw_end w))"
    using assms by (auto simp: times_text_def)
  then show "\<not> is_space c" "\<not> is_upper c" "c \<noteq> CHR '',''"
    using clock_char_facts by (fastforce simp: is_space_def is_upper_def)+
qed

lemma cut_times: "cut (CHR ''-'') (times_text w) = (clock (hw_start w), clock (hw_end w), True)"
  unfolding times_text_def append_Cons append_Nil
  by (rule cut_append) (use clock_char_facts(4) in blast)

text \<open>A window that is not all of every day is printed as itself.\<close>

definition bounded_window :: "hours_window \<Rightarrow> bool" where
  "bounded_window w \<longleftrightarrow> False \<in> set (hw_days w) \<or> hw_start w \<noteq> 0 \<or> hw_end w \<noteq> minutesPerDay"

lemma parse_clocks:
  assumes "valid_window w"
  shows "parseClock (clock (hw_start w)) False = Inr (hw_start w)" "parseClock (clock (hw_end w)) True = Inr (hw_end w)"
  using assms by (auto simp: valid_window_def intro!: parseClock_clock)

lemma window_String_parts:
  "window_String w =
     (let days = daysString (hw_days w); always = (hw_start w = 0 \<and> hw_end w = minutesPerDay)
      in if always then days else if days = [] then times_text w else days @ '' '' @ times_text w)"
  by (simp add: window_String_def times_text_def Let_def)

lemma window_String_chars:
  assumes "valid_window w" "c \<in> set (window_String w)"
  shows "\<not> is_upper c" "c \<noteq> CHR '',''"
proof -
  have "length (hw_days w) = 7" "True \<in> set (hw_days w)" using assms(1) by (simp_all add: valid_window_def)
  then have days: "c \<in> set (daysString (hw_days w)) \<Longrightarrow> day_char c"
    using daysString_chars by blast
  have "c \<in> set (daysString (hw_days w)) \<or> c = CHR '' '' \<or> c \<in> set (times_text w)"
    using assms(2) by (auto simp: window_String_parts Let_def split: if_splits)
  then show "\<not> is_upper c" "c \<noteq> CHR '',''"
    using days day_char_facts times_text_chars by (fastforce simp: is_upper_def)+
qed

lemma hours_window_eqI:
  "hw_days w = ds \<Longrightarrow> hw_start w = s \<Longrightarrow> hw_end w = e \<Longrightarrow> \<lparr>hw_days = ds, hw_start = s, hw_end = e\<rparr> = (w :: hours_window)"
  by (cases w) simp

lemma all_days: "length ds = 7 \<Longrightarrow> False \<notin> set ds \<Longrightarrow> ds = replicate 7 True"
  by (metis (full_types) replicate_eqI)

lemma parse_window_String:
  assumes v: "valid_window w" and b: "bounded_window w"
  shows "parseHoursWindow (window_String w) = Inr w"
proof -
  let ?d = "daysString (hw_days w)" and ?t = "times_text w"
  have len: "length (hw_days w) = 7" "True \<in> set (hw_days w)" using v by (simp_all add: valid_window_def)
  note chars = daysString_chars [OF len, THEN day_char_facts(1)] daysString_chars [OF len, THEN day_char_facts(3)]
  have low: "to_lower (window_String w) = window_String w"
    using window_String_chars(1) [OF v] by (blast intro: to_lower_idle)
  have tnn: "?t \<noteq> []" by (simp add: times_text_def)
  have dig: "list_ex is_digit ?t" unfolding times_text_def by (rule clock_has_digit)
  have nodig: "\<not> list_ex is_digit ?d" using chars by (auto simp: list_ex_iff)
  have days: "False \<in> set (hw_days w) \<Longrightarrow> parseDays ?d = Inr (hw_days w) \<and> ?d \<noteq> []"
    using parseDays_daysString daysString_not_Nil len by simp
  have nodays: "False \<notin> set (hw_days w) \<Longrightarrow> ?d = [] \<and> hw_days w = replicate 7 True"
    using daysString_all all_days len by simp
  have tchars: "\<forall>c\<in>set ?t. \<not> is_space c" using times_text_chars(1) by blast
  consider (d) "False \<in> set (hw_days w)" "hw_start w = 0" "hw_end w = 1440"
    | (t) "False \<notin> set (hw_days w)" "hw_start w \<noteq> 0 \<or> hw_end w \<noteq> 1440"
    | (dt) "False \<in> set (hw_days w)" "hw_start w \<noteq> 0 \<or> hw_end w \<noteq> 1440"
    using b by (auto simp: bounded_window_def)
  then show ?thesis
  proof cases
    case d
    then have "Fields (window_String w) = [?d]"
      using days chars by (simp add: window_String_parts fields_word)
    then show ?thesis using d days nodig by (simp add: parseHoursWindow_def window_parts_def parse_times_def low hours_window_eqI)
  next
    case t
    then have "Fields (window_String w) = [?t]"
      using nodays tchars tnn by (auto simp: window_String_parts fields_word Let_def)
    then show ?thesis using t nodays dig tnn parse_clocks [OF v] v
      by (simp add: parseHoursWindow_def window_parts_def parse_times_def low hours_window_eqI cut_times valid_window_def)
  next
    case dt
    then have "Fields (window_String w) = [?d, ?t]"
      using fields_two [of ?d ?t] days chars tchars tnn by (auto simp: window_String_parts Let_def)
    then show ?thesis using dt days tnn parse_clocks [OF v] v
      by (simp add: parseHoursWindow_def window_parts_def parse_times_def low hours_window_eqI cut_times valid_window_def)
  qed
qed


lemma window_String_trimmed:
  assumes v: "valid_window w" and b: "bounded_window w"
  shows "window_String w \<noteq> []" "trimmed (window_String w)"
proof -
  let ?d = "daysString (hw_days w)" and ?t = "times_text w"
  have len: "length (hw_days w) = 7" "True \<in> set (hw_days w)" using v by (simp_all add: valid_window_def)
  have d: "\<not> is_space c" if "c \<in> set ?d" for c using daysString_chars [OF len that] by (rule day_char_facts)
  have t: "\<not> is_space c" if "c \<in> set ?t" for c using times_text_chars(1) that by blast
  have tnn: "?t \<noteq> []" by (simp add: times_text_def)
  have dnn: "False \<in> set (hw_days w) \<Longrightarrow> ?d \<noteq> []" using daysString_not_Nil len by simp
  show "window_String w \<noteq> []" using b tnn dnn by (auto simp: window_String_parts Let_def bounded_window_def)
  have "trimmed ?d" "trimmed ?t" "?d \<noteq> [] \<Longrightarrow> trimmed (?d @ '' '' @ ?t)"
    using d t tnn by (auto simp: trimmed_def)
  then show "trimmed (window_String w)" by (simp add: window_String_parts Let_def)
qed

lemma split_join_spaced:
  "xs \<noteq> [] \<Longrightarrow> \<forall>x\<in>set xs. sep \<notin> set x \<Longrightarrow> sep \<notin> set s \<Longrightarrow>
   split sep (join (sep # s) xs) = hd xs # map (\<lambda>x. s @ x) (tl xs)"
proof (induction xs rule: induct_list012)
  case (3 x y zs)
  have "split sep (s @ z) = (s @ hd (split sep z)) # tl (split sep z)" for z
    using 3(5) by (induction s) (auto split: list.splits)
  with 3 show ?case by (simp add: split_append_sep)
qed (simp_all add: split_no_sep)

lemma trim_leading: "is_space c \<Longrightarrow> trim_space (c # s) = trim_space s"
  by (simp add: trim_space_def trim_left_def)

text \<open>A list of windows, none of them all of every day, is printed as itself.\<close>

lemma parse_hours_String:
  assumes ws: "ws \<noteq> []" "\<forall>w\<in>set ws. valid_window w \<and> bounded_window w"
  shows "parseHours False (hoursString ws) = Inr ws"
proof -
  let ?f = "\<lambda>raw. parseHoursWindow (trim_space raw)"
  have one: "?f (window_String w) = Inr w" "?f ('' '' @ window_String w) = Inr w" if "w \<in> set ws" for w
    using that ws window_String_trimmed parse_window_String
    by (simp_all add: trim_leading trim_space_idle is_space_def)
  have printed: "hoursString ws = join (CHR '','' # '' '') (map window_String ws)"
    using ws window_String_trimmed(1) by (simp add: hoursString_def cong: map_cong)
  have "split (CHR '','') (hoursString ws) = hd (map window_String ws) # map (\<lambda>x. '' '' @ x) (tl (map window_String ws))"
    unfolding printed using ws window_String_chars(2) by (intro split_join_spaced) auto
  also have "\<dots> = window_String (hd ws) # map (\<lambda>w. '' '' @ window_String w) (tl ws)"
    using ws by (cases ws) auto
  finally have "traverse ?f (split (CHR '','') (hoursString ws)) = 
     try_res (?f (window_String (hd ws))) (\<lambda>y. try_res (traverse ?f (map (\<lambda>w. '' '' @ window_String w) (tl ws))) (\<lambda>ys. Inr (y # ys)))"
    by (simp add: try_res_def)
  also have "traverse ?f (map (\<lambda>w. '' '' @ window_String w) (tl ws)) = Inr (tl ws)"
    using ws one(2) by (intro traverse_map_inverse) (auto dest: list.set_sel(2))
  finally show ?thesis using ws one(1) [of "hd ws"] by (simp add: parseHours_def)
qed

subsection \<open>Every window parsed is proper\<close>

lemma set_flag_keeps: "out ! d' \<Longrightarrow> d' < length out \<Longrightarrow> out[d := True] ! d'"
  by (cases "d = d'") auto

lemma mark_days_keeps: "length (mark_days k d e out) = length out \<and> (d' < length out \<longrightarrow> out ! d' \<longrightarrow> mark_days k d e out ! d')"
  by (induction k d e out rule: mark_days.induct) (auto simp: Let_def set_flag_keeps)

lemma mark_days_first: "0 < k \<Longrightarrow> d < length out \<Longrightarrow> mark_days k d e out ! d"
  using mark_days_keeps by (cases k) (auto simp: Let_def)

lemma dayIndex_bound: "dayIndex s = Some d \<Longrightarrow> d < 7"
  by (auto simp: dayIndex_def Let_def find_Some_iff split: if_splits)

lemma parse_day_parts_days:
  "parse_day_parts parts out = Inr ds \<Longrightarrow> length out = 7 \<Longrightarrow> parts \<noteq> [] \<or> True \<in> set out \<Longrightarrow>
   length ds = 7 \<and> True \<in> set ds"
proof (induction parts arbitrary: out)
  case (Cons part parts)
  obtain from_d to_d r where c: "cut (CHR ''-'') part = (from_d, to_d, r)" by (metis prod_cases3)
  with Cons.prems obtain a b where ab: "dayIndex from_d = Some a" "parse_day_parts parts (mark_days 7 a b out) = Inr ds"
    by (auto split: option.splits)
  have "mark_days 7 a b out ! a" using mark_days_first dayIndex_bound [OF ab(1)] Cons.prems by simp
  then have "True \<in> set (mark_days 7 a b out)"
    using mark_days_keeps dayIndex_bound [OF ab(1)] Cons.prems by (metis nth_mem)
  with Cons.IH [OF ab(2)] mark_days_keeps Cons.prems show ?case by simp
qed auto

lemma parseDays_days: "parseDays s = Inr ds \<Longrightarrow> length ds = 7 \<and> True \<in> set ds"
  using parse_day_parts_days by (simp add: parseDays_def)

lemma parseClock_range:
  assumes "parseClock s e = Inr m"
  shows "0 \<le> m \<and> (m < 1440 \<or> (e \<and> m = 1440))"
proof -
  obtain h mm ok where "cut (CHR '':'') (trim_space s) = (h, mm, ok)" by (metis prod_cases3)
  with assms show ?thesis using digits_val_nonneg [of h] digits_val_nonneg [of mm]
    by (auto simp: parseClock_def Let_def split: if_splits)
qed

lemma parse_times_valid:
  assumes "length days = 7" "True \<in> set days" and "parse_times s days timePart = Inr w"
  shows "valid_window w"
proof (cases "timePart = []")
  case True
  with assms show ?thesis by (auto simp: parse_times_def valid_window_def)
next
  case False
  obtain from_c to_c ok where "cut (CHR ''-'') timePart = (from_c, to_c, ok)" by (metis prod_cases3)
  with assms(3) False obtain a b where "parseClock from_c False = Inr a" "parseClock to_c True = Inr b" "a \<noteq> b"
    "w = \<lparr>hw_days = days, hw_start = a, hw_end = b\<rparr>"
    by (auto simp: parse_times_def try_res_Inr_iff split: if_splits)
  then show ?thesis using assms(1,2) parseClock_range by (fastforce simp: valid_window_def)
qed

lemma parseHoursWindow_valid:
  assumes "parseHoursWindow s = Inr w"
  shows "valid_window w"
proof -
  obtain dp tp where parts: "window_parts (Fields (to_lower s)) = (dp, tp)" by fastforce
  have "\<not> (length (Fields (to_lower s)) = 0 \<or> 2 < length (Fields (to_lower s)))"
  proof
    assume "length (Fields (to_lower s)) = 0 \<or> 2 < length (Fields (to_lower s))"
    then have "parseHoursWindow s = Inl (WindowShape s)" unfolding parseHoursWindow_def Let_def by (rule if_P)
    with assms show False by simp
  qed
  with assms parts have "try_res (if dp \<noteq> [] then parseDays dp else Inr (replicate 7 True)) (\<lambda>days. parse_times s days tp) = Inr w"
    unfolding parseHoursWindow_def Let_def by (simp only: if_False prod.case)
  then obtain days where d: "(if dp \<noteq> [] then parseDays dp else Inr (replicate 7 True)) = Inr days"
    and t: "parse_times s days tp = Inr w"
    unfolding try_res_Inr_iff by blast
  have "length (replicate 7 True) = 7 \<and> True \<in> set (replicate 7 True)" by simp
  with d have "length days = 7 \<and> True \<in> set days" using parseDays_days by (metis Inr_inject)
  with t show ?thesis using parse_times_valid by blast
qed

lemma parseHours_valid:
  "parseHours has_op s = Inr ws \<Longrightarrow> ws \<noteq> [] \<and> (\<forall>w\<in>set ws. valid_window w)"
proof -
  assume p: "parseHours has_op s = Inr ws"
  then have t: "traverse (\<lambda>raw. parseHoursWindow (trim_space raw)) (split (CHR '','') s) = Inr ws"
    by (simp add: parseHours_def split: if_splits)
  have "valid_window w" if w: "w \<in> set ws" for w
  proof -
    obtain raw where "parseHoursWindow (trim_space raw) = Inr w" using traverse_Inr_set [OF t w] by auto
    then show ?thesis by (rule parseHoursWindow_valid)
  qed
  moreover have "ws \<noteq> []" using t by (auto simp: traverse_Inr_iff)
  ultimately show ?thesis by blast
qed

subsection \<open>A plain folder holds the directories below it\<close>

lemma inFolder_ancestors:
  "\<forall>e\<in>set es. elem_ok e \<Longrightarrow> inFolder (path_of es) f \<longleftrightarrow> (\<exists>k\<le>length es. matches f (path_of (take k es)))"
proof (induction es rule: rev_induct)
  case Nil
  have "Dir (path_of []) = path_of []" by (simp add: path_of_def)
  then show ?case by (subst inFolder.simps) simp
next
  case (snoc e es)
  have dir: "Dir (path_of (es @ [e])) = path_of es" using Dir_path_of snoc.prems by simp
  have "es \<noteq> es @ [e]" by simp
  then have "path_of es \<noteq> path_of (es @ [e])" using path_of_inj [of es "es @ [e]"] snoc.prems by auto
  then have "inFolder (path_of (es @ [e])) f \<longleftrightarrow> matches f (path_of (es @ [e])) \<or> inFolder (path_of es) f"
    by (subst inFolder.simps) (simp add: dir)
  also have "inFolder (path_of es) f \<longleftrightarrow> (\<exists>k\<le>length es. matches f (path_of (take k es)))"
    using snoc by simp
  also have "matches f (path_of (es @ [e])) \<or> (\<exists>k\<le>length es. matches f (path_of (take k es))) \<longleftrightarrow>
      (\<exists>k\<le>length (es @ [e]). matches f (path_of (take k (es @ [e]))))"
    by (auto simp: le_Suc_eq) 
  finally show ?case .
qed

lemma inFolder_plain:
  assumes "\<forall>e\<in>set es. elem_ok e" "\<forall>e\<in>set fs. elem_ok e" "plain (path_of fs)"
  shows "inFolder (path_of es) (path_of fs) \<longleftrightarrow> prefix fs es"
proof -
  have "inFolder (path_of es) (path_of fs) \<longleftrightarrow> (\<exists>k\<le>length es. path_of (take k es) = path_of fs)"
    using assms inFolder_ancestors matches_plain by simp
  also have "\<dots> \<longleftrightarrow> (\<exists>k\<le>length es. take k es = fs)"
    using assms path_of_inj by (metis in_set_takeD)
  also have "\<dots> \<longleftrightarrow> prefix fs es"
    by (metis append_eq_conv_conj prefix_def prefix_length_le take_is_prefix)
  finally show ?thesis .
qed

lemma find_eq_Some: "find P xs = Some y \<Longrightarrow> y \<in> set xs \<and> P y"
  by (auto simp: find_Some_iff)

lemma matchFolder_sound: "matchFolder folders dir = Some f \<Longrightarrow> f \<in> set folders \<and> is_abs dir \<and> inFolder (Clean dir) f"
  by (auto simp: matchFolder_def dest!: find_eq_Some split: if_splits)

lemma matchHours_spec:
  assumes "\<forall>w\<in>set ws. valid_window w"
  shows "matchHours ws t = (if IsZero t then None else find (\<lambda>w. window_spec w t) ws)"
proof -
  have "find (\<lambda>w. window_holds w t) ws = find (\<lambda>w. window_spec w t) ws"
    using assms window_holds_spec by (intro find_cong) auto
  then show ?thesis by (simp add: matchHours_def)
qed


subsection \<open>Properties\<close>

text \<open>
  C30: Every window the parser accepts means what it is written to mean: it holds at a moment
  exactly when that moment lies less than the window's length after its start on one of its
  weekdays, counted around the week. A window over midnight belongs to the day it starts on.
\<close>

theorem window_meaning:
  assumes "parseHoursWindow s = Inr w"
  shows "window_holds w t \<longleftrightarrow> window_spec w t"
  using parseHoursWindow_valid [OF assms] by (rule window_holds_spec)

text \<open>Friday night's window holds on Saturday 3 January 1970 at 05:00.\<close>

lemma window_meaning_witness:
  "window_spec \<lparr>hw_days = [False, False, False, False, False, True, False], hw_start = 1320, hw_end = 360\<rparr>
     \<lparr>t_ns = 190800000000000, t_off = 0\<rparr>"
proof -
  have "parseHoursWindow ''fri 22:00-06:00'' =
      Inr \<lparr>hw_days = [False, False, False, False, False, True, False], hw_start = 1320, hw_end = 360\<rparr>"
    by code_simp
  note w = window_meaning [OF this, of "\<lparr>t_ns = 190800000000000, t_off = 0\<rparr>"]
  have "window_holds \<lparr>hw_days = [False, False, False, False, False, True, False], hw_start = 1320, hw_end = 360\<rparr>
      \<lparr>t_ns = 190800000000000, t_off = 0\<rparr>"
    by code_simp
  with w show ?thesis by blast
qed

text \<open>
  A list of windows, each limited to some days or times, is printed in a form that parses
  back to the same windows; so what a listing shows can be pasted into the configuration.
\<close>

theorem hours_round_trip:
  assumes "ws \<noteq> []" and "\<forall>w\<in>set ws. valid_window w \<and> bounded_window w"
  shows "parseHours False (hoursString ws) = Inr ws"
  using assms by (rule parse_hours_String)

lemma hours_round_trip_witness:
  "parseHours False (hoursString [\<lparr>hw_days = [False, True, True, True, True, True, False], hw_start = 540, hw_end = 1080\<rparr>,
       \<lparr>hw_days = [True, False, False, False, False, False, True], hw_start = 0, hw_end = 1440\<rparr>]) =
   Inr [\<lparr>hw_days = [False, True, True, True, True, True, False], hw_start = 540, hw_end = 1080\<rparr>,
       \<lparr>hw_days = [True, False, False, False, False, False, True], hw_start = 0, hw_end = 1440\<rparr>]"
  by (rule hours_round_trip) (simp_all add: valid_window_def bounded_window_def)

text \<open>
  The one window left out of that, all of every day, is accepted when written as all seven
  weekdays, but is printed as \<open>all day\<close>, which the parser refuses.
\<close>

theorem hours_all_day_lost:
  "parseHours False ''mon-sun'' = Inr [\<lparr>hw_days = replicate 7 True, hw_start = 0, hw_end = 1440\<rparr>] \<and>
   hoursString [\<lparr>hw_days = replicate 7 True, hw_start = 0, hw_end = 1440\<rparr>] = ''all day'' \<and>
   parseHours False ''all day'' = Inl (BadWeekday ''all'')"
  by code_simp

text \<open>
  A folder written without glob characters holds exactly the directories whose path
  elements start with the folder's: itself and everything below it, and no sibling whose
  name merely starts the same.
\<close>

theorem folder_holds_below:
  assumes "\<forall>e\<in>set es. elem_ok e" "\<forall>e\<in>set fs. elem_ok e" and "plain (path_of fs)"
  shows "matchFolder [path_of fs] (path_of es) = (if prefix fs es then Some (path_of fs) else None)"
  using inFolder_plain [OF assms] Clean_path_of [OF assms(1)]
  by (simp add: matchFolder_def) (simp add: path_of_def)

lemma folder_holds_below_witness:
  "matchFolder [path_of [''home'', ''work'']] (path_of [''home'', ''work'', ''acme'']) = Some (path_of [''home'', ''work'']) \<and>
   matchFolder [path_of [''home'', ''work'']] (path_of [''home'', ''workshop'']) = None"
proof -
  have fs: "\<forall>e\<in>set [''home'', ''work'']. elem_ok e" by (simp add: elem_ok_def)
  have pl: "plain (path_of [''home'', ''work''])" by (simp add: plain_def path_of_def)
  have "\<forall>e\<in>set [''home'', ''work'', ''acme'']. elem_ok e" "\<forall>e\<in>set [''home'', ''workshop'']. elem_ok e"
    by (simp_all add: elem_ok_def)
  from folder_holds_below [OF this(1) fs pl] folder_holds_below [OF this(2) fs pl] show ?thesis by simp
qed

lemma bad_glob_no_match: "\<not> matches ''/h/['' s"
proof -
  have "chunks ''/h/['' = [(False, ''/h/['')]" by code_simp
  moreover have "parse_chunk ''/h/['' = None" by code_simp
  ultimately show ?thesis by (simp add: matches_def Match_def)
qed

lemma bad_glob_nowhere: "\<not> inFolder dir ''/h/[''"
proof (induction dir "''/h/[''" rule: inFolder.induct)
  case (1 d)
  then show ?case by (subst inFolder.simps) (simp add: bad_glob_no_match)
qed

text \<open>
  A folder below the home directory is not checked to be a glob, unlike an absolute one:
  an unclosed bracket is accepted there, and the rule that names it applies nowhere.
\<close>

theorem tilde_folder_unchecked:
  "parseFolders (Some ''/h'') False ''~/['' = Inr [''/h/[''] \<and>
   parseFolders (Some ''/h'') False ''/h/['' = Inl (BadGlob ''/h/['') \<and>
   matchFolder [''/h/[''] dir = None"
proof (intro conjI)
  show "parseFolders (Some ''/h'') False ''~/['' = Inr [''/h/['']" by code_simp
  show "parseFolders (Some ''/h'') False ''/h/['' = Inl (BadGlob ''/h/['')" by code_simp
  show "matchFolder [''/h/[''] dir = None" by (simp add: matchFolder_def bad_glob_nowhere)
qed

end
