(* ===== verification/Loops.thy ===== *)
theory Loops
  imports GoStrings
begin

text \<open>
  The loop breaker's figure (\<open>internal/contexts/boundaries/loop.go\<close>): how many of a session's
  latest tool calls went round a loop of one to three calls, counting only the calls since
  the last progress, an edit not already made since the one before it. A call is its tool's
  name and the hash of its input. The lemmas say that a reading is a loop that really is at
  the end of the calls, that no longer one of these periods is missed, and that a new edit
  clears it.
\<close>

subsection \<open>Calls and readings\<close>

record tool_call =
  tc_tool :: string
  tc_hash :: string

record loop_reading =
  lr_calls :: nat
  lr_period :: nat
  lr_repeats :: nat
  lr_tools :: "string list"

abbreviation no_loop :: loop_reading where
  "no_loop \<equiv> \<lparr>lr_calls = 0, lr_period = 0, lr_repeats = 0, lr_tools = []\<rparr>"

abbreviation LoopWindow :: nat where "LoopWindow \<equiv> 64"
abbreviation loopMinCycleRepeats :: nat where "loopMinCycleRepeats \<equiv> 3"
abbreviation loopMaxPeriod :: nat where "loopMaxPeriod \<equiv> 3"

definition editTools :: "string list" where
  "editTools = [''edit'', ''multiedit'', ''write'', ''notebookedit'', ''patch'']"

definition IsEditTool :: "string \<Rightarrow> bool" where
  "IsEditTool name \<longleftrightarrow> to_lower (trim_space name) \<in> set editTools"

subsection \<open>Progress\<close>

definition progress_start :: "tool_call list \<Rightarrow> nat" where
  "progress_start calls =
     foldl (\<lambda>start i. if IsEditTool (tc_tool (calls ! i)) \<and> calls ! i \<notin> set (drop start (take i calls))
                      then i else start) 0 [0..<length calls]"

definition sinceProgress :: "tool_call list \<Rightarrow> tool_call list" where
  "sinceProgress calls = drop (progress_start calls) calls"

subsection \<open>The reading\<close>

definition allSame :: "tool_call list \<Rightarrow> bool" where
  "allSame unit = list_all (\<lambda>c. c = hd unit) (tl unit)"

definition toolNames :: "tool_call list \<Rightarrow> string list" where
  "toolNames unit = map tc_tool unit"

text \<open>How often the unit stands at the end of the calls, one copy after the other.\<close>

function copies_at_end :: "'a list \<Rightarrow> 'a list \<Rightarrow> nat" where
  "copies_at_end unit xs =
     (if unit = [] \<or> length xs < length unit \<or> drop (length xs - length unit) xs \<noteq> unit then 0
      else Suc (copies_at_end unit (take (length xs - length unit) xs)))"
  by pat_completeness auto
termination
  proof (relation "measure (\<lambda>(unit, xs). length xs)", goal_cases)
  case (2 unit xs)
  then have "length xs - length unit < length xs" by (cases unit) auto
  then show ?case by simp
qed simp

declare copies_at_end.simps [simp del]

definition loop_step :: "tool_call list \<Rightarrow> loop_reading \<Rightarrow> nat \<Rightarrow> loop_reading" where
  "loop_step tail cur period =
     (let unit = drop (length tail - period) tail
      in if 1 < period \<and> allSame unit then cur
         else let repeats = 1 + copies_at_end unit (take (length tail - period) tail)
              in if repeats < 2 \<or> (1 < period \<and> repeats < loopMinCycleRepeats) then cur
                 else if lr_calls cur < period * repeats
                 then \<lparr>lr_calls = min (period * repeats) LoopWindow, lr_period = period,
                       lr_repeats = repeats, lr_tools = toolNames unit\<rparr>
                 else cur)"

definition ReadLoop :: "tool_call list \<Rightarrow> loop_reading" where
  "ReadLoop calls =
     (let tail = sinceProgress calls
      in foldl (loop_step tail) no_loop [1..<Suc (min loopMaxPeriod (length tail))])"

definition loopWords :: "loop_reading \<Rightarrow> string" where
  "loopWords r =
     (if lr_period r = 1
      then ''the same '' @ hd (lr_tools r) @ '' call '' @ itoa (int (lr_repeats r)) @
           '' times in a row with no file changed''
      else ''the same '' @ itoa (int (lr_period r)) @ '' calls ('' @ join '', '' (lr_tools r) @ '') '' @
           itoa (int (lr_repeats r)) @ '' times in a row with no file changed'')"

subsection \<open>What counts as progress\<close>

lemma progress_start_le: "progress_start calls \<le> length calls"
proof -
  have "foldl (\<lambda>start i. if P start i then i else start) s [0..<n] \<le> max s n" for P s and n :: nat
    by (induction n) (auto simp: le_max_iff_disj)
  from this [of _ 0 "length calls"] show ?thesis by (simp add: progress_start_def)
qed

lemma progress_start_snoc:
  "progress_start (calls @ [c]) =
     (if IsEditTool (tc_tool c) \<and> c \<notin> set (sinceProgress calls) then length calls else progress_start calls)"
proof -
  let ?f = "\<lambda>xs start i. if IsEditTool (tc_tool (xs ! i)) \<and> xs ! i \<notin> set (drop start (take i xs)) then i else start"
  have "foldl (?f (calls @ [c])) 0 [0..<length calls] = foldl (?f calls) 0 [0..<length calls]"
    by (rule foldl_cong) (auto simp: nth_append)
  then show ?thesis by (simp add: progress_start_def sinceProgress_def)
qed

lemma sinceProgress_Nil [simp]: "sinceProgress [] = []"
  by (simp add: sinceProgress_def)

lemma sinceProgress_snoc:
  "sinceProgress (calls @ [c]) =
     (if IsEditTool (tc_tool c) \<and> c \<notin> set (sinceProgress calls) then [c] else sinceProgress calls @ [c])"
  using progress_start_le [of calls] by (auto simp: progress_start_snoc sinceProgress_def)

lemma sinceProgress_suffix: "suffix (sinceProgress calls) calls"
  by (simp add: sinceProgress_def suffix_drop)

text \<open>After the first call, the calls that count hold no edit that is new among them.\<close>

lemma sinceProgress_stale:
  "sinceProgress calls = xs @ c # ys \<Longrightarrow> xs \<noteq> [] \<Longrightarrow> IsEditTool (tc_tool c) \<Longrightarrow> c \<in> set xs"
proof (induction calls arbitrary: xs ys rule: rev_induct)
  case (snoc d calls)
  show ?case
  proof (cases "IsEditTool (tc_tool d) \<and> d \<notin> set (sinceProgress calls)")
    case True
    with snoc.prems(1) have "[d] = xs @ c # ys" by (simp add: sinceProgress_snoc)
    then have "xs = []" by (cases xs) auto
    with snoc.prems show ?thesis by simp
  next
    case False
    with snoc.prems(1) have eq: "sinceProgress calls @ [d] = xs @ c # ys" by (simp add: sinceProgress_snoc)
    show ?thesis
    proof (cases ys rule: rev_cases)
      case Nil
      with eq False snoc.prems show ?thesis by auto
    next
      case (snoc zs z)
      with eq have "sinceProgress calls = xs @ c # zs" by simp
      then show ?thesis using snoc.IH snoc.prems by blast
    qed
  qed
qed simp

subsection \<open>Copies at the end\<close>

lemma copies_at_end_append: "unit \<noteq> [] \<Longrightarrow> copies_at_end unit (xs @ unit) = Suc (copies_at_end unit xs)"
  by (subst copies_at_end.simps) simp

lemma copies_at_end_none: "\<not> suffix unit xs \<Longrightarrow> copies_at_end unit xs = 0"
  by (subst copies_at_end.simps) (metis suffix_drop)

lemma concat_replicate_snoc: "concat (replicate (Suc n) u) = concat (replicate n u) @ u"
  by (induction n) auto

lemma copies_at_end_split:
  assumes "unit \<noteq> []"
  obtains pre where "xs = pre @ concat (replicate (copies_at_end unit xs) unit)" and "\<not> suffix unit pre"
proof -
  have "\<exists>pre. xs = pre @ concat (replicate (copies_at_end unit xs) unit) \<and> \<not> suffix unit pre"
    using assms
  proof (induction unit xs rule: copies_at_end.induct)
    case (1 unit xs)
    show ?case
    proof (cases "suffix unit xs")
      case True
      then obtain ys where ys: "xs = ys @ unit" by (auto simp: suffix_def)
      then obtain pre where "ys = pre @ concat (replicate (copies_at_end unit ys) unit)" "\<not> suffix unit pre"
        using 1 by fastforce
      then have "xs = pre @ concat (replicate (copies_at_end unit xs) unit) \<and> \<not> suffix unit pre"
        using ys 1(2) by (simp add: copies_at_end_append concat_replicate_snoc del: replicate_Suc)
      then show ?thesis by blast
    qed (auto simp: copies_at_end_none)
  qed
  then show ?thesis using that by blast
qed

lemma copies_at_end_replicate:
  "unit \<noteq> [] \<Longrightarrow> copies_at_end unit (pre @ concat (replicate n unit)) = n + copies_at_end unit pre"
proof (induction n)
  case (Suc n)
  then show ?case
    using copies_at_end_append [of unit "pre @ concat (replicate n unit)"]
    by (simp add: concat_replicate_snoc del: replicate_Suc)
qed simp

text \<open>A loop at the end of the calls: a unit of one to three calls, repeated often enough.\<close>

definition loops_in :: "tool_call list \<Rightarrow> tool_call list \<Rightarrow> nat \<Rightarrow> bool" where
  "loops_in tail unit n \<longleftrightarrow>
     (\<exists>pre. tail = pre @ concat (replicate n unit)) \<and> 1 \<le> length unit \<and> length unit \<le> loopMaxPeriod \<and> 2 \<le> n \<and>
     (1 < length unit \<longrightarrow> loopMinCycleRepeats \<le> n \<and> \<not> allSame unit)"

definition reading_of :: "tool_call list \<Rightarrow> tool_call list \<Rightarrow> loop_reading \<Rightarrow> bool" where
  "reading_of tail unit r \<longleftrightarrow>
     loops_in tail unit (lr_repeats r) \<and> \<not> loops_in tail unit (Suc (lr_repeats r)) \<and>
     lr_period r = length unit \<and> lr_tools r = map tc_tool unit \<and>
     lr_calls r = min (lr_period r * lr_repeats r) LoopWindow"

lemma loop_step_cases:
  assumes p: "1 \<le> period" "period \<le> 3" "period \<le> length tail"
  shows "loop_step tail cur period = cur \<or> (\<exists>unit. reading_of tail unit (loop_step tail cur period))"
proof -
  define unit where "unit = drop (length tail - period) tail"
  define pre where "pre = take (length tail - period) tail"
  have tail: "tail = pre @ unit" by (simp add: unit_def pre_def)
  have len: "length unit = period" using p by (simp add: unit_def)
  then have unit: "unit \<noteq> []" using p by auto
  define n where "n = copies_at_end unit pre"
  obtain rest where rest: "pre = rest @ concat (replicate n unit)" "\<not> suffix unit rest"
    unfolding n_def using copies_at_end_split [OF unit] by metis
  have all: "tail = rest @ concat (replicate (Suc n) unit)" using tail rest by (simp add: concat_replicate_snoc del: replicate_Suc)
  have no_more: "\<not> loops_in tail unit (Suc (Suc n))"
  proof
    assume "loops_in tail unit (Suc (Suc n))"
    then obtain q where "tail = q @ concat (replicate (Suc (Suc n)) unit)" by (auto simp: loops_in_def)
    then have "copies_at_end unit tail = Suc (Suc n) + copies_at_end unit q"
      using copies_at_end_replicate [of unit q "Suc (Suc n)"] unit by (simp del: replicate_Suc)
    moreover have "copies_at_end unit tail = Suc n + copies_at_end unit rest"
      using all copies_at_end_replicate [of unit rest "Suc n"] unit by (simp del: replicate_Suc)
    ultimately show False using copies_at_end_none [OF rest(2)] by simp
  qed
  show ?thesis
  proof (cases "(1 < period \<and> allSame unit) \<or> 1 + n < 2 \<or> (1 < period \<and> 1 + n < 3) \<or> \<not> lr_calls cur < period * (1 + n)")
    case True
    then have "loop_step tail cur period = cur"
      by (auto simp: loop_step_def Let_def simp flip: unit_def pre_def n_def)
    then show ?thesis by blast
  next
    case False
    then have "loop_step tail cur period =
        \<lparr>lr_calls = min (period * (1 + n)) LoopWindow, lr_period = period, lr_repeats = 1 + n, lr_tools = toolNames unit\<rparr>"
      by (auto simp: loop_step_def Let_def simp flip: unit_def pre_def n_def)
    moreover have "loops_in tail unit (1 + n)"
      using all False p len by (auto simp: loops_in_def simp del: replicate_Suc)
    ultimately have "reading_of tail unit (loop_step tail cur period)"
      using no_more len by (simp add: reading_of_def toolNames_def)
    then show ?thesis by blast
  qed
qed

lemma foldl_inv: "P a \<Longrightarrow> (\<And>b x. P b \<Longrightarrow> x \<in> set xs \<Longrightarrow> P (f b x)) \<Longrightarrow> P (foldl f a xs)"
  by (induction xs arbitrary: a) auto

lemma ReadLoop_sound:
  "ReadLoop calls = no_loop \<or> (\<exists>unit. reading_of (sinceProgress calls) unit (ReadLoop calls))"
  unfolding ReadLoop_def Let_def
proof (rule foldl_inv)
  fix b p
  assume b: "b = no_loop \<or> (\<exists>unit. reading_of (sinceProgress calls) unit b)"
    and "p \<in> set [1..<Suc (min loopMaxPeriod (length (sinceProgress calls)))]"
  then show "loop_step (sinceProgress calls) b p = no_loop \<or>
      (\<exists>unit. reading_of (sinceProgress calls) unit (loop_step (sinceProgress calls) b p))"
    using loop_step_cases [of p "sinceProgress calls" b] by auto
qed simp

subsection \<open>No longer loop is missed\<close>

lemma loop_step_grows: "min (lr_calls cur) LoopWindow \<le> lr_calls (loop_step tail cur period)"
  by (auto simp: loop_step_def Let_def)

lemma loop_step_finds:
  assumes "loops_in tail unit n"
  shows "min (length unit * n) LoopWindow \<le> lr_calls (loop_step tail cur (length unit))"
proof -
  obtain pre where pre: "tail = pre @ concat (replicate n unit)" using assms by (auto simp: loops_in_def)
  obtain k where k: "n = Suc k" using assms by (cases n) (auto simp: loops_in_def)
  have unit: "unit \<noteq> []" using assms by (auto simp: loops_in_def)
  have split: "drop (length tail - length unit) tail = unit"
    "take (length tail - length unit) tail = pre @ concat (replicate k unit)"
    using pre by (simp_all add: k concat_replicate_snoc del: replicate_Suc)
  define m where "m = copies_at_end unit (pre @ concat (replicate k unit))"
  have m: "k \<le> m" by (simp add: m_def copies_at_end_replicate unit)
  have "length unit * n \<le> length unit * (1 + m)" using k m by simp
  moreover have "\<not> (1 < length unit \<and> allSame unit)" "\<not> (1 + m < 2 \<or> (1 < length unit \<and> 1 + m < 3))"
    using assms k m by (auto simp: loops_in_def)
  ultimately show ?thesis
    by (auto simp: loop_step_def Let_def split simp flip: m_def)
qed

lemma foldl_loop_steps:
  assumes "loops_in tail unit n" and "length unit \<in> set ps"
  shows "min (length unit * n) LoopWindow \<le> lr_calls (foldl (loop_step tail) cur ps)"
proof -
  obtain as bs where ps: "ps = as @ length unit # bs" using assms(2) by (meson split_list)
  define r where "r = loop_step tail (foldl (loop_step tail) cur as) (length unit)"
  have "min (length unit * n) LoopWindow \<le> lr_calls (foldl (loop_step tail) r bs)"
  proof (rule foldl_inv)
    show "min (length unit * n) LoopWindow \<le> lr_calls r" unfolding r_def by (rule loop_step_finds [OF assms(1)])
  next
    fix b :: loop_reading and x
    assume "min (length unit * n) LoopWindow \<le> lr_calls b"
    then show "min (length unit * n) LoopWindow \<le> lr_calls (loop_step tail b x)"
      using loop_step_grows [of b tail x] by simp
  qed
  then show ?thesis by (simp add: ps r_def)
qed

lemma ReadLoop_complete:
  assumes "loops_in (sinceProgress calls) unit n"
  shows "min (length unit * n) LoopWindow \<le> lr_calls (ReadLoop calls)"
proof -
  obtain pre where "sinceProgress calls = pre @ concat (replicate n unit)" "2 \<le> n"
    using assms by (auto simp: loops_in_def)
  then have "length unit \<le> length (sinceProgress calls)" by (cases n) auto
  then have "length unit \<in> set [1..<Suc (min loopMaxPeriod (length (sinceProgress calls)))]"
    using assms by (auto simp: loops_in_def min_def simp del: upt_Suc)
  then show ?thesis unfolding ReadLoop_def Let_def using assms by (intro foldl_loop_steps)
qed

lemma ReadLoop_single: "length (sinceProgress calls) \<le> 1 \<Longrightarrow> ReadLoop calls = no_loop"
proof -
  assume len: "length (sinceProgress calls) \<le> 1"
  have "\<not> loops_in (sinceProgress calls) unit n" for unit n
  proof
    assume l: "loops_in (sinceProgress calls) unit n"
    then obtain pre where "sinceProgress calls = pre @ concat (replicate n unit)" by (auto simp: loops_in_def)
    then have "n * length unit \<le> 1" using len by (simp add: length_concat sum_list_replicate)
    moreover have "2 * 1 \<le> n * length unit" using l by (intro mult_le_mono) (auto simp: loops_in_def)
    ultimately show False by simp
  qed
  then show ?thesis using ReadLoop_sound [of calls] by (auto simp: reading_of_def)
qed


subsection \<open>Properties\<close>

text \<open>
  A reading is never made up: either there is no loop, or some unit of one to three calls
  stands at the end of the calls since the last progress exactly as often as the reading
  says, often enough to count (twice for one call, three times for a cycle, which is not one
  call in disguise), and the reading names its tools and its calls, at most the window's.
\<close>

theorem loop_reading_true:
  "ReadLoop calls = no_loop \<or> (\<exists>unit. reading_of (sinceProgress calls) unit (ReadLoop calls))"
  by (rule ReadLoop_sound)

text \<open>
  No loop is missed: whatever unit of one to three calls loops at the end of the calls since
  the last progress, the reading counts at least as many calls.
\<close>

theorem loop_found:
  assumes "loops_in (sinceProgress calls) unit n"
  shows "min (length unit * n) LoopWindow \<le> lr_calls (ReadLoop calls)"
  using assms by (rule ReadLoop_complete)

lemma loop_found_witness:
  "6 \<le> lr_calls (ReadLoop (\<lparr>tc_tool = ''Edit'', tc_hash = ''0''\<rparr> #
      concat (replicate 3 [\<lparr>tc_tool = ''Bash'', tc_hash = ''1''\<rparr>, \<lparr>tc_tool = ''Read'', tc_hash = ''2''\<rparr>])))"
proof -
  let ?u = "[\<lparr>tc_tool = ''Bash'', tc_hash = ''1''\<rparr>, \<lparr>tc_tool = ''Read'', tc_hash = ''2''\<rparr>]"
  let ?calls = "\<lparr>tc_tool = ''Edit'', tc_hash = ''0''\<rparr> # concat (replicate 3 ?u)"
  have "sinceProgress ?calls = ?calls" by code_simp
  moreover have "?calls = [\<lparr>tc_tool = ''Edit'', tc_hash = ''0''\<rparr>] @ concat (replicate 3 ?u)" by simp
  moreover have "\<not> allSame ?u" by code_simp
  ultimately have "loops_in (sinceProgress ?calls) ?u 3" by (auto simp only: loops_in_def list.size)
  from loop_found [OF this] show ?thesis by simp
qed

text \<open>
  Progress clears the reading: after an edit not made since the last progress there is no
  loop, whatever went before; and the same edit again is not progress, it stays in the window.
\<close>

theorem progress_clears:
  assumes "IsEditTool (tc_tool c)"
  shows "if c \<in> set (sinceProgress calls) then sinceProgress (calls @ [c]) = sinceProgress calls @ [c]
    else ReadLoop (calls @ [c]) = no_loop"
  using assms by (simp_all add: ReadLoop_single sinceProgress_snoc)

lemma progress_clears_witness:
  "ReadLoop (replicate 5 \<lparr>tc_tool = ''Bash'', tc_hash = ''1''\<rparr> @ [\<lparr>tc_tool = ''Edit'', tc_hash = ''0''\<rparr>]) = no_loop \<and>
   sinceProgress ([\<lparr>tc_tool = ''Edit'', tc_hash = ''0''\<rparr>] @ [\<lparr>tc_tool = ''Edit'', tc_hash = ''0''\<rparr>]) =
   [\<lparr>tc_tool = ''Edit'', tc_hash = ''0''\<rparr>, \<lparr>tc_tool = ''Edit'', tc_hash = ''0''\<rparr>]"
proof -
  let ?b = "\<lparr>tc_tool = ''Bash'', tc_hash = ''1''\<rparr>" and ?e = "\<lparr>tc_tool = ''Edit'', tc_hash = ''0''\<rparr>"
  have e: "IsEditTool (tc_tool ?e)" by code_simp
  have "?e \<notin> set (sinceProgress (replicate 5 ?b))" by code_simp
  moreover have "sinceProgress [?e] = [?e]" by code_simp
  ultimately show ?thesis
    using progress_clears [OF e, of "replicate 5 ?b"] progress_clears [OF e, of "[?e]"] by simp
qed

end
