(* ===== verification/Sha256.thy ===== *)
theory Sha256
  imports GoStrings "HOL-Library.Word"
begin

unbundle bit_operations_syntax

text \<open>
  SHA-256 (FIPS 180-4), which Go's \<open>crypto/sha256\<close> computes, and \<open>encoding/hex\<close>: the decision
  ids, the fingerprints, challenges and digests of the presence check are hex digits of it.
  A byte string is a \<open>string\<close>; nothing is proved of the function beyond its length, and the
  theorems that rest on it name a collision where one would break them.
\<close>

type_synonym u32 = "32 word"

definition K256 :: "u32 list" where
  "K256 =
    [0x428A2F98, 0x71374491, 0xB5C0FBCF, 0xE9B5DBA5,
     0x3956C25B, 0x59F111F1, 0x923F82A4, 0xAB1C5ED5,
     0xD807AA98, 0x12835B01, 0x243185BE, 0x550C7DC3,
     0x72BE5D74, 0x80DEB1FE, 0x9BDC06A7, 0xC19BF174,
     0xE49B69C1, 0xEFBE4786, 0x0FC19DC6, 0x240CA1CC,
     0x2DE92C6F, 0x4A7484AA, 0x5CB0A9DC, 0x76F988DA,
     0x983E5152, 0xA831C66D, 0xB00327C8, 0xBF597FC7,
     0xC6E00BF3, 0xD5A79147, 0x06CA6351, 0x14292967,
     0x27B70A85, 0x2E1B2138, 0x4D2C6DFC, 0x53380D13,
     0x650A7354, 0x766A0ABB, 0x81C2C92E, 0x92722C85,
     0xA2BFE8A1, 0xA81A664B, 0xC24B8B70, 0xC76C51A3,
     0xD192E819, 0xD6990624, 0xF40E3585, 0x106AA070,
     0x19A4C116, 0x1E376C08, 0x2748774C, 0x34B0BCB5,
     0x391C0CB3, 0x4ED8AA4A, 0x5B9CCA4F, 0x682E6FF3,
     0x748F82EE, 0x78A5636F, 0x84C87814, 0x8CC70208,
     0x90BEFFFA, 0xA4506CEB, 0xBEF9A3F7, 0xC67178F2]"

definition H256 :: "u32 list" where
  "H256 = [0x6A09E667, 0xBB67AE85, 0x3C6EF372, 0xA54FF53A,
     0x510E527F, 0x9B05688C, 0x1F83D9AB, 0x5BE0CD19]"

definition rotr :: "nat \<Rightarrow> u32 \<Rightarrow> u32" where
  "rotr n x = (drop_bit n x) OR (push_bit (32 - n) x)"

definition ch :: "u32 \<Rightarrow> u32 \<Rightarrow> u32 \<Rightarrow> u32" where
  "ch x y z = (x AND y) XOR ((NOT x) AND z)"

definition maj :: "u32 \<Rightarrow> u32 \<Rightarrow> u32 \<Rightarrow> u32" where
  "maj x y z = (x AND y) XOR (x AND z) XOR (y AND z)"

definition Sig0 :: "u32 \<Rightarrow> u32" where
  "Sig0 x = rotr 2 x XOR rotr 13 x XOR rotr 22 x"

definition Sig1 :: "u32 \<Rightarrow> u32" where
  "Sig1 x = rotr 6 x XOR rotr 11 x XOR rotr 25 x"

definition sig0 :: "u32 \<Rightarrow> u32" where
  "sig0 x = rotr 7 x XOR rotr 18 x XOR drop_bit 3 x"

definition sig1 :: "u32 \<Rightarrow> u32" where
  "sig1 x = rotr 17 x XOR rotr 19 x XOR drop_bit 10 x"

text \<open>The message with its padding: one bit, zeros, and the length in bits as 64 bits.\<close>

fun be_bytes :: "nat \<Rightarrow> int \<Rightarrow> string" where
  "be_bytes 0 n = []"
| "be_bytes (Suc k) n = be_bytes k (n div 256) @ [char_of (nat (n mod 256))]"

definition pad_message :: "string \<Rightarrow> string" where
  "pad_message m =
     (let l = length m
      in m @ [char_of (128::nat)] @ replicate ((119 - l mod 64) mod 64) (char_of (0::nat)) @ be_bytes 8 (8 * int l))"

fun be_words :: "string \<Rightarrow> u32 list" where
  "be_words (a # b # c # d # s) =
     (of_nat (code a) * 0x1000000 + of_nat (code b) * 0x10000 + of_nat (code c) * 0x100 + of_nat (code d)) # be_words s"
| "be_words _ = []"

text \<open>The message schedule, newest word first.\<close>

fun schedule :: "nat \<Rightarrow> u32 list \<Rightarrow> u32 list" where
  "schedule 0 w = w"
| "schedule (Suc n) w = schedule n ((sig1 (w ! 1) + w ! 6 + sig0 (w ! 14) + w ! 15) # w)"

fun compress :: "u32 list \<Rightarrow> u32 \<times> u32 \<Rightarrow> u32 list" where
  "compress [a, b, c, d, e, f, g, h] (k, w) =
     (let t1 = h + Sig1 e + ch e f g + k + w; t2 = Sig0 a + maj a b c
      in [t1 + t2, a, b, c, d + t1, e, f, g])"
| "compress s kw = s"

definition process_block :: "u32 list \<Rightarrow> string \<Rightarrow> u32 list" where
  "process_block hs block =
     (let ws = rev (schedule 48 (rev (be_words block)))
      in map2 (+) hs (foldl compress hs (zip K256 ws)))"

function blocks :: "string \<Rightarrow> string list" where
  "blocks s = (if length s < 64 then [] else take 64 s # blocks (drop 64 s))"
  by pat_completeness auto
termination by (relation "measure length") auto

declare blocks.simps [simp del]

definition word_bytes :: "u32 \<Rightarrow> string" where
  "word_bytes w = be_bytes 4 (uint w)"

definition sha256 :: "string \<Rightarrow> string" where
  "sha256 m = concat (map word_bytes (foldl process_block H256 (blocks (pad_message m))))"

definition hex_digit :: "nat \<Rightarrow> char" where
  "hex_digit n = (if n < 10 then char_of (48 + n) else char_of (87 + n))"

definition hex_encode :: "string \<Rightarrow> string" where
  "hex_encode s = concat (map (\<lambda>c. [hex_digit (code c div 16), hex_digit (code c mod 16)]) s)"

definition is_hex_lower :: "char \<Rightarrow> bool" where
  "is_hex_lower c \<longleftrightarrow> is_digit c \<or> (97 \<le> code c \<and> code c \<le> 102)"

subsection \<open>Lengths and alphabets\<close>

lemma length_compress: "length (compress s kw) = length s"
  by (cases "(s, kw)" rule: compress.cases) (auto simp: Let_def)

lemma length_foldl_compress: "length (foldl compress s kws) = length s"
  by (induction kws arbitrary: s) (auto simp: length_compress)

lemma length_process_block: "length (process_block hs b) = length hs"
  by (simp add: process_block_def Let_def length_foldl_compress)

lemma length_foldl_blocks: "length (foldl process_block hs bs) = length hs"
  by (induction bs arbitrary: hs) (auto simp: length_process_block)

lemma length_be_bytes [simp]: "length (be_bytes k n) = k"
  by (induction k n rule: be_bytes.induct) auto

lemma length_concat_const: "\<forall>x\<in>set xs. length (f x) = k \<Longrightarrow> length (concat (map f xs)) = k * length xs"
  by (induction xs) auto

lemma length_sha256 [simp]: "length (sha256 m) = 32"
proof -
  have "length (sha256 m) = 4 * length (foldl process_block H256 (blocks (pad_message m)))"
    unfolding sha256_def by (rule length_concat_const) (simp add: word_bytes_def)
  then show ?thesis by (simp add: length_foldl_blocks H256_def)
qed

lemma length_hex_encode [simp]: "length (hex_encode s) = 2 * length s"
  unfolding hex_encode_def by (rule length_concat_const) simp

lemma hex_digit_lower: "n < 16 \<Longrightarrow> is_hex_lower (hex_digit n)"
  by (auto simp: hex_digit_def is_hex_lower_def is_digit_def)

lemma code_div16: "code c div 16 < 16" "code c mod 16 < 16"
proof -
  have "code c < 16 * 16" by simp
  then show "code c div 16 < 16" by (rule less_mult_imp_div_less)
qed simp

lemma hex_encode_lower: "\<forall>c\<in>set (hex_encode s). is_hex_lower c"
  using code_div16 hex_digit_lower by (auto simp: hex_encode_def)

lemma hex_digit_inj: "m < 16 \<Longrightarrow> n < 16 \<Longrightarrow> hex_digit m = hex_digit n \<longleftrightarrow> m = n"
proof -
  have c: "code (hex_digit k) = (if k < 10 then 48 + k else 87 + k)" if "k < 16" for k
    using that by (simp add: hex_digit_def)
  assume mn: "m < 16" "n < 16"
  have "m = n" if "hex_digit m = hex_digit n"
  proof -
    have "(if m < 10 then 48 + m else 87 + m) = (if n < 10 then 48 + n else 87 + n)"
      using that c [OF mn(1)] c [OF mn(2)] by simp
    then show ?thesis using mn by (simp split: if_splits)
  qed
  then show ?thesis by blast
qed

lemma hex_encode_inj: "hex_encode s = hex_encode t \<Longrightarrow> s = t"
proof (induction s arbitrary: t)
  case Nil
  then show ?case by (cases t) (auto simp: hex_encode_def)
next
  case (Cons c s)
  then obtain d u where t: "t = d # u" by (cases t) (auto simp: hex_encode_def)
  with Cons.prems have "code c div 16 = code d div 16" "code c mod 16 = code d mod 16"
    and tl: "hex_encode s = hex_encode u"
    using code_div16 hex_digit_inj by (auto simp: hex_encode_def)
  then have "code c = (code d :: nat)" by (metis div_mult_mod_eq)
  then have "c = d" by simp
  with Cons.IH [OF tl] t show ?case by simp
qed

end
