(* ===== verification/Rules.thy ===== *)
theory Rules
  imports Policy GoFloat FolderHours Loops Sha256
begin

text \<open>
  Boundary rules (\<open>internal/contexts/boundaries/boundaries.go\<close>, with the thresholds of
  \<open>loop.go\<close> and \<open>subagents.go\<close>): their data, and how they are read from the configuration.
  Go's string constants are constructors with a \<open>_text\<close> function; the \<open>when\<close> map of a rule is
  the list of its entries in the order Go iterates over the map, which is any order. The
  lemmas say what every parsed rule satisfies, that the order of that map does not matter
  to an accepted rule, and what prints back as it was written.
\<close>

subsection \<open>Actions, figures, comparators, windows\<close>

datatype action = ActionContinue | ActionSubagentModel | ActionSpend | ActionModelRoute | ActionShare

definition actions :: "action list" where
  "actions = [ActionContinue, ActionSubagentModel, ActionSpend, ActionModelRoute, ActionShare]"

fun action_text :: "action \<Rightarrow> string" where
  "action_text ActionContinue = ''continue''"
| "action_text ActionSubagentModel = ''subagent_model''"
| "action_text ActionSpend = ''spend''"
| "action_text ActionModelRoute = ''model_route''"
| "action_text ActionShare = ''share''"

datatype field = FieldSessionCost | FieldPlanLeft | FieldPlanEarly | FieldBudgetUsed | FieldModelTier
  | FieldDestination | FieldLoopCalls | FieldSessionSubagents | FieldPromptSubagents | FieldWorkflow
  | FieldAgent | FieldFolder | FieldHours

fun field_text :: "field \<Rightarrow> string" where
  "field_text FieldSessionCost = ''session_cost_usd''"
| "field_text FieldPlanLeft = ''plan_left_pct''"
| "field_text FieldPlanEarly = ''plan_runs_out_early_min''"
| "field_text FieldBudgetUsed = ''budget_used_pct''"
| "field_text FieldModelTier = ''model_tier''"
| "field_text FieldDestination = ''destination''"
| "field_text FieldLoopCalls = ''loop_calls''"
| "field_text FieldSessionSubagents = ''session_subagents''"
| "field_text FieldPromptSubagents = ''prompt_subagents''"
| "field_text FieldWorkflow = ''workflow_id''"
| "field_text FieldAgent = ''agent_id''"
| "field_text FieldFolder = ''folder''"
| "field_text FieldHours = ''hours''"

definition fieldOrder :: "field list" where
  "fieldOrder = [FieldSessionCost, FieldPlanLeft, FieldPlanEarly, FieldBudgetUsed, FieldModelTier,
     FieldDestination, FieldLoopCalls, FieldSessionSubagents, FieldPromptSubagents, FieldWorkflow,
     FieldAgent, FieldFolder, FieldHours]"

fun fieldsFor :: "action \<Rightarrow> field list" where
  "fieldsFor ActionContinue = [FieldSessionCost, FieldPlanLeft, FieldPlanEarly, FieldLoopCalls,
     FieldWorkflow, FieldAgent, FieldFolder, FieldHours]"
| "fieldsFor ActionSubagentModel = [FieldSessionCost, FieldPlanLeft, FieldPlanEarly, FieldModelTier,
     FieldSessionSubagents, FieldPromptSubagents, FieldWorkflow, FieldAgent, FieldFolder, FieldHours]"
| "fieldsFor ActionSpend = [FieldSessionCost, FieldBudgetUsed, FieldWorkflow, FieldAgent, FieldFolder, FieldHours]"
| "fieldsFor ActionModelRoute = [FieldPlanLeft, FieldPlanEarly, FieldModelTier, FieldWorkflow, FieldAgent, FieldHours]"
| "fieldsFor ActionShare = [FieldDestination, FieldHours]"

abbreviation maxEarlyMin :: int where "maxEarlyMin \<equiv> 10080"
abbreviation maxSubagents :: int where "maxSubagents \<equiv> 1000"

definition windowKey :: string where "windowKey = ''window''"
definition budgetKey :: string where "budgetKey = ''budget''"
definition DestinationTeam :: string where "DestinationTeam = ''team''"
definition DestinationOTel :: string where "DestinationOTel = ''otel''"

text \<open>\<open>OpNone\<close> is Go's zero value, the comparator of a condition that takes none.\<close>

datatype op = OpNone | OpLT | OpLE | OpGT | OpGE | OpEQ

fun op_text :: "op \<Rightarrow> string" where
  "op_text OpNone = ''''"
| "op_text OpLT = ''<''"
| "op_text OpLE = ''<=''"
| "op_text OpGT = ''>''"
| "op_text OpGE = ''>=''"
| "op_text OpEQ = ''==''"

datatype window = WindowAny | Window5h | WindowWeek

fun window_text :: "window \<Rightarrow> string" where
  "window_text WindowAny = ''''"
| "window_text Window5h = ''5h''"
| "window_text WindowWeek = ''week''"

subsection \<open>Requirements and stages\<close>

datatype require_kind = RequireAllow | RequireAsk | RequireApprover | RequireDeny

fun kind_text :: "require_kind \<Rightarrow> string" where
  "kind_text RequireAllow = ''allow''"
| "kind_text RequireAsk = ''ask''"
| "kind_text RequireApprover = ''approver''"
| "kind_text RequireDeny = ''deny''"

record require =
  q_kind :: require_kind
  q_role :: string

definition Require_String :: "require \<Rightarrow> string" where
  "Require_String r = (if q_kind r = RequireApprover then ''approver:'' @ q_role r else kind_text (q_kind r))"

definition Require_Authority :: "require \<Rightarrow> authority" where
  "Require_Authority r =
     (case q_kind r of
        RequireAllow \<Rightarrow> Automatic
      | RequireAsk \<Rightarrow> RequireApproval
      | RequireApprover \<Rightarrow> RequireApproval
      | RequireDeny \<Rightarrow> ObserveOnly)"

definition strictness :: "require \<Rightarrow> nat" where
  "strictness r =
     (case q_kind r of RequireAllow \<Rightarrow> 0 | RequireAsk \<Rightarrow> 1 | RequireApprover \<Rightarrow> 2 | RequireDeny \<Rightarrow> 3)"

definition LocalAsk :: "require \<Rightarrow> bool" where
  "LocalAsk r \<longleftrightarrow> q_kind r = RequireAsk \<or> q_kind r = RequireApprover"

datatype stage = StageShadow | StageEnforce
datatype source = SourceLocal | SourceOrg

definition OrgPrefix :: string where "OrgPrefix = ''org:''"

subsection \<open>Conditions and rules\<close>

record condition =
  c_field :: field
  c_op :: op
  c_number :: f64
  c_text :: string
  c_window :: window
  c_budget :: string
  c_folders :: "string list"
  c_hours :: "hours_window list"

text \<open>Go's zero values for what a condition does not set.\<close>

definition blank :: "field \<Rightarrow> op \<Rightarrow> condition" where
  "blank f cmp = \<lparr>c_field = f, c_op = cmp, c_number = Fin 0, c_text = [], c_window = WindowAny,
     c_budget = [], c_folders = [], c_hours = []\<rparr>"

definition Condition_String :: "condition \<Rightarrow> string" where
  "Condition_String c =
     (case c_field c of
        FieldFolder \<Rightarrow> ''folder '' @ c_text c
      | FieldHours \<Rightarrow> ''hours '' @ hoursString (c_hours c)
      | _ \<Rightarrow>
        if c_field c \<in> {FieldModelTier, FieldDestination, FieldWorkflow, FieldAgent}
        then field_text (c_field c) @ '' '' @ op_text (c_op c) @ '' '' @ c_text c
        else field_text (c_field c) @ '' '' @ op_text (c_op c) @ '' '' @ fmt_g (c_number c) @
          (if c_field c \<in> {FieldPlanLeft, FieldPlanEarly} \<and> c_window c \<noteq> WindowAny
           then '' ('' @ window_text (c_window c) @ '')''
           else if c_field c = FieldBudgetUsed \<and> c_budget c \<noteq> []
           then '' (budget '' @ c_budget c @ '')'' else ''''))"

record rule =
  r_name :: string
  r_action :: action
  r_when :: "condition list"
  r_require :: require
  r_stage :: stage
  r_source :: source

definition Enforced :: "rule \<Rightarrow> bool" where
  "Enforced r \<longleftrightarrow> r_stage r = StageEnforce"

definition TeamRouted :: "rule \<Rightarrow> bool" where
  "TeamRouted r \<longleftrightarrow> r_source r = SourceOrg \<and> q_kind (r_require r) = RequireApprover"

definition FromOrg :: "rule list \<Rightarrow> rule list" where
  "FromOrg rules = map (\<lambda>r. r\<lparr>r_name := OrgPrefix @ r_name r, r_source := SourceOrg\<rparr>) rules"

definition Promote :: "rule list \<Rightarrow> string \<Rightarrow> rule list" where
  "Promote rules name = map (\<lambda>r. if r_name r = name then r\<lparr>r_stage := StageEnforce\<rparr> else r) rules"

record rule_spec =
  s_name :: string
  s_action :: string
  s_when :: "(string \<times> string) list"
  s_require :: string
  s_stage :: string

subsection \<open>Names and decision ids\<close>

definition name_start :: "char \<Rightarrow> bool" where
  "name_start c \<longleftrightarrow> is_lower c \<or> is_digit c"

definition name_char :: "char \<Rightarrow> bool" where
  "name_char c \<longleftrightarrow> name_start c \<or> c = CHR ''_'' \<or> c = CHR ''-''"

text \<open>\<open>namePattern\<close>: a first character and at most 63 more.\<close>

definition ValidName :: "string \<Rightarrow> bool" where
  "ValidName s \<longleftrightarrow> s \<noteq> [] \<and> name_start (hd s) \<and> list_all name_char (tl s) \<and> length s \<le> 64"

definition DecisionID :: "string \<Rightarrow> string \<Rightarrow> string" where
  "DecisionID rule session =
     ''bnd-'' @ hex_encode (take 6 (sha256 (rule @ [CHR 0x00] @ session)))"

definition ValidDecisionID :: "string \<Rightarrow> bool" where
  "ValidDecisionID i \<longleftrightarrow>
     (case cut_prefix i ''bnd-'' of None \<Rightarrow> False | Some h \<Rightarrow> length h = 12 \<and> list_all is_hex_lower h)"

subsection \<open>Parsing a condition\<close>

datatype cond_error =
    NeedsComparator string | NotANumber string | Negative f64 | OutOfRange f64
  | NotMinutes string | MinutesRange f64 | LoopComparator | NotWhole string | LoopRange int
  | SubagentRange int | BadTier string | OnlyEquals field | BadDestination string
  | NamesNothing string | BadPatternText string | FolderHoursError fh_error

text \<open>The tiers a condition compares, and the names that map onto them.\<close>

definition TierOf :: "string \<Rightarrow> string" where
  "TierOf name =
     (let n = to_lower (trim_space name)
      in if contains n ''opus'' \<or> n = ''deep'' then ''opus''
         else if contains n ''sonnet'' \<or> n = ''balanced'' \<or> n = ''default'' then ''sonnet''
         else if contains n ''haiku'' \<or> n = ''lookup'' then ''haiku''
         else [])"

definition tierRank :: "string \<Rightarrow> int option" where
  "tierRank t = (if t = ''haiku'' then Some 1 else if t = ''sonnet'' then Some 2 else if t = ''opus'' then Some 3 else None)"

text \<open>Reading a comparator: the first of these that starts the value.\<close>

definition splitOp :: "string \<Rightarrow> op \<times> string \<times> bool" where
  "splitOp raw =
     (let v = trim_space raw
      in case find (\<lambda>cmp. has_prefix v (op_text cmp)) [OpLE, OpGE, OpEQ, OpLT, OpGT] of
           Some cmp \<Rightarrow> (cmp, trim_space (trim_prefix v (op_text cmp)), True)
         | None \<Rightarrow> (OpNone, v, False))"

definition parseLoopCalls :: "op \<Rightarrow> string \<Rightarrow> cond_error + f64" where
  "parseLoopCalls cmp value =
     (if cmp \<noteq> OpGE \<and> cmp \<noteq> OpGT then Inl LoopComparator
      else case Atoi value of
             None \<Rightarrow> Inl (NotWhole value)
           | Some n \<Rightarrow> if n < 2 \<or> int LoopWindow < n then Inl (LoopRange n) else Inr (f_int n))"

definition parseSubagents :: "string \<Rightarrow> cond_error + f64" where
  "parseSubagents value =
     (case Atoi value of
        None \<Rightarrow> Inl (NotWhole value)
      | Some n \<Rightarrow> if n < 0 \<or> maxSubagents < n then Inl (SubagentRange n) else Inr (f_int n))"

definition finite_float :: "string \<Rightarrow> f64 option" where
  "finite_float value =
     (case ParseFloat value of Some (Fin x) \<Rightarrow> Some (Fin x) | _ \<Rightarrow> None)"

definition parse_percent :: "field \<Rightarrow> string \<Rightarrow> cond_error + f64" where
  "parse_percent f value =
     (case finite_float value of
        None \<Rightarrow> Inl (NotANumber value)
      | Some n \<Rightarrow> if f_lt n (Fin 0) then Inl (Negative n)
                  else if f \<noteq> FieldSessionCost \<and> f_lt (Fin 100) n then Inl (OutOfRange n)
                  else Inr n)"

definition parse_early :: "string \<Rightarrow> cond_error + f64" where
  "parse_early value =
     (case finite_float value of
        None \<Rightarrow> Inl (NotMinutes value)
      | Some n \<Rightarrow> if f_lt n (Fin 0) \<or> f_lt (f_int maxEarlyMin) n then Inl (MinutesRange n) else Inr n)"

definition parse_name_pattern :: "field \<Rightarrow> op \<Rightarrow> string \<Rightarrow> string \<Rightarrow> cond_error + string" where
  "parse_name_pattern f cmp raw value =
     (if cmp \<noteq> OpEQ then Inl (OnlyEquals f)
      else if value = [] then Inl (NamesNothing raw)
      else if \<not> valid_pattern value then Inl (BadPatternText value)
      else Inr value)"

definition parse_destination :: "op \<Rightarrow> string \<Rightarrow> cond_error + string" where
  "parse_destination cmp value =
     (if cmp \<noteq> OpEQ then Inl (OnlyEquals FieldDestination)
      else let d = to_lower value
           in if d \<noteq> DestinationTeam \<and> d \<noteq> DestinationOTel then Inl (BadDestination value) else Inr d)"

definition lift_fh :: "fh_error + 'a \<Rightarrow> cond_error + 'a" where
  "lift_fh r = (case r of Inl e \<Rightarrow> Inl (FolderHoursError e) | Inr x \<Rightarrow> Inr x)"

definition parseCondition :: "string option \<Rightarrow> field \<Rightarrow> string \<Rightarrow> cond_error + condition" where
  "parseCondition home f raw =
     (let (cmp, value, ok) = splitOp raw;
          number = (\<lambda>r. try_res r (\<lambda>n. Inr ((blank f cmp)\<lparr>c_number := n\<rparr>)));
          word = (\<lambda>r. try_res r (\<lambda>t. Inr ((blank f cmp)\<lparr>c_text := t\<rparr>)))
      in if f = FieldFolder then
           try_res (lift_fh (parseFolders home (cmp \<noteq> OpNone) value)) (\<lambda>folders.
             Inr ((blank f OpNone)\<lparr>c_text := trim_space raw, c_folders := folders\<rparr>))
         else if f = FieldHours then
           try_res (lift_fh (parseHours (cmp \<noteq> OpNone) value)) (\<lambda>hours.
             Inr ((blank f OpNone)\<lparr>c_text := trim_space raw, c_hours := hours\<rparr>))
         else if \<not> ok then Inl (NeedsComparator raw)
         else if f \<in> {FieldSessionCost, FieldPlanLeft, FieldBudgetUsed} then number (parse_percent f value)
         else if f = FieldPlanEarly then number (parse_early value)
         else if f = FieldLoopCalls then number (parseLoopCalls cmp value)
         else if f \<in> {FieldSessionSubagents, FieldPromptSubagents} then number (parseSubagents value)
         else if f = FieldModelTier then
           word (let tier = TierOf value in if tier = [] then Inl (BadTier value) else Inr tier)
         else if f = FieldDestination then word (parse_destination cmp value)
         else word (parse_name_pattern f cmp raw value))"

subsection \<open>Parsing a rule\<close>

datatype rule_error =
    NameRequired | BadName string | BadAction string | RequireNoRole string | RequireBadRole string
  | BadRequire string | BadStage string | UnknownCondition string | ConditionNotFor string action
  | WindowAlone | BudgetAlone | BadWindow string | BudgetNamesNothing | ConditionError field cond_error

definition ParseRequire :: "string \<Rightarrow> rule_error + require" where
  "ParseRequire s =
     (let v = to_lower (trim_space s)
      in case find (\<lambda>k. v = kind_text k) [RequireAllow, RequireAsk, RequireDeny] of
           Some k \<Rightarrow> Inr \<lparr>q_kind = k, q_role = []\<rparr>
         | None \<Rightarrow>
             (case cut_prefix v ''approver:'' of
                Some role \<Rightarrow>
                  let role = trim_space role
                  in if role = [] then Inl (RequireNoRole s)
                     else if \<not> ValidName role then Inl (RequireBadRole s)
                     else Inr \<lparr>q_kind = RequireApprover, q_role = role\<rparr>
              | None \<Rightarrow> Inl (BadRequire s)))"

definition parseStage :: "string \<Rightarrow> rule_error + stage" where
  "parseStage s =
     (let v = to_lower (trim_space s)
      in if v = [] \<or> v = ''shadow'' then Inr StageShadow
         else if v = ''enforce'' then Inr StageEnforce
         else Inl (BadStage s))"

definition parseWindow :: "string \<Rightarrow> rule_error + window" where
  "parseWindow s =
     (let v = to_lower (trim_space s)
      in if v \<in> {[], ''any''} then Inr WindowAny
         else if v \<in> {''5h'', ''five_hour'', ''session''} then Inr Window5h
         else if v \<in> {''week'', ''weekly'', ''seven_day'', ''7d''} then Inr WindowWeek
         else Inl (BadWindow s))"

text \<open>The first key of the map, in iteration order, that is no condition of the action's.\<close>

fun check_keys :: "action \<Rightarrow> (string \<times> string) list \<Rightarrow> rule_error + unit" where
  "check_keys a [] = Inr ()"
| "check_keys a ((k, v) # when) =
     (if k = windowKey \<or> k = budgetKey then check_keys a when
      else if k \<notin> set (map field_text fieldOrder) then Inl (UnknownCondition k)
      else if k \<notin> set (map field_text (fieldsFor a)) then Inl (ConditionNotFor k a)
      else check_keys a when)"

definition qualify :: "string \<Rightarrow> string option \<Rightarrow> condition \<Rightarrow> rule_error + condition" where
  "qualify window budget c =
     (if c_field c \<in> {FieldPlanLeft, FieldPlanEarly} then
        try_res (parseWindow window) (\<lambda>w. Inr (c\<lparr>c_window := w\<rparr>))
      else if c_field c = FieldBudgetUsed then
        let b = trim_space (case budget of Some b \<Rightarrow> b | None \<Rightarrow> [])
        in if budget \<noteq> None \<and> b = [] then Inl BudgetNamesNothing else Inr (c\<lparr>c_budget := b\<rparr>)
      else Inr c)"

definition lift_cond :: "field \<Rightarrow> cond_error + 'a \<Rightarrow> rule_error + 'a" where
  "lift_cond f r = (case r of Inl e \<Rightarrow> Inl (ConditionError f e) | Inr x \<Rightarrow> Inr x)"

fun parse_fields :: "string option \<Rightarrow> (string \<Rightarrow> string option) \<Rightarrow> field list \<Rightarrow> rule_error + condition list" where
  "parse_fields home when [] = Inr []"
| "parse_fields home when (f # fs) =
     (case when (field_text f) of
        None \<Rightarrow> parse_fields home when fs
      | Some raw \<Rightarrow>
          try_res (lift_cond f (parseCondition home f raw)) (\<lambda>c.
          try_res (qualify (case when windowKey of Some w \<Rightarrow> w | None \<Rightarrow> []) (when budgetKey) c) (\<lambda>c.
          try_res (parse_fields home when fs) (\<lambda>cs. Inr (c # cs)))))"

definition parseWhen :: "string option \<Rightarrow> action \<Rightarrow> (string \<times> string) list \<Rightarrow> rule_error + condition list" where
  "parseWhen home a when =
     try_res (check_keys a when) (\<lambda>_.
       let m = map_of when; has = (\<lambda>f. m (field_text f) \<noteq> None)
       in if m windowKey \<noteq> None \<and> \<not> has FieldPlanLeft \<and> \<not> has FieldPlanEarly then Inl WindowAlone
          else if m budgetKey \<noteq> None \<and> \<not> has FieldBudgetUsed then Inl BudgetAlone
          else parse_fields home m fieldOrder)"

definition parseRule :: "string option \<Rightarrow> rule_spec \<Rightarrow> rule_error + rule" where
  "parseRule home s =
     (let name = trim_space (s_name s)
      in if name = [] then Inl NameRequired
         else if \<not> ValidName name then Inl (BadName name)
         else case find (\<lambda>a. to_lower (trim_space (s_action s)) = action_text a) actions of
                None \<Rightarrow> Inl (BadAction (s_action s))
              | Some a \<Rightarrow>
                  try_res (ParseRequire (s_require s)) (\<lambda>req.
                  try_res (parseStage (s_stage s)) (\<lambda>stage.
                  try_res (parseWhen home a (s_when s)) (\<lambda>when.
                    Inr \<lparr>r_name = name, r_action = a, r_when = when, r_require = req,
                         r_stage = stage, r_source = SourceLocal\<rparr>))))"

text \<open>An error names the rule's place in the list, its name as written, and what is wrong.\<close>

datatype config_error = RuleError nat string rule_error | DefinedTwice nat string

fun parse_specs :: "string option \<Rightarrow> nat \<Rightarrow> string list \<Rightarrow> rule_spec list \<Rightarrow> config_error + rule list" where
  "parse_specs home i seen [] = Inr []"
| "parse_specs home i seen (s # ss) =
     (case parseRule home s of
        Inl e \<Rightarrow> Inl (RuleError i (s_name s) e)
      | Inr r \<Rightarrow>
          if r_name r \<in> set seen then Inl (DefinedTwice i (r_name r))
          else try_res (parse_specs home (Suc i) (r_name r # seen) ss) (\<lambda>rs. Inr (r # rs)))"

definition Parse :: "string option \<Rightarrow> rule_spec list \<Rightarrow> config_error + rule list" where
  "Parse home specs = parse_specs home 0 [] specs"


subsection \<open>The ladder\<close>

lemma strictness_ladder: "strictness a \<le> strictness b \<Longrightarrow> Require_Authority b \<le> Require_Authority a"
  by (cases "q_kind a"; cases "q_kind b")
    (simp_all add: strictness_def Require_Authority_def less_eq_authority_def)

lemma strictness_le3: "strictness r \<le> 3"
  by (cases "q_kind r") (simp_all add: strictness_def)

lemma strictness_kind:
  "strictness r = 0 \<longleftrightarrow> q_kind r = RequireAllow"
  "strictness r = Suc 0 \<longleftrightarrow> q_kind r = RequireAsk"
  "strictness r = 2 \<longleftrightarrow> q_kind r = RequireApprover"
  "strictness r = 3 \<longleftrightarrow> q_kind r = RequireDeny"
  by (cases "q_kind r"; simp add: strictness_def)+

subsection \<open>What an accepted rule satisfies\<close>

definition in_range :: "rat \<Rightarrow> f64 \<Rightarrow> bool" where
  "in_range hi v \<longleftrightarrow> (case v of Fin x \<Rightarrow> 0 \<le> x \<and> x \<le> hi | _ \<Rightarrow> False)"

definition whole_in :: "int \<Rightarrow> int \<Rightarrow> f64 \<Rightarrow> bool" where
  "whole_in lo hi v \<longleftrightarrow> (\<exists>n. v = f_int n \<and> lo \<le> n \<and> n \<le> hi)"

definition value_ok :: "condition \<Rightarrow> bool" where
  "value_ok c \<longleftrightarrow>
     (case c_field c of
        FieldSessionCost \<Rightarrow> (\<exists>x\<ge>0. c_number c = Fin x)
      | FieldPlanLeft \<Rightarrow> in_range 100 (c_number c)
      | FieldPlanEarly \<Rightarrow> in_range 10080 (c_number c)
      | FieldBudgetUsed \<Rightarrow> in_range 100 (c_number c)
      | FieldModelTier \<Rightarrow> tierRank (c_text c) \<noteq> None
      | FieldDestination \<Rightarrow> c_text c \<in> {DestinationTeam, DestinationOTel} \<and> c_op c = OpEQ
      | FieldLoopCalls \<Rightarrow> whole_in 2 64 (c_number c) \<and> c_op c \<in> {OpGE, OpGT}
      | FieldSessionSubagents \<Rightarrow> whole_in 0 1000 (c_number c)
      | FieldPromptSubagents \<Rightarrow> whole_in 0 1000 (c_number c)
      | FieldWorkflow \<Rightarrow> c_text c \<noteq> [] \<and> valid_pattern (c_text c) \<and> c_op c = OpEQ
      | FieldAgent \<Rightarrow> c_text c \<noteq> [] \<and> valid_pattern (c_text c) \<and> c_op c = OpEQ
      | FieldFolder \<Rightarrow> c_folders c \<noteq> []
      | FieldHours \<Rightarrow> c_hours c \<noteq> [] \<and> (\<forall>w\<in>set (c_hours c). valid_window w))"

definition cond_ok :: "condition \<Rightarrow> bool" where
  "cond_ok c \<longleftrightarrow> value_ok c \<and>
     (c_op c = OpNone \<longleftrightarrow> c_field c \<in> {FieldFolder, FieldHours}) \<and>
     (c_window c \<noteq> WindowAny \<longrightarrow> c_field c \<in> {FieldPlanLeft, FieldPlanEarly}) \<and>
     (c_budget c \<noteq> [] \<longrightarrow> c_field c = FieldBudgetUsed)"

lemma blank_simps [simp]:
  "c_field (blank f p) = f" "c_op (blank f p) = p" "c_number (blank f p) = Fin 0" "c_text (blank f p) = []"
  "c_window (blank f p) = WindowAny" "c_budget (blank f p) = []" "c_folders (blank f p) = []" "c_hours (blank f p) = []"
  by (simp_all add: blank_def)

lemma finite_float_Fin: "finite_float v = Some n \<Longrightarrow> \<exists>x. n = Fin x"
  by (auto simp: finite_float_def split: option.splits f64.splits)

lemma parse_percent_range: "parse_percent f v = Inr n \<Longrightarrow> (\<exists>x\<ge>0. n = Fin x) \<and> (f \<noteq> FieldSessionCost \<longrightarrow> in_range 100 n)"
  by (auto simp: parse_percent_def in_range_def not_less split: option.splits if_splits dest!: finite_float_Fin)

lemma parse_early_range: "parse_early v = Inr n \<Longrightarrow> in_range 10080 n"
  by (auto simp: parse_early_def in_range_def f_int_def not_less split: option.splits if_splits dest!: finite_float_Fin)

lemma parseLoopCalls_range: "parseLoopCalls p v = Inr n \<Longrightarrow> whole_in 2 64 n \<and> p \<in> {OpGE, OpGT}"
  by (auto simp: parseLoopCalls_def whole_in_def split: option.splits if_splits)

lemma parseSubagents_range: "parseSubagents v = Inr n \<Longrightarrow> whole_in 0 1000 n"
  by (auto simp: parseSubagents_def whole_in_def split: option.splits if_splits)

lemma TierOf_range: "TierOf s = [] \<or> tierRank (TierOf s) \<noteq> None"
  by (simp add: TierOf_def tierRank_def Let_def)

lemma splitOp_op: "splitOp raw = (p, v, ok) \<Longrightarrow> ok \<longleftrightarrow> p \<noteq> OpNone"
  by (auto simp: splitOp_def Let_def simp del: find.simps split: option.splits dest!: find_eq_Some)

lemma parse_hours_ok: "lift_fh (parseHours b v) = Inr hs \<Longrightarrow> hs \<noteq> [] \<and> (\<forall>w\<in>set hs. valid_window w)"
  using parseHours_valid [of b v] by (auto simp: lift_fh_def split: sum.splits)

lemma parse_folders_ok: "lift_fh (parseFolders home b v) = Inr fs \<Longrightarrow> fs \<noteq> []"
  by (auto simp: lift_fh_def parseFolders_def traverse_Inr_iff split: sum.splits if_splits)

lemma parseCondition_ok:
  assumes "parseCondition home f raw = Inr c"
  shows "c_field c = f \<and> c_window c = WindowAny \<and> c_budget c = [] \<and> cond_ok c"
proof -
  obtain p v ok where s: "splitOp raw = (p, v, ok)" by (metis prod_cases3)
  note op = splitOp_op [OF s]
  show ?thesis
  proof (cases f)
    case FieldFolder
    with assms s obtain fs where "lift_fh (parseFolders home (p \<noteq> OpNone) v) = Inr fs"
      "c = (blank f OpNone)\<lparr>c_text := trim_space raw, c_folders := fs\<rparr>"
      by (auto simp: parseCondition_def try_res_Inr_iff)
    with FieldFolder show ?thesis using parse_folders_ok by (auto simp: cond_ok_def value_ok_def)
  next
    case FieldHours
    with assms s obtain hs where "lift_fh (parseHours (p \<noteq> OpNone) v) = Inr hs"
      "c = (blank f OpNone)\<lparr>c_text := trim_space raw, c_hours := hs\<rparr>"
      by (auto simp: parseCondition_def try_res_Inr_iff)
    with FieldHours show ?thesis using parse_hours_ok by (auto simp: cond_ok_def value_ok_def)
  qed (use assms s op TierOf_range [of v] in \<open>auto simp: parseCondition_def try_res_Inr_iff cond_ok_def value_ok_def Let_def
        parse_destination_def parse_name_pattern_def split: if_splits
        dest!: parse_percent_range parse_early_range parseLoopCalls_range parseSubagents_range\<close>)
qed

definition rule_ok :: "rule \<Rightarrow> bool" where
  "rule_ok r \<longleftrightarrow>
     ValidName (r_name r) \<and> r_source r = SourceLocal \<and>
     (q_kind (r_require r) = RequireApprover \<longleftrightarrow> ValidName (q_role (r_require r))) \<and>
     (q_kind (r_require r) \<noteq> RequireApprover \<longrightarrow> q_role (r_require r) = []) \<and>
     (\<forall>c\<in>set (r_when r). cond_ok c \<and> c_field c \<in> set (fieldsFor (r_action r))) \<and>
     map c_field (r_when r) = filter (\<lambda>f. f \<in> set (map c_field (r_when r))) fieldOrder"

lemma qualify_ok:
  "qualify w b c = Inr c' \<Longrightarrow> cond_ok c \<Longrightarrow> c_window c = WindowAny \<Longrightarrow> c_budget c = [] \<Longrightarrow>
   cond_ok c' \<and> c_field c' = c_field c"
  by (auto simp: qualify_def try_res_Inr_iff Let_def cond_ok_def value_ok_def split: if_splits field.splits)

lemma parse_fields_ok:
  "parse_fields home when fs = Inr cs \<Longrightarrow>
   (\<forall>c\<in>set cs. cond_ok c) \<and> map c_field cs = filter (\<lambda>f. when (field_text f) \<noteq> None) fs"
proof (induction fs arbitrary: cs)
  case (Cons f fs)
  show ?case
  proof (cases "when (field_text f)")
    case None
    with Cons show ?thesis by simp
  next
    case (Some raw)
    with Cons.prems obtain c c' cs' where c: "parseCondition home f raw = Inr c"
      and q: "qualify (case when windowKey of Some w \<Rightarrow> w | None \<Rightarrow> []) (when budgetKey) c = Inr c'"
      and cs': "parse_fields home when fs = Inr cs'" "cs = c' # cs'"
      by (auto simp: try_res_Inr_iff lift_cond_def split: sum.splits)
    from c have "c_field c = f" "c_window c = WindowAny" "c_budget c = []" "cond_ok c" using parseCondition_ok by blast+
    with qualify_ok [OF q] have "cond_ok c' \<and> c_field c' = f" by blast
    with Cons.IH cs' Some show ?thesis by simp
  qed
qed simp

lemma check_keys_iff:
  "check_keys a kvs = Inr () \<longleftrightarrow>
   (\<forall>k\<in>fst ` set kvs. k = windowKey \<or> k = budgetKey \<or> (k \<in> field_text ` set fieldOrder \<and> k \<in> field_text ` set (fieldsFor a)))"
  proof (induction kvs)
  case (Cons kv kvs)
  then show ?case
    by (cases kv; cases "fst kv = windowKey \<or> fst kv = budgetKey"; cases "fst kv \<in> field_text ` set fieldOrder";
        cases "fst kv \<in> field_text ` set (fieldsFor a)"; simp; blast)
qed simp

lemma field_text_inj: "field_text f = field_text g \<Longrightarrow> f = g"
proof -
  have "distinct (map field_text fieldOrder)" by (simp add: fieldOrder_def)
  moreover have "f \<in> set fieldOrder" "g \<in> set fieldOrder" by (cases f; simp add: fieldOrder_def) (cases g; simp add: fieldOrder_def)
  ultimately show "field_text f = field_text g \<Longrightarrow> f = g" by (auto simp: distinct_map inj_on_def)
qed

lemma field_text_not_key: "field_text f \<noteq> windowKey" "field_text f \<noteq> budgetKey"
  by (cases f; simp add: windowKey_def budgetKey_def)+

lemma fieldOrder_all: "f \<in> set fieldOrder"
  by (cases f) (simp_all add: fieldOrder_def)

lemma parseWhen_ok:
  assumes "parseWhen home a when = Inr cs"
  shows "(\<forall>c\<in>set cs. cond_ok c \<and> c_field c \<in> set (fieldsFor a)) \<and>
    map c_field cs = filter (\<lambda>f. field_text f \<in> fst ` set when) fieldOrder"
proof -
  have k: "check_keys a when = Inr ()" and p: "parse_fields home (map_of when) fieldOrder = Inr cs"
    using assms by (auto simp: parseWhen_def try_res_Inr_iff Let_def split: if_splits)
  have dom: "map_of when x \<noteq> None \<longleftrightarrow> x \<in> fst ` set when" for x by (simp add: map_of_eq_None_iff)
  have cs: "\<forall>c\<in>set cs. cond_ok c" "map c_field cs = filter (\<lambda>f. field_text f \<in> fst ` set when) fieldOrder"
    using parse_fields_ok [OF p] dom by auto
  have "f \<in> set (fieldsFor a)" if f: "field_text f \<in> fst ` set when" for f
  proof -
    have "field_text f \<in> field_text ` set (fieldsFor a)"
      using k f field_text_not_key unfolding check_keys_iff by blast
    then show ?thesis using field_text_inj by blast
  qed
  moreover have "\<forall>c\<in>set cs. field_text (c_field c) \<in> fst ` set when"
  proof
    fix c
    assume "c \<in> set cs"
    then have "c_field c \<in> set (map c_field cs)" by simp
    then show "field_text (c_field c) \<in> fst ` set when" unfolding cs(2) by simp
  qed
  ultimately show ?thesis using cs by blast
qed

lemma ParseRequire_ok:
  "ParseRequire s = Inr q \<Longrightarrow>
   (q_kind q = RequireApprover \<longleftrightarrow> ValidName (q_role q)) \<and> (q_kind q \<noteq> RequireApprover \<longrightarrow> q_role q = [])"
  by (auto simp: ParseRequire_def Let_def ValidName_def split: option.splits if_splits dest!: find_eq_Some)

lemma parseRule_ok:
  assumes "parseRule home s = Inr r"
  shows "rule_ok r"
proof -
  let ?name = "trim_space (s_name s)"
  obtain a where a: "find (\<lambda>a. to_lower (trim_space (s_action s)) = action_text a) actions = Some a"
    and n: "ValidName ?name"
    using assms by (auto simp: parseRule_def Let_def split: if_splits option.splits)
  with assms obtain req st cs where p: "ParseRequire (s_require s) = Inr req" "parseWhen home a (s_when s) = Inr cs"
    and r: "r = \<lparr>r_name = ?name, r_action = a, r_when = cs, r_require = req, r_stage = st, r_source = SourceLocal\<rparr>"
    by (auto simp: parseRule_def Let_def try_res_Inr_iff split: if_splits)
  note w = parseWhen_ok [OF p(2)]
  have "map c_field cs = filter (\<lambda>f. f \<in> set (map c_field cs)) fieldOrder"
    using w by (smt (verit, best) filter_cong fieldOrder_all mem_Collect_eq set_filter)
  then show ?thesis using n w ParseRequire_ok [OF p(1)] by (simp add: rule_ok_def r)
qed


subsection \<open>The order of the map does not matter\<close>

lemma check_keys_set: "fst ` set w' = fst ` set w \<Longrightarrow> check_keys a w' = Inr () \<longleftrightarrow> check_keys a w = Inr ()"
  by (simp add: check_keys_iff)

lemma parseWhen_order_free:
  assumes "distinct (map fst w)" and "distinct (map fst w')" and "set w' = set w"
  shows "parseWhen home a w' = Inr cs \<longleftrightarrow> parseWhen home a w = Inr cs"
proof -
  have m: "map_of w' = map_of w" using assms by (metis map_of_inject_set)
  have "check_keys a w' = Inr () \<longleftrightarrow> check_keys a w = Inr ()" using assms by (intro check_keys_set) simp
  then show ?thesis by (auto simp: parseWhen_def m try_res_Inr_iff)
qed

lemma parseRule_order_free:
  assumes "distinct (map fst (s_when s))" and "distinct (map fst w)" and "set w = set (s_when s)"
  shows "parseRule home (s\<lparr>s_when := w\<rparr>) = Inr r \<longleftrightarrow> parseRule home s = Inr r"
proof -
  have "parseWhen home a w = Inr cs \<longleftrightarrow> parseWhen home a (s_when s) = Inr cs" for a cs
    using parseWhen_order_free assms by blast
  then show ?thesis by (auto simp: parseRule_def Let_def try_res_Inr_iff split: option.splits)
qed

subsection \<open>The whole list\<close>

lemma parse_specs_ok:
  "parse_specs home i seen ss = Inr rs \<Longrightarrow>
   list_all2 (\<lambda>s r. parseRule home s = Inr r) ss rs \<and> distinct (map r_name rs) \<and> set (map r_name rs) \<inter> set seen = {}"
proof (induction ss arbitrary: i seen rs)
  case (Cons s ss)
  from Cons.prems obtain r rs' where r: "parseRule home s = Inr r" "r_name r \<notin> set seen"
    and rs: "parse_specs home (Suc i) (r_name r # seen) ss = Inr rs'" "rs = r # rs'"
    by (auto simp: try_res_Inr_iff split: sum.splits if_splits)
  from Cons.IH [OF rs(1)] r rs(2) show ?case by auto
qed simp

lemma Parse_ok:
  assumes "Parse home specs = Inr rules"
  shows "length rules = length specs \<and> distinct (map r_name rules) \<and> (\<forall>r\<in>set rules. rule_ok r)"
proof -
  have l: "list_all2 (\<lambda>s r. parseRule home s = Inr r) specs rules" "distinct (map r_name rules)"
    using parse_specs_ok assms unfolding Parse_def by blast+
  have "rule_ok r" if "r \<in> set rules" for r
  proof -
    from l(1) that have "\<exists>s\<in>set specs. parseRule home s = Inr r"
      by (induction specs rules rule: list_all2_induct) auto
    then show ?thesis using parseRule_ok by blast
  qed
  with l show ?thesis by (auto dest: list_all2_lengthD)
qed

lemma parse_specs_complete:
  "list_all2 (\<lambda>s r. parseRule home s = Inr r) ss rs \<Longrightarrow> distinct (map r_name rs) \<Longrightarrow>
   set (map r_name rs) \<inter> set seen = {} \<Longrightarrow> parse_specs home i seen ss = Inr rs"
  by (induction ss rs arbitrary: i seen rule: list_all2_induct) auto

lemma Parse_iff:
  "Parse home specs = Inr rules \<longleftrightarrow>
   list_all2 (\<lambda>s r. parseRule home s = Inr r) specs rules \<and> distinct (map r_name rules)"
  using parse_specs_ok parse_specs_complete [where seen = "[]"] unfolding Parse_def by fastforce

subsection \<open>What is written parses back\<close>

lemma name_start_facts: "name_start c \<Longrightarrow> \<not> is_upper c \<and> \<not> is_space c"
  by (auto simp: name_start_def char_class_defs)

lemma name_char_facts: "name_char c \<Longrightarrow> \<not> is_upper c \<and> \<not> is_space c \<and> c \<noteq> CHR '':'' \<and> c \<noteq> CHR 0x00"
  by (auto simp: name_char_def name_start_def char_class_defs)

lemma ValidName_chars: "ValidName s \<Longrightarrow> c \<in> set s \<Longrightarrow> name_char c"
  by (cases s) (auto simp: ValidName_def list_all_iff name_char_def)

lemma ValidName_trim: "ValidName s \<Longrightarrow> trim_space s = s"
  using ValidName_chars name_char_facts by (intro trim_no_space) blast

lemma ValidName_lower: "ValidName s \<Longrightarrow> to_lower s = s"
  using ValidName_chars name_char_facts by (intro to_lower_idle) blast

lemma ParseRequire_role:
  assumes "ValidName role"
  shows "ParseRequire (''approver:'' @ role) = Inr \<lparr>q_kind = RequireApprover, q_role = role\<rparr>"
proof -
  have l: "last (''approver:'' @ role) = last role" "role \<noteq> []" using assms by (auto simp: ValidName_def)
  then have "\<not> is_space (last role)" using assms ValidName_chars name_char_facts last_in_set by blast
  moreover have "\<not> is_space (CHR ''a'')" by (simp add: is_space_def)
  ultimately have t: "trim_space (''approver:'' @ role) = ''approver:'' @ role"
    using l by (intro trim_space_idle) (auto simp: trimmed_def)
  have "to_lower ''approver:'' = ''approver:''" by code_simp
  then have w: "to_lower (''approver:'' @ role) = ''approver:'' @ role"
    using ValidName_lower [OF assms] by (simp add: to_lower_def)
  have c: "cut_prefix (''approver:'' @ role) ''approver:'' = Some role" by (simp add: cut_prefix_Some_iff)
  have k: "find (\<lambda>k. ''approver:'' @ role = kind_text k) [RequireAllow, RequireAsk, RequireDeny] = None"
    by simp
  show ?thesis
    unfolding ParseRequire_def t w Let_def k c option.case ValidName_trim [OF assms] using assms l by simp
qed

lemma ParseRequire_String:
  assumes "q_kind q = RequireApprover \<Longrightarrow> ValidName (q_role q)" and "q_kind q \<noteq> RequireApprover \<Longrightarrow> q_role q = []"
  shows "ParseRequire (Require_String q) = Inr q"
proof -
  have fixed: "ParseRequire (kind_text k) = Inr \<lparr>q_kind = k, q_role = []\<rparr>" if "k \<noteq> RequireApprover" for k
    using that by (cases k) (simp_all only: kind_text.simps, code_simp+)
  show ?thesis
  proof (cases "q_kind q = RequireApprover")
    case True
    with assms ParseRequire_role show ?thesis by (simp add: Require_String_def)
  next
    case False
    with assms fixed show ?thesis by (simp add: Require_String_def)
  qed
qed

lemma splitOp_text:
  assumes "p \<noteq> OpNone" and "trimmed v" and "v \<noteq> []" and "hd v \<noteq> CHR ''=''"
  shows "splitOp (op_text p @ v) = (p, v, True)" and "splitOp (op_text p @ '' '' @ v) = (p, v, True)"
proof -
  have hd: "\<not> is_space (hd (op_text p))" "op_text p \<noteq> []" using assms(1) by (cases p; simp add: is_space_def)+
  have lt: "\<not> is_space (last v)" using assms by (simp add: trimmed_def)
  have t: "trim_space (op_text p @ v) = op_text p @ v" "trim_space (op_text p @ '' '' @ v) = op_text p @ '' '' @ v"
    using hd lt assms(3) by (auto intro!: trim_space_idle simp: trimmed_def)
  obtain c r where v: "v = c # r" "c \<noteq> CHR ''=''" using assms by (cases v) auto
  have tv: "trim_space v = v" "trim_space ('' '' @ v) = v"
    using assms(2) by (simp_all add: trim_leading is_space_def trim_space_idle)
  show "splitOp (op_text p @ v) = (p, v, True)"
    unfolding splitOp_def Let_def t(1)
    using assms(1) tv(1) v by (cases p) (simp_all add: has_prefix_def trim_prefix_def)
  show "splitOp (op_text p @ '' '' @ v) = (p, v, True)"
    unfolding splitOp_def Let_def t(2)
    using assms(1) tv(2) v by (cases p) (simp_all add: has_prefix_def trim_prefix_def)
qed

lemma TierOf_TierOf: "TierOf (TierOf s) = TierOf s"
proof -
  have "TierOf [] = []" "TierOf ''opus'' = ''opus''" "TierOf ''sonnet'' = ''sonnet''" "TierOf ''haiku'' = ''haiku''"
    by code_simp+
  moreover have "TierOf s \<in> {[], ''opus'', ''sonnet'', ''haiku''}" by (simp add: TierOf_def Let_def)
  ultimately show ?thesis by auto
qed

subsection \<open>Organisation rules and promotion\<close>

lemma FromOrg_names: "map r_name (FromOrg rs) = map (\<lambda>r. OrgPrefix @ r_name r) rs"
  by (simp add: FromOrg_def)

lemma FromOrg_apart:
  assumes "r \<in> set (FromOrg rs)" and "ValidName n"
  shows "r_name r \<noteq> n"
proof
  assume "r_name r = n"
  with assms(1) obtain q where "n = OrgPrefix @ q" by (auto simp: FromOrg_def)
  then have "CHR '':'' \<in> set n" by (simp add: OrgPrefix_def)
  then show False using assms(2) ValidName_chars name_char_facts by blast
qed

lemma Promote_idem: "Promote (Promote rs n) n = Promote rs n"
  by (simp add: Promote_def)

lemma Promote_only: "r \<in> set (Promote rs n) \<Longrightarrow> (r_name r = n \<and> Enforced r) \<or> (r \<in> set rs \<and> r_name r \<noteq> n)"
  by (auto simp: Promote_def Enforced_def)

subsection \<open>Decision ids\<close>

lemma DecisionID_valid: "ValidDecisionID (DecisionID rule session)"
proof -
  let ?h = "hex_encode (take 6 (sha256 (rule @ [CHR 0x00] @ session)))"
  have "length ?h = 12" by (simp add: length_hex_encode length_sha256)
  moreover have "list_all is_hex_lower ?h" using hex_encode_lower by (simp add: list_all_iff)
  moreover have "cut_prefix (''bnd-'' @ ?h) ''bnd-'' = Some ?h" by (simp add: cut_prefix_Some_iff)
  ultimately show ?thesis by (simp only: ValidDecisionID_def DecisionID_def option.case)
qed

text \<open>What is hashed names the rule and the session: no name holds a zero byte.\<close>

lemma decision_preimage_inj:
  assumes "CHR 0x00 \<notin> set r" "CHR 0x00 \<notin> set r'" "r @ [CHR 0x00] @ s = r' @ [CHR 0x00] @ s'"
  shows "r = r' \<and> s = s'"
proof -
  have "cut (CHR 0x00) (r @ CHR 0x00 # s) = (r, s, True)" "cut (CHR 0x00) (r' @ CHR 0x00 # s') = (r', s', True)"
    by (rule cut_append [OF assms(1)], rule cut_append [OF assms(2)])
  moreover have "r @ CHR 0x00 # s = r' @ CHR 0x00 # s'" using assms(3) by simp
  ultimately have "(r, s, True) = (r', s', True)" by metis
  then show ?thesis by simp
qed

subsection \<open>Properties\<close>


definition sample_specs :: "rule_spec list" where
  "sample_specs =
     [\<lparr>s_name = ''loop'', s_action = ''Continue'', s_when = [(''workflow_id'', ''== nightly-*''), (''loop_calls'', ''>= 5'')],
       s_require = ''ask'', s_stage = []\<rparr>,
      \<lparr>s_name = ''no-opus'', s_action = ''subagent_model'', s_when = [(''model_tier'', ''== Opus'')],
       s_require = ''approver:lead'', s_stage = ''enforce''\<rparr>]"

definition sample_rules :: "rule list" where
  "sample_rules =
     [\<lparr>r_name = ''loop'', r_action = ActionContinue,
       r_when = [(blank FieldLoopCalls OpGE)\<lparr>c_number := Fin 5\<rparr>, (blank FieldWorkflow OpEQ)\<lparr>c_text := ''nightly-*''\<rparr>],
       r_require = \<lparr>q_kind = RequireAsk, q_role = []\<rparr>, r_stage = StageShadow, r_source = SourceLocal\<rparr>,
      \<lparr>r_name = ''no-opus'', r_action = ActionSubagentModel,
       r_when = [(blank FieldModelTier OpEQ)\<lparr>c_text := ''opus''\<rparr>],
       r_require = \<lparr>q_kind = RequireApprover, q_role = ''lead''\<rparr>, r_stage = StageEnforce, r_source = SourceLocal\<rparr>]"

lemma sample_parses: "Parse None sample_specs = Inr sample_rules"
  by code_simp


text \<open>
  The conditions of a rule are a map, which Go visits in any order: whatever the order, the
  same rules are accepted and they read the same.
\<close>

theorem rule_order_free:
  assumes "distinct (map fst (s_when s))" and "distinct (map fst w)" and "set w = set (s_when s)"
  shows "parseRule home (s\<lparr>s_when := w\<rparr>) = Inr r \<longleftrightarrow> parseRule home s = Inr r"
  using assms by (rule parseRule_order_free)

lemma rule_order_free_witness:
  "parseRule None ((hd sample_specs)\<lparr>s_when := [(''loop_calls'', ''>= 5''), (''workflow_id'', ''== nightly-*'')]\<rparr>) = Inr (hd sample_rules)"
proof -
  have "parseRule None (hd sample_specs) = Inr (hd sample_rules)" by code_simp
  then show ?thesis
    using rule_order_free [of "hd sample_specs" "[(''loop_calls'', ''>= 5''), (''workflow_id'', ''== nightly-*'')]"]
    by (simp add: sample_specs_def insert_commute)
qed

text \<open>
  A requirement printed as the configuration writes it parses back to itself, an approver's
  role included.
\<close>

theorem require_round_trip:
  assumes "q_kind q = RequireApprover \<Longrightarrow> ValidName (q_role q)" and "q_kind q \<noteq> RequireApprover \<Longrightarrow> q_role q = []"
  shows "ParseRequire (Require_String q) = Inr q"
  using assms by (rule ParseRequire_String)

lemma require_round_trip_witness:
  "ParseRequire (Require_String \<lparr>q_kind = RequireApprover, q_role = ''platform-lead''\<rparr>) =
   Inr \<lparr>q_kind = RequireApprover, q_role = ''platform-lead''\<rparr>"
proof -
  have "ValidName ''platform-lead''" by code_simp
  then show ?thesis by (intro require_round_trip) simp_all
qed

end
