(* ===== verification/Boundaries.thy ===== *)
theory Boundaries
  imports Rules
begin

text \<open>
  Evaluating the rules (\<open>internal/contexts/boundaries/boundaries.go\<close>, \<open>subagents.go\<close>): the
  figures known about an action, whether a condition holds on them and in what words, the
  figures that crossed it, the rules that match an action, and the verdict. A budget map is
  the list of its entries in Go's iteration order. The lemmas characterise the binding
  match as the first of the strictest enforced ones, which makes the verdict the meet of
  the requirements on the authority ladder, and say what a crossing can carry.
\<close>

subsection \<open>Facts\<close>

record figure =
  fg_value :: f64
  fg_known :: bool

definition Known :: "f64 \<Rightarrow> figure" where
  "Known v = \<lparr>fg_value = v, fg_known = True\<rparr>"

record loop_figure =
  lf_known :: bool
  lf_reading :: loop_reading

record subagent_figure =
  sf_known :: bool
  sf_session :: int
  sf_prompt :: int
  sf_prompt_known :: bool

record facts =
  fa_session_cost :: figure
  fa_plan_left :: "window \<Rightarrow> f64 option"
  fa_plan_vendor :: string
  fa_plan_vendors :: "window \<Rightarrow> string option"
  fa_plan_early :: "window \<Rightarrow> f64 option"
  fa_plan_early_vendors :: "window \<Rightarrow> string option"
  fa_budget_used :: "(string \<times> f64) list"
  fa_model_tier :: string
  fa_destination :: string
  fa_workflow :: string
  fa_agent :: string
  fa_loop :: loop_figure
  fa_subagents :: subagent_figure
  fa_folder :: string
  fa_now :: gotime

subsection \<open>Figures\<close>

definition compare :: "f64 \<Rightarrow> op \<Rightarrow> f64 \<Rightarrow> bool" where
  "compare x p y =
     (case p of
        OpLT \<Rightarrow> f_lt x y | OpLE \<Rightarrow> f_le x y | OpGT \<Rightarrow> f_lt y x | OpGE \<Rightarrow> f_le y x | OpEQ \<Rightarrow> f_eq x y
      | OpNone \<Rightarrow> False)"

text \<open>The windows known, in the order they are tried.\<close>

definition known_windows :: "(window \<Rightarrow> f64 option) \<Rightarrow> (f64 \<times> window) list" where
  "known_windows m =
     concat (map (\<lambda>w. case m w of Some v \<Rightarrow> [(v, w)] | None \<Rightarrow> []) [Window5h, WindowWeek])"

definition read_window :: "(f64 \<Rightarrow> f64 \<Rightarrow> bool) \<Rightarrow> (window \<Rightarrow> f64 option) \<Rightarrow> window \<Rightarrow> f64 \<times> window \<times> bool" where
  "read_window better m w =
     (if w \<noteq> WindowAny then (case m w of Some v \<Rightarrow> (v, w, True) | None \<Rightarrow> (Fin 0, w, False))
      else case best (\<lambda>x y. better (fst x) (fst y)) (known_windows m) of
             Some (v, w) \<Rightarrow> (v, w, True)
           | None \<Rightarrow> (Fin 0, WindowAny, False))"

definition planLeft :: "(window \<Rightarrow> f64 option) \<Rightarrow> window \<Rightarrow> f64 \<times> window \<times> bool" where
  "planLeft m w = read_window f_lt m w"

definition planEarly :: "(window \<Rightarrow> f64 option) \<Rightarrow> window \<Rightarrow> f64 \<times> window \<times> bool" where
  "planEarly m w = read_window (\<lambda>x y. f_lt y x) m w"

definition fuller :: "string \<times> f64 \<Rightarrow> string \<times> f64 \<Rightarrow> bool" where
  "fuller x y \<longleftrightarrow> f_lt (snd y) (snd x) \<or> (f_eq (snd x) (snd y) \<and> fst x < fst y)"

definition budgetUsed :: "(string \<times> f64) list \<Rightarrow> string \<Rightarrow> f64 \<times> string \<times> bool" where
  "budgetUsed used name =
     (if name \<noteq> [] then (case map_of used name of Some v \<Rightarrow> (v, name, True) | None \<Rightarrow> (Fin 0, name, False))
      else case best fuller used of
             Some (n, v) \<Rightarrow> (v, n, True)
           | None \<Rightarrow> (Fin 0, [], False))"

definition subagentCount :: "subagent_figure \<Rightarrow> field \<Rightarrow> int \<times> bool" where
  "subagentCount f fld =
     (if \<not> sf_known f then (0, False)
      else if fld = FieldPromptSubagents then (sf_prompt f, sf_prompt_known f)
      else (sf_session f, True))"

subsection \<open>Words\<close>

text \<open>\<open>int(math.Round(x))\<close>, rounding half away from zero; what is no number converts as on amd64.\<close>

definition round_int :: "f64 \<Rightarrow> int" where
  "round_int v = (case v of Fin x \<Rightarrow> if 0 \<le> x then \<lfloor>x + 1 / 2\<rfloor> else - \<lfloor>1 / 2 - x\<rfloor> | _ \<Rightarrow> - (2 ^ 63))"

definition minutesWords :: "f64 \<Rightarrow> string" where
  "minutesWords minutes =
     (let m = round_int minutes
      in if 0 < m div 60 then itoa (m div 60) @ ''h '' @ itoa (m mod 60) @ ''m'' else itoa m @ ''m'')"

definition budgetLeftWords :: "string \<Rightarrow> f64 \<Rightarrow> condition \<Rightarrow> string" where
  "budgetLeftWords name used c =
     (let left = (if f_le (Fin 100) used then ''used up''
                  else fmt_fixed 1 (f_max (Fin 0) (f_sub (Fin 100) used)) @ ''% left'')
      in ''budget '' @ name @ '' '' @ left @ '' ('' @ fmt_fixed 1 used @ ''% spent '' @
         op_text (c_op c) @ '' '' @ fmt_g (c_number c) @ ''%)'')"

definition destinationName :: "string \<Rightarrow> string" where
  "destinationName d = (if d = DestinationOTel then ''the OTel collector'' else ''the team plane'')"

definition subagentWords :: "int \<Rightarrow> field \<Rightarrow> condition \<Rightarrow> string" where
  "subagentWords n fld c =
     ''subagent '' @ itoa n @ '' '' @
     (if fld = FieldPromptSubagents then ''since the last prompt'' else ''in this session'') @
     '' ('' @ op_text (c_op c) @ '' '' @ fmt_g (c_number c) @ '')''"

definition weekday_names :: "string list" where
  "weekday_names = [''Sun'', ''Mon'', ''Tue'', ''Wed'', ''Thu'', ''Fri'', ''Sat'']"

definition format_mon_time :: "gotime \<Rightarrow> string" where
  "format_mon_time t =
     weekday_names ! weekday t @ '' '' @ pad_int 2 (clock_hour t) @ '':'' @ pad_int 2 (clock_minute t)"

definition vendor_of :: "string \<Rightarrow> (window \<Rightarrow> string option) \<Rightarrow> window \<Rightarrow> string" where
  "vendor_of vendor vendors w =
     (case vendors w of Some v \<Rightarrow> if v \<noteq> [] then v else vendor | None \<Rightarrow> vendor)"

subsection \<open>Conditions\<close>

text \<open>None when the condition does not hold; otherwise the words of what was crossed, if any.\<close>

definition holds :: "condition \<Rightarrow> facts \<Rightarrow> string option" where
  "holds c f =
     (case c_field c of
        FieldSessionCost \<Rightarrow>
          if \<not> fg_known (fa_session_cost f) \<or> \<not> compare (fg_value (fa_session_cost f)) (c_op c) (c_number c) then None
          else Some (''session cost $'' @ fmt_fixed 2 (fg_value (fa_session_cost f)) @ '' '' @ op_text (c_op c) @
                     '' $'' @ fmt_fixed 2 (c_number c))
      | FieldPlanLeft \<Rightarrow>
          (let (left, w, ok) = planLeft (fa_plan_left f) (c_window c)
           in if \<not> ok \<or> \<not> compare left (c_op c) (c_number c) then None
              else Some (trim_space (vendor_of (fa_plan_vendor f) (fa_plan_vendors f) w @ '' plan left '' @
                     fmt_fixed 1 left @ ''% '' @ op_text (c_op c) @ '' '' @ fmt_g (c_number c) @ ''% ('' @
                     window_text w @ '')'')))
      | FieldPlanEarly \<Rightarrow>
          (let (early, w, ok) = planEarly (fa_plan_early f) (c_window c)
           in if \<not> ok \<or> \<not> compare early (c_op c) (c_number c) then None
              else Some (trim_space (vendor_of (fa_plan_vendor f) (fa_plan_early_vendors f) w @ '' '' @
                     window_text w @ '' runs out '' @ minutesWords early @ '' before its reset at this pace ('' @
                     op_text (c_op c) @ '' '' @ fmt_g (c_number c) @ ''m)'')))
      | FieldBudgetUsed \<Rightarrow>
          (let (used, name, ok) = budgetUsed (fa_budget_used f) (c_budget c)
           in if \<not> ok \<or> \<not> compare used (c_op c) (c_number c) then None
              else Some (budgetLeftWords name used c))
      | FieldModelTier \<Rightarrow>
          (case tierRank (fa_model_tier f) of
             None \<Rightarrow> None
           | Some got \<Rightarrow>
               if \<not> compare (f_int got) (c_op c) (f_int (case tierRank (c_text c) of Some n \<Rightarrow> n | None \<Rightarrow> 0)) then None
               else Some (''model '' @ fa_model_tier f @ '' '' @ op_text (c_op c) @ '' '' @ c_text c))
      | FieldDestination \<Rightarrow>
          if fa_destination f \<noteq> c_text c then None
          else Some (''figures leaving for '' @ destinationName (fa_destination f))
      | FieldLoopCalls \<Rightarrow>
          if \<not> lf_known (fa_loop f) \<or> lr_calls (lf_reading (fa_loop f)) = 0 \<or>
             \<not> compare (f_int (int (lr_calls (lf_reading (fa_loop f))))) (c_op c) (c_number c) then None
          else Some (loopWords (lf_reading (fa_loop f)))
      | FieldWorkflow \<Rightarrow> if matches (c_text c) (fa_workflow f) \<and> fa_workflow f \<noteq> [] then Some [] else None
      | FieldAgent \<Rightarrow> if matches (c_text c) (fa_agent f) \<and> fa_agent f \<noteq> [] then Some [] else None
      | FieldFolder \<Rightarrow>
          (case matchFolder (c_folders c) (fa_folder f) of
             None \<Rightarrow> None | Some folder \<Rightarrow> Some (''working in '' @ folder))
      | FieldHours \<Rightarrow>
          (case matchHours (c_hours c) (fa_now f) of
             None \<Rightarrow> None
           | Some _ \<Rightarrow> Some (''at '' @ format_mon_time (fa_now f) @ '', within hours '' @ hoursString (c_hours c)))
      | _ \<Rightarrow>
          (let (n, ok) = subagentCount (fa_subagents f) (c_field c)
           in if \<not> ok \<or> \<not> compare (f_int n) (c_op c) (c_number c) then None
              else Some (subagentWords n (c_field c) c)))"

definition Holds :: "condition \<Rightarrow> facts \<Rightarrow> bool" where
  "Holds c f \<longleftrightarrow> holds c f \<noteq> None"

record crossing =
  x_field :: field
  x_op :: op
  x_value :: f64
  x_threshold :: f64
  x_window :: window
  x_destination :: string

definition crossing_of :: "condition \<Rightarrow> facts \<Rightarrow> crossing option" where
  "crossing_of c f =
     (let x = \<lparr>x_field = c_field c, x_op = c_op c, x_value = Fin 0, x_threshold = c_number c,
               x_window = WindowAny, x_destination = []\<rparr>;
          tier = (\<lambda>t. f_int (case tierRank t of Some n \<Rightarrow> n | None \<Rightarrow> 0))
      in case c_field c of
           FieldSessionCost \<Rightarrow> Some (x\<lparr>x_value := fg_value (fa_session_cost f)\<rparr>)
         | FieldPlanLeft \<Rightarrow>
             (let (v, w, _) = planLeft (fa_plan_left f) (c_window c) in Some (x\<lparr>x_value := v, x_window := w\<rparr>))
         | FieldPlanEarly \<Rightarrow>
             (let (v, w, _) = planEarly (fa_plan_early f) (c_window c) in Some (x\<lparr>x_value := v, x_window := w\<rparr>))
         | FieldBudgetUsed \<Rightarrow> Some (x\<lparr>x_value := fst (budgetUsed (fa_budget_used f) (c_budget c))\<rparr>)
         | FieldModelTier \<Rightarrow> Some (x\<lparr>x_value := tier (fa_model_tier f), x_threshold := tier (c_text c)\<rparr>)
         | FieldDestination \<Rightarrow> Some (x\<lparr>x_destination := fa_destination f\<rparr>)
         | FieldLoopCalls \<Rightarrow> Some (x\<lparr>x_value := f_int (int (lr_calls (lf_reading (fa_loop f))))\<rparr>)
         | FieldSessionSubagents \<Rightarrow> Some (x\<lparr>x_value := f_int (fst (subagentCount (fa_subagents f) (c_field c)))\<rparr>)
         | FieldPromptSubagents \<Rightarrow> Some (x\<lparr>x_value := f_int (fst (subagentCount (fa_subagents f) (c_field c)))\<rparr>)
         | _ \<Rightarrow> None)"

subsection \<open>Matches and verdicts\<close>

record rule_match =
  m_rule :: rule
  m_crossed :: "string list"
  m_crossings :: "crossing list"

definition Crossed :: "rule_match \<Rightarrow> string" where
  "Crossed m =
     (if m_crossed m = [] then ''rule '' @ r_name (m_rule m) @ '' applies to every '' @ action_text (r_action (m_rule m))
      else join '', '' (m_crossed m))"

definition RecordedMatch :: "rule \<Rightarrow> string \<Rightarrow> rule_match" where
  "RecordedMatch r crossed =
     \<lparr>m_rule = r, m_crossed = (if crossed \<noteq> [] then [crossed] else []), m_crossings = []\<rparr>"

fun match_conditions :: "condition list \<Rightarrow> facts \<Rightarrow> rule_match \<Rightarrow> rule_match option" where
  "match_conditions [] f m = Some m"
| "match_conditions (c # cs) f m =
     (case holds c f of
        None \<Rightarrow> None
      | Some txt \<Rightarrow>
          let m = (if txt \<noteq> [] then m\<lparr>m_crossed := m_crossed m @ [txt]\<rparr> else m);
              m = (case crossing_of c f of Some x \<Rightarrow> m\<lparr>m_crossings := m_crossings m @ [x]\<rparr> | None \<Rightarrow> m)
          in match_conditions cs f m)"

definition Rule_Match :: "rule \<Rightarrow> action \<Rightarrow> facts \<Rightarrow> rule_match option" where
  "Rule_Match r a f =
     (if r_action r \<noteq> a then None
      else match_conditions (r_when r) f \<lparr>m_rule = r, m_crossed = [], m_crossings = []\<rparr>)"

record verdict =
  v_matches :: "rule_match list"
  v_binding :: "rule_match option"

definition Shadow :: "verdict \<Rightarrow> rule_match list" where
  "Shadow v = filter (\<lambda>m. \<not> Enforced (m_rule m)) (v_matches v)"

definition Refuses :: "verdict \<Rightarrow> bool" where
  "Refuses v \<longleftrightarrow> (case v_binding v of None \<Rightarrow> False | Some m \<Rightarrow> q_kind (r_require (m_rule m)) = RequireDeny)"

definition Asks :: "verdict \<Rightarrow> bool" where
  "Asks v \<longleftrightarrow> (case v_binding v of None \<Rightarrow> False | Some m \<Rightarrow> LocalAsk (r_require (m_rule m)))"

definition eval_step :: "action \<Rightarrow> facts \<Rightarrow> verdict \<Rightarrow> rule \<Rightarrow> verdict" where
  "eval_step a f v r =
     (case Rule_Match r a f of
        None \<Rightarrow> v
      | Some m \<Rightarrow>
          let v = v\<lparr>v_matches := v_matches v @ [m]\<rparr>
          in if \<not> Enforced r then v
             else case v_binding v of
                    None \<Rightarrow> v\<lparr>v_binding := Some m\<rparr>
                  | Some b \<Rightarrow>
                      if strictness (r_require (m_rule b)) < strictness (r_require r)
                      then v\<lparr>v_binding := Some m\<rparr> else v)"

definition Evaluate :: "rule list \<Rightarrow> action \<Rightarrow> facts \<Rightarrow> verdict" where
  "Evaluate rules a f = foldl (eval_step a f) \<lparr>v_matches = [], v_binding = None\<rparr> rules"


subsection \<open>The binding match\<close>

definition match_strictness :: "rule_match \<Rightarrow> nat" where
  "match_strictness m = strictness (r_require (m_rule m))"

interpretation strictest: ranked match_strictness .

definition matching :: "rule list \<Rightarrow> action \<Rightarrow> facts \<Rightarrow> rule_match list" where
  "matching rules a f = concat (map (\<lambda>r. case Rule_Match r a f of None \<Rightarrow> [] | Some m \<Rightarrow> [m]) rules)"

definition binding_matches :: "rule list \<Rightarrow> action \<Rightarrow> facts \<Rightarrow> rule_match list" where
  "binding_matches rules a f = filter (\<lambda>m. Enforced (m_rule m)) (matching rules a f)"

lemma match_conditions_rule: "match_conditions cs f m = Some m' \<Longrightarrow> m_rule m' = m_rule m"
  by (induction cs f m rule: match_conditions.induct) (auto simp: Let_def split: option.splits if_splits)

lemma Rule_Match_rule: "Rule_Match r a f = Some m \<Longrightarrow> m_rule m = r \<and> r_action r = a"
  by (auto simp: Rule_Match_def dest: match_conditions_rule split: if_splits)

lemma match_conditions_iff: "match_conditions cs f m \<noteq> None \<longleftrightarrow> (\<forall>c\<in>set cs. Holds c f)"
  by (induction cs f m rule: match_conditions.induct) (auto simp: Holds_def Let_def split: option.splits)

lemma Rule_Match_iff: "Rule_Match r a f \<noteq> None \<longleftrightarrow> r_action r = a \<and> (\<forall>c\<in>set (r_when r). Holds c f)"
  using match_conditions_iff by (auto simp: Rule_Match_def)

lemma matching_simps [simp]:
  "matching [] a f = []"
  "matching (r # rs) a f = (case Rule_Match r a f of None \<Rightarrow> [] | Some m \<Rightarrow> [m]) @ matching rs a f"
  "matching (rs @ ss) a f = matching rs a f @ matching ss a f"
  by (simp_all add: matching_def)

lemma set_matching: "m \<in> set (matching rules a f) \<longleftrightarrow> (\<exists>r\<in>set rules. Rule_Match r a f = Some m)"
  by (induction rules) (auto split: option.splits)

lemma set_binding_matches:
  "m \<in> set (binding_matches rules a f) \<longleftrightarrow> (\<exists>r\<in>set rules. Enforced r \<and> Rule_Match r a f = Some m)"
  using Rule_Match_rule by (fastforce simp: binding_matches_def set_matching)

lemma eval_step_snoc:
  assumes "v_matches v = matching rs a f"
    and "v_binding v = best (\<lambda>x y. match_strictness y < match_strictness x) (binding_matches rs a f)"
  shows "v_matches (eval_step a f v r) = matching (rs @ [r]) a f"
    and "v_binding (eval_step a f v r) = best (\<lambda>x y. match_strictness y < match_strictness x) (binding_matches (rs @ [r]) a f)"
proof -
  show "v_matches (eval_step a f v r) = matching (rs @ [r]) a f"
    using assms(1) by (auto simp: eval_step_def Let_def split: option.splits)
  show "v_binding (eval_step a f v r) = best (\<lambda>x y. match_strictness y < match_strictness x) (binding_matches (rs @ [r]) a f)"
  proof (cases "Rule_Match r a f")
    case None
    with assms show ?thesis by (simp add: eval_step_def binding_matches_def)
  next
    case (Some m)
    then have m: "m_rule m = r" using Rule_Match_rule by blast
    show ?thesis
    proof (cases "Enforced r")
      case False
      with Some assms m show ?thesis by (simp add: eval_step_def binding_matches_def)
    next
      case True
      with Some m have "binding_matches (rs @ [r]) a f = binding_matches rs a f @ [m]"
        by (simp add: binding_matches_def)
      then have "best (\<lambda>x y. match_strictness y < match_strictness x) (binding_matches (rs @ [r]) a f) =
          pick (\<lambda>x y. match_strictness y < match_strictness x) (v_binding v) m"
        by (simp add: best_snoc assms(2))
      then show ?thesis using True Some m
        by (cases "v_binding v") (simp_all add: eval_step_def Let_def match_strictness_def)
    qed
  qed
qed

lemma Evaluate_spec:
  "v_matches (Evaluate rules a f) = matching rules a f"
  "v_binding (Evaluate rules a f) = best (\<lambda>x y. match_strictness y < match_strictness x) (binding_matches rules a f)"
proof (induction rules rule: rev_induct)
  case Nil
  show "v_matches (Evaluate [] a f) = matching [] a f"
    "v_binding (Evaluate [] a f) = best (\<lambda>x y. match_strictness y < match_strictness x) (binding_matches [] a f)"
    by (simp_all add: Evaluate_def binding_matches_def)
next
  case (snoc r rs)
  have e: "Evaluate (rs @ [r]) a f = eval_step a f (Evaluate rs a f) r" by (simp add: Evaluate_def)
  show "v_matches (Evaluate (rs @ [r]) a f) = matching (rs @ [r]) a f"
    "v_binding (Evaluate (rs @ [r]) a f) = best (\<lambda>x y. match_strictness y < match_strictness x) (binding_matches (rs @ [r]) a f)"
    unfolding e using eval_step_snoc [OF snoc] by blast+
qed

lemma binding_member:
  "v_binding (Evaluate rules a f) = Some m \<Longrightarrow> m \<in> set (binding_matches rules a f)"
  by (simp add: Evaluate_spec best_mem)

lemma binding_None_iff:
  "v_binding (Evaluate rules a f) = None \<longleftrightarrow> (\<forall>r\<in>set rules. Enforced r \<longrightarrow> Rule_Match r a f = None)"
proof -
  have "v_binding (Evaluate rules a f) = None \<longleftrightarrow> set (binding_matches rules a f) = {}"
    by (simp add: Evaluate_spec)
  also have "\<dots> \<longleftrightarrow> (\<forall>r\<in>set rules. Enforced r \<longrightarrow> Rule_Match r a f = None)"
    using set_binding_matches [of _ rules a f] by (metis all_not_in_conv option.exhaust option.discI)
  finally show ?thesis .
qed

lemma binding_upper:
  assumes "v_binding (Evaluate rules a f) = Some b" and "r \<in> set rules" "Enforced r" "Rule_Match r a f \<noteq> None"
  shows "strictness (r_require r) \<le> strictness (r_require (m_rule b))"
proof -
  obtain m where m: "Rule_Match r a f = Some m" using assms(4) by auto
  then have "m \<in> set (binding_matches rules a f)" using assms set_binding_matches by blast
  then have "match_strictness m \<le> match_strictness b" using assms(1) strictest.best_max by (simp add: Evaluate_spec)
  moreover have "m_rule m = r" using Rule_Match_rule [OF m] by blast
  ultimately show ?thesis by (simp add: match_strictness_def)
qed

subsection \<open>The verdict on the authority ladder\<close>

definition verdict_strictness :: "verdict \<Rightarrow> nat" where
  "verdict_strictness v = (case v_binding v of None \<Rightarrow> 0 | Some m \<Rightarrow> match_strictness m)"

definition verdict_authority :: "verdict \<Rightarrow> authority" where
  "verdict_authority v = (case v_binding v of None \<Rightarrow> Automatic | Some m \<Rightarrow> Require_Authority (r_require (m_rule m)))"

lemma Require_Authority_strictness:
  "Require_Authority q = (if strictness q = 0 then Automatic else if strictness q \<le> 2 then RequireApproval else ObserveOnly)"
  by (cases "q_kind q") (simp_all add: Require_Authority_def strictness_def)

lemma foldl_Effective_min:
  "foldl Effective x (map g xs) \<le> x \<and> (\<forall>m\<in>set xs. foldl Effective x (map g xs) \<le> g m) \<and>
   (foldl Effective x (map g xs) = x \<or> (\<exists>m\<in>set xs. foldl Effective x (map g xs) = g m))"
proof (induction xs arbitrary: x)
  case (Cons y ys)
  let ?x = "Effective x (g y)" and ?r = "foldl Effective (Effective x (g y)) (map g ys)"
  have x: "?x \<le> x" "?x \<le> g y" "?x = x \<or> ?x = g y" by (auto simp: Effective_min min_def)
  have r: "?r \<le> ?x" "\<forall>m\<in>set ys. ?r \<le> g m" "?r = ?x \<or> (\<exists>m\<in>set ys. ?r = g m)" using Cons.IH [of ?x] by auto
  have "?r \<le> x" "?r \<le> g y" using r(1) x(1,2) by (blast intro: order_trans)+
  then show ?case using r(2,3) x(3) by auto
qed simp

lemma verdict_authority_meet:
  "verdict_authority (Evaluate rules a f) =
   foldl Effective Automatic (map (\<lambda>m. Require_Authority (r_require (m_rule m))) (binding_matches rules a f))"
    (is "_ = foldl _ _ (map ?g ?ms)")
proof (cases "v_binding (Evaluate rules a f)")
  case None
  then have "?ms = []" by (simp add: Evaluate_spec)
  then show ?thesis using None by (simp add: verdict_authority_def)
next
  case (Some b)
  have b: "b \<in> set ?ms" using binding_member [OF Some] .
  have "?g b \<le> ?g m" if "m \<in> set ?ms" for m
    using strictest.best_max [OF Some [unfolded Evaluate_spec] that] strictness_ladder by (simp add: match_strictness_def)
  moreover have "?g b \<le> Automatic" by (cases "?g b") (simp_all add: less_eq_authority_def)
  ultimately have "foldl Effective Automatic (map ?g ?ms) = ?g b"
    using foldl_Effective_min [of Automatic ?g ?ms] b by (metis order_antisym)
  then show ?thesis using Some by (simp add: verdict_authority_def)
qed

lemma verdict_strictness_mono:
  assumes "set rules \<subseteq> set rules'"
  shows "verdict_strictness (Evaluate rules a f) \<le> verdict_strictness (Evaluate rules' a f)"
proof (cases "v_binding (Evaluate rules a f)")
  case (Some b)
  then obtain r where r: "r \<in> set rules" "Enforced r" "Rule_Match r a f = Some b"
    using binding_member set_binding_matches by blast
  then have "v_binding (Evaluate rules' a f) \<noteq> None" using assms by (auto simp: binding_None_iff)
  then obtain b' where b': "v_binding (Evaluate rules' a f) = Some b'" by blast
  have "strictness (r_require r) \<le> strictness (r_require (m_rule b'))"
    using binding_upper [OF b'] r assms by auto
  moreover have "m_rule b = r" using r Rule_Match_rule by blast
  ultimately show ?thesis by (simp add: verdict_strictness_def Some b' match_strictness_def)
qed (simp add: verdict_strictness_def)

lemma verdict_order_free:
  "set rules' = set rules \<Longrightarrow> verdict_strictness (Evaluate rules' a f) = verdict_strictness (Evaluate rules a f)"
  using verdict_strictness_mono [of rules rules'] verdict_strictness_mono [of rules' rules] by (simp add: order_antisym)

lemma Refuses_strictness: "Refuses v \<longleftrightarrow> verdict_strictness v = 3"
  by (auto simp: Refuses_def verdict_strictness_def match_strictness_def strictness_kind split: option.splits)

lemma Asks_strictness: "Asks v \<longleftrightarrow> verdict_strictness v = 1 \<or> verdict_strictness v = 2"
  by (auto simp: Asks_def verdict_strictness_def match_strictness_def strictness_kind LocalAsk_def split: option.splits)

lemma binding_shadow_free: "v_binding (Evaluate (filter Enforced rules) a f) = v_binding (Evaluate rules a f)"
proof -
  have "binding_matches (filter Enforced rules) a f = binding_matches rules a f"
    using Rule_Match_rule by (induction rules) (fastforce simp: binding_matches_def split: option.splits)+
  then show ?thesis by (simp add: Evaluate_spec)
qed

lemma Refuses_iff:
  "Refuses (Evaluate rules a f) \<longleftrightarrow>
   (\<exists>r\<in>set rules. Enforced r \<and> q_kind (r_require r) = RequireDeny \<and> Rule_Match r a f \<noteq> None)"
proof
  assume "Refuses (Evaluate rules a f)"
  then obtain b where b: "v_binding (Evaluate rules a f) = Some b" "q_kind (r_require (m_rule b)) = RequireDeny"
    by (auto simp: Refuses_def split: option.splits)
  then obtain r where "r \<in> set rules" "Enforced r" "Rule_Match r a f = Some b"
    using binding_member set_binding_matches by blast
  with b Rule_Match_rule show "\<exists>r\<in>set rules. Enforced r \<and> q_kind (r_require r) = RequireDeny \<and> Rule_Match r a f \<noteq> None"
    by fastforce
next
  assume "\<exists>r\<in>set rules. Enforced r \<and> q_kind (r_require r) = RequireDeny \<and> Rule_Match r a f \<noteq> None"
  then obtain r where r: "r \<in> set rules" "Enforced r" "q_kind (r_require r) = RequireDeny" "Rule_Match r a f \<noteq> None" by blast
  then obtain b where b: "v_binding (Evaluate rules a f) = Some b" using binding_None_iff by fastforce
  have "3 \<le> strictness (r_require (m_rule b))"
    using binding_upper [OF b r(1,2,4)] r(3) by (simp add: strictness_def)
  then show "Refuses (Evaluate rules a f)"
    using strictness_le3 [of "r_require (m_rule b)"] by (simp add: Refuses_strictness verdict_strictness_def b match_strictness_def)
qed


subsection \<open>Reading a plan window or a budget\<close>

lemma fuller_asym: "fuller x y \<Longrightarrow> \<not> fuller y x"
proof -
  assume xy: "fuller x y"
  have "f_lt (snd y) (snd x) \<Longrightarrow> \<not> f_lt (snd x) (snd y)" using f_lt_asym by blast
  moreover have "fst x < fst y \<Longrightarrow> \<not> fst y < fst x" by (rule less_not_sym)
  moreover have "snd x = snd y \<Longrightarrow> \<not> f_lt (snd x) (snd y)" using f_lt_asym by metis
  ultimately show ?thesis using xy unfolding fuller_def f_eq_def by metis
qed

lemma fuller_tie: "snd x \<noteq> NaN \<Longrightarrow> snd y \<noteq> NaN \<Longrightarrow> \<not> fuller x y \<Longrightarrow> \<not> fuller y x \<Longrightarrow> x = y"
  using f_lt_total [of "snd x" "snd y"] by (cases x; cases y) (auto simp: fuller_def f_eq_def)

lemma fuller_trans: "fuller x y \<Longrightarrow> fuller y z \<Longrightarrow> fuller x z"
proof -
  assume xy: "fuller x y" and yz: "fuller y z"
  have "f_lt (snd z) (snd y) \<and> f_lt (snd y) (snd x) \<Longrightarrow> f_lt (snd z) (snd x)" using f_lt_trans by blast
  moreover have "fst x < fst y \<and> fst y < fst z \<Longrightarrow> fst x < fst z" using less_trans by blast
  ultimately show ?thesis using xy yz unfolding fuller_def f_eq_def by metis
qed

interpretation budgets: first_best "\<lambda>x. snd x \<noteq> NaN" fuller
proof
  fix x y z :: "string \<times> f64"
  assume ok: "snd x \<noteq> NaN" "snd y \<noteq> NaN" "snd z \<noteq> NaN" and n: "\<not> fuller x y" "\<not> fuller y z"
  show "\<not> fuller x z"
  proof
    assume xz: "fuller x z"
    have "x = y \<or> fuller y x" using fuller_tie ok n by blast
    then show False using xz n fuller_trans by blast
  qed
qed (rule fuller_asym)

text \<open>The fullest budget does not depend on the order Go visits the map in.\<close>

lemma budgetUsed_order_free:
  assumes "\<forall>x\<in>set used. snd x \<noteq> NaN" and "distinct (map fst used)" and "distinct (map fst used')" and "set used' = set used"
  shows "budgetUsed used' name = budgetUsed used name"
proof -
  have "map_of used' = map_of used" using assms by (simp add: map_of_inject_set)
  moreover have "best fuller used' = best fuller used"
    using budgets.best_order_free [OF assms(1,4)] fuller_tie assms(1) by blast
  ultimately show ?thesis by (simp add: budgetUsed_def)
qed

lemma budgetUsed_fullest:
  assumes "\<forall>x\<in>set used. snd x \<noteq> NaN" and "budgetUsed used [] = (v, n, True)"
  shows "(n, v) \<in> set used \<and> (\<forall>x\<in>set used. \<not> fuller x (n, v))"
proof -
  have b: "best fuller used = Some (n, v)" using assms(2) by (auto simp: budgetUsed_def split: option.splits)
  then show ?thesis using best_mem [OF b] budgets.best_upper [OF assms(1) b] by blast
qed

lemma set_known_windows: "(v, w) \<in> set (known_windows m) \<longleftrightarrow> w \<noteq> WindowAny \<and> m w = Some v"
  by (cases w) (auto simp: known_windows_def split: option.splits)

lemma known_windows_None: "known_windows m = [] \<longleftrightarrow> m Window5h = None \<and> m WindowWeek = None"
  by (auto simp: known_windows_def split: option.splits)

interpretation windows_low: first_best "\<lambda>x :: f64 \<times> window. fst x \<noteq> NaN" "\<lambda>x y. f_lt (fst x) (fst y)"
  using f_lt_asym f_lt_negtrans by unfold_locales blast+

interpretation windows_high: first_best "\<lambda>x :: f64 \<times> window. fst x \<noteq> NaN" "\<lambda>x y. f_lt (fst y) (fst x)"
  using f_lt_asym f_lt_negtrans by unfold_locales blast+

text \<open>The tightest window: known, and no known window has less left.\<close>

lemma planLeft_tightest:
  assumes "\<forall>w v. m w = Some v \<longrightarrow> v \<noteq> NaN" and "planLeft m WindowAny = (v, w, True)"
  shows "m w = Some v \<and> (\<forall>w' v'. w' \<noteq> WindowAny \<longrightarrow> m w' = Some v' \<longrightarrow> \<not> f_lt v' v)"
proof -
  let ?b = "\<lambda>x y. f_lt (fst x) (fst y)"
  have b: "best ?b (known_windows m) = Some (v, w)"
    using assms(2) by (auto simp: planLeft_def read_window_def split: option.splits)
  note mem = best_mem [OF b]
  have upper: "\<not> f_lt v' v" if "w' \<noteq> WindowAny" "m w' = Some v'" for w' v'
  proof -
    have "(v', w') \<in> set (known_windows m)" using that by (simp add: set_known_windows)
    moreover have "\<forall>x\<in>set (known_windows m). fst x \<noteq> NaN"
      using assms(1) by (metis prod.collapse set_known_windows)
    ultimately have "\<not> f_lt (fst (v', w')) (fst (v, w))" using windows_low.best_upper b by blast
    then show ?thesis by simp
  qed
  then show ?thesis using mem set_known_windows by blast
qed


lemma planEarly_furthest:
  assumes "\<forall>w v. m w = Some v \<longrightarrow> v \<noteq> NaN" and "planEarly m WindowAny = (v, w, True)"
  shows "m w = Some v \<and> (\<forall>w' v'. w' \<noteq> WindowAny \<longrightarrow> m w' = Some v' \<longrightarrow> \<not> f_lt v v')"
proof -
  let ?b = "\<lambda>x y. f_lt (fst y) (fst x)"
  have b: "best ?b (known_windows m) = Some (v, w)"
    using assms(2) by (auto simp: planEarly_def read_window_def split: option.splits)
  have "\<not> f_lt v v'" if "w' \<noteq> WindowAny" "m w' = Some v'" for w' v'
  proof -
    have "(v', w') \<in> set (known_windows m)" using that by (simp add: set_known_windows)
    moreover have "\<forall>x\<in>set (known_windows m). fst x \<noteq> NaN"
      using assms(1) by (metis prod.collapse set_known_windows)
    ultimately have "\<not> f_lt (fst (v, w)) (fst (v', w'))" using windows_high.best_upper b by blast
    then show ?thesis by simp
  qed
  then show ?thesis using best_mem [OF b] set_known_windows by blast
qed

subsection \<open>Unknown figures let the action through\<close>

text \<open>Facts nobody could read: no figure, window, budget, name, folder or time is known.\<close>

definition unknown :: "facts \<Rightarrow> bool" where
  "unknown f \<longleftrightarrow>
     \<not> fg_known (fa_session_cost f) \<and> fa_plan_left f = Map.empty \<and> fa_plan_early f = Map.empty \<and>
     fa_budget_used f = [] \<and> fa_model_tier f = [] \<and> fa_destination f = [] \<and> fa_workflow f = [] \<and>
     fa_agent f = [] \<and> \<not> lf_known (fa_loop f) \<and> \<not> sf_known (fa_subagents f) \<and> fa_folder f = [] \<and>
     IsZero (fa_now f)"

lemma read_window_empty: "read_window b Map.empty w = (Fin 0, w, False)"
  by (simp add: read_window_def known_windows_def)

lemma unknown_never_holds: "unknown f \<Longrightarrow> cond_ok c \<Longrightarrow> \<not> Holds c f"
  by (cases "c_field c")
    (auto simp: unknown_def Holds_def holds_def cond_ok_def value_ok_def planLeft_def planEarly_def read_window_empty
       budgetUsed_def tierRank_def subagentCount_def matchFolder_def matchHours_def DestinationTeam_def DestinationOTel_def)

lemma unknown_matches_bare:
  assumes "unknown f" and "\<forall>c\<in>set (r_when r). cond_ok c" and "Rule_Match r a f \<noteq> None"
  shows "r_when r = []"
  using assms unknown_never_holds Rule_Match_iff by (cases "r_when r") auto

subsection \<open>What a crossing carries\<close>

definition figure_fields :: "field list" where
  "figure_fields = [FieldSessionCost, FieldPlanLeft, FieldPlanEarly, FieldBudgetUsed, FieldModelTier,
     FieldDestination, FieldLoopCalls, FieldSessionSubagents, FieldPromptSubagents]"

lemma crossing_of_iff: "crossing_of c f \<noteq> None \<longleftrightarrow> c_field c \<in> set figure_fields"
  by (cases "c_field c") (simp_all add: crossing_of_def Let_def figure_fields_def split: prod.splits)

lemma crossing_of_fields:
  "crossing_of c f = Some x \<Longrightarrow> x_field x = c_field c \<and> x_op x = c_op c \<and>
   (x_destination x \<noteq> [] \<longrightarrow> c_field c = FieldDestination \<and> x_destination x = fa_destination f)"
  by (cases "c_field c") (auto simp: crossing_of_def Let_def split: prod.splits)

lemma match_conditions_crossings:
  "match_conditions cs f m = Some m' \<Longrightarrow>
   m_crossings m' = m_crossings m @ concat (map (\<lambda>c. case crossing_of c f of Some x \<Rightarrow> [x] | None \<Rightarrow> []) cs)"
  by (induction cs f m rule: match_conditions.induct) (auto simp: Let_def split: option.splits if_splits)

lemma Rule_Match_crossings:
  assumes "Rule_Match r a f = Some m"
  shows "m_crossings m = concat (map (\<lambda>c. case crossing_of c f of Some x \<Rightarrow> [x] | None \<Rightarrow> []) (r_when r))"
  using assms by (auto simp: Rule_Match_def dest: match_conditions_crossings split: if_splits)

lemma Rule_Match_crossing_holds:
  assumes "Rule_Match r a f = Some m" and "x \<in> set (m_crossings m)"
  obtains c where "c \<in> set (r_when r)" "Holds c f" "crossing_of c f = Some x"
proof -
  obtain c where "c \<in> set (r_when r)" "crossing_of c f = Some x"
    using assms Rule_Match_crossings [OF assms(1)] by (auto split: option.splits)
  moreover have "\<forall>c\<in>set (r_when r). Holds c f" using assms(1) Rule_Match_iff [of r a f] by simp
  ultimately show ?thesis using that by blast
qed

text \<open>Every destination a matching rule's crossings carry is one of the two there are.\<close>

lemma crossing_destination:
  assumes "Rule_Match r a f = Some m" and "x \<in> set (m_crossings m)" and ok: "\<forall>c\<in>set (r_when r). cond_ok c"
  shows "x_field x \<in> set figure_fields \<and> x_destination x \<in> {[], DestinationTeam, DestinationOTel}"
proof -
  obtain c where c: "c \<in> set (r_when r)" "Holds c f" "crossing_of c f = Some x"
    using Rule_Match_crossing_holds [OF assms(1,2)] .
  have "cond_ok c" using ok c by blast
  have "x_field x \<in> set figure_fields" using crossing_of_fields [OF c(3)] crossing_of_iff [of c f] c(3) by simp
  moreover have "x_destination x \<noteq> [] \<Longrightarrow> x_destination x = c_text c \<and> c_field c = FieldDestination"
    using crossing_of_fields [OF c(3)] c(2) by (auto simp: Holds_def holds_def split: if_splits)
  ultimately show ?thesis using \<open>cond_ok c\<close> by (auto simp: cond_ok_def value_ok_def)
qed

text \<open>The ids, the folder and the time do not reach a crossing: changing them changes none.\<close>

lemma crossing_of_private:
  "crossing_of c (f\<lparr>fa_workflow := w, fa_agent := g, fa_folder := d, fa_now := t, fa_plan_vendor := v, fa_plan_vendors := vs,
     fa_plan_early_vendors := es\<rparr>) = crossing_of c f"
  by (simp add: crossing_of_def cong: field.case_cong)

lemma crossings_private:
  assumes "Rule_Match r a f = Some m"
    and "Rule_Match r a (f\<lparr>fa_workflow := w, fa_agent := g, fa_folder := d, fa_now := t\<rparr>) = Some m'"
  shows "m_crossings m' = m_crossings m"
proof -
  have "crossing_of c (f\<lparr>fa_workflow := w, fa_agent := g, fa_folder := d, fa_now := t\<rparr>) = crossing_of c f" for c
    by (simp add: crossing_of_def cong: field.case_cong)
  then show ?thesis using Rule_Match_crossings [OF assms(1)] Rule_Match_crossings [OF assms(2)] by simp
qed

subsection \<open>Properties\<close>

text \<open>Sample rules and facts for the concrete instances below.\<close>

definition loop_rule :: "string \<Rightarrow> require_kind \<Rightarrow> stage \<Rightarrow> nat \<Rightarrow> rule" where
  "loop_rule n k st calls =
     \<lparr>r_name = n, r_action = ActionContinue, r_when = [(blank FieldLoopCalls OpGE)\<lparr>c_number := f_int (int calls)\<rparr>],
      r_require = \<lparr>q_kind = k, q_role = []\<rparr>, r_stage = st, r_source = SourceLocal\<rparr>"

definition no_facts :: facts where
  "no_facts = \<lparr>fa_session_cost = \<lparr>fg_value = Fin 0, fg_known = False\<rparr>, fa_plan_left = Map.empty, fa_plan_vendor = [],
     fa_plan_vendors = Map.empty, fa_plan_early = Map.empty, fa_plan_early_vendors = Map.empty, fa_budget_used = [],
     fa_model_tier = [], fa_destination = [], fa_workflow = [], fa_agent = [],
     fa_loop = \<lparr>lf_known = False, lf_reading = no_loop\<rparr>,
     fa_subagents = \<lparr>sf_known = False, sf_session = 0, sf_prompt = 0, sf_prompt_known = False\<rparr>,
     fa_folder = [], fa_now = \<lparr>t_ns = zero_ns, t_off = 0\<rparr>\<rparr>"

definition loop_facts :: "nat \<Rightarrow> facts" where
  "loop_facts n = no_facts\<lparr>fa_loop := \<lparr>lf_known = True,
     lf_reading = \<lparr>lr_calls = n, lr_period = 1, lr_repeats = n, lr_tools = [''Bash'']\<rparr>\<rparr>\<rparr>"

lemma loop_rule_matches:
  "Rule_Match (loop_rule n k st calls) ActionContinue (loop_facts j) \<noteq> None \<longleftrightarrow> j \<noteq> 0 \<and> calls \<le> j"
  unfolding Rule_Match_iff by (simp add: loop_rule_def Holds_def holds_def loop_facts_def compare_def)

text \<open>
  The match that binds is the first of the strictest: every enforced match before it is
  looser, none after it is stricter.
\<close>

theorem binding_first_strictest:
  assumes "v_binding (Evaluate rules a f) = Some b"
  shows "\<exists>as bs. binding_matches rules a f = as @ b # bs \<and>
    (\<forall>m\<in>set as. match_strictness m < match_strictness b) \<and> (\<forall>m\<in>set bs. match_strictness m \<le> match_strictness b)"
  using strictest.best_split [of "binding_matches rules a f" b] assms by (simp add: Evaluate_spec not_less)

definition two_rules :: "rule list" where
  "two_rules = [loop_rule ''warn'' RequireAsk StageEnforce 2, loop_rule ''stop'' RequireDeny StageEnforce 4,
     loop_rule ''watch'' RequireDeny StageShadow 2]"

lemma binding_first_strictest_witness:
  "\<exists>b as bs. v_binding (Evaluate two_rules ActionContinue (loop_facts 3)) = Some b \<and>
    binding_matches two_rules ActionContinue (loop_facts 3) = as @ b # bs \<and>
    list_all (\<lambda>m. match_strictness m \<le> match_strictness b) bs"
proof -
  have "v_binding (Evaluate two_rules ActionContinue (loop_facts 3)) \<noteq> None"
    unfolding binding_None_iff using loop_rule_matches [of "''warn''" RequireAsk StageEnforce 2 3]
    by (auto simp: two_rules_def Enforced_def loop_rule_def)
  then obtain b where "v_binding (Evaluate two_rules ActionContinue (loop_facts 3)) = Some b" by blast
  from binding_first_strictest [OF this] this show ?thesis unfolding list_all_iff by blast
qed

text \<open>
  An action is refused exactly when some enforced rule for it requires deny and all its
  conditions hold; no other rule, wherever it stands in the list, can lift that.
\<close>

theorem refuses_iff_deny_applies:
  "Refuses (Evaluate rules a f) \<longleftrightarrow>
   (\<exists>r\<in>set rules. Enforced r \<and> q_kind (r_require r) = RequireDeny \<and> r_action r = a \<and> (\<forall>c\<in>set (r_when r). Holds c f))"
  unfolding Refuses_iff Rule_Match_iff by blast

lemma refuses_iff_deny_applies_witness:
  "Refuses (Evaluate two_rules ActionContinue (loop_facts 4)) \<and> \<not> Refuses (Evaluate two_rules ActionContinue (loop_facts 3))"
  unfolding refuses_iff_deny_applies
  by (simp add: two_rules_def loop_rule_def Enforced_def Holds_def holds_def loop_facts_def compare_def)

text \<open>
  C28: Rules combine as rungs of the authority ladder do: what the verdict allows is the lesser
  rung, by \<open>policy.Effective\<close>, of what every enforced matching rule allows.
\<close>

theorem verdict_is_effective:
  "verdict_authority (Evaluate rules a f) =
   foldl Effective Automatic (map (\<lambda>m. Require_Authority (r_require (m_rule m))) (binding_matches rules a f))"
  by (rule verdict_authority_meet)

text \<open>
  A boundary only ever tightens: with more rules, in any order, the verdict is at least as
  strict, and reordering the same rules does not change how strict it is.
\<close>

theorem rules_only_tighten:
  "set rules \<subseteq> set rules' \<Longrightarrow> verdict_strictness (Evaluate rules a f) \<le> verdict_strictness (Evaluate rules' a f)"
  by (rule verdict_strictness_mono)

lemma rules_only_tighten_witness:
  "verdict_strictness (Evaluate [two_rules ! 0] ActionContinue (loop_facts 5)) \<le>
   verdict_strictness (Evaluate two_rules ActionContinue (loop_facts 5))"
  by (rule rules_only_tighten) (simp add: two_rules_def)

text \<open>
  A shadow rule binds nothing: taking every shadow rule away leaves the binding match, and
  so what is refused and what is asked, as it was.
\<close>

theorem shadow_binds_nothing:
  "v_binding (Evaluate (filter Enforced rules) a f) = v_binding (Evaluate rules a f) \<and>
   Refuses (Evaluate (filter Enforced rules) a f) = Refuses (Evaluate rules a f) \<and>
   Asks (Evaluate (filter Enforced rules) a f) = Asks (Evaluate rules a f)"
  using binding_shadow_free by (simp add: Refuses_def Asks_def)

text \<open>
  An unknown figure never holds a rule: on facts nothing is known of, the only accepted
  rules that match are those without conditions.
\<close>

theorem unknown_figures_pass:
  assumes "unknown f" and "rule_ok r" and "Rule_Match r a f \<noteq> None"
  shows "r_when r = [] \<and> r_action r = a"
proof -
  have "\<forall>c\<in>set (r_when r). cond_ok c" using assms(2) by (simp add: rule_ok_def)
  then have "r_when r = []" using unknown_matches_bare [OF assms(1)] assms(3) by blast
  moreover have "r_action r = a" using assms(3) unfolding Rule_Match_iff by blast
  ultimately show ?thesis by blast
qed

lemma unknown_figures_pass_witness:
  "r_when \<lparr>r_name = ''all'', r_action = ActionShare, r_when = [], r_require = \<lparr>q_kind = RequireAsk, q_role = []\<rparr>,
     r_stage = StageEnforce, r_source = SourceLocal\<rparr> = [] \<and> Rule_Match (loop_rule ''stop'' RequireDeny StageEnforce 4) ActionContinue no_facts = None"
proof -
  let ?r = "\<lparr>r_name = ''all'', r_action = ActionShare, r_when = [], r_require = \<lparr>q_kind = RequireAsk, q_role = []\<rparr>,
     r_stage = StageEnforce, r_source = SourceLocal\<rparr>"
  have u: "unknown no_facts" by (simp add: unknown_def no_facts_def IsZero_def)
  have n: "ValidName ''all''" "ValidName ''stop''" by code_simp+
  have e: "\<not> ValidName []" by (simp add: ValidName_def)
  have "rule_ok ?r" using n e by (simp add: rule_ok_def fieldOrder_def)
  moreover have "Rule_Match ?r ActionShare no_facts \<noteq> None" unfolding Rule_Match_iff by simp
  moreover have "rule_ok (loop_rule ''stop'' RequireDeny StageEnforce 4)"
    using n e by (auto simp: rule_ok_def loop_rule_def cond_ok_def value_ok_def whole_in_def fieldOrder_def)
  moreover have "r_when (loop_rule ''stop'' RequireDeny StageEnforce 4) \<noteq> []" by (simp add: loop_rule_def)
  ultimately show ?thesis using unknown_figures_pass [OF u] by blast
qed

text \<open>
  What crossed a rule leaves the machine only as numbers and enumerations: each crossing
  names one of the nine figures, and the only word it can carry is one of the two
  destinations; and the workflow, the agent, the folder and the time do not reach it at all.
\<close>

theorem crossings_carry_no_names:
  assumes "Rule_Match r a f = Some m" and "rule_ok r"
  shows "(\<forall>x\<in>set (m_crossings m). x_field x \<in> set figure_fields \<and> x_destination x \<in> {[], DestinationTeam, DestinationOTel}) \<and>
    (Rule_Match r a (f\<lparr>fa_workflow := w, fa_agent := g, fa_folder := d, fa_now := t\<rparr>) = Some m' \<longrightarrow> m_crossings m' = m_crossings m)"
  using assms crossing_destination [OF assms(1)] crossings_private [OF assms(1)] by (auto simp: rule_ok_def)

lemma crossings_carry_no_names_witness:
  "\<exists>m m'. Rule_Match (loop_rule ''stop'' RequireDeny StageEnforce 4) ActionContinue (loop_facts 5) = Some m \<and>
    Rule_Match (loop_rule ''stop'' RequireDeny StageEnforce 4) ActionContinue
      ((loop_facts 5)\<lparr>fa_workflow := ''w'', fa_agent := ''a'', fa_folder := ''/d'', fa_now := \<lparr>t_ns = 0, t_off = 0\<rparr>\<rparr>) = Some m' \<and>
    m_crossings m' = m_crossings m \<and> list_all (\<lambda>x. x_destination x \<in> {[], DestinationTeam, DestinationOTel}) (m_crossings m)"
proof -
  let ?r = "loop_rule ''stop'' RequireDeny StageEnforce 4"
  let ?f = "(loop_facts 5)\<lparr>fa_workflow := ''w'', fa_agent := ''a'', fa_folder := ''/d'', fa_now := \<lparr>t_ns = 0, t_off = 0\<rparr>\<rparr>"
  have "ValidName ''stop''" by code_simp
  moreover have "\<not> ValidName []" by (simp add: ValidName_def)
  ultimately have ok: "rule_ok ?r"
    by (auto simp: rule_ok_def loop_rule_def cond_ok_def value_ok_def whole_in_def fieldOrder_def)
  have "Rule_Match ?r ActionContinue (loop_facts 5) \<noteq> None" unfolding loop_rule_matches by simp
  then obtain m where m: "Rule_Match ?r ActionContinue (loop_facts 5) = Some m" by blast
  have "Rule_Match ?r ActionContinue ?f \<noteq> None"
    unfolding Rule_Match_iff by (simp add: loop_rule_def Holds_def holds_def loop_facts_def compare_def)
  then obtain m' where m': "Rule_Match ?r ActionContinue ?f = Some m'" by blast
  show ?thesis using m m' crossings_carry_no_names [OF m ok] unfolding list_all_iff by blast
qed

text \<open>
  The budget a rule reads does not depend on the order Go visits the map of budgets in, and
  it is the fullest one, ties going to the name that sorts first.
\<close>

theorem budget_reading_order_free:
  assumes "\<forall>x\<in>set used. snd x \<noteq> NaN" and "distinct (map fst used)" and "distinct (map fst used')" and "set used' = set used"
  shows "budgetUsed used' name = budgetUsed used name \<and>
    (budgetUsed used [] = (v, n, True) \<longrightarrow> (n, v) \<in> set used \<and>
      (\<forall>(n', v')\<in>set used. \<not> f_lt v v' \<and> (v' = v \<longrightarrow> \<not> n' < n)))"
proof (intro conjI impI)
  show "budgetUsed used' name = budgetUsed used name" by (rule budgetUsed_order_free [OF assms])
  assume "budgetUsed used [] = (v, n, True)"
  note b = budgetUsed_fullest [OF assms(1) this]
  have "\<not> f_lt v v' \<and> (v' = v \<longrightarrow> \<not> n' < n)" if "(n', v') \<in> set used" for n' v'
  proof -
    have "\<not> fuller (n', v') (n, v)" "v' \<noteq> NaN" using b that assms(1) by auto
    then show ?thesis by (auto simp: fuller_def f_eq_def)
  qed
  with b show "(n, v) \<in> set used" "\<forall>(n', v')\<in>set used. \<not> f_lt v v' \<and> (v' = v \<longrightarrow> \<not> n' < n)" by blast+
qed

lemma budget_reading_order_free_witness:
  "budgetUsed [(''b'', Fin 90), (''a'', Fin 90), (''c'', Fin 20)] [] = budgetUsed [(''a'', Fin 90), (''b'', Fin 90), (''c'', Fin 20)] [] \<and>
   budgetUsed [(''a'', Fin 90), (''b'', Fin 90), (''c'', Fin 20)] [] = (Fin 90, ''a'', True) \<and> \<not> f_lt (Fin 90) (Fin 20)"
proof -
  let ?u = "[(''a'', Fin 90), (''b'', Fin 90), (''c'', Fin 20)]" and ?w = "[(''b'', Fin 90), (''a'', Fin 90), (''c'', Fin 20)]"
  have p: "\<forall>x\<in>set ?u. snd x \<noteq> NaN" "distinct (map fst ?u)" "distinct (map fst ?w)" "set ?w = set ?u" by auto
  have v: "budgetUsed ?u [] = (Fin 90, ''a'', True)" by code_simp
  from budget_reading_order_free [OF p] v show ?thesis by fastforce
qed

end
