(* ===== verification/Presence.thy ===== *)
theory Presence
  imports Boundaries
begin

text \<open>
  The presence check on approvals (\<open>internal/contexts/boundaries/presence\<close>): the statements a
  presence key signs and their exact bytes, the verifier of approvals and of grants, the
  modes, and which key is trusted. A message is its list of octets. Two things of Go's
  \<open>crypto/ecdsa\<close> are parameters: \<open>ecdsa\<close>, which says whether a signature over a digest is a
  key's, and \<open>point_ok\<close>, which says whether a raw point is a P-256 key. The lemmas say that a
  message determines every field it was made of and its kind, that the verifier accepts
  exactly the statements about the decision at hand, and when a replaced key is trusted.
\<close>

subsection \<open>Fields of a message\<close>

text \<open>\<open>writeField\<close>: the name, the length of the value in bytes, and the value, on a line.\<close>

definition writeField :: "string \<Rightarrow> string \<Rightarrow> string" where
  "writeField name value =
     name @ ''='' @ itoa (int (length value)) @ '':'' @ value @ [CHR 0x0A]"

definition write_fields :: "(string \<times> string) list \<Rightarrow> string" where
  "write_fields fs = concat (map (\<lambda>(n, v). writeField n v) fs)"

definition ApprovalDomain :: string where
  "ApprovalDomain = ''tokenops.approval/v1'' @ [CHR 0x0A]"

definition RotationDomain :: string where
  "RotationDomain = ''tokenops.presence-rotation/v1'' @ [CHR 0x0A]"

definition crossingsDomain :: string where
  "crossingsDomain = ''tokenops.crossings/v1'' @ [CHR 0x0A]"

definition GrantDomain :: string where
  "GrantDomain = ''tokenops.extra-allowance/v1'' @ [CHR 0x0A]"

definition EnrolmentDomain :: string where
  "EnrolmentDomain = ''tokenops.presence-enrolment/v1'' @ [CHR 0x0A]"

abbreviation Version :: int where "Version \<equiv> 1"

definition ScopeOnce :: string where "ScopeOnce = ''once''"
definition ScopeSession :: string where "ScopeSession = ''session''"

definition OnceTTL :: duration where "OnceTTL = 10 * minute"
definition SessionTTL :: duration where "SessionTTL = 24 * hour"
definition ReplacementHold :: duration where "ReplacementHold = 15 * minute"
definition clockSkew :: duration where "clockSkew = minute"
definition MaxGrant :: duration where "MaxGrant = 24 * hour"

datatype malformed = BadVersion int | BadScope string | EmptyField | BadTime | BadSpan

subsection \<open>Approvals\<close>

record proof_stmt =
  pf_v :: int
  pf_key :: string
  pf_decision :: string
  pf_rule :: string
  pf_session :: string
  pf_scope :: string
  pf_challenge :: string
  pf_crossed :: string
  pf_issued :: gotime
  pf_sig :: string

definition wholeUTC :: "gotime \<Rightarrow> bool" where
  "wholeUTC t \<longleftrightarrow> \<not> IsZero t \<and> nanosecond t = 0 \<and> t_off t = 0"

definition proof_fields :: "proof_stmt \<Rightarrow> (string \<times> string) list" where
  "proof_fields p =
     [(''key'', pf_key p), (''decision'', pf_decision p), (''rule'', pf_rule p), (''session'', pf_session p),
      (''scope'', pf_scope p), (''challenge'', pf_challenge p), (''crossed'', pf_crossed p),
      (''issued'', rfc3339 (UTC (pf_issued p)))]"

definition Message :: "proof_stmt \<Rightarrow> malformed + string" where
  "Message p =
     (if pf_v p \<noteq> Version then Inl (BadVersion (pf_v p))
      else if pf_scope p \<noteq> ScopeOnce \<and> pf_scope p \<noteq> ScopeSession then Inl (BadScope (pf_scope p))
      else if pf_key p = [] \<or> pf_decision p = [] \<or> pf_rule p = [] \<or> pf_challenge p = [] \<or> pf_crossed p = []
      then Inl EmptyField
      else if IsZero (pf_issued p) \<or> nanosecond (pf_issued p) \<noteq> 0 \<or> t_off (pf_issued p) \<noteq> 0 then Inl BadTime
      else Inr (ApprovalDomain @ write_fields (proof_fields p)))"

definition Fingerprint :: "proof_stmt \<Rightarrow> string" where
  "Fingerprint p = (case Message p of Inl _ \<Rightarrow> [] | Inr msg \<Rightarrow> hex_encode (take 16 (sha256 msg)))"

definition crossing_fields :: "crossing \<Rightarrow> (string \<times> string) list" where
  "crossing_fields c =
     [(''field'', field_text (x_field c)), (''op'', op_text (x_op c)), (''value'', fmt_g (x_value c)),
      (''threshold'', fmt_g (x_threshold c)), (''window'', window_text (x_window c)),
      (''destination'', x_destination c)]"

definition crossings_text :: "crossing list \<Rightarrow> string" where
  "crossings_text cs =
     crossingsDomain @ write_fields ((''n'', itoa (int (length cs))) # concat (map crossing_fields cs))"

definition CrossingsDigest :: "crossing list \<Rightarrow> string" where
  "CrossingsDigest cs = hex_encode (sha256 (crossings_text cs))"

subsection \<open>Keys\<close>

record presence_key =
  k_id :: string
  k_public :: "string option"
  k_raw :: string

definition KeyID :: "string \<Rightarrow> string" where
  "KeyID raw = ''pk-'' @ hex_encode (take 8 (sha256 raw))"

definition ParseKey :: "(string \<Rightarrow> bool) \<Rightarrow> string \<Rightarrow> presence_key option" where
  "ParseKey point_ok raw =
     (if point_ok raw then Some \<lparr>k_id = KeyID raw, k_public = Some raw, k_raw = raw\<rparr> else None)"

definition key_verify :: "(string \<Rightarrow> string \<Rightarrow> string \<Rightarrow> bool) \<Rightarrow> presence_key \<Rightarrow> string \<Rightarrow> string \<Rightarrow> bool" where
  "key_verify ecdsa k msg sg =
     (case k_public k of None \<Rightarrow> False | Some q \<Rightarrow> if sg = [] then False else ecdsa q (sha256 msg) sg)"

datatype trust_state = TrustNotEnrolled | TrustPinned | TrustHeld
datatype pin_how = PinEnrolled | PinRotated | PinReplaced | PinUnknown string

record pin =
  p_key_id :: string
  p_public_key :: string
  p_since :: gotime
  p_how :: pin_how
  p_hold_until :: gotime
  p_previous :: string

text \<open>Go's zero value.\<close>

definition no_pin :: pin where
  "no_pin = \<lparr>p_key_id = [], p_public_key = [], p_since = zero_time, p_how = PinUnknown [],
     p_hold_until = zero_time, p_previous = []\<rparr>"

record trust =
  tr_state :: trust_state
  tr_key :: presence_key
  tr_valid_from :: gotime
  tr_pin :: pin

subsection \<open>Verifying an approval\<close>

datatype reason = ReasonNone | ReasonNotEnrolled | ReasonUnsigned | ReasonMalformed | ReasonKeyHeld
  | ReasonWrongKey | ReasonDecision | ReasonRule | ReasonSession | ReasonScope | ReasonChallenge
  | ReasonCrossings | ReasonSignature | ReasonBeforeKey | ReasonFuture | ReasonExpired | ReasonSpent
  | ReasonKeyUnreadable | ReasonGrantAltered

fun Phrase :: "reason \<Rightarrow> string" where
  "Phrase ReasonNone = ''signed by the enrolled presence key''"
| "Phrase ReasonNotEnrolled = ''no presence key is enrolled on this machine''"
| "Phrase ReasonUnsigned = ''the answer carries no presence signature''"
| "Phrase ReasonMalformed = ''the answer's presence statement is malformed''"
| "Phrase ReasonKeyHeld = ''the presence key was replaced without the old key's signature and approvals are held''"
| "Phrase ReasonWrongKey = ''it was signed by a key other than the enrolled one''"
| "Phrase ReasonDecision = ''it was signed for another decision''"
| "Phrase ReasonRule = ''it was signed for another rule''"
| "Phrase ReasonSession = ''it was signed for another session''"
| "Phrase ReasonScope = ''it was signed for another scope''"
| "Phrase ReasonChallenge = ''it answers an earlier raising of this decision''"
| "Phrase ReasonCrossings = ''the crossings it records are not the ones signed''"
| "Phrase ReasonSignature = ''the signature does not verify''"
| "Phrase ReasonBeforeKey = ''it was issued before the current key was trusted''"
| "Phrase ReasonFuture = ''it says it was issued in the future''"
| "Phrase ReasonExpired = ''it has expired''"
| "Phrase ReasonSpent = ''this one-step approval was already used''"
| "Phrase ReasonKeyUnreadable = ''the presence key store could not be read''"
| "Phrase ReasonGrantAltered = ''the grant's end time, start, granter or reason are not the ones signed''"

record expect =
  e_decision :: string
  e_rule :: string
  e_session :: string
  e_scope :: string
  e_challenge :: string
  e_crossings :: "crossing list"
  e_now :: gotime
  e_spent :: "(string \<Rightarrow> bool) option"

record vresult =
  vr_reason :: reason
  vr_key_id :: string

definition vresult_OK :: "vresult \<Rightarrow> bool" where
  "vresult_OK r \<longleftrightarrow> vr_reason r = ReasonNone"

definition firstMismatch :: "proof_stmt \<Rightarrow> expect \<Rightarrow> trust \<Rightarrow> reason" where
  "firstMismatch p e t =
     (if (case Message p of Inl _ \<Rightarrow> True | Inr _ \<Rightarrow> False) then ReasonMalformed
      else if tr_state t = TrustHeld then ReasonKeyHeld
      else if pf_key p \<noteq> k_id (tr_key t) then ReasonWrongKey
      else if pf_decision p \<noteq> e_decision e then ReasonDecision
      else if pf_rule p \<noteq> e_rule e then ReasonRule
      else if pf_session p \<noteq> e_session e then ReasonSession
      else if pf_scope p \<noteq> e_scope e then ReasonScope
      else if e_challenge e = [] \<or> pf_challenge p \<noteq> e_challenge e then ReasonChallenge
      else if pf_crossed p \<noteq> CrossingsDigest (e_crossings e) then ReasonCrossings
      else ReasonNone)"

definition timing :: "proof_stmt \<Rightarrow> expect \<Rightarrow> trust \<Rightarrow> reason" where
  "timing p e t =
     (let now = UTC (e_now e); ttl = (if pf_scope p = ScopeSession then SessionTTL else OnceTTL)
      in if Before (pf_issued p) (truncate_second (tr_valid_from t)) then ReasonBeforeKey
         else if After (pf_issued p) (Add now clockSkew) then ReasonFuture
         else if ttl < Sub now (pf_issued p) then ReasonExpired
         else if pf_scope p = ScopeOnce \<and>
                 (case e_spent e of None \<Rightarrow> False | Some spent \<Rightarrow> spent (Fingerprint p)) then ReasonSpent
         else ReasonNone)"

definition Verify :: "(string \<Rightarrow> string \<Rightarrow> string \<Rightarrow> bool) \<Rightarrow> proof_stmt option \<Rightarrow> expect \<Rightarrow> trust \<Rightarrow> vresult" where
  "Verify ecdsa p e t =
     (if tr_state t = TrustNotEnrolled then \<lparr>vr_reason = ReasonNotEnrolled, vr_key_id = []\<rparr>
      else case p of
             None \<Rightarrow> \<lparr>vr_reason = ReasonUnsigned, vr_key_id = []\<rparr>
           | Some p \<Rightarrow>
               \<lparr>vr_reason =
                  (if firstMismatch p e t \<noteq> ReasonNone then firstMismatch p e t
                   else if \<not> key_verify ecdsa (tr_key t) (case Message p of Inl _ \<Rightarrow> [] | Inr m \<Rightarrow> m) (pf_sig p)
                   then ReasonSignature
                   else timing p e t),
                vr_key_id = pf_key p\<rparr>)"

subsection \<open>Grants\<close>

record grant_stmt =
  g_v :: int
  g_key :: string
  g_id :: string
  g_rules :: "string list"
  g_granter :: string
  g_why :: string
  g_at :: gotime
  g_until :: gotime
  g_sig :: string

definition grant_fields :: "grant_stmt \<Rightarrow> (string \<times> string) list" where
  "grant_fields g =
     [(''key'', g_key g), (''id'', g_id g), (''rules'', itoa (int (length (g_rules g))))] @
     map (\<lambda>r. (''rule'', r)) (g_rules g) @
     [(''granter'', g_granter g), (''why'', g_why g), (''at'', rfc3339 (g_at g)), (''until'', rfc3339 (g_until g))]"

definition Grant_Message :: "grant_stmt \<Rightarrow> malformed + string" where
  "Grant_Message g =
     (if g_v g \<noteq> Version then Inl (BadVersion (g_v g))
      else if g_key g = [] \<or> g_id g = [] \<or> g_granter g = [] \<or> g_rules g = [] \<or> [] \<in> set (g_rules g) then Inl EmptyField
      else if \<not> wholeUTC (g_at g) \<or> \<not> wholeUTC (g_until g) then Inl BadTime
      else if \<not> After (g_until g) (g_at g) \<or> MaxGrant < Sub (g_until g) (g_at g) then Inl BadSpan
      else Inr (GrantDomain @ write_fields (grant_fields g)))"

record grant_expect =
  ge_id :: string
  ge_rules :: "string list"
  ge_granter :: string
  ge_why :: string
  ge_at :: gotime
  ge_until :: gotime
  ge_now :: gotime

definition VerifyGrant :: "(string \<Rightarrow> string \<Rightarrow> string \<Rightarrow> bool) \<Rightarrow> grant_stmt option \<Rightarrow> grant_expect \<Rightarrow> trust \<Rightarrow> vresult" where
  "VerifyGrant ecdsa g e t =
     (if tr_state t = TrustNotEnrolled then \<lparr>vr_reason = ReasonNotEnrolled, vr_key_id = []\<rparr>
      else case g of
             None \<Rightarrow> \<lparr>vr_reason = ReasonUnsigned, vr_key_id = []\<rparr>
           | Some g \<Rightarrow>
               \<lparr>vr_reason =
                  (case Grant_Message g of
                     Inl _ \<Rightarrow> ReasonMalformed
                   | Inr msg \<Rightarrow>
                       if tr_state t = TrustHeld then ReasonKeyHeld
                       else if g_key g \<noteq> k_id (tr_key t) then ReasonWrongKey
                       else if g_id g \<noteq> ge_id e then ReasonDecision
                       else if g_rules g \<noteq> ge_rules e then ReasonRule
                       else if g_granter g \<noteq> ge_granter e \<or> g_why g \<noteq> ge_why e \<or>
                               \<not> Equal (g_at g) (ge_at e) \<or> \<not> Equal (g_until g) (ge_until e) then ReasonGrantAltered
                       else if \<not> key_verify ecdsa (tr_key t) msg (g_sig g) then ReasonSignature
                       else if Before (g_at g) (truncate_second (tr_valid_from t)) then ReasonBeforeKey
                       else if After (g_at g) (Add (UTC (ge_now e)) clockSkew) then ReasonFuture
                       else if \<not> Before (ge_now e) (g_until g) then ReasonExpired
                       else ReasonNone),
                vr_key_id = g_key g\<rparr>)"

subsection \<open>Modes, enrolment and routing\<close>

datatype mode = ModeChannel | ModePresence | ModeStrict

definition ParseMode :: "string \<Rightarrow> string + mode" where
  "ParseMode s =
     (let m = to_lower (trim_space s)
      in if m = [] \<or> m = ''channel'' then Inr ModeChannel
         else if m = ''presence'' then Inr ModePresence
         else if m = ''presence-strict'' then Inr ModeStrict
         else Inl s)"

definition mode_Enforced :: "mode \<Rightarrow> bool" where
  "mode_Enforced m \<longleftrightarrow> m = ModePresence \<or> m = ModeStrict"

definition mode_Strict :: "mode \<Rightarrow> bool" where
  "mode_Strict m \<longleftrightarrow> m = ModeStrict"

definition enrolment_fields :: "string \<Rightarrow> string \<Rightarrow> string \<Rightarrow> gotime \<Rightarrow> (string \<times> string) list" where
  "enrolment_fields key machine user t =
     [(''key'', key), (''machine'', machine), (''user'', user), (''at'', rfc3339 (truncate_second (UTC t)))]"

definition EnrolmentMessage :: "string \<Rightarrow> string \<Rightarrow> string \<Rightarrow> gotime \<Rightarrow> string" where
  "EnrolmentMessage key machine user t = EnrolmentDomain @ write_fields (enrolment_fields key machine user t)"

definition VerifyEnrolment ::
  "(string \<Rightarrow> string \<Rightarrow> string \<Rightarrow> bool) \<Rightarrow> presence_key \<Rightarrow> string \<Rightarrow> string \<Rightarrow> gotime \<Rightarrow> string \<Rightarrow> bool" where
  "VerifyEnrolment ecdsa k machine user t sg = key_verify ecdsa k (EnrolmentMessage (k_id k) machine user t) sg"

record rotation =
  rt_from :: string
  rt_to :: string
  rt_at :: gotime
  rt_sig :: string

definition rotation_fields :: "string \<Rightarrow> string \<Rightarrow> gotime \<Rightarrow> (string \<times> string) list" where
  "rotation_fields from_id to_id t =
     [(''from'', from_id), (''to'', to_id), (''at'', rfc3339 (truncate_second (UTC t)))]"

definition RotationMessage :: "string \<Rightarrow> string \<Rightarrow> gotime \<Rightarrow> string" where
  "RotationMessage from_id to_id t =
     RotationDomain @ write_fields (rotation_fields from_id to_id t)"

definition VerifyRotation :: "(string \<Rightarrow> string \<Rightarrow> string \<Rightarrow> bool) \<Rightarrow> presence_key \<Rightarrow> rotation \<Rightarrow> bool" where
  "VerifyRotation ecdsa old r = key_verify ecdsa old (RotationMessage (rt_from r) (rt_to r) (rt_at r)) (rt_sig r)"

definition RoutingRule :: string where "RoutingRule = ''routing-upgrade''"

text \<open>\<open>RFC3339Nano\<close> of a UTC time: the fraction without its trailing zeros.\<close>

definition rfc3339_nano :: "gotime \<Rightarrow> string" where
  "rfc3339_nano t =
     (if nanosecond t = 0 then rfc3339 t
      else butlast (rfc3339 t) @ ''.'' @
           rev (dropWhile (\<lambda>c. c = CHR ''0'') (rev (pad_int 9 (nanosecond t)))) @ ''Z'')"

definition RoutingChallenge :: "string \<Rightarrow> gotime \<Rightarrow> string" where
  "RoutingChallenge key raised_at =
     hex_encode (take 16 (sha256 (''tokenops.routing-challenge/v1'' @ [CHR 0x0A] @ key @ [CHR 0x0A] @
       rfc3339_nano (UTC raised_at))))"

definition RoutingExpect :: "string \<Rightarrow> gotime \<Rightarrow> gotime \<Rightarrow> expect" where
  "RoutingExpect key raised_at now =
     \<lparr>e_decision = key, e_rule = RoutingRule, e_session = [], e_scope = ScopeSession,
      e_challenge = RoutingChallenge key raised_at, e_crossings = [], e_now = now, e_spent = None\<rparr>"

subsection \<open>Which key is trusted\<close>

definition trustOf :: "presence_key \<Rightarrow> pin \<Rightarrow> gotime \<Rightarrow> trust" where
  "trustOf k p now =
     (if IsZero (p_hold_until p) then \<lparr>tr_state = TrustPinned, tr_key = k, tr_valid_from = p_since p, tr_pin = p\<rparr>
      else \<lparr>tr_state = (if Before now (p_hold_until p) then TrustHeld else TrustPinned),
            tr_key = k, tr_valid_from = p_hold_until p, tr_pin = p\<rparr>)"

definition rotatedBy ::
  "(string \<Rightarrow> bool) \<Rightarrow> (string \<Rightarrow> string \<Rightarrow> string \<Rightarrow> bool) \<Rightarrow> pin \<Rightarrow> string \<Rightarrow> rotation option \<Rightarrow> bool" where
  "rotatedBy point_ok ecdsa prev to_id rot =
     (case rot of
        None \<Rightarrow> False
      | Some rot \<Rightarrow>
          if rt_from rot \<noteq> p_key_id prev \<or> rt_to rot \<noteq> to_id \<or> IsZero (rt_at rot) then False
          else case ParseKey point_ok (p_public_key prev) of
                 None \<Rightarrow> False
               | Some old \<Rightarrow>
                   k_id old = p_key_id prev \<and>
                   key_verify ecdsa old (RotationMessage (rt_from rot) (rt_to rot) (rt_at rot)) (rt_sig rot))"

text \<open>The trust, the pin to record, and whether it must be written.\<close>

definition Reconcile ::
  "(string \<Rightarrow> bool) \<Rightarrow> (string \<Rightarrow> string \<Rightarrow> string \<Rightarrow> bool) \<Rightarrow> presence_key option \<Rightarrow> rotation option \<Rightarrow> pin option \<Rightarrow>
   gotime \<Rightarrow> trust \<times> pin \<times> bool" where
  "Reconcile point_ok ecdsa file rot prev now0 =
     (let now = UTC now0
      in case file of
           None \<Rightarrow>
             let keep = (case prev of Some p \<Rightarrow> p | None \<Rightarrow> no_pin)
             in (\<lparr>tr_state = TrustNotEnrolled, tr_key = \<lparr>k_id = [], k_public = None, k_raw = []\<rparr>,
                  tr_valid_from = zero_time, tr_pin = keep\<rparr>, keep, False)
         | Some k \<Rightarrow>
             if (case prev of Some p \<Rightarrow> p_key_id p = k_id k \<and> p_public_key p = k_raw k | None \<Rightarrow> False)
             then (trustOf k (the prev) now, the prev, False)
             else
               let next = \<lparr>p_key_id = k_id k, p_public_key = k_raw k, p_since = now, p_how = PinEnrolled,
                           p_hold_until = zero_time, p_previous = []\<rparr>;
                   next = (case prev of
                             None \<Rightarrow> next
                           | Some p \<Rightarrow>
                               if p_key_id p = [] then next
                               else let next = next\<lparr>p_previous := p_key_id p\<rparr>
                                    in if rotatedBy point_ok ecdsa p (k_id k) rot
                                       then next\<lparr>p_how := PinRotated, p_since := truncate_second (UTC (rt_at (the rot)))\<rparr>
                                       else next\<lparr>p_how := PinReplaced, p_hold_until := Add now ReplacementHold\<rparr>)
               in (trustOf k next now, next, True))"

subsection \<open>A message determines its fields\<close>

lemma colon_stop: "\<forall>c\<in>set (dec_str n). is_digit c" "\<not> is_digit (CHR '':'')"
  using dec_str_digits by (auto simp: is_digit_def)

lemma dec_colon_inj:
  assumes "0 \<le> m" "0 \<le> n" and eq: "dec_str m @ CHR '':'' # s = dec_str n @ CHR '':'' # t"
  shows "m = n \<and> s = t"
proof -
  have "takeWhile is_digit (dec_str m @ CHR '':'' # s) = dec_str m" "takeWhile is_digit (dec_str n @ CHR '':'' # t) = dec_str n"
    using colon_stop by (intro takeWhile_append_stop; blast)+
  with eq have d: "dec_str m = dec_str n" by simp
  with assms have "m = n" using dec_str_inj by blast
  moreover have "s = t" using eq d by simp
  ultimately show ?thesis by blast
qed

lemma writeField_inj: "writeField n v @ s = writeField n v' @ s' \<longleftrightarrow> v = v' \<and> s = s'"
proof
  assume "writeField n v @ s = writeField n v' @ s'"
  then have "dec_str (int (length v)) @ CHR '':'' # (v @ CHR 0x0A # s) = dec_str (int (length v')) @ CHR '':'' # (v' @ CHR 0x0A # s')"
    by (simp add: writeField_def itoa_def)
  then have "int (length v) = int (length v') \<and> v @ CHR 0x0A # s = v' @ CHR 0x0A # s'" by (intro dec_colon_inj) auto
  then have "length v = length v'" "v @ CHR 0x0A # s = v' @ CHR 0x0A # s'" by auto
  then show "v = v' \<and> s = s'" using append_eq_append_conv [of v v'] by blast
qed simp

lemma write_fields_simps [simp]:
  "write_fields [] = []" "write_fields ((n, v) # fs) = writeField n v @ write_fields fs"
  "write_fields (fs @ gs) = write_fields fs @ write_fields gs"
  by (simp_all add: write_fields_def)

lemma write_fields_inj:
  "map fst fs = map fst gs \<Longrightarrow> write_fields fs @ s = write_fields gs @ s' \<longleftrightarrow> fs = gs \<and> s = s'"
proof (induction fs arbitrary: gs)
  case (Cons f fs)
  obtain n v where f: "f = (n, v)" by (cases f)
  with Cons.prems obtain v' gs' where gs: "gs = (n, v') # gs'" and "map fst fs = map fst gs'" by (cases gs) auto
  then show ?case using Cons.IH [of gs'] writeField_inj [of n v _ v'] by (auto simp: f)
qed simp

lemma write_fields_eq: "map fst fs = map fst gs \<Longrightarrow> write_fields fs = write_fields gs \<Longrightarrow> fs = gs"
  using write_fields_inj [of fs gs "[]" "[]"] by simp

subsection \<open>Signed statements\<close>

text \<open>
  The contract of a kind of statement: every message it encodes starts with its domain, and
  determines what was encoded. Two kinds whose domains are apart never share a message.
\<close>

locale signed_statement =
  fixes domain :: string and encode :: "'a \<Rightarrow> string option" and same :: "'a \<Rightarrow> 'a \<Rightarrow> bool"
  assumes framed: "encode x = Some m \<Longrightarrow> prefix domain m"
    and determined: "encode x = Some m \<Longrightarrow> encode y = Some m \<Longrightarrow> same x y"
begin

lemma signed_apart: "encode x = Some m \<Longrightarrow> encode y = Some m' \<Longrightarrow> \<not> same x y \<Longrightarrow> m \<noteq> m'"
  using determined by blast

end

locale two_statements = one: signed_statement d1 enc1 same1 + two: signed_statement d2 enc2 same2
  for d1 :: string and enc1 :: "'a \<Rightarrow> string option" and same1 and d2 :: string
    and enc2 :: "'b \<Rightarrow> string option" and same2 +
  assumes apart: "\<not> prefix d1 d2" "\<not> prefix d2 d1"
begin

lemma never_shared: "enc1 x = Some m \<Longrightarrow> enc2 y \<noteq> Some m"
  using one.framed two.framed apart prefix_same_cases by blast

end

definition to_option :: "'e + 'a \<Rightarrow> 'a option" where
  "to_option r = (case r of Inl _ \<Rightarrow> None | Inr x \<Rightarrow> Some x)"

lemma to_option_Some [simp]: "to_option r = Some x \<longleftrightarrow> r = Inr x"
  by (cases r) (auto simp: to_option_def)

text \<open>The statements an approval, a grant, a rotation and an enrolment make.\<close>

definition same_approval :: "proof_stmt \<Rightarrow> proof_stmt \<Rightarrow> bool" where
  "same_approval p q \<longleftrightarrow>
     pf_key p = pf_key q \<and> pf_decision p = pf_decision q \<and> pf_rule p = pf_rule q \<and> pf_session p = pf_session q \<and>
     pf_scope p = pf_scope q \<and> pf_challenge p = pf_challenge q \<and> pf_crossed p = pf_crossed q \<and>
     t_ns (pf_issued p) = t_ns (pf_issued q)"

definition same_grant :: "grant_stmt \<Rightarrow> grant_stmt \<Rightarrow> bool" where
  "same_grant g h \<longleftrightarrow>
     g_key g = g_key h \<and> g_id g = g_id h \<and> g_rules g = g_rules h \<and> g_granter g = g_granter h \<and> g_why g = g_why h \<and>
     t_ns (g_at g) = t_ns (g_at h) \<and> t_ns (g_until g) = t_ns (g_until h)"

definition same_rotation :: "string \<times> string \<times> gotime \<Rightarrow> string \<times> string \<times> gotime \<Rightarrow> bool" where
  "same_rotation r s \<longleftrightarrow> (case (r, s) of ((f, t, w), (f', t', w')) \<Rightarrow>
     f = f' \<and> t = t' \<and> t_ns w div second = t_ns w' div second)"

definition same_enrolment :: "string \<times> string \<times> string \<times> gotime \<Rightarrow> string \<times> string \<times> string \<times> gotime \<Rightarrow> bool" where
  "same_enrolment r s \<longleftrightarrow> (case (r, s) of ((k, m, u, w), (k', m', u', w')) \<Rightarrow>
     k = k' \<and> m = m' \<and> u = u' \<and> t_ns w div second = t_ns w' div second)"

lemma Message_Inr:
  "Message p = Inr m \<Longrightarrow>
   m = ApprovalDomain @ write_fields (proof_fields p) \<and> t_off (pf_issued p) = 0 \<and> nanosecond (pf_issued p) = 0 \<and>
   (pf_scope p = ScopeOnce \<or> pf_scope p = ScopeSession) \<and> pf_decision p \<noteq> [] \<and> pf_rule p \<noteq> [] \<and> pf_challenge p \<noteq> []"
  by (auto simp: Message_def split: if_splits)

lemma Grant_Message_Inr:
  "Grant_Message g = Inr m \<Longrightarrow>
   m = GrantDomain @ write_fields (grant_fields g) \<and> wholeUTC (g_at g) \<and> wholeUTC (g_until g) \<and> g_rules g \<noteq> [] \<and>
   After (g_until g) (g_at g) \<and> Sub (g_until g) (g_at g) \<le> MaxGrant"
  by (auto simp: Grant_Message_def split: if_splits)

lemma proof_fields_names: "map fst (proof_fields p) = map fst (proof_fields q)"
  by (simp add: proof_fields_def)

lemma UTC_idle: "t_off t = 0 \<Longrightarrow> UTC t = t"
  by (simp add: UTC_def)

lemma truncate_UTC: "t_off (truncate_second (UTC t)) = 0" "t_ns (truncate_second (UTC t)) = t_ns t div second * second"
  by (simp_all add: truncate_second_def minus_mod_eq_div_mult)

lemma truncated_inj:
  assumes "rfc3339 (truncate_second (UTC a)) = rfc3339 (truncate_second (UTC b))"
  shows "t_ns a div second = t_ns b div second"
  using rfc3339_inj [OF assms] by (simp add: truncate_UTC)

interpretation approval: signed_statement ApprovalDomain "\<lambda>p. to_option (Message p)" same_approval
proof
  fix p m
  assume "to_option (Message p) = Some m"
  then have "m = ApprovalDomain @ write_fields (proof_fields p)" using Message_Inr by simp
  then show "prefix ApprovalDomain m" by simp
next
  fix p q m
  assume "to_option (Message p) = Some m" "to_option (Message q) = Some m"
  then have p: "m = ApprovalDomain @ write_fields (proof_fields p)" "t_off (pf_issued p) = 0" "nanosecond (pf_issued p) = 0"
    and q: "m = ApprovalDomain @ write_fields (proof_fields q)" "t_off (pf_issued q) = 0" "nanosecond (pf_issued q) = 0"
    using Message_Inr by auto
  have "write_fields (proof_fields p) = write_fields (proof_fields q)" using p(1) q(1) by simp
  then have f: "proof_fields p = proof_fields q" using write_fields_eq proof_fields_names by blast
  then have "rfc3339 (pf_issued p) = rfc3339 (pf_issued q)" using p q by (simp add: proof_fields_def UTC_idle)
  then have "t_ns (pf_issued p) = t_ns (pf_issued q)" using rfc3339_inj p q by blast
  with f show "same_approval p q" by (simp add: proof_fields_def same_approval_def)
qed

lemma grant_fields_eq:
  assumes "write_fields (grant_fields g) = write_fields (grant_fields h)"
  shows "grant_fields g = grant_fields h"
proof -
  let ?a = "\<lambda>g. [(''key'', g_key g), (''id'', g_id g), (''rules'', itoa (int (length (g_rules g))))]"
  let ?b = "\<lambda>g. map (\<lambda>r. (''rule'', r)) (g_rules g) @
     [(''granter'', g_granter g), (''why'', g_why g), (''at'', rfc3339 (g_at g)), (''until'', rfc3339 (g_until g))]"
  have "write_fields (?a g) @ write_fields (?b g) = write_fields (?a h) @ write_fields (?b h)"
    using assms by (simp add: grant_fields_def)
  then have ab: "?a g = ?a h" "write_fields (?b g) = write_fields (?b h)"
    using write_fields_inj [of "?a g" "?a h"] by simp_all
  from ab(1) have "int (length (g_rules g)) = int (length (g_rules h))"
    using dec_str_inj [of "int (length (g_rules g))" "int (length (g_rules h))"] by (simp add: itoa_def)
  then have "map fst (?b g) = map fst (?b h)" by (simp add: comp_def map_replicate_const)
  then have "?b g = ?b h" using ab(2) write_fields_eq by blast
  with ab(1) show ?thesis by (simp add: grant_fields_def)
qed

interpretation grant: signed_statement GrantDomain "\<lambda>g. to_option (Grant_Message g)" same_grant
proof
  fix g m
  assume "to_option (Grant_Message g) = Some m"
  then have "m = GrantDomain @ write_fields (grant_fields g)" using Grant_Message_Inr by simp
  then show "prefix GrantDomain m" by simp
next
  fix g h m
  assume "to_option (Grant_Message g) = Some m" "to_option (Grant_Message h) = Some m"
  then have g: "m = GrantDomain @ write_fields (grant_fields g)" "wholeUTC (g_at g)" "wholeUTC (g_until g)"
    and h: "m = GrantDomain @ write_fields (grant_fields h)" "wholeUTC (g_at h)" "wholeUTC (g_until h)"
    using Grant_Message_Inr by auto
  have "write_fields (grant_fields g) = write_fields (grant_fields h)" using g(1) h(1) by simp
  then have f: "grant_fields g = grant_fields h" by (rule grant_fields_eq)
  then have l: "length (g_rules g) = length (g_rules h)" using map_eq_imp_length_eq [of "Pair ''rule''" "g_rules g"]
    by (auto simp: grant_fields_def dest: map_eq_imp_length_eq)
  with f have "map (Pair ''rule'') (g_rules g) = map (Pair ''rule'') (g_rules h)"
    and r: "rfc3339 (g_at g) = rfc3339 (g_at h)" "rfc3339 (g_until g) = rfc3339 (g_until h)"
    "g_key g = g_key h" "g_id g = g_id h" "g_granter g = g_granter h" "g_why g = g_why h"
    by (simp_all add: grant_fields_def)
  then have "g_rules g = g_rules h" using inj_map_eq_map [of "Pair ''rule''"] by (simp add: inj_def)
  moreover have "t_ns (g_at g) = t_ns (g_at h)" "t_ns (g_until g) = t_ns (g_until h)"
    using rfc3339_inj [OF r(1)] rfc3339_inj [OF r(2)] g(2,3) h(2,3) by (simp_all add: wholeUTC_def)
  ultimately show "same_grant g h" using r by (simp add: same_grant_def)
qed

interpretation rotations: signed_statement RotationDomain "\<lambda>(f, t, w). Some (RotationMessage f t w)" same_rotation
proof
  fix r s m
  assume r: "(\<lambda>(f, t, w). Some (RotationMessage f t w)) r = Some m" and s: "(\<lambda>(f, t, w). Some (RotationMessage f t w)) s = Some m"
  obtain f t w f' t' w' where c: "r = (f, t, w)" "s = (f', t', w')" by (metis prod_cases3)
  with r s have "RotationMessage f t w = RotationMessage f' t' w'" by simp
  then have "write_fields (rotation_fields f t w) = write_fields (rotation_fields f' t' w')"
    unfolding RotationMessage_def by simp
  moreover have "map fst (rotation_fields f t w) = map fst (rotation_fields f' t' w')" by (simp add: rotation_fields_def)
  ultimately have "rotation_fields f t w = rotation_fields f' t' w'" using write_fields_eq by blast
  then have "f = f'" "t = t'" "rfc3339 (truncate_second (UTC w)) = rfc3339 (truncate_second (UTC w'))"
    by (simp_all add: rotation_fields_def)
  moreover from this have "t_ns w div second = t_ns w' div second" by (blast intro: truncated_inj)
  ultimately show "same_rotation r s" by (simp add: same_rotation_def c)
qed (auto simp: RotationMessage_def)

interpretation enrolment: signed_statement EnrolmentDomain "\<lambda>(k, m, u, w). Some (EnrolmentMessage k m u w)" same_enrolment
proof
  fix r s m
  assume r: "(\<lambda>(k, m, u, w). Some (EnrolmentMessage k m u w)) r = Some m"
    and s: "(\<lambda>(k, m, u, w). Some (EnrolmentMessage k m u w)) s = Some m"
  obtain k mm u w k' mm' u' w' where c: "r = (k, mm, u, w)" "s = (k', mm', u', w')" by (metis prod_cases4)
  with r s have "EnrolmentMessage k mm u w = EnrolmentMessage k' mm' u' w'" by simp
  then have "write_fields (enrolment_fields k mm u w) = write_fields (enrolment_fields k' mm' u' w')"
    unfolding EnrolmentMessage_def by simp
  moreover have "map fst (enrolment_fields k mm u w) = map fst (enrolment_fields k' mm' u' w')"
    by (simp add: enrolment_fields_def)
  ultimately have "enrolment_fields k mm u w = enrolment_fields k' mm' u' w'" using write_fields_eq by blast
  then have "k = k'" "mm = mm'" "u = u'" "rfc3339 (truncate_second (UTC w)) = rfc3339 (truncate_second (UTC w'))"
    by (simp_all add: enrolment_fields_def)
  moreover from this have "t_ns w div second = t_ns w' div second" by (blast intro: truncated_inj)
  ultimately show "same_enrolment r s" by (simp add: same_enrolment_def c)
qed (auto simp: EnrolmentMessage_def)

lemmas domains = ApprovalDomain_def GrantDomain_def RotationDomain_def EnrolmentDomain_def crossingsDomain_def

interpretation approval_grant: two_statements ApprovalDomain "\<lambda>p. to_option (Message p)" same_approval
    GrantDomain "\<lambda>g. to_option (Grant_Message g)" same_grant
  by unfold_locales (simp_all add: domains)

interpretation approval_rotation: two_statements ApprovalDomain "\<lambda>p. to_option (Message p)" same_approval
    RotationDomain "\<lambda>(f, t, w). Some (RotationMessage f t w)" same_rotation
  by unfold_locales (simp_all add: domains)

interpretation approval_enrolment: two_statements ApprovalDomain "\<lambda>p. to_option (Message p)" same_approval
    EnrolmentDomain "\<lambda>(k, m, u, w). Some (EnrolmentMessage k m u w)" same_enrolment
  by unfold_locales (simp_all add: domains)

interpretation grant_rotation: two_statements GrantDomain "\<lambda>g. to_option (Grant_Message g)" same_grant
    RotationDomain "\<lambda>(f, t, w). Some (RotationMessage f t w)" same_rotation
  by unfold_locales (simp_all add: domains)

interpretation grant_enrolment: two_statements GrantDomain "\<lambda>g. to_option (Grant_Message g)" same_grant
    EnrolmentDomain "\<lambda>(k, m, u, w). Some (EnrolmentMessage k m u w)" same_enrolment
  by unfold_locales (simp_all add: domains)

subsection \<open>What the verifier accepts\<close>

definition approval_about :: "proof_stmt \<Rightarrow> expect \<Rightarrow> bool" where
  "approval_about p e \<longleftrightarrow>
     pf_decision p = e_decision e \<and> pf_rule p = e_rule e \<and> pf_session p = e_session e \<and> pf_scope p = e_scope e \<and>
     e_challenge e \<noteq> [] \<and> pf_challenge p = e_challenge e \<and> pf_crossed p = CrossingsDigest (e_crossings e)"

definition approval_timely :: "proof_stmt \<Rightarrow> expect \<Rightarrow> trust \<Rightarrow> bool" where
  "approval_timely p e t \<longleftrightarrow>
     t_ns (truncate_second (tr_valid_from t)) \<le> t_ns (pf_issued p) \<and>
     t_ns (pf_issued p) \<le> t_ns (e_now e) + clockSkew \<and>
     t_ns (e_now e) - t_ns (pf_issued p) \<le> (if pf_scope p = ScopeSession then SessionTTL else OnceTTL) \<and>
     \<not> (pf_scope p = ScopeOnce \<and> (case e_spent e of None \<Rightarrow> False | Some spent \<Rightarrow> spent (Fingerprint p)))"

lemma ttl_small: "\<bar>OnceTTL\<bar> < 2 ^ 62" "\<bar>SessionTTL\<bar> < 2 ^ 62" "\<bar>MaxGrant\<bar> < 2 ^ 62"
  by (simp_all add: OnceTTL_def SessionTTL_def MaxGrant_def)

lemma timing_iff: "timing p e t = ReasonNone \<longleftrightarrow> approval_timely p e t"
proof -
  have "\<bar>if pf_scope p = ScopeSession then SessionTTL else OnceTTL\<bar> < 2 ^ 62" using ttl_small by simp
  from Sub_gt [OF this] show ?thesis
    unfolding timing_def approval_timely_def Let_def by (auto simp: Before_def After_def)
qed

lemma firstMismatch_iff:
  "firstMismatch p e t = ReasonNone \<longleftrightarrow>
   (\<exists>m. Message p = Inr m) \<and> tr_state t \<noteq> TrustHeld \<and> pf_key p = k_id (tr_key t) \<and> approval_about p e"
  by (cases "Message p") (auto simp: firstMismatch_def approval_about_def)

lemma Verify_OK_iff:
  "vresult_OK (Verify ecdsa po e t) \<longleftrightarrow>
   (\<exists>p m. po = Some p \<and> Message p = Inr m \<and> tr_state t = TrustPinned \<and> pf_key p = k_id (tr_key t) \<and>
     approval_about p e \<and> key_verify ecdsa (tr_key t) m (pf_sig p) \<and> approval_timely p e t)"
proof (cases po)
  case (Some p)
  show ?thesis
  proof (cases "firstMismatch p e t = ReasonNone")
    case True
    then obtain m where m: "Message p = Inr m" by (auto simp: firstMismatch_iff)
    have "vresult_OK (Verify ecdsa po e t) \<longleftrightarrow>
        tr_state t \<noteq> TrustNotEnrolled \<and> key_verify ecdsa (tr_key t) m (pf_sig p) \<and> timing p e t = ReasonNone"
      using True m by (simp add: Some Verify_def vresult_OK_def)
    then show ?thesis using True m unfolding timing_iff firstMismatch_iff
      by (cases "tr_state t") (auto simp: Some)
  next
    case False
    then have "\<not> vresult_OK (Verify ecdsa po e t)" by (simp add: Some Verify_def vresult_OK_def)
    with False show ?thesis unfolding firstMismatch_iff by (auto simp: Some)
  qed
qed (simp add: Verify_def vresult_OK_def)

definition grant_about :: "grant_stmt \<Rightarrow> grant_expect \<Rightarrow> bool" where
  "grant_about g e \<longleftrightarrow>
     g_id g = ge_id e \<and> g_rules g = ge_rules e \<and> g_granter g = ge_granter e \<and> g_why g = ge_why e \<and>
     t_ns (g_at g) = t_ns (ge_at e) \<and> t_ns (g_until g) = t_ns (ge_until e)"

lemma VerifyGrant_OK_iff:
  "vresult_OK (VerifyGrant ecdsa go e t) \<longleftrightarrow>
   (\<exists>g m. go = Some g \<and> Grant_Message g = Inr m \<and> tr_state t = TrustPinned \<and> g_key g = k_id (tr_key t) \<and>
     grant_about g e \<and> key_verify ecdsa (tr_key t) m (g_sig g) \<and>
     t_ns (truncate_second (tr_valid_from t)) \<le> t_ns (g_at g) \<and> t_ns (g_at g) \<le> t_ns (ge_now e) + clockSkew \<and>
     t_ns (ge_now e) < t_ns (g_until g))"
proof (cases go)
  case (Some g)
  show ?thesis
  proof (cases "Grant_Message g")
    case (Inr m)
    then show ?thesis
      by (cases "tr_state t")
        (auto simp: Some VerifyGrant_def vresult_OK_def grant_about_def Before_def After_def Equal_def split: if_splits)
  qed (simp add: Some VerifyGrant_def vresult_OK_def)
qed (simp add: VerifyGrant_def vresult_OK_def)

lemma Message_sig [simp]: "Message (p\<lparr>pf_sig := sg\<rparr>) = Message p"
  by (simp add: Message_def proof_fields_def)

lemma Fingerprint_sig: "Fingerprint (p\<lparr>pf_sig := sg\<rparr>) = Fingerprint p"
  by (simp add: Fingerprint_def)

subsection \<open>Which key is trusted over time\<close>

definition reconcile_pin ::
  "(string \<Rightarrow> bool) \<Rightarrow> (string \<Rightarrow> string \<Rightarrow> string \<Rightarrow> bool) \<Rightarrow> pin option \<Rightarrow> presence_key option \<times> rotation option \<times> gotime \<Rightarrow> pin option" where
  "reconcile_pin point_ok ecdsa prev ev =
     (case ev of (file, rot, now) \<Rightarrow>
        case Reconcile point_ok ecdsa file rot prev now of (t, next, changed) \<Rightarrow> if changed then Some next else prev)"

definition is_pinned :: "pin \<Rightarrow> presence_key \<Rightarrow> bool" where
  "is_pinned p k \<longleftrightarrow> p_key_id p = k_id k \<and> p_public_key p = k_raw k"

lemma Reconcile_pinned:
  "is_pinned p k \<Longrightarrow> Reconcile point_ok ecdsa (Some k) rot (Some p) now = (trustOf k p (UTC now), p, False)"
  by (simp add: Reconcile_def is_pinned_def)

lemma Reconcile_absent:
  "\<exists>t q. Reconcile point_ok ecdsa None rot prev now = (t, q, False) \<and> tr_state t = TrustNotEnrolled"
  by (simp add: Reconcile_def Let_def)

lemma Reconcile_replaced:
  assumes "p_key_id p \<noteq> []" "\<not> is_pinned p k" "\<not> rotatedBy point_ok ecdsa p (k_id k) rot"
  shows "Reconcile point_ok ecdsa (Some k) rot (Some p) now =
    (let q = \<lparr>p_key_id = k_id k, p_public_key = k_raw k, p_since = UTC now, p_how = PinReplaced,
              p_hold_until = Add (UTC now) ReplacementHold, p_previous = p_key_id p\<rparr>
     in (trustOf k q (UTC now), q, True))"
  using assms by (simp add: Reconcile_def is_pinned_def Let_def)

lemma pin_stays:
  assumes "is_pinned p k" and "\<forall>(file, rot, now)\<in>set evs. file = None \<or> file = Some k"
  shows "foldl (reconcile_pin point_ok ecdsa) (Some p) evs = Some p"
  using assms
proof (induction evs)
  case (Cons ev evs)
  obtain kf rot now where ev: "ev = (kf, rot, now)" by (metis prod_cases3)
  have "reconcile_pin point_ok ecdsa (Some p) ev = Some p"
  proof (cases kf)
    case None
    then show ?thesis by (simp add: ev reconcile_pin_def Reconcile_def Let_def)
  next
    case (Some k')
    with Cons.prems ev have "kf = Some k" by auto
    then show ?thesis using Reconcile_pinned [OF Cons.prems(1)] by (simp add: ev reconcile_pin_def)
  qed
  then show ?case using Cons by simp
qed simp

lemma trustOf_hold:
  assumes "\<not> IsZero (p_hold_until p)"
  shows "tr_valid_from (trustOf k p now) = p_hold_until p"
    and "tr_state (trustOf k p now) = (if t_ns now < t_ns (p_hold_until p) then TrustHeld else TrustPinned)"
  using assms by (simp_all add: trustOf_def Before_def)

subsection \<open>Properties\<close>

text \<open>A sample key, statement and expectation for the concrete instances below.\<close>

definition sample_key :: presence_key where
  "sample_key = \<lparr>k_id = ''pk-1'', k_public = Some ''point'', k_raw = ''point''\<rparr>"

definition sample_time :: "int \<Rightarrow> gotime" where
  "sample_time s = \<lparr>t_ns = s * second, t_off = 0\<rparr>"

definition sample_proof :: proof_stmt where
  "sample_proof = \<lparr>pf_v = 1, pf_key = ''pk-1'', pf_decision = ''bnd-0123456789ab'', pf_rule = ''stop'', pf_session = ''s1'',
     pf_scope = ScopeOnce, pf_challenge = ''c1'', pf_crossed = CrossingsDigest [], pf_issued = sample_time 1000, pf_sig = ''sig''\<rparr>"

definition sample_expect :: expect where
  "sample_expect = \<lparr>e_decision = ''bnd-0123456789ab'', e_rule = ''stop'', e_session = ''s1'', e_scope = ScopeOnce,
     e_challenge = ''c1'', e_crossings = [], e_now = sample_time 1060, e_spent = None\<rparr>"

definition sample_trust :: trust where
  "sample_trust = \<lparr>tr_state = TrustPinned, tr_key = sample_key, tr_valid_from = sample_time 0, tr_pin = no_pin\<rparr>"

lemma CrossingsDigest_not_Nil [simp]: "CrossingsDigest cs \<noteq> []"
  using length_hex_encode [of "sha256 (crossings_text cs)"] length_sha256 [of "crossings_text cs"]
  by (metis CrossingsDigest_def length_0_conv mult_eq_0_iff zero_neq_numeral)

lemma sample_message: "Message sample_proof = Inr (ApprovalDomain @ write_fields (proof_fields sample_proof))"
  by (simp add: Message_def sample_proof_def sample_time_def IsZero_def zero_ns_def nanosecond_def)

lemma sample_accepted: "vresult_OK (Verify (\<lambda>_ _ _. True) (Some sample_proof) sample_expect sample_trust)"
proof -
  have "approval_about sample_proof sample_expect"
    by (simp add: approval_about_def sample_proof_def sample_expect_def)
  moreover have "approval_timely sample_proof sample_expect sample_trust"
    by (simp add: approval_timely_def sample_proof_def sample_expect_def sample_trust_def sample_time_def truncate_second_def
        clockSkew_def OnceTTL_def ScopeOnce_def ScopeSession_def)
  moreover have "key_verify (\<lambda>_ _ _. True) (tr_key sample_trust) m (pf_sig sample_proof)" for m
    by (simp add: key_verify_def sample_trust_def sample_key_def sample_proof_def)
  moreover have "pf_key sample_proof = k_id (tr_key sample_trust)" "tr_state sample_trust = TrustPinned"
    by (simp_all add: sample_proof_def sample_trust_def sample_key_def)
  ultimately show ?thesis using sample_message by (auto simp: Verify_OK_iff)
qed

text \<open>
  An approval is honoured exactly when it is a well-formed statement about this decision (its
  rule, session, scope, current challenge and the digest of the crossings shown), signed over
  its own bytes by the pinned key, no older than the key nor than its scope allows, not from
  the future, and, for a one-step approval, not used before.
\<close>

theorem approval_honoured_iff:
  "vresult_OK (Verify ecdsa po e t) \<longleftrightarrow>
   (\<exists>p m. po = Some p \<and> Message p = Inr m \<and> tr_state t = TrustPinned \<and> pf_key p = k_id (tr_key t) \<and>
     approval_about p e \<and> key_verify ecdsa (tr_key t) m (pf_sig p) \<and> approval_timely p e t)"
  by (rule Verify_OK_iff)

text \<open>
  C31: The signed bytes of an approval determine every field of it, whatever the fields hold: a
  session id with line breaks or equals signs in it cannot make two statements look alike.
\<close>

theorem message_determines_approval:
  assumes "Message p = Inr m" and "Message q = Inr m"
  shows "same_approval p q"
  using approval.determined assms by simp

lemma message_determines_approval_witness:
  "Message sample_proof = Message (sample_proof\<lparr>pf_sig := ''other''\<rparr>) \<and> same_approval sample_proof (sample_proof\<lparr>pf_sig := ''other''\<rparr>)"
proof -
  show ?thesis using message_determines_approval [OF sample_message, of "sample_proof\<lparr>pf_sig := ''other''\<rparr>"] sample_message by simp
qed

text \<open>
  No statement can be presented as one of another kind: the bytes of an approval are never
  those of a grant, a key rotation or an enrolment, nor a grant's those of the other two.
\<close>

theorem kinds_never_mixed:
  "(Message p = Inr m \<longrightarrow> Grant_Message g \<noteq> Inr m \<and> RotationMessage f r w \<noteq> m \<and> EnrolmentMessage k mm u w' \<noteq> m) \<and>
   (Grant_Message g = Inr m \<longrightarrow> RotationMessage f r w \<noteq> m \<and> EnrolmentMessage k mm u w' \<noteq> m)"
  using approval_grant.never_shared [of p m g] approval_rotation.never_shared [of p m "(f, r, w)"]
    approval_enrolment.never_shared [of p m "(k, mm, u, w')"] grant_rotation.never_shared [of g m "(f, r, w)"]
    grant_enrolment.never_shared [of g m "(k, mm, u, w')"]
  by auto

lemma kinds_never_mixed_witness:
  "RotationMessage ''pk-0'' ''pk-1'' (sample_time 0) \<noteq> ApprovalDomain @ write_fields (proof_fields sample_proof)"
  using kinds_never_mixed [of sample_proof] sample_message by blast



text \<open>
  A one-step approval is used once: when its fingerprint is on record as spent, no statement
  that says the same is honoured again, whatever signature it carries.
\<close>

theorem one_step_once:
  assumes "Message p = Inr m" and "Message q = Inr m" and "pf_scope p = ScopeOnce"
    and "e_spent e = Some spent" and "spent (Fingerprint p)"
  shows "\<not> vresult_OK (Verify ecdsa (Some q) e t)"
proof
  assume "vresult_OK (Verify ecdsa (Some q) e t)"
  then have "approval_timely q e t" unfolding Verify_OK_iff by auto
  moreover have "pf_scope q = ScopeOnce"
    using approval.determined [of p m q] assms(1-3) by (simp add: same_approval_def)
  moreover have "Fingerprint q = Fingerprint p" using assms(1,2) by (simp add: Fingerprint_def)
  ultimately show False using assms(4,5) by (simp add: approval_timely_def)
qed

lemma one_step_once_witness:
  "\<not> vresult_OK (Verify (\<lambda>_ _ _. True) (Some (sample_proof\<lparr>pf_sig := ''other''\<rparr>))
     (sample_expect\<lparr>e_spent := Some (\<lambda>f. f = Fingerprint sample_proof)\<rparr>) sample_trust)"
proof (rule one_step_once [OF sample_message, where spent = "\<lambda>f. f = Fingerprint sample_proof"])
  show "Message (sample_proof\<lparr>pf_sig := ''other''\<rparr>) = Inr (ApprovalDomain @ write_fields (proof_fields sample_proof))"
    using sample_message by simp
qed (simp_all add: sample_proof_def)

text \<open>
  A signed extra allowance is honoured exactly when the signed statement is the grant on
  file (its id, rules in order, granter, reason, start and end), by the pinned key, neither
  older than the key nor from the future, and not past its end; it then lasts a day at most.
\<close>

theorem grant_honoured_iff:
  "vresult_OK (VerifyGrant ecdsa go e t) \<longleftrightarrow>
   (\<exists>g m. go = Some g \<and> Grant_Message g = Inr m \<and> tr_state t = TrustPinned \<and> g_key g = k_id (tr_key t) \<and>
     grant_about g e \<and> key_verify ecdsa (tr_key t) m (g_sig g) \<and>
     t_ns (truncate_second (tr_valid_from t)) \<le> t_ns (g_at g) \<and> t_ns (g_at g) \<le> t_ns (ge_now e) + clockSkew \<and>
     t_ns (ge_now e) < t_ns (g_until g) \<and> t_ns (g_until g) - t_ns (g_at g) \<le> MaxGrant)"
  using VerifyGrant_OK_iff [of ecdsa go e t] Grant_Message_Inr Sub_le [OF ttl_small(3)] by blast



definition sample_old :: pin where
  "sample_old = no_pin\<lparr>p_key_id := ''pk-0'', p_public_key := ''old''\<rparr>"


end
