(* ===== verification/Store.thy ===== *)
theory Store
  imports Presence "HOL-Library.AList" "HOL-Library.Code_Target_Nat"
begin

text \<open>
  Effects. The stateful packages work on small files, and every access to one of them can
  fail. An operation is a function from the state to an error or a value and the state left
  behind, so what was already done before an error stays done, as it does in Go. The theory
  holds that monad with its rules, the two kinds of file the packages keep (a file replaced
  as a whole, and a log that is appended to line by line), and directories of files keyed by
  an id.
\<close>

subsection \<open>Operations\<close>

text \<open>\<open>Failed\<close> is a failure of the machine, \<open>InputError\<close> one of the request, and
\<open>Unavailable\<close> one that wraps \<open>ErrPresenceUnavailable\<close>.\<close>

datatype err = Failed string | InputError string | Unavailable string

fun err_text :: "err \<Rightarrow> string" where
  "err_text (Failed s) = s"
| "err_text (InputError s) = s"
| "err_text (Unavailable s) = s"

type_synonym ('w, 'a) io = "'w \<Rightarrow> (err + 'a) \<times> 'w"

named_theorems io_iff \<open>when an operation returns a value\<close>
named_theorems leaves_intros \<open>operations that leave a part of the state as it is\<close>

definition ret :: "'a \<Rightarrow> ('w, 'a) io" where
  "ret x w = (Inr x, w)"

definition fail :: "err \<Rightarrow> ('w, 'a) io" where
  "fail e w = (Inl e, w)"

definition io_bind :: "('w, 'a) io \<Rightarrow> ('a \<Rightarrow> ('w, 'b) io) \<Rightarrow> ('w, 'b) io" where
  "io_bind m f w = (case m w of (Inl e, w') \<Rightarrow> (Inl e, w') | (Inr x, w') \<Rightarrow> f x w')"

definition io_then :: "('w, 'a) io \<Rightarrow> ('w, 'b) io \<Rightarrow> ('w, 'b) io" where
  "io_then m k = io_bind m (\<lambda>_. k)"

text \<open>\<open>v, err := m\<close>, with the error looked at by the caller.\<close>

definition attempt :: "('w, 'a) io \<Rightarrow> ('w, err + 'a) io" where
  "attempt m w = (case m w of (r, w') \<Rightarrow> (Inr r, w'))"

definition look :: "('w \<Rightarrow> 'a) \<Rightarrow> ('w, 'a) io" where
  "look f w = (Inr (f w), w)"

definition change :: "('w \<Rightarrow> 'w) \<Rightarrow> ('w, unit) io" where
  "change f w = (Inr (), f w)"

fun each :: "('a \<Rightarrow> ('w, unit) io) \<Rightarrow> 'a list \<Rightarrow> ('w, unit) io" where
  "each f [] = ret ()"
| "each f (x # xs) = io_then (f x) (each f xs)"

fun io_map :: "('a \<Rightarrow> ('w, 'b) io) \<Rightarrow> 'a list \<Rightarrow> ('w, 'b list) io" where
  "io_map f [] = ret []"
| "io_map f (x # xs) = io_bind (f x) (\<lambda>y. io_bind (io_map f xs) (\<lambda>ys. ret (y # ys)))"

lemma ret_iff [io_iff]: "ret x w = (r, w') \<longleftrightarrow> r = Inr x \<and> w' = w"
  by (auto simp: ret_def)

lemma fail_iff [io_iff]: "fail e w = (r, w') \<longleftrightarrow> r = Inl e \<and> w' = w"
  by (auto simp: fail_def)

lemma look_iff [io_iff]: "look f w = (r, w') \<longleftrightarrow> r = Inr (f w) \<and> w' = w"
  by (auto simp: look_def)

lemma change_iff [io_iff]: "change f w = (r, w') \<longleftrightarrow> r = Inr () \<and> w' = f w"
  by (auto simp: change_def)

lemma attempt_iff [io_iff]: "attempt m w = (r, w') \<longleftrightarrow> (\<exists>r'. m w = (r', w') \<and> r = Inr r')"
  by (auto simp: attempt_def split: prod.splits)

lemma bind_Inr_iff [io_iff]:
  "io_bind m f w = (Inr y, w') \<longleftrightarrow> (\<exists>x v. m w = (Inr x, v) \<and> f x v = (Inr y, w'))"
  by (auto simp: io_bind_def split: prod.splits sum.splits)

lemma bind_Inl_iff:
  "io_bind m f w = (Inl e, w') \<longleftrightarrow> m w = (Inl e, w') \<or> (\<exists>x v. m w = (Inr x, v) \<and> f x v = (Inl e, w'))"
  by (auto simp: io_bind_def split: prod.splits sum.splits)

lemma then_Inr_iff [io_iff]:
  "io_then m k w = (Inr y, w') \<longleftrightarrow> (\<exists>x v. m w = (Inr x, v) \<and> k v = (Inr y, w'))"
  by (simp add: io_then_def io_iff)

lemma then_Inl_iff:
  "io_then m k w = (Inl e, w') \<longleftrightarrow> m w = (Inl e, w') \<or> (\<exists>x v. m w = (Inr x, v) \<and> k v = (Inl e, w'))"
  by (simp add: io_then_def bind_Inl_iff)

text \<open>Running: each rule steps an operation whose first part is known.\<close>

lemma run_bind: "m w = (Inr x, v) \<Longrightarrow> io_bind m f w = f x v"
  by (simp add: io_bind_def)

lemma run_bind_error: "m w = (Inl e, v) \<Longrightarrow> io_bind m f w = (Inl e, v)"
  by (simp add: io_bind_def)

lemma run_then: "m w = (Inr x, v) \<Longrightarrow> io_then m k w = k v"
  by (simp add: io_then_def io_bind_def)

lemma run_attempt: "m w = (r, v) \<Longrightarrow> attempt m w = (Inr r, v)"
  by (simp add: attempt_def)

text \<open>What an operation gives is read off its value, and the state left is the rest.\<close>

lemma runs_to: "fst (m w) = r \<Longrightarrow> m w = (r, snd (m w))"
  by (simp add: prod_eq_iff)

lemma ret_run [simp]: "ret x w = (Inr x, w)"
  by (simp add: ret_def)

lemma fail_run [simp]: "fail e w = (Inl e, w)"
  by (simp add: fail_def)

lemma ret_bind [simp]: "io_bind (ret x) f = f x"
  by (rule ext) (simp add: io_bind_def)

subsection \<open>What an operation leaves alone\<close>

definition leaves :: "('w \<Rightarrow> 'v) \<Rightarrow> ('w, 'a) io \<Rightarrow> bool" where
  "leaves f m \<longleftrightarrow> (\<forall>w. f (snd (m w)) = f w)"

lemma leavesD: "leaves f m \<Longrightarrow> m w = (r, w') \<Longrightarrow> f w' = f w"
  unfolding leaves_def by (metis snd_conv)

lemma leavesI: "(\<And>w r w'. m w = (r, w') \<Longrightarrow> f w' = f w) \<Longrightarrow> leaves f m"
  unfolding leaves_def by (metis prod.collapse)

lemma leaves_ret [leaves_intros]: "leaves f (ret x)"
  by (simp add: leaves_def)

lemma leaves_fail [leaves_intros]: "leaves f (fail e)"
  by (simp add: leaves_def)

lemma leaves_look [leaves_intros]: "leaves f (look g)"
  by (simp add: leaves_def look_def)

lemma leaves_change [leaves_intros]: "(\<And>w. f (g w) = f w) \<Longrightarrow> leaves f (change g)"
  by (simp add: leaves_def change_def)

lemma leaves_bind [leaves_intros]: "leaves f m \<Longrightarrow> (\<And>x. leaves f (k x)) \<Longrightarrow> leaves f (io_bind m k)"
  unfolding leaves_def io_bind_def by (auto split: prod.splits sum.splits) (metis snd_conv)+

lemma leaves_then [leaves_intros]: "leaves f m \<Longrightarrow> leaves f k \<Longrightarrow> leaves f (io_then m k)"
  unfolding io_then_def by (intro leaves_intros)

lemma leaves_attempt [leaves_intros]: "leaves f m \<Longrightarrow> leaves f (attempt m)"
  unfolding leaves_def attempt_def by (auto split: prod.splits) (metis snd_conv)

lemma leaves_if [leaves_intros]: "leaves f m \<Longrightarrow> leaves f k \<Longrightarrow> leaves f (if b then m else k)"
  by simp

lemma leaves_option [leaves_intros]:
  "leaves f m \<Longrightarrow> (\<And>x. leaves f (k x)) \<Longrightarrow> leaves f (case z of None \<Rightarrow> m | Some x \<Rightarrow> k x)"
  by (cases z) auto

lemma leaves_sum [leaves_intros]:
  "(\<And>e. leaves f (m e)) \<Longrightarrow> (\<And>x. leaves f (k x)) \<Longrightarrow> leaves f (case z of Inl e \<Rightarrow> m e | Inr x \<Rightarrow> k x)"
  by (cases z) auto

lemma leaves_prod [leaves_intros]: "(\<And>x y. leaves f (k x y)) \<Longrightarrow> leaves f (case z of (x, y) \<Rightarrow> k x y)"
  by (cases z) auto

lemma leaves_each [leaves_intros]: "(\<And>x. leaves f (g x)) \<Longrightarrow> leaves f (each g xs)"
  by (induction xs) (auto intro: leaves_intros)

lemma leaves_io_map [leaves_intros]: "(\<And>x. leaves f (g x)) \<Longrightarrow> leaves f (io_map g xs)"
  by (induction xs) (auto intro!: leaves_intros)

subsection \<open>Accesses that fail\<close>

text \<open>
  What the system makes of one access. A write of a log's line may stop partway, leaving its
  first bytes, or be complete and fail afterwards (in \<open>Close\<close>). A file written through a
  temporary one is replaced by the rename, its last step, so it is replaced or not.
\<close>

datatype outcome = Works | Fails string | Partly nat string | Late string

fun outcome_error :: "outcome \<Rightarrow> string option" where
  "outcome_error Works = None"
| "outcome_error (Fails e) = Some e"
| "outcome_error (Partly n e) = Some e"
| "outcome_error (Late e) = Some e"

subsection \<open>Files\<close>

text \<open>A file written as one JSON value: what it holds, or bytes that do not decode.\<close>

datatype 'a stored = Garbled | Stored 'a

text \<open>
  A log of JSON lines: each line's length in bytes and what it decodes to, if it does; and
  whether the last line still lacks its newline, as after a write that stopped partway.
\<close>

record 'a jsonl =
  jl_lines :: "(nat \<times> 'a option) list"
  jl_open :: bool

definition empty_log :: "'a jsonl" where
  "empty_log = \<lparr>jl_lines = [], jl_open = False\<rparr>"

definition joins :: "'a jsonl \<Rightarrow> bool" where
  "joins l \<longleftrightarrow> jl_open l \<and> jl_lines l \<noteq> []"

text \<open>Bytes added after an unfinished line become part of it, and the two do not decode.\<close>

definition add_bytes :: "nat \<Rightarrow> 'a option \<Rightarrow> bool \<Rightarrow> 'a jsonl \<Rightarrow> 'a jsonl" where
  "add_bytes n v opened l =
     \<lparr>jl_lines = (if joins l then butlast (jl_lines l) @ [(fst (last (jl_lines l)) + n, None)]
                  else jl_lines l @ [(n, v)]),
      jl_open = opened\<rparr>"

definition append_line :: "nat \<Rightarrow> 'a \<Rightarrow> 'a jsonl \<Rightarrow> 'a jsonl" where
  "append_line n v l = add_bytes n (Some v) False l"

text \<open>The first \<open>k\<close> of the \<open>n + 1\<close> bytes of a line and its newline.\<close>

definition append_part :: "nat \<Rightarrow> nat \<Rightarrow> 'a \<Rightarrow> 'a jsonl \<Rightarrow> 'a jsonl" where
  "append_part k n v l =
     (if k = 0 then l
      else if k \<le> n then add_bytes k (if k = n then Some v else None) True l
      else append_line n v l)"

definition whole_log :: "(nat \<times> 'a option) list \<Rightarrow> 'a jsonl" where
  "whole_log ls = \<lparr>jl_lines = ls, jl_open = False\<rparr>"

definition log_size :: "'a jsonl \<Rightarrow> nat" where
  "log_size l = sum_list (map (\<lambda>(n, _). n + 1) (jl_lines l)) - (if joins l then 1 else 0)"

text \<open>What a \<open>bufio.Scanner\<close> with a buffer of \<open>cap\<close> bytes gives: the lines up to the first that
does not fit in it, and whether one did not.\<close>

definition scan :: "nat \<Rightarrow> 'a jsonl \<Rightarrow> 'a list" where
  "scan cap l = List.map_filter snd (takeWhile (\<lambda>(n, _). n < cap) (jl_lines l))"

definition scan_fails :: "nat \<Rightarrow> 'a jsonl \<Rightarrow> bool" where
  "scan_fails cap l \<longleftrightarrow> \<not> list_all (\<lambda>(n, _). n < cap) (jl_lines l)"

lemma scan_whole_log: "list_all (\<lambda>(n, _). n < cap) ls \<Longrightarrow> scan cap (whole_log ls) = List.map_filter snd ls"
  by (simp add: scan_def whole_log_def list_all_iff takeWhile_eq_all_conv[THEN iffD2] case_prod_beta)

lemma map_filter_Some [simp]: "List.map_filter snd (map (\<lambda>x. (f x, Some x)) xs) = xs"
  by (induction xs) (auto simp: List.map_filter_simps)

lemma map_filter_append [simp]: "List.map_filter f (xs @ ys) = List.map_filter f xs @ List.map_filter f ys"
  by (simp add: List.map_filter_def)

lemma scan_append:
  assumes "\<not> scan_fails cap l" "\<not> jl_open l" "n < cap"
  shows "scan cap (append_line n v l) = scan cap l @ [v]"
proof -
  have "takeWhile (\<lambda>(n, _). n < cap) (jl_lines l) = jl_lines l"
    using assms by (simp add: scan_fails_def list_all_iff)
  moreover have "takeWhile (\<lambda>(n, _). n < cap) (jl_lines l @ [(n, Some v)]) = jl_lines l @ [(n, Some v)]"
    using assms by (simp add: scan_fails_def list_all_iff takeWhile_eq_all_conv[THEN iffD2] case_prod_beta)
  ultimately show ?thesis
    using assms by (simp del: takeWhile_eq_all_conv add: append_line_def add_bytes_def joins_def scan_def List.map_filter_simps)
qed

subsection \<open>Files keyed by an id\<close>

type_synonym 'v dir = "(string \<times> 'v stored) list"

lemma map_of_update: "map_of (AList.update k v xs) = (map_of xs)(k \<mapsto> v)"
  by (simp add: update_conv')

lemma map_of_delete: "map_of (AList.delete k xs) = (map_of xs)(k := None)"
  by (simp add: delete_conv')

lemmas map_of_dir = map_of_update map_of_delete

text \<open>\<open>idPath\<close>: an id names a file of the directory and nothing outside it.\<close>

definition valid_id :: "string \<Rightarrow> bool" where
  "valid_id i \<longleftrightarrow> i \<noteq> [] \<and> CHR ''/'' \<notin> set i \<and> CHR 0x5C \<notin> set i \<and> \<not> contains i ''..''"

end
