(* ===== verification/LedgerState.thy ===== *)
theory LedgerState
  imports Store
begin

text \<open>
  What the boundary engine keeps on disk (\<open>internal/infra/boundaryledger\<close>, and the key store of
  \<open>internal/infra/presence\<close>), as one state: the decision log, the files kept by decision id
  and by session, the call logs, the extra allowances, the daemon's figures, the organisation's
  rules and the presence key. Beside the files the state has what the system supplies: what
  becomes of each access, the clock that stamps files, and the random numbers to come. How many
  bytes the JSON of a record takes is a parameter of the state; the limits on sizes are the
  code's.
\<close>

subsection \<open>Decision events\<close>

text \<open>\<open>eventschema.DecisionEvent\<close>, with the fields a boundary decision sets.\<close>

datatype decision_stage = DecisionStageShadow | DecisionStageProposed | DecisionStageAccepted
  | DecisionStageRejected | DecisionStageApplied | DecisionStageExpired | DecisionStageFailed

fun stage_text :: "decision_stage \<Rightarrow> string" where
  "stage_text DecisionStageShadow = ''shadow''"
| "stage_text DecisionStageProposed = ''proposed''"
| "stage_text DecisionStageAccepted = ''accepted''"
| "stage_text DecisionStageRejected = ''rejected''"
| "stage_text DecisionStageApplied = ''applied''"
| "stage_text DecisionStageExpired = ''expired''"
| "stage_text DecisionStageFailed = ''failed''"

record resource_option =
  ro_provider :: string
  ro_model :: string
  ro_reason :: string

record evidence_ref =
  rf_event :: string
  rf_kind :: string
  rf_source :: string
  rf_observed :: gotime
  rf_fresh_until :: gotime
  rf_confidence :: f64
  rf_scope :: string
  rf_caveat :: string

record decision_actor =
  da_harness :: string
  da_session :: string
  da_agent :: string
  da_user :: string

record decision_approval =
  ap_approver :: string
  ap_method :: string
  ap_at :: gotime
  ap_rule :: string
  ap_scope :: string
  ap_presence :: string
  ap_presence_key :: string
  ap_would_refuse :: string

definition no_actor :: decision_actor where
  "no_actor = \<lparr>da_harness = [], da_session = [], da_agent = [], da_user = []\<rparr>"

definition no_approval :: decision_approval where
  "no_approval = \<lparr>ap_approver = [], ap_method = [], ap_at = zero_time, ap_rule = [], ap_scope = [],
     ap_presence = [], ap_presence_key = [], ap_would_refuse = []\<rparr>"

definition no_option :: resource_option where
  "no_option = \<lparr>ro_provider = [], ro_model = [], ro_reason = []\<rparr>"

record decision_event =
  de_kind :: string
  de_stage :: decision_stage
  de_alternatives :: "resource_option list"
  de_selected :: resource_option
  de_evidence :: "evidence_ref list"
  de_policy :: string
  de_authority :: string
  de_confidence :: f64
  de_rationale :: string
  de_executable :: bool
  de_adapter :: string
  de_actor :: decision_actor
  de_approval :: decision_approval

text \<open>An envelope's payload: a decision, or another event of the named type.\<close>

datatype payload = PDecision decision_event | POther string

record envelope =
  ev_id :: string
  ev_timestamp :: gotime
  ev_source :: string
  ev_actor :: string
  ev_decision :: string
  ev_payload :: payload

subsection \<open>Files by decision id\<close>

record pending =
  pd_id :: string
  pd_rule :: string
  pd_require :: string
  pd_crossed :: string
  pd_action :: string
  pd_harness :: string
  pd_session :: string
  pd_agent :: string
  pd_at :: gotime
  pd_tool_use :: string
  pd_crossings :: "crossing list"
  pd_routed_at :: "gotime option"
  pd_challenge :: string
  pd_spent :: "string list"

record answer =
  an_id :: string
  an_rule :: string
  an_session :: string
  an_approved :: bool
  an_scope :: string
  an_approver :: string
  an_method :: string
  an_at :: gotime
  an_crossings :: "crossing list"
  an_proof :: "proof_stmt option"

subsection \<open>Files by session\<close>

record session =
  se_matches :: "string \<Rightarrow> int option"
  se_recorded :: "string \<Rightarrow> string option"
  se_last :: gotime

definition no_session :: session where
  "no_session = \<lparr>se_matches = Map.empty, se_recorded = Map.empty, se_last = zero_time\<rparr>"

record match_line =
  ml_at :: gotime
  ml_rules :: "string list"
  ml_counts :: "string \<Rightarrow> int option"

subsection \<open>Figures, extra allowances and the key store\<close>

record budget_reading =
  br_key :: string
  br_budget :: string
  br_window :: string
  br_mode :: string
  br_basis :: string
  br_provider :: string
  br_used :: f64
  br_limit :: f64
  br_used_pct :: f64
  br_source :: string
  br_warn_pct :: f64
  br_crit_pct :: f64
  br_start :: gotime
  br_resets :: gotime
  br_rule :: string
  br_enforced :: bool
  br_require :: string

record figures =
  fi_observed :: gotime
  fi_plan_left :: "(string \<times> (string \<times> f64) list) list"
  fi_plan_early :: "(string \<times> (string \<times> f64) list) list"
  fi_budget_used :: "(string \<times> f64) list"
  fi_budgets :: "budget_reading list"

record extra =
  ex_id :: string
  ex_rules :: "string list"
  ex_at :: gotime
  ex_until :: gotime
  ex_granter :: string
  ex_method :: string
  ex_why :: string
  ex_ended :: "gotime option"
  ex_grant :: "grant_stmt option"

record enrolment =
  en_key :: string
  en_machine :: string
  en_user :: string
  en_at :: gotime
  en_sig :: string

record key_store =
  ks_public :: "string option"
  ks_rotation :: "rotation stored option"
  ks_pin :: "pin stored option"
  ks_blob :: "string option"
  ks_new_blob :: "string option"
  ks_enrolment :: "enrolment stored option"

subsection \<open>The state\<close>

record world =
  w_log :: "envelope jsonl"
  w_pending :: "pending dir"
  w_answers :: "answer dir"
  w_sessions :: "session dir"
  w_matches :: "(string \<times> match_line jsonl) list"
  w_calls :: "(string \<times> (tool_call jsonl \<times> gotime)) list"
  w_calls_dir :: bool
  w_calls_stamp :: "gotime option"
  w_extras :: "extra list stored option"
  w_figures :: "figures stored option"
  w_org :: "(string \<times> gotime) option"
  w_keys :: key_store
  w_outcomes :: "nat \<Rightarrow> outcome"
  w_accesses :: nat
  w_random :: "nat \<Rightarrow> string"
  w_drawn :: nat
  w_clock :: gotime
  w_env_bytes :: "envelope \<Rightarrow> nat"
  w_match_bytes :: "match_line \<Rightarrow> nat"
  w_call_bytes :: "tool_call \<Rightarrow> nat"

subsection \<open>One access\<close>

definition access :: "(world, outcome) io" where
  "access w = (Inr (w_outcomes w (w_accesses w)), w\<lparr>w_accesses := w_accesses w + 1\<rparr>)"

text \<open>An access that works, or the error it gives.\<close>

definition reach :: "(world, unit) io" where
  "reach = io_bind access (\<lambda>oc. case outcome_error oc of None \<Rightarrow> ret () | Some e \<Rightarrow> fail (Failed e))"

definition draw :: "(world, string) io" where
  "draw w = (Inr (w_random w (w_drawn w)), w\<lparr>w_drawn := w_drawn w + 1\<rparr>)"

text \<open>Every access works.\<close>

definition sound_disk :: "world \<Rightarrow> bool" where
  "sound_disk w \<longleftrightarrow> w_outcomes w = (\<lambda>_. Works)"

text \<open>The state after one more access.\<close>

definition tick :: "world \<Rightarrow> world" where
  "tick w = w\<lparr>w_accesses := w_accesses w + 1\<rparr>"

lemma tick_simps [simp]:
  "w_log (tick w) = w_log w" "w_pending (tick w) = w_pending w" "w_answers (tick w) = w_answers w"
  "w_sessions (tick w) = w_sessions w" "w_matches (tick w) = w_matches w" "w_calls (tick w) = w_calls w"
  "w_calls_dir (tick w) = w_calls_dir w" "w_calls_stamp (tick w) = w_calls_stamp w" "w_extras (tick w) = w_extras w"
  "w_figures (tick w) = w_figures w" "w_org (tick w) = w_org w" "w_keys (tick w) = w_keys w"
  "w_outcomes (tick w) = w_outcomes w" "w_random (tick w) = w_random w" "w_drawn (tick w) = w_drawn w"
  "w_clock (tick w) = w_clock w" "w_env_bytes (tick w) = w_env_bytes w" "w_match_bytes (tick w) = w_match_bytes w"
  "w_call_bytes (tick w) = w_call_bytes w"
  by (simp_all add: tick_def)

lemma sound_disk_simps [simp]:
  "sound_disk (tick w) = sound_disk w"
  "sound_disk (w\<lparr>w_drawn := n\<rparr>) = sound_disk w"
  "sound_disk (w\<lparr>w_accesses := n\<rparr>) = sound_disk w"
  "sound_disk (w_log_update f0 w) = sound_disk w"
  "sound_disk (w_pending_update f1 w) = sound_disk w"
  "sound_disk (w_answers_update f2 w) = sound_disk w"
  "sound_disk (w_sessions_update f3 w) = sound_disk w"
  "sound_disk (w_matches_update f4 w) = sound_disk w"
  "sound_disk (w_calls_update f5 w) = sound_disk w"
  "sound_disk (w_calls_dir_update f6 w) = sound_disk w"
  "sound_disk (w_calls_stamp_update f7 w) = sound_disk w"
  "sound_disk (w_extras_update f8 w) = sound_disk w"
  "sound_disk (w_figures_update f9 w) = sound_disk w"
  "sound_disk (w_org_update f10 w) = sound_disk w"
  "sound_disk (w_keys_update f11 w) = sound_disk w"
  by (simp_all add: sound_disk_def tick_def)

lemma reach_works: "sound_disk w \<Longrightarrow> reach w = (Inr (), tick w)"
  by (simp add: reach_def access_def io_bind_def sound_disk_def tick_def)

lemma access_works: "sound_disk w \<Longrightarrow> access w = (Inr Works, tick w)"
  by (simp add: access_def sound_disk_def tick_def)

lemma reach_state: "reach w = (r, w') \<Longrightarrow> w' = tick w"
  by (auto simp: reach_def access_def io_bind_def tick_def split: option.splits)

text \<open>A function of the state that no count of accesses or draws changes.\<close>

definition contents :: "(world \<Rightarrow> 'v) \<Rightarrow> bool" where
  "contents f \<longleftrightarrow> (\<forall>w n. f (w\<lparr>w_accesses := n\<rparr>) = f w) \<and> (\<forall>w n. f (w\<lparr>w_drawn := n\<rparr>) = f w)"

lemma contents_files [simp, intro]:
  "contents w_log" "contents w_pending" "contents w_answers" "contents w_sessions" "contents w_matches"
  "contents w_calls" "contents w_calls_dir" "contents w_calls_stamp" "contents w_extras" "contents w_figures"
  "contents w_org" "contents w_keys" "contents w_outcomes" "contents w_random" "contents w_clock"
  "contents w_env_bytes" "contents w_match_bytes" "contents w_call_bytes" "contents sound_disk"
  by (simp_all add: contents_def)

lemma leaves_access [leaves_intros]: "contents f \<Longrightarrow> leaves f access"
  by (simp add: leaves_def access_def contents_def)

lemma contents_tick: "contents f \<Longrightarrow> f (tick w) = f w"
  by (simp add: contents_def tick_def)

lemma leaves_reach [leaves_intros]: "contents f \<Longrightarrow> leaves f reach"
  by (rule leavesI) (auto dest: reach_state simp: contents_tick)

lemma leaves_draw [leaves_intros]: "contents f \<Longrightarrow> leaves f draw"
  by (simp add: leaves_def draw_def contents_def)

subsection \<open>Reading and writing\<close>

text \<open>A file replaced as a whole, through a temporary one.\<close>

definition write_file :: "(world \<Rightarrow> world) \<Rightarrow> (world, unit) io" where
  "write_file f = io_then reach (change f)"

definition read_file :: "(world \<Rightarrow> 'a) \<Rightarrow> (world, 'a) io" where
  "read_file f = io_then reach (look f)"

text \<open>A file that holds JSON: absent, or its value, or an error.\<close>

definition decode :: "'a stored option \<Rightarrow> (world, 'a option) io" where
  "decode s = (case s of None \<Rightarrow> ret None | Some Garbled \<Rightarrow> fail (Failed ''invalid character'') | Some (Stored v) \<Rightarrow> ret (Some v))"

text \<open>One line added to a log, by one write.\<close>

definition append_log :: "(('a jsonl \<Rightarrow> 'a jsonl) \<Rightarrow> world \<Rightarrow> world) \<Rightarrow> nat \<Rightarrow> 'a \<Rightarrow> (world, unit) io" where
  "append_log on n v =
     io_bind access (\<lambda>oc. case oc of
         Works \<Rightarrow> change (on (append_line n v))
       | Fails e \<Rightarrow> fail (Failed e)
       | Partly k e \<Rightarrow> io_then (change (on (append_part k n v))) (fail (Failed e))
       | Late e \<Rightarrow> io_then (change (on (append_line n v))) (fail (Failed e)))"

lemma write_file_works:
  "sound_disk w \<Longrightarrow> write_file f w = (Inr (), f (tick w))"
  by (simp add: write_file_def io_then_def io_bind_def reach_works change_def)

lemma read_file_works:
  "sound_disk w \<Longrightarrow> read_file f w = (Inr (f (tick w)), tick w)"
  by (simp add: read_file_def io_then_def io_bind_def reach_works look_def)

lemma attempt_read_works:
  "sound_disk w \<Longrightarrow> attempt (read_file f) w = (Inr (Inr (f (tick w))), tick w)"
  by (simp add: attempt_def read_file_works)

lemma append_log_works:
  "sound_disk w \<Longrightarrow> append_log on n v w = (Inr (), on (append_line n v) (tick w))"
  by (simp add: append_log_def io_bind_def access_works change_def)

text \<open>Running on a working disk.\<close>

named_theorems runs \<open>the next step of an operation, on a working disk\<close>

lemma run_read [runs]: "sound_disk w \<Longrightarrow> io_bind (read_file f) k w = k (f (tick w)) (tick w)"
  by (simp add: io_bind_def read_file_works)

lemma run_attempt_read [runs]: "sound_disk w \<Longrightarrow> io_bind (attempt (read_file f)) k w = k (Inr (f (tick w))) (tick w)"
  by (simp add: io_bind_def attempt_read_works)

lemma run_write [runs]: "sound_disk w \<Longrightarrow> io_then (write_file f) k w = k (f (tick w))"
  by (simp add: io_then_def io_bind_def write_file_works)

lemma run_append [runs]: "sound_disk w \<Longrightarrow> io_then (append_log on n v) k w = k (on (append_line n v) (tick w))"
  by (simp add: io_then_def io_bind_def append_log_works)

lemma run_look [runs]: "io_bind (look f) k w = k (f w) w"
  by (simp add: io_bind_def look_def)

lemma run_change [runs]: "io_then (change f) k w = k (f w)"
  by (simp add: io_then_def io_bind_def change_def)

lemma run_ret [runs]: "io_then (ret x) k w = k w"
  by (simp add: io_then_def)

lemma run_fail [runs]: "io_then (fail e) k w = (Inl e, w)" "io_bind (fail e) f w = (Inl e, w)"
  by (simp_all add: io_then_def io_bind_def)

lemma run_attempt_reach [runs]: "sound_disk w \<Longrightarrow> io_then (attempt reach) k w = k (tick w)"
  by (simp add: io_then_def io_bind_def attempt_def reach_works)

lemma run_last [runs]:
  "sound_disk w \<Longrightarrow> read_file f w = (Inr (f (tick w)), tick w)"
  "sound_disk w \<Longrightarrow> write_file g w = (Inr (), g (tick w))"
  "change g w = (Inr (), g w)"
  by (simp_all add: read_file_works write_file_works change_def)

lemma read_file_iff [io_iff]: "read_file f w = (Inr x, w') \<longleftrightarrow> (\<exists>v. reach w = (Inr (), v) \<and> x = f v \<and> w' = v)"
  by (auto simp: read_file_def io_iff)

lemma write_file_iff [io_iff]: "write_file f w = (Inr u, w') \<longleftrightarrow> (\<exists>v. reach w = (Inr (), v) \<and> w' = f v)"
  by (auto simp: write_file_def io_iff)

lemma decode_iff [io_iff]:
  "decode s w = (Inr p, w') \<longleftrightarrow> w' = w \<and> ((s = None \<and> p = None) \<or> (\<exists>v. s = Some (Stored v) \<and> p = Some v))"
  by (auto simp: decode_def split: option.splits stored.splits)

lemma leaves_read_file [leaves_intros]: "contents f \<Longrightarrow> leaves f (read_file g)"
  unfolding read_file_def by (intro leaves_intros)

lemma leaves_write_file [leaves_intros]: "contents f \<Longrightarrow> (\<And>w. f (g w) = f w) \<Longrightarrow> leaves f (write_file g)"
  unfolding write_file_def by (intro leaves_intros)

lemma leaves_decode [leaves_intros]: "leaves f (decode s)"
  by (cases s rule: option.exhaust; cases "the s") (auto simp: decode_def intro: leaves_intros split: option.splits stored.splits)

lemma leaves_outcome [leaves_intros]:
  "leaves f a \<Longrightarrow> (\<And>e. leaves f (b e)) \<Longrightarrow> (\<And>k e. leaves f (c k e)) \<Longrightarrow> (\<And>e. leaves f (d e)) \<Longrightarrow>
   leaves f (case oc of Works \<Rightarrow> a | Fails e \<Rightarrow> b e | Partly k e \<Rightarrow> c k e | Late e \<Rightarrow> d e)"
  by (cases oc) auto

lemma leaves_payload [leaves_intros]:
  "(\<And>d. leaves f (a d)) \<Longrightarrow> (\<And>t. leaves f (b t)) \<Longrightarrow> leaves f (case p of PDecision d \<Rightarrow> a d | POther t \<Rightarrow> b t)"
  by (cases p) auto

lemma leaves_stored [leaves_intros]:
  "leaves f a \<Longrightarrow> (\<And>v. leaves f (b v)) \<Longrightarrow> leaves f (case s of Garbled \<Rightarrow> a | Stored v \<Rightarrow> b v)"
  by (cases s) auto

lemma leaves_append_log [leaves_intros]:
  assumes "contents f" "\<And>g w. f (on g w) = f w"
  shows "leaves f (append_log on n v)"
  unfolding append_log_def using assms by (intro leaves_intros)

subsection \<open>A store that holds nothing yet\<close>

text \<open>A working disk with nothing on it, for the examples.\<close>

definition fresh_world :: world where
  "fresh_world =
     \<lparr>w_log = empty_log, w_pending = [], w_answers = [], w_sessions = [], w_matches = [], w_calls = [],
      w_calls_dir = False, w_calls_stamp = None, w_extras = None, w_figures = None, w_org = None,
      w_keys = \<lparr>ks_public = None, ks_rotation = None, ks_pin = None, ks_blob = None, ks_new_blob = None, ks_enrolment = None\<rparr>,
      w_outcomes = (\<lambda>_. Works), w_accesses = 0, w_random = (\<lambda>_. ''0123456789abcdef''), w_drawn = 0,
      w_clock = zero_time, w_env_bytes = (\<lambda>_. 900), w_match_bytes = (\<lambda>_. 90), w_call_bytes = (\<lambda>_. 70)\<rparr>"

lemma fresh_world_sound [simp]: "sound_disk fresh_world"
  by (simp add: sound_disk_def fresh_world_def)

end
