(* ===== verification/Ledger.thy ===== *)
theory Ledger
  imports LedgerState
begin

text \<open>
  The boundary ledger (\<open>internal/infra/boundaryledger/boundaryledger.go\<close>): the decision log and
  how it is pruned and read, the pending decisions and the answers kept by decision id, the
  counters kept by session, and the daemon's figures and the organisation's rules.
\<close>

subsection \<open>The decision log\<close>

definition pruneAbove :: nat where "pruneAbove = 4194304"
definition keepLines :: nat where "keepLines = 5000"

text \<open>\<open>bytes.TrimRight(b, "\n")\<close> drops empty lines at the end.\<close>

definition trim_lines :: "(nat \<times> 'a option) list \<Rightarrow> (nat \<times> 'a option) list" where
  "trim_lines ls = rev (dropWhile (\<lambda>(n, _). n = 0) (rev ls))"

definition prune :: "(world, unit) io" where
  "prune =
     io_bind (read_file w_log) (\<lambda>l.
       let ls = trim_lines (jl_lines l)
       in if length ls \<le> keepLines then ret ()
          else write_file (w_log_update (\<lambda>_. whole_log (drop (length ls - keepLines) ls))))"

definition Append :: "envelope option \<Rightarrow> (world, unit) io" where
  "Append env =
     (case env of
        None \<Rightarrow> ret ()
      | Some e \<Rightarrow>
          (case ev_payload e of
             POther ty \<Rightarrow> fail (Failed (''boundary ledger holds decisions only, got '' @ ty))
           | PDecision _ \<Rightarrow>
               io_bind (look (\<lambda>w. w_env_bytes w e)) (\<lambda>n.
               io_then (append_log w_log_update n e)
               (io_bind (attempt (read_file w_log)) (\<lambda>st.
                  case st of Inl _ \<Rightarrow> ret () | Inr l \<Rightarrow> if pruneAbove < log_size l then prune else ret ())))))"

definition maxLine :: nat where "maxLine = 1048576"

definition Read :: "(world, envelope list) io" where
  "Read =
     io_bind (read_file w_log) (\<lambda>l.
       if scan_fails maxLine l then fail (Failed ''bufio.Scanner: token too long'')
       else ret (filter (\<lambda>e. ev_id e \<noteq> []) (scan maxLine l)))"

definition Decision :: "string \<Rightarrow> (world, envelope list) io" where
  "Decision i = io_bind Read (\<lambda>es. ret (filter (\<lambda>e. ev_decision e = i) es))"

subsection \<open>Files kept by an id\<close>

fun quote_char :: "char \<Rightarrow> string" where
  "quote_char c =
     (let n = (of_char c :: nat)
      in if c = CHR 0x22 \<or> c = CHR 0x5C then [CHR 0x5C, c]
         else if n = 7 then [CHR 0x5C, CHR ''a''] else if n = 8 then [CHR 0x5C, CHR ''b'']
         else if n = 9 then [CHR 0x5C, CHR ''t''] else if n = 10 then [CHR 0x5C, CHR ''n'']
         else if n = 11 then [CHR 0x5C, CHR ''v''] else if n = 12 then [CHR 0x5C, CHR ''f'']
         else if n = 13 then [CHR 0x5C, CHR ''r'']
         else if n < 32 \<or> n = 127 then [CHR 0x5C, CHR ''x''] @ hex_encode [c]
         else [c])"

text \<open>\<open>%q\<close> of an ASCII string.\<close>

definition quoted :: "string \<Rightarrow> string" where
  "quoted s = [CHR 0x22] @ concat (map quote_char s) @ [CHR 0x22]"

definition idPath :: "string \<Rightarrow> (world, unit) io" where
  "idPath i = (if valid_id i then ret () else fail (Failed (''invalid decision id '' @ quoted i)))"

text \<open>\<open>json.Marshal\<close> refuses a float that is not finite.\<close>

definition f_finite :: "f64 \<Rightarrow> bool" where
  "f_finite v \<longleftrightarrow> (case v of Fin _ \<Rightarrow> True | _ \<Rightarrow> False)"

definition marshal :: "bool \<Rightarrow> (world, unit) io" where
  "marshal ok = (if ok then ret () else fail (Failed ''json: unsupported value''))"

definition putJSON :: "(('v dir \<Rightarrow> 'v dir) \<Rightarrow> world \<Rightarrow> world) \<Rightarrow> bool \<Rightarrow> string \<Rightarrow> 'v \<Rightarrow> (world, unit) io" where
  "putJSON on ok i v = io_then (idPath i) (io_then (marshal ok) (write_file (on (AList.update i (Stored v)))))"

definition getJSON :: "(world \<Rightarrow> 'v dir) \<Rightarrow> string \<Rightarrow> (world, 'v option) io" where
  "getJSON f i = io_then (idPath i) (io_bind (read_file (\<lambda>w. map_of (f w) i)) decode)"

definition crossings_json :: "crossing list \<Rightarrow> bool" where
  "crossings_json cs \<longleftrightarrow> list_all (\<lambda>c. f_finite (x_value c) \<and> f_finite (x_threshold c)) cs"

subsection \<open>Pending decisions\<close>

definition PutPending :: "pending \<Rightarrow> (world, unit) io" where
  "PutPending p = putJSON w_pending_update (crossings_json (pd_crossings p)) (pd_id p) p"

definition GetPending :: "string \<Rightarrow> (world, pending option) io" where
  "GetPending i = getJSON w_pending i"

definition DeletePending :: "string \<Rightarrow> (world, unit) io" where
  "DeletePending i = io_then (idPath i) (write_file (w_pending_update (AList.delete i)))"

text \<open>\<open>slices.SortFunc\<close> by a time, the newest first. Go promises no order between equal times;
up to twelve elements it keeps theirs, as here.\<close>

definition newest_first :: "('a \<Rightarrow> gotime) \<Rightarrow> 'a list \<Rightarrow> 'a list" where
  "newest_first f xs = sort_key (\<lambda>x. - t_ns (f x)) xs"

definition ListPending :: "(world, pending list) io" where
  "ListPending =
     io_bind (read_file (\<lambda>w. map fst (w_pending w))) (\<lambda>ids.
     io_bind (io_map (\<lambda>i. io_bind (attempt (GetPending i)) (\<lambda>r. ret (case r of Inr (Some p) \<Rightarrow> [p] | _ \<Rightarrow> []))) ids) (\<lambda>ps.
     ret (newest_first pd_at (concat ps))))"

subsection \<open>Answers\<close>

definition answerTTL :: duration where "answerTTL = 24 * hour"

definition PutAnswer :: "answer \<Rightarrow> (world, unit) io" where
  "PutAnswer a = putJSON w_answers_update (crossings_json (an_crossings a)) (an_id a) a"

definition GetAnswer :: "string \<Rightarrow> gotime \<Rightarrow> (world, answer option) io" where
  "GetAnswer i now =
     io_bind (getJSON w_answers i) (\<lambda>r. ret (case r of
         None \<Rightarrow> None | Some a \<Rightarrow> if answerTTL < Sub now (an_at a) then None else Some a))"

text \<open>The rename succeeds for one caller; removing the renamed file after it may fail.\<close>

definition ConsumeAnswer :: "string \<Rightarrow> (world, bool) io" where
  "ConsumeAnswer i =
     io_then (idPath i)
     (io_bind (read_file (\<lambda>w. map_of (w_answers w) i)) (\<lambda>r.
        case r of
          None \<Rightarrow> ret False
        | Some _ \<Rightarrow> io_then (change (w_answers_update (AList.delete i))) (io_then (attempt reach) (ret True))))"

subsection \<open>Session counters\<close>

fun sessionKey_chars :: "string \<Rightarrow> string" where
  "sessionKey_chars [] = []"
| "sessionKey_chars [c] = (if c = CHR ''/'' \<or> c = CHR 0x5C then ''_'' else [c])"
| "sessionKey_chars (c # d # cs) =
     (if c = CHR ''/'' \<or> c = CHR 0x5C then CHR ''_'' # sessionKey_chars (d # cs)
      else if c = CHR ''.'' \<and> d = CHR ''.'' then CHR ''_'' # sessionKey_chars cs
      else c # sessionKey_chars (d # cs))"

definition sessionKey :: "string \<Rightarrow> string" where
  "sessionKey i = (let safe = sessionKey_chars i in if safe = [] then ''default'' else safe)"

definition GetSession :: "string \<Rightarrow> (world, session) io" where
  "GetSession i = io_bind (getJSON w_sessions (sessionKey i)) (\<lambda>r. ret (case r of None \<Rightarrow> no_session | Some s \<Rightarrow> s))"

definition PutSession :: "string \<Rightarrow> session \<Rightarrow> (world, unit) io" where
  "PutSession i s = putJSON w_sessions_update True (sessionKey i) s"

definition matchLogCap :: nat where "matchLogCap = 65536"

definition count_rules :: "string list \<Rightarrow> (string \<Rightarrow> int option) \<Rightarrow> (string \<Rightarrow> int option)" where
  "count_rules rs m = foldl (\<lambda>m r. m(r \<mapsto> (case m r of None \<Rightarrow> 1 | Some n \<Rightarrow> n + 1))) m rs"

definition add_counts :: "(string \<Rightarrow> int option) \<Rightarrow> (string \<Rightarrow> int option) \<Rightarrow> (string \<Rightarrow> int option)" where
  "add_counts a b = (\<lambda>r. case b r of None \<Rightarrow> a r | Some n \<Rightarrow> Some ((case a r of None \<Rightarrow> 0 | Some k \<Rightarrow> k) + n))"

definition read_match_line :: "session \<Rightarrow> match_line \<Rightarrow> session" where
  "read_match_line s l =
     s\<lparr>se_matches := add_counts (count_rules (ml_rules l) (se_matches s)) (ml_counts l),
       se_last := (if After (ml_at l) (se_last s) then ml_at l else se_last s)\<rparr>"

text \<open>A log that cannot be opened counts nothing, and one with a line too long for the scanner
counts the lines before it.\<close>

definition match_log :: "string \<Rightarrow> world \<Rightarrow> match_line jsonl" where
  "match_log key w = (case map_of (w_matches w) key of None \<Rightarrow> empty_log | Some l \<Rightarrow> l)"

definition readMatchLog :: "string \<Rightarrow> (world, session) io" where
  "readMatchLog key =
     io_bind (attempt (read_file (match_log key))) (\<lambda>r.
       ret (case r of Inl _ \<Rightarrow> no_session | Inr l \<Rightarrow> foldl read_match_line no_session (scan matchLogCap l)))"

definition on_match_log :: "string \<Rightarrow> (match_line jsonl \<Rightarrow> match_line jsonl) \<Rightarrow> world \<Rightarrow> world" where
  "on_match_log key f w = w\<lparr>w_matches := AList.update key (f (match_log key w)) (w_matches w)\<rparr>"

definition foldMatchLog :: "string \<Rightarrow> (world, unit) io" where
  "foldMatchLog key =
     io_bind (readMatchLog key) (\<lambda>s.
       let l = \<lparr>ml_at = se_last s, ml_rules = [], ml_counts = se_matches s\<rparr>
       in io_bind (look (\<lambda>w. w_match_bytes w l)) (\<lambda>n. write_file (on_match_log key (\<lambda>_. whole_log [(n, Some l)]))))"

definition AddMatches :: "string \<Rightarrow> string list \<Rightarrow> gotime \<Rightarrow> (world, unit) io" where
  "AddMatches i rules t =
     (if rules = [] then ret ()
      else let key = sessionKey i; l = \<lparr>ml_at = UTC t, ml_rules = rules, ml_counts = Map.empty\<rparr>
           in io_bind (look (\<lambda>w. w_match_bytes w l)) (\<lambda>n.
              io_then (append_log (on_match_log key) n l)
              (io_bind (attempt (read_file (match_log key))) (\<lambda>st.
                 case st of Inl _ \<Rightarrow> ret () | Inr lg \<Rightarrow> if matchLogCap < log_size lg then foldMatchLog key else ret ()))))"

definition mergeSession :: "session \<Rightarrow> session \<Rightarrow> session" where
  "mergeSession a b =
     \<lparr>se_matches = add_counts (se_matches a) (se_matches b),
      se_recorded = se_recorded a ++ se_recorded b,
      se_last = (if After (se_last b) (se_last a) then se_last b else se_last a)\<rparr>"

text \<open>One session's counters: its file, where it reads, and then its log.\<close>

definition session_counters :: "string \<Rightarrow> (world, string \<times> session) io" where
  "session_counters key =
     io_bind (attempt (getJSON w_sessions key)) (\<lambda>r.
       let s = (case r of Inr (Some s) \<Rightarrow> mergeSession no_session s | _ \<Rightarrow> no_session)
       in io_bind (look (\<lambda>w. map_of (w_matches w) key)) (\<lambda>l.
            case l of None \<Rightarrow> ret (key, s)
            | Some _ \<Rightarrow> io_bind (readMatchLog key) (\<lambda>m. ret (key, mergeSession s m))))"

definition Sessions :: "(world, (string \<times> session) list) io" where
  "Sessions =
     io_bind (read_file (\<lambda>w. remdups (map fst (w_sessions w) @ map fst (w_matches w)))) (io_map session_counters)"

subsection \<open>Figures and the organisation's rules\<close>

definition CountsFor :: "budget_reading \<Rightarrow> string \<Rightarrow> bool" where
  "CountsFor r provider \<longleftrightarrow> br_provider r = [] \<or> provider = [] \<or> br_provider r = provider"

definition add_budget :: "(string \<times> f64) list \<Rightarrow> budget_reading \<Rightarrow> (string \<times> f64) list" where
  "add_budget out r =
     (let out = AList.update (br_key r) (br_used_pct r) out
      in if br_key r = br_budget r then out
         else case map_of out (br_budget r) of
                None \<Rightarrow> AList.update (br_budget r) (br_used_pct r) out
              | Some cur \<Rightarrow> if f_lt cur (br_used_pct r) then AList.update (br_budget r) (br_used_pct r) out else out)"

definition BudgetsUsedPct :: "budget_reading list \<Rightarrow> (string \<times> f64) list" where
  "BudgetsUsedPct readings = foldl add_budget [] readings"

definition reading_json :: "budget_reading \<Rightarrow> bool" where
  "reading_json r \<longleftrightarrow> list_all f_finite [br_used r, br_limit r, br_used_pct r, br_warn_pct r, br_crit_pct r]"

definition figures_json :: "figures \<Rightarrow> bool" where
  "figures_json f \<longleftrightarrow>
     list_all (\<lambda>(_, m). list_all (\<lambda>(_, v). f_finite v) m) (fi_plan_left f @ fi_plan_early f) \<and>
     list_all (\<lambda>(_, v). f_finite v) (fi_budget_used f) \<and> list_all reading_json (fi_budgets f)"

definition PutFigures :: "figures \<Rightarrow> (world, unit) io" where
  "PutFigures f = io_then (marshal (figures_json f)) (write_file (w_figures_update (\<lambda>_. Some (Stored f))))"

definition GetFigures :: "(world, figures option) io" where
  "GetFigures = io_bind (read_file w_figures) decode"

definition PutOrg :: "string \<Rightarrow> (world, unit) io" where
  "PutOrg doc = write_file (\<lambda>w. w\<lparr>w_org := Some (doc, w_clock w)\<rparr>)"

definition GetOrg :: "(world, string option) io" where
  "GetOrg = read_file (\<lambda>w. map_option fst (w_org w))"

definition OrgModTime :: "(world, gotime) io" where
  "OrgModTime =
     io_bind (attempt (read_file w_org)) (\<lambda>r. ret (case r of Inr (Some (_, t)) \<Rightarrow> t | _ \<Rightarrow> zero_time))"

definition RemoveOrg :: "(world, unit) io" where
  "RemoveOrg = write_file (w_org_update (\<lambda>_. None))"

subsection \<open>A budget window in words\<close>

definition amount :: "budget_reading \<Rightarrow> f64 \<Rightarrow> string" where
  "amount r v =
     (if br_basis r \<noteq> ''tokens'' then ''$'' @ fmt_fixed 2 v
      else let n = (case v of Fin x \<Rightarrow> (if 0 \<le> x then \<lfloor>x\<rfloor> else \<lceil>x\<rceil>) | _ \<Rightarrow> - (2 ^ 63))
           in if 1000000 \<le> n then fmt_fixed 1 (round64 (of_int n / 1000000)) @ ''M tokens''
              else if 1000 \<le> n then itoa (n div 1000) @ ''k tokens''
              else itoa n @ '' tokens'')"

definition LeftWords :: "budget_reading \<Rightarrow> string" where
  "LeftWords r =
     (let spent = (case br_used_pct r of Fin x \<Rightarrow> \<lfloor>x\<rfloor> | _ \<Rightarrow> - (2 ^ 63))
      in if f_le (Fin 100) (br_used_pct r)
         then (if f_lt (Fin 0) (br_limit r)
               then ''used up, '' @ amount r (br_used r) @ '' of '' @ amount r (br_limit r) @ '' spent''
               else ''used up'')
         else if f_lt (Fin 0) (br_limit r)
         then amount r (f_max (Fin 0) (f_sub (br_limit r) (br_used r))) @ '' of '' @ amount r (br_limit r) @
              '' left, '' @ itoa spent @ ''% spent''
         else itoa (100 - spent) @ ''% left, '' @ itoa spent @ ''% spent'')"

subsection \<open>Directories of files\<close>

text \<open>What the callers of a directory of files rely on: a value put under an id is the one got
from it, by every later reader and under no other id, as long as the disk works.\<close>

locale id_files =
  fixes got :: "string \<Rightarrow> (world, 'v option) io"
    and put :: "string \<Rightarrow> 'v \<Rightarrow> (world, unit) io"
    and fit :: "'v \<Rightarrow> bool"
  assumes put_works: "sound_disk w \<Longrightarrow> valid_id i \<Longrightarrow> fit v \<Longrightarrow> \<exists>w'. put i v w = (Inr (), w') \<and> sound_disk w'"
    and got_put: "sound_disk w \<Longrightarrow> put i v w = (Inr (), w') \<Longrightarrow> fst (got i w') = Inr (Some v)"
    and got_other: "sound_disk w \<Longrightarrow> put i v w = (Inr (), w') \<Longrightarrow> j \<noteq> i \<Longrightarrow> fst (got j w') = fst (got j w)"
    and put_fits: "put i v w = (Inr (), w') \<Longrightarrow> valid_id i \<and> fit v"
    and sound_put: "sound_disk w \<Longrightarrow> put i v w = (r, w') \<Longrightarrow> sound_disk w'"
begin

lemma put_then_got:
  assumes "sound_disk w" "valid_id i" "fit v"
  shows "fst (io_then (put i v) (got i) w) = Inr (Some v)"
proof -
  from put_works [OF assms] obtain w' where "put i v w = (Inr (), w')" by blast
  with got_put [OF assms(1) this] show ?thesis by (simp add: run_then)
qed

lemma last_put_wins:
  assumes "sound_disk w" "valid_id i" "fit v" "fit v'"
  shows "fst (io_then (put i v) (io_then (put i v') (got i)) w) = Inr (Some v')"
proof -
  from put_works [OF assms(1-3)] obtain w' where "put i v w = (Inr (), w')" "sound_disk w'" by blast
  with put_then_got [of w' i v'] assms show ?thesis by (simp add: run_then)
qed

lemma puts_apart:
  assumes "sound_disk w" "valid_id i" "fit v" "valid_id j" "fit v'" "i \<noteq> j"
  shows "fst (io_then (put i v) (io_then (put j v') (got i)) w) = Inr (Some v)"
proof -
  from put_works [OF assms(1-3)] obtain w' where p: "put i v w = (Inr (), w')" "sound_disk w'" by blast
  from put_works [OF p(2) assms(4,5)] obtain w'' where q: "put j v' w' = (Inr (), w'')" by blast
  have "fst (got i w'') = fst (got i w')" using got_other [OF p(2) q] assms(6) by simp
  with got_put [OF assms(1) p(1)] p(1) q show ?thesis by (simp add: run_then)
qed

end

text \<open>A directory of the state, by how it is read and how it is changed.\<close>

locale json_dir =
  fixes dir :: "world \<Rightarrow> 'v dir" and on :: "('v dir \<Rightarrow> 'v dir) \<Rightarrow> world \<Rightarrow> world" and fit :: "'v \<Rightarrow> bool"
  assumes dir_on: "dir (on f w) = f (dir w)"
    and dir_contents: "contents dir"
    and sound_on: "sound_disk (on f w) = sound_disk w"
begin

lemma dir_tick: "dir (tick w) = dir w"
  using dir_contents by (rule contents_tick)

lemma get_value:
  "sound_disk w \<Longrightarrow> valid_id i \<Longrightarrow> fst (getJSON dir i w) = fst (decode (map_of (dir w) i) w)"
  by (simp add: getJSON_def idPath_def runs dir_tick decode_def
      split: option.split stored.split)

lemma get_bad: "\<not> valid_id i \<Longrightarrow> fst (getJSON dir i w) = Inl (Failed (''invalid decision id '' @ quoted i))"
  by (simp add: getJSON_def idPath_def io_then_def io_bind_def)

lemma put_value:
  "sound_disk w \<Longrightarrow> valid_id i \<Longrightarrow> fit v \<Longrightarrow>
     putJSON on (fit v) i v w = (Inr (), on (AList.update i (Stored v)) (tick w))"
  by (simp add: putJSON_def idPath_def marshal_def runs)

lemma put_fit: "putJSON on (fit v) i v w = (Inr (), w') \<Longrightarrow> valid_id i \<and> fit v"
  by (auto simp: putJSON_def idPath_def marshal_def then_Inr_iff split: if_splits)

end

sublocale json_dir \<subseteq> files: id_files "getJSON dir" "\<lambda>i v. putJSON on (fit v) i v" fit
proof
  fix w i and v :: 'v
  assume w: "sound_disk w" and "valid_id i" "fit v"
  from put_value [OF this] w show "\<exists>w'. putJSON on (fit v) i v w = (Inr (), w') \<and> sound_disk w'"
    by (simp add: sound_on)
next
  fix w i w' and v :: 'v
  assume w: "sound_disk w" and p: "putJSON on (fit v) i v w = (Inr (), w')"
  have i: "valid_id i" "fit v" using put_fit [OF p] by auto
  have w': "w' = on (AList.update i (Stored v)) (tick w)"
    using put_value [OF w i] p by simp
  have s: "sound_disk w'" using w by (simp add: w' sound_on)
  have d: "dir w' = AList.update i (Stored v) (dir w)" by (simp add: w' dir_on dir_tick)
  show "fst (getJSON dir i w') = Inr (Some v)" by (simp add: get_value [OF s i(1)] d map_of_dir decode_def)
  fix j assume "j \<noteq> i"
  then show "fst (getJSON dir j w') = fst (getJSON dir j w)"
    by (cases "valid_id j") (simp_all add: get_value w s get_bad d map_of_dir decode_def split: option.split stored.split)
next
  fix i w w' and v :: 'v
  assume "putJSON on (fit v) i v w = (Inr (), w')"
  then show "valid_id i \<and> fit v" by (rule put_fit)
next
  fix w i r w' and v :: 'v
  assume w: "sound_disk w" and p: "putJSON on (fit v) i v w = (r, w')"
  show "sound_disk w'"
  proof (cases "valid_id i \<and> fit v")
    case True
    then show ?thesis using put_value [OF w] p w by (auto simp: sound_on)
  next
    case False
    then have "w' = w" using p by (cases "valid_id i") (auto simp: putJSON_def idPath_def marshal_def io_then_def io_bind_def)
    with w show ?thesis by simp
  qed
qed

interpretation pendings: json_dir w_pending w_pending_update "\<lambda>p. crossings_json (pd_crossings p)"
  by unfold_locales (simp_all add: contents_def sound_disk_def)

interpretation answers: json_dir w_answers w_answers_update "\<lambda>a. crossings_json (an_crossings a)"
  by unfold_locales (simp_all add: contents_def sound_disk_def)

interpretation sessions: json_dir w_sessions w_sessions_update "\<lambda>_. True"
  by unfold_locales (simp_all add: contents_def sound_disk_def)

subsection \<open>Session keys\<close>

lemma keys_no_slash: "CHR ''/'' \<notin> set (sessionKey_chars s) \<and> CHR 0x5C \<notin> set (sessionKey_chars s)"
  by (induction s rule: sessionKey_chars.induct) auto

lemma keys_head: "sessionKey_chars (c # s) = CHR ''.'' # t \<Longrightarrow> c = CHR ''.''"
  by (cases s) (auto split: if_splits)

lemma keys_no_dots: "\<not> contains (sessionKey_chars s) ''..''"
proof (induction s rule: sessionKey_chars.induct)
  case (3 c d cs)
  have "\<not> has_prefix (c # sessionKey_chars (d # cs)) ''..''" if "\<not> (c = CHR ''.'' \<and> d = CHR ''.'')"
    using that by (auto simp: has_prefix_iff dest: keys_head)
  with 3 show ?case by (auto simp: has_prefix_def)
qed (auto simp: has_prefix_def)

lemma valid_sessionKey [simp]: "valid_id (sessionKey s)"
proof -
  have "\<not> contains ''default'' ''..''" by (simp add: has_prefix_def)
  with keys_no_slash [of s] keys_no_dots [of s] show ?thesis
    by (auto simp: valid_id_def sessionKey_def Let_def)
qed

text \<open>
  Whatever a harness calls its session, the name of the session's files is a valid id: it is
  not empty and has no slash, backslash or \<open>..\<close>, so it never leaves the ledger's directory
  (\<open>sessionKey\<close>, \<open>idPath\<close>).
\<close>
theorem session_files_stay_inside: "valid_id (sessionKey s)"
  by (rule valid_sessionKey)

subsection \<open>Answers are spent once\<close>

text \<open>The accesses that several processes make to the answers, in the order the disk takes them.\<close>

datatype answer_op = Give answer | Spend string | Ask string gotime

fun answer_step :: "answer_op \<Rightarrow> (world, bool) io" where
  "answer_step (Give a) = io_then (PutAnswer a) (ret False)"
| "answer_step (Spend i) = ConsumeAnswer i"
| "answer_step (Ask i now) = io_then (GetAnswer i now) (ret False)"

text \<open>How often a caller that raced for the answer to \<open>i\<close> was told it won.\<close>

fun wins :: "string \<Rightarrow> answer_op list \<Rightarrow> world \<Rightarrow> nat" where
  "wins i [] w = 0"
| "wins i (op # ops) w =
     (case answer_step op w of (r, w') \<Rightarrow> (if op = Spend i \<and> r = Inr True then 1 else 0) + wins i ops w')"

definition gives :: "string \<Rightarrow> answer_op list \<Rightarrow> nat" where
  "gives i ops = length (filter (\<lambda>op. case op of Give a \<Rightarrow> an_id a = i | _ \<Rightarrow> False) ops)"

definition kept :: "string \<Rightarrow> world \<Rightarrow> nat" where
  "kept i w = (if map_of (w_answers w) i = None then 0 else 1)"

lemma leaves_idPath [leaves_intros]: "leaves f (idPath i)"
  by (auto simp: idPath_def intro: leaves_intros)

lemma leaves_marshal [leaves_intros]: "leaves f (marshal b)"
  by (auto simp: marshal_def intro: leaves_intros)

lemma leaves_getJSON [leaves_intros]: "contents f \<Longrightarrow> leaves f (getJSON g i)"
  unfolding getJSON_def by (intro leaves_intros)

lemma leaves_putJSON [leaves_intros]:
  "contents f \<Longrightarrow> (\<And>g w. f (on g w) = f w) \<Longrightarrow> leaves f (putJSON on b i v)"
  unfolding putJSON_def by (intro leaves_intros)

lemma leaves_GetAnswer [leaves_intros]: "contents f \<Longrightarrow> leaves f (GetAnswer i now)"
  unfolding GetAnswer_def by (intro leaves_intros)

lemma leaves_GetPending [leaves_intros]: "contents f \<Longrightarrow> leaves f (GetPending i)"
  unfolding GetPending_def by (intro leaves_intros)

lemma reach_files: "contents f \<Longrightarrow> reach w = (r, w') \<Longrightarrow> f w' = f w"
  by (rule leavesD [OF leaves_reach])

lemma reach_answers: "reach w = (r, w') \<Longrightarrow> w_answers w' = w_answers w"
  by (rule reach_files) auto

lemma attempt_reach_answers: "attempt reach w = (r, w') \<Longrightarrow> w_answers w' = w_answers w"
  by (rule leavesD [OF leaves_attempt [OF leaves_reach]]) auto

lemma ConsumeAnswer_state:
  assumes "ConsumeAnswer i w = (r, w')"
  shows "(w_answers w' = w_answers w \<and> r \<noteq> Inr True) \<or>
         (w_answers w' = AList.delete i (w_answers w) \<and> map_of (w_answers w) i \<noteq> None \<and> r = Inr True)"
proof (cases "valid_id i")
  case False
  with assms show ?thesis by (auto simp: ConsumeAnswer_def idPath_def io_then_def io_bind_def fail_def)
next
  case True
  obtain r1 w1 where r1: "reach w = (r1, w1)" by fastforce
  have a1: "w_answers w1 = w_answers w" using reach_answers [OF r1] .
  obtain r2 w2 where r2: "attempt reach (w_answers_update (AList.delete i) w1) = (r2, w2)" by fastforce
  have a2: "w_answers w2 = AList.delete i (w_answers w1)" using attempt_reach_answers [OF r2] by simp
  have "\<exists>x. r2 = Inr x" using r2 by (auto simp: attempt_def split: prod.splits)
  with True assms r1 r2 a1 a2 show ?thesis
    by (cases r1; cases "map_of (w_answers w) i")
       (auto simp: ConsumeAnswer_def idPath_def read_file_def io_then_def io_bind_def look_def change_def)
qed

lemma PutAnswer_state:
  assumes "PutAnswer a w = (r, w')"
  shows "w_answers w' = w_answers w \<or> w_answers w' = AList.update (an_id a) (Stored a) (w_answers w)"
proof -
  obtain r1 w1 where r1: "reach w = (r1, w1)" by fastforce
  with assms reach_answers [OF r1] show ?thesis
    by (cases r1) (auto simp: PutAnswer_def putJSON_def idPath_def marshal_def write_file_def io_then_def io_bind_def
      change_def split: if_splits)
qed

lemma answer_step_counts:
  assumes "answer_step op w = (r, w')"
  shows "(if op = Spend i \<and> r = Inr True then 1 else 0) + kept i w' \<le> kept i w + gives i [op]"
proof (cases op)
  case (Give a)
  obtain r1 w1 where p: "PutAnswer a w = (r1, w1)" by fastforce
  then have "w1 = w'" using assms Give by (cases r1) (auto simp: io_then_def io_bind_def)
  with PutAnswer_state [OF p] Give show ?thesis by (auto simp: kept_def gives_def map_of_dir)
next
  case (Spend j)
  from ConsumeAnswer_state [of j w r w'] assms Spend show ?thesis by (auto simp: kept_def map_of_dir)
next
  case (Ask j now)
  have "leaves w_answers (answer_step op)" unfolding Ask by (auto intro!: leaves_intros)
  with leavesD [OF this assms] Ask show ?thesis by (simp add: kept_def)
qed

lemma gives_Cons: "gives i (op # ops) = gives i [op] + gives i ops"
  by (simp add: gives_def)

text \<open>
  C5: However several processes interleave their reads, writes and races for the answer to one
  decision, and whichever accesses fail, a caller is told it won the answer at most once for
  each time an answer was given (\<open>ConsumeAnswer\<close>): a one-step approval lets one call through.
\<close>
theorem answer_spent_once: "wins i ops w \<le> kept i w + gives i ops"
proof (induction ops arbitrary: w)
  case (Cons op ops)
  obtain r w' where s: "answer_step op w = (r, w')" by fastforce
  from answer_step_counts [OF s, of i] Cons [of w'] s show ?case
    using gives_Cons [of i op ops] by simp
qed simp

subsection \<open>The log keeps what is recorded, and stays bounded\<close>

lemma Append_sound:
  assumes "sound_disk w" "Append (Some e) w = (Inr (), w')"
  shows "\<exists>l. l = append_line (w_env_bytes w e) e (w_log w) \<and>
    (w_log w' = l \<and> (log_size l \<le> pruneAbove \<or> length (trim_lines (jl_lines l)) \<le> keepLines) \<or>
     w_log w' = whole_log (drop (length (trim_lines (jl_lines l)) - keepLines) (trim_lines (jl_lines l))))"
proof -
  obtain d where d: "ev_payload e = PDecision d"
    using assms(2) by (cases "ev_payload e") (auto simp: Append_def)
  let ?l = "append_line (w_env_bytes w e) e (w_log w)"
  let ?w1 = "tick (w_log_update (append_line (w_env_bytes w e) e) (tick w))"
  have s1: "sound_disk (w_log_update (append_line (w_env_bytes w e) e) (tick w))" and s2: "sound_disk ?w1"
    using assms(1) by simp_all
  have log: "w_log ?w1 = ?l" by simp
  have "Append (Some e) w = (if pruneAbove < log_size ?l then prune ?w1 else (Inr (), ?w1))"
    using assms(1) d s1 log
    by (simp add: Append_def runs)
  moreover have "prune ?w1 =
      (if length (trim_lines (jl_lines ?l)) \<le> keepLines then (Inr (), tick ?w1)
       else (Inr (), w_log_update (\<lambda>_. whole_log (drop (length (trim_lines (jl_lines ?l)) - keepLines) (trim_lines (jl_lines ?l)))) (tick (tick ?w1))))"
    using s2 by (simp add: prune_def runs Let_def)
  ultimately show ?thesis using assms(2) by (auto split: if_splits)
qed

lemma length_trim_lines: "length (trim_lines ls) \<le> length ls"
  by (metis trim_lines_def length_dropWhile_le length_rev)

text \<open>
  Recording a decision leaves the log at no more than four megabytes, or no more than five
  thousand lines once the empty lines at its end are dropped: an append past the size rewrites
  it (\<open>Append\<close>, \<open>prune\<close>).
\<close>
theorem ledger_bounded:
  assumes "sound_disk w" "Append (Some e) w = (Inr (), w')"
  shows "log_size (w_log w') \<le> pruneAbove \<or> length (trim_lines (jl_lines (w_log w'))) \<le> keepLines"
  using Append_sound [OF assms]
proof (elim exE conjE disjE)
  fix l assume "w_log w' = whole_log (drop (length (trim_lines (jl_lines l)) - keepLines) (trim_lines (jl_lines l)))"
  then have "length (jl_lines (w_log w')) \<le> keepLines" by (simp add: whole_log_def)
  with length_trim_lines [of "jl_lines (w_log w')"] show ?thesis by simp
qed auto

text \<open>One decision, for the examples.\<close>

definition sample_event :: envelope where
  "sample_event =
     \<lparr>ev_id = ''e1'', ev_timestamp = zero_time, ev_source = ''boundary'', ev_actor = ''claude-code:web'', ev_decision = ''bnd-1'',
      ev_payload = PDecision
        \<lparr>de_kind = ''boundary'', de_stage = DecisionStageProposed, de_alternatives = [no_option], de_selected = no_option,
         de_evidence = [], de_policy = ''boundary:cap'', de_authority = ''require_approval'', de_confidence = Fin 1,
         de_rationale = ''session cost'', de_executable = True, de_adapter = ''claude-code-hook'', de_actor = no_actor,
         de_approval = no_approval\<rparr>\<rparr>"

lemma Append_fresh: "Append (Some sample_event) fresh_world = (Inr (), snd (Append (Some sample_event) fresh_world))"
  by (rule runs_to) code_simp

theorem ledger_bounded_witness:
  "log_size (w_log (snd (Append (Some sample_event) fresh_world))) \<le> pruneAbove \<or>
   length (trim_lines (jl_lines (w_log (snd (Append (Some sample_event) fresh_world))))) \<le> keepLines"
  by (rule ledger_bounded [OF fresh_world_sound Append_fresh])

lemma scan_whole: "\<not> scan_fails cap l \<Longrightarrow> scan cap l = List.map_filter snd (jl_lines l)"
  unfolding scan_fails_def scan_def by (simp add: list_all_iff takeWhile_eq_all_conv [THEN iffD2])

lemma Read_sound:
  "sound_disk w \<Longrightarrow> \<not> scan_fails maxLine (w_log w) \<Longrightarrow>
     fst (Read w) = Inr (filter (\<lambda>e. ev_id e \<noteq> []) (List.map_filter snd (jl_lines (w_log w))))"
  by (simp add: Read_def runs scan_whole)

lemma trim_lines_snoc: "0 < n \<Longrightarrow> trim_lines (ls @ [(n, v)]) = ls @ [(n, v)]"
  by (simp add: trim_lines_def)

lemma leaves_prune [leaves_intros]: "contents f \<Longrightarrow> (\<And>g w. f (w_log_update g w) = f w) \<Longrightarrow> leaves f prune"
  unfolding prune_def Let_def by (intro leaves_intros; simp)

lemma leaves_Append [leaves_intros]:
  "contents f \<Longrightarrow> (\<And>g w. f (w_log_update g w) = f w) \<Longrightarrow> leaves f (Append env)"
  unfolding Append_def by (intro leaves_intros; simp)

lemma sound_Append:
  assumes "sound_disk w" "Append env w = (r, w')"
  shows "sound_disk w'"
  using leavesD [OF leaves_Append [of sound_disk] assms(2)] assms(1) by simp

lemma Append_read_last:
  assumes "sound_disk w" "Append (Some e) w = (Inr (), w')"
    and "\<not> scan_fails maxLine (w_log w)" "\<not> jl_open (w_log w)"
    and "ev_id e \<noteq> []" "0 < w_env_bytes w e" "w_env_bytes w e < maxLine"
  shows "\<exists>old. fst (Read w') = Inr (old @ [e])"
proof -
  let ?ls = "jl_lines (w_log w) @ [(w_env_bytes w e, Some e)]"
  let ?k = "length ?ls - keepLines"
  have l: "jl_lines (append_line (w_env_bytes w e) e (w_log w)) = ?ls"
    using assms(4) by (simp add: append_line_def add_bytes_def joins_def)
  have w': "jl_lines (w_log w') = ?ls \<or> jl_lines (w_log w') = drop ?k ?ls"
    using Append_sound [OF assms(1,2)] assms(6) by (auto simp: l trim_lines_snoc whole_log_def)
  have "0 < keepLines" by (simp add: keepLines_def)
  then have "?k \<le> length (jl_lines (w_log w))" by simp
  with w' obtain k where k: "jl_lines (w_log w') = drop k (jl_lines (w_log w)) @ [(w_env_bytes w e, Some e)]"
    by (metis append_Nil2 drop0 drop_append diff_is_0_eq drop_0)
  have "list_all (\<lambda>(n, _). n < maxLine) (jl_lines (w_log w'))"
    using assms(3,7) by (auto simp: k scan_fails_def list_all_iff dest: in_set_dropD)
  then have "\<not> scan_fails maxLine (w_log w')" by (simp add: scan_fails_def)
  from Read_sound [OF sound_Append [OF assms(1,2)] this] assms(5) show ?thesis
    by (simp add: k List.map_filter_simps)
qed

text \<open>
  A decision recorded on a working disk, in a log that ends with a whole line, is the last
  one the log then reads, after those still kept (\<open>Append\<close>, \<open>prune\<close>, \<open>Read\<close>), whether or not
  the append cut the log back.
\<close>
theorem recorded_is_read_last:
  assumes "sound_disk w" "Append (Some e) w = (Inr (), w')"
    and "\<not> scan_fails maxLine (w_log w)" "\<not> jl_open (w_log w)"
    and "ev_id e \<noteq> []" "0 < w_env_bytes w e" "w_env_bytes w e < maxLine"
  shows "\<exists>old. fst (Read w') = Inr (old @ [e])"
  by (rule Append_read_last [OF assms])

theorem recorded_is_read_last_witness:
  "\<exists>old. fst (Read (snd (Append (Some sample_event) fresh_world))) = Inr (old @ [sample_event])"
  by (rule recorded_is_read_last [OF fresh_world_sound Append_fresh])
    (simp_all add: fresh_world_def sample_event_def empty_log_def scan_fails_def maxLine_def)

subsection \<open>What each operation leaves alone\<close>

lemma leaves_PutPending [leaves_intros]:
  "contents f \<Longrightarrow> (\<And>g w. f (w_pending_update g w) = f w) \<Longrightarrow> leaves f (PutPending p)"
  unfolding PutPending_def by (intro leaves_intros; simp)

lemma leaves_DeletePending [leaves_intros]:
  "contents f \<Longrightarrow> (\<And>g w. f (w_pending_update g w) = f w) \<Longrightarrow> leaves f (DeletePending i)"
  unfolding DeletePending_def by (intro leaves_intros; simp)

lemma leaves_PutAnswer [leaves_intros]:
  "contents f \<Longrightarrow> (\<And>g w. f (w_answers_update g w) = f w) \<Longrightarrow> leaves f (PutAnswer a)"
  unfolding PutAnswer_def by (intro leaves_intros; simp)

lemma leaves_ConsumeAnswer [leaves_intros]:
  "contents f \<Longrightarrow> (\<And>g w. f (w_answers_update g w) = f w) \<Longrightarrow> leaves f (ConsumeAnswer i)"
  unfolding ConsumeAnswer_def by (intro leaves_intros; simp)

lemma leaves_Read [leaves_intros]: "contents f \<Longrightarrow> leaves f Read"
  unfolding Read_def by (intro leaves_intros)

lemma leaves_GetSession [leaves_intros]: "contents f \<Longrightarrow> leaves f (GetSession i)"
  unfolding GetSession_def by (intro leaves_intros)

lemma leaves_PutSession [leaves_intros]:
  "contents f \<Longrightarrow> (\<And>g w. f (w_sessions_update g w) = f w) \<Longrightarrow> leaves f (PutSession i s)"
  unfolding PutSession_def by (intro leaves_intros; simp)

lemma leaves_readMatchLog [leaves_intros]: "contents f \<Longrightarrow> leaves f (readMatchLog k)"
  unfolding readMatchLog_def by (intro leaves_intros)

lemma leaves_AddMatches [leaves_intros]:
  "contents f \<Longrightarrow> (\<And>g w. f (w_matches_update g w) = f w) \<Longrightarrow> leaves f (AddMatches i rs t)"
  unfolding AddMatches_def foldMatchLog_def on_match_log_def Let_def by (intro leaves_intros; simp)

lemma leaves_GetFigures [leaves_intros]: "contents f \<Longrightarrow> leaves f GetFigures"
  unfolding GetFigures_def by (intro leaves_intros)

end
