(* ===== verification/Calls.thy ===== *)
theory Calls
  imports Ledger
begin

text \<open>
  Each session's latest tool calls, kept for the loop breaker
  (\<open>internal/infra/boundaryledger/calls.go\<close>): one line per call, cut back to the newest window
  once the log is large, and logs of idle sessions removed at most once an hour.
\<close>

subsection \<open>Operations\<close>

definition callLogCap :: nat where "callLogCap = 16384"
definition callLogIdle :: duration where "callLogIdle = 24 * hour"
definition callPruneEvery :: duration where "callPruneEvery = hour"

text \<open>\<open>bufio.Scanner\<close>'s own limit on a line.\<close>

definition scannerMax :: nat where "scannerMax = 65536"

definition call_log :: "string \<Rightarrow> world \<Rightarrow> tool_call jsonl" where
  "call_log session w = (case map_of (w_calls w) (sessionKey session) of None \<Rightarrow> empty_log | Some (l, _) \<Rightarrow> l)"

text \<open>A write stamps the file with the system's clock, and makes the directory first.\<close>

definition on_call_log :: "string \<Rightarrow> (tool_call jsonl \<Rightarrow> tool_call jsonl) \<Rightarrow> world \<Rightarrow> world" where
  "on_call_log session f w =
     w\<lparr>w_calls := AList.update (sessionKey session) (f (call_log session w), w_clock w) (w_calls w), w_calls_dir := True\<rparr>"

text \<open>The loop over the lines keeps at most two windows, and cuts back to one.\<close>

definition recent_step :: "tool_call list \<Rightarrow> tool_call \<Rightarrow> tool_call list" where
  "recent_step out c =
     (if tc_tool c = [] then out
      else let out = out @ [c]
           in if 2 * LoopWindow < length out then drop (length out - LoopWindow) out else out)"

definition recent_window :: "tool_call list \<Rightarrow> tool_call list" where
  "recent_window cs =
     (let out = foldl recent_step [] cs
      in if LoopWindow < length out then drop (length out - LoopWindow) out else out)"

definition RecentCalls :: "string \<Rightarrow> (world, tool_call list) io" where
  "RecentCalls session =
     io_bind (read_file (call_log session)) (\<lambda>l.
       if scan_fails scannerMax l then fail (Failed ''bufio.Scanner: token too long'')
       else ret (recent_window (scan scannerMax l)))"

definition cutCallLog :: "string \<Rightarrow> (world, unit) io" where
  "cutCallLog session =
     io_bind (RecentCalls session) (\<lambda>cs.
     io_bind (look w_call_bytes) (\<lambda>bytes.
       write_file (on_call_log session (\<lambda>_. whole_log (map (\<lambda>c. (bytes c, Some c)) cs)))))"

definition AppendCall :: "string \<Rightarrow> tool_call \<Rightarrow> (world, unit) io" where
  "AppendCall session c =
     io_bind (look (\<lambda>w. w_call_bytes w c)) (\<lambda>n.
     io_then (append_log (on_call_log session) n c)
     (io_bind (attempt (read_file (call_log session))) (\<lambda>st.
        case st of Inl _ \<Rightarrow> ret () | Inr l \<Rightarrow> if callLogCap < log_size l then cutCallLog session else ret ())))"

definition idle :: "gotime \<Rightarrow> string \<Rightarrow> world \<Rightarrow> bool" where
  "idle now key w \<longleftrightarrow> (case map_of (w_calls w) key of None \<Rightarrow> False | Some (_, t) \<Rightarrow> callLogIdle \<le> Sub now t)"

definition prune_call_log :: "gotime \<Rightarrow> string \<Rightarrow> (world, unit) io" where
  "prune_call_log now key =
     io_bind (attempt (read_file (idle now key))) (\<lambda>r.
       case r of
         Inr True \<Rightarrow> io_then (attempt (write_file (w_calls_update (AList.delete key)))) (ret ())
       | _ \<Rightarrow> ret ())"

text \<open>Whether the hour is not over, or there is nothing to scan.\<close>

definition prune_not_due :: "gotime \<Rightarrow> (world, bool) io" where
  "prune_not_due now =
     io_bind (attempt (read_file w_calls_stamp)) (\<lambda>r.
       case r of
         Inr (Some t) \<Rightarrow> ret (Sub now t < callPruneEvery)
       | Inr None \<Rightarrow> io_bind (attempt (read_file w_calls_dir)) (\<lambda>d. ret (d = Inr False))
       | Inl _ \<Rightarrow> ret False)"

definition PruneCalls :: "gotime \<Rightarrow> (world, unit) io" where
  "PruneCalls now =
     io_bind (prune_not_due now) (\<lambda>skip.
       if skip then ret ()
       else io_bind (look w_calls_dir) (\<lambda>dir.
            if \<not> dir then io_then reach (fail (Failed ''no such file or directory''))
            else io_then (write_file (\<lambda>w. w\<lparr>w_calls_stamp := Some (w_clock w)\<rparr>))
                 (io_then (write_file (w_calls_stamp_update (\<lambda>_. Some now)))
                 (io_bind (read_file (\<lambda>w. map fst (w_calls w))) (each (prune_call_log now))))))"

subsection \<open>The newest window\<close>

text \<open>What the loop computes: the newest \<open>LoopWindow\<close> calls that name a tool.\<close>

definition newest :: "nat \<Rightarrow> 'a list \<Rightarrow> 'a list" where
  "newest n xs = drop (length xs - n) xs"

lemma length_newest [simp]: "length (newest n xs) = min n (length xs)"
  by (simp add: newest_def)

lemma newest_append: "n \<le> length ys \<Longrightarrow> newest n (xs @ ys) = newest n ys"
  by (simp add: newest_def)

definition named :: "tool_call list \<Rightarrow> tool_call list" where
  "named cs = filter (\<lambda>c. tc_tool c \<noteq> []) cs"

text \<open>The loop's invariant: it holds the newest calls, at least a window of them if there are
so many, and never more than two.\<close>

definition holds_newest :: "tool_call list \<Rightarrow> tool_call list \<Rightarrow> bool" where
  "holds_newest cs out \<longleftrightarrow>
     (\<exists>k. out = newest k cs \<and> (k < length cs \<longrightarrow> LoopWindow \<le> k)) \<and> length out \<le> 2 * LoopWindow"

lemma newest_all: "length xs \<le> k \<Longrightarrow> newest k xs = xs"
  by (simp add: newest_def)

lemma newest_newest: "newest n (newest k xs) = newest (min n k) xs"
proof -
  have "length (newest k xs) - n + (length xs - k) = length xs - min n k" by (auto simp: min_def)
  then show ?thesis by (simp add: newest_def)
qed

lemma newest_snoc: "newest (Suc k) (xs @ [x]) = newest k xs @ [x]"
  by (simp add: newest_def)

lemma recent_step_holds:
  assumes "holds_newest cs out" "tc_tool c \<noteq> []"
  shows "holds_newest (cs @ [c]) (recent_step out c)"
proof -
  from assms(1) obtain k where k: "out = newest k cs" "k < length cs \<longrightarrow> LoopWindow \<le> k"
    and le: "length out \<le> 2 * LoopWindow"
    unfolding holds_newest_def by blast
  have snoc: "out @ [c] = newest (Suc k) (cs @ [c])" using k(1) by (simp add: newest_snoc)
  show ?thesis
  proof (cases "2 * LoopWindow < length (out @ [c])")
    case True
    then have len: "length out = 2 * LoopWindow" using le by simp
    have "recent_step out c = newest LoopWindow (out @ [c])"
      using True assms(2) by (simp add: recent_step_def newest_def)
    also have "\<dots> = newest (min LoopWindow (Suc k)) (cs @ [c])" unfolding snoc by (rule newest_newest)
    also have "min LoopWindow (Suc k) = LoopWindow" using len k(1) by simp
    finally have "recent_step out c = newest LoopWindow (cs @ [c])" .
    then show ?thesis unfolding holds_newest_def by (intro conjI exI [of _ LoopWindow]) simp_all
  next
    case False
    then have "recent_step out c = out @ [c]" using assms(2) by (simp add: recent_step_def Let_def)
    then have "recent_step out c = newest (Suc k) (cs @ [c])" unfolding snoc .
    with False snoc k(2) show ?thesis
      unfolding holds_newest_def by (intro conjI exI [of _ "Suc k"]) auto
  qed
qed

lemma foldl_recent_step: "holds_newest (named cs) (foldl recent_step [] cs)"
proof (induction cs rule: rev_induct)
  case Nil
  have "[] = newest LoopWindow ([] :: tool_call list)" by (simp add: newest_def)
  then show ?case by (simp add: holds_newest_def named_def exI [of _ LoopWindow])
next
  case (snoc c cs)
  show ?case
  proof (cases "tc_tool c = []")
    case True
    with snoc show ?thesis by (simp add: recent_step_def named_def)
  next
    case False
    with recent_step_holds [OF snoc, of c] show ?thesis by (simp add: named_def)
  qed
qed

lemma recent_window_newest: "recent_window cs = newest LoopWindow (named cs)"
proof -
  from foldl_recent_step [of cs] obtain k where
    k: "foldl recent_step [] cs = newest k (named cs)" "k < length (named cs) \<longrightarrow> LoopWindow \<le> k"
    unfolding holds_newest_def by blast
  let ?out = "newest k (named cs)"
  have "recent_window cs = newest LoopWindow ?out"
    unfolding recent_window_def k(1) Let_def by (simp add: newest_def)
  also have "\<dots> = newest (min LoopWindow k) (named cs)" by (rule newest_newest)
  also have "\<dots> = newest LoopWindow (named cs)"
  proof (cases "k < length (named cs)")
    case True
    then show ?thesis using k(2) by (simp add: min_def)
  next
    case False
    then show ?thesis by (simp add: min_def newest_all)
  qed
  finally show ?thesis .
qed

text \<open>
  The loop that reads a session's call log, which cuts its buffer back to one window
  whenever it holds two, gives exactly the newest window of the calls that name a tool
  (\<open>RecentCalls\<close>).
\<close>
theorem recent_calls_newest: "recent_window cs = newest LoopWindow (filter (\<lambda>c. tc_tool c \<noteq> []) cs)"
  unfolding recent_window_newest named_def ..

lemma leaves_RecentCalls [leaves_intros]: "contents f \<Longrightarrow> leaves f (RecentCalls s)"
  unfolding RecentCalls_def by (intro leaves_intros)

lemma leaves_AppendCall [leaves_intros]:
  assumes "contents f" "\<And>g w. f (w_calls_update g w) = f w" "\<And>g w. f (w_calls_dir_update g w) = f w"
  shows "leaves f (AppendCall s c)"
  unfolding AppendCall_def cutCallLog_def on_call_log_def
  by (intro leaves_intros assms(1)) (simp_all add: assms(2,3))

lemma leaves_PruneCalls [leaves_intros]:
  assumes "contents f" "\<And>g w. f (w_calls_update g w) = f w" "\<And>g w. f (w_calls_stamp_update g w) = f w"
  shows "leaves f (PruneCalls now)"
proof -
  have "leaves f (prune_call_log now k)" for k
    unfolding prune_call_log_def using assms by (intro leaves_intros) (auto intro!: leaves_intros split: bool.split)
  then show ?thesis
    unfolding PruneCalls_def prune_not_due_def by (intro leaves_intros assms(1)) (simp_all add: assms(2,3))
qed

end
