(* ===== verification/Extras.thy ===== *)
theory Extras
  imports Ledger
begin

text \<open>
  Extra allowances on disk (\<open>internal/infra/boundaryledger/extras.go\<close>): the grants the operator
  gave, when one lifts a boundary, and how they are recorded, ended and forgotten.
\<close>

subsection \<open>Operations\<close>

definition Active :: "extra \<Rightarrow> gotime \<Rightarrow> bool" where
  "Active e now \<longleftrightarrow> ex_ended e = None \<and> \<not> Before now (ex_at e) \<and> Before now (ex_until e)"

definition Covers :: "extra \<Rightarrow> string \<Rightarrow> gotime \<Rightarrow> bool" where
  "Covers e rule now \<longleftrightarrow> Active e now \<and> rule \<in> set (ex_rules e)"

definition extrasKeep :: duration where "extrasKeep = 7 * 24 * hour"

definition Extras_read :: "(world, extra list) io" where
  "Extras_read = io_bind (read_file w_extras) (\<lambda>s. io_bind (decode s) (\<lambda>r. ret (case r of None \<Rightarrow> [] | Some es \<Rightarrow> es)))"

definition ActiveExtras :: "gotime \<Rightarrow> (world, extra list) io" where
  "ActiveExtras now =
     io_bind (attempt Extras_read) (\<lambda>r. ret (case r of Inl _ \<Rightarrow> [] | Inr es \<Rightarrow> filter (\<lambda>e. Active e now) es))"

definition forgotten :: "gotime \<Rightarrow> extra \<Rightarrow> bool" where
  "forgotten now e \<longleftrightarrow> extrasKeep < Sub now (case ex_ended e of None \<Rightarrow> ex_until e | Some t \<Rightarrow> t)"

definition writeExtras :: "extra list \<Rightarrow> gotime \<Rightarrow> (world, unit) io" where
  "writeExtras es now =
     write_file (w_extras_update (\<lambda>_. Some (Stored (newest_first ex_at (filter (\<lambda>e. \<not> forgotten now e) es)))))"

definition PutExtra :: "extra \<Rightarrow> gotime \<Rightarrow> (world, unit) io" where
  "PutExtra e now =
     io_bind (attempt Extras_read) (\<lambda>r.
       let es = (case r of Inl _ \<Rightarrow> [] | Inr es \<Rightarrow> es) in writeExtras (es @ [e]) now)"

definition end_extra :: "gotime \<Rightarrow> extra \<Rightarrow> extra" where
  "end_extra now e = (if Active e now then e\<lparr>ex_ended := Some now\<rparr> else e)"

definition EndExtras :: "gotime \<Rightarrow> (world, extra list) io" where
  "EndExtras now =
     io_bind Extras_read (\<lambda>es.
       let ended = map (end_extra now) (filter (\<lambda>e. Active e now) es)
       in if ended = [] then ret []
          else io_then (writeExtras (map (end_extra now) es) now) (ret ended))"

subsection \<open>What is left, and what is ended\<close>

lemma leaves_Extras_read [leaves_intros]: "contents f \<Longrightarrow> leaves f Extras_read"
  unfolding Extras_read_def by (intro leaves_intros)

lemma leaves_ActiveExtras [leaves_intros]: "contents f \<Longrightarrow> leaves f (ActiveExtras now)"
  unfolding ActiveExtras_def by (intro leaves_intros)

lemma set_newest_first [simp]: "set (newest_first f xs) = set xs"
  by (simp add: newest_first_def)

lemma end_extra_inactive: "\<not> Active (end_extra now e) t \<or> \<not> Active e now"
  by (auto simp: end_extra_def Active_def)

lemma ended_inactive: "\<not> Active (end_extra now e) now"
  by (auto simp: end_extra_def Active_def)

text \<open>
  Ending the extra allowances on a working disk leaves none in force: nothing the file then
  holds is active at that time, whatever it held before (\<open>EndExtras\<close>, \<open>ActiveExtras\<close>).
\<close>
theorem ended_extras_lift_nothing:
  assumes "sound_disk w" "EndExtras now w = (Inr ended, w')"
  shows "fst (ActiveExtras now w') = Inr []"
proof -
  from assms obtain es w1 where es: "Extras_read w = (Inr es, w1)" by (auto simp: EndExtras_def io_iff)
  have w1: "w1 = tick w" and d: "(w_extras w = None \<and> es = []) \<or> w_extras w = Some (Stored es)"
    using es assms(1) by (auto simp: Extras_read_def runs decode_def io_bind_def split: option.splits stored.splits)
  have "sound_disk w'" "\<forall>e. w_extras w' = Some (Stored e) \<longrightarrow> list_all (\<lambda>x. \<not> Active x now) e" "w_extras w' \<noteq> Some Garbled"
  proof -
    consider (none) "w' = w1" "\<not> (\<exists>e\<in>set es. Active e now)"
      | (some) "w_extras w' = Some (Stored (newest_first ex_at (filter (\<lambda>e. \<not> forgotten now e) (map (end_extra now) es))))"
          "sound_disk w'"
      using assms es w1 by (auto simp: EndExtras_def io_bind_def es writeExtras_def runs Let_def filter_empty_conv split: if_splits)
    note cs = this
    have k: "sound_disk w' \<and> (\<forall>e. w_extras w' = Some (Stored e) \<longrightarrow> list_all (\<lambda>x. \<not> Active x now) e) \<and> w_extras w' \<noteq> Some Garbled"
      using cs
    proof cases
      case none
      then show ?thesis using assms(1) w1 d by (auto simp: list_all_iff)
    next
      case some
      then show ?thesis by (auto simp: list_all_iff ended_inactive)
    qed
    then show "sound_disk w'" "\<forall>e. w_extras w' = Some (Stored e) \<longrightarrow> list_all (\<lambda>x. \<not> Active x now) e"
        "w_extras w' \<noteq> Some Garbled" by blast+
  qed
  then show ?thesis
    by (auto simp: ActiveExtras_def Extras_read_def runs decode_def io_bind_def attempt_def list_all_iff filter_empty_conv
        split: option.splits stored.splits)
qed

text \<open>An allowance in force, ended at half past.\<close>

definition sample_extra :: extra where
  "sample_extra =
     \<lparr>ex_id = ''bnd-x'', ex_rules = [''cap''], ex_at = \<lparr>t_ns = 10, t_off = 0\<rparr>, ex_until = \<lparr>t_ns = 10 + 60 * minute, t_off = 0\<rparr>,
      ex_granter = ''ada'', ex_method = ''cli'', ex_why = ''release'', ex_ended = None, ex_grant = None\<rparr>"

definition extra_world :: world where
  "extra_world = fresh_world\<lparr>w_extras := Some (Stored [sample_extra])\<rparr>"

theorem ended_extras_lift_nothing_witness:
  "let now = \<lparr>t_ns = 10 + 30 * minute, t_off = 0\<rparr>
   in fst (ActiveExtras now extra_world) = Inr [sample_extra] \<and> fst (ActiveExtras now (snd (EndExtras now extra_world))) = Inr []"
proof -
  let ?now = "\<lparr>t_ns = 10 + 30 * minute, t_off = 0\<rparr> :: gotime"
  have "EndExtras ?now extra_world = (Inr [end_extra ?now sample_extra], snd (EndExtras ?now extra_world))"
    by (rule runs_to) code_simp
  from ended_extras_lift_nothing [OF _ this] have "fst (ActiveExtras ?now (snd (EndExtras ?now extra_world))) = Inr []"
    by (simp add: extra_world_def)
  moreover have "fst (ActiveExtras ?now extra_world) = Inr [sample_extra]" by code_simp
  ultimately show ?thesis by (simp add: Let_def)
qed

end
