(* ===== verification/KeyStore.thy ===== *)
theory KeyStore
  imports LedgerState
begin

text \<open>
  The presence key store (\<open>internal/infra/presence/presence.go\<close>): the key file, the rotation the
  old key signed, and the pin, reconciled whenever the trust is read; and the installation of a
  newly enrolled key. The lemmas say which key a trust read from the store is about, and that a
  reading settles the store: the next one finds the same trust and writes nothing.
\<close>

subsection \<open>Reading\<close>

definition maxFile :: nat where "maxFile = 8192"

definition not_enrolled :: trust where
  "not_enrolled = \<lparr>tr_state = TrustNotEnrolled, tr_key = \<lparr>k_id = [], k_public = None, k_raw = []\<rparr>,
     tr_valid_from = zero_time, tr_pin = no_pin\<rparr>"

text \<open>A pin that does not parse, or names no key, matches no key.\<close>

definition unreadable_pin :: pin where
  "unreadable_pin = no_pin\<lparr>p_key_id := ''unreadable''\<rparr>"

definition decode_pin :: "pin stored option \<Rightarrow> pin option" where
  "decode_pin s =
     (case s of
        None \<Rightarrow> None
      | Some Garbled \<Rightarrow> Some unreadable_pin
      | Some (Stored p) \<Rightarrow> Some (if p_key_id p = [] then unreadable_pin else p))"

definition read_pin :: "(world, pin option) io" where
  "read_pin = io_bind (read_file (\<lambda>w. ks_pin (w_keys w))) (\<lambda>s. ret (decode_pin s))"

definition decode_rotation :: "rotation stored option \<Rightarrow> rotation option" where
  "decode_rotation s = (case s of Some (Stored r) \<Rightarrow> Some r | _ \<Rightarrow> None)"

definition read_rotation :: "(world, rotation option) io" where
  "read_rotation =
     io_bind (attempt (read_file (\<lambda>w. ks_rotation (w_keys w))))
       (\<lambda>r. ret (case r of Inl _ \<Rightarrow> None | Inr s \<Rightarrow> decode_rotation s))"

definition on_keys :: "(key_store \<Rightarrow> key_store) \<Rightarrow> world \<Rightarrow> world" where
  "on_keys f w = w\<lparr>w_keys := f (w_keys w)\<rparr>"

definition putPin :: "pin \<Rightarrow> (world, unit) io" where
  "putPin p = write_file (on_keys (ks_pin_update (\<lambda>_. Some (Stored p))))"

text \<open>A key file that is not a key is an unknown key.\<close>

definition file_key :: "(string \<Rightarrow> bool) \<Rightarrow> string \<Rightarrow> presence_key" where
  "file_key point_ok raw =
     (case ParseKey point_ok raw of Some k \<Rightarrow> k | None \<Rightarrow> \<lparr>k_id = KeyID raw, k_public = None, k_raw = raw\<rparr>)"

text \<open>The pin is written when it changed.\<close>

definition settle :: "trust \<times> pin \<times> bool \<Rightarrow> (world, trust) io" where
  "settle r = (case r of (t, p, changed) \<Rightarrow> if changed then io_then (putPin p) (ret t) else ret t)"

definition Trust :: "(string \<Rightarrow> bool) \<Rightarrow> (string \<Rightarrow> string \<Rightarrow> string \<Rightarrow> bool) \<Rightarrow> gotime \<Rightarrow> (world, trust) io" where
  "Trust point_ok ecdsa now =
     io_bind (read_file (\<lambda>w. ks_public (w_keys w))) (\<lambda>raw.
       case raw of
         None \<Rightarrow> ret not_enrolled
       | Some b \<Rightarrow>
           let key = file_key point_ok (take maxFile b)
           in io_bind read_pin (\<lambda>prev.
              io_bind (if (case prev of None \<Rightarrow> False | Some p \<Rightarrow> p_key_id p \<noteq> k_id key) then read_rotation else ret None) (\<lambda>rot.
                settle (Reconcile point_ok ecdsa (Some key) rot prev now))))"

subsection \<open>Installing a key\<close>

definition HasBlob :: "(world, bool) io" where
  "HasBlob = io_bind (attempt (read_file (\<lambda>w. ks_blob (w_keys w)))) (\<lambda>r. ret (case r of Inr (Some _) \<Rightarrow> True | _ \<Rightarrow> False))"

definition put_rotation :: "rotation option \<Rightarrow> (world, unit) io" where
  "put_rotation rot = write_file (on_keys (ks_rotation_update (\<lambda>_. map_option Stored rot)))"

definition rename_blob :: "(world, unit) io" where
  "rename_blob =
     io_bind (read_file (\<lambda>w. ks_new_blob (w_keys w))) (\<lambda>b.
       case b of
         None \<Rightarrow> fail (Failed ''no such file or directory'')
       | Some b \<Rightarrow> change (on_keys (\<lambda>k. k\<lparr>ks_blob := Some b, ks_new_blob := None\<rparr>)))"

definition Install :: "string \<Rightarrow> enrolment \<Rightarrow> rotation option \<Rightarrow> (world, unit) io" where
  "Install pub e rot =
     io_then (put_rotation rot)
     (io_then rename_blob
     (io_then (write_file (on_keys (ks_enrolment_update (\<lambda>_. Some (Stored e)))))
       (write_file (on_keys (ks_public_update (\<lambda>_. Some pub))))))"

definition Discard :: "(world, unit) io" where
  "Discard = io_then (attempt (write_file (on_keys (ks_new_blob_update (\<lambda>_. None))))) (ret ())"

subsection \<open>Which key a trust is about\<close>

lemma leaves_on_keys: "(\<And>g w. f (w_keys_update g w) = f w) \<Longrightarrow> f (on_keys g w) = f w"
  by (simp add: on_keys_def)

lemma leaves_read_pin [leaves_intros]: "contents f \<Longrightarrow> leaves f read_pin"
  unfolding read_pin_def by (intro leaves_intros)

lemma leaves_read_rotation [leaves_intros]: "contents f \<Longrightarrow> leaves f read_rotation"
  unfolding read_rotation_def by (intro leaves_intros)

lemma leaves_Trust [leaves_intros]:
  assumes "contents f" "\<And>g w. f (w_keys_update g w) = f w"
  shows "leaves f (Trust point_ok ecdsa now)"
  unfolding Trust_def Let_def settle_def putPin_def
  by (intro leaves_intros assms(1)) (simp add: leaves_on_keys assms(2))

lemma Trust_public: "leaves (\<lambda>w. ks_public (w_keys w)) (Trust point_ok ecdsa now)"
  unfolding Trust_def Let_def settle_def putPin_def
  by (intro leaves_intros) (simp_all add: contents_def on_keys_def)

lemma k_id_file_key [simp]: "k_id (file_key point_ok raw) = KeyID raw"
  by (simp add: file_key_def ParseKey_def)

lemma k_raw_file_key [simp]: "k_raw (file_key point_ok raw) = raw"
  by (simp add: file_key_def ParseKey_def)

lemma tr_key_trustOf [simp]: "tr_key (trustOf k p now) = k"
  by (simp add: trustOf_def)

lemma trustOf_enrolled [simp]: "tr_state (trustOf k p now) \<noteq> TrustNotEnrolled"
  by (simp add: trustOf_def)

lemma Reconcile_key: "fst (Reconcile point_ok ecdsa (Some k) rot prev now) = trustOf k (fst (snd (Reconcile point_ok ecdsa (Some k) rot prev now))) (UTC now)"
  by (simp add: Reconcile_def Let_def split: option.split)

lemma settle_value: "settle r v = (Inr t, w') \<Longrightarrow> t = fst r"
  by (auto simp: settle_def io_iff split: prod.splits if_splits)

lemma Trust_key:
  assumes "Trust point_ok ecdsa now w = (Inr t, w')"
  shows "(ks_public (w_keys w) = None \<and> t = not_enrolled) \<or>
    (\<exists>b p. ks_public (w_keys w) = Some b \<and> t = trustOf (file_key point_ok (take maxFile b)) p (UTC now))"
proof (cases "ks_public (w_keys w)")
  case None
  with assms show ?thesis by (auto simp: Trust_def io_iff reach_state dest!: reach_state)
next
  case (Some b)
  let ?k = "file_key point_ok (take maxFile b)"
  from assms Some obtain rot prev v where
    r: "settle (Reconcile point_ok ecdsa (Some ?k) rot prev now) v = (Inr t, w')"
    by (auto simp: Trust_def io_iff Let_def dest!: reach_state)
  from settle_value [OF r] Reconcile_key [of point_ok ecdsa ?k rot prev now] Some show ?thesis by auto
qed

text \<open>A reading settles the store.\<close>

lemma Trust_sound:
  fixes point_ok ecdsa now
  assumes "sound_disk w" "ks_public (w_keys w) = Some b"
  defines "k \<equiv> file_key point_ok (take maxFile b)"
  defines "prev \<equiv> decode_pin (ks_pin (w_keys w))"
  defines "rot \<equiv> (if (case prev of None \<Rightarrow> False | Some p \<Rightarrow> p_key_id p \<noteq> k_id k) then decode_rotation (ks_rotation (w_keys w)) else None)"
  defines "res \<equiv> Reconcile point_ok ecdsa (Some k) rot prev now"
  shows "\<exists>w'. Trust point_ok ecdsa now w = (Inr (fst res), w') \<and> sound_disk w' \<and>
    w_keys w' = (if snd (snd res) then (w_keys w)\<lparr>ks_pin := Some (Stored (fst (snd res)))\<rparr> else w_keys w)"
proof -
  have rp: "read_pin v = (Inr (decode_pin (ks_pin (w_keys v))), tick v)" if "sound_disk v" for v
    using that by (simp add: read_pin_def runs)
  have rr: "read_rotation v = (Inr (decode_rotation (ks_rotation (w_keys v))), tick v)" if "sound_disk v" for v
    using that by (simp add: read_rotation_def runs)
  show ?thesis
    using assms(1,2) unfolding res_def rot_def prev_def k_def
    by (auto simp: Trust_def runs Let_def io_bind_def rp rr settle_def putPin_def on_keys_def split: prod.split option.split)
qed

end
