(* ===== verification/Transcript.thy ===== *)
theory Transcript
  imports GoStrings GoTime
begin

text \<open>
  What a Claude Code session's transcript says about its tool calls
  (\<open>internal/infra/routeguard/proposal.go\<close>, \<open>subagents.go\<close>): what became of a call, which settles
  an ask at the permission prompt, and how many subagents were started. A transcript is its
  lines; how a line of JSON decodes is a parameter, and a line's text is searched as the code
  searches it. The lemmas say when a call counts as having run.
\<close>

subsection \<open>Entries\<close>

text \<open>A result's content: a string, a list of blocks by type and text, or neither.\<close>

datatype tr_content = CText string | CBlocks "(string \<times> string) list" | COther

record tr_part =
  tp_type :: string
  tp_id :: string
  tp_name :: string
  tp_text :: string
  tp_tool_use :: string
  tp_error :: bool
  tp_content :: tr_content

datatype tr_body = BText string | BParts "tr_part list" | BOther

text \<open>A line's entry. The timestamp is None where it is there and is not a time.\<close>

record tr_entry =
  te_type :: string
  te_time :: "gotime option"
  te_sidechain :: bool
  te_compact :: bool
  te_body :: tr_body

record transcripts =
  tx_lines :: "string \<Rightarrow> string list option"
  tx_entry :: "string \<Rightarrow> tr_entry option"

text \<open>The lines a scanner with a buffer of 16 megabytes gives.\<close>

definition maxEntry :: nat where "maxEntry = 16777216"

definition entry_lines :: "transcripts \<Rightarrow> string \<Rightarrow> string list option" where
  "entry_lines tx path = map_option (takeWhile (\<lambda>l. length l < maxEntry)) (tx_lines tx path)"

subsection \<open>What became of a call\<close>

definition rejectedPrefix :: string where
  "rejectedPrefix = ''The user doesn't want to proceed with this tool use''"

definition subagentDeclined :: string where
  "subagentDeclined = ''Permission for this tool use was denied.''"

datatype outcome_kind = OutcomeRan | OutcomeDeclined | OutcomeVendorStopped

definition vendorStops :: "(string \<times> string \<times> string) list" where
  "vendorStops =
     [(''Permission for this action was denied by the Claude Code auto mode classifier.'', '''', ''auto_mode_classifier''),
      (''Permission for this action has been denied.'', '''', ''permission_check''),
      (''Permission to use '', '' has been denied'', ''permission_rule''),
      (''Permission to use '', '' denied by plugin'', ''plugin''),
      (''PreToolUse:'', '' hook error: '', ''pre_tool_use_hook'')]"

record tool_verdict =
  tv_outcome :: outcome_kind
  tv_stopper :: string
  tv_at :: gotime

definition classify :: "bool \<Rightarrow> string \<Rightarrow> outcome_kind \<times> string" where
  "classify is_error txt =
     (if \<not> is_error then (OutcomeRan, '''')
      else let t = trim_space txt
           in if contains t rejectedPrefix \<or> has_prefix t subagentDeclined then (OutcomeDeclined, '''')
              else case find (\<lambda>(p, sub, _). has_prefix t p \<and> contains t sub) vendorStops of
                     Some (_, _, stopper) \<Rightarrow> (OutcomeVendorStopped, stopper)
                   | None \<Rightarrow> (OutcomeRan, ''''))"

definition resultText :: "tr_content \<Rightarrow> string" where
  "resultText c =
     (case c of
        CText s \<Rightarrow> s
      | CBlocks bs \<Rightarrow> concat (map snd (filter (\<lambda>(ty, _). ty = ''text'') bs))
      | COther \<Rightarrow> '''')"

definition read_result :: "gotime \<Rightarrow> (string \<Rightarrow> tool_verdict option) \<Rightarrow> tr_part \<Rightarrow> (string \<Rightarrow> tool_verdict option)" where
  "read_result t m p =
     (if tp_type p \<noteq> ''tool_result'' \<or> tp_tool_use p = [] then m
      else case classify (tp_error p) (resultText (tp_content p)) of
             (oc, stopper) \<Rightarrow> m(tp_tool_use p \<mapsto> \<lparr>tv_outcome = oc, tv_stopper = stopper, tv_at = t\<rparr>))"

definition read_results :: "transcripts \<Rightarrow> (string \<Rightarrow> tool_verdict option) \<Rightarrow> string \<Rightarrow> (string \<Rightarrow> tool_verdict option)" where
  "read_results tx m line =
     (if \<not> contains line ([CHR 0x22] @ ''tool_result'' @ [CHR 0x22]) then m
      else case tx_entry tx line of
             None \<Rightarrow> m
           | Some e \<Rightarrow>
               (case (te_time e, te_body e) of
                  (Some t, BParts ps) \<Rightarrow> foldl (read_result t) m ps
                | _ \<Rightarrow> m))"

definition toolResults :: "transcripts \<Rightarrow> string \<Rightarrow> (string \<Rightarrow> tool_verdict option)" where
  "toolResults tx path =
     (if path = [] then Map.empty
      else case entry_lines tx path of None \<Rightarrow> Map.empty | Some ls \<Rightarrow> foldl (read_results tx) Map.empty ls)"

definition ToolVerdict :: "transcripts \<Rightarrow> string \<Rightarrow> string \<Rightarrow> tool_verdict option" where
  "ToolVerdict tx path tool_use = (if tool_use = [] then None else toolResults tx path tool_use)"

subsection \<open>Subagents started\<close>

definition boundaryRefusal :: string where
  "boundaryRefusal = ''tokenops boundary '' @ [CHR 0x22]"

definition interruptText :: string where "interruptText = ''[request interrupted''"

definition injectedPrefixes :: "string list" where
  "injectedPrefixes =
     [''<task-notification>'', ''<command-name>'', ''<system-reminder>'', ''<local-command-stdout>'',
      ''<local-command-stderr>'', ''caveat: the messages below were generated by the user while running'']"

definition isInjected :: "string \<Rightarrow> bool" where
  "isInjected txt \<longleftrightarrow> list_ex (has_prefix (to_lower (trim_space txt))) injectedPrefixes"

definition isPrompt :: "string \<Rightarrow> bool" where
  "isPrompt txt \<longleftrightarrow>
     (let t = trim_space txt
      in t \<noteq> [] \<and> \<not> contains (to_lower t) interruptText \<and> \<not> has_prefix t ''<'' \<and> \<not> isInjected t)"

definition subagentTools :: "string list" where "subagentTools = [''agent'', ''task'']"

definition subagentCalls :: "tr_entry \<Rightarrow> string list" where
  "subagentCalls e =
     (case te_body e of
        BParts ps \<Rightarrow> map tp_id (filter (\<lambda>p. tp_type p = ''tool_use'' \<and> tp_id p \<noteq> [] \<and> to_lower (tp_name p) \<in> set subagentTools) ps)
      | _ \<Rightarrow> [])"

definition never_ran :: "tr_part \<Rightarrow> bool" where
  "never_ran p \<longleftrightarrow>
     (let body = resultText (tp_content p)
      in fst (classify (tp_error p) body) \<noteq> OutcomeRan \<or> (tp_error p \<and> contains body boundaryRefusal))"

definition readLaunchResults :: "tr_entry \<Rightarrow> bool \<times> string list" where
  "readLaunchResults e =
     (if te_compact e then (False, [])
      else case te_body e of
             BText s \<Rightarrow> (isPrompt s, [])
           | BParts ps \<Rightarrow>
               (list_all (\<lambda>p. tp_type p \<noteq> ''tool_result'') ps \<and>
                  isPrompt (concat (map (\<lambda>p. tp_text p @ '' '') (filter (\<lambda>p. tp_type p = ''text'') ps))),
                map tp_tool_use (filter (\<lambda>p. tp_type p = ''tool_result'' \<and> never_ran p) ps))
           | BOther \<Rightarrow> (False, []))"

record launch_state =
  ls_order :: "string list"
  ls_started :: "string list"
  ls_since :: nat
  ls_found :: bool

record launches =
  la_session :: nat
  la_prompt :: nat
  la_prompt_found :: bool

definition launch_call :: "string \<Rightarrow> launch_state \<Rightarrow> string \<Rightarrow> launch_state" where
  "launch_call except s i =
     (if i = except \<or> i \<in> set (ls_started s) then s
      else s\<lparr>ls_order := ls_order s @ [i], ls_started := i # ls_started s\<rparr>)"

definition launch_line :: "transcripts \<Rightarrow> string \<Rightarrow> launch_state \<Rightarrow> string \<Rightarrow> launch_state" where
  "launch_line tx except s line =
     (let user = contains line ([CHR 0x22] @ ''type'' @ [CHR 0x22, CHR '':'', CHR 0x22] @ ''user'' @ [CHR 0x22])
      in if \<not> user \<and> \<not> contains line ([CHR 0x22] @ ''tool_use'' @ [CHR 0x22]) then s
         else case tx_entry tx line of
                None \<Rightarrow> s
              | Some e \<Rightarrow>
                  if te_sidechain e then s
                  else if te_type e = ''assistant'' then foldl (launch_call except) s (subagentCalls e)
                  else if te_type e = ''user'' then
                    (case readLaunchResults e of
                       (prompt, refused) \<Rightarrow>
                         let s = s\<lparr>ls_started := filter (\<lambda>i. i \<notin> set refused) (ls_started s)\<rparr>
                         in if prompt then s\<lparr>ls_since := length (ls_order s), ls_found := True\<rparr> else s)
                  else s)"

definition SubagentLaunches :: "transcripts \<Rightarrow> string \<Rightarrow> string \<Rightarrow> launches option" where
  "SubagentLaunches tx path except =
     (if path = [] then None
      else case entry_lines tx path of
             None \<Rightarrow> None
           | Some ls \<Rightarrow>
               let s = foldl (launch_line tx except)
                         \<lparr>ls_order = [], ls_started = [], ls_since = 0, ls_found = False\<rparr> ls;
                   live = (\<lambda>is. length (filter (\<lambda>i. i \<in> set (ls_started s)) is))
               in Some \<lparr>la_session = live (ls_order s),
                        la_prompt = (if ls_found s then live (drop (ls_since s) (ls_order s)) else 0),
                        la_prompt_found = ls_found s\<rparr>)"

subsection \<open>When a call ran\<close>

lemma classify_ran:
  "fst (classify is_error txt) = OutcomeRan \<longleftrightarrow>
     \<not> is_error \<or>
     (\<not> contains (trim_space txt) rejectedPrefix \<and> \<not> has_prefix (trim_space txt) subagentDeclined \<and>
      list_all (\<lambda>(p, sub, _). \<not> (has_prefix (trim_space txt) p \<and> contains (trim_space txt) sub)) vendorStops)"
proof -
  let ?t = "trim_space txt"
  let ?P = "\<lambda>(p, sub, _ :: string). has_prefix ?t p \<and> contains ?t sub"
  have "list_all (\<lambda>(p, sub, _). \<not> (has_prefix ?t p \<and> contains ?t sub)) vendorStops \<longleftrightarrow> find ?P vendorStops = None"
    unfolding find_None_iff list_all_iff by auto
  then show ?thesis
    by (cases "find ?P vendorStops") (auto simp: classify_def Let_def)
qed

lemma prompts_bounded: "la_prompt l \<le> la_session l" if "SubagentLaunches tx path except = Some l"
proof -
  have "length (filter P (drop n xs)) \<le> length (filter P xs)" for P n and xs :: "string list"
    by (metis append_take_drop_id filter_append le_add2 length_append)
  with that show ?thesis by (auto simp: SubagentLaunches_def Let_def split: if_splits option.splits)
qed

end
