(* ===== verification/PlanFacts.thy ===== *)
theory PlanFacts
  imports Calls
begin

text \<open>
  The plan figures a rule compares: the share of a plan's window left and how far ahead of its
  reset it runs out (\<open>internal/contexts/spend/plans/pace.go\<close>, \<open>pressure.go\<close>), what the daemon
  writes of them (\<open>internal/capability/boundaries/points.go\<close>), and how the readings of several
  plans are put together (\<open>planfacts.go\<close>). The lemmas say that each window keeps the tightest
  reading and that an unknown one stays unknown.
\<close>

subsection \<open>Arithmetic on durations\<close>

definition f_sign :: "f64 \<Rightarrow> int" where
  "f_sign v = (case v of Fin x \<Rightarrow> (if x < 0 then -1 else if x = 0 then 0 else 1) | PInf \<Rightarrow> 1 | NInf \<Rightarrow> -1 | NaN \<Rightarrow> 0)"

definition f_inf :: "int \<Rightarrow> f64" where
  "f_inf s = (if s = 0 then NaN else if 0 < s then PInf else NInf)"

fun f_mul :: "f64 \<Rightarrow> f64 \<Rightarrow> f64" where
  "f_mul (Fin x) (Fin y) = round64 (x * y)"
| "f_mul a b = (if a = NaN \<or> b = NaN then NaN else f_inf (f_sign a * f_sign b))"

text \<open>Division by zero takes the zero as positive.\<close>

fun f_div :: "f64 \<Rightarrow> f64 \<Rightarrow> f64" where
  "f_div (Fin x) (Fin y) = (if y = 0 then f_inf (f_sign (Fin x)) else round64 (x / y))"
| "f_div a (Fin y) = (if a = NaN then NaN else f_inf (f_sign a * (if y < 0 then -1 else 1)))"
| "f_div (Fin x) b = (if b = NaN then NaN else Fin 0)"
| "f_div a b = NaN"

fun f_add :: "f64 \<Rightarrow> f64 \<Rightarrow> f64" where
  "f_add (Fin x) (Fin y) = round64 (x + y)"
| "f_add a b =
     (if a = NaN \<or> b = NaN \<or> (a = PInf \<and> b = NInf) \<or> (a = NInf \<and> b = PInf) then NaN
      else if a = PInf \<or> a = NInf then a else b)"

definition f_abs :: "f64 \<Rightarrow> f64" where
  "f_abs v = (case v of Fin x \<Rightarrow> Fin \<bar>x\<bar> | NInf \<Rightarrow> PInf | _ \<Rightarrow> v)"

text \<open>\<open>math.Round\<close>, half away from zero.\<close>

definition f_round :: "f64 \<Rightarrow> f64" where
  "f_round v = (case v of Fin x \<Rightarrow> f_int (if 0 \<le> x then \<lfloor>x + 1 / 2\<rfloor> else - \<lfloor>1 / 2 - x\<rfloor>) | _ \<Rightarrow> v)"

text \<open>\<open>time.Duration(v)\<close> cuts towards zero; what is out of range becomes the least integer.\<close>

definition f_trunc :: "f64 \<Rightarrow> int" where
  "f_trunc v =
     (case v of
        Fin x \<Rightarrow> let n = (if 0 \<le> x then \<lfloor>x\<rfloor> else \<lceil>x\<rceil>) in if - (2 ^ 63) \<le> n \<and> n < 2 ^ 63 then n else - (2 ^ 63)
      | _ \<Rightarrow> - (2 ^ 63))"

definition f_of_int :: "int \<Rightarrow> f64" where
  "f_of_int n = round64 (of_int n)"

text \<open>\<open>Duration.Round(time.Minute)\<close> of a duration that is not negative.\<close>

definition round_minute :: "duration \<Rightarrow> duration" where
  "round_minute d = (let r = d mod minute in if r + r < minute then d - r else d + minute - r)"

definition Minutes :: "duration \<Rightarrow> f64" where
  "Minutes d = f_add (f_of_int (d div minute)) (f_div (f_of_int (d mod minute)) (f_of_int minute))"

subsection \<open>Pace\<close>

record vendor_window =
  vw_name :: string
  vw_used :: f64
  vw_duration :: duration
  vw_resets :: gotime
  vw_stale :: bool

datatype pace_status = PaceOnPace | PaceBehind | PaceAhead | PaceUsedUp

record window_pace =
  wp_status :: pace_status
  wp_delta :: f64
  wp_lasts :: bool
  wp_runs_out :: duration

definition onPaceBand :: f64 where "onPaceBand = Fin 5"

definition pace_of :: "f64 \<Rightarrow> f64 \<Rightarrow> pace_status" where
  "pace_of used gone =
     (if f_lt (f_abs (f_sub used gone)) onPaceBand then PaceOnPace
      else if f_lt used gone then PaceBehind else PaceAhead)"

definition PaceAt :: "vendor_window \<Rightarrow> gotime \<Rightarrow> window_pace option" where
  "PaceAt w now =
     (if vw_duration w \<le> 0 \<or> IsZero (vw_resets w) \<or> f_le (vw_used w) (Fin 0) then None
      else let left = Sub (vw_resets w) now
           in if left \<le> 0 \<or> vw_duration w < left then None
              else let elapsed = vw_duration w - left
                   in if elapsed \<le> 0 then None
                      else let gone = f_mul (f_div (f_of_int elapsed) (f_of_int (vw_duration w))) (Fin 100);
                               delta = f_round (f_sub (vw_used w) gone)
                           in if f_le (Fin 100) (vw_used w)
                              then Some \<lparr>wp_status = PaceUsedUp, wp_delta = delta, wp_lasts = False, wp_runs_out = 0\<rparr>
                              else let toFull = f_trunc (f_mul (f_div (f_sub (Fin 100) (vw_used w)) (vw_used w)) (f_of_int elapsed));
                                       lasts = left \<le> toFull
                                   in Some \<lparr>wp_status = pace_of (vw_used w) gone, wp_delta = delta, wp_lasts = lasts,
                                             wp_runs_out = (if lasts then 0 else round_minute toFull)\<rparr>)"

definition pressureMinElapsed :: f64 where "pressureMinElapsed = round64 (1 / 10)"

definition RunsOutEarly :: "vendor_window \<Rightarrow> gotime \<Rightarrow> duration option" where
  "RunsOutEarly w now =
     (if vw_duration w \<le> 0 \<or> IsZero (vw_resets w) \<or> \<not> After (vw_resets w) now then None
      else let toReset = Sub (vw_resets w) now
           in if f_le (Fin 100) (vw_used w) then Some toReset
              else if f_le (vw_used w) (Fin 0) then Some 0
              else if f_lt (f_of_int (vw_duration w - toReset)) (f_mul pressureMinElapsed (f_of_int (vw_duration w))) then None
              else case PaceAt w now of
                     None \<Rightarrow> None
                   | Some p \<Rightarrow> Some (if wp_lasts p then 0 else max 0 (toReset - wp_runs_out p)))"

subsection \<open>The daemon's figures\<close>

type_synonym by_window = "(string \<times> f64) list"

definition windowName :: "vendor_window \<Rightarrow> string" where
  "windowName w = (if vw_name w = ''5h'' \<or> vw_name w = ''week'' then vw_name w else [])"

definition put_tighter :: "(f64 \<Rightarrow> f64 \<Rightarrow> bool) \<Rightarrow> string \<Rightarrow> f64 \<Rightarrow> by_window \<Rightarrow> by_window" where
  "put_tighter tighter name v m =
     (case map_of m name of
        None \<Rightarrow> AList.update name v m
      | Some cur \<Rightarrow> if tighter v cur then AList.update name v m else m)"

definition put_reading ::
  "(f64 \<Rightarrow> f64 \<Rightarrow> bool) \<Rightarrow> string \<Rightarrow> string \<Rightarrow> f64 \<Rightarrow> (string \<times> by_window) list \<Rightarrow> (string \<times> by_window) list" where
  "put_reading tighter provider name v m =
     AList.update provider (put_tighter tighter name v (case map_of m provider of None \<Rightarrow> [] | Some ws \<Rightarrow> ws)) m"

abbreviation lower :: "f64 \<Rightarrow> f64 \<Rightarrow> bool" where "lower \<equiv> f_lt"
abbreviation higher :: "f64 \<Rightarrow> f64 \<Rightarrow> bool" where "higher \<equiv> \<lambda>a b. f_lt b a"

definition figures_window :: "gotime \<Rightarrow> string \<Rightarrow> figures \<Rightarrow> vendor_window \<Rightarrow> figures" where
  "figures_window now provider f w =
     (let name = windowName w
      in if name = [] \<or> vw_stale w \<or> (\<not> IsZero (vw_resets w) \<and> Before (vw_resets w) now) then f
         else let f = f\<lparr>fi_plan_left := put_reading lower provider name (f_max (Fin 0) (f_sub (Fin 100) (vw_used w))) (fi_plan_left f)\<rparr>
              in case RunsOutEarly w now of
                   None \<Rightarrow> f
                 | Some d \<Rightarrow> f\<lparr>fi_plan_early := put_reading higher provider name (Minutes d) (fi_plan_early f)\<rparr>)"

text \<open>The reports are each plan's provider and windows.\<close>

definition Figures :: "(string \<times> vendor_window list) list \<Rightarrow> (string \<times> f64) list \<Rightarrow> gotime \<Rightarrow> figures" where
  "Figures reports budget_used now =
     foldl (\<lambda>f (provider, ws). foldl (figures_window now provider) f ws)
       \<lparr>fi_observed = UTC now, fi_plan_left = [], fi_plan_early = [], fi_budget_used = budget_used, fi_budgets = []\<rparr> reports"

definition needs :: "rule list \<Rightarrow> field \<Rightarrow> bool" where
  "needs rules f \<longleftrightarrow> list_ex (\<lambda>r. list_ex (\<lambda>c. c_field c = f) (r_when r)) rules"

definition NeedsFigures :: "rule list \<Rightarrow> bool" where
  "NeedsFigures rules \<longleftrightarrow> needs rules FieldPlanLeft \<or> needs rules FieldPlanEarly \<or> needs rules FieldBudgetUsed"

subsection \<open>Reading a plan\<close>

definition window_named :: "string \<Rightarrow> window option" where
  "window_named s =
     (if s = window_text Window5h then Some Window5h else if s = window_text WindowWeek then Some WindowWeek else None)"

definition add_window :: "(f64 \<Rightarrow> f64 \<Rightarrow> bool) \<Rightarrow> (window \<Rightarrow> f64 option) \<Rightarrow> string \<times> f64 \<Rightarrow> (window \<Rightarrow> f64 option)" where
  "add_window tighter m x =
     (case window_named (fst x) of
        None \<Rightarrow> m
      | Some w \<Rightarrow> (case m w of None \<Rightarrow> m(w \<mapsto> snd x) | Some cur \<Rightarrow> if tighter (snd x) cur then m(w \<mapsto> snd x) else m))"

definition figuresByWindow ::
  "(string \<times> by_window) list \<Rightarrow> string \<Rightarrow> (f64 \<Rightarrow> f64 \<Rightarrow> bool) \<Rightarrow> (window \<Rightarrow> f64 option)" where
  "figuresByWindow by_provider provider tighter =
     foldl (add_window tighter) Map.empty
       (if provider \<noteq> [] then (case map_of by_provider provider of None \<Rightarrow> [] | Some ws \<Rightarrow> ws)
        else concat (map snd by_provider))"

definition figuresPlanLeft :: "figures \<Rightarrow> string \<Rightarrow> (window \<Rightarrow> f64 option)" where
  "figuresPlanLeft f provider = figuresByWindow (fi_plan_left f) provider lower"

definition figuresPlanEarly :: "figures \<Rightarrow> string \<Rightarrow> (window \<Rightarrow> f64 option)" where
  "figuresPlanEarly f provider = figuresByWindow (fi_plan_early f) provider higher"

definition any_window :: "(window \<Rightarrow> f64 option) \<Rightarrow> bool" where
  "any_window m \<longleftrightarrow> m Window5h \<noteq> None \<or> m WindowWeek \<noteq> None"

definition merged_value :: "(f64 \<Rightarrow> f64 \<Rightarrow> bool) \<Rightarrow> f64 option \<Rightarrow> f64 option \<Rightarrow> bool" where
  "merged_value tighter cur other \<longleftrightarrow>
     (case other of None \<Rightarrow> False | Some v \<Rightarrow> (case cur of None \<Rightarrow> True | Some p \<Rightarrow> tighter v p))"

definition mergePlan ::
  "(window \<Rightarrow> f64 option) \<Rightarrow> (window \<Rightarrow> string option) \<Rightarrow> string \<Rightarrow> (window \<Rightarrow> f64 option) \<Rightarrow> string \<Rightarrow>
   (f64 \<Rightarrow> f64 \<Rightarrow> bool) \<Rightarrow> (window \<Rightarrow> f64 option) \<times> (window \<Rightarrow> string option)" where
  "mergePlan cur vendors vendor other other_vendor tighter =
     (\<lambda>w. if merged_value tighter (cur w) (other w) then other w else cur w,
      \<lambda>w. if merged_value tighter (cur w) (other w) then Some other_vendor
          else if cur w = None then None
          else Some (case vendors w of None \<Rightarrow> vendor | Some v \<Rightarrow> if v = [] then vendor else v))"

definition planVendor :: "string \<Rightarrow> string" where
  "planVendor provider =
     (case map_of [(''anthropic'', ''Claude''), (''openai'', ''Codex''), (''gemini'', ''Gemini''),
                   (''github'', ''Copilot''), (''cursor'', ''Cursor'')] provider of
        None \<Rightarrow> provider | Some v \<Rightarrow> v)"

subsection \<open>Claude Code's own reading\<close>

record limit_window =
  lw_used :: f64
  lw_resets :: int

record limits_reading =
  lm_observed :: gotime
  lm_five_hour :: "limit_window option"
  lm_seven_day :: "limit_window option"
  lm_spend :: "limit_window option"

text \<open>The stored reading (\<open>claudelimits.Read\<close>), where it says anything.\<close>

definition limits_Read :: "limits_reading stored option \<Rightarrow> limits_reading option" where
  "limits_Read s =
     (case s of
        Some (Stored r) \<Rightarrow>
          if (lm_five_hour r = None \<and> lm_seven_day r = None \<and> lm_spend r = None) \<or> IsZero (lm_observed r) then None else Some r
      | _ \<Rightarrow> None)"

definition limitsFreshFor :: duration where "limitsFreshFor = 30 * minute"

definition Unix :: "int \<Rightarrow> gotime" where "Unix s = \<lparr>t_ns = s * second, t_off = 0\<rparr>"

definition limits_window :: "limits_reading \<Rightarrow> window \<Rightarrow> (limit_window \<times> duration) option" where
  "limits_window r w =
     (case w of
        Window5h \<Rightarrow> map_option (\<lambda>x. (x, 5 * hour)) (lm_five_hour r)
      | WindowWeek \<Rightarrow> map_option (\<lambda>x. (x, 7 * 24 * hour)) (lm_seven_day r)
      | WindowAny \<Rightarrow> None)"

text \<open>A window that has reset since is unknown.\<close>

definition live_window :: "limits_reading \<Rightarrow> gotime \<Rightarrow> window \<Rightarrow> (limit_window \<times> duration) option" where
  "live_window r now w =
     (case limits_window r w of
        None \<Rightarrow> None
      | Some (x, d) \<Rightarrow> if 0 < lw_resets x \<and> Before (Unix (lw_resets x)) now then None else Some (x, d))"

definition limits_left :: "limits_reading \<Rightarrow> gotime \<Rightarrow> window \<Rightarrow> f64 option" where
  "limits_left r now w = map_option (\<lambda>(x, _). f_max (Fin 0) (f_sub (Fin 100) (lw_used x))) (live_window r now w)"

definition limits_early :: "limits_reading \<Rightarrow> gotime \<Rightarrow> window \<Rightarrow> f64 option" where
  "limits_early r now w =
     (case live_window r now w of
        None \<Rightarrow> None
      | Some (x, d) \<Rightarrow>
          if lw_resets x \<le> 0 then None
          else map_option Minutes (RunsOutEarly \<lparr>vw_name = [], vw_used = lw_used x, vw_duration = d,
                 vw_resets = Unix (lw_resets x), vw_stale = False\<rparr> now))"

definition limitsPlan ::
  "limits_reading stored option \<Rightarrow> gotime \<Rightarrow> ((window \<Rightarrow> f64 option) \<times> (window \<Rightarrow> f64 option) \<times> gotime) option" where
  "limitsPlan s now =
     (case limits_Read s of
        None \<Rightarrow> None
      | Some r \<Rightarrow>
          if limitsFreshFor < Sub now (lm_observed r) \<or> \<not> any_window (limits_left r now) then None
          else Some (limits_left r now, limits_early r now, UTC (lm_observed r)))"

end
