(* ===== verification/Approvals.thy ===== *)
theory Approvals
  imports Calls Extras KeyStore Transcript PlanFacts
begin

text \<open>
  What the pause point is asked and where it looks (\<open>Env\<close>, \<open>Call\<close> of
  \<open>internal/capability/boundaries/guard.go\<close>), and the presence check on an approval it is about to
  honour (\<open>presence.go\<close>): what the check finds, whether that counts under the mode that is set,
  and how a used approval's raising is closed. The lemmas say what an approval that counts rests
  on.
\<close>

subsection \<open>Environment and call\<close>

text \<open>
  The environment is read once per call, so one time serves for it. The state of the coach hook,
  the status line's reading and the transcripts are read only, and are part of it. The signature
  scheme and the test for a P-256 point are parameters.
\<close>

record env =
  env_now :: gotime
  env_offset :: int
  env_set_user :: string
  env_local_user :: string
  env_attended :: bool
  env_mode :: "mode option"
  env_costs :: "string \<Rightarrow> f64 option"
  env_limits :: "limits_reading stored option"
  env_transcripts :: transcripts
  env_point_ok :: "string \<Rightarrow> bool"
  env_ecdsa :: "string \<Rightarrow> string \<Rightarrow> string \<Rightarrow> bool"

definition approval :: "env \<Rightarrow> mode" where
  "approval e = (case env_mode e of None \<Rightarrow> ModeChannel | Some m \<Rightarrow> m)"

definition now_of :: "env \<Rightarrow> gotime" where "now_of e = UTC (env_now e)"

definition local_time :: "env \<Rightarrow> gotime \<Rightarrow> gotime" where
  "local_time e t = t\<lparr>t_off := env_offset e\<rparr>"

definition localNow :: "env \<Rightarrow> gotime" where "localNow e = local_time e (now_of e)"

definition user_of :: "env \<Rightarrow> string" where
  "user_of e = (if env_set_user e \<noteq> [] then env_set_user e else env_local_user e)"

record call =
  ca_harness :: string
  ca_session :: string
  ca_transcript :: string
  ca_tool_use :: string
  ca_agent :: string
  ca_workflow :: string
  ca_action :: action
  ca_model :: string
  ca_provider :: string
  ca_biller :: string
  ca_destination :: string
  ca_tool_name :: string
  ca_args_hash :: string
  ca_folder :: string
  ca_spends :: "string list"

definition Attribution :: "string \<Rightarrow> string \<Rightarrow> string \<Rightarrow> string \<times> string" where
  "Attribution harness session project =
     (if project = [] \<or> project = ''.'' \<or> project = ''/'' then (harness, harness @ '':'' @ session)
      else (harness @ '':'' @ project, harness @ '':'' @ project @ '':'' @ session))"

definition env_trust :: "env \<Rightarrow> (world, trust) io" where
  "env_trust e = Trust (env_point_ok e) (env_ecdsa e) (now_of e)"

subsection \<open>Reasons as text\<close>

fun reason_text :: "reason \<Rightarrow> string" where
  "reason_text ReasonNone = ''''"
| "reason_text ReasonNotEnrolled = ''not_enrolled''"
| "reason_text ReasonUnsigned = ''unsigned''"
| "reason_text ReasonMalformed = ''malformed''"
| "reason_text ReasonKeyHeld = ''key_replaced_hold''"
| "reason_text ReasonWrongKey = ''wrong_key''"
| "reason_text ReasonDecision = ''wrong_decision''"
| "reason_text ReasonRule = ''wrong_rule''"
| "reason_text ReasonSession = ''wrong_session''"
| "reason_text ReasonScope = ''wrong_scope''"
| "reason_text ReasonChallenge = ''wrong_challenge''"
| "reason_text ReasonCrossings = ''altered_crossings''"
| "reason_text ReasonSignature = ''bad_signature''"
| "reason_text ReasonBeforeKey = ''issued_before_key''"
| "reason_text ReasonFuture = ''issued_in_future''"
| "reason_text ReasonExpired = ''expired''"
| "reason_text ReasonSpent = ''already_used''"
| "reason_text ReasonKeyUnreadable = ''key_store_unreadable''"
| "reason_text ReasonGrantAltered = ''altered_grant''"

definition all_reasons :: "reason list" where
  "all_reasons = [ReasonNone, ReasonNotEnrolled, ReasonUnsigned, ReasonMalformed, ReasonKeyHeld, ReasonWrongKey,
     ReasonDecision, ReasonRule, ReasonSession, ReasonScope, ReasonChallenge, ReasonCrossings, ReasonSignature,
     ReasonBeforeKey, ReasonFuture, ReasonExpired, ReasonSpent, ReasonKeyUnreadable, ReasonGrantAltered]"

text \<open>\<open>presence.Reason(s).Phrase()\<close>.\<close>

definition text_phrase :: "string \<Rightarrow> string" where
  "text_phrase s = (case find (\<lambda>r. reason_text r = s) all_reasons of Some r \<Rightarrow> Phrase r | None \<Rightarrow> s)"

definition reasonHarnessStrict :: string where "reasonHarnessStrict = ''harness_not_accepted''"

definition reasonPhrase :: "string \<Rightarrow> string" where
  "reasonPhrase r =
     (if r = reasonHarnessStrict
      then ''boundary_approval is presence-strict, so Claude Code's prompt does not approve; only a signed approval does''
      else text_phrase r)"

subsection \<open>The check\<close>

definition PresenceSigned :: string where "PresenceSigned = ''signed''"
definition PresenceHarness :: string where "PresenceHarness = ''harness''"
definition PresenceTeam :: string where "PresenceTeam = ''team''"
definition PresenceUnverified :: string where "PresenceUnverified = ''unverified''"
definition PresenceNotEnrolled :: string where "PresenceNotEnrolled = ''not_enrolled''"
definition PresenceRefused :: string where "PresenceRefused = ''refused''"

lemmas presence_texts = PresenceSigned_def PresenceHarness_def PresenceTeam_def PresenceUnverified_def
  PresenceNotEnrolled_def PresenceRefused_def

definition MethodCLI :: string where "MethodCLI = ''cli''"
definition MethodMCP :: string where "MethodMCP = ''mcp''"
definition MethodAPI :: string where "MethodAPI = ''api''"
definition MethodPrompt :: string where "MethodPrompt = ''prompt''"
definition MethodTeam :: string where "MethodTeam = ''team''"
definition MethodExtra :: string where "MethodExtra = ''extra''"

lemmas method_texts = MethodCLI_def MethodMCP_def MethodAPI_def MethodPrompt_def MethodTeam_def MethodExtra_def

definition spentKept :: nat where "spentKept = 16"

record presence_check =
  pc_presence :: string
  pc_key :: string
  pc_would_refuse :: string
  pc_spent :: string

definition no_check :: presence_check where
  "no_check = \<lparr>pc_presence = [], pc_key = [], pc_would_refuse = [], pc_spent = []\<rparr>"

definition honoured :: "presence_check \<Rightarrow> mode \<Rightarrow> bool" where
  "honoured c m \<longleftrightarrow>
     (if \<not> mode_Enforced m then True
      else if pc_presence c = PresenceSigned \<or> pc_presence c = PresenceTeam then True
      else if pc_presence c = PresenceHarness then \<not> mode_Strict m
      else False)"

definition refusal :: "presence_check \<Rightarrow> mode \<Rightarrow> string" where
  "refusal c m =
     (if pc_presence c = PresenceHarness \<and> mode_Strict m then reasonHarnessStrict
      else if pc_presence c = PresenceNotEnrolled then reason_text ReasonNotEnrolled
      else if pc_would_refuse c \<noteq> [] then pc_would_refuse c
      else reason_text ReasonUnsigned)"

definition check_stamp :: "presence_check \<Rightarrow> decision_approval \<Rightarrow> decision_approval" where
  "check_stamp c a = a\<lparr>ap_presence := pc_presence c, ap_presence_key := pc_key c, ap_would_refuse := pc_would_refuse c\<rparr>"

definition newChallenge :: "(world, string) io" where
  "newChallenge = io_bind draw (\<lambda>b. ret (hex_encode b))"

text \<open>What the verifier is asked: the decision as the pause point computed it, with what the pending
record holds of this raising, nothing where it cannot be read.\<close>

definition answer_expect :: "env \<Rightarrow> answer \<Rightarrow> string \<Rightarrow> string \<Rightarrow> string \<Rightarrow> pending option \<Rightarrow> expect" where
  "answer_expect e a i rule session p =
     \<lparr>e_decision = i, e_rule = rule, e_session = session, e_scope = an_scope a,
      e_challenge = (case p of None \<Rightarrow> [] | Some p \<Rightarrow> pd_challenge p),
      e_crossings = an_crossings a, e_now = now_of e,
      e_spent = Some (\<lambda>fp. fp \<in> set (case p of None \<Rightarrow> [] | Some p \<Rightarrow> pd_spent p))\<rparr>"

definition check_of :: "env \<Rightarrow> answer \<Rightarrow> string \<Rightarrow> string \<Rightarrow> string \<Rightarrow> pending option \<Rightarrow> trust \<Rightarrow> presence_check" where
  "check_of e a i rule session p t =
     (let res = Verify (env_ecdsa e) (an_proof a) (answer_expect e a i rule session p) t
      in if \<not> vresult_OK res
         then no_check\<lparr>pc_presence := PresenceUnverified, pc_key := vr_key_id res, pc_would_refuse := reason_text (vr_reason res)\<rparr>
         else no_check\<lparr>pc_presence := PresenceSigned, pc_key := vr_key_id res,
                pc_spent := (if an_scope a = ScopeOnce then (case an_proof a of None \<Rightarrow> [] | Some p \<Rightarrow> Fingerprint p) else [])\<rparr>)"

definition found_pending :: "err + pending option \<Rightarrow> pending option" where
  "found_pending r = (case r of Inl _ \<Rightarrow> None | Inr p \<Rightarrow> p)"

definition checkPresence :: "env \<Rightarrow> answer \<Rightarrow> string \<Rightarrow> string \<Rightarrow> string \<Rightarrow> (world, presence_check) io" where
  "checkPresence e a i rule session =
     (if an_method a = MethodPrompt then ret (no_check\<lparr>pc_presence := PresenceHarness\<rparr>)
      else if an_method a = MethodTeam then ret (no_check\<lparr>pc_presence := PresenceTeam\<rparr>)
      else io_bind (attempt (env_trust e)) (\<lambda>t.
        case t of
          Inl _ \<Rightarrow> ret (no_check\<lparr>pc_presence := PresenceUnverified, pc_would_refuse := reason_text ReasonKeyUnreadable\<rparr>)
        | Inr t \<Rightarrow>
            if tr_state t = TrustNotEnrolled then ret (no_check\<lparr>pc_presence := PresenceNotEnrolled\<rparr>)
            else io_bind (attempt (GetPending i)) (\<lambda>p. ret (check_of e a i rule session (found_pending p) t))))"

definition remember :: "string \<Rightarrow> string list \<Rightarrow> string list" where
  "remember spent xs =
     (if spent = [] then xs else let ys = xs @ [spent] in drop (length ys - spentKept) ys)"

definition retireChallenge :: "string \<Rightarrow> string \<Rightarrow> (world, unit) io" where
  "retireChallenge i spent =
     io_bind (GetPending i) (\<lambda>p.
       case p of
         None \<Rightarrow> ret ()
       | Some p \<Rightarrow> io_bind newChallenge (\<lambda>c. PutPending (p\<lparr>pd_challenge := c, pd_spent := remember spent (pd_spent p)\<rparr>)))"

definition presenceRationale :: "decision_approval \<Rightarrow> string" where
  "presenceRationale a =
     (if ap_presence a = PresenceRefused then
        ''; presence enforced: this '' @ ap_method a @ '' approval was not honoured ('' @ reasonPhrase (ap_would_refuse a) @
        ''), so the decision still waits (unsigned_answer_ignored)''
      else if ap_presence a = PresenceSigned then
        ''; approved in person: signed with presence key '' @ ap_presence_key a @
        '' (Touch ID, a paired Apple Watch or the login password); if you did not approve that dialog, deny this decision''
      else if ap_would_refuse a = [] then ''''
      else ''; presence check in shadow: with presence enforced this '' @ ap_method a @ '' approval would not be honoured ('' @
        text_phrase (ap_would_refuse a) @ ''), and it changed nothing'')"

subsection \<open>What an honoured approval rests on\<close>

text \<open>
  A signed approval verifies for the decision, rule, session and crossings at hand under the key
  in the key store's file.
\<close>

definition signed_for :: "env \<Rightarrow> world \<Rightarrow> answer \<Rightarrow> string \<Rightarrow> string \<Rightarrow> string \<Rightarrow> bool" where
  "signed_for e w a i rule session \<longleftrightarrow>
     (\<exists>b p t. ks_public (w_keys w) = Some b \<and> tr_key t = file_key (env_point_ok e) (take maxFile b) \<and>
        (p = None \<or> map_of (w_pending w) i = Some (Stored (the p))) \<and>
        vresult_OK (Verify (env_ecdsa e) (an_proof a) (answer_expect e a i rule session p) t))"

lemma leaves_env_trust [leaves_intros]:
  "contents f \<Longrightarrow> (\<And>g w. f (w_keys_update g w) = f w) \<Longrightarrow> leaves f (env_trust e)"
  unfolding env_trust_def by (intro leaves_intros)

lemma leaves_newChallenge [leaves_intros]: "contents f \<Longrightarrow> leaves f newChallenge"
  unfolding newChallenge_def by (intro leaves_intros)

lemma leaves_checkPresence [leaves_intros]:
  assumes "contents f" "\<And>g w. f (w_keys_update g w) = f w"
  shows "leaves f (checkPresence e a i rule session)"
  unfolding checkPresence_def by (intro leaves_intros assms)

lemma leaves_retireChallenge [leaves_intros]:
  assumes "contents f" "\<And>g w. f (w_pending_update g w) = f w"
  shows "leaves f (retireChallenge i s)"
  unfolding retireChallenge_def by (intro leaves_intros assms)

lemma env_trust_public: "leaves (\<lambda>w. ks_public (w_keys w)) (env_trust e)"
  unfolding env_trust_def by (rule Trust_public)

lemma GetPending_value:
  assumes "GetPending i w = (Inr p, w')"
  shows "p = None \<or> map_of (w_pending w) i = Some (Stored (the p))"
  using assms
  by (auto simp: GetPending_def getJSON_def io_iff idPath_def dest!: reach_state split: if_splits)

lemma checkPresence_cases:
  assumes "checkPresence e a i rule session w = (Inr c, w')"
  obtains (prompt) "an_method a = MethodPrompt" "pc_presence c = PresenceHarness"
    | (team) "an_method a = MethodTeam" "pc_presence c = PresenceTeam"
    | (none) "pc_presence c = PresenceUnverified \<or> pc_presence c = PresenceNotEnrolled"
    | (checked) t v p where "env_trust e w = (Inr t, v)" "tr_state t \<noteq> TrustNotEnrolled" "GetPending i v = (p, w')"
        "c = check_of e a i rule session (found_pending p) t"
proof (cases "an_method a = MethodPrompt \<or> an_method a = MethodTeam")
  case True
  with assms show ?thesis
    by (auto simp: checkPresence_def no_check_def MethodPrompt_def MethodTeam_def intro: prompt team split: if_splits)
next
  case False
  obtain r v where r: "env_trust e w = (r, v)" by fastforce
  show ?thesis
  proof (cases r)
    case (Inl err)
    with r assms False have "pc_presence c = PresenceUnverified"
      by (auto simp: checkPresence_def io_bind_def attempt_def no_check_def)
    then show ?thesis by (intro none) simp
  next
    case (Inr t)
    obtain p v' where p: "GetPending i v = (p, v')" by fastforce
    show ?thesis
    proof (cases "tr_state t = TrustNotEnrolled")
      case True
      with r Inr assms False have "pc_presence c = PresenceNotEnrolled"
        by (auto simp: checkPresence_def io_bind_def attempt_def no_check_def)
      then show ?thesis by (intro none) simp
    next
      case enrolled: False
      with r Inr assms False p have "v' = w'" "c = check_of e a i rule session (found_pending p) t"
        by (auto simp: checkPresence_def io_bind_def attempt_def)
      with r Inr p enrolled show ?thesis by (intro checked) auto
    qed
  qed
qed

lemma check_of_presence:
  "pc_presence (check_of e a i rule session p t) =
     (if vresult_OK (Verify (env_ecdsa e) (an_proof a) (answer_expect e a i rule session p) t)
      then PresenceSigned else PresenceUnverified)"
  by (simp add: check_of_def Let_def no_check_def)

lemma check_signed:
  assumes "checkPresence e a i rule session w = (Inr c, w')" "pc_presence c = PresenceSigned"
  shows "signed_for e w a i rule session"
  using assms(1)
proof (cases rule: checkPresence_cases)
  case (checked t v p)
  have ok: "vresult_OK (Verify (env_ecdsa e) (an_proof a) (answer_expect e a i rule session (found_pending p)) t)"
    using assms(2) unfolding checked(4) check_of_presence by (simp add: presence_texts split: if_splits)
  from checked(1,2) Trust_key obtain b q where b: "ks_public (w_keys w) = Some b"
      "t = trustOf (file_key (env_point_ok e) (take maxFile b)) q (UTC (now_of e))"
    unfolding env_trust_def by (fastforce simp: not_enrolled_def)
  have pend: "w_pending v = w_pending w" by (rule leavesD [OF leaves_env_trust checked(1)]) auto
  have "found_pending p = None \<or> map_of (w_pending w) i = Some (Stored (the (found_pending p)))"
    using GetPending_value [of i v _ w'] checked(3) pend by (cases p) (auto simp: found_pending_def)
  with ok b show ?thesis unfolding signed_for_def by (metis tr_key_trustOf)
qed (use assms(2) in \<open>auto simp: presence_texts\<close>)

text \<open>The reasons an approval counts, by what its file says.\<close>

definition vouched :: "env \<Rightarrow> world \<Rightarrow> answer \<Rightarrow> string \<Rightarrow> string \<Rightarrow> string \<Rightarrow> bool" where
  "vouched e w a i rule session \<longleftrightarrow>
     (case approval e of
        ModeChannel \<Rightarrow> True
      | ModePresence \<Rightarrow> an_method a = MethodPrompt \<or> an_method a = MethodTeam \<or> signed_for e w a i rule session
      | ModeStrict \<Rightarrow> an_method a = MethodTeam \<or> signed_for e w a i rule session)"

lemma honoured_vouched:
  assumes "checkPresence e a i rule session w = (Inr c, w')" "honoured c (approval e)"
  shows "vouched e w a i rule session"
  using assms(1)
proof (cases rule: checkPresence_cases)
  case prompt
  with assms(2) show ?thesis
    by (cases "approval e") (auto simp: honoured_def vouched_def mode_Enforced_def mode_Strict_def presence_texts)
next
  case team
  then show ?thesis by (cases "approval e") (auto simp: vouched_def)
next
  case none
  with assms(2) show ?thesis
    by (cases "approval e") (auto simp: honoured_def vouched_def mode_Enforced_def mode_Strict_def presence_texts)
next
  case (checked t v p)
  then have "pc_presence c = PresenceSigned \<or> pc_presence c = PresenceUnverified"
    by (simp add: check_of_presence)
  with assms(2) check_signed [OF assms(1)] show ?thesis
    by (cases "approval e") (auto simp: honoured_def vouched_def mode_Enforced_def mode_Strict_def presence_texts)
qed

end
