(* ===== verification/ReadFacts.thy ===== *)
theory ReadFacts
  imports Approvals
begin

text \<open>
  What the pause point reads before it decides (\<open>readFacts\<close>, \<open>readLoop\<close>, \<open>lazyFigures\<close> of
  \<open>internal/capability/boundaries/guard.go\<close> and \<open>readPlanFacts\<close> of \<open>planfacts.go\<close>): only the
  figures some rule compares, each with the evidence it was read from. The daemon's figures are
  read at most once, and count only while they are fresh.
\<close>

subsection \<open>The daemon's figures\<close>

definition figuresFreshFor :: duration where "figuresFreshFor = 5 * minute"

text \<open>\<open>None\<close> is not read yet; inside, the figures if they count.\<close>

type_synonym lazy_figures = "figures option option"

definition fresh_figures :: "gotime \<Rightarrow> err + figures option \<Rightarrow> figures option" where
  "fresh_figures now r =
     (case r of
        Inr (Some f) \<Rightarrow> if Sub now (fi_observed f) \<le> figuresFreshFor then Some f else None
      | _ \<Rightarrow> None)"

definition get_figures :: "gotime \<Rightarrow> lazy_figures \<Rightarrow> (world, figures option \<times> lazy_figures) io" where
  "get_figures now l =
     (case l of
        Some f \<Rightarrow> ret (f, l)
      | None \<Rightarrow> io_bind (attempt GetFigures) (\<lambda>r. let f = fresh_figures now r in ret (f, Some f)))"

subsection \<open>The plan\<close>

definition evidence :: "string \<Rightarrow> string \<Rightarrow> gotime \<Rightarrow> gotime \<Rightarrow> f64 \<Rightarrow> string \<Rightarrow> string \<Rightarrow> evidence_ref" where
  "evidence kind src observed fresh conf scp caveat =
     \<lparr>rf_event = [], rf_kind = kind, rf_source = src, rf_observed = observed, rf_fresh_until = fresh,
      rf_confidence = conf, rf_scope = scp, rf_caveat = caveat\<rparr>"

definition HarnessClaudeCode :: string where "HarnessClaudeCode = ''claude-code''"
definition HarnessOpencode :: string where "HarnessOpencode = ''opencode''"
definition PointRouter :: string where "PointRouter = ''router''"
definition PointTokenOps :: string where "PointTokenOps = ''tokenops''"

definition daemon_evidence :: "figures \<Rightarrow> string \<Rightarrow> string \<Rightarrow> evidence_ref" where
  "daemon_evidence fig scp caveat =
     evidence ''plan_headroom'' ''daemon_glance'' (fi_observed fig) (Add (fi_observed fig) figuresFreshFor) (Fin 1) scp caveat"

text \<open>Claude Code's own reading, in its sessions.\<close>

definition plan_from_limits :: "call \<Rightarrow> env \<Rightarrow> facts \<times> evidence_ref list \<Rightarrow> facts \<times> evidence_ref list" where
  "plan_from_limits c e x =
     (case (if ca_harness c = HarnessClaudeCode then limitsPlan (env_limits e) (now_of e) else None) of
        None \<Rightarrow> x
      | Some (left, early, observed) \<Rightarrow>
          ((fst x)\<lparr>fa_plan_left := left, fa_plan_early := early, fa_plan_vendor := planVendor ''anthropic''\<rparr>,
           snd x @ [evidence ''plan_headroom'' ''claude_code_statusline'' observed (Add observed limitsFreshFor) (Fin 1) ''anthropic'' '''']))"

definition plan_provider :: "call \<Rightarrow> string" where
  "plan_provider c = (if ca_harness c = HarnessClaudeCode then ''anthropic'' else ca_provider c)"

definition plan_from_figures :: "string \<Rightarrow> figures option \<Rightarrow> facts \<times> evidence_ref list \<Rightarrow> facts \<times> evidence_ref list" where
  "plan_from_figures provider fig x =
     (case fig of
        None \<Rightarrow> x
      | Some fg \<Rightarrow>
          let left = figuresPlanLeft fg provider
          in if \<not> any_window left then x
             else ((fst x)\<lparr>fa_plan_left := left, fa_plan_early := figuresPlanEarly fg provider, fa_plan_vendor := planVendor provider\<rparr>,
                   snd x @ [if provider = [] then daemon_evidence fg ''any'' ''the tightest plan TokenOps watches, whichever provider''
                            else daemon_evidence fg provider '''']))"

definition plan_of_other :: "figures \<Rightarrow> facts \<times> evidence_ref list \<Rightarrow> string \<Rightarrow> facts \<times> evidence_ref list" where
  "plan_of_other fg x other =
     (let left = figuresPlanLeft fg other; f = fst x; vendor = planVendor other
      in if \<not> any_window left then x
         else let (l, lv) = mergePlan (fa_plan_left f) (fa_plan_vendors f) (fa_plan_vendor f) left vendor lower;
                  (ea, ev) = mergePlan (fa_plan_early f) (fa_plan_early_vendors f) (fa_plan_vendor f) (figuresPlanEarly fg other) vendor higher
              in (f\<lparr>fa_plan_left := l, fa_plan_vendors := lv, fa_plan_early := ea, fa_plan_early_vendors := ev\<rparr>,
                  snd x @ [daemon_evidence fg other (''the tool call starts '' @ vendor @ '', which spends that plan'')]))"

definition readPlanFacts ::
  "call \<Rightarrow> env \<Rightarrow> facts \<times> evidence_ref list \<Rightarrow> lazy_figures \<Rightarrow> (world, (facts \<times> evidence_ref list) \<times> lazy_figures) io" where
  "readPlanFacts c e x l =
     (let y = plan_from_limits c e x
      in io_bind (if any_window (fa_plan_left (fst y)) then ret (y, l)
                  else io_bind (get_figures (now_of e) l) (\<lambda>(fig, l). ret (plan_from_figures (plan_provider c) fig y, l))) (\<lambda>(y, l).
         if ca_spends c = [] then ret (y, l)
         else io_bind (get_figures (now_of e) l) (\<lambda>(fig, l).
                ret (case fig of None \<Rightarrow> y | Some fg \<Rightarrow> foldl (plan_of_other fg) y (ca_spends c), l))))"

subsection \<open>The loop\<close>

definition readLoop :: "call \<Rightarrow> env \<Rightarrow> (world, loop_figure option) io" where
  "readLoop c e =
     (if ca_tool_name c = [] \<or> ca_args_hash c = [] then ret None
      else io_bind (attempt (RecentCalls (ca_session c))) (\<lambda>r.
        case r of
          Inl _ \<Rightarrow> ret None
        | Inr recent \<Rightarrow>
            let this = \<lparr>tc_tool = ca_tool_name c, tc_hash = ca_args_hash c\<rparr>
            in io_bind (attempt (AppendCall (ca_session c) this)) (\<lambda>a.
               case a of
                 Inl _ \<Rightarrow> ret None
               | Inr _ \<Rightarrow>
                   io_then (attempt (PruneCalls (now_of e)))
                     (ret (Some \<lparr>lf_known = True, lf_reading = ReadLoop (recent @ [this])\<rparr>)))))"

subsection \<open>All facts\<close>

definition SessionCostUSD :: "(string \<Rightarrow> f64 option) \<Rightarrow> string \<Rightarrow> f64 option" where
  "SessionCostUSD costs session = (if session = [] then None else costs session)"

type_synonym read_so_far = "(facts \<times> evidence_ref list) \<times> lazy_figures"

definition read_cost :: "call \<Rightarrow> env \<Rightarrow> facts \<times> evidence_ref list \<Rightarrow> facts \<times> evidence_ref list" where
  "read_cost c e x =
     (case SessionCostUSD (env_costs e) (ca_session c) of
        None \<Rightarrow> x
      | Some usd \<Rightarrow>
          ((fst x)\<lparr>fa_session_cost := Known usd\<rparr>,
           snd x @ [evidence ''session_cost'' ''coach_hook_ledger'' (now_of e) zero_time (Fin 0) (ca_session c)
             ''summed at the session's last turn end, API-equivalent'']))"

definition read_loop_fact :: "call \<Rightarrow> env \<Rightarrow> facts \<times> evidence_ref list \<Rightarrow> (world, facts \<times> evidence_ref list) io" where
  "read_loop_fact c e x =
     io_bind (readLoop c e) (\<lambda>r. ret (case r of
         None \<Rightarrow> x
       | Some loop \<Rightarrow>
           ((fst x)\<lparr>fa_loop := loop\<rparr>,
            snd x @ [evidence ''tool_loop'' ''pause_point_calls'' (now_of e) zero_time (Fin 1) (ca_session c)
              (''tool names and input hashes only; an edit or write it had not seen counts as progress, '' @
               ''a file changed through a shell does not'')])))"

definition read_subagents :: "call \<Rightarrow> env \<Rightarrow> facts \<times> evidence_ref list \<Rightarrow> facts \<times> evidence_ref list" where
  "read_subagents c e x =
     (case SubagentLaunches (env_transcripts e) (ca_transcript c) (ca_tool_use c) of
        None \<Rightarrow> x
      | Some n \<Rightarrow>
          ((fst x)\<lparr>fa_subagents := \<lparr>sf_known = True, sf_session = int (la_session n) + 1, sf_prompt = int (la_prompt n) + 1,
                     sf_prompt_known = la_prompt_found n\<rparr>\<rparr>,
           snd x @ [evidence ''subagents_started'' ''claude_code_transcript'' (now_of e) zero_time (Fin 1) (ca_session c)
             ''counts the one about to start; a launch declined, stopped or refused does not count'']))"

definition budgets_for :: "call \<Rightarrow> figures \<Rightarrow> (string \<times> f64) list \<times> string \<times> string" where
  "budgets_for c fg =
     (if ca_biller c \<noteq> [] \<and> fi_budgets fg \<noteq> []
      then (BudgetsUsedPct (filter (\<lambda>r. CountsFor r (ca_biller c)) (fi_budgets fg)),
            ''budgets counting '' @ ca_biller c, ''budgets on another provider's bill left out'')
      else (fi_budget_used fg, ''budgets'', ''''))"

definition read_budgets :: "call \<Rightarrow> figures option \<Rightarrow> facts \<times> evidence_ref list \<Rightarrow> facts \<times> evidence_ref list" where
  "read_budgets c fig x =
     (case fig of
        None \<Rightarrow> x
      | Some fg \<Rightarrow>
          if fi_budget_used fg = [] then x
          else (case budgets_for c fg of (used, scp, caveat) \<Rightarrow>
            ((fst x)\<lparr>fa_budget_used := used\<rparr>,
             snd x @ [evidence ''budget_used'' ''daemon_budgets'' (fi_observed fg) (Add (fi_observed fg) figuresFreshFor) (Fin 1) scp caveat])))"

definition first_facts :: "rule list \<Rightarrow> call \<Rightarrow> env \<Rightarrow> facts" where
  "first_facts rules c e =
     no_facts\<lparr>fa_agent := ca_agent c, fa_workflow := ca_workflow c, fa_model_tier := TierOf (ca_model c),
       fa_destination := ca_destination c, fa_now := localNow e,
       fa_folder := (if needs rules FieldFolder then ca_folder c else [])\<rparr>"

definition readFacts :: "rule list \<Rightarrow> call \<Rightarrow> env \<Rightarrow> (world, facts \<times> evidence_ref list) io" where
  "readFacts rules c e =
     (let x = (first_facts rules c e, []);
          x = (if needs rules FieldSessionCost then read_cost c e x else x)
      in io_bind (if needs rules FieldPlanLeft \<or> needs rules FieldPlanEarly then readPlanFacts c e x None else ret (x, None)) (\<lambda>(x, l).
         io_bind (if needs rules FieldLoopCalls then read_loop_fact c e x else ret x) (\<lambda>x.
         let x = (if needs rules FieldSessionSubagents \<or> needs rules FieldPromptSubagents then read_subagents c e x else x)
         in if needs rules FieldBudgetUsed
            then io_bind (get_figures (now_of e) l) (\<lambda>(fig, _). ret (read_budgets c fig x))
            else ret x)))"

subsection \<open>What reading leaves alone\<close>

lemma leaves_get_figures [leaves_intros]: "contents f \<Longrightarrow> leaves f (get_figures now l)"
  unfolding get_figures_def Let_def by (intro leaves_intros)

lemma leaves_readLoop [leaves_intros]:
  assumes "contents f" "\<And>g w. f (w_calls_update g w) = f w" "\<And>g w. f (w_calls_dir_update g w) = f w"
    "\<And>g w. f (w_calls_stamp_update g w) = f w"
  shows "leaves f (readLoop c e)"
  unfolding readLoop_def Let_def by (intro leaves_intros assms)

lemma leaves_readFacts [leaves_intros]:
  assumes "contents f" "\<And>g w. f (w_calls_update g w) = f w" "\<And>g w. f (w_calls_dir_update g w) = f w"
    "\<And>g w. f (w_calls_stamp_update g w) = f w"
  shows "leaves f (readFacts rules c e)"
  unfolding readFacts_def Let_def readPlanFacts_def read_loop_fact_def by (intro leaves_intros assms)

end
