(* ===== verification/Reasons.thy ===== *)
theory Reasons
  imports ReadFacts
begin

text \<open>
  What the pause point says and records (\<open>internal/capability/boundaries/guard.go\<close>): the reason a
  refusal or a question carries, and the decision as an event of the log.
\<close>

subsection \<open>Refusals\<close>

definition agentFacing :: "action \<Rightarrow> bool" where
  "agentFacing a \<longleftrightarrow> a = ActionContinue \<or> a = ActionSpend \<or> a = ActionSubagentModel"

definition heldUntil :: "action \<Rightarrow> string" where
  "heldUntil a = (if a = ActionModelRoute then ''The request stays on the model it asked for'' else ''The figures are not sent'')"

definition actionNoun :: "action \<Rightarrow> string" where
  "actionNoun a =
     (case a of
        ActionSubagentModel \<Rightarrow> ''subagent on this model''
      | ActionSpend \<Rightarrow> ''steps while it holds''
      | _ \<Rightarrow> ''steps in this session'')"

definition approverPhrase :: "require \<Rightarrow> string" where
  "approverPhrase r =
     (if q_kind r = RequireApprover
      then ''needs approval from '' @ q_role r @ '' (answered on this machine until the team plane routes it)''
      else ''needs the operator's approval'')"

definition loopHint :: "rule_match \<Rightarrow> string" where
  "loopHint m =
     (if list_ex (\<lambda>c. c_field c = FieldLoopCalls) (r_when (m_rule m))
      then '' This looks like a loop: change approach, or ask the user, rather than repeat the same calls.'' else '''')"

definition boundary_head :: "rule_match \<Rightarrow> string" where
  "boundary_head m = ''tokenops boundary '' @ quoted (r_name (m_rule m))"

definition routedReason :: "rule_match \<Rightarrow> string \<Rightarrow> string" where
  "routedReason m i =
     boundary_head m @ '' (your organisation's): '' @ Crossed m @ '', and this needs approval from '' @
     q_role (r_require (m_rule m)) @ '' in your organisation. The request has gone to them ('' @ i @ ''). '' @
     (if \<not> agentFacing (r_action (m_rule m)) then heldUntil (r_action (m_rule m)) @ '' until they answer.''
      else ''Do not retry: stop and tell the operator; the step is allowed once they approve it.'')"

definition askReason :: "rule_match \<Rightarrow> string \<Rightarrow> string" where
  "askReason m i =
     boundary_head m @ '': '' @ Crossed m @ ''. Continue? Yes lets the agent go on for the rest of this session ('' @ i @ '').'' @
     loopHint m"

definition unattendedReason :: "rule_match \<Rightarrow> string \<Rightarrow> string" where
  "unattendedReason m i =
     (if \<not> agentFacing (r_action (m_rule m)) then
        boundary_head m @ '': '' @ Crossed m @ '', and this '' @ approverPhrase (r_require (m_rule m)) @ ''. '' @
        heldUntil (r_action (m_rule m)) @ '' until then: `tokenops approve '' @ i @ ''` allows the next one, `tokenops approve '' @
        i @ '' --session` the next 24 hours.''
      else
        boundary_head m @ '': '' @ Crossed m @ '', and this '' @ approverPhrase (r_require (m_rule m)) @
        ''. Do not retry: stop and tell the operator. They can allow this one step with `tokenops approve '' @ i @
        ''`, or the rest of the session with `tokenops approve '' @ i @ '' --session`.'' @ loopHint m)"

definition denyReason :: "rule_match \<Rightarrow> string" where
  "denyReason m =
     (if \<not> agentFacing (r_action (m_rule m)) then
        boundary_head m @ '': '' @ Crossed m @ '', and the rule refuses it. '' @ heldUntil (r_action (m_rule m)) @
        ''; only changing the rule in TokenOps' config.yaml lifts it.''
      else
        boundary_head m @ '': '' @ Crossed m @ '', and the rule refuses any further '' @ actionNoun (r_action (m_rule m)) @
        ''. Do not retry: stop and tell the operator; only changing the rule in TokenOps' config.yaml lifts it.'' @ loopHint m)"

definition declinedReason :: "rule_match \<Rightarrow> string \<Rightarrow> string" where
  "declinedReason m approver =
     (if \<not> agentFacing (r_action (m_rule m)) then
        boundary_head m @ '': '' @ approver @ '' declined this ('' @ Crossed m @ ''). '' @ heldUntil (r_action (m_rule m)) @ ''.''
      else boundary_head m @ '': '' @ approver @ '' declined this ('' @ Crossed m @ ''). Stop and ask the operator how to proceed.'')"

definition EnrolCommand :: string where "EnrolCommand = ''tokenops boundaries presence enroll''"

definition mode_text :: "mode \<Rightarrow> string" where
  "mode_text m = (case m of ModeChannel \<Rightarrow> ''channel'' | ModePresence \<Rightarrow> ''presence'' | ModeStrict \<Rightarrow> ''presence-strict'')"

text \<open>\<open>Format("15:04")\<close>.\<close>

definition clock_text :: "gotime \<Rightarrow> string" where
  "clock_text t = pad_int 2 (clock_hour t) @ '':'' @ pad_int 2 (clock_minute t)"

text \<open>Under enforcement the way out depends on the key.\<close>

definition way_out :: "env \<Rightarrow> rule_match \<Rightarrow> string \<Rightarrow> err + trust \<Rightarrow> string" where
  "way_out e m i r =
     (case r of
        Inl _ \<Rightarrow>
          '' Approval needs this Mac's presence key, and its key store could not be read; demote the rule with '' @
          ''`tokenops boundaries demote '' @ r_name (m_rule m) @ ''` to let it through.''
      | Inr t \<Rightarrow>
          (case tr_state t of
             TrustNotEnrolled \<Rightarrow>
               '' Approval needs this Mac's presence key (boundary_approval: '' @ mode_text (approval e) @
               '') and none is enrolled: enrol one with `'' @ EnrolCommand @ ''`, then approve with `tokenops approve '' @ i @
               ''`; or demote the rule with `tokenops boundaries demote '' @ r_name (m_rule m) @ ''`.''
           | TrustHeld \<Rightarrow>
               '' Approvals are held until '' @ clock_text (local_time e (p_hold_until (tr_pin t))) @
               '': the presence key was replaced without the old key's signature. After that, `tokenops approve '' @ i @
               ''` asks for Touch ID, a paired Apple Watch or the password.''
           | TrustPinned \<Rightarrow>
               '' They can allow this one step with `tokenops approve '' @ i @ ''`, or the rest of the session with '' @
               ''`tokenops approve '' @ i @ '' --session`; either asks for Touch ID, a paired Apple Watch or the password.''))"

definition enforced_head :: "rule_match \<Rightarrow> string" where
  "enforced_head m =
     boundary_head m @ '': '' @ Crossed m @ '', and this '' @ approverPhrase (r_require (m_rule m)) @ ''.'' @
     (if agentFacing (r_action (m_rule m)) then '' Do not retry: stop and tell the operator.''
      else '' '' @ heldUntil (r_action (m_rule m)) @ '' until then.'')"

subsection \<open>The decision as an event\<close>

definition wouldHave :: "require \<Rightarrow> string" where
  "wouldHave r =
     (case q_kind r of RequireDeny \<Rightarrow> ''refused'' | RequireAllow \<Rightarrow> ''allowed'' | _ \<Rightarrow> ''asked'')"

definition CanRefuse :: "string \<Rightarrow> bool" where
  "CanRefuse harness \<longleftrightarrow> harness \<in> {HarnessClaudeCode, HarnessOpencode, PointRouter, PointTokenOps}"

definition BoundaryPolicyPrefix :: string where "BoundaryPolicyPrefix = ''boundary:''"

definition selects_proceed :: "decision_stage \<Rightarrow> decision_approval \<Rightarrow> bool" where
  "selects_proceed st a \<longleftrightarrow>
     st = DecisionStageShadow \<or> st = DecisionStageAccepted \<or> (st = DecisionStageApplied \<and> ap_approver a \<noteq> [])"

definition decision_rationale :: "rule_match \<Rightarrow> decision_stage \<Rightarrow> decision_approval \<Rightarrow> string" where
  "decision_rationale m st a =
     Crossed m @
     (if st = DecisionStageShadow
      then ''; in shadow, so it would have '' @ wouldHave (r_require (m_rule m)) @ '' and changed nothing'' else '''') @
     presenceRationale a"

definition decision_payload ::
  "rule_match \<Rightarrow> decision_stage \<Rightarrow> call \<Rightarrow> env \<Rightarrow> evidence_ref list \<Rightarrow> decision_approval \<Rightarrow> decision_event" where
  "decision_payload m st c e ev a =
     (let proceed = no_option\<lparr>ro_model := ca_model c, ro_reason := ''proceed with the '' @ action_text (ca_action c)\<rparr>;
          hold = no_option\<lparr>ro_model := ca_model c, ro_reason := ''require '' @ Require_String (r_require (m_rule m))\<rparr>
      in \<lparr>de_kind = ''boundary'', de_stage = st, de_alternatives = [proceed, hold],
          de_selected = (if selects_proceed st a then proceed else hold), de_evidence = ev,
          de_policy = BoundaryPolicyPrefix @ r_name (m_rule m),
          de_authority = authority_String (Require_Authority (r_require (m_rule m))), de_confidence = Fin 1,
          de_rationale = decision_rationale m st a,
          de_executable = (Enforced (m_rule m) \<and> CanRefuse (ca_harness c)), de_adapter = ca_harness c @ ''-hook'',
          de_actor = \<lparr>da_harness = ca_harness c, da_session = ca_session c, da_agent = ca_agent c, da_user = user_of e\<rparr>,
          de_approval = a\<rparr>)"

definition boundary_event :: "string \<Rightarrow> gotime \<Rightarrow> string \<Rightarrow> string \<Rightarrow> decision_event \<Rightarrow> envelope" where
  "boundary_event uuid t actor decision d =
     \<lparr>ev_id = uuid, ev_timestamp = t, ev_source = ''boundary'', ev_actor = actor, ev_decision = decision, ev_payload = PDecision d\<rparr>"

text \<open>The envelope of one decision, its rationale ending with what the caller adds; the id is the
next random one.\<close>

definition decisionEnvelope ::
  "rule_match \<Rightarrow> decision_stage \<Rightarrow> call \<Rightarrow> env \<Rightarrow> gotime \<Rightarrow> evidence_ref list \<Rightarrow> decision_approval \<Rightarrow> string \<Rightarrow> (world, envelope) io" where
  "decisionEnvelope m st c e t ev a more_text =
     io_bind draw (\<lambda>uuid.
       let d = decision_payload m st c e ev a
       in ret (boundary_event uuid t (ca_agent c) (DecisionID (r_name (m_rule m)) (ca_session c))
                (d\<lparr>de_rationale := de_rationale d @ more_text\<rparr>)))"

subsection \<open>Failures\<close>

text \<open>The first line of the cause, at most 200 bytes of it.\<close>

definition failureClass :: "string \<Rightarrow> string" where
  "failureClass msg = take 200 (fst (cut (CHR 0x0A) msg))"

definition failure_event :: "call \<Rightarrow> env \<Rightarrow> string \<Rightarrow> decision_event" where
  "failure_event c e cause =
     \<lparr>de_kind = ''boundary'', de_stage = DecisionStageFailed, de_alternatives = [], de_selected = no_option, de_evidence = [],
      de_policy = [], de_authority = [], de_confidence = Fin 0,
      de_rationale = ''the boundary check failed and the call went ahead (fail open): '' @ failureClass cause,
      de_executable = False, de_adapter = ca_harness c @ ''-hook'',
      de_actor = \<lparr>da_harness = ca_harness c, da_session = ca_session c, da_agent = ca_agent c, da_user = user_of e\<rparr>,
      de_approval = no_approval\<rparr>"

definition RecordFailure :: "call \<Rightarrow> env \<Rightarrow> err \<Rightarrow> (world, unit) io" where
  "RecordFailure c e cause =
     io_bind draw (\<lambda>uuid.
     io_then (attempt (Append (Some (boundary_event uuid (now_of e) [] (DecisionID ''_failed'' (ca_session c)) (failure_event c e (err_text cause))))))
       (ret ()))"

lemma leaves_decisionEnvelope [leaves_intros]: "contents f \<Longrightarrow> leaves f (decisionEnvelope m st c e t ev a x)"
  unfolding decisionEnvelope_def Let_def by (intro leaves_intros)

lemma leaves_RecordFailure [leaves_intros]:
  "contents f \<Longrightarrow> (\<And>g w. f (w_log_update g w) = f w) \<Longrightarrow> leaves f (RecordFailure c e x)"
  unfolding RecordFailure_def by (intro leaves_intros; simp)

end
