(* ===== verification/Guard.thy ===== *)
theory Guard
  imports Reasons
begin

text \<open>
  The pause point (\<open>Guard\<close>, \<open>GuardActions\<close> of \<open>internal/capability/boundaries/guard.go\<close>, and the
  lifting of boundaries by extra allowances of \<open>extra.go\<close>): the rules of an action are evaluated
  on the facts read, an allowance takes out the rules it lifts, what matched is recorded, and the
  binding match refuses, asks, or is let through by an answer. The lemmas say what letting a call
  through rests on, whichever accesses to the disk fail.
\<close>

subsection \<open>Results\<close>

datatype pause = VerdictNone | VerdictAsk | VerdictDeny

record pause_result =
  rs_verdict :: pause
  rs_reason :: string
  rs_decision :: string

definition let_through :: pause_result where
  "let_through = \<lparr>rs_verdict = VerdictNone, rs_reason = [], rs_decision = []\<rparr>"

fun verdictRank :: "pause \<Rightarrow> nat" where
  "verdictRank VerdictDeny = 2"
| "verdictRank VerdictAsk = 1"
| "verdictRank VerdictNone = 0"

subsection \<open>Recording\<close>

record guard =
  gd_call :: call
  gd_env :: env
  gd_evidence :: "evidence_ref list"
  gd_now :: gotime
  gd_session :: session
  gd_changed :: bool
  gd_refused :: "(string \<times> string) option"

definition match_id :: "guard \<Rightarrow> rule_match \<Rightarrow> string" where
  "match_id g m = DecisionID (r_name (m_rule m)) (ca_session (gd_call g))"

definition set_stage :: "string \<Rightarrow> string \<Rightarrow> guard \<Rightarrow> guard" where
  "set_stage i txt g =
     g\<lparr>gd_session := (gd_session g)\<lparr>se_recorded := (se_recorded (gd_session g))(i \<mapsto> txt)\<rparr>, gd_changed := True\<rparr>"

definition record_decision :: "guard \<Rightarrow> rule_match \<Rightarrow> decision_stage \<Rightarrow> decision_approval \<Rightarrow> (world, unit) io" where
  "record_decision g m st a =
     io_bind (decisionEnvelope m st (gd_call g) (gd_env g) (gd_now g) (gd_evidence g) a []) (\<lambda>ev. Append (Some ev))"

definition recordOnce :: "guard \<Rightarrow> rule_match \<Rightarrow> decision_stage \<Rightarrow> decision_approval \<Rightarrow> (world, guard) io" where
  "recordOnce g m st a =
     (let i = match_id g m
      in if se_recorded (gd_session g) i = Some (stage_text st) then ret g
         else io_then (record_decision g m st a) (ret (set_stage i (stage_text st) g)))"

definition load :: "call \<Rightarrow> env \<Rightarrow> evidence_ref list \<Rightarrow> (world, guard) io" where
  "load c e ev =
     io_bind (attempt (GetSession (ca_session c))) (\<lambda>s.
       ret \<lparr>gd_call = c, gd_env = e, gd_evidence = ev, gd_now = now_of e,
            gd_session = (case s of Inl _ \<Rightarrow> no_session | Inr s \<Rightarrow> s), gd_changed = False, gd_refused = None\<rparr>)"

definition save :: "guard \<Rightarrow> (world, unit) io" where
  "save g =
     (if \<not> gd_changed g then ret ()
      else PutSession (ca_session (gd_call g)) ((gd_session g)\<lparr>se_last := gd_now g\<rparr>))"

subsection \<open>Extra allowances\<close>

definition grantExpect :: "extra \<Rightarrow> gotime \<Rightarrow> grant_expect" where
  "grantExpect x now =
     \<lparr>ge_id = ex_id x, ge_rules = ex_rules x, ge_granter = ex_granter x, ge_why = ex_why x,
      ge_at = ex_at x, ge_until = ex_until x, ge_now = now\<rparr>"

definition checkExtra :: "env \<Rightarrow> extra \<Rightarrow> err + trust \<Rightarrow> gotime \<Rightarrow> vresult" where
  "checkExtra e x t now =
     (case t of
        Inl _ \<Rightarrow> \<lparr>vr_reason = ReasonKeyUnreadable, vr_key_id = []\<rparr>
      | Inr t \<Rightarrow> VerifyGrant (env_ecdsa e) (ex_grant x) (grantExpect x now) t)"

definition honouredExtras :: "env \<Rightarrow> gotime \<Rightarrow> (world, extra list) io" where
  "honouredExtras e now =
     io_bind (ActiveExtras now) (\<lambda>active.
       if active = [] \<or> \<not> mode_Enforced (approval e) then ret active
       else io_bind (attempt (env_trust e)) (\<lambda>t. ret (filter (\<lambda>x. vresult_OK (checkExtra e x t now)) active)))"

definition liftedBy :: "extra list \<Rightarrow> string \<Rightarrow> gotime \<Rightarrow> extra option" where
  "liftedBy xs rule now = find (\<lambda>x. Covers x rule now) xs"

text \<open>The match that binds once the lifted rules are out, and what was lifted.\<close>

definition liftExtras ::
  "verdict \<Rightarrow> rule list \<Rightarrow> action \<Rightarrow> facts \<Rightarrow> env \<Rightarrow> (world, rule_match option \<times> (rule_match \<times> extra) list) io" where
  "liftExtras v relevant a f e =
     (if v_binding v = None then ret (None, [])
      else io_bind (honouredExtras e (now_of e)) (\<lambda>xs.
        let now = now_of e;
            lifted = List.map_filter (\<lambda>m. if \<not> Enforced (m_rule m) then None
                       else map_option (\<lambda>x. (m, x)) (liftedBy xs (r_name (m_rule m)) now)) (v_matches v)
        in if lifted = [] then ret (v_binding v, [])
           else ret (v_binding (Evaluate (filter (\<lambda>r. liftedBy xs (r_name r) now = None) relevant) a f), lifted)))"

definition extraApproval :: "extra \<Rightarrow> string \<Rightarrow> string \<Rightarrow> decision_approval" where
  "extraApproval x meth rules =
     (let a = no_approval\<lparr>ap_approver := ex_granter x, ap_method := meth, ap_at := ex_at x, ap_rule := rules,
                ap_scope := ''until '' @ rfc3339 (ex_until x)\<rparr>
      in case ex_grant x of None \<Rightarrow> a | Some gr \<Rightarrow> a\<lparr>ap_presence := PresenceSigned, ap_presence_key := g_key gr\<rparr>)"

definition lifted_text :: "extra \<Rightarrow> string" where
  "lifted_text x =
     ''; let through by the extra allowance '' @ ex_id x @ '', granted by '' @ ex_granter x @ '' until '' @ rfc3339 (ex_until x) @
     (if ex_why x \<noteq> [] then '' ('' @ ex_why x @ '')'' else '''') @
     (case ex_grant x of None \<Rightarrow> '''' | Some gr \<Rightarrow> ''; the grant is signed with presence key '' @ g_key gr)"

definition recordLifted :: "guard \<Rightarrow> rule_match \<times> extra \<Rightarrow> (world, guard) io" where
  "recordLifted g l =
     (case l of (m, x) \<Rightarrow>
        let i = match_id g m; txt = stage_text DecisionStageApplied @ ''+'' @ ex_id x
        in if se_recorded (gd_session g) i = Some txt then ret g
           else io_bind (decisionEnvelope m DecisionStageApplied (gd_call g) (gd_env g) (gd_now g) (gd_evidence g)
                  (extraApproval x MethodExtra (r_name (m_rule m))) (lifted_text x)) (\<lambda>ev.
                io_then (Append (Some ev)) (ret (set_stage i txt g))))"

subsection \<open>Answers\<close>

definition answer_approval :: "answer \<Rightarrow> decision_approval" where
  "answer_approval a =
     no_approval\<lparr>ap_approver := an_approver a, ap_method := an_method a, ap_at := an_at a, ap_rule := an_rule a, ap_scope := an_scope a\<rparr>"

definition refuse :: "guard \<Rightarrow> rule_match \<Rightarrow> string \<Rightarrow> answer \<Rightarrow> presence_check \<Rightarrow> (world, guard) io" where
  "refuse g m i a c =
     io_bind (ConsumeAnswer i) (\<lambda>_.
       let reason = refusal c (approval (gd_env g));
           ap = (answer_approval a)\<lparr>ap_presence := PresenceRefused, ap_presence_key := pc_key c, ap_would_refuse := reason\<rparr>
       in io_then (record_decision g m DecisionStageProposed ap) (ret (g\<lparr>gd_refused := Some (an_method a, reason)\<rparr>)))"

definition declined :: "rule_match \<Rightarrow> string \<Rightarrow> answer \<Rightarrow> pause_result" where
  "declined m i a = \<lparr>rs_verdict = VerdictDeny, rs_reason = declinedReason m (an_approver a), rs_decision = i\<rparr>"

text \<open>The result an answer gives, or none.\<close>

definition answered_denied :: "guard \<Rightarrow> rule_match \<Rightarrow> string \<Rightarrow> answer \<Rightarrow> (world, pause_result option \<times> guard) io" where
  "answered_denied g m i a =
     (if an_scope a = ScopeOnce
      then io_bind (ConsumeAnswer i) (\<lambda>won. ret (if won then Some (declined m i a) else None, g))
      else ret (Some (declined m i a), g))"

definition answered_approved :: "guard \<Rightarrow> rule_match \<Rightarrow> string \<Rightarrow> answer \<Rightarrow> presence_check \<Rightarrow> (world, pause_result option \<times> guard) io" where
  "answered_approved g m i a c =
     (let ap = check_stamp c (answer_approval a)
      in if an_scope a = ScopeOnce
         then io_bind (ConsumeAnswer i) (\<lambda>won.
                if \<not> won then ret (None, g)
                else io_then (retireChallenge i (pc_spent c))
                     (io_then (record_decision g m DecisionStageApplied ap) (ret (Some let_through, g))))
         else io_bind (recordOnce g m DecisionStageApplied ap) (\<lambda>g. ret (Some let_through, g)))"

definition answered :: "guard \<Rightarrow> rule_match \<Rightarrow> string \<Rightarrow> (world, pause_result option \<times> guard) io" where
  "answered g m i =
     io_bind (GetAnswer i (gd_now g)) (\<lambda>r.
       case r of
         None \<Rightarrow> ret (None, g)
       | Some a \<Rightarrow>
           if \<not> an_approved a then answered_denied g m i a
           else io_bind (checkPresence (gd_env g) a i (r_name (m_rule m)) (ca_session (gd_call g))) (\<lambda>c.
             if \<not> honoured c (approval (gd_env g)) then io_bind (refuse g m i a c) (\<lambda>g. ret (None, g))
             else answered_approved g m i a c))"

subsection \<open>The harness's prompt\<close>

definition recordVendorStop :: "guard \<Rightarrow> rule_match \<Rightarrow> string \<Rightarrow> tool_verdict \<Rightarrow> (world, unit) io" where
  "recordVendorStop g m tool_use v =
     (let ev = evidence ''vendor_verdict'' ''claude_code_transcript'' (if IsZero (tv_at v) then gd_now g else UTC (tv_at v)) zero_time (Fin 1)
                 (ca_session (gd_call g) @ ''/'' @ tool_use)
                 (''Claude Code stopped the call before any prompt ('' @ tv_stopper v @ ''); read from the tool result's wording'')
      in io_bind (decisionEnvelope m DecisionStageProposed (gd_call g) (gd_env g) (gd_now g) (gd_evidence g @ [ev]) no_approval
           (''; Claude Code stopped the asked call itself ('' @ tv_stopper v @ ''), so nobody answered and the ask moves to the next call''))
         (\<lambda>env. Append (Some env)))"

definition prompt_answer :: "guard \<Rightarrow> rule_match \<Rightarrow> string \<Rightarrow> answer" where
  "prompt_answer g m i =
     \<lparr>an_id = i, an_rule = r_name (m_rule m), an_session = ca_session (gd_call g), an_approved = True, an_scope = ScopeSession,
      an_approver = user_of (gd_env g), an_method = MethodPrompt, an_at = gd_now g, an_crossings = [], an_proof = None\<rparr>"

definition settle_ran :: "guard \<Rightarrow> rule_match \<Rightarrow> string \<Rightarrow> (world, bool \<times> guard) io" where
  "settle_ran g m i =
     (let a = prompt_answer g m i
      in io_then (PutAnswer a)
         (io_then (record_decision g m DecisionStageAccepted ((answer_approval a)\<lparr>ap_presence := PresenceHarness\<rparr>))
           (ret (True, set_stage i (stage_text DecisionStageAccepted) g))))"

definition settlePrompt :: "guard \<Rightarrow> rule_match \<Rightarrow> string \<Rightarrow> (world, bool \<times> guard) io" where
  "settlePrompt g m i =
     (if \<not> env_attended (gd_env g) \<or> ca_transcript (gd_call g) = [] then ret (False, g)
      else io_bind (GetPending i) (\<lambda>r.
        case r of
          None \<Rightarrow> ret (False, g)
        | Some p \<Rightarrow>
            if pd_tool_use p = [] \<or> pd_tool_use p = ca_tool_use (gd_call g) then ret (False, g)
            else case ToolVerdict (env_transcripts (gd_env g)) (ca_transcript (gd_call g)) (pd_tool_use p) of
                   None \<Rightarrow> ret (False, g)
                 | Some v \<Rightarrow>
                     if tv_outcome v = OutcomeDeclined then ret (False, g)
                     else if tv_outcome v = OutcomeVendorStopped
                     then io_then (recordVendorStop g m (pd_tool_use p) v) (ret (False, g))
                     else settle_ran g m i))"

subsection \<open>The binding match\<close>

definition refusedNote :: "guard \<Rightarrow> string" where
  "refusedNote g =
     (case gd_refused g of
        None \<Rightarrow> ''''
      | Some (meth, reason) \<Rightarrow> '' An approval ('' @ meth @ '') was given but not honoured: '' @ reasonPhrase reason @ ''.'')"

definition guard_unattendedReason :: "guard \<Rightarrow> rule_match \<Rightarrow> string \<Rightarrow> (world, string) io" where
  "guard_unattendedReason g m i =
     (if \<not> mode_Enforced (approval (gd_env g)) then ret (unattendedReason m i @ refusedNote g)
      else io_bind (attempt (env_trust (gd_env g))) (\<lambda>t.
             ret (enforced_head m @ way_out (gd_env g) m i t @ refusedNote g @ loopHint m)))"

definition prompts :: "guard \<Rightarrow> rule_match \<Rightarrow> bool" where
  "prompts g m \<longleftrightarrow> env_attended (gd_env g) \<and> \<not> TeamRouted (m_rule m) \<and> \<not> mode_Strict (approval (gd_env g))"

text \<open>The pending record of this raising: what went on from the one before it is kept.\<close>

definition raise_pending :: "guard \<Rightarrow> rule_match \<Rightarrow> string \<Rightarrow> pending option \<Rightarrow> pending" where
  "raise_pending g m i prev =
     (let c = gd_call g;
          p = \<lparr>pd_id = i, pd_rule = r_name (m_rule m), pd_require = Require_String (r_require (m_rule m)), pd_crossed = Crossed m,
               pd_action = action_text (ca_action c), pd_harness = ca_harness c, pd_session = ca_session c, pd_agent = ca_agent c,
               pd_at = gd_now g, pd_tool_use = (if prompts g m then ca_tool_use c else []), pd_crossings = m_crossings m,
               pd_routed_at = None, pd_challenge = [], pd_spent = []\<rparr>
      in case prev of
           None \<Rightarrow> p
         | Some q \<Rightarrow> p\<lparr>pd_routed_at := pd_routed_at q, pd_at := (if TeamRouted (m_rule m) then pd_at q else gd_now g),
                        pd_challenge := pd_challenge q, pd_spent := pd_spent q\<rparr>)"

definition with_challenge :: "pending \<Rightarrow> (world, pending) io" where
  "with_challenge p = (if pd_challenge p = [] then io_bind newChallenge (\<lambda>c. ret (p\<lparr>pd_challenge := c\<rparr>)) else ret p)"

definition deny_with :: "string \<Rightarrow> string \<Rightarrow> pause_result" where
  "deny_with i reason = \<lparr>rs_verdict = VerdictDeny, rs_reason = reason, rs_decision = i\<rparr>"

definition hold :: "guard \<Rightarrow> rule_match \<Rightarrow> string \<Rightarrow> (world, pause_result \<times> guard) io" where
  "hold g m i =
     io_bind (attempt (GetPending i)) (\<lambda>prev.
     io_bind (with_challenge (raise_pending g m i (found_pending prev))) (\<lambda>p.
     io_then (PutPending p)
     (io_bind (recordOnce g m DecisionStageProposed no_approval) (\<lambda>g.
        if TeamRouted (m_rule m) then ret (deny_with i (routedReason m i), g)
        else if prompts g m \<and> agentFacing (r_action (m_rule m))
        then ret (\<lparr>rs_verdict = VerdictAsk, rs_reason = askReason m i @ refusedNote g, rs_decision = i\<rparr>, g)
        else io_bind (guard_unattendedReason g m i) (\<lambda>reason. ret (deny_with i reason, g))))))"

definition bind_match :: "guard \<Rightarrow> rule_match option \<Rightarrow> (world, pause_result \<times> guard) io" where
  "bind_match g b =
     (case b of
        None \<Rightarrow> ret (let_through, g)
      | Some m \<Rightarrow>
          let i = match_id g m
          in if q_kind (r_require (m_rule m)) = RequireAllow then ret (let_through, g)
             else if q_kind (r_require (m_rule m)) = RequireDeny
             then io_bind (recordOnce g m DecisionStageApplied no_approval) (\<lambda>g. ret (deny_with i (denyReason m), g))
             else io_bind (answered g m i) (\<lambda>(r, g).
               case r of
                 Some res \<Rightarrow> ret (res, g)
               | None \<Rightarrow>
                   io_bind (if prompts g m then settlePrompt g m i else ret (False, g)) (\<lambda>(settled, g).
                     if settled then ret (let_through, g) else hold g m i)))"

subsection \<open>The pause point\<close>

definition forAction :: "rule list \<Rightarrow> action \<Rightarrow> rule list" where
  "forAction rules a = filter (\<lambda>r. r_action r = a) rules"

fun fold_io :: "('g \<Rightarrow> 'a \<Rightarrow> (world, 'g) io) \<Rightarrow> 'g \<Rightarrow> 'a list \<Rightarrow> (world, 'g) io" where
  "fold_io f g [] = ret g"
| "fold_io f g (x # xs) = io_bind (f g x) (\<lambda>g. fold_io f g xs)"

definition recordShadow :: "guard \<Rightarrow> rule_match \<Rightarrow> (world, guard) io" where
  "recordShadow g m = (if Enforced (m_rule m) then ret g else recordOnce g m DecisionStageShadow no_approval)"

definition Guard :: "rule list \<Rightarrow> call \<Rightarrow> env \<Rightarrow> (world, pause_result) io" where
  "Guard rules c e =
     (let relevant = forAction rules (ca_action c)
      in if relevant = [] then ret let_through
         else io_bind (readFacts relevant c e) (\<lambda>(f, ev).
           let v = Evaluate relevant (ca_action c) f
           in if v_matches v = [] then ret let_through
              else io_bind (liftExtras v relevant (ca_action c) f e) (\<lambda>(b, lifted).
                   io_bind (load c e ev) (\<lambda>g.
                   io_bind (fold_io recordLifted g lifted) (\<lambda>g.
                   io_bind (fold_io recordShadow g (v_matches v)) (\<lambda>g.
                   io_bind (bind_match g b) (\<lambda>(res, g).
                   io_then (AddMatches (ca_session c) (map (\<lambda>m. r_name (m_rule m)) (v_matches v)) (gd_now g))
                   (io_then (save g) (ret res)))))))))"

fun guard_actions :: "rule list \<Rightarrow> call \<Rightarrow> env \<Rightarrow> pause_result \<Rightarrow> action list \<Rightarrow> (world, pause_result) io" where
  "guard_actions rules c e out [] = ret out"
| "guard_actions rules c e out (a # as) =
     io_bind (Guard rules (c\<lparr>ca_action := a\<rparr>) e) (\<lambda>res.
       guard_actions rules c e (if verdictRank (rs_verdict out) < verdictRank (rs_verdict res) then res else out) as)"

definition GuardActions :: "rule list \<Rightarrow> call \<Rightarrow> env \<Rightarrow> action list \<Rightarrow> (world, pause_result) io" where
  "GuardActions rules c e as = guard_actions rules c e let_through as"

definition Pause :: "rule list \<Rightarrow> call \<Rightarrow> env \<Rightarrow> (world, pause_result) io" where
  "Pause rules c e = GuardActions rules c e [ActionContinue, ActionSpend]"

end
