(* ===== verification/Steady.thy ===== *)
theory Steady
  imports Guard
begin

text \<open>
  What a working disk makes of the pause point: where every access works and the answers and pending
  decisions on file are the ones this package writes, every step returns a value and leaves such a
  disk behind, so the pause point answers. Corrupt session counters, an unreadable key store and
  unreadable figures do not change that: the code goes on without them.
\<close>

subsection \<open>Operations that return\<close>

definition yields :: "(world \<Rightarrow> bool) \<Rightarrow> (world, 'a) io \<Rightarrow> bool" where
  "yields I m \<longleftrightarrow> (\<forall>w. I w \<longrightarrow> (\<exists>x w'. m w = (Inr x, w') \<and> I w'))"

named_theorems yields_intros \<open>operations that return on a working disk\<close>

lemma yieldsD: "yields I m \<Longrightarrow> I w \<Longrightarrow> \<exists>x w'. m w = (Inr x, w') \<and> I w'"
  by (simp add: yields_def)

lemma yieldsI: "(\<And>w. I w \<Longrightarrow> \<exists>x w'. m w = (Inr x, w') \<and> I w') \<Longrightarrow> yields I m"
  by (simp add: yields_def)

lemma yields_ret [yields_intros]: "yields I (ret x)"
  by (simp add: yields_def)

lemma yields_look [yields_intros]: "yields I (look f)"
  by (simp add: yields_def look_def)

lemma yields_bind_value:
  assumes "yields I m" "\<And>w x w'. I w \<Longrightarrow> m w = (Inr x, w') \<Longrightarrow> P x" "\<And>x. P x \<Longrightarrow> yields I (k x)"
  shows "yields I (io_bind m k)"
proof (rule yieldsI)
  fix w assume w: "I w"
  with assms(1) obtain x w' where m: "m w = (Inr x, w')" "I w'" by (auto dest: yieldsD)
  with assms(3) [OF assms(2) [OF w m(1)]] yieldsD show "\<exists>y v. io_bind m k w = (Inr y, v) \<and> I v"
    by (simp add: io_bind_def yields_def)
qed

lemma yields_bind [yields_intros]: "yields I m \<Longrightarrow> (\<And>x. yields I (k x)) \<Longrightarrow> yields I (io_bind m k)"
  by (rule yields_bind_value [where P = "\<lambda>_. True"]) simp_all

lemma yields_then [yields_intros]: "yields I m \<Longrightarrow> yields I k \<Longrightarrow> yields I (io_then m k)"
  unfolding io_then_def by (intro yields_intros)

text \<open>An operation whose error is looked at returns whatever it does, if it leaves the invariant.\<close>

lemma yields_attempt [yields_intros]: "leaves I m \<Longrightarrow> yields I (attempt m)"
proof (rule yieldsI)
  fix w assume "leaves I m" "I w"
  moreover obtain r v where "m w = (r, v)" by fastforce
  ultimately show "\<exists>x w'. attempt m w = (Inr x, w') \<and> I w'" by (auto simp: attempt_def dest: leavesD)
qed

lemma yields_if [yields_intros]: "(b \<Longrightarrow> yields I m) \<Longrightarrow> (\<not> b \<Longrightarrow> yields I k) \<Longrightarrow> yields I (if b then m else k)"
  by simp

lemma yields_option [yields_intros]:
  "(z = None \<Longrightarrow> yields I m) \<Longrightarrow> (\<And>x. z = Some x \<Longrightarrow> yields I (k x)) \<Longrightarrow> yields I (case z of None \<Rightarrow> m | Some x \<Rightarrow> k x)"
  by (cases z) auto

lemma yields_sum [yields_intros]:
  "(\<And>e. z = Inl e \<Longrightarrow> yields I (m e)) \<Longrightarrow> (\<And>x. z = Inr x \<Longrightarrow> yields I (k x)) \<Longrightarrow> yields I (case z of Inl e \<Rightarrow> m e | Inr x \<Rightarrow> k x)"
  by (cases z) auto

lemma yields_prod [yields_intros]: "(\<And>x y. z = (x, y) \<Longrightarrow> yields I (k x y)) \<Longrightarrow> yields I (case z of (x, y) \<Rightarrow> k x y)"
  by (cases z) auto

lemma yields_fold_io [yields_intros]: "(\<And>g x. yields I (h g x)) \<Longrightarrow> yields I (fold_io h g xs)"
  by (induction xs arbitrary: g) (auto intro: yields_intros)

subsection \<open>A disk that reads\<close>

definition pending_ok :: "pending stored \<Rightarrow> bool" where
  "pending_ok s \<longleftrightarrow> (case s of Garbled \<Rightarrow> False | Stored p \<Rightarrow> valid_id (pd_id p) \<and> crossings_json (pd_crossings p))"

definition readable :: "world \<Rightarrow> bool" where
  "readable w \<longleftrightarrow> sound_disk w \<and> list_all (\<lambda>(_, s). s \<noteq> Garbled) (w_answers w) \<and> list_all (\<lambda>(_, s). pending_ok s) (w_pending w)"

lemma readable_contents [simp, intro]: "contents readable"
  by (simp add: contents_def readable_def sound_disk_def)

lemma readable_sound: "readable w \<Longrightarrow> sound_disk w"
  by (simp add: readable_def)

lemma readable_simps [simp]:
  "readable (tick w) = readable w"
  "readable (w_log_update f0 w) = readable w"
  "readable (w_sessions_update f1 w) = readable w"
  "readable (w_matches_update f2 w) = readable w"
  "readable (w_calls_update f3 w) = readable w"
  "readable (w_calls_dir_update f4 w) = readable w"
  "readable (w_calls_stamp_update f5 w) = readable w"
  "readable (w_keys_update f6 w) = readable w"
  "readable (w\<lparr>w_drawn := n\<rparr>) = readable w"
  by (simp_all add: readable_def)

lemma set_update: "set (AList.update k v xs) \<subseteq> insert (k, v) (set xs)"
  by (induction xs) auto

lemma readable_answers: "readable w \<Longrightarrow> readable (w_answers_update (AList.update i (Stored a)) w)"
  using set_update [of i "Stored a" "w_answers w"] by (auto simp: readable_def list_all_iff)

lemma readable_delete: "readable w \<Longrightarrow> readable (w_answers_update (AList.delete i) w)"
  by (auto simp: readable_def list_all_iff AList.delete_eq)

lemma readable_pending:
  "readable w \<Longrightarrow> valid_id (pd_id p) \<Longrightarrow> crossings_json (pd_crossings p) \<Longrightarrow>
     readable (w_pending_update (AList.update i (Stored p)) w)"
  using set_update [of i "Stored p" "w_pending w"] by (auto simp: readable_def list_all_iff pending_ok_def)

lemma no_dot_no_dots: "CHR ''.'' \<notin> set s \<Longrightarrow> \<not> contains s ''..''"
  by (induction s) (auto simp: has_prefix_def)

lemma hex_lower_plain: "is_hex_lower c \<Longrightarrow> c \<noteq> CHR ''/'' \<and> c \<noteq> CHR 0x5C \<and> c \<noteq> CHR ''.''"
  by (auto simp: is_hex_lower_def is_digit_def)

lemma valid_DecisionID [simp]: "valid_id (DecisionID rule session)"
proof -
  let ?h = "hex_encode (take 6 (sha256 (rule @ [CHR 0x00] @ session)))"
  have "CHR ''/'' \<notin> set ?h" "CHR 0x5C \<notin> set ?h" "CHR ''.'' \<notin> set ?h"
    using hex_encode_lower [of "take 6 (sha256 (rule @ [CHR 0x00] @ session))"] hex_lower_plain by blast+
  moreover have "DecisionID rule session = ''bnd-'' @ ?h" by (simp add: DecisionID_def)
  ultimately have "CHR ''/'' \<notin> set (DecisionID rule session)" "CHR 0x5C \<notin> set (DecisionID rule session)"
      "CHR ''.'' \<notin> set (DecisionID rule session)" "DecisionID rule session \<noteq> []"
    by auto
  with no_dot_no_dots show ?thesis unfolding valid_id_def by blast
qed

lemma valid_match_id [simp]: "valid_id (match_id g m)"
  by (simp add: match_id_def)

subsection \<open>The ledger's steps\<close>

abbreviation steady :: "(world, 'a) io \<Rightarrow> bool" where "steady \<equiv> yields readable"

lemma steady_read_file [yields_intros]: "steady (read_file f)"
  by (rule yieldsI) (simp add: read_file_works readable_sound)

lemma steady_write_file [yields_intros]: "(\<And>w. readable w \<Longrightarrow> readable (g w)) \<Longrightarrow> steady (write_file g)"
  by (rule yieldsI) (simp add: write_file_works readable_sound)

lemma steady_append_log [yields_intros]: "(\<And>h w. readable w \<Longrightarrow> readable (on h w)) \<Longrightarrow> steady (append_log on n v)"
  by (rule yieldsI) (simp add: append_log_works readable_sound)

lemma steady_draw [yields_intros]: "steady draw"
  by (rule yieldsI) (simp add: draw_def)

lemma steady_reach [yields_intros]: "steady (attempt reach)"
  by (intro yields_intros leaves_intros readable_contents)

lemma steady_change [yields_intros]: "(\<And>w. readable w \<Longrightarrow> readable (g w)) \<Longrightarrow> steady (change g)"
  by (rule yieldsI) (simp add: change_def)

lemma steady_idPath [yields_intros]: "valid_id i \<Longrightarrow> steady (idPath i)"
  by (simp add: idPath_def yields_ret)

lemma steady_marshal [yields_intros]: "b \<Longrightarrow> steady (marshal b)"
  by (simp add: marshal_def yields_ret)

lemma steady_putJSON [yields_intros]:
  "valid_id i \<Longrightarrow> ok \<Longrightarrow> (\<And>w. readable w \<Longrightarrow> readable (on (AList.update i (Stored v)) w)) \<Longrightarrow> steady (putJSON on ok i v)"
  unfolding putJSON_def by (intro yields_intros) simp_all

lemma steady_prune [yields_intros]: "steady prune"
  unfolding prune_def Let_def by (intro yields_intros) simp_all

lemma steady_Append [yields_intros]:
  assumes "\<exists>d. ev_payload e = PDecision d"
  shows "steady (Append (Some e))"
  using assms unfolding Append_def by (auto intro!: yields_intros leaves_intros)

lemma steady_newChallenge [yields_intros]: "steady newChallenge"
  unfolding newChallenge_def by (intro yields_intros)

lemma steady_PutPending [yields_intros]:
  "valid_id (pd_id p) \<Longrightarrow> crossings_json (pd_crossings p) \<Longrightarrow> steady (PutPending p)"
  unfolding PutPending_def by (intro yields_intros) (simp_all add: readable_pending)

lemma steady_PutAnswer [yields_intros]: "valid_id (an_id a) \<Longrightarrow> crossings_json (an_crossings a) \<Longrightarrow> steady (PutAnswer a)"
  unfolding PutAnswer_def by (intro yields_intros) (simp_all add: readable_answers)

lemma steady_ConsumeAnswer [yields_intros]: "valid_id i \<Longrightarrow> steady (ConsumeAnswer i)"
  unfolding ConsumeAnswer_def by (intro yields_intros) (simp_all add: readable_delete)

lemma steady_GetPending [yields_intros]:
  assumes "valid_id i"
  shows "steady (GetPending i)"
proof (rule yieldsI)
  fix w assume w: "readable w"
  then have ok: "sound_disk w" "\<And>s. map_of (w_pending w) i = Some s \<Longrightarrow> pending_ok s"
    by (auto simp: readable_def list_all_iff dest: map_of_SomeD)
  show "\<exists>x w'. GetPending i w = (Inr x, w') \<and> readable w'"
  proof (cases "map_of (w_pending w) i")
    case None
    with w ok assms show ?thesis by (simp add: GetPending_def getJSON_def idPath_def runs decode_def)
  next
    case (Some s)
    with ok(2) [OF Some] w ok(1) assms show ?thesis
      by (cases s) (simp_all add: GetPending_def getJSON_def idPath_def runs decode_def pending_ok_def)
  qed
qed

lemma GetPending_ok:
  "readable w \<Longrightarrow> GetPending i w = (Inr (Some p), w') \<Longrightarrow> valid_id (pd_id p) \<and> crossings_json (pd_crossings p)"
  using GetPending_value [of i w "Some p" w'] by (auto simp: readable_def list_all_iff pending_ok_def dest!: map_of_SomeD)

lemma steady_GetAnswer [yields_intros]:
  assumes "valid_id i"
  shows "steady (GetAnswer i now)"
proof (rule yieldsI)
  fix w assume w: "readable w"
  then have ok: "sound_disk w" "map_of (w_answers w) i \<noteq> Some Garbled"
    by (auto simp: readable_def list_all_iff dest: map_of_SomeD)
  have "\<exists>x. getJSON w_answers i w = (Inr x, tick w)"
    using ok assms by (cases "map_of (w_answers w) i"; cases "the (map_of (w_answers w) i)")
      (simp_all add: getJSON_def idPath_def runs decode_def)
  then obtain x where "getJSON w_answers i w = (Inr x, tick w)" by blast
  then show "\<exists>x w'. GetAnswer i now w = (Inr x, w') \<and> readable w'"
    using w by (cases x) (auto simp: GetAnswer_def io_bind_def)
qed

lemma steady_PutSession [yields_intros]: "steady (PutSession i s)"
  unfolding PutSession_def by (intro yields_intros) simp_all

lemma steady_AddMatches [yields_intros]: "steady (AddMatches i rs t)"
  unfolding AddMatches_def foldMatchLog_def readMatchLog_def on_match_log_def Let_def
  by (intro yields_intros leaves_intros readable_contents) simp_all

subsection \<open>The pause point's steps\<close>

lemma steady_decisionEnvelope [yields_intros]: "steady (decisionEnvelope m st c e t ev a more_text)"
  unfolding decisionEnvelope_def Let_def by (intro yields_intros)

lemma decisionEnvelope_payload:
  "decisionEnvelope m st c e t ev a more_text w = (Inr x, w') \<Longrightarrow> \<exists>d. ev_payload x = PDecision d"
  by (auto simp: decisionEnvelope_def boundary_event_def Let_def io_iff)

lemma steady_append_decision:
  assumes "\<And>ev. \<exists>d. ev_payload ev = PDecision d \<Longrightarrow> steady (k ev)"
  shows "steady (io_bind (decisionEnvelope m st c e t ev a more_text) k)"
  by (rule yields_bind_value [OF steady_decisionEnvelope decisionEnvelope_payload assms])

lemma steady_record_decision [yields_intros]: "steady (record_decision g m st a)"
  unfolding record_decision_def by (intro steady_append_decision steady_Append)

lemma steady_recordVendorStop [yields_intros]: "steady (recordVendorStop g m t v)"
  unfolding recordVendorStop_def Let_def by (intro steady_append_decision steady_Append)

lemma steady_recordOnce [yields_intros]: "steady (recordOnce g m st a)"
  unfolding recordOnce_def Let_def by (intro yields_intros)

lemma steady_recordShadow [yields_intros]: "steady (recordShadow g m)"
  unfolding recordShadow_def by (intro yields_intros)

lemma steady_recordLifted [yields_intros]: "steady (recordLifted g l)"
  unfolding recordLifted_def Let_def
  by (intro yields_prod yields_if yields_ret steady_append_decision yields_then steady_Append)

lemma steady_load [yields_intros]: "steady (load c e ev)"
  unfolding load_def by (intro yields_intros leaves_intros readable_contents)

lemma steady_save [yields_intros]: "steady (save g)"
  unfolding save_def by (intro yields_intros)

lemma steady_ActiveExtras [yields_intros]: "steady (ActiveExtras now)"
  unfolding ActiveExtras_def by (intro yields_intros leaves_intros readable_contents)

lemma steady_liftExtras [yields_intros]: "steady (liftExtras v rs a f e)"
  unfolding liftExtras_def honouredExtras_def Let_def
  by (intro yields_intros leaves_intros readable_contents) simp_all

lemma steady_get_figures [yields_intros]: "steady (get_figures now l)"
  unfolding get_figures_def Let_def by (intro yields_intros leaves_intros readable_contents)

lemma steady_readLoop [yields_intros]: "steady (readLoop c e)"
  unfolding readLoop_def Let_def by (intro yields_intros leaves_intros readable_contents) simp_all

lemma steady_readFacts [yields_intros]: "steady (readFacts rs c e)"
  unfolding readFacts_def Let_def readPlanFacts_def read_loop_fact_def by (intro yields_intros)

lemma steady_checkPresence [yields_intros]: "steady (checkPresence e a i rule session)"
  unfolding checkPresence_def by (intro yields_intros leaves_intros readable_contents) simp_all

lemma steady_retireChallenge [yields_intros]:
  assumes "valid_id i"
  shows "steady (retireChallenge i s)"
  unfolding retireChallenge_def
proof (rule yields_bind_value)
  show "steady (GetPending i)" by (intro yields_intros assms)
  show "readable w \<Longrightarrow> GetPending i w = (Inr x, w') \<Longrightarrow>
      (case x of None \<Rightarrow> True | Some p \<Rightarrow> valid_id (pd_id p) \<and> crossings_json (pd_crossings p))" for w x w'
    using GetPending_ok by (cases x) auto
qed (intro yields_intros; simp)

lemma steady_refuse [yields_intros]: "valid_id i \<Longrightarrow> steady (refuse g m i a c)"
  unfolding refuse_def Let_def by (intro yields_intros)

lemma steady_answered [yields_intros]: "valid_id i \<Longrightarrow> steady (answered g m i)"
  unfolding answered_def answered_denied_def answered_approved_def Let_def by (intro yields_intros)

lemma steady_settlePrompt [yields_intros]: "valid_id i \<Longrightarrow> steady (settlePrompt g m i)"
  unfolding settlePrompt_def settle_ran_def Let_def
  by (intro yields_intros) (simp_all add: prompt_answer_def crossings_json_def)

lemma steady_hold [yields_intros]:
  assumes "valid_id i" "crossings_json (m_crossings m)"
  shows "steady (hold g m i)"
proof -
  have "steady (with_challenge p)" for p unfolding with_challenge_def by (intro yields_intros)
  moreover have "pd_id q = pd_id p \<and> pd_crossings q = pd_crossings p" if "with_challenge p w = (Inr q, w')" for p q w w'
    using that by (auto simp: with_challenge_def io_iff split: if_splits)
  moreover have "pd_id (raise_pending g m i prev) = i \<and> pd_crossings (raise_pending g m i prev) = m_crossings m" for prev
    by (cases prev) (simp_all add: raise_pending_def Let_def)
  ultimately have start: "steady (io_bind (with_challenge (raise_pending g m i prev)) k)"
    if "\<And>p. pd_id p = i \<and> pd_crossings p = m_crossings m \<Longrightarrow> steady (k p)" for prev and k :: "pending \<Rightarrow> (world, pause_result \<times> guard) io"
    using that by (intro yields_bind_value [where P = "\<lambda>p. pd_id p = i \<and> pd_crossings p = m_crossings m"]) auto
  show ?thesis
    unfolding hold_def guard_unattendedReason_def
    by (intro yields_bind [OF yields_attempt] start leaves_intros readable_contents)
      (intro yields_intros leaves_intros readable_contents; simp add: assms)
qed

lemma steady_bind_match [yields_intros]:
  assumes "\<And>m. b = Some m \<Longrightarrow> crossings_json (m_crossings m)"
  shows "steady (bind_match g b)"
proof (cases b)
  case None
  then show ?thesis by (simp add: bind_match_def yields_ret)
next
  case (Some m)
  with assms have "crossings_json (m_crossings m)" by blast
  with Some show ?thesis
    unfolding bind_match_def Let_def by simp (intro conjI impI yields_intros; simp)
qed

text \<open>What binds is one of the matches, whichever rules are taken out.\<close>

lemma binding_in_matches:
  assumes "v_binding (Evaluate (filter P rs) a f) = Some m"
  shows "\<exists>r\<in>set rs. Rule_Match r a f = Some m"
proof -
  have "m \<in> set (binding_matches (filter P rs) a f)" using assms binding_member by metis
  then show ?thesis unfolding set_binding_matches by auto
qed

text \<open>The crossed figures are numbers JSON can hold, in every match of the rules on the facts.\<close>

definition finite_crossings :: "rule list \<Rightarrow> action \<Rightarrow> facts \<Rightarrow> bool" where
  "finite_crossings rs a f \<longleftrightarrow>
     list_all (\<lambda>r. case Rule_Match r a f of None \<Rightarrow> True | Some m \<Rightarrow> crossings_json (m_crossings m)) rs"

lemma finite_crossings_binding:
  assumes "finite_crossings rs a f" "v_binding (Evaluate (filter P rs) a f) = Some m"
  shows "crossings_json (m_crossings m)"
  using binding_in_matches [OF assms(2)] assms(1) by (fastforce simp: finite_crossings_def list_all_iff split: option.splits)

lemma liftExtras_value:
  assumes "liftExtras (Evaluate rs a f) rs a f e w = (Inr (b, lifted), w')"
  shows "\<exists>xs. b = v_binding (Evaluate (filter (\<lambda>r. liftedBy xs (r_name r) (now_of e) = None) rs) a f)"
proof -
  have all: "filter (\<lambda>r. liftedBy [] (r_name r) (now_of e) = None) rs = rs" by (simp add: liftedBy_def)
  from assms have "b = v_binding (Evaluate rs a f) \<or>
      (\<exists>xs. b = v_binding (Evaluate (filter (\<lambda>r. liftedBy xs (r_name r) (now_of e) = None) rs) a f))"
    by (auto simp: liftExtras_def Let_def io_iff split: if_splits)
  with all show ?thesis by metis
qed

text \<open>
  The pause point answers. The facts the crossings are finite on are the ones read at the start.
\<close>

lemma Guard_answers:
  assumes "readable w" "readFacts (forAction rules (ca_action c)) c e w = (Inr (f, ev), v)"
    and "finite_crossings (forAction rules (ca_action c)) (ca_action c) f"
  shows "\<exists>res w'. Guard rules c e w = (Inr res, w') \<and> readable w'"
proof -
  let ?rs = "forAction rules (ca_action c)" and ?a = "ca_action c"
  have v: "readable v" using yieldsD [OF steady_readFacts assms(1), of ?rs c e] assms(2) by simp
  have rest: "steady (io_bind (liftExtras (Evaluate ?rs ?a f) ?rs ?a f e) (\<lambda>(b, lifted).
      io_bind (load c e ev) (\<lambda>g. io_bind (fold_io recordLifted g lifted) (\<lambda>g.
      io_bind (fold_io recordShadow g (v_matches (Evaluate ?rs ?a f))) (\<lambda>g. io_bind (bind_match g b) (\<lambda>(res, g).
      io_then (AddMatches (ca_session c) (map (\<lambda>m. r_name (m_rule m)) (v_matches (Evaluate ?rs ?a f))) (gd_now g))
        (io_then (save g) (ret res))))))))"
    (is "steady (io_bind ?l ?k)")
  proof (rule yields_bind_value)
    show "steady ?l" by (intro yields_intros)
    show "\<exists>xs. fst x = v_binding (Evaluate (filter (\<lambda>r. liftedBy xs (r_name r) (now_of e) = None) ?rs) ?a f)"
      if "?l w = (Inr x, w')" for w x w'
      using liftExtras_value [of ?rs ?a f e w "fst x" "snd x" w'] that by simp
    show "steady (?k x)" if x: "\<exists>xs. fst x = v_binding (Evaluate (filter (\<lambda>r. liftedBy xs (r_name r) (now_of e) = None) ?rs) ?a f)" for x
    proof -
      have "crossings_json (m_crossings m)" if "fst x = Some m" for m
        using x that finite_crossings_binding [OF assms(3)] by metis
      then show ?thesis by (cases x) (auto intro!: yields_intros)
    qed
  qed
  show ?thesis
  proof (cases "?rs = [] \<or> v_matches (Evaluate ?rs ?a f) = []")
    case True
    then show ?thesis using assms(1,2) v by (auto simp: Guard_def Let_def io_bind_def)
  next
    case False
    then show ?thesis using yieldsD [OF rest v] by (simp add: Guard_def Let_def io_bind_def [of "readFacts ?rs c e"] assms(2))
  qed
qed

end
