(* ===== verification/Decide.thy ===== *)
theory Decide
  imports Steady
begin

text \<open>
  The operator's answer (\<open>internal/capability/boundaries/decide.go\<close>): who may approve, the presence
  proof an approval must carry and how it is checked against the decision as it waits, and what is
  stored and recorded; and the answers the organisation gives to the decisions routed to it
  (\<open>RouteApprovals\<close>, \<open>settle\<close> of \<open>org.go\<close>). The lemmas say what an approval on file rests on.
\<close>

subsection \<open>Requests\<close>

record decide_request =
  dr_id :: string
  dr_decision :: string
  dr_session :: bool
  dr_proof :: "proof_stmt option"
  dr_method :: string

record decided =
  dc_id :: string
  dc_rule :: string
  dc_decision :: string
  dc_scope :: string
  dc_approver :: string
  dc_presence :: string
  dc_key :: string
  dc_note :: string

text \<open>\<open>None\<close> is neither an approval nor a denial.\<close>

definition decision_word :: "string \<Rightarrow> bool option" where
  "decision_word s =
     (let w = to_lower (trim_space s)
      in if w \<in> {''approve'', ''approved'', ''allow'', ''yes''} then Some True
         else if w \<in> {''deny'', ''denied'', ''no''} then Some False
         else None)"

definition approvesInPerson :: "string \<Rightarrow> bool" where
  "approvesInPerson m \<longleftrightarrow> m = MethodCLI \<or> m = MethodPrompt"

definition teamRouted :: "pending \<Rightarrow> bool" where
  "teamRouted p \<longleftrightarrow> has_prefix (pd_rule p) OrgPrefix \<and> has_prefix (pd_require p) ''approver:''"

definition scope_word :: "bool \<Rightarrow> string" where
  "scope_word session = (if session then ScopeSession else ScopeOnce)"

text \<open>What the answer does next, by the action's text in the pending record.\<close>

definition decidedNote :: "string \<Rightarrow> bool \<Rightarrow> string \<Rightarrow> string" where
  "decidedNote act approved scp =
     (if act \<notin> {''continue'', ''spend'', ''subagent_model''} then
        (let what = (if act = ''model_route'' then ''the route'' else ''the next upload or export'')
         in if approved \<and> scp = ScopeSession then what @ '' goes through for the next 24 hours''
            else if approved then what @ '' goes through once, and is asked about again after that''
            else if scp = ScopeSession then what @ '' stays held for the next 24 hours''
            else what @ '' stays held'')
      else if approved \<and> scp = ScopeSession then ''the agent may go on for the rest of this session; tell it to continue''
      else if approved then ''the agent may take its next step; tell it to continue, and it is asked again after that''
      else if scp = ScopeSession then ''the agent is refused for the rest of this session''
      else ''the agent's next step is refused'')"

subsection \<open>The proof\<close>

text \<open>The decision as it waits.\<close>

definition waiting_expect :: "env \<Rightarrow> pending \<Rightarrow> string \<Rightarrow> expect" where
  "waiting_expect e p scp =
     \<lparr>e_decision = pd_id p, e_rule = pd_rule p, e_session = pd_session p, e_scope = scp, e_challenge = pd_challenge p,
      e_crossings = pd_crossings p, e_now = now_of e, e_spent = Some (\<lambda>fp. fp \<in> set (pd_spent p))\<rparr>"

definition verifyAnswerProof :: "env \<Rightarrow> pending \<Rightarrow> string \<Rightarrow> proof_stmt option \<Rightarrow> (world, vresult) io" where
  "verifyAnswerProof e p scp pf =
     io_bind (attempt (env_trust e)) (\<lambda>t.
       ret (case t of
              Inl _ \<Rightarrow> \<lparr>vr_reason = ReasonKeyUnreadable, vr_key_id = []\<rparr>
            | Inr t \<Rightarrow> Verify (env_ecdsa e) pf (waiting_expect e p scp) t))"

definition not_proved :: "env \<Rightarrow> pending \<Rightarrow> reason \<Rightarrow> err" where
  "not_proved e p r =
     (let why = (if mode_Enforced (approval e) then ''boundary_approval is '' @ mode_text (approval e)
                 else ''an approval over the API needs a valid presence proof'')
      in InputError
           (if r = ReasonNotEnrolled
            then why @ '', and no presence key is enrolled on this machine: enrol one with `'' @ EnrolCommand @
                 ''`, or deny; `tokenops boundaries status` says what is set''
            else why @ '', and this approval is not honoured: '' @ Phrase r @ ''. `tokenops approve '' @ pd_id p @
                 ''` in your own terminal asks for Touch ID, a paired Apple Watch or your password and signs it; '' @
                 ''denying needs no signature''))"

definition checkAnswerProof :: "env \<Rightarrow> pending \<Rightarrow> string \<Rightarrow> proof_stmt option \<Rightarrow> string \<Rightarrow> (world, presence_check) io" where
  "checkAnswerProof e p scp pf meth =
     (if pf = None \<and> \<not> mode_Enforced (approval e) then ret no_check
      else io_bind (verifyAnswerProof e p scp pf) (\<lambda>res.
        if vresult_OK res then ret (no_check\<lparr>pc_presence := PresenceSigned, pc_key := vr_key_id res\<rparr>)
        else if \<not> mode_Enforced (approval e) \<and> meth \<noteq> MethodAPI
        then ret (no_check\<lparr>pc_presence := PresenceUnverified, pc_key := vr_key_id res, pc_would_refuse := reason_text (vr_reason res)\<rparr>)
        else fail (not_proved e p (vr_reason res))))"

subsection \<open>The answer on the decision\<close>

definition waiting_call :: "pending \<Rightarrow> call" where
  "waiting_call p =
     \<lparr>ca_harness = pd_harness p, ca_session = pd_session p, ca_transcript = [], ca_tool_use = [], ca_agent = pd_agent p,
      ca_workflow = [], ca_action = ActionContinue, ca_model = [], ca_provider = [], ca_biller = [], ca_destination = [],
      ca_tool_name = [], ca_args_hash = [], ca_folder = [], ca_spends = []\<rparr>"

definition waiting_rule :: "pending \<Rightarrow> rule" where
  "waiting_rule p =
     \<lparr>r_name = pd_rule p, r_action = ActionContinue, r_when = [],
      r_require = (case ParseRequire (pd_require p) of Inl _ \<Rightarrow> \<lparr>q_kind = RequireDeny, q_role = []\<rparr> | Inr q \<Rightarrow> q),
      r_stage = StageEnforce, r_source = SourceLocal\<rparr>"

text \<open>The options name the action as the pending record does, and no requirement where it names none.
A requirement that does not parse has the authority of a denial.\<close>

definition answer_payload :: "pending \<Rightarrow> decision_stage \<Rightarrow> env \<Rightarrow> decision_approval \<Rightarrow> decision_event" where
  "answer_payload p st e ap =
     (let req = (case ParseRequire (pd_require p) of Inl _ \<Rightarrow> '''' | Inr q \<Rightarrow> Require_String q);
          proceed = no_option\<lparr>ro_reason := ''proceed with the '' @ pd_action p\<rparr>;
          hold = no_option\<lparr>ro_reason := ''require '' @ req\<rparr>
      in (decision_payload (RecordedMatch (waiting_rule p) (pd_crossed p)) st (waiting_call p) e [] ap)
           \<lparr>de_alternatives := [proceed, hold], de_selected := (if selects_proceed st ap then proceed else hold)\<rparr>)"

definition answerEnvelope :: "pending \<Rightarrow> decision_stage \<Rightarrow> env \<Rightarrow> answer \<Rightarrow> presence_check \<Rightarrow> (world, envelope) io" where
  "answerEnvelope p st e a c =
     io_bind draw (\<lambda>uuid.
       ret (boundary_event uuid (an_at a) (pd_agent p) (DecisionID (pd_rule p) (pd_session p))
              (answer_payload p st e (check_stamp c (answer_approval a)))))"

definition record_answer :: "pending \<Rightarrow> bool \<Rightarrow> env \<Rightarrow> answer \<Rightarrow> presence_check \<Rightarrow> (world, unit) io" where
  "record_answer p approved e a c =
     io_bind (answerEnvelope p (if approved then DecisionStageAccepted else DecisionStageRejected) e a c) (\<lambda>ev. Append (Some ev))"

subsection \<open>Deciding\<close>

text \<open>The UTF-8 bytes of the ellipsis the messages print.\<close>

definition ellipsis :: string where "ellipsis = [CHR 0xE2, CHR 0x80, CHR 0xA6]"

definition bad_id :: "string \<Rightarrow> string \<Rightarrow> err" where
  "bad_id i more_text = InputError (quoted i @ '' is not a boundary decision id (bnd-'' @ ellipsis @ '')'' @ more_text)"

definition not_waiting :: "string \<Rightarrow> err" where
  "not_waiting i = InputError (''no boundary decision '' @ i @ '' is waiting on an answer'')"

definition not_in_person :: "string \<Rightarrow> err" where
  "not_in_person i =
     InputError (''an approval must come from a person: run `tokenops approve '' @ i @
       ''` in your own terminal, or answer Claude Code's prompt; this surface can only deny'')"

definition teams_to_answer :: "pending \<Rightarrow> err" where
  "teams_to_answer p =
     InputError (pd_rule p @ '' is your organisation's rule and needs approval from '' @ trim_prefix (pd_require p) ''approver:'' @
       '' there: it was sent to them, and they answer in the team plane's web view or with `tokenops team admin approve`; '' @
       ''you can still deny it here'')"

definition new_answer :: "env \<Rightarrow> pending \<Rightarrow> decide_request \<Rightarrow> string \<Rightarrow> string \<Rightarrow> bool \<Rightarrow> presence_check \<Rightarrow> answer" where
  "new_answer e p req i meth approved c =
     \<lparr>an_id = i, an_rule = pd_rule p, an_session = pd_session p, an_approved = approved, an_scope = scope_word (dr_session req),
      an_approver = user_of e, an_method = meth, an_at = now_of e, an_crossings = pd_crossings p,
      an_proof = (if pc_presence c = PresenceSigned then dr_proof req else None)\<rparr>"

definition decided_of :: "pending \<Rightarrow> answer \<Rightarrow> presence_check \<Rightarrow> decided" where
  "decided_of p a c =
     (let note = decidedNote (pd_action p) (an_approved a) (an_scope a); sgn = pc_presence c = PresenceSigned
      in \<lparr>dc_id = an_id a, dc_rule = pd_rule p, dc_decision = (if an_approved a then ''approved'' else ''denied''),
          dc_scope = an_scope a, dc_approver = an_approver a,
          dc_presence = (if sgn then PresenceSigned else []), dc_key = (if sgn then pc_key c else []),
          dc_note = (if sgn then note @ ''; signed with presence key '' @ pc_key c @
                       '' (if you did not approve that dialog, `tokenops deny '' @ an_id a @ ''`)'' else note)\<rparr>)"

definition Decide :: "env \<Rightarrow> decide_request \<Rightarrow> (world, decided) io" where
  "Decide e req =
     (let i = trim_space (dr_id req); meth = (if dr_method req = [] then MethodCLI else dr_method req)
      in if \<not> ValidDecisionID i then fail (bad_id (dr_id req) ''; `tokenops boundaries status` lists the waiting ones'')
         else case decision_word (dr_decision req) of
           None \<Rightarrow> fail (InputError (''decision '' @ quoted (dr_decision req) @ '' is not approve or deny''))
         | Some approved \<Rightarrow>
             if approved \<and> \<not> approvesInPerson meth \<and> (meth \<noteq> MethodAPI \<or> dr_proof req = None) then fail (not_in_person i)
             else io_bind (GetPending i) (\<lambda>r.
               case r of
                 None \<Rightarrow> fail (not_waiting i)
               | Some p \<Rightarrow>
                   if approved \<and> teamRouted p then fail (teams_to_answer p)
                   else io_bind (if approved then checkAnswerProof e p (scope_word (dr_session req)) (dr_proof req) meth
                                 else ret no_check) (\<lambda>c.
                     let a = new_answer e p req i meth approved c
                     in io_then (PutAnswer a) (io_then (record_answer p approved e a c) (ret (decided_of p a c))))))"

record pending_view =
  pv_id :: string
  pv_rule :: string
  pv_require :: string
  pv_crossed :: string
  pv_harness :: string
  pv_session :: string
  pv_at :: gotime
  pv_approve :: string

definition Waiting :: "env \<Rightarrow> string \<Rightarrow> (world, pending_view) io" where
  "Waiting e s =
     (let i = trim_space s
      in if \<not> ValidDecisionID i then fail (bad_id i '''')
         else io_bind (GetPending i) (\<lambda>r.
           case r of
             None \<Rightarrow> fail (not_waiting i)
           | Some p \<Rightarrow>
               ret \<lparr>pv_id = pd_id p, pv_rule = pd_rule p, pv_require = pd_require p, pv_crossed = pd_crossed p,
                    pv_harness = pd_harness p, pv_session = pd_session p, pv_at = pd_at p,
                    pv_approve = ''tokenops approve '' @ pd_id p\<rparr>))"

subsection \<open>Answers of the organisation\<close>

text \<open>
  What the team plane says of a routed decision, and the request that routes one. The calls to the
  team plane are parameters: what they return for a request, or for a decision id.
\<close>

record team_approval =
  ta_status :: string
  ta_scope :: string
  ta_answered_by :: string
  ta_answered_at :: "gotime option"

record wire_crossing =
  wx_field :: string
  wx_op :: string
  wx_value :: f64
  wx_threshold :: f64
  wx_window :: string
  wx_destination :: string

record approval_request =
  rq_decision :: string
  rq_rule :: string
  rq_version :: int
  rq_action :: string
  rq_harness :: string
  rq_crossings :: "wire_crossing list"

definition approvalsTTL :: duration where "approvalsTTL = 24 * hour"

definition wireCrossing :: "crossing \<Rightarrow> wire_crossing" where
  "wireCrossing c =
     \<lparr>wx_field = field_text (x_field c), wx_op = op_text (x_op c), wx_value = x_value c, wx_threshold = x_threshold c,
      wx_window = window_text (x_window c), wx_destination = x_destination c\<rparr>"

definition settled_answer :: "env \<Rightarrow> pending \<Rightarrow> team_approval \<Rightarrow> bool \<Rightarrow> answer" where
  "settled_answer e p a approved =
     \<lparr>an_id = pd_id p, an_rule = pd_rule p, an_session = pd_session p, an_approved = approved,
      an_scope = scope_word (ta_scope a = ''session''), an_approver = ta_answered_by a, an_method = MethodTeam,
      an_at = (case ta_answered_at a of None \<Rightarrow> now_of e | Some t \<Rightarrow> UTC t), an_crossings = [], an_proof = None\<rparr>"

definition settle_team :: "env \<Rightarrow> pending \<Rightarrow> team_approval \<Rightarrow> (world, unit) io" where
  "settle_team e p a =
     (if ta_status a \<noteq> ''approved'' \<and> ta_status a \<noteq> ''denied'' then ret ()
      else let approved = (ta_status a = ''approved''); ans = settled_answer e p a approved
           in io_then (PutAnswer ans)
              (io_then (record_answer p approved e ans no_check)
                (DeletePending (pd_id p))))"

definition route ::
  "(approval_request \<Rightarrow> err + team_approval) \<Rightarrow> env \<Rightarrow> pending \<Rightarrow> int \<Rightarrow> (world, unit) io" where
  "route request e p version =
     (case request \<lparr>rq_decision = pd_id p, rq_rule = trim_prefix (pd_rule p) OrgPrefix, rq_version = max version 1,
             rq_action = pd_action p, rq_harness = pd_harness p, rq_crossings = map wireCrossing (pd_crossings p)\<rparr> of
        Inl err \<Rightarrow> fail err
      | Inr a \<Rightarrow>
          let q = p\<lparr>pd_routed_at := Some (now_of e)\<rparr>
          in io_then (PutPending q) (settle_team e q a))"

definition route_one ::
  "(approval_request \<Rightarrow> err + team_approval) \<Rightarrow> (string \<Rightarrow> err + team_approval) \<Rightarrow> env \<Rightarrow> int \<Rightarrow> pending \<Rightarrow> (world, unit) io" where
  "route_one request approval_for e version p =
     (if \<not> teamRouted p \<or> approvalsTTL < Sub (now_of e) (pd_at p) then ret ()
      else io_bind (attempt (GetAnswer (pd_id p) (now_of e))) (\<lambda>r.
        case r of
          Inr (Some _) \<Rightarrow> ret ()
        | _ \<Rightarrow>
            if pd_routed_at p = None then route request e p version
            else case approval_for (pd_id p) of Inl err \<Rightarrow> fail err | Inr a \<Rightarrow> settle_team e p a))"

text \<open>Each decision is taken on its own; the errors are joined, one to a line.\<close>

definition RouteApprovals ::
  "(approval_request \<Rightarrow> err + team_approval) \<Rightarrow> (string \<Rightarrow> err + team_approval) \<Rightarrow> env \<Rightarrow> int \<Rightarrow> (world, unit) io" where
  "RouteApprovals request approval_for e version =
     io_bind ListPending (\<lambda>ps.
     io_bind (io_map (\<lambda>p. attempt (route_one request approval_for e version p)) ps) (\<lambda>rs.
       let errs = List.map_filter (\<lambda>r. case r of Inl err \<Rightarrow> Some (err_text err) | Inr _ \<Rightarrow> None) rs
       in if errs = [] then ret () else fail (Failed (join [CHR 10] errs))))"

subsection \<open>What an approval given here rests on\<close>

text \<open>A proof verifies for the decision as it waits, under the key in the key store's file.\<close>

definition proved :: "env \<Rightarrow> world \<Rightarrow> pending \<Rightarrow> string \<Rightarrow> proof_stmt option \<Rightarrow> bool" where
  "proved e w p scp pf \<longleftrightarrow>
     (\<exists>b t. ks_public (w_keys w) = Some b \<and> tr_key t = file_key (env_point_ok e) (take maxFile b) \<and>
        vresult_OK (Verify (env_ecdsa e) pf (waiting_expect e p scp) t))"

lemma verifyAnswerProof_proved:
  assumes "verifyAnswerProof e p scp pf w = (Inr res, w')" "vresult_OK res"
  shows "proved e w p scp pf"
proof -
  from assms(1) obtain r where r: "env_trust e w = (r, w')"
    "res = (case r of Inl _ \<Rightarrow> \<lparr>vr_reason = ReasonKeyUnreadable, vr_key_id = []\<rparr> | Inr t \<Rightarrow> Verify (env_ecdsa e) pf (waiting_expect e p scp) t)"
    by (auto simp: verifyAnswerProof_def io_iff)
  with assms(2) obtain t where t: "r = Inr t" "vresult_OK (Verify (env_ecdsa e) pf (waiting_expect e p scp) t)"
    by (cases r) (auto simp: vresult_OK_def)
  have "t \<noteq> not_enrolled" using t(2) by (auto simp: Verify_def not_enrolled_def vresult_OK_def)
  with r(1) t(1) Trust_key obtain b q where "ks_public (w_keys w) = Some b"
      "t = trustOf (file_key (env_point_ok e) (take maxFile b)) q (UTC (now_of e))"
    unfolding env_trust_def by blast
  with t(2) show ?thesis unfolding proved_def by (metis tr_key_trustOf)
qed

lemma checkAnswerProof_proved:
  assumes "checkAnswerProof e p scp pf meth w = (Inr c, w')"
    and "mode_Enforced (approval e) \<or> (meth = MethodAPI \<and> pf \<noteq> None) \<or> pc_presence c = PresenceSigned"
  shows "proved e w p scp pf"
proof -
  have "\<not> (pf = None \<and> \<not> mode_Enforced (approval e))"
    using assms by (auto simp: checkAnswerProof_def ret_iff no_check_def PresenceSigned_def split: if_splits)
  with assms(1) obtain res v where v: "verifyAnswerProof e p scp pf w = (Inr res, v)"
    and k: "(if vresult_OK res then ret (no_check\<lparr>pc_presence := PresenceSigned, pc_key := vr_key_id res\<rparr>)
        else if \<not> mode_Enforced (approval e) \<and> meth \<noteq> MethodAPI
        then ret (no_check\<lparr>pc_presence := PresenceUnverified, pc_key := vr_key_id res, pc_would_refuse := reason_text (vr_reason res)\<rparr>)
        else fail (not_proved e p (vr_reason res))) v = (Inr c, w')"
    by (auto simp: checkAnswerProof_def io_iff split: if_splits)
  have "vresult_OK res" using k assms(2) by (auto simp: io_iff presence_texts no_check_def split: if_splits)
  with verifyAnswerProof_proved [OF v] show ?thesis .
qed

text \<open>The pending decision a request names, as it is on file.\<close>

definition waits :: "world \<Rightarrow> decide_request \<Rightarrow> pending \<Rightarrow> bool" where
  "waits w req p \<longleftrightarrow> map_of (w_pending w) (trim_space (dr_id req)) = Some (Stored p)"

definition given_method :: "decide_request \<Rightarrow> string" where
  "given_method req = (if dr_method req = [] then MethodCLI else dr_method req)"

lemma Decide_approved:
  assumes "Decide e req w = (Inr d, w')" "dc_decision d = ''approved''"
  obtains p c v v' where "decision_word (dr_decision req) = Some True"
    "approvesInPerson (given_method req) \<or> (given_method req = MethodAPI \<and> dr_proof req \<noteq> None)"
    "GetPending (trim_space (dr_id req)) w = (Inr (Some p), v)" "\<not> teamRouted p"
    "checkAnswerProof e p (scope_word (dr_session req)) (dr_proof req) (given_method req) v = (Inr c, v')"
    "d = decided_of p (new_answer e p req (trim_space (dr_id req)) (given_method req) True c) c"
proof -
  let ?i = "trim_space (dr_id req)" and ?m = "given_method req"
  from assms(1) obtain approved where w: "ValidDecisionID ?i" "decision_word (dr_decision req) = Some approved"
    and a: "\<not> (approved \<and> \<not> approvesInPerson ?m \<and> (?m \<noteq> MethodAPI \<or> dr_proof req = None))"
    by (auto simp: Decide_def given_method_def Let_def fail_iff split: if_splits option.splits)
  with assms(1) obtain r v where r: "GetPending ?i w = (Inr r, v)"
    by (auto simp: Decide_def given_method_def Let_def io_iff split: if_splits)
  with assms(1) w a obtain p where p: "r = Some p" and t: "\<not> (approved \<and> teamRouted p)"
    by (cases r) (auto simp: Decide_def given_method_def Let_def io_bind_def fail_iff split: if_splits)
  have body: "io_bind (if approved then checkAnswerProof e p (scope_word (dr_session req)) (dr_proof req) ?m else ret no_check) (\<lambda>c.
      let a = new_answer e p req ?i ?m approved c
      in io_then (PutAnswer a) (io_then (record_answer p approved e a c) (ret (decided_of p a c)))) v = (Inr d, w')"
    using assms(1) w a r p t unfolding Decide_def given_method_def Let_def
    by (auto simp: io_bind_def [of "GetPending ?i"] split: if_splits)
  then obtain c v' where c: "(if approved then checkAnswerProof e p (scope_word (dr_session req)) (dr_proof req) ?m else ret no_check) v = (Inr c, v')"
    and d: "d = decided_of p (new_answer e p req ?i ?m approved c) c"
    unfolding Let_def bind_Inr_iff then_Inr_iff ret_iff by auto
  have "approved" using d assms(2) by (auto simp: decided_of_def new_answer_def Let_def split: if_splits)
  with c d w a t r p show ?thesis by (intro that [of p v c v']) auto
qed

text \<open>
  C6: An approval is a person's. If an answer is accepted as an approval, it came from a terminal or the
  harness's prompt, or over the API with a proof, and never from an agent's tools; the decision it
  names waits on file and is not the organisation's to answer; and over the API, or anywhere with
  presence enforced, its proof verifies for that decision as it waits under the key in the key store
  (\<open>Decide\<close>, \<open>checkAnswerProof\<close>). Whichever accesses to the disk fail.
\<close>
theorem approval_is_vouched:
  assumes "Decide e req w = (Inr d, w')" "dc_decision d = ''approved''"
  shows "\<exists>p. waits w req p \<and> \<not> teamRouted p \<and> given_method req \<in> {MethodCLI, MethodPrompt, MethodAPI} \<and>
    (given_method req = MethodAPI \<or> mode_Enforced (approval e) \<longrightarrow>
       proved e w p (scope_word (dr_session req)) (dr_proof req))"
  using assms
proof (rule Decide_approved)
  fix p c v v'
  assume a: "approvesInPerson (given_method req) \<or> (given_method req = MethodAPI \<and> dr_proof req \<noteq> None)"
    and r: "GetPending (trim_space (dr_id req)) w = (Inr (Some p), v)" and t: "\<not> teamRouted p"
    and c: "checkAnswerProof e p (scope_word (dr_session req)) (dr_proof req) (given_method req) v = (Inr c, v')"
  have "waits w req p" using GetPending_value [OF r] by (simp add: waits_def)
  moreover have "proved e w p (scope_word (dr_session req)) (dr_proof req)"
    if "given_method req = MethodAPI \<or> mode_Enforced (approval e)"
  proof -
    have "mode_Enforced (approval e) \<or> (given_method req = MethodAPI \<and> dr_proof req \<noteq> None)"
      using that a by (auto simp: approvesInPerson_def method_texts)
    then have "proved e v p (scope_word (dr_session req)) (dr_proof req)" using checkAnswerProof_proved [OF c] by blast
    moreover have "ks_public (w_keys v) = ks_public (w_keys w)"
      using leavesD [OF leaves_GetPending r, of "\<lambda>w. ks_public (w_keys w)"] by (simp add: contents_def)
    ultimately show ?thesis by (simp add: proved_def)
  qed
  ultimately show ?thesis using a t by (auto simp: approvesInPerson_def)
qed

text \<open>A decision that waits, approved at a terminal.\<close>

definition sample_pending :: pending where
  "sample_pending =
     \<lparr>pd_id = ''bnd-0123456789ab'', pd_rule = ''cap'', pd_require = ''ask'', pd_crossed = ''session cost'', pd_action = ''continue'',
      pd_harness = ''claude-code'', pd_session = ''s1'', pd_agent = ''claude-code:web'', pd_at = zero_time, pd_tool_use = [],
      pd_crossings = [], pd_routed_at = None, pd_challenge = ''c1'', pd_spent = []\<rparr>"

definition waiting_world :: world where
  "waiting_world = fresh_world\<lparr>w_pending := [(''bnd-0123456789ab'', Stored sample_pending)]\<rparr>"

definition quiet_env :: env where
  "quiet_env =
     \<lparr>env_now = \<lparr>t_ns = 5000 * second, t_off = 0\<rparr>, env_offset = 0, env_set_user = ''ada'', env_local_user = ''ada'',
      env_attended = False, env_mode = None, env_costs = (\<lambda>_. None), env_limits = None,
      env_transcripts = \<lparr>tx_lines = (\<lambda>_. None), tx_entry = (\<lambda>_. None)\<rparr>, env_point_ok = (\<lambda>_. True),
      env_ecdsa = (\<lambda>_ _ _. True)\<rparr>"

definition approve_request :: decide_request where
  "approve_request = \<lparr>dr_id = ''bnd-0123456789ab'', dr_decision = ''approve'', dr_session = False, dr_proof = None, dr_method = ''cli''\<rparr>"

lemma steady_record_answer [yields_intros]: "steady (record_answer p b e a c)"
  unfolding record_answer_def
proof (rule yields_bind_value [where P = "\<lambda>ev. \<exists>d. ev_payload ev = PDecision d"])
  show "steady (answerEnvelope p (if b then DecisionStageAccepted else DecisionStageRejected) e a c)"
    unfolding answerEnvelope_def by (intro yields_intros)
qed (auto simp: answerEnvelope_def boundary_event_def io_iff intro: steady_Append)

lemma sample_decided: "\<exists>d w'. Decide quiet_env approve_request waiting_world = (Inr d, w') \<and> dc_decision d = ''approved''"
proof -
  have i: "ValidDecisionID ''bnd-0123456789ab''" "valid_id ''bnd-0123456789ab''" "trim_space ''bnd-0123456789ab'' = ''bnd-0123456789ab''"
      "decision_word ''approve'' = Some True" "\<not> teamRouted sample_pending"
    by code_simp+
  have w: "readable waiting_world"
    using i(2) by (simp add: readable_def waiting_world_def fresh_world_def sound_disk_def pending_ok_def sample_pending_def crossings_json_def)
  have get: "GetPending ''bnd-0123456789ab'' waiting_world = (Inr (Some sample_pending), tick waiting_world)"
    using i(2) readable_sound [OF w]
    by (simp add: GetPending_def getJSON_def idPath_def runs decode_def) (simp add: waiting_world_def decode_def)
  let ?a = "new_answer quiet_env sample_pending approve_request ''bnd-0123456789ab'' ''cli'' True no_check"
  have "steady (io_then (PutAnswer ?a) (io_then (record_answer sample_pending True quiet_env ?a no_check) (ret (decided_of sample_pending ?a no_check))))"
    by (intro yields_intros) (simp_all add: new_answer_def sample_pending_def crossings_json_def i(2))
  then obtain d w' where d: "io_then (PutAnswer ?a) (io_then (record_answer sample_pending True quiet_env ?a no_check)
      (ret (decided_of sample_pending ?a no_check))) (tick waiting_world) = (Inr d, w')"
    using w by (auto dest: yieldsD [where w = "tick waiting_world"])
  then have "d = decided_of sample_pending ?a no_check" by (auto simp: then_Inr_iff ret_iff)
  moreover have "Decide quiet_env approve_request waiting_world = (Inr d, w')"
    using d i get by (simp add: Decide_def approve_request_def checkAnswerProof_def quiet_env_def approval_def mode_Enforced_def
        approvesInPerson_def MethodCLI_def io_bind_def [of "GetPending _"] Let_def)
  ultimately show ?thesis by (auto simp: decided_of_def new_answer_def Let_def)
qed

theorem approval_is_vouched_witness: "waits waiting_world approve_request sample_pending \<and> \<not> teamRouted sample_pending"
proof -
  obtain d w' where "Decide quiet_env approve_request waiting_world = (Inr d, w')" "dc_decision d = ''approved''"
    using sample_decided by blast
  from approval_is_vouched [OF this] obtain p where "waits waiting_world approve_request p" "\<not> teamRouted p" by blast
  moreover have "trim_space ''bnd-0123456789ab'' = ''bnd-0123456789ab''" by code_simp
  ultimately show ?thesis by (auto simp: waits_def waiting_world_def fresh_world_def approve_request_def)
qed

end
