(* ===== verification/Signing.thy ===== *)
theory Signing
  imports Decide
begin

text \<open>
  Signing an approval with this machine's presence key, and the key's enrolment and rotation
  (\<open>internal/capability/boundaries/presence_sign.go\<close>, and of
  \<open>internal/infra/presence/helper.go\<close> the errors and the dialog's text). The helper process that holds
  the key and asks the person is a parameter: what it returns for a new key and for a message to
  sign. The lemmas say that what a surface signs is what the verifier checks.
\<close>

subsection \<open>The helper\<close>

datatype sign_error = ErrHelperMissing | ErrNoEnclave | ErrNoGUI | ErrLocked | ErrCancelled | ErrAuthFailed | ErrBadKey
  | ErrOther string

fun sign_error_text :: "sign_error \<Rightarrow> string" where
  "sign_error_text ErrHelperMissing = ''the presence helper (tokenops-presence) is not installed beside tokenops''"
| "sign_error_text ErrNoEnclave = ''this Mac has no Secure Enclave''"
| "sign_error_text ErrNoGUI =
     ''no one can be asked here: the dialog needs the logged-in user's screen (not SSH, a launchd job or CI)''"
| "sign_error_text ErrLocked = ''the screen is locked, so the dialog cannot be shown''"
| "sign_error_text ErrCancelled = ''the dialog was cancelled''"
| "sign_error_text ErrAuthFailed = ''authentication failed''"
| "sign_error_text ErrBadKey = ''the presence key could not be loaded (a key from another Mac, or a damaged blob)''"
| "sign_error_text (ErrOther s) = s"

definition sign_unavailable :: "sign_error \<Rightarrow> bool" where
  "sign_unavailable x \<longleftrightarrow> x \<in> {ErrHelperMissing, ErrNoEnclave, ErrNoGUI, ErrLocked}"

definition signError :: "sign_error \<Rightarrow> err" where
  "signError x = (if sign_unavailable x then Unavailable (sign_error_text x) else Failed (sign_error_text x))"

text \<open>\<open>Create\<close> returns the public key and leaves the new key's blob at the waiting path; \<open>Sign\<close> signs a
message with the key in a blob, raising the dialog with the text.\<close>

record signer =
  sg_create :: "sign_error + string \<times> string"
  sg_sign :: "string option \<Rightarrow> string \<Rightarrow> string \<Rightarrow> sign_error + string"

definition sign_with :: "signer \<Rightarrow> (key_store \<Rightarrow> string option) \<Rightarrow> string \<Rightarrow> string \<Rightarrow> (world, sign_error + string) io" where
  "sign_with s blob msg dialog = look (\<lambda>w. sg_sign s (blob (w_keys w)) msg dialog)"

definition maxDialogText :: nat where "maxDialogText = 240"

text \<open>Over ASCII text a rune is a byte.\<close>

definition DialogText :: "string \<Rightarrow> string" where
  "DialogText s =
     (let t = join '' '' (Fields (map (\<lambda>c. if (of_char c :: nat) < 32 \<or> of_char c = (127 :: nat) then CHR '' '' else c) s))
      in if maxDialogText < length t then take (maxDialogText - 1) t @ ellipsis else t)"

definition shortID :: "string \<Rightarrow> string" where "shortID s = take 8 s"

definition approvalDialog :: "pending \<Rightarrow> string \<Rightarrow> string" where
  "approvalDialog p scp =
     ''approve TokenOps boundary '' @ quoted (pd_rule p) @ '' ('' @ pd_action p @ '') in '' @ pd_harness p @ '' session '' @
     shortID (pd_session p) @ '': '' @ pd_crossed p @ '', for '' @
     (if scp = ScopeSession then ''the rest of the session'' else ''the next step only'')"

subsection \<open>The key to sign with\<close>

definition signingTrust :: "env \<Rightarrow> (world, trust) io" where
  "signingTrust e =
     io_bind (attempt (env_trust e)) (\<lambda>r.
       case r of
         Inl err \<Rightarrow> fail (Unavailable (''the presence key store could not be read: '' @ failureClass (err_text err)))
       | Inr t \<Rightarrow>
           (case tr_state t of
              TrustNotEnrolled \<Rightarrow>
                fail (Unavailable (''no presence key is enrolled on this machine: enrol one with `'' @ EnrolCommand @ ''`''))
            | TrustHeld \<Rightarrow>
                fail (Unavailable (''approvals are held until '' @ clock_text (local_time e (p_hold_until (tr_pin t))) @
                  '': the presence key was replaced without the old key's signature''))
            | TrustPinned \<Rightarrow>
                io_bind HasBlob (\<lambda>b.
                  if b then ret t
                  else fail (Unavailable (''the presence key is enrolled but its key blob is not on this machine: re-enrol with `'' @
                         EnrolCommand @ '' --replace`'')))))"

subsection \<open>An approval's statement\<close>

record approval_statement =
  st_proof :: proof_stmt
  st_statement :: string
  st_reason :: string
  st_key :: string

definition malformed_text :: "malformed \<Rightarrow> string" where
  "malformed_text m =
     ''malformed presence statement: '' @
     (case m of
        BadVersion n \<Rightarrow> ''version '' @ itoa n
      | BadScope s \<Rightarrow> ''scope '' @ quoted s
      | EmptyField \<Rightarrow> ''a bound field is empty''
      | BadTime \<Rightarrow> ''issued must be whole seconds in UTC''
      | BadSpan \<Rightarrow> ''a grant ends after it starts and lasts at most 24h0m0s'')"

definition teams_rule :: "pending \<Rightarrow> err" where
  "teams_rule p =
     InputError (pd_rule p @ '' is your organisation's rule: its approver answers in the team plane, not this machine; '' @
       ''you can still deny it here'')"

definition unsigned_proof :: "env \<Rightarrow> pending \<Rightarrow> string \<Rightarrow> string \<Rightarrow> string \<Rightarrow> proof_stmt" where
  "unsigned_proof e p i scp key =
     \<lparr>pf_v = Version, pf_key = key, pf_decision = i, pf_rule = pd_rule p, pf_session = pd_session p, pf_scope = scp,
      pf_challenge = pd_challenge p, pf_crossed = CrossingsDigest (pd_crossings p), pf_issued = truncate_second (now_of e),
      pf_sig = []\<rparr>"

definition statement_of :: "env \<Rightarrow> pending \<Rightarrow> string \<Rightarrow> string \<Rightarrow> string \<Rightarrow> (world, approval_statement) io" where
  "statement_of e p i scp key =
     (let pf = unsigned_proof e p i scp key
      in case Message pf of
           Inl m \<Rightarrow> fail (Failed (malformed_text m))
         | Inr msg \<Rightarrow>
             ret \<lparr>st_proof = pf, st_statement = msg, st_reason = DialogText (approvalDialog p scp), st_key = key\<rparr>)"

text \<open>A decision raised before challenges existed is given one.\<close>

definition challenged :: "pending \<Rightarrow> (world, pending) io" where
  "challenged p =
     (if pd_challenge p = []
      then io_bind newChallenge (\<lambda>c. let q = p\<lparr>pd_challenge := c\<rparr> in io_then (PutPending q) (ret q))
      else ret p)"

definition PrepareApproval :: "env \<Rightarrow> string \<Rightarrow> bool \<Rightarrow> (world, approval_statement) io" where
  "PrepareApproval e s session =
     (let i = trim_space s
      in if \<not> ValidDecisionID i then fail (bad_id i '''')
         else io_bind (signingTrust e) (\<lambda>t.
           io_bind (GetPending i) (\<lambda>r.
             case r of
               None \<Rightarrow> fail (not_waiting i)
             | Some p \<Rightarrow>
                 if teamRouted p then fail (teams_rule p)
                 else io_bind (challenged p) (\<lambda>p. statement_of e p i (scope_word session) (k_id (tr_key t))))))"

definition verifyPrepared :: "env \<Rightarrow> proof_stmt \<Rightarrow> (world, vresult) io" where
  "verifyPrepared e pf =
     io_bind (attempt (GetPending (pf_decision pf))) (\<lambda>r.
       case r of
         Inr (Some p) \<Rightarrow> verifyAnswerProof e p (pf_scope pf) (Some pf)
       | _ \<Rightarrow> ret \<lparr>vr_reason = ReasonDecision, vr_key_id = []\<rparr>)"

definition bad_signature :: "reason \<Rightarrow> err" where
  "bad_signature r =
     Failed (''the signature the presence helper returned is not valid ('' @ Phrase r @ ''): re-enrol with `'' @ EnrolCommand @
       '' --replace`'')"

definition SignApproval :: "env \<Rightarrow> signer \<Rightarrow> string \<Rightarrow> bool \<Rightarrow> (world, proof_stmt) io" where
  "SignApproval e s i session =
     io_bind (PrepareApproval e i session) (\<lambda>st.
     io_bind (sign_with s ks_blob (st_statement st) (st_reason st)) (\<lambda>r.
       case r of
         Inl x \<Rightarrow> fail (signError x)
       | Inr sg \<Rightarrow>
           let pf = (st_proof st)\<lparr>pf_sig := sg\<rparr>
           in io_bind (verifyPrepared e pf) (\<lambda>res. if vresult_OK res then ret pf else fail (bad_signature (vr_reason res)))))"

subsection \<open>Enrolling a key\<close>

record enrolled =
  el_key :: string
  el_previous :: string
  el_how :: pin_how
  el_since :: gotime
  el_hold :: "gotime option"
  el_note :: string

fun how_text :: "pin_how \<Rightarrow> string" where
  "how_text PinEnrolled = ''enrolled''"
| "how_text PinRotated = ''rotated''"
| "how_text PinReplaced = ''replaced''"
| "how_text (PinUnknown s) = s"

definition presence_payload :: "env \<Rightarrow> enrolled \<Rightarrow> decision_event" where
  "presence_payload e x =
     \<lparr>de_kind = ''presence'', de_stage = DecisionStageApplied, de_alternatives = [], de_selected = no_option, de_evidence = [],
      de_policy = [], de_authority = [], de_confidence = Fin 0,
      de_rationale = ''presence_'' @ how_text (el_how x) @ '': '' @ el_note x, de_executable = False, de_adapter = ''cli'',
      de_actor = no_actor\<lparr>da_user := user_of e\<rparr>, de_approval = no_approval\<rparr>"

definition presenceEnvelope :: "env \<Rightarrow> enrolled \<Rightarrow> (world, envelope) io" where
  "presenceEnvelope e x =
     io_bind draw (\<lambda>uuid. ret (boundary_event uuid (now_of e) [] (''presence:'' @ el_key x) (presence_payload e x)))"

definition enrolled_of :: "env \<Rightarrow> string \<Rightarrow> trust \<Rightarrow> enrolled" where
  "enrolled_of e verb t =
     (let k = k_id (tr_key t); p = tr_pin t; hold = p_hold_until p;
          note = (case p_how p of
              PinReplaced \<Rightarrow>
                ''presence key '' @ k @ '' replaces '' @ p_previous p @ '' without its signature: approvals are held until '' @
                clock_text (local_time e hold) @ '', and the glance and `tokenops boundaries status` say so''
            | PinRotated \<Rightarrow> ''rotated from '' @ p_previous p @ '' to '' @ k @ '', signed by the old key; nothing is held''
            | _ \<Rightarrow> ''presence key '' @ k @ '' '' @ verb)
      in \<lparr>el_key = k, el_previous = p_previous p, el_how = p_how p, el_since = p_since p,
          el_hold = (if p_how p = PinReplaced then Some hold else None),
          el_note = note @ (if mode_Enforced (approval e) then ''''
            else ''; approvals are signed and checked in shadow until boundary_approval: presence '' @
                 ''(`tokenops boundaries presence enforce`)'')\<rparr>)"

text \<open>The store is read back, which pins the new key, and the change recorded.\<close>

definition pinned :: "env \<Rightarrow> string \<Rightarrow> (world, enrolled) io" where
  "pinned e verb =
     io_bind (env_trust e) (\<lambda>t.
       let x = enrolled_of e verb t
       in io_bind (presenceEnvelope e x) (\<lambda>ev. io_then (Append (Some ev)) (ret x)))"

text \<open>An error that throws the new key away.\<close>

definition discarding :: "err \<Rightarrow> (world, 'a) io" where
  "discarding x = io_then Discard (fail x)"

definition new_enrolment :: "env \<Rightarrow> string \<Rightarrow> string \<Rightarrow> string \<Rightarrow> enrolment" where
  "new_enrolment e host machine key =
     \<lparr>en_key = key, en_machine = (if machine = [] then host else machine), en_user = user_of e,
      en_at = truncate_second (now_of e), en_sig = []\<rparr>"

definition enrol_key ::
  "env \<Rightarrow> signer \<Rightarrow> string \<Rightarrow> string \<Rightarrow> presence_key \<Rightarrow> enrolment \<Rightarrow> (world, string \<times> enrolment) io" where
  "enrol_key e s verb pub key n =
     io_bind (sign_with s ks_new_blob (EnrolmentMessage (en_key n) (en_machine n) (en_user n) (en_at n))
         (verb @ '' TokenOps approval key '' @ k_id key @ '' for '' @ en_user n @ '' on '' @ en_machine n)) (\<lambda>r.
       case r of
         Inl x \<Rightarrow> discarding (signError x)
       | Inr sg \<Rightarrow>
           if \<not> VerifyEnrolment (env_ecdsa e) key (en_machine n) (en_user n) (en_at n) sg
           then discarding (Failed ''the new key's signature over its enrolment statement is not valid'')
           else ret (pub, n\<lparr>en_sig := sg\<rparr>))"

definition createKey :: "env \<Rightarrow> signer \<Rightarrow> string \<Rightarrow> string \<Rightarrow> string \<Rightarrow> (world, string \<times> enrolment) io" where
  "createKey e s host machine verb =
     io_then reach
       (case sg_create s of
          Inl x \<Rightarrow> discarding (signError x)
        | Inr (pub, blob) \<Rightarrow>
            io_then (change (on_keys (ks_new_blob_update (\<lambda>_. Some blob))))
              (case ParseKey (env_point_ok e) pub of
                 None \<Rightarrow> discarding (Failed ''the presence helper returned no valid key: presence key'')
               | Some key \<Rightarrow> enrol_key e s verb pub key (new_enrolment e host machine (k_id key))))"

text \<open>The key is installed and its blob thrown away if that fails.\<close>

definition install :: "string \<Rightarrow> enrolment \<Rightarrow> rotation option \<Rightarrow> (world, unit) io" where
  "install pub n rot =
     io_bind (attempt (Install pub n rot)) (\<lambda>r. case r of Inl x \<Rightarrow> discarding x | Inr _ \<Rightarrow> ret ())"

definition already_enrolled :: "string \<Rightarrow> err" where
  "already_enrolled k =
     InputError (''presence key '' @ k @ '' is already enrolled: `tokenops boundaries presence rotate` moves to a new key '' @
       ''with its signature (no hold); `'' @ EnrolCommand @
       '' --replace` replaces it without one and holds approvals for 15 minutes'')"

definition EnrollPresence :: "env \<Rightarrow> signer \<Rightarrow> string \<Rightarrow> bool \<Rightarrow> string \<Rightarrow> (world, enrolled) io" where
  "EnrollPresence e s host replace machine =
     io_bind (env_trust e) (\<lambda>t.
       if tr_state t \<noteq> TrustNotEnrolled \<and> \<not> replace then fail (already_enrolled (k_id (tr_key t)))
       else io_bind (createKey e s host machine ''enrol'') (\<lambda>(pub, n).
         io_then (install pub n None) (pinned e ''enrolled'')))"

definition unsigned_rotation :: "trust \<Rightarrow> enrolment \<Rightarrow> rotation" where
  "unsigned_rotation old n = \<lparr>rt_from = k_id (tr_key old), rt_to = en_key n, rt_at = en_at n, rt_sig = []\<rparr>"

definition RotatePresence :: "env \<Rightarrow> signer \<Rightarrow> string \<Rightarrow> string \<Rightarrow> (world, enrolled) io" where
  "RotatePresence e s host machine =
     io_bind (signingTrust e) (\<lambda>old.
     io_bind (createKey e s host machine ''rotate to'') (\<lambda>(pub, n).
       let rot = unsigned_rotation old n
       in io_bind (sign_with s ks_blob (RotationMessage (rt_from rot) (rt_to rot) (rt_at rot))
              (''rotate this Mac's TokenOps approval key from '' @ k_id (tr_key old) @ '' to '' @ en_key n)) (\<lambda>r.
            case r of
              Inl x \<Rightarrow> discarding (signError x)
            | Inr sg \<Rightarrow>
                let rot = rot\<lparr>rt_sig := sg\<rparr>
                in if \<not> VerifyRotation (env_ecdsa e) (tr_key old) rot
                   then discarding (Failed (''the old key's signature over the rotation is not valid: its blob does not match key '' @
                          k_id (tr_key old)))
                   else io_then (install pub n (Some rot)) (pinned e ''rotated''))))"

subsection \<open>What a signature is over\<close>

text \<open>A proof handed out names the decision as it waited and verified for it.\<close>

lemma leaves_verifyAnswerProof [leaves_intros]:
  assumes "contents f" "\<And>g w. f (w_keys_update g w) = f w"
  shows "leaves f (verifyAnswerProof e p scp pf)"
  unfolding verifyAnswerProof_def by (intro leaves_intros assms)

lemma verifyAnswerProof_public: "leaves (\<lambda>w. ks_public (w_keys w)) (verifyAnswerProof e p scp pf)"
  unfolding verifyAnswerProof_def by (intro leaves_intros env_trust_public)

lemma verifyPrepared_proved:
  assumes "verifyPrepared e pf w = (Inr res, w')" "vresult_OK res"
  shows "\<exists>p. map_of (w_pending w') (pf_decision pf) = Some (Stored p) \<and> proved e w' p (pf_scope pf) (Some pf)"
proof -
  from assms obtain p v where g: "GetPending (pf_decision pf) w = (Inr (Some p), v)"
    and v: "verifyAnswerProof e p (pf_scope pf) (Some pf) v = (Inr res, w')"
  proof -
    from assms(1) obtain r v where r: "GetPending (pf_decision pf) w = (r, v)"
      "(case r of Inr (Some p) \<Rightarrow> verifyAnswerProof e p (pf_scope pf) (Some pf) | _ \<Rightarrow> ret \<lparr>vr_reason = ReasonDecision, vr_key_id = []\<rparr>) v =
        (Inr res, w')"
      unfolding verifyPrepared_def bind_Inr_iff attempt_iff by blast
    obtain p where "r = Inr (Some p)"
      using r(2) assms(2) by (cases r rule: sum.exhaust; cases "projr r") (auto simp: ret_iff vresult_OK_def)
    with r that show thesis by auto
  qed
  have "map_of (w_pending v) (pf_decision pf) = Some (Stored p)"
    using GetPending_value [OF g] leavesD [OF leaves_GetPending g, of w_pending] by auto
  moreover have "w_pending w' = w_pending v" by (rule leavesD [OF leaves_verifyAnswerProof v]) auto
  moreover have "ks_public (w_keys w') = ks_public (w_keys v)" by (rule leavesD [OF verifyAnswerProof_public v])
  moreover have "proved e v p (pf_scope pf) (Some pf)" using verifyAnswerProof_proved [OF v assms(2)] .
  ultimately show ?thesis by (auto simp: proved_def)
qed

lemma statement_fields:
  assumes "statement_of e p i scp key w = (Inr st, w')"
  shows "pf_decision (st_proof st) = i \<and> pf_scope (st_proof st) = scp \<and> Message (st_proof st) = Inr (st_statement st)"
  using assms by (auto simp: statement_of_def unsigned_proof_def Let_def io_iff split: sum.splits)

lemma PrepareApproval_fields:
  assumes "PrepareApproval e i session w = (Inr st, w')"
  shows "pf_decision (st_proof st) = trim_space i \<and> pf_scope (st_proof st) = scope_word session \<and>
    Message (st_proof st) = Inr (st_statement st)"
  using assms by (auto simp: PrepareApproval_def Let_def io_iff dest: statement_fields split: if_splits option.splits)

text \<open>
  The bytes the helper is given are the statement the proof is over, so an approval signed here is
  one the verifier accepts for that decision as it is then on file.
\<close>

lemma SignApproval_proved:
  assumes "SignApproval e s i session w = (Inr pf, w')"
  shows "pf_decision pf = trim_space i \<and>
    (\<exists>p. map_of (w_pending w') (trim_space i) = Some (Stored p) \<and> proved e w' p (scope_word session) (Some pf))"
proof -
  from assms obtain st v sg v' res where st: "PrepareApproval e i session w = (Inr st, v)"
    and pf: "pf = (st_proof st)\<lparr>pf_sig := sg\<rparr>" and r: "verifyPrepared e pf v' = (Inr res, w')" "vresult_OK res"
  proof -
    from assms obtain st v r v' where st: "PrepareApproval e i session w = (Inr st, v)"
      and k: "(case r of Inl x \<Rightarrow> fail (signError x)
       | Inr sg \<Rightarrow> io_bind (verifyPrepared e ((st_proof st)\<lparr>pf_sig := sg\<rparr>))
           (\<lambda>res. if vresult_OK res then ret ((st_proof st)\<lparr>pf_sig := sg\<rparr>) else fail (bad_signature (vr_reason res)))) v' = (Inr pf, w')"
      unfolding SignApproval_def bind_Inr_iff Let_def by blast
    then obtain sg where "r = Inr sg" by (cases r) (auto simp: fail_iff)
    with st k that show thesis by (auto simp: io_iff split: if_splits)
  qed
  from PrepareApproval_fields [OF st] verifyPrepared_proved [OF r] pf show ?thesis by auto
qed

end
