(* ===== verification/PausePoint.thy ===== *)
theory PausePoint
  imports Steady
begin

text \<open>
  What letting a call through rests on: the lemmas over the pause point's steps, each with what it
  leaves alone, and the properties of \<open>Guard\<close> built from them. They hold whichever accesses to
  the disk fail, as long as the call is answered at all; a failure is an error, which the callers
  let through and record.
\<close>

subsection \<open>What each step leaves alone\<close>

lemma leaves_record_decision [leaves_intros]:
  "contents f \<Longrightarrow> (\<And>g w. f (w_log_update g w) = f w) \<Longrightarrow> leaves f (record_decision g m st a)"
  unfolding record_decision_def by (intro leaves_intros; simp)

lemma leaves_recordOnce [leaves_intros]:
  "contents f \<Longrightarrow> (\<And>g w. f (w_log_update g w) = f w) \<Longrightarrow> leaves f (recordOnce g m st a)"
  unfolding recordOnce_def Let_def by (intro leaves_intros; simp)

lemma leaves_recordShadow [leaves_intros]:
  "contents f \<Longrightarrow> (\<And>g w. f (w_log_update g w) = f w) \<Longrightarrow> leaves f (recordShadow g m)"
  unfolding recordShadow_def by (intro leaves_intros; simp)

lemma leaves_recordLifted [leaves_intros]:
  "contents f \<Longrightarrow> (\<And>g w. f (w_log_update g w) = f w) \<Longrightarrow> leaves f (recordLifted g l)"
  unfolding recordLifted_def Let_def by (intro leaves_intros; simp)

lemma leaves_fold_io [leaves_intros]: "(\<And>g x. leaves f (h g x)) \<Longrightarrow> leaves f (fold_io h g xs)"
  by (induction xs arbitrary: g) (auto intro: leaves_intros)

lemma leaves_load [leaves_intros]: "contents f \<Longrightarrow> leaves f (load c e ev)"
  unfolding load_def by (intro leaves_intros)

lemma leaves_honouredExtras [leaves_intros]:
  assumes "contents f" "\<And>g w. f (w_keys_update g w) = f w"
  shows "leaves f (honouredExtras e now)"
  unfolding honouredExtras_def by (intro leaves_intros assms)

lemma leaves_liftExtras [leaves_intros]:
  assumes "contents f" "\<And>g w. f (w_keys_update g w) = f w"
  shows "leaves f (liftExtras v rs a fa e)"
  unfolding liftExtras_def Let_def by (intro leaves_intros assms)

lemma honouredExtras_public: "leaves (\<lambda>w. ks_public (w_keys w)) (honouredExtras e now)"
  unfolding honouredExtras_def by (intro leaves_intros env_trust_public) (simp_all add: contents_def)

lemma liftExtras_public: "leaves (\<lambda>w. ks_public (w_keys w)) (liftExtras v rs a fa e)"
  unfolding liftExtras_def Let_def by (intro leaves_intros honouredExtras_public)

subsection \<open>The guard's fixed parts\<close>

text \<open>Recording changes a guard's session and its note, never the call, the environment or the time.\<close>

definition same_call :: "guard \<Rightarrow> guard \<Rightarrow> bool" where
  "same_call g h \<longleftrightarrow> gd_call h = gd_call g \<and> gd_env h = gd_env g \<and> gd_now h = gd_now g"

lemma same_call_refl [simp]: "same_call g g"
  by (simp add: same_call_def)

lemma same_call_trans: "same_call g h \<Longrightarrow> same_call h k \<Longrightarrow> same_call g k"
  by (simp add: same_call_def)

lemma same_call_set [simp]: "same_call g (set_stage i t g)"
  by (simp add: same_call_def set_stage_def)

lemma recordOnce_same: "recordOnce g m st a w = (Inr h, w') \<Longrightarrow> same_call g h"
  by (auto simp: recordOnce_def Let_def io_iff split: if_splits)

lemma recordShadow_same: "recordShadow g m w = (Inr h, w') \<Longrightarrow> same_call g h"
  by (auto simp: recordShadow_def io_iff dest: recordOnce_same split: if_splits)

lemma recordLifted_same: "recordLifted g l w = (Inr h, w') \<Longrightarrow> same_call g h"
  by (auto simp: recordLifted_def Let_def io_iff split: if_splits prod.splits)

lemma fold_io_same:
  assumes "\<And>g x w h w'. f g x w = (Inr h, w') \<Longrightarrow> same_call g h" and "fold_io f g xs w = (Inr h, w')"
  shows "same_call g h"
  using assms(2)
proof (induction xs arbitrary: g w)
  case (Cons x xs)
  then show ?case by (auto simp: io_iff dest: assms(1) intro: same_call_trans)
qed (simp add: io_iff)

lemma load_same: "load c e ev w = (Inr g, w') \<Longrightarrow> gd_call g = c \<and> gd_env g = e \<and> gd_now g = now_of e"
  by (auto simp: load_def io_iff)

subsection \<open>An answer\<close>

text \<open>The answer that lets the call through: stored, an approval, not expired, and vouched for.\<close>

definition approved_by :: "env \<Rightarrow> world \<Rightarrow> string \<Rightarrow> string \<Rightarrow> string \<Rightarrow> answer \<Rightarrow> bool" where
  "approved_by e w i rule session a \<longleftrightarrow>
     map_of (w_answers w) i = Some (Stored a) \<and> an_approved a \<and> Sub (now_of e) (an_at a) \<le> answerTTL \<and>
     vouched e w a i rule session"

lemma GetAnswer_value:
  assumes "GetAnswer i now w = (Inr (Some a), w')"
  shows "map_of (w_answers w) i = Some (Stored a) \<and> Sub now (an_at a) \<le> answerTTL"
proof -
  from assms obtain v where g: "getJSON w_answers i w = (Inr (Some a), w')" and t: "\<not> answerTTL < Sub now (an_at a)"
    by (auto simp: GetAnswer_def io_iff split: option.splits if_splits)
  from g have "map_of (w_answers w) i = Some (Stored a)"
    by (auto simp: getJSON_def io_iff idPath_def dest!: reach_state split: if_splits)
  with t show ?thesis by simp
qed

lemma vouched_cong:
  assumes "ks_public (w_keys v) = ks_public (w_keys w)" "w_pending v = w_pending w"
  shows "vouched e v a i rule session = vouched e w a i rule session"
proof -
  have "signed_for e v a i rule session = signed_for e w a i rule session" using assms by (simp add: signed_for_def)
  then show ?thesis by (cases "approval e") (simp_all add: vouched_def)
qed

lemma approved_by_cong:
  assumes "ks_public (w_keys v) = ks_public (w_keys w)" "w_pending v = w_pending w" "w_answers v = w_answers w"
  shows "approved_by e v i rule session a = approved_by e w i rule session a"
  unfolding approved_by_def assms(3) vouched_cong [OF assms(1,2)] ..

lemma public_contents [simp, intro]: "contents (\<lambda>w. ks_public (w_keys w))"
  by (simp add: contents_def)

lemma answered_through:
  assumes "answered g m i w = (Inr (Some res, h), w')" "rs_verdict res = VerdictNone" "gd_now g = now_of (gd_env g)"
  shows "\<exists>a. approved_by (gd_env g) w i (r_name (m_rule m)) (ca_session (gd_call g)) a"
proof -
  from assms(1) obtain r v where r: "GetAnswer i (gd_now g) w = (Inr r, v)"
    and k: "(case r of
         None \<Rightarrow> ret (None, g)
       | Some a \<Rightarrow>
           if \<not> an_approved a then answered_denied g m i a
           else io_bind (checkPresence (gd_env g) a i (r_name (m_rule m)) (ca_session (gd_call g))) (\<lambda>c.
             if \<not> honoured c (approval (gd_env g)) then io_bind (refuse g m i a c) (\<lambda>g. ret (None, g))
             else answered_approved g m i a c)) v = (Inr (Some res, h), w')"
    by (auto simp: answered_def io_iff)
  from k obtain a where a: "r = Some a" by (cases r) (auto simp: io_iff)
  have "an_approved a"
    using k a assms(2) by (auto simp: answered_denied_def declined_def io_iff split: if_splits)
  with k a obtain c v' where c: "checkPresence (gd_env g) a i (r_name (m_rule m)) (ca_session (gd_call g)) v = (Inr c, v')"
      "honoured c (approval (gd_env g))"
    by (auto simp: io_iff split: if_splits)
  have v: "ks_public (w_keys v) = ks_public (w_keys w)" "w_pending v = w_pending w"
    using leavesD [OF leaves_GetAnswer r, of "\<lambda>w. ks_public (w_keys w)"] leavesD [OF leaves_GetAnswer r, of w_pending] by auto
  from honoured_vouched [OF c] vouched_cong [OF v]
  have "vouched (gd_env g) w a i (r_name (m_rule m)) (ca_session (gd_call g))" by simp
  with GetAnswer_value [of i "gd_now g" w a v] r a \<open>an_approved a\<close> assms(3) show ?thesis
    unfolding approved_by_def by auto
qed

text \<open>What the permission prompt showed: the call the ask was raised on ran.\<close>

definition prompt_ran :: "env \<Rightarrow> call \<Rightarrow> world \<Rightarrow> string \<Rightarrow> bool" where
  "prompt_ran e c w i \<longleftrightarrow>
     env_attended e \<and> \<not> mode_Strict (approval e) \<and>
     (\<exists>p v. map_of (w_pending w) i = Some (Stored p) \<and> pd_tool_use p \<noteq> [] \<and> pd_tool_use p \<noteq> ca_tool_use c \<and>
        ToolVerdict (env_transcripts e) (ca_transcript c) (pd_tool_use p) = Some v \<and> tv_outcome v = OutcomeRan)"

lemma settle_ran_result: "settle_ran g m i w = (Inr (b, h), w') \<Longrightarrow> b \<and> h = set_stage i (stage_text DecisionStageAccepted) g"
  by (auto simp: settle_ran_def Let_def io_iff)

lemma settlePrompt_result:
  assumes "settlePrompt g m i w = (Inr (b, h), w')"
  obtains (unsettled) "\<not> b" "h = g"
    | (ran) p v w1 where "b" "same_call g h" "env_attended (gd_env g)" "GetPending i w = (Inr (Some p), w1)"
        "pd_tool_use p \<noteq> []" "pd_tool_use p \<noteq> ca_tool_use (gd_call g)"
        "ToolVerdict (env_transcripts (gd_env g)) (ca_transcript (gd_call g)) (pd_tool_use p) = Some v" "tv_outcome v = OutcomeRan"
proof (cases "\<not> env_attended (gd_env g) \<or> ca_transcript (gd_call g) = []")
  case True
  with assms show ?thesis by (intro unsettled) (auto simp: settlePrompt_def io_iff)
next
  case att: False
  with assms obtain r v where r: "GetPending i w = (Inr r, v)"
    by (auto simp: settlePrompt_def io_iff split: if_splits)
  show ?thesis
  proof (cases r)
    case None
    with assms att r show ?thesis by (intro unsettled) (auto simp: settlePrompt_def io_bind_def)
  next
    case (Some p)
    show ?thesis
    proof (cases "pd_tool_use p = [] \<or> pd_tool_use p = ca_tool_use (gd_call g)")
      case True
      with assms att r Some show ?thesis by (intro unsettled) (auto simp: settlePrompt_def io_bind_def)
    next
      case use: False
      show ?thesis
      proof (cases "ToolVerdict (env_transcripts (gd_env g)) (ca_transcript (gd_call g)) (pd_tool_use p)")
        case None
        with assms att r Some use show ?thesis by (intro unsettled) (auto simp: settlePrompt_def io_bind_def)
      next
        case tv: (Some tv)
        consider "tv_outcome tv = OutcomeDeclined" | "tv_outcome tv = OutcomeVendorStopped" | "tv_outcome tv = OutcomeRan"
          by (cases "tv_outcome tv") auto
        then show ?thesis
        proof cases
          case 1
          with assms att r Some use tv show ?thesis by (intro unsettled) (auto simp: settlePrompt_def io_bind_def)
        next
          case 2
          with assms att r Some use tv have "io_then (recordVendorStop g m (pd_tool_use p) tv) (ret (False, g)) v = (Inr (b, h), w')"
            by (auto simp: settlePrompt_def io_bind_def)
          then show ?thesis by (intro unsettled) (auto simp: io_iff)
        next
          case 3
          with assms att r Some use tv have "settle_ran g m i v = (Inr (b, h), w')"
            by (auto simp: settlePrompt_def io_bind_def)
          with settle_ran_result [OF this] 3 att r Some use tv show ?thesis by (intro ran) auto
        qed
      qed
    qed
  qed
qed

lemma settlePrompt_ran:
  assumes "settlePrompt g m i w = (Inr (True, h), w')" "prompts g m"
  shows "prompt_ran (gd_env g) (gd_call g) w i"
  using assms(1)
proof (cases rule: settlePrompt_result)
  case (ran p v w1)
  then have "map_of (w_pending w) i = Some (Stored p)" using GetPending_value [of i w "Some p" w1] by auto
  with ran assms(2) show ?thesis unfolding prompt_ran_def prompts_def by blast
qed simp

subsection \<open>The binding match\<close>

lemma answered_none_pending:
  assumes "answered g m i w = (Inr (None, h), w')"
  shows "w_pending w' = w_pending w \<and> same_call g h"
proof -
  from assms obtain r v where r: "GetAnswer i (gd_now g) w = (Inr r, v)"
    and k: "(case r of
         None \<Rightarrow> ret (None, g)
       | Some a \<Rightarrow>
           if \<not> an_approved a then answered_denied g m i a
           else io_bind (checkPresence (gd_env g) a i (r_name (m_rule m)) (ca_session (gd_call g))) (\<lambda>c.
             if \<not> honoured c (approval (gd_env g)) then io_bind (refuse g m i a c) (\<lambda>g. ret (None, g))
             else answered_approved g m i a c)) v = (Inr (None, h), w')"
    by (auto simp: answered_def io_iff)
  have v: "w_pending v = w_pending w" using leavesD [OF leaves_GetAnswer r, of w_pending] by auto
  have consume: "w_pending z' = w_pending z" if "ConsumeAnswer j z = (x, z')" for j z x z'
    by (rule leavesD [OF leaves_ConsumeAnswer that]) auto
  have check: "w_pending z' = w_pending z" if "checkPresence e a j ru s z = (x, z')" for e a j ru s z x z'
    by (rule leavesD [OF leaves_checkPresence that]) auto
  have rec: "w_pending z' = w_pending z" if "record_decision g m st ap z = (x, z')" for st ap z x z'
    by (rule leavesD [OF leaves_record_decision that]) auto
  show ?thesis
  proof (cases r)
    case None
    with k v show ?thesis by (auto simp: io_iff)
  next
    case (Some a)
    show ?thesis
    proof (cases "an_approved a")
      case False
      with k Some v show ?thesis by (auto simp: answered_denied_def io_iff split: if_splits dest!: consume)
    next
      case True
      with k Some obtain c z where c: "checkPresence (gd_env g) a i (r_name (m_rule m)) (ca_session (gd_call g)) v = (Inr c, z)"
        and k2: "(if \<not> honoured c (approval (gd_env g)) then io_bind (refuse g m i a c) (\<lambda>g. ret (None, g))
             else answered_approved g m i a c) z = (Inr (None, h), w')"
        by (auto simp: io_iff)
      have z: "w_pending z = w_pending w" using check [OF c] v by simp
      show ?thesis
      proof (cases "honoured c (approval (gd_env g))")
        case False
        with k2 z show ?thesis
          by (auto simp: refuse_def Let_def io_iff same_call_def dest!: consume rec)
      next
        case True
        with k2 z show ?thesis
          by (auto simp: answered_approved_def Let_def io_iff split: if_splits dest!: consume)
      qed
    qed
  qed
qed

lemma hold_not_through: "hold g m i w = (Inr (res, h), w') \<Longrightarrow> rs_verdict res \<noteq> VerdictNone"
  by (auto simp: hold_def deny_with_def io_iff split: if_splits)

lemma bind_through:
  assumes "bind_match g (Some m) w = (Inr (res, h), w')" "rs_verdict res = VerdictNone" "gd_now g = now_of (gd_env g)"
    and "q_kind (r_require (m_rule m)) \<noteq> RequireAllow"
  shows "q_kind (r_require (m_rule m)) \<noteq> RequireDeny \<and>
    ((\<exists>a. approved_by (gd_env g) w (match_id g m) (r_name (m_rule m)) (ca_session (gd_call g)) a) \<or>
     (\<not> TeamRouted (m_rule m) \<and> prompt_ran (gd_env g) (gd_call g) w (match_id g m)))"
proof -
  let ?i = "match_id g m"
  have nd: "q_kind (r_require (m_rule m)) \<noteq> RequireDeny"
    using assms(1,2,4) by (auto simp: bind_match_def deny_with_def io_iff split: if_splits)
  with assms(1,4) obtain r g1 w1 where a: "answered g m ?i w = (Inr (r, g1), w1)"
    and k: "(case r of Some res \<Rightarrow> ret (res, g1)
             | None \<Rightarrow> io_bind (if prompts g1 m then settlePrompt g1 m ?i else ret (False, g1)) (\<lambda>(settled, g).
                     if settled then ret (let_through, g) else hold g m ?i)) w1 = (Inr (res, h), w')"
    by (auto simp: bind_match_def Let_def io_iff split: prod.splits)
  show ?thesis
  proof (cases r)
    case (Some x)
    with k have "x = res" by (simp add: io_iff)
    with answered_through [of g m ?i w res g1 w1] a Some assms(2,3) nd show ?thesis by blast
  next
    case None
    with a answered_none_pending have p: "w_pending w1 = w_pending w" "same_call g g1" by blast+
    from k None obtain settled g2 w2 where
      s: "(if prompts g1 m then settlePrompt g1 m ?i else ret (False, g1)) w1 = (Inr (settled, g2), w2)"
      and k2: "(if settled then ret (let_through, g2) else hold g2 m ?i) w2 = (Inr (res, h), w')"
      by (auto simp: io_iff split: prod.splits)
    have "settled" using k2 hold_not_through assms(2) by (auto split: if_splits)
    with s have "prompts g1 m" "settlePrompt g1 m ?i w1 = (Inr (True, g2), w2)" by (auto simp: io_iff split: if_splits)
    from settlePrompt_ran [OF this(2,1)] p \<open>prompts g1 m\<close> nd show ?thesis
      by (auto simp: prompt_ran_def same_call_def prompts_def)
  qed
qed

subsection \<open>Lifted rules\<close>

text \<open>A grant the key in the key store's file signed.\<close>

definition granted :: "env \<Rightarrow> world \<Rightarrow> extra \<Rightarrow> bool" where
  "granted e w x \<longleftrightarrow>
     (\<exists>b t. ks_public (w_keys w) = Some b \<and> tr_key t = file_key (env_point_ok e) (take maxFile b) \<and>
        vresult_OK (VerifyGrant (env_ecdsa e) (ex_grant x) (grantExpect x (now_of e)) t))"

definition counts :: "env \<Rightarrow> world \<Rightarrow> extra \<Rightarrow> bool" where
  "counts e w x \<longleftrightarrow>
     (\<exists>es. w_extras w = Some (Stored es) \<and> x \<in> set es) \<and> (mode_Enforced (approval e) \<longrightarrow> granted e w x)"

text \<open>The allowance is on disk, in force, covers the rule, and is signed where that is asked for.\<close>

definition lifts :: "env \<Rightarrow> world \<Rightarrow> extra \<Rightarrow> string \<Rightarrow> bool" where
  "lifts e w x rule \<longleftrightarrow> counts e w x \<and> Covers x rule (now_of e)"

lemma ActiveExtras_value:
  assumes "ActiveExtras now w = (Inr xs, w')" "x \<in> set xs"
  shows "\<exists>es. w_extras w = Some (Stored es) \<and> x \<in> set es"
proof -
  from assms obtain r where r: "Extras_read w = (r, w')" "xs = (case r of Inl _ \<Rightarrow> [] | Inr es \<Rightarrow> filter (\<lambda>e. Active e now) es)"
    by (auto simp: ActiveExtras_def io_iff)
  with assms(2) obtain es where "Extras_read w = (Inr es, w')" "x \<in> set es" by (cases r) auto
  then show ?thesis by (auto simp: Extras_read_def io_iff dest!: reach_state)
qed

lemma checkExtra_granted:
  assumes "env_trust e w = (Inr t, v)" "vresult_OK (checkExtra e x (Inr t) (now_of e))"
  shows "granted e w x"
proof -
  have "t = not_enrolled \<Longrightarrow> \<not> vresult_OK (checkExtra e x (Inr t) (now_of e))"
    by (simp add: checkExtra_def VerifyGrant_def not_enrolled_def vresult_OK_def)
  with assms Trust_key obtain b p where "ks_public (w_keys w) = Some b"
      "t = trustOf (file_key (env_point_ok e) (take maxFile b)) p (UTC (now_of e))"
    unfolding env_trust_def by blast
  with assms(2) show ?thesis unfolding granted_def checkExtra_def by (metis sum.case(2) tr_key_trustOf)
qed

lemma honouredExtras_counts:
  assumes "honouredExtras e (now_of e) w = (Inr xs, w')" "x \<in> set xs"
  shows "counts e w x"
proof -
  from assms(1) obtain active v where act: "ActiveExtras (now_of e) w = (Inr active, v)"
    and k: "(if active = [] \<or> \<not> mode_Enforced (approval e) then ret active
       else io_bind (attempt (env_trust e)) (\<lambda>t. ret (filter (\<lambda>x. vresult_OK (checkExtra e x t (now_of e))) active))) v = (Inr xs, w')"
    by (auto simp: honouredExtras_def io_iff)
  have pub: "ks_public (w_keys v) = ks_public (w_keys w)"
    using leavesD [OF leaves_ActiveExtras act, of "\<lambda>w. ks_public (w_keys w)"] by auto
  show ?thesis
  proof (cases "mode_Enforced (approval e)")
    case False
    with k have "xs = active" by (simp add: io_iff)
    with ActiveExtras_value [OF act] assms(2) False show ?thesis by (auto simp: counts_def)
  next
    case True
    have "active \<noteq> []" using k assms(2) by (auto simp: io_iff)
    with k True obtain t where t: "env_trust e v = (t, w')" "xs = filter (\<lambda>x. vresult_OK (checkExtra e x t (now_of e))) active"
      by (auto simp: io_iff)
    then have x: "x \<in> set active" "vresult_OK (checkExtra e x t (now_of e))" using assms(2) by auto
    then obtain tr where tr: "t = Inr tr" by (cases t) (auto simp: checkExtra_def vresult_OK_def)
    have "granted e v x" using checkExtra_granted t(1) x(2) unfolding tr by blast
    then have "granted e w x" by (simp add: granted_def pub)
    with ActiveExtras_value [OF act x(1)] show ?thesis by (simp add: counts_def)
  qed
qed

lemma liftExtras_binding:
  assumes "liftExtras (Evaluate rs a f) rs a f e w = (Inr (b, lifted), w')"
  shows "\<exists>xs. (\<forall>x\<in>set xs. counts e w x) \<and>
    b = v_binding (Evaluate (filter (\<lambda>r. liftedBy xs (r_name r) (now_of e) = None) rs) a f)"
proof (cases "v_binding (Evaluate rs a f) = None")
  case True
  with assms have "b = None" by (simp add: liftExtras_def io_iff)
  with True show ?thesis by (intro exI [of _ "[]"]) (simp add: liftedBy_def)
next
  case False
  with assms obtain xs where xs: "\<exists>v. honouredExtras e (now_of e) w = (Inr xs, v)"
    and b: "b = v_binding (Evaluate rs a f) \<or>
      b = v_binding (Evaluate (filter (\<lambda>r. liftedBy xs (r_name r) (now_of e) = None) rs) a f)"
    by (auto simp: liftExtras_def Let_def io_iff split: if_splits)
  from b show ?thesis
  proof
    assume "b = v_binding (Evaluate rs a f)"
    then show ?thesis by (intro exI [of _ "[]"]) (simp add: liftedBy_def)
  next
    assume "b = v_binding (Evaluate (filter (\<lambda>r. liftedBy xs (r_name r) (now_of e) = None) rs) a f)"
    with xs honouredExtras_counts show ?thesis by blast
  qed
qed

lemma not_lifted:
  assumes "\<forall>x\<in>set xs. counts e w x" "\<And>x. \<not> lifts e w x rule"
  shows "liftedBy xs rule (now_of e) = None"
  using assms by (auto simp: liftedBy_def find_None_iff lifts_def)

subsection \<open>The pause point as a whole\<close>

text \<open>A binding match that lets the call through: none, one that allows, or one answered.\<close>

definition passes :: "env \<Rightarrow> call \<Rightarrow> world \<Rightarrow> rule \<Rightarrow> bool" where
  "passes e c w q \<longleftrightarrow>
     q_kind (r_require q) \<noteq> RequireDeny \<and>
     ((\<exists>a. approved_by e w (DecisionID (r_name q) (ca_session c)) (r_name q) (ca_session c) a) \<or>
      (\<not> TeamRouted q \<and> prompt_ran e c w (DecisionID (r_name q) (ca_session c))))"

lemma Guard_steps:
  fixes rules c
  defines "rs \<equiv> forAction rules (ca_action c)"
  assumes "Guard rules c e w = (Inr res, w')" "readFacts rs c e w = (Inr (f, ev), v)"
    and "\<not> (rs = [] \<or> v_matches (Evaluate rs (ca_action c) f) = [])"
  shows "\<exists>b lifted v1 g v2 g1 v3 g2 v4 g3 v5.
    liftExtras (Evaluate rs (ca_action c) f) rs (ca_action c) f e v = (Inr (b, lifted), v1) \<and>
    load c e ev v1 = (Inr g, v2) \<and> fold_io recordLifted g lifted v2 = (Inr g1, v3) \<and>
    fold_io recordShadow g1 (v_matches (Evaluate rs (ca_action c) f)) v3 = (Inr g2, v4) \<and>
    bind_match g2 b v4 = (Inr (res, g3), v5) \<and>
    io_then (AddMatches (ca_session c) (map (\<lambda>m. r_name (m_rule m)) (v_matches (Evaluate rs (ca_action c) f))) (gd_now g3))
      (io_then (save g3) (ret res)) v5 = (Inr res, w')"
proof -
  let ?v = "Evaluate rs (ca_action c) f"
  have "io_bind (liftExtras ?v rs (ca_action c) f e) (\<lambda>(b, lifted).
      io_bind (load c e ev) (\<lambda>g. io_bind (fold_io recordLifted g lifted) (\<lambda>g.
      io_bind (fold_io recordShadow g (v_matches ?v)) (\<lambda>g. io_bind (bind_match g b) (\<lambda>(res, g).
      io_then (AddMatches (ca_session c) (map (\<lambda>m. r_name (m_rule m)) (v_matches ?v)) (gd_now g))
        (io_then (save g) (ret res))))))) v = (Inr res, w')"
    using assms(2,4) by (simp add: Guard_def Let_def rs_def [symmetric] io_bind_def [of "readFacts rs c e"] assms(3))
  then show ?thesis
    by (clarsimp simp: bind_Inr_iff then_Inr_iff ret_iff split: prod.splits)
qed

text \<open>The binding match of the rules that no allowance lifts decides the call.\<close>

lemma Guard_binding:
  fixes rules c
  defines "rs \<equiv> forAction rules (ca_action c)"
  assumes "Guard rules c e w = (Inr res, w')" "readFacts rs c e w = (Inr (f, ev), v)"
  obtains (unbound) xs where "\<forall>x\<in>set xs. counts e w x" "rs_verdict res = VerdictNone"
      "v_binding (Evaluate (filter (\<lambda>r. liftedBy xs (r_name r) (now_of e) = None) rs) (ca_action c) f) = None"
    | (bound) xs m g z h z' where "\<forall>x\<in>set xs. counts e w x"
      "v_binding (Evaluate (filter (\<lambda>r. liftedBy xs (r_name r) (now_of e) = None) rs) (ca_action c) f) = Some m"
      "bind_match g (Some m) z = (Inr (res, h), z')" "gd_call g = c" "gd_env g = e" "gd_now g = now_of e"
      "ks_public (w_keys z) = ks_public (w_keys w)" "w_pending z = w_pending w" "w_answers z = w_answers w"
      "readable z = readable w" "w_answers w' = w_answers z'"
proof (cases "rs = [] \<or> v_matches (Evaluate rs (ca_action c) f) = []")
  case True
  then have "v_binding (Evaluate rs (ca_action c) f) = None" by (auto simp: Evaluate_spec binding_matches_def)
  moreover have "rs_verdict res = VerdictNone"
    using assms(2,3) True by (auto simp: Guard_def Let_def rs_def io_iff let_through_def io_bind_def split: if_splits)
  ultimately show ?thesis by (intro unbound [of "[]"]) (simp_all add: liftedBy_def)
next
  case False
  with Guard_steps [of rules c e w res w' f ev v] assms(2,3) obtain b lifted v1 g v2 g1 v3 g2 v4 g3 v5 where
    l: "liftExtras (Evaluate rs (ca_action c) f) rs (ca_action c) f e v = (Inr (b, lifted), v1)"
    and ld: "load c e ev v1 = (Inr g, v2)"
    and r1: "fold_io recordLifted g lifted v2 = (Inr g1, v3)"
    and r2: "fold_io recordShadow g1 (v_matches (Evaluate rs (ca_action c) f)) v3 = (Inr g2, v4)"
    and bd: "bind_match g2 b v4 = (Inr (res, g3), v5)"
    and en: "io_then (AddMatches (ca_session c) (map (\<lambda>m. r_name (m_rule m)) (v_matches (Evaluate rs (ca_action c) f))) (gd_now g3))
      (io_then (save g3) (ret res)) v5 = (Inr res, w')"
    unfolding rs_def by metis
  have g2: "gd_call g2 = c" "gd_env g2 = e" "gd_now g2 = now_of e"
    using load_same [OF ld] fold_io_same [OF recordLifted_same r1] fold_io_same [OF recordShadow_same r2]
    by (auto simp: same_call_def)
  have frame: "h v4 = h w" if h: "contents h" "\<And>g w. h (w_log_update g w) = h w" "\<And>g w. h (w_calls_update g w) = h w"
      "\<And>g w. h (w_calls_dir_update g w) = h w" "\<And>g w. h (w_calls_stamp_update g w) = h w"
      and lift: "leaves h (liftExtras (Evaluate rs (ca_action c) f) rs (ca_action c) f e)" for h :: "world \<Rightarrow> 'z"
    using leavesD [OF leaves_readFacts [OF h(1,3-5)] assms(3)] leavesD [OF lift l] leavesD [OF leaves_load [OF h(1)] ld]
      leavesD [OF leaves_fold_io [OF leaves_recordLifted [OF h(1,2)]] r1] leavesD [OF leaves_fold_io [OF leaves_recordShadow [OF h(1,2)]] r2]
    by simp
  have v4: "ks_public (w_keys v4) = ks_public (w_keys w)" "w_pending v4 = w_pending w" "w_answers v4 = w_answers w"
      "readable v4 = readable w"
    by (rule frame; auto intro: liftExtras_public leaves_liftExtras)+
  have "leaves w_answers (io_then (AddMatches i rs t) (io_then (save g) (ret r)))" for i rs t g and r :: pause_result
    unfolding save_def by (intro leaves_intros; simp)
  from leavesD [OF this en] have en: "w_answers w' = w_answers v5" .
  have vw: "w_extras v = w_extras w" "ks_public (w_keys v) = ks_public (w_keys w)"
    using leavesD [OF leaves_readFacts assms(3), of w_extras] leavesD [OF leaves_readFacts assms(3), of "\<lambda>w. ks_public (w_keys w)"] by auto
  have counts: "counts e v x = counts e w x" for x by (simp add: counts_def granted_def vw)
  from liftExtras_binding [OF l] obtain xs where xs: "\<forall>x\<in>set xs. counts e w x"
    "b = v_binding (Evaluate (filter (\<lambda>r. liftedBy xs (r_name r) (now_of e) = None) rs) (ca_action c) f)"
    unfolding counts by blast
  show ?thesis
  proof (cases b)
    case None
    with bd have "rs_verdict res = VerdictNone" by (auto simp: bind_match_def io_iff let_through_def)
    with xs None show ?thesis by (intro unbound) auto
  next
    case (Some m)
    with xs bd g2 v4 en show ?thesis by (intro bound [of xs m g2 v4 g3 v5]) auto
  qed
qed

lemma not_lifted_mem:
  assumes "r \<in> set rules" "Rule_Match r a f \<noteq> None" "\<forall>x\<in>set xs. counts e w x" "\<And>x. \<not> lifts e w x (r_name r)"
  shows "r \<in> set (filter (\<lambda>r. liftedBy xs (r_name r) (now_of e) = None) (forAction rules a))"
  using assms not_lifted [OF assms(3,4)] Rule_Match_iff by (auto simp: forAction_def)

text \<open>What binds is at least as strict as any rule that applies and is not lifted.\<close>

lemma binding_at_least:
  assumes "r \<in> set rs" "Enforced r" "Rule_Match r a f \<noteq> None" "v_binding (Evaluate rs a f) = Some m"
  shows "m_rule m \<in> set rs" "Enforced (m_rule m)" "Rule_Match (m_rule m) a f = Some m"
    "strictness (r_require r) \<le> strictness (r_require (m_rule m))"
proof -
  show "strictness (r_require r) \<le> strictness (r_require (m_rule m))" using binding_upper assms by metis
  have "m \<in> set (binding_matches rs a f)" using assms(4) binding_member by metis
  then obtain q where q: "q \<in> set rs" "Enforced q" "Rule_Match q a f = Some m"
    unfolding set_binding_matches by blast
  moreover have "m_rule m = q" using Rule_Match_rule q(3) by blast
  ultimately show "m_rule m \<in> set rs" "Enforced (m_rule m)" "Rule_Match (m_rule m) a f = Some m" by simp_all
qed

subsection \<open>What an approval does\<close>

text \<open>An approval that counts without a signature, by the mode and by what its file says of it.\<close>

definition counts_unsigned :: "env \<Rightarrow> answer \<Rightarrow> bool" where
  "counts_unsigned e a \<longleftrightarrow>
     approval e = ModeChannel \<or> an_method a = MethodTeam \<or> (an_method a = MethodPrompt \<and> approval e = ModePresence)"

lemma checkPresence_unsigned:
  assumes "counts_unsigned e a" "checkPresence e a i rule session w = (Inr c, w')"
  shows "honoured c (approval e)"
  using assms
  by (cases "approval e")
    (auto simp: counts_unsigned_def checkPresence_def honoured_def mode_Enforced_def mode_Strict_def no_check_def
      MethodPrompt_def MethodTeam_def presence_texts io_iff split: if_splits)

lemma ConsumeAnswer_found:
  "readable w \<Longrightarrow> valid_id i \<Longrightarrow> map_of (w_answers w) i = Some s \<Longrightarrow>
     \<exists>w'. ConsumeAnswer i w = (Inr True, w') \<and> w_answers w' = AList.delete i (w_answers w) \<and> readable w'"
  using readable_delete [of "tick w" i]
  by (simp add: ConsumeAnswer_def idPath_def runs readable_sound io_then_def [of "change _"] io_bind_def change_def)

lemma bind_approved:
  assumes "readable z" "gd_now g = now_of (gd_env g)" "map_of (w_answers z) (match_id g m) = Some (Stored a)"
    and "an_approved a" "Sub (now_of (gd_env g)) (an_at a) \<le> answerTTL" "counts_unsigned (gd_env g) a"
    and "q_kind (r_require (m_rule m)) \<noteq> RequireAllow" "q_kind (r_require (m_rule m)) \<noteq> RequireDeny"
    and "bind_match g (Some m) z = (Inr (res, h), z')"
  shows "res = let_through \<and> (an_scope a = ScopeOnce \<longrightarrow> w_answers z' = AList.delete (match_id g m) (w_answers z))"
proof -
  let ?i = "match_id g m" and ?e = "gd_env g"
  have get: "GetAnswer ?i (gd_now g) z = (Inr (Some a), tick z)"
    using assms(1-5) by (simp add: GetAnswer_def getJSON_def idPath_def runs readable_sound decode_def io_bind_def)
  obtain c w1 where c: "checkPresence ?e a ?i (r_name (m_rule m)) (ca_session (gd_call g)) (tick z) = (Inr c, w1)" "readable w1"
    using yieldsD [OF steady_checkPresence, of "tick z"] assms(1) by fastforce
  have hon: "honoured c (approval ?e)" using checkPresence_unsigned [OF assms(6) c(1)] .
  have w1: "w_answers w1 = w_answers z" using leavesD [OF leaves_checkPresence c(1), of w_answers] by auto
  have ans: "answered g m ?i z = answered_approved g m ?i a c w1"
    using get c assms(4) hon by (simp add: answered_def io_bind_def)
  have "\<exists>g' w2. answered g m ?i z = (Inr (Some let_through, g'), w2) \<and>
      (an_scope a = ScopeOnce \<longrightarrow> w_answers w2 = AList.delete ?i (w_answers z))"
  proof (cases "an_scope a = ScopeOnce")
    case True
    from ConsumeAnswer_found [OF c(2), of ?i] assms(3) w1 obtain w2 where w2: "ConsumeAnswer ?i w1 = (Inr True, w2)"
      "w_answers w2 = AList.delete ?i (w_answers z)" "readable w2" by auto
    let ?k = "io_then (retireChallenge ?i (pc_spent c))
      (io_then (record_decision g m DecisionStageApplied (check_stamp c (answer_approval a))) (ret (Some let_through, g)))"
    have "steady ?k" by (intro yields_intros) simp
    then obtain r w3 where w3: "?k w2 = (Inr r, w3)" using w2(3) yieldsD by blast
    have "r = (Some let_through, g)" using w3 by (auto simp: then_Inr_iff ret_iff)
    moreover have "leaves w_answers ?k" by (intro leaves_intros; simp)
    ultimately show ?thesis
      using True ans w2 w3 leavesD [of w_answers ?k w2] by (auto simp: answered_approved_def Let_def io_bind_def)
  next
    case False
    have "steady (recordOnce g m DecisionStageApplied (check_stamp c (answer_approval a)))" by (intro yields_intros)
    then obtain g' w3 where "recordOnce g m DecisionStageApplied (check_stamp c (answer_approval a)) w1 = (Inr g', w3)"
      using c(2) yieldsD by blast
    with False ans show ?thesis by (auto simp: answered_approved_def Let_def io_bind_def)
  qed
  then obtain g' w2 where "answered g m ?i z = (Inr (Some let_through, g'), w2)"
      "an_scope a = ScopeOnce \<longrightarrow> w_answers w2 = AList.delete ?i (w_answers z)" by blast
  with assms(7-9) show ?thesis by (auto simp: bind_match_def Let_def io_bind_def)
qed

lemma Guard_approved:
  assumes "readable w" "readFacts (forAction rules (ca_action c)) c e w = (Inr (f, ev), v)"
    and "finite_crossings (forAction rules (ca_action c)) (ca_action c) f"
    and "v_binding (Evaluate (forAction rules (ca_action c)) (ca_action c) f) = Some m"
    and "q_kind (r_require (m_rule m)) \<noteq> RequireAllow" "q_kind (r_require (m_rule m)) \<noteq> RequireDeny"
    and "\<And>x r. r \<in> set rules \<Longrightarrow> \<not> lifts e w x (r_name r)"
    and "map_of (w_answers w) (DecisionID (r_name (m_rule m)) (ca_session c)) = Some (Stored a)"
    and "an_approved a" "Sub (now_of e) (an_at a) \<le> answerTTL" "counts_unsigned e a"
  shows "\<exists>w'. Guard rules c e w = (Inr let_through, w') \<and>
    (an_scope a = ScopeOnce \<longrightarrow> map_of (w_answers w') (DecisionID (r_name (m_rule m)) (ca_session c)) = None)"
proof -
  from Guard_answers [OF assms(1-3)] obtain res w' where g: "Guard rules c e w = (Inr res, w')" by blast
  have all: "filter (\<lambda>r. liftedBy xs (r_name r) (now_of e) = None) (forAction rules (ca_action c)) = forAction rules (ca_action c)"
    if "\<forall>x\<in>set xs. counts e w x" for xs
    using not_lifted [OF that] assms(7) by (subst filter_id_conv) (auto simp: forAction_def)
  from g assms(2) show ?thesis
  proof (cases rule: Guard_binding)
    case (unbound xs)
    with all assms(4) show ?thesis by simp
  next
    case (bound xs m' g z h z')
    with all assms(4) have "m' = m" by simp
    with bound bind_approved [of z g m a res h z'] assms have
      "res = let_through \<and> (an_scope a = ScopeOnce \<longrightarrow> w_answers z' = AList.delete (match_id g m) (w_answers z))"
      by (simp add: match_id_def)
    with g bound show ?thesis by (auto simp: map_of_delete match_id_def)
  qed
qed

subsection \<open>A session over its cap\<close>

text \<open>A session whose running cost is over its boundary's five dollars, for the examples.\<close>

definition sample_env :: env where
  "sample_env =
     \<lparr>env_now = \<lparr>t_ns = 5000 * second, t_off = 0\<rparr>, env_offset = 0, env_set_user = ''ada'', env_local_user = ''ada'',
      env_attended = False, env_mode = None, env_costs = (\<lambda>_. Some (Fin 10)), env_limits = None,
      env_transcripts = \<lparr>tx_lines = (\<lambda>_. None), tx_entry = (\<lambda>_. None)\<rparr>, env_point_ok = (\<lambda>_. True),
      env_ecdsa = (\<lambda>_ _ _. True)\<rparr>"

definition sample_call :: call where
  "sample_call =
     \<lparr>ca_harness = ''claude-code'', ca_session = ''s1'', ca_transcript = [], ca_tool_use = ''t1'', ca_agent = ''claude-code:web'',
      ca_workflow = ''claude-code:web:s1'', ca_action = ActionContinue, ca_model = [], ca_provider = [], ca_biller = [],
      ca_destination = [], ca_tool_name = [], ca_args_hash = [], ca_folder = [], ca_spends = []\<rparr>"

definition capped :: "require \<Rightarrow> rule" where
  "capped q =
     \<lparr>r_name = ''cap'', r_action = ActionContinue, r_when = [(blank FieldSessionCost OpGT)\<lparr>c_number := Fin 5\<rparr>],
      r_require = q, r_stage = StageEnforce, r_source = SourceLocal\<rparr>"

definition over_cap :: "rule list \<Rightarrow> world \<Rightarrow> bool" where
  "over_cap rs w \<longleftrightarrow>
     (case fst (readFacts (forAction rs ActionContinue) sample_call sample_env w) of
        Inl _ \<Rightarrow> False
      | Inr (f, _) \<Rightarrow> rs \<noteq> [] \<and> Rule_Match (hd rs) ActionContinue f \<noteq> None)"

text \<open>The facts read for such a call, and what its rule makes of them.\<close>

definition over_facts :: facts where
  "over_facts = (first_facts [] sample_call sample_env)\<lparr>fa_session_cost := Known (Fin 10)\<rparr>"

definition over_match :: "require \<Rightarrow> rule_match" where
  "over_match q = the (Rule_Match (capped q) ActionContinue over_facts)"

lemma sample_reading:
  "\<exists>ev. readFacts (forAction [capped q] (ca_action sample_call)) sample_call sample_env w = (Inr (over_facts, ev), w)"
  by (simp add: readFacts_def forAction_def capped_def sample_call_def sample_env_def over_facts_def first_facts_def needs_def
      read_cost_def SessionCostUSD_def blank_def Let_def localNow_def local_time_def now_of_def)

lemma sample_rules_match:
  "list_all (\<lambda>q. Enforced (capped q) \<and> Rule_Match (capped q) ActionContinue over_facts \<noteq> None \<and>
       finite_crossings (forAction [capped q] ActionContinue) ActionContinue over_facts)
     [\<lparr>q_kind = RequireDeny, q_role = []\<rparr>, \<lparr>q_kind = RequireAsk, q_role = []\<rparr>]"
  by code_simp

definition deny_it :: require where "deny_it = \<lparr>q_kind = RequireDeny, q_role = []\<rparr>"
definition ask_it :: require where "ask_it = \<lparr>q_kind = RequireAsk, q_role = []\<rparr>"

text \<open>The operator's approval of the next step.\<close>

definition sample_answer :: answer where
  "sample_answer =
     \<lparr>an_id = DecisionID ''cap'' ''s1'', an_rule = ''cap'', an_session = ''s1'', an_approved = True, an_scope = ScopeOnce,
      an_approver = ''ada'', an_method = MethodCLI, an_at = \<lparr>t_ns = 4000 * second, t_off = 0\<rparr>, an_crossings = [], an_proof = None\<rparr>"

definition answered_world :: world where
  "answered_world = fresh_world\<lparr>w_answers := [(DecisionID ''cap'' ''s1'', Stored sample_answer)]\<rparr>"

lemma fresh_readable [simp]: "readable fresh_world" "readable answered_world"
  by (simp_all add: readable_def sound_disk_def fresh_world_def answered_world_def)

lemma nothing_lifted: "w_extras w = None \<Longrightarrow> \<not> lifts e w x rule"
  by (simp add: lifts_def counts_def)

lemma no_extras [simp]: "w_extras fresh_world = None" "w_extras answered_world = None"
  by (simp_all add: fresh_world_def answered_world_def)

lemma capped_simps [simp]: "r_require (capped q) = q" "r_name (capped q) = ''cap''" "Enforced (capped q)" "\<not> TeamRouted (capped q)"
  by (simp_all add: capped_def Enforced_def TeamRouted_def)

lemma sample_call_simps [simp]: "ca_action sample_call = ActionContinue" "ca_session sample_call = ''s1''"
  by (simp_all add: sample_call_def)

lemma capped_match [simp]: "Rule_Match (capped deny_it) ActionContinue over_facts \<noteq> None" "Rule_Match (capped ask_it) ActionContinue over_facts \<noteq> None"
  and capped_finite [simp]: "finite_crossings (forAction [capped deny_it] ActionContinue) ActionContinue over_facts"
    "finite_crossings (forAction [capped ask_it] ActionContinue) ActionContinue over_facts"
  using sample_rules_match by (simp_all add: deny_it_def ask_it_def)

lemma capped_binding:
  "q \<in> {deny_it, ask_it} \<Longrightarrow> v_binding (Evaluate (forAction [capped q] ActionContinue) ActionContinue over_facts) = Some (over_match q)"
proof -
  assume q: "q \<in> {deny_it, ask_it}"
  then have m: "Rule_Match (capped q) ActionContinue over_facts = Some (over_match q)" by (auto simp: over_match_def)
  have "forAction [capped q] ActionContinue = [capped q]" by (simp add: forAction_def capped_def)
  moreover have "v_binding (Evaluate [capped q] ActionContinue over_facts) \<noteq> None"
    using m by (simp add: binding_None_iff)
  moreover have "v_binding (Evaluate [capped q] ActionContinue over_facts) = Some b \<Longrightarrow> b = over_match q" for b
    using binding_member [of "[capped q]"] m by (auto simp: binding_matches_def)
  ultimately show ?thesis by auto
qed

lemma over_match_rule [simp]: "m_rule (over_match deny_it) = capped deny_it" "m_rule (over_match ask_it) = capped ask_it"
  using Rule_Match_rule by (fastforce simp: over_match_def)+

subsection \<open>Properties\<close>

lemma Guard_denies:
  assumes "Guard rules c e w = (Inr res, w')" "readFacts (forAction rules (ca_action c)) c e w = (Inr (f, ev), v)"
    and "r \<in> set rules" "Enforced r" "Rule_Match r (ca_action c) f \<noteq> None" "q_kind (r_require r) = RequireDeny"
    and "\<And>x. \<not> lifts e w x (r_name r)"
  shows "rs_verdict res = VerdictDeny"
  using assms(1,2)
proof (cases rule: Guard_binding)
  case (unbound xs)
  with not_lifted_mem [OF assms(3,5) unbound(1) assms(7)] assms(4,5) show ?thesis by (auto simp: binding_None_iff)
next
  case (bound xs m g z h z')
  note b = binding_at_least [OF not_lifted_mem [OF assms(3,5) bound(1) assms(7)] assms(4,5) bound(2)]
  have "q_kind (r_require (m_rule m)) = RequireDeny"
    using b(4) assms(6) by (cases "q_kind (r_require (m_rule m))") (auto simp: strictness_def split: if_splits)
  with bound(3) show ?thesis by (auto simp: bind_match_def Let_def deny_with_def io_iff)
qed



text \<open>The approval of the sample rule's decision, on file.\<close>

lemma sample_approved:
  "map_of (w_answers answered_world) (DecisionID (r_name (m_rule (over_match ask_it))) (ca_session sample_call)) = Some (Stored sample_answer)"
  "an_approved sample_answer" "Sub (now_of sample_env) (an_at sample_answer) \<le> answerTTL" "counts_unsigned sample_env sample_answer"
  by (simp_all add: answered_world_def fresh_world_def sample_answer_def counts_unsigned_def sample_env_def approval_def now_of_def)
    (code_simp)

lemma ask_it_kind [simp]: "q_kind ask_it = RequireAsk" "q_kind deny_it = RequireDeny"
  by (simp_all add: ask_it_def deny_it_def)

lemma sample_through:
  "\<exists>w'. Guard [capped ask_it] sample_call sample_env answered_world = (Inr let_through, w')"
proof -
  obtain ev where f: "readFacts (forAction [capped ask_it] (ca_action sample_call)) sample_call sample_env answered_world =
      (Inr (over_facts, ev), answered_world)" using sample_reading by blast
  from Guard_approved [OF _ f, of "over_match ask_it" sample_answer] sample_approved show ?thesis
    by (auto simp: capped_binding nothing_lifted)
qed





text \<open>
  C4: The pause point does not hang or fail on a working disk: with the pending decisions and answers on
  file being ones that decode, and every crossed figure a number JSON can hold, it always answers,
  whatever is in the session counters, the key store, the allowances, the figures and the call logs,
  and it leaves such a disk behind (\<open>Guard\<close>, \<open>load\<close>).
\<close>
theorem pause_point_answers:
  assumes "readable w" "readFacts (forAction rules (ca_action c)) c e w = (Inr (f, ev), v)"
    and "finite_crossings (forAction rules (ca_action c)) (ca_action c) f"
  shows "\<exists>res w'. Guard rules c e w = (Inr res, w') \<and> readable w'"
  by (rule Guard_answers [OF assms])

theorem pause_point_answers_witness:
  "\<exists>res w'. Guard [capped deny_it] sample_call sample_env fresh_world = (Inr res, w') \<and> readable w'"
proof -
  obtain ev where f: "readFacts (forAction [capped deny_it] (ca_action sample_call)) sample_call sample_env fresh_world =
      (Inr (over_facts, ev), fresh_world)" using sample_reading by blast
  from pause_point_answers [OF _ f] show ?thesis by simp
qed

subsection \<open>An answer that says it is the team's\<close>

text \<open>An answer file by nobody, for a rule of this machine, that names the team as its method.\<close>

definition forged_answer :: answer where
  "forged_answer = sample_answer\<lparr>an_method := MethodTeam, an_approver := ''nobody'', an_scope := ScopeSession\<rparr>"

definition forged_world :: world where
  "forged_world = fresh_world\<lparr>w_answers := [(DecisionID ''cap'' ''s1'', Stored forged_answer)]\<rparr>"

definition strict_env :: env where
  "strict_env = sample_env\<lparr>env_mode := Some ModeStrict\<rparr>"

lemma strict_reading:
  "\<exists>ev. readFacts (forAction [capped q] (ca_action sample_call)) sample_call strict_env w = (Inr (over_facts, ev), w)"
  by (simp add: readFacts_def forAction_def capped_def sample_call_def sample_env_def strict_env_def over_facts_def first_facts_def
      needs_def read_cost_def SessionCostUSD_def blank_def Let_def localNow_def local_time_def now_of_def)

text \<open>
  C37: Under the strictest mode, on a machine with no presence key at all, an unsigned answer file
  that names the team as its method lets a call through a rule of this machine, which the team
  plane never answers: the check takes the method from the file (\<open>checkPresence\<close>, \<open>Guard\<close>).
\<close>
theorem team_answer_unproved:
  "\<exists>w'. Guard [capped ask_it] sample_call strict_env forged_world = (Inr let_through, w') \<and>
     approval strict_env = ModeStrict \<and> an_proof forged_answer = None \<and> \<not> TeamRouted (capped ask_it)"
proof -
  obtain ev where f: "readFacts (forAction [capped ask_it] (ca_action sample_call)) sample_call strict_env forged_world =
      (Inr (over_facts, ev), forged_world)" using strict_reading by blast
  have w: "readable forged_world" "w_extras forged_world = None"
      "map_of (w_answers forged_world) (DecisionID ''cap'' ''s1'') = Some (Stored forged_answer)"
    by (simp_all add: forged_world_def fresh_world_def readable_def sound_disk_def)
  have a: "an_approved forged_answer" "Sub (now_of strict_env) (an_at forged_answer) \<le> answerTTL"
      "counts_unsigned strict_env forged_answer" "approval strict_env = ModeStrict" "an_proof forged_answer = None"
    using sample_approved(3)
    by (simp_all add: forged_answer_def sample_answer_def counts_unsigned_def strict_env_def approval_def now_of_def)
  from Guard_approved [OF w(1) f, of "over_match ask_it" forged_answer] w a show ?thesis
    by (auto simp: capped_binding nothing_lifted)
qed

subsection \<open>Several actions\<close>

text \<open>The first of the strictest results, with letting through for none.\<close>

definition result_rank :: "pause_result \<Rightarrow> nat" where
  "result_rank r = verdictRank (rs_verdict r)"

definition first_strictest :: "pause_result list \<Rightarrow> pause_result" where
  "first_strictest rs = hd (filter (\<lambda>r. list_all (\<lambda>x. result_rank x \<le> result_rank r) rs) rs)"

lemma first_strictest_Cons:
  "first_strictest (x # y # rs) = first_strictest ((if result_rank x < result_rank y then y else x) # rs)"
proof (cases "result_rank x < result_rank y")
  case True
  then have "list_all (\<lambda>z. result_rank z \<le> result_rank q) (x # y # rs) \<longleftrightarrow> list_all (\<lambda>z. result_rank z \<le> result_rank q) (y # rs)" for q
    by (auto simp: list_all_iff)
  with True show ?thesis by (simp add: first_strictest_def)
next
  case False
  then have "list_all (\<lambda>z. result_rank z \<le> result_rank q) (x # y # rs) \<longleftrightarrow> list_all (\<lambda>z. result_rank z \<le> result_rank q) (x # rs)" for q
    by (auto simp: list_all_iff)
  with False show ?thesis by (auto simp: first_strictest_def list_all_iff)
qed

lemma guard_actions_all:
  "guard_actions rules c e out as =
     io_bind (io_map (\<lambda>a. Guard rules (c\<lparr>ca_action := a\<rparr>) e) as) (\<lambda>rs. ret (first_strictest (out # rs)))"
proof (induction as arbitrary: out)
  case Nil
  show ?case by (rule ext) (simp add: first_strictest_def io_bind_def)
next
  case (Cons a as)
  show ?case
    by (rule ext) (auto simp: Cons io_bind_def first_strictest_Cons result_rank_def split: prod.splits sum.splits)
qed

text \<open>
  Checking several actions for one call is checking each in turn and taking the first of the
  strictest results: a refusal over a question, a question over nothing; if one of them fails the
  call fails (\<open>GuardActions\<close>).
\<close>
theorem strictest_action_wins:
  "GuardActions rules c e as =
     io_bind (io_map (\<lambda>a. Guard rules (c\<lparr>ca_action := a\<rparr>) e) as) (\<lambda>rs. ret (first_strictest (let_through # rs)))"
  unfolding GuardActions_def by (rule guard_actions_all)

end
