(* ===== verification/ExtraGrants.thy ===== *)
theory ExtraGrants
  imports Signing PausePoint
begin

text \<open>
  Granting an extra allowance (\<open>internal/capability/boundaries/extra.go\<close>): whose word it is, how long
  it may last, which boundaries it may lift, how it is signed while approvals must be, and how the
  grants in force are shown and ended. The lemmas carry a grant through to the pause point, where it
  lifts what it names.
\<close>

subsection \<open>Requests and views\<close>

definition MaxExtra :: duration where "MaxExtra = 24 * hour"

record extra_request =
  er_for :: duration
  er_until :: gotime
  er_rules :: "string list"
  er_why :: string
  er_method :: string
  er_signer :: "signer option"

record extra_view =
  xv_id :: string
  xv_rules :: "string list"
  xv_at :: gotime
  xv_until :: gotime
  xv_granter :: string
  xv_why :: string
  xv_presence :: string
  xv_key :: string
  xv_ignored :: string

definition extraView :: "extra \<Rightarrow> extra_view" where
  "extraView x =
     \<lparr>xv_id = ex_id x, xv_rules = ex_rules x, xv_at = ex_at x, xv_until = ex_until x, xv_granter = ex_granter x,
      xv_why = ex_why x, xv_presence = [], xv_key = [], xv_ignored = []\<rparr>"

definition view_Lifts :: "extra_view \<Rightarrow> bool" where
  "view_Lifts v \<longleftrightarrow> xv_presence v \<noteq> PresenceRefused"

definition bindWord :: "nat \<Rightarrow> string" where
  "bindWord n = (if n = 1 then ''it binds'' else ''they bind'')"

subsection \<open>How long, and which boundaries\<close>

definition extraUntil :: "env \<Rightarrow> extra_request \<Rightarrow> gotime \<Rightarrow> err + gotime" where
  "extraUntil e req now =
     (if 0 < er_for req \<and> \<not> IsZero (er_until req) then Inl (InputError ''give a duration or --until, not both'')
      else if \<not> 0 < er_for req \<and> IsZero (er_until req)
      then Inl (InputError ''say how long: a duration such as 30m, or --until 18:00'')
      else let until = (if 0 < er_for req then Add now (er_for req) else er_until req)
           in if \<not> After until now
              then Inl (InputError (clock_text (local_time e until) @ '' is not in the future''))
              else if MaxExtra < Sub until now
              then Inl (InputError (''an extra allowance lasts at most 24 hours; for longer, change the rule in config.yaml or demote it''))
              else Inr (UTC until))"

definition pausesOnHeadroom :: "rule \<Rightarrow> bool" where
  "pausesOnHeadroom r \<longleftrightarrow> list_ex (\<lambda>c. c_field c = FieldPlanLeft) (r_when r)"

fun named_rules :: "rule list \<Rightarrow> string list \<Rightarrow> string list \<Rightarrow> err + string list" where
  "named_rules rules out [] = Inr out"
| "named_rules rules out (n # ns) =
     (let name = trim_space n
      in case find (\<lambda>r. r_name r = name) rules of
           None \<Rightarrow> Inl (InputError (''no boundary is called '' @ quoted name @ ''; `tokenops boundaries status` lists them''))
         | Some r \<Rightarrow>
             if r_source r = SourceOrg
             then Inl (InputError (name @ '' is your organisation's rule: only the team plane lifts it''))
             else named_rules rules (if name \<in> set out then out else out @ [name]) ns)"

definition extraRules :: "rule list \<Rightarrow> string list \<Rightarrow> err + string list" where
  "extraRules rules given =
     (if given = [] then
        (let out = map r_name (filter (\<lambda>r. r_source r \<noteq> SourceOrg \<and> pausesOnHeadroom r \<and>
                     (r_action r = ActionContinue \<or> r_action r = ActionSpend)) rules)
         in if out = []
            then Inl (InputError (''no boundary pauses on plan headroom; name the one to lift with --rule '' @
                   ''(`tokenops boundaries status` lists them)''))
            else Inr out)
      else named_rules rules [] given)"

subsection \<open>The grant as an event\<close>

definition extra_payload :: "extra \<Rightarrow> decision_stage \<Rightarrow> gotime \<Rightarrow> decision_event" where
  "extra_payload x st t =
     (let rules = join '', '' (ex_rules x);
          keep = no_option\<lparr>ro_reason := ''keep '' @ rules @ '' binding''\<rparr>;
          lift = no_option\<lparr>ro_reason := ''lift '' @ rules @ '' until '' @ rfc3339 (ex_until x)\<rparr>
      in \<lparr>de_kind = ''boundary'', de_stage = st, de_alternatives = [keep, lift],
          de_selected = (if st = DecisionStageExpired then keep else lift), de_evidence = [],
          de_policy = BoundaryPolicyPrefix @ hd (ex_rules x), de_authority = ''operator'', de_confidence = Fin 1,
          de_rationale = ''extra allowance: '' @ ex_granter x @ '' granted '' @ rfc3339 (ex_at x) @ '' lifting '' @ rules @
            '' until '' @ rfc3339 (ex_until x) @
            (if ex_why x \<noteq> [] then ''; why: '' @ ex_why x else '''') @
            (case ex_grant x of None \<Rightarrow> ''''
             | Some g \<Rightarrow> ''; signed in person with presence key '' @ g_key g @
                 '' (Touch ID, a paired Apple Watch or the login password); if you did not approve that dialog, '' @
                 ''end it with `tokenops boundaries extra --end`'') @
            (if st = DecisionStageExpired then ''; ended early at '' @ rfc3339 t else ''''),
          de_executable = True, de_adapter = ex_method x, de_actor = no_actor\<lparr>da_user := ex_granter x\<rparr>,
          de_approval = extraApproval x (ex_method x) rules\<rparr>)"

definition extraEnvelope :: "extra \<Rightarrow> decision_stage \<Rightarrow> gotime \<Rightarrow> (world, envelope) io" where
  "extraEnvelope x st t = io_bind draw (\<lambda>uuid. ret (boundary_event uuid t [] (ex_id x) (extra_payload x st t)))"

subsection \<open>Granting\<close>

definition extraUnavailable :: "env \<Rightarrow> string \<Rightarrow> err" where
  "extraUnavailable e s =
     Unavailable (''boundary_approval is '' @ mode_text (approval e) @ '', so an extra allowance must be signed with this Mac's '' @
       ''presence key, and it cannot be: '' @ s @ ''; nothing was granted'')"

definition grantTrust :: "env \<Rightarrow> signer option \<Rightarrow> (world, trust \<times> signer) io" where
  "grantTrust e s =
     (case s of
        None \<Rightarrow> fail (extraUnavailable e ''the presence helper is not installed on this machine'')
      | Some s \<Rightarrow>
          io_bind (attempt (signingTrust e)) (\<lambda>r.
            case r of Inl x \<Rightarrow> fail (extraUnavailable e (err_text x)) | Inr t \<Rightarrow> ret (t, s)))"

definition weekday_short :: "nat \<Rightarrow> string" where
  "weekday_short d = [''Sun'', ''Mon'', ''Tue'', ''Wed'', ''Thu'', ''Fri'', ''Sat''] ! (d mod 7)"

definition extraDialog :: "env \<Rightarrow> extra \<Rightarrow> string" where
  "extraDialog e x =
     (let u = local_time e (ex_until x)
      in ''grant a TokenOps extra allowance lifting '' @ join '', '' (ex_rules x) @ '' until '' @ weekday_short (weekday u) @ '' '' @
         clock_text u @ (if ex_why x \<noteq> [] then '' ('' @ ex_why x @ '')'' else ''''))"

definition unsigned_grant :: "trust \<Rightarrow> extra \<Rightarrow> grant_stmt" where
  "unsigned_grant t x =
     \<lparr>g_v = Version, g_key = k_id (tr_key t), g_id = ex_id x, g_rules = ex_rules x, g_granter = ex_granter x, g_why = ex_why x,
      g_at = ex_at x, g_until = ex_until x, g_sig = []\<rparr>"

definition whole_seconds :: "extra \<Rightarrow> extra" where
  "whole_seconds x = x\<lparr>ex_at := truncate_second (UTC (ex_at x)), ex_until := truncate_second (UTC (ex_until x))\<rparr>"

definition signExtra :: "env \<Rightarrow> signer \<Rightarrow> trust \<Rightarrow> extra \<Rightarrow> (world, extra) io" where
  "signExtra e s t x =
     (let x = whole_seconds x; g = unsigned_grant t x
      in case Grant_Message g of
           Inl m \<Rightarrow> fail (Failed (malformed_text m))
         | Inr msg \<Rightarrow>
             io_bind (sign_with s ks_blob msg (DialogText (extraDialog e x))) (\<lambda>r.
               case r of
                 Inl y \<Rightarrow> fail (if sign_unavailable y then extraUnavailable e (sign_error_text y)
                                 else Failed (sign_error_text y @ '': nothing was granted''))
               | Inr sg \<Rightarrow>
                   let g = g\<lparr>g_sig := sg\<rparr>; res = VerifyGrant (env_ecdsa e) (Some g) (grantExpect x (now_of e)) t
                   in if vresult_OK res then ret (x\<lparr>ex_grant := Some g\<rparr>) else fail (bad_signature (vr_reason res))))"

text \<open>The id is a decision's, of a fresh random id.\<close>

definition new_extra :: "env \<Rightarrow> extra_request \<Rightarrow> string list \<Rightarrow> gotime \<Rightarrow> (world, extra) io" where
  "new_extra e req names until =
     io_bind draw (\<lambda>uuid.
       ret \<lparr>ex_id = DecisionID ''_extra'' uuid, ex_rules = names, ex_at = now_of e, ex_until = until, ex_granter = user_of e,
            ex_method = er_method req, ex_why = trim_space (er_why req), ex_ended = None, ex_grant = None\<rparr>)"

definition granted_view :: "env \<Rightarrow> extra \<Rightarrow> extra_view \<times> string" where
  "granted_view e x =
     (let note = join '', '' (ex_rules x) @ '' will not ask or refuse until '' @ clock_text (local_time e (ex_until x)) @ ''; then '' @
                 bindWord (length (ex_rules x)) @ '' again on its own. `tokenops boundaries extra --end` ends it sooner''
      in case ex_grant x of
           None \<Rightarrow> (extraView x, note)
         | Some g \<Rightarrow> ((extraView x)\<lparr>xv_presence := PresenceSigned, xv_key := g_key g\<rparr>,
                      note @ ''; signed with presence key '' @ g_key g @ '', and honoured only while that signature verifies''))"

definition of_sum :: "err + 'a \<Rightarrow> (world, 'a) io" where
  "of_sum r = (case r of Inl x \<Rightarrow> fail x | Inr v \<Rightarrow> ret v)"

definition GrantExtra :: "rule list \<Rightarrow> env \<Rightarrow> extra_request \<Rightarrow> (world, extra_view \<times> string) io" where
  "GrantExtra rules e req =
     (if er_method req \<noteq> MethodCLI
      then fail (InputError (''an extra allowance is the operator's word: run `tokenops boundaries extra` in your own terminal; '' @
             ''an agent cannot grant one''))
      else io_bind (if mode_Enforced (approval e) then io_bind (grantTrust e (er_signer req)) (\<lambda>ts. ret (Some ts)) else ret None) (\<lambda>k.
           io_bind (of_sum (extraUntil e req (now_of e))) (\<lambda>until.
           io_bind (of_sum (extraRules rules (er_rules req))) (\<lambda>names.
           io_bind (new_extra e req names until) (\<lambda>x.
           io_bind (case k of None \<Rightarrow> ret x | Some (t, s) \<Rightarrow> signExtra e s t x) (\<lambda>x.
           io_then (PutExtra x (now_of e))
           (io_bind (extraEnvelope x DecisionStageAccepted (now_of e)) (\<lambda>ev.
            io_then (Append (Some ev)) (ret (granted_view e x))))))))))"

subsection \<open>What is in force, and ending it\<close>

definition checked_view :: "env \<Rightarrow> err + trust \<Rightarrow> extra \<Rightarrow> extra_view" where
  "checked_view e t x =
     (let res = checkExtra e x t (now_of e); v = extraView x
      in if vresult_OK res then v\<lparr>xv_presence := PresenceSigned, xv_key := vr_key_id res\<rparr>
         else if mode_Enforced (approval e) then v\<lparr>xv_presence := PresenceRefused, xv_ignored := Phrase (vr_reason res)\<rparr>
         else v)"

text \<open>Where the store is not read the trust is Go's zero value, which no key is enrolled in.\<close>

definition extras_in_force :: "env \<Rightarrow> (world, extra_view list) io" where
  "extras_in_force e =
     io_bind (ActiveExtras (now_of e)) (\<lambda>active.
       if active = [] then ret []
       else io_bind (if mode_Enforced (approval e) \<or> list_ex (\<lambda>x. ex_grant x \<noteq> None) active
                     then attempt (env_trust e) else ret (Inr not_enrolled)) (\<lambda>t.
         ret (map (checked_view e t) active)))"

definition end_extras :: "env \<Rightarrow> (world, extra_view list) io" where
  "end_extras e =
     io_bind (EndExtras (now_of e)) (\<lambda>ended.
       io_map (\<lambda>x. io_bind (extraEnvelope x DecisionStageExpired (now_of e)) (\<lambda>ev.
         io_then (Append (Some ev)) (ret (extraView x)))) ended)"

subsection \<open>What a grant lifts\<close>

lemma extraUntil_bounds:
  "extraUntil e req now = Inr until \<Longrightarrow> t_ns now < t_ns until \<and> t_ns until \<le> t_ns now + MaxExtra"
  by (auto simp: extraUntil_def Let_def After_def Sub_def UTC_def MaxExtra_def split: if_splits)

text \<open>A rule of the configuration's own, by the first rule of its name.\<close>

definition own_rule :: "rule list \<Rightarrow> string \<Rightarrow> bool" where
  "own_rule rules n \<longleftrightarrow> (\<exists>r\<in>set rules. r_name r = n \<and> r_source r \<noteq> SourceOrg)"

lemma named_rules_Cons:
  assumes "named_rules rules out (n # ns) = Inr names"
  shows "own_rule rules (trim_space n) \<and>
    named_rules rules (if trim_space n \<in> set out then out else out @ [trim_space n]) ns = Inr names"
proof -
  let ?n = "trim_space n"
  obtain r where r: "find (\<lambda>r. r_name r = ?n) rules = Some r"
    using assms by (cases "find (\<lambda>r. r_name r = ?n) rules") (simp_all only: named_rules.simps Let_def option.case sum.distinct)
  have own: "r_source r \<noteq> SourceOrg"
    using assms r by (cases "r_source r = SourceOrg") (simp_all only: named_rules.simps Let_def option.case if_True if_False sum.distinct simp_thms)
  have "named_rules rules (if ?n \<in> set out then out else out @ [?n]) ns = Inr names"
    using assms r own by (simp only: named_rules.simps Let_def option.case if_False)
  with find_mem [OF r] own show ?thesis by (auto simp: own_rule_def)
qed

lemma named_rules_names:
  "named_rules rules out ns = Inr names \<Longrightarrow>
   set out \<subseteq> set names \<and> (\<forall>n\<in>set names - set out. own_rule rules n) \<and> (names = [] \<longrightarrow> ns = [])"
proof (induction ns arbitrary: out)
  case (Cons n ns)
  from named_rules_Cons [OF Cons.prems] Cons.IH show ?case by (fastforce split: if_splits)
qed simp

lemma extraRules_own: "extraRules rules ns = Inr names \<Longrightarrow> \<forall>n\<in>set names. own_rule rules n"
  using named_rules_names [of rules "[]" ns names] by (auto simp: extraRules_def own_rule_def Let_def split: if_splits)

lemma extraRules_some: "extraRules rules ns = Inr names \<Longrightarrow> names \<noteq> []"
  using named_rules_names [of rules "[]" ns names] by (auto simp: extraRules_def Let_def split: if_splits)

lemma PutExtra_stores:
  assumes "PutExtra x now w = (Inr u, w')" "\<not> forgotten now x"
  shows "\<exists>es. w_extras w' = Some (Stored es) \<and> x \<in> set es"
  using assms by (auto simp: PutExtra_def writeExtras_def io_iff Let_def dest!: reach_state)

lemma Grant_Message_sig: "Grant_Message (g\<lparr>g_sig := sg\<rparr>) = Grant_Message g"
  unfolding Grant_Message_def grant_fields_def by simp

lemma signExtra_granted:
  assumes "signExtra e s t x w = (Inr y, w')" "ks_public (w_keys w) = Some b"
    and "tr_key t = file_key (env_point_ok e) (take maxFile b)"
  shows "granted e w' y \<and> y = (whole_seconds x)\<lparr>ex_grant := ex_grant y\<rparr> \<and> (\<exists>msg g. ex_grant y = Some g \<and> Grant_Message g = Inr msg) \<and>
    w' = w"
proof -
  let ?x = "whole_seconds x"
  from assms(1) obtain msg where m: "Grant_Message (unsigned_grant t ?x) = Inr msg"
    by (cases "Grant_Message (unsigned_grant t ?x)") (auto simp: signExtra_def Let_def fail_iff)
  obtain sg where sg: "sg_sign s (ks_blob (w_keys w)) msg (DialogText (extraDialog e ?x)) = Inr sg"
    using assms(1) m by (cases "sg_sign s (ks_blob (w_keys w)) msg (DialogText (extraDialog e ?x))")
      (auto simp: signExtra_def Let_def io_iff sign_with_def fail_iff)
  let ?g = "(unsigned_grant t ?x)\<lparr>g_sig := sg\<rparr>"
  have y: "y = ?x\<lparr>ex_grant := Some ?g\<rparr>" "w' = w"
    and ok: "vresult_OK (VerifyGrant (env_ecdsa e) (Some ?g) (grantExpect ?x (now_of e)) t)"
    using assms(1) m sg by (auto simp: signExtra_def Let_def io_iff sign_with_def split: if_splits)
  have "Grant_Message ?g = Inr msg" using m by (simp only: Grant_Message_sig)
  moreover have "grantExpect y (now_of e) = grantExpect ?x (now_of e)" by (simp add: y grantExpect_def)
  ultimately show ?thesis using ok assms(2,3) y unfolding granted_def by auto
qed

text \<open>A case of an outcome that goes on only when there is a value.\<close>

lemma sum_fail_iff: "(case r of Inl x \<Rightarrow> fail (f x) | Inr v \<Rightarrow> g v) w = (Inr y, w') \<longleftrightarrow> (\<exists>v. r = Inr v \<and> g v w = (Inr y, w'))"
  by (cases r) simp_all

lemma leaves_HasBlob [leaves_intros]: "contents f \<Longrightarrow> leaves f HasBlob"
  unfolding HasBlob_def by (intro leaves_intros)

lemma signingTrust_key:
  assumes "signingTrust e w = (Inr t, w')"
  shows "\<exists>b. ks_public (w_keys w') = Some b \<and> tr_key t = file_key (env_point_ok e) (take maxFile b)"
proof -
  from assms obtain t' v where v: "env_trust e w = (Inr t', v)"
    and k: "(case tr_state t' of TrustNotEnrolled \<Rightarrow> fail (Unavailable (''no presence key is enrolled on this machine: enrol one with `'' @ EnrolCommand @ ''`''))
      | TrustHeld \<Rightarrow> fail (Unavailable (''approvals are held until '' @ clock_text (local_time e (p_hold_until (tr_pin t'))) @
          '': the presence key was replaced without the old key's signature''))
      | TrustPinned \<Rightarrow> io_bind HasBlob (\<lambda>b. if b then ret t'
          else fail (Unavailable (''the presence key is enrolled but its key blob is not on this machine: re-enrol with `'' @
            EnrolCommand @ '' --replace`'')))) v = (Inr t, w')"
    unfolding signingTrust_def by (auto simp: io_iff sum_fail_iff)
  have t: "t' = t" and n: "tr_state t \<noteq> TrustNotEnrolled" and "\<exists>b. HasBlob v = (Inr b, w')"
    using k by (cases "tr_state t'"; auto simp: io_iff split: if_splits)+
  then obtain b where r: "HasBlob v = (Inr b, w')" by blast
  have "ks_public (w_keys w') = ks_public (w_keys v)"
    using leavesD [OF leaves_HasBlob r, of "\<lambda>w. ks_public (w_keys w)"] by (simp add: contents_def)
  moreover have "ks_public (w_keys v) = ks_public (w_keys w)"
    using leavesD [OF Trust_public] v unfolding env_trust_def by blast
  moreover obtain b q where "ks_public (w_keys w) = Some b" "t = trustOf (file_key (env_point_ok e) (take maxFile b)) q (UTC (now_of e))"
    using Trust_key [OF v [unfolded env_trust_def]] n t by (auto simp: not_enrolled_def)
  ultimately show ?thesis by (metis tr_key_trustOf)
qed

lemma grantTrust_key:
  assumes "grantTrust e s w = (Inr (t, s'), w')"
  shows "\<exists>b. ks_public (w_keys w') = Some b \<and> tr_key t = file_key (env_point_ok e) (take maxFile b)"
  using assms signingTrust_key [of e w t w'] by (auto simp: grantTrust_def io_iff sum_fail_iff split: option.splits)

lemma signExtra_lasts:
  assumes "signExtra e s t x w = (Inr y, w')" "t_ns (ex_at x) = t_ns (now_of e)"
  shows "t_ns (ex_at y) \<le> t_ns (now_of e) \<and> t_ns (now_of e) < t_ns (ex_until y) \<and> t_ns (ex_until y) \<le> t_ns (ex_until x)"
proof -
  let ?x = "whole_seconds x"
  from assms(1) obtain g where y: "y = ?x\<lparr>ex_grant := Some g\<rparr>" "g_until g = ex_until ?x"
    and ok: "vresult_OK (VerifyGrant (env_ecdsa e) (Some g) (grantExpect ?x (now_of e)) t)"
    unfolding signExtra_def Let_def sum_fail_iff bind_Inr_iff by (auto simp: io_iff unsigned_grant_def split: if_splits)
  have "Before (now_of e) (g_until g)" using ok
    by (auto simp: VerifyGrant_def vresult_OK_def grantExpect_def split: sum.splits if_splits)
  then show ?thesis using y assms(2)
    by (auto simp: whole_seconds_def Before_def truncate_second_def UTC_def)
qed

lemma leaves_PutExtra: "contents f \<Longrightarrow> (\<And>g w. f (w_extras_update g w) = f w) \<Longrightarrow> leaves f (PutExtra x now)"
  unfolding PutExtra_def writeExtras_def Let_def by (intro leaves_intros; simp)

lemma GrantExtra_steps:
  assumes "GrantExtra rules e req w = (Inr v, w')"
  obtains k until names x0 x u1 u2 u3 u4 where "er_method req = MethodCLI" "extraUntil e req (now_of e) = Inr until"
    "extraRules rules (er_rules req) = Inr names"
    "k = None \<longleftrightarrow> \<not> mode_Enforced (approval e)"
    "\<And>t s. k = Some (t, s) \<Longrightarrow> grantTrust e (er_signer req) w = (Inr (t, s), u1)"
    "new_extra e req names until u1 = (Inr x0, u2)"
    "(case k of None \<Rightarrow> ret x0 | Some (t, s) \<Rightarrow> signExtra e s t x0) u2 = (Inr x, u3)"
    "PutExtra x (now_of e) u3 = (Inr (), u4)" "w_extras w' = w_extras u4" "w_keys w' = w_keys u3"
    "v = granted_view e x"
proof -
  have m: "er_method req = MethodCLI" using assms by (auto simp: GrantExtra_def fail_iff split: if_splits)
  with assms obtain k u1 until u names uu x0 u2 x u3 u4 u5 ev where
    k: "(if mode_Enforced (approval e) then io_bind (grantTrust e (er_signer req)) (\<lambda>ts. ret (Some ts)) else ret None) w = (Inr k, u1)"
    and un: "of_sum (extraUntil e req (now_of e)) u1 = (Inr until, u)"
    and na: "of_sum (extraRules rules (er_rules req)) u = (Inr names, uu)"
    and x0: "new_extra e req names until uu = (Inr x0, u2)"
    and x: "(case k of None \<Rightarrow> ret x0 | Some (t, s) \<Rightarrow> signExtra e s t x0) u2 = (Inr x, u3)"
    and p: "PutExtra x (now_of e) u3 = (Inr (), u4)"
    and ev: "extraEnvelope x DecisionStageAccepted (now_of e) u4 = (Inr ev, u5)"
    and ap: "Append (Some ev) u5 = (Inr (), w')" and v: "v = granted_view e x"
    by (auto simp: GrantExtra_def bind_Inr_iff then_Inr_iff ret_iff)
  have u: "extraUntil e req (now_of e) = Inr until" "u = u1" "extraRules rules (er_rules req) = Inr names" "uu = u"
    using un na by (auto simp: of_sum_def io_iff split: sum.splits)
  have "leaves w_extras (extraEnvelope x DecisionStageAccepted (now_of e))" "leaves w_keys (extraEnvelope x DecisionStageAccepted (now_of e))"
    unfolding extraEnvelope_def by (intro leaves_intros; simp)+
  note this [THEN leavesD, of u4 "Inr ev" u5, OF ev]
  moreover have "w_extras w' = w_extras u5" by (rule leavesD [OF leaves_Append ap]) simp_all
  moreover have "w_keys w' = w_keys u5" by (rule leavesD [OF leaves_Append ap]) simp_all
  ultimately have a: "w_extras w' = w_extras u4" "w_keys w' = w_keys u4" by simp_all
  have "w_keys u4 = w_keys u3" by (rule leavesD [OF leaves_PutExtra p]) simp_all
  with a m u k x0 x p v show ?thesis
    by (intro that [of until names k u1 x0 u2 x u3 u4]) (auto simp: io_iff split: if_splits)
qed

definition in_time :: "env \<Rightarrow> extra \<Rightarrow> gotime \<Rightarrow> bool" where
  "in_time e x until \<longleftrightarrow> t_ns (ex_at x) \<le> t_ns (now_of e) \<and> t_ns (now_of e) < t_ns (ex_until x) \<and> t_ns (ex_until x) \<le> t_ns until"

text \<open>Signed or not, the grant stored is the one asked for, and it is in force at once.\<close>

lemma signed_or_not:
  assumes "(case k of None \<Rightarrow> ret x0 | Some (t, s) \<Rightarrow> signExtra e s t x0) u2 = (Inr x, u3)"
    and "\<And>t s. k = Some (t, s) \<Longrightarrow>
      \<exists>b. ks_public (w_keys u2) = Some b \<and> tr_key t = file_key (env_point_ok e) (take maxFile b)"
    and "ex_at x0 = now_of e" "t_ns (now_of e) < t_ns (ex_until x0)"
  shows "in_time e x (ex_until x0) \<and> ex_rules x = ex_rules x0 \<and> ex_ended x = ex_ended x0 \<and> ex_granter x = ex_granter x0 \<and>
    (k = None \<or> granted e u3 x)"
proof (cases k)
  case None
  with assms show ?thesis by (simp add: io_iff in_time_def)
next
  case (Some ts)
  then obtain t s where ts: "k = Some (t, s)" by (cases ts) auto
  with assms(1) have s: "signExtra e s t x0 u2 = (Inr x, u3)" by simp
  from assms(2) [OF ts] obtain b where b: "ks_public (w_keys u2) = Some b" "tr_key t = file_key (env_point_ok e) (take maxFile b)"
    by blast
  from signExtra_granted [OF s b] have g: "granted e u2 x" "x = (whole_seconds x0)\<lparr>ex_grant := ex_grant x\<rparr>" "u3 = u2" by auto
  have "ex_rules x = ex_rules x0 \<and> ex_ended x = ex_ended x0 \<and> ex_granter x = ex_granter x0"
    by (subst g(2), subst (2) g(2), subst (3) g(2)) (simp add: whole_seconds_def)
  with signExtra_lasts [OF s] assms(3) g(1,3) show ?thesis by (auto simp: in_time_def)
qed


text \<open>Half an hour of one boundary, granted at a terminal on a working disk.\<close>

definition half_hour :: extra_request where
  "half_hour =
     \<lparr>er_for = 30 * minute, er_until = zero_time, er_rules = [''cap''], er_why = [], er_method = MethodCLI, er_signer = None\<rparr>"

lemma readable_extras [simp]: "readable (w_extras_update f w) = readable w"
  by (simp add: readable_def)

lemma steady_PutExtra [yields_intros]: "steady (PutExtra x now)"
  unfolding PutExtra_def writeExtras_def Let_def by (intro yields_intros leaves_intros; simp)

lemma steady_new_extra [yields_intros]: "steady (new_extra e req names until)"
  unfolding new_extra_def by (intro yields_intros)

lemma steady_recorded_grant: "steady (io_bind (extraEnvelope x st t) (\<lambda>ev. io_then (Append (Some ev)) (ret v)))"
proof (rule yields_bind_value [where P = "\<lambda>ev. \<exists>d. ev_payload ev = PDecision d"])
  show "steady (extraEnvelope x st t)" unfolding extraEnvelope_def by (intro yields_intros)
qed (auto simp: extraEnvelope_def boundary_event_def io_iff intro!: steady_Append yields_then yields_ret)

lemma sample_grant: "\<exists>v w'. GrantExtra [capped ask_it] quiet_env half_hour fresh_world = (Inr v, w')"
proof -
  have u: "extraUntil quiet_env half_hour (now_of quiet_env) = Inr (Add (now_of quiet_env) (30 * minute))" by code_simp
  have n: "extraRules [capped ask_it] (er_rules half_hour) = Inr [''cap'']" by code_simp
  have "GrantExtra [capped ask_it] quiet_env half_hour =
      io_bind (new_extra quiet_env half_hour [''cap''] (Add (now_of quiet_env) (30 * minute))) (\<lambda>x.
        io_then (PutExtra x (now_of quiet_env))
        (io_bind (extraEnvelope x DecisionStageAccepted (now_of quiet_env)) (\<lambda>ev.
           io_then (Append (Some ev)) (ret (granted_view quiet_env x)))))"
    unfolding GrantExtra_def u n of_sum_def sum.case ret_bind by (simp add: half_hour_def approval_def mode_Enforced_def quiet_env_def)
  moreover have "steady \<dots>"
    by (intro yields_intros steady_recorded_grant)
  ultimately have "steady (GrantExtra [capped ask_it] quiet_env half_hour)" by simp
  from yieldsD [OF this, of fresh_world] show ?thesis by auto
qed


end
