(* ===== verification/Points.thy ===== *)
theory Points
  imports ExtraGrants
begin

text \<open>
  The decision points inside TokenOps (\<open>internal/capability/boundaries/points.go\<close>): the router, asked
  before a request moves to another model, and the senders, asked before figures leave the machine;
  with the plans a tool call starts (\<open>crossagent.go\<close>) and the budget rules a reading names
  (\<open>internal/config/budgetwindows.go\<close>). Both points let a request through when the check fails and record
  that it did.
\<close>

subsection \<open>The router and the senders\<close>

text \<open>Runs of characters outside \<open>[A-Za-z0-9._-]\<close> become one underscore.\<close>

definition scope_char :: "char \<Rightarrow> bool" where
  "scope_char c \<longleftrightarrow> is_lower c \<or> is_upper c \<or> is_digit c \<or> c \<in> {CHR ''.'', CHR ''_'', CHR ''-''}"

fun unsafeScope :: "bool \<Rightarrow> string \<Rightarrow> string" where
  "unsafeScope inside [] = []"
| "unsafeScope inside (c # s) =
     (if scope_char c then c # unsafeScope False s
      else if inside then unsafeScope True s else CHR ''_'' # unsafeScope True s)"

definition scope :: "string list \<Rightarrow> string" where
  "scope parts = join ''-'' (map (unsafeScope False) parts)"

definition no_call :: call where
  "no_call =
     \<lparr>ca_harness = [], ca_session = [], ca_transcript = [], ca_tool_use = [], ca_agent = [], ca_workflow = [],
      ca_action = ActionShare, ca_model = [], ca_provider = [], ca_biller = [], ca_destination = [], ca_tool_name = [],
      ca_args_hash = [], ca_folder = [], ca_spends = []\<rparr>"

definition route_call :: "string \<Rightarrow> string \<Rightarrow> string \<Rightarrow> string \<Rightarrow> string \<Rightarrow> call" where
  "route_call provider from_model to_model workflow agent =
     no_call\<lparr>ca_harness := PointRouter, ca_session := scope [''route'', provider, from_model, to_model], ca_action := ActionModelRoute,
       ca_model := to_model, ca_provider := provider, ca_agent := agent, ca_workflow := workflow\<rparr>"

definition RouteCheck ::
  "rule list \<Rightarrow> env \<Rightarrow> string \<Rightarrow> string \<Rightarrow> string \<Rightarrow> string \<Rightarrow> string \<Rightarrow> (world, bool \<times> string) io" where
  "RouteCheck rules e provider from_model to_model workflow agent =
     (let relevant = forAction rules ActionModelRoute
      in if relevant = [] then ret (False, [])
         else let c = route_call provider from_model to_model workflow agent
              in io_bind (attempt (Guard relevant c e)) (\<lambda>r.
                   case r of
                     Inl err \<Rightarrow> io_then (RecordFailure c e err) (ret (False, []))
                   | Inr res \<Rightarrow> ret (rs_verdict res \<noteq> VerdictNone, rs_reason res)))"

record share_refused =
  sr_destination :: string
  sr_decision :: string
  sr_reason :: string

definition share_call :: "string \<Rightarrow> call" where
  "share_call destination =
     no_call\<lparr>ca_harness := PointTokenOps, ca_session := scope [''share'', destination], ca_destination := destination,
       ca_agent := PointTokenOps\<rparr>"

definition CheckShare :: "rule list \<Rightarrow> string \<Rightarrow> env \<Rightarrow> (world, share_refused option) io" where
  "CheckShare rules destination e =
     (let relevant = forAction rules ActionShare
      in if relevant = [] then ret None
         else let c = share_call destination
              in io_bind (attempt (Guard relevant c e)) (\<lambda>r.
                   case r of
                     Inl err \<Rightarrow> io_then (RecordFailure c e err) (ret None)
                   | Inr res \<Rightarrow>
                       if rs_verdict res = VerdictNone then ret None
                       else ret (Some \<lparr>sr_destination = destination, sr_decision = rs_decision res, sr_reason = rs_reason res\<rparr>)))"

subsection \<open>Budgets a rule enforces\<close>

fun slug :: "bool \<Rightarrow> string \<Rightarrow> string \<Rightarrow> string" where
  "slug dash out [] = out"
| "slug dash out (c # s) =
     (if is_lower c \<or> is_digit c \<or> c = CHR ''_'' then slug False (out @ [c]) s
      else if \<not> dash \<and> out \<noteq> [] then slug True (out @ [CHR ''-'']) s
      else slug dash out s)"

definition trim_dashes :: "string \<Rightarrow> string" where
  "trim_dashes s = rev (dropWhile (\<lambda>c. c = CHR ''-'') (rev s))"

text \<open>
  The window's name is one the configuration allows, so there is room: a window longer than 55 bytes
  would make Go slice with a negative bound, which \<open>nat\<close> cuts at zero.
\<close>

definition BudgetRuleName :: "string \<Rightarrow> string \<Rightarrow> string" where
  "BudgetRuleName budget window =
     (let window = to_lower window;
          s = trim_dashes (slug False [] (to_lower budget));
          room = 64 - length ''budget-'' - length window - 1;
          s = (if room < length s then trim_dashes (take room s) else s)
      in if s = [] then ''budget-'' @ window else ''budget-'' @ s @ ''-'' @ window)"

definition ModeHard :: string where "ModeHard = ''hard''"

text \<open>The map by name keeps the last local rule of a name.\<close>

definition local_rule :: "rule list \<Rightarrow> string \<Rightarrow> rule option" where
  "local_rule rules n = find (\<lambda>r. r_source r = SourceLocal \<and> r_name r = n) (rev rules)"

definition with_rule :: "rule list \<Rightarrow> budget_reading \<Rightarrow> budget_reading" where
  "with_rule rules b =
     (if br_mode b = ModeHard then
        (case local_rule rules (BudgetRuleName (br_budget b) (br_window b)) of
           None \<Rightarrow> b
         | Some r \<Rightarrow> b\<lparr>br_rule := r_name r, br_enforced := Enforced r, br_require := Require_String (r_require r)\<rparr>)
      else b)"

definition WithBudgets :: "figures \<Rightarrow> budget_reading list \<Rightarrow> rule list \<Rightarrow> figures" where
  "WithBudgets fig readings rules = fig\<lparr>fi_budgets := map (with_rule rules) readings\<rparr>"

subsection \<open>Plans a command starts\<close>

definition agentCLIs :: "(string \<times> string) list" where
  "agentCLIs =
     [(''codex'', ''openai''), (''claude'', ''anthropic''), (''gemini'', ''gemini''), (''cursor-agent'', ''cursor''), (''copilot'', ''github'')]"

definition HarnessCodex :: string where "HarnessCodex = ''codex''"

definition harnessProvider :: "string \<Rightarrow> string" where
  "harnessProvider h = (if h = HarnessClaudeCode then ''anthropic'' else if h = HarnessCodex then ''openai'' else [])"

text \<open>\<open>&&\<close>, \<open>||\<close>, one of \<open>; | &\<close> and a newline, \<open>$(\<close>, or a backquote; the part so far is reversed.\<close>

fun split_commands :: "string \<Rightarrow> string \<Rightarrow> string list" where
  "split_commands part [] = [rev part]"
| "split_commands part (c # s) =
     (if c = CHR ''&'' \<and> has_prefix s ''&'' \<or> c = CHR ''|'' \<and> has_prefix s ''|'' \<or> c = CHR ''$'' \<and> has_prefix s ''(''
      then rev part # split_commands [] (tl s)
      else if c \<in> {CHR '';'', CHR ''|'', CHR ''&'', CHR 0x0A, CHR 0x60} then rev part # split_commands [] s
      else split_commands (c # part) s)"

definition launchers :: "string list" where
  "launchers = [''sudo'', ''env'', ''exec'', ''nohup'', ''time'', ''timeout'', ''npx'', ''bunx'', ''pnpx'', ''command'']"

definition trim_set :: "string \<Rightarrow> string \<Rightarrow> string" where
  "trim_set cs s = rev (dropWhile (\<lambda>c. c \<in> set cs) (rev (dropWhile (\<lambda>c. c \<in> set cs) s)))"

definition isDuration :: "string \<Rightarrow> bool" where
  "isDuration s \<longleftrightarrow> dropWhile (\<lambda>c. c \<in> set ''0123456789.smhd'') (rev s) = [] \<and> s \<noteq> []"

definition bare_word :: "string \<Rightarrow> string" where
  "bare_word s = trim_set (CHR 0x22 # CHR 0x27 # ''(){}'') s"

definition launcher_flag :: "string \<Rightarrow> string \<Rightarrow> bool" where
  "launcher_flag word f \<longleftrightarrow> has_prefix f ''-'' \<or> word = ''timeout'' \<and> isDuration f"

function command_word :: "string list \<Rightarrow> string" where
  "command_word [] = []"
| "command_word (f # fs) =
     (let word = bare_word f
      in if word = [] \<or> contains word ''='' \<and> \<not> has_prefix word ''-'' then command_word fs
         else if word \<in> set launchers then command_word (dropWhile (launcher_flag word) fs)
         else Base word)"
  by pat_completeness auto
termination
  by (relation "measure length") (auto simp: le_imp_less_Suc length_dropWhile_le)

definition commandWord :: "string \<Rightarrow> string" where
  "commandWord part = command_word (Fields part)"

definition add_plan :: "string \<Rightarrow> string list \<Rightarrow> string \<Rightarrow> string list" where
  "add_plan harness out part =
     (case map_of agentCLIs (commandWord part) of
        None \<Rightarrow> out
      | Some p \<Rightarrow> if p = harnessProvider harness \<or> p \<in> set out then out else out @ [p])"

definition PlansStartedBy :: "string \<Rightarrow> string \<Rightarrow> string list" where
  "PlansStartedBy command harness = foldl (add_plan harness) [] (split_commands [] command)"

subsection \<open>Refused and let through\<close>

lemma forAction_twice [simp]: "forAction (forAction rules a) a = forAction rules a"
  by (simp add: forAction_def)

lemma share_call_simps [simp]: "ca_action (share_call d) = ActionShare" "ca_destination (share_call d) = d"
  by (simp_all add: share_call_def no_call_def)

lemma route_call_simps [simp]: "ca_action (route_call p a b x y) = ActionModelRoute"
  by (simp add: route_call_def)

text \<open>The facts a sender's boundary is checked on.\<close>

abbreviation share_facts :: "rule list \<Rightarrow> string \<Rightarrow> env \<Rightarrow> (world, facts \<times> evidence_ref list) io" where
  "share_facts rules destination e \<equiv> readFacts (forAction rules ActionShare) (share_call destination) e"

text \<open>
  Figures a rule keeps stay on the machine. On a working disk, where an enforced rule that denies
  sharing holds for the destination and no extra allowance lifts it, the sender is always given a
  refusal, naming the destination (\<open>CheckShare\<close>).
\<close>
theorem share_deny_keeps_figures:
  assumes "readable w" "share_facts rules destination e w = (Inr (f, ev), v)"
    and "finite_crossings (forAction rules ActionShare) ActionShare f"
    and "r \<in> set rules" "Enforced r" "Rule_Match r ActionShare f \<noteq> None" "q_kind (r_require r) = RequireDeny"
    and "\<And>x. \<not> lifts e w x (r_name r)"
  shows "\<exists>ref w'. CheckShare rules destination e w = (Inr (Some ref), w') \<and> sr_destination ref = destination"
proof -
  let ?rs = "forAction rules ActionShare" and ?c = "share_call destination"
  have facts: "readFacts (forAction ?rs (ca_action ?c)) ?c e w = (Inr (f, ev), v)" using assms(2) by simp
  obtain res w' where g: "Guard ?rs ?c e w = (Inr res, w')" using Guard_answers [OF assms(1) facts] assms(3) by auto
  have r: "r \<in> set ?rs" using assms(4,6) by (auto simp: forAction_def Rule_Match_def split: if_splits)
  have "rs_verdict res = VerdictDeny" by (rule Guard_denies [OF g facts r assms(5)]) (use assms(6-8) in auto)
  moreover have "?rs \<noteq> []" using r by auto
  ultimately show ?thesis using g by (auto simp: CheckShare_def io_bind_def attempt_def Let_def)
qed

text \<open>Figures kept from the team.\<close>

definition keep_figures :: rule where
  "keep_figures =
     \<lparr>r_name = ''keep'', r_action = ActionShare, r_when = [(blank FieldDestination OpEQ)\<lparr>c_text := ''team''\<rparr>],
      r_require = deny_it, r_stage = StageEnforce, r_source = SourceLocal\<rparr>"

definition team_facts :: facts where
  "team_facts = first_facts [keep_figures] (share_call ''team'') quiet_env"

lemma keep_figures_facts: "share_facts [keep_figures] ''team'' quiet_env w = (Inr (team_facts, []), w)"
  by (simp add: readFacts_def forAction_def keep_figures_def needs_def Let_def team_facts_def blank_def)

theorem share_deny_keeps_figures_witness:
  "\<exists>ref w'. CheckShare [keep_figures] ''team'' quiet_env fresh_world = (Inr (Some ref), w') \<and> sr_destination ref = ''team''"
proof -
  have "finite_crossings (forAction [keep_figures] ActionShare) ActionShare team_facts"
      "Enforced keep_figures" "Rule_Match keep_figures ActionShare team_facts \<noteq> None" "q_kind (r_require keep_figures) = RequireDeny"
    by code_simp+
  from share_deny_keeps_figures [OF _ keep_figures_facts this(1) _ this(2-4)] show ?thesis by (simp add: nothing_lifted)
qed

subsection \<open>A check that fails\<close>

lemma RouteCheck_answers: "\<exists>held why w'. RouteCheck rules e p a b x y w = (Inr (held, why), w')"
  by (auto simp: RouteCheck_def RecordFailure_def io_bind_def io_then_def attempt_def Let_def draw_def split: prod.split sum.split)

lemma Append_works: "sound_disk w \<Longrightarrow> ev_payload x = PDecision d \<Longrightarrow> \<exists>w'. Append (Some x) w = (Inr (), w')"
  by (simp add: Append_def prune_def runs Let_def)

text \<open>
  The router's check fails open, and says so. If the check of a route fails while the disk works, the
  route is not held, and the last decision the ledger then reads is of that failure, in the words of
  its cause, filed under the route's own decision id (\<open>RouteCheck\<close>, \<open>RecordFailure\<close>). The ledger is taken to
  end with a whole line, and its lines to be within the length its reader takes.
\<close>
theorem failed_route_check_recorded:
  assumes "Guard (forAction rules ActionModelRoute) (route_call provider from_model to_model workflow agent) e w = (Inl cause, u)"
    and "sound_disk u" "\<not> scan_fails maxLine (w_log u)" "\<not> jl_open (w_log u)"
    and "\<And>n. w_random u n \<noteq> []" "\<And>x. 0 < w_env_bytes u x" "\<And>x. w_env_bytes u x < maxLine"
  shows "\<exists>w' old uuid. RouteCheck rules e provider from_model to_model workflow agent w = (Inr (False, []), w') \<and>
    fst (Read w') = Inr (old @ [boundary_event uuid (now_of e) []
      (DecisionID ''_failed'' (scope [''route'', provider, from_model, to_model]))
      (failure_event (route_call provider from_model to_model workflow agent) e (err_text cause))])"
proof -
  let ?c = "route_call provider from_model to_model workflow agent" and ?uuid = "w_random u (w_drawn u)"
  let ?e = "boundary_event ?uuid (now_of e) [] (DecisionID ''_failed'' (ca_session ?c)) (failure_event ?c e (err_text cause))"
  let ?u = "u\<lparr>w_drawn := w_drawn u + 1\<rparr>"
  have u: "sound_disk ?u" using assms(2) by (simp add: sound_disk_def)
  obtain w' where a: "Append (Some ?e) ?u = (Inr (), w')" using Append_works [OF u] by (fastforce simp: boundary_event_def)
  from Append_read_last [OF u this] assms(3-7) obtain old where old: "fst (Read w') = Inr (old @ [?e])"
    by (auto simp: boundary_event_def)
  have "Guard rules ?c e w = Guard (forAction rules ActionModelRoute) ?c e w" by (simp add: Guard_def)
  moreover have "forAction rules ActionModelRoute \<noteq> []" using assms(1) by (auto simp: Guard_def)
  moreover have "RecordFailure ?c e cause u = (Inr (), w')" using a by (simp add: RecordFailure_def io_bind_def io_then_def draw_def attempt_def)
  ultimately have "RouteCheck rules e provider from_model to_model workflow agent w = (Inr (False, []), w')"
    using assms(1) by (simp add: RouteCheck_def Let_def io_bind_def io_then_def attempt_def)
  moreover have "ca_session ?c = scope [''route'', provider, from_model, to_model]" by (simp add: route_call_def)
  ultimately show ?thesis using old by auto
qed

text \<open>A route whose answer on file does not parse.\<close>

definition ask_route :: rule where
  "ask_route =
     \<lparr>r_name = ''routes'', r_action = ActionModelRoute, r_when = [(blank FieldModelTier OpEQ)\<lparr>c_text := ''opus''\<rparr>],
      r_require = ask_it, r_stage = StageEnforce, r_source = SourceLocal\<rparr>"

definition garbled_world :: world where
  "garbled_world = fresh_world\<lparr>w_answers := [(DecisionID ''routes'' (scope [''route'', ''anthropic'', ''claude-haiku-4-5'', ''claude-opus-4-5'']), Garbled)]\<rparr>"

abbreviation sample_route :: call where
  "sample_route \<equiv> route_call ''anthropic'' ''claude-haiku-4-5'' ''claude-opus-4-5'' [] []"

definition route_facts :: facts where
  "route_facts = first_facts [ask_route] sample_route quiet_env"

lemma ask_route_facts: "readFacts [ask_route] sample_route quiet_env w = (Inr (route_facts, []), w)"
  by (simp add: readFacts_def ask_route_def needs_def Let_def route_facts_def blank_def)

definition route_match :: rule_match where
  "route_match = the (Rule_Match ask_route ActionModelRoute route_facts)"

lemma ask_route_binds:
  "Enforced ask_route" "r_action ask_route = ActionModelRoute" "Rule_Match ask_route ActionModelRoute route_facts \<noteq> None"
  "v_matches (Evaluate [ask_route] ActionModelRoute route_facts) \<noteq> []"
  "v_binding (Evaluate [ask_route] ActionModelRoute route_facts) \<noteq> None"
  by code_simp+

lemma ActiveExtras_none: "sound_disk w \<Longrightarrow> w_extras w = None \<Longrightarrow> ActiveExtras now w = (Inr [], tick w)"
  by (simp add: ActiveExtras_def Extras_read_def attempt_def runs decode_def io_bind_def)

lemma GetAnswer_garbled:
  "sound_disk w \<Longrightarrow> valid_id i \<Longrightarrow> map_of (w_answers w) i = Some Garbled \<Longrightarrow>
     GetAnswer i now w = (Inl (Failed ''invalid character''), tick w)"
  by (simp add: GetAnswer_def getJSON_def idPath_def runs decode_def io_bind_def)

lemma load_none: "sound_disk w \<Longrightarrow> w_sessions w = [] \<Longrightarrow>
    load c e ev w = (Inr \<lparr>gd_call = c, gd_env = e, gd_evidence = ev, gd_now = now_of e, gd_session = no_session,
      gd_changed = False, gd_refused = None\<rparr>, tick w)"
  by (simp add: load_def GetSession_def getJSON_def idPath_def runs decode_def io_bind_def attempt_def)

lemma garbled_fails:
  "Guard (forAction [ask_route] ActionModelRoute) sample_route quiet_env garbled_world =
     (Inl (Failed ''invalid character''), tick (tick (tick garbled_world)))"
proof -
  let ?w = garbled_world
  obtain m where m: "v_binding (Evaluate [ask_route] ActionModelRoute route_facts) = Some m" using ask_route_binds(5) by blast
  from binding_member [OF m] have mem: "m \<in> set (binding_matches [ask_route] ActionModelRoute route_facts)" .
  then have rule: "m_rule m = ask_route" using Rule_Match_rule by (auto simp: set_binding_matches)
  have "Rule_Match ask_route ActionModelRoute route_facts = Some m" using mem by (simp add: set_binding_matches)
  then have ms: "v_matches (Evaluate [ask_route] ActionModelRoute route_facts) = [m]"
    by (simp add: Evaluate_spec matching_def List.map_filter_simps)
  have w: "sound_disk ?w" "w_extras ?w = None" "w_sessions ?w = []" by (simp_all add: garbled_world_def fresh_world_def sound_disk_def)
  have lift: "liftExtras (Evaluate [ask_route] ActionModelRoute route_facts) [ask_route] ActionModelRoute route_facts quiet_env ?w =
      (Inr (Some m, []), tick ?w)"
    using w by (simp add: liftExtras_def m ms honouredExtras_def ActiveExtras_none io_bind_def liftedBy_def List.map_filter_simps)
  let ?g = "\<lparr>gd_call = sample_route, gd_env = quiet_env, gd_evidence = [], gd_now = now_of quiet_env, gd_session = no_session,
      gd_changed = False, gd_refused = None\<rparr>"
  have load: "load sample_route quiet_env [] (tick ?w) = (Inr ?g, tick (tick ?w))" using w by (simp add: load_none)
  have "map_of (w_answers ?w) (match_id ?g m) = Some Garbled"
    by (simp add: match_id_def rule garbled_world_def) (simp add: ask_route_def route_call_def)
  then have "bind_match ?g (Some m) (tick (tick ?w)) = (Inl (Failed ''invalid character''), tick (tick (tick ?w)))"
    using w by (simp add: bind_match_def answered_def Let_def rule io_bind_def GetAnswer_garbled match_id_def)
      (simp add: ask_route_def ask_it_def)
  moreover have "forAction [ask_route] ActionModelRoute = [ask_route]" by (simp add: forAction_def ask_route_binds)
  ultimately show ?thesis
    by (simp add: Guard_def Let_def ask_route_facts io_bind_def ms lift load recordShadow_def rule ask_route_binds)
qed

theorem failed_route_check_recorded_witness:
  "\<exists>w' old x. RouteCheck [ask_route] quiet_env ''anthropic'' ''claude-haiku-4-5'' ''claude-opus-4-5'' [] [] garbled_world = (Inr (False, []), w') \<and>
     fst (Read w') = Inr (old @ [x])"
  using failed_route_check_recorded [OF garbled_fails]
  by (simp add: garbled_world_def fresh_world_def sound_disk_def scan_fails_def empty_log_def maxLine_def) blast

subsection \<open>Routes that share a decision\<close>

text \<open>The parts of a route are joined by a character that model names hold, so two routes can be one decision.\<close>

lemma routes_share_decision:
  "scope [''route'', ''openai'', ''gpt-4'', ''turbo-mini''] = scope [''route'', ''openai'', ''gpt-4-turbo'', ''mini'']"
  by code_simp

lemma route_answer_shared:
  "DecisionID rule (ca_session (route_call ''openai'' ''gpt-4'' ''turbo-mini'' u v)) =
   DecisionID rule (ca_session (route_call ''openai'' ''gpt-4-turbo'' ''mini'' x y))"
  by (simp add: route_call_def routes_share_decision)

subsection \<open>The plans a command starts\<close>

lemma add_plan_spec:
  "set (foldl (add_plan h) out ps) =
     set out \<union> {p. p \<noteq> harnessProvider h \<and> (\<exists>c\<in>set ps. map_of agentCLIs (commandWord c) = Some p)} \<and>
   (distinct (foldl (add_plan h) out ps) = distinct out)"
proof (induction ps arbitrary: out)
  case (Cons c ps)
  have "set (add_plan h out c) = set out \<union> {p. p \<noteq> harnessProvider h \<and> map_of agentCLIs (commandWord c) = Some p}"
    and "distinct (add_plan h out c) = distinct out"
    by (auto simp: add_plan_def split: option.splits)
  then show ?case by (auto simp: Cons)
qed simp

lemma PlansStartedBy_spec:
  "set (PlansStartedBy command h) =
     {p. p \<noteq> harnessProvider h \<and> (\<exists>c\<in>set (split_commands [] command). map_of agentCLIs (commandWord c) = Some p)}"
  "distinct (PlansStartedBy command h)"
  using add_plan_spec [of h "[]"] by (simp_all add: PlansStartedBy_def)

text \<open>The commands of the tests beside the code.\<close>

lemma plans_examples:
  "PlansStartedBy ''npx @openai/codex exec x'' HarnessClaudeCode = [''openai'']"
  "PlansStartedBy ''timeout 600 gemini -p summarise'' HarnessClaudeCode = [''gemini'']"
  "PlansStartedBy ''copilot -p tests; codex exec more'' HarnessClaudeCode = [''github'', ''openai'']"
  "PlansStartedBy ''cd api && CODEX_HOME=/tmp/c /opt/homebrew/bin/codex exec'' HarnessClaudeCode = [''openai'']"
  "PlansStartedBy ''claude -p plan'' HarnessClaudeCode = []"
  "PlansStartedBy ''cat codex.md && ls ~/.codex'' HarnessClaudeCode = []"
  by code_simp+

end
