(* ===== verification/EventBus.thy ===== *)
theory EventBus
  imports GoStrings GoTime
begin

text \<open>
  The event bus (\<open>internal/events/bus.go\<close>), its fan-out sink (\<open>multisink.go\<close>) and the filter in front of it
  (\<open>skipknown.go\<close>): a bounded queue, publishers that drop or wait when it is full, one worker that
  batches rows into a sink and retries, and a shutdown that drains. Publishers, the closing call and the
  worker interleave: \<open>bus_step\<close> gives each one's next step, and a run is any sequence of them.
\<close>

subsection \<open>Options\<close>

type_synonym sink_error = "string list"

abbreviation millisecond :: duration where
  "millisecond \<equiv> 1000000"

definition defaultFlushRetries :: nat where "defaultFlushRetries = 4"
definition defaultFlushRetryWait :: duration where "defaultFlushRetryWait = 250 * millisecond"
definition maxFlushRetryWait :: duration where "maxFlushRetryWait = 5 * second"

record raw_options =
  ro_queue :: int
  ro_batch :: int
  ro_wait :: duration
  ro_retries :: int
  ro_retry_wait :: duration
  ro_contended :: "(sink_error \<Rightarrow> bool) option"

record options =
  op_queue :: nat
  op_batch :: nat
  op_wait :: duration
  op_retries :: nat
  op_retry_wait :: duration
  op_contended :: "(sink_error \<Rightarrow> bool) option"

text \<open>Zero asks for the default number of retries, a negative one for none.\<close>

definition new_options :: "raw_options \<Rightarrow> options" where
  "new_options r =
     \<lparr>op_queue = (if ro_queue r \<le> 0 then 1024 else nat (ro_queue r)),
      op_batch = (if ro_batch r \<le> 0 then 64 else nat (ro_batch r)),
      op_wait = (if ro_wait r \<le> 0 then 100 * millisecond else ro_wait r),
      op_retries = (if ro_retries r = 0 then defaultFlushRetries else nat (ro_retries r)),
      op_retry_wait = (if ro_retry_wait r \<le> 0 then defaultFlushRetryWait else ro_retry_wait r),
      op_contended = ro_contended r\<rparr>"

subsection \<open>State\<close>

text \<open>Where a flush goes on: the worker's loop, the drain at shutdown, or the worker's end.\<close>

datatype after = Loop | Drain | Exit

datatype worker = Select | Draining | Flushing nat duration after | Done

text \<open>
  The calls are the ones past the check of \<open>closed\<close>, with whether they wait for room. The last four are
  history: every row accepted, every batch flushed and whether the sink took it, the rows refused for
  want of room, and what each subscriber was shown.
\<close>

record ('e, 's) bus =
  bu_queue :: "'e list"
  bu_batch :: "'e list"
  bu_worker :: worker
  bu_closed :: bool
  bu_stop :: bool
  bu_dropped :: int
  bu_published :: int
  bu_calls :: "(bool \<times> 'e) list"
  bu_subs :: "nat list"
  bu_next_sub :: nat
  bu_sink :: 's
  bu_accepted :: "'e list"
  bu_flushed :: "('e list \<times> bool) list"
  bu_refused :: nat
  bu_seen :: "(nat \<times> 'e) list"

definition NewAsync :: "'s \<Rightarrow> ('e, 's) bus" where
  "NewAsync s =
     \<lparr>bu_queue = [], bu_batch = [], bu_worker = Select, bu_closed = False, bu_stop = False, bu_dropped = 0, bu_published = 0,
      bu_calls = [], bu_subs = [], bu_next_sub = 0, bu_sink = s, bu_accepted = [], bu_flushed = [], bu_refused = 0, bu_seen = []\<rparr>"

subsection \<open>Publishers and subscribers\<close>

definition without :: "nat \<Rightarrow> 'a list \<Rightarrow> 'a list" where
  "without i xs = take i xs @ drop (Suc i) xs"

text \<open>A row that is not nil; a closed bus takes no call further.\<close>

definition start_call :: "bool \<Rightarrow> 'e \<Rightarrow> ('e, 's) bus \<Rightarrow> ('e, 's) bus" where
  "start_call wait e b = (if bu_closed b then b else b\<lparr>bu_calls := bu_calls b @ [(wait, e)]\<rparr>)"

definition notify :: "'e \<Rightarrow> ('e, 's) bus \<Rightarrow> ('e, 's) bus" where
  "notify e b = b\<lparr>bu_seen := bu_seen b @ map (\<lambda>i. (i, e)) (bu_subs b)\<rparr>"

definition room :: "options \<Rightarrow> ('e, 's) bus \<Rightarrow> bool" where
  "room opts b \<longleftrightarrow> length (bu_queue b) < op_queue opts"

definition accept :: "'e \<Rightarrow> ('e, 's) bus \<Rightarrow> ('e, 's) bus" where
  "accept e b =
     notify e (b\<lparr>bu_queue := bu_queue b @ [e], bu_published := bu_published b + 1, bu_accepted := bu_accepted b @ [e]\<rparr>)"

definition finish_call :: "nat \<Rightarrow> ('e, 's) bus \<Rightarrow> ('e, 's) bus" where
  "finish_call i b = b\<lparr>bu_calls := without i (bu_calls b)\<rparr>"

definition Subscribe :: "('e, 's) bus \<Rightarrow> ('e, 's) bus" where
  "Subscribe b = b\<lparr>bu_subs := bu_subs b @ [bu_next_sub b], bu_next_sub := bu_next_sub b + 1\<rparr>"

definition unsubscribe :: "nat \<Rightarrow> ('e, 's) bus \<Rightarrow> ('e, 's) bus" where
  "unsubscribe i b = b\<lparr>bu_subs := removeAll i (bu_subs b)\<rparr>"

subsection \<open>The worker\<close>

definition retryFlush :: "options \<Rightarrow> bool \<Rightarrow> sink_error \<Rightarrow> nat \<Rightarrow> bool" where
  "retryFlush opts stop err attempt =
     (if attempt < op_retries opts then True
      else case op_contended opts of None \<Rightarrow> False | Some c \<Rightarrow> c err \<and> \<not> stop)"

fun go_on :: "after \<Rightarrow> worker" where
  "go_on Loop = Select"
| "go_on Drain = Draining"
| "go_on Exit = Done"

definition begin_flush :: "options \<Rightarrow> after \<Rightarrow> ('e, 's) bus \<Rightarrow> ('e, 's) bus" where
  "begin_flush opts k b =
     b\<lparr>bu_worker := (if bu_batch b = [] then go_on k else Flushing 0 (op_retry_wait opts) k)\<rparr>"

definition end_flush :: "bool \<Rightarrow> after \<Rightarrow> ('e, 's) bus \<Rightarrow> ('e, 's) bus" where
  "end_flush landed k b =
     b\<lparr>bu_batch := [], bu_worker := go_on k, bu_flushed := bu_flushed b @ [(bu_batch b, landed)],
       bu_dropped := bu_dropped b + (if landed then 0 else int (length (bu_batch b)))\<rparr>"

text \<open>One attempt: the sink takes the batch or gives an error, a deadline of the attempt among them.\<close>

definition flush_attempt ::
  "('s \<Rightarrow> 'e list \<Rightarrow> 's \<times> sink_error option) \<Rightarrow> options \<Rightarrow> nat \<Rightarrow> duration \<Rightarrow> after \<Rightarrow> ('e, 's) bus \<Rightarrow> ('e, 's) bus" where
  "flush_attempt sink opts n wait k b =
     (case sink (bu_sink b) (bu_batch b) of
        (s, None) \<Rightarrow> end_flush True k (b\<lparr>bu_sink := s\<rparr>)
      | (s, Some err) \<Rightarrow>
          if retryFlush opts (bu_stop b) err n
          then b\<lparr>bu_sink := s, bu_worker := Flushing (n + 1) (min (wait * 2) maxFlushRetryWait) k\<rparr>
          else end_flush False k (b\<lparr>bu_sink := s\<rparr>))"

definition take_row :: "options \<Rightarrow> after \<Rightarrow> 'e \<Rightarrow> 'e list \<Rightarrow> ('e, 's) bus \<Rightarrow> ('e, 's) bus" where
  "take_row opts k e q b =
     (let b = b\<lparr>bu_queue := q, bu_batch := bu_batch b @ [e]\<rparr>
      in if op_batch opts \<le> length (bu_batch b) then begin_flush opts k b else b)"

text \<open>Which of the ready channels the worker's \<open>select\<close> takes. The queue is never closed.\<close>

datatype choice = TakeRow | Timer | SeeStop

fun worker_step ::
  "('s \<Rightarrow> 'e list \<Rightarrow> 's \<times> sink_error option) \<Rightarrow> options \<Rightarrow> choice \<Rightarrow> ('e, 's) bus \<Rightarrow> ('e, 's) bus option" where
  "worker_step sink opts c b =
     (case bu_worker b of
        Select \<Rightarrow>
          (case c of
             TakeRow \<Rightarrow> (case bu_queue b of [] \<Rightarrow> None | e # q \<Rightarrow> Some (take_row opts Loop e q b))
           | Timer \<Rightarrow> Some (begin_flush opts Loop b)
           | SeeStop \<Rightarrow> if bu_stop b then Some (b\<lparr>bu_worker := Draining\<rparr>) else None)
      | Draining \<Rightarrow>
          (case bu_queue b of [] \<Rightarrow> Some (begin_flush opts Exit b) | e # q \<Rightarrow> Some (take_row opts Drain e q b))
      | Flushing n wait k \<Rightarrow> Some (flush_attempt sink opts n wait k b)
      | Done \<Rightarrow> None)"

subsection \<open>Every step\<close>

text \<open>
  A call starts, is accepted, finds the queue full, or ends with its context; a subscriber comes or
  goes; the closing call marks the bus closed and then signals the worker; the worker steps.
\<close>

datatype 'e label =
    Call bool 'e | Send nat | Full nat | Cancel nat | Join | Leave nat | Closing | Signal | Work choice

fun bus_step ::
  "('s \<Rightarrow> 'e list \<Rightarrow> 's \<times> sink_error option) \<Rightarrow> options \<Rightarrow> 'e label \<Rightarrow> ('e, 's) bus \<Rightarrow> ('e, 's) bus option" where
  "bus_step sink opts (Call wait e) b = Some (start_call wait e b)"
| "bus_step sink opts (Send i) b =
     (if i < length (bu_calls b) \<and> room opts b then Some (finish_call i (accept (snd (bu_calls b ! i)) b)) else None)"
| "bus_step sink opts (Full i) b =
     (if i < length (bu_calls b) \<and> \<not> fst (bu_calls b ! i) \<and> \<not> room opts b
      then Some (finish_call i (b\<lparr>bu_dropped := bu_dropped b + 1, bu_refused := bu_refused b + 1\<rparr>)) else None)"
| "bus_step sink opts (Cancel i) b =
     (if i < length (bu_calls b) \<and> fst (bu_calls b ! i) then Some (finish_call i b) else None)"
| "bus_step sink opts Join b = Some (Subscribe b)"
| "bus_step sink opts (Leave i) b = Some (unsubscribe i b)"
| "bus_step sink opts Closing b = Some (b\<lparr>bu_closed := True\<rparr>)"
| "bus_step sink opts Signal b = (if bu_closed b then Some (b\<lparr>bu_stop := True\<rparr>) else None)"
| "bus_step sink opts (Work c) b = worker_step sink opts c b"

inductive bus_run for sink opts where
  start: "bus_run sink opts b b"
| step: "bus_run sink opts b c \<Longrightarrow> bus_step sink opts l c = Some d \<Longrightarrow> bus_run sink opts b d"

fun bus_steps where
  "bus_steps sink opts [] b = Some b"
| "bus_steps sink opts (l # ls) b =
     (case bus_step sink opts l b of None \<Rightarrow> None | Some c \<Rightarrow> bus_steps sink opts ls c)"

subsection \<open>Nothing accepted is lost unsaid\<close>

definition lost_rows :: "('e list \<times> bool) list \<Rightarrow> nat" where
  "lost_rows fs = sum_list (map (\<lambda>(xs, ok). if ok then 0 else length xs) fs)"

lemma lost_rows_simps [simp]: "lost_rows [] = 0" "lost_rows (fs @ [(xs, ok)]) = lost_rows fs + (if ok then 0 else length xs)"
  by (simp_all add: lost_rows_def)

definition rows_kept :: "('e, 's) bus \<Rightarrow> bool" where
  "rows_kept b \<longleftrightarrow> bu_accepted b = concat (map fst (bu_flushed b)) @ bu_batch b @ bu_queue b \<and>
     bu_published b = int (length (bu_accepted b)) \<and>
     bu_dropped b = int (bu_refused b + lost_rows (bu_flushed b))"

fun at_shutdown :: "worker \<Rightarrow> bool" where
  "at_shutdown Select = False"
| "at_shutdown Draining = True"
| "at_shutdown (Flushing n wait k) = (k \<noteq> Loop)"
| "at_shutdown Done = True"

fun batch_fits :: "options \<Rightarrow> worker \<Rightarrow> nat \<Rightarrow> bool" where
  "batch_fits opts Select n = (n < op_batch opts)"
| "batch_fits opts Draining n = (n < op_batch opts)"
| "batch_fits opts (Flushing a wait k) n = (0 < n \<and> n \<le> op_batch opts)"
| "batch_fits opts Done n = (n = 0)"

definition bus_sizes :: "options \<Rightarrow> ('e, 's) bus \<Rightarrow> bool" where
  "bus_sizes opts b \<longleftrightarrow> length (bu_queue b) \<le> op_queue opts \<and> batch_fits opts (bu_worker b) (length (bu_batch b)) \<and>
     (at_shutdown (bu_worker b) \<longrightarrow> bu_stop b) \<and> (bu_stop b \<longrightarrow> bu_closed b)"

lemma go_on_simps [simp]: "at_shutdown (go_on k) = (k \<noteq> Loop)" "batch_fits opts (go_on k) 0 = (k = Exit \<or> 0 < op_batch opts)"
  by (cases k; simp)+

lemmas bus_ops =
  start_call_def notify_def accept_def finish_call_def Subscribe_def unsubscribe_def begin_flush_def end_flush_def
  flush_attempt_def take_row_def

lemma rows_kept_start: "rows_kept (NewAsync s)"
  by (simp add: rows_kept_def NewAsync_def)

lemma rows_kept_worker:
  "rows_kept b \<Longrightarrow> worker_step sink opts c b = Some d \<Longrightarrow> rows_kept d"
  by (auto simp: rows_kept_def bus_ops Let_def split: worker.splits choice.splits list.splits option.splits prod.splits if_splits)

lemma rows_kept_step: "rows_kept b \<Longrightarrow> bus_step sink opts l b = Some d \<Longrightarrow> rows_kept d"
proof (cases l)
  case (Work c)
  assume "rows_kept b" "bus_step sink opts l b = Some d"
  with Work show ?thesis by (simp add: rows_kept_worker del: worker_step.simps)
qed (auto simp: rows_kept_def bus_ops split: if_splits)

lemma bus_sizes_worker:
  "bus_sizes opts b \<Longrightarrow> 0 < op_batch opts \<Longrightarrow> worker_step sink opts c b = Some d \<Longrightarrow> bus_sizes opts d"
  by (auto simp: bus_sizes_def bus_ops Let_def split: worker.splits choice.splits list.splits option.splits prod.splits if_splits)

lemma bus_sizes_step: "bus_sizes opts b \<Longrightarrow> 0 < op_batch opts \<Longrightarrow> bus_step sink opts l b = Some d \<Longrightarrow> bus_sizes opts d"
proof (cases l)
  case (Work c)
  assume "bus_sizes opts b" "0 < op_batch opts" "bus_step sink opts l b = Some d"
  with Work show ?thesis by (simp add: bus_sizes_worker del: worker_step.simps)
qed (auto simp: bus_sizes_def bus_ops room_def split: if_splits)

lemma new_options_positive [simp]: "0 < op_batch (new_options r)" "0 < op_queue (new_options r)"
  by (simp_all add: new_options_def)
lemma run_rows_kept: "bus_run sink opts b d \<Longrightarrow> rows_kept b \<Longrightarrow> rows_kept d"
  by (induction rule: bus_run.induct) (auto dest: rows_kept_step)

lemma run_bus_sizes: "bus_run sink opts b d \<Longrightarrow> bus_sizes opts b \<Longrightarrow> 0 < op_batch opts \<Longrightarrow> bus_sizes opts d"
  by (induction rule: bus_run.induct) (auto dest: bus_sizes_step)

lemma bus_sizes_start: "0 < op_batch opts \<Longrightarrow> bus_sizes opts (NewAsync s)"
  by (simp add: bus_sizes_def NewAsync_def)

text \<open>
  C15: The bus accounts for every row. However publishers, subscribers, the closing call and the worker
  interleave, and whatever the sink does, the rows accepted are those of the batches flushed, then the
  batch, then the queue, in the order they came; the published count is the number accepted and the
  dropped count the rows refused for want of room plus those of the batches given up; and neither the
  queue nor a batch outgrows its limit (\<open>AsyncBus\<close>).
\<close>
theorem rows_accounted:
  assumes "bus_run sink (new_options r) (NewAsync s) b"
  shows "bu_accepted b = concat (map fst (bu_flushed b)) @ bu_batch b @ bu_queue b \<and>
    bu_published b = int (length (bu_accepted b)) \<and>
    bu_dropped b = int (bu_refused b + sum_list (map (\<lambda>(xs, ok). if ok then 0 else length xs) (bu_flushed b))) \<and>
    length (bu_queue b) \<le> op_queue (new_options r) \<and> length (bu_batch b) \<le> op_batch (new_options r)"
proof -
  have "rows_kept b" using run_rows_kept [OF assms rows_kept_start] .
  moreover have "bus_sizes (new_options r) b" using run_bus_sizes [OF assms bus_sizes_start] by simp
  then have "length (bu_queue b) \<le> op_queue (new_options r)" "length (bu_batch b) \<le> op_batch (new_options r)"
    by (cases "bu_worker b"; simp add: bus_sizes_def)+
  ultimately show ?thesis by (simp add: rows_kept_def lost_rows_def)
qed

subsection \<open>Shutdown\<close>

text \<open>The worker once it is signalled, taking the signal as soon as its \<open>select\<close> can.\<close>

fun drain :: "('s \<Rightarrow> 'e list \<Rightarrow> 's \<times> sink_error option) \<Rightarrow> options \<Rightarrow> nat \<Rightarrow> ('e, 's) bus \<Rightarrow> ('e, 's) bus" where
  "drain sink opts 0 b = b"
| "drain sink opts (Suc n) b = (case worker_step sink opts SeeStop b of None \<Rightarrow> b | Some d \<Rightarrow> drain sink opts n d)"

fun after_rank :: "after \<Rightarrow> nat" where
  "after_rank Loop = 2" | "after_rank Drain = 1" | "after_rank Exit = 0"

text \<open>Steps a signalled worker has left at most; a flush has one attempt more than its retries.\<close>

definition steps_left :: "options \<Rightarrow> ('e, 's) bus \<Rightarrow> nat" where
  "steps_left opts b =
     (case bu_worker b of
        Done \<Rightarrow> 0
      | Flushing n w k \<Rightarrow> (op_retries opts + 3) * length (bu_queue b) + (op_retries opts - n) + 1 + after_rank k
      | Draining \<Rightarrow> (op_retries opts + 3) * length (bu_queue b) + (if bu_batch b = [] then 0 else op_retries opts + 2) + 1
      | Select \<Rightarrow> (op_retries opts + 3) * length (bu_queue b) + (if bu_batch b = [] then 0 else op_retries opts + 2) + 2)"

text \<open>Every step of a signalled worker counts, but for the timer of an idle one.\<close>

lemma worker_step_progress:
  assumes "worker_step sink opts c b = Some d" "bu_stop b" "\<not> (bu_worker b = Select \<and> c = Timer \<and> bu_batch b = [])"
  shows "steps_left opts d < steps_left opts b"
proof (cases "bu_worker b")
  case (Flushing n w k)
  with assms show ?thesis
    by (cases k) (auto simp: steps_left_def bus_ops retryFlush_def split: option.splits prod.splits if_splits)
qed (use assms in \<open>auto simp: steps_left_def bus_ops Let_def split: choice.splits list.splits if_splits\<close>)

text \<open>The worker has found the queue empty and will not read it again.\<close>

fun past_queue :: "worker \<Rightarrow> bool" where
  "past_queue Done = True"
| "past_queue (Flushing n w k) = (k = Exit)"
| "past_queue Select = False"
| "past_queue Draining = False"

lemma past_queue_go_on [simp]: "past_queue (go_on k) = (k = Exit)"
  by (cases k) simp_all

definition drained :: "('e, 's) bus \<Rightarrow> bool" where
  "drained b \<longleftrightarrow> bu_stop b \<and> (past_queue (bu_worker b) \<longrightarrow> bu_queue b = [])"

lemma worker_step_drained:
  assumes "worker_step sink opts c b = Some d" "drained b"
  shows "drained d \<and> bu_accepted d = bu_accepted b"
  using assms
  by (auto simp: drained_def bus_ops Let_def split: worker.splits choice.splits list.splits option.splits prod.splits if_splits)

lemma worker_step_enabled: "bu_stop b \<Longrightarrow> bu_worker b \<noteq> Done \<Longrightarrow> \<exists>d. worker_step sink opts SeeStop b = Some d"
  by (auto split: worker.splits list.splits)

lemma drain_ends:
  "drained b \<Longrightarrow> steps_left opts b \<le> n \<Longrightarrow>
   drained (drain sink opts n b) \<and> bu_worker (drain sink opts n b) = Done \<and> bu_accepted (drain sink opts n b) = bu_accepted b"
proof (induction n arbitrary: b)
  case 0
  then have "bu_worker b = Done" by (cases "bu_worker b") (auto simp: steps_left_def)
  with 0 show ?case by simp
next
  case (Suc n)
  show ?case
  proof (cases "bu_worker b = Done")
    case True
    with Suc show ?thesis by simp
  next
    case False
    with Suc worker_step_enabled obtain d where d: "worker_step sink opts SeeStop b = Some d" unfolding drained_def by blast
    with worker_step_progress [OF d] worker_step_drained [OF d] Suc.prems have
      "steps_left opts d \<le> n" "drained d" "bu_accepted d = bu_accepted b" by (auto simp: drained_def)
    with Suc.IH [of d] d show ?thesis by (simp del: worker_step.simps)
  qed
qed

lemma drain_kept: "rows_kept b \<Longrightarrow> rows_kept (drain sink opts n b)"
  by (induction n arbitrary: b) (auto split: option.split dest: rows_kept_worker simp del: worker_step.simps)

lemma drain_sizes: "bus_sizes opts b \<Longrightarrow> 0 < op_batch opts \<Longrightarrow> bus_sizes opts (drain sink opts n b)"
  by (induction n arbitrary: b) (auto split: option.split dest: bus_sizes_worker simp del: worker_step.simps)

text \<open>
  C16: Closing ends, and flushes what was accepted. Once the closing call has signalled the worker, the
  worker's own steps end it, whatever the sink does, in a bounded number of steps: a flush makes no more
  attempts than its retries allow, contended or not. If the worker had not yet found the queue empty,
  then no row accepted by then is left: each is in a batch the sink took or one counted as dropped
  (\<open>run\<close>, \<open>Close\<close>). The bound is \<open>steps_left\<close>.
\<close>
theorem closing_drains:
  assumes "bus_run sink (new_options r) (NewAsync s) b" "bu_stop b" "\<not> past_queue (bu_worker b)"
    and "steps_left (new_options r) b \<le> n"
  shows "bu_worker (drain sink (new_options r) n b) = Done \<and>
    bu_accepted b = concat (map fst (bu_flushed (drain sink (new_options r) n b))) \<and>
    bu_dropped (drain sink (new_options r) n b) =
      int (bu_refused (drain sink (new_options r) n b) +
        sum_list (map (\<lambda>(xs, ok). if ok then 0 else length xs) (bu_flushed (drain sink (new_options r) n b))))"
proof -
  let ?d = "drain sink (new_options r) n b"
  have d: "drained ?d" "bu_worker ?d = Done" "bu_accepted ?d = bu_accepted b"
    using drain_ends [of b, OF _ assms(4)] assms(2,3) by (auto simp: drained_def)
  have "rows_kept ?d" by (intro drain_kept run_rows_kept [OF assms(1) rows_kept_start])
  moreover have "bus_sizes (new_options r) ?d" by (intro drain_sizes run_bus_sizes [OF assms(1)] bus_sizes_start) simp_all
  ultimately show ?thesis using d by (auto simp: rows_kept_def bus_sizes_def drained_def lost_rows_def)
qed
subsection \<open>Examples of a bus\<close>

text \<open>A sink that fails a number of times and then keeps its rows, in the default options.\<close>

fun busy_sink :: "nat \<times> 'e list \<Rightarrow> 'e list \<Rightarrow> (nat \<times> 'e list) \<times> sink_error option" where
  "busy_sink (Suc n, rows) xs = ((n, rows), Some [''database is locked''])"
| "busy_sink (0, rows) xs = ((0, rows @ xs), None)"

definition plain_options :: raw_options where
  "plain_options = \<lparr>ro_queue = 0, ro_batch = 0, ro_wait = 0, ro_retries = 0, ro_retry_wait = 0, ro_contended = None\<rparr>"

lemma bus_steps_run: "bus_steps sink opts ls b = Some d \<Longrightarrow> bus_run sink opts b d"
proof (induction ls arbitrary: d rule: rev_induct)
  case Nil
  then show ?case by (simp add: bus_run.start)
next
  case (snoc l ls)
  have split: "bus_steps sink opts (ls @ [l]) b = (case bus_steps sink opts ls b of None \<Rightarrow> None | Some c \<Rightarrow> bus_step sink opts l c)"
    for b by (induction ls arbitrary: b) (auto split: option.split)
  with snoc obtain c where "bus_steps sink opts ls b = Some c" "bus_step sink opts l c = Some d" by (auto split: option.splits)
  with snoc.IH bus_run.step show ?case by metis
qed

text \<open>One row waits in the queue when the bus is closed.\<close>

definition one_queued :: "(nat, nat \<times> nat list) bus option" where
  "one_queued = bus_steps busy_sink (new_options plain_options) [Call True 7, Send 0, Closing, Signal] (NewAsync (2, []))"

definition busy_run :: "(nat, nat \<times> nat list) bus \<Rightarrow> bool" where
  "busy_run = bus_run busy_sink (new_options plain_options) (NewAsync (2, []))"

lemma one_queued_some:
  obtains b where "bu_stop b" "bu_worker b = Select" "bu_queue b = [7]" "bu_accepted b = [7]"
    "steps_left (new_options plain_options) b = 9" "busy_run b"
proof -
  have s: "one_queued \<noteq> None"
    and p: "bu_stop (the one_queued)" "bu_worker (the one_queued) = Select" "bu_queue (the one_queued) = [7]"
      "bu_accepted (the one_queued) = [7]" "steps_left (new_options plain_options) (the one_queued) = 9"
    by code_simp+
  from s obtain b where b: "one_queued = Some b" by blast
  note p = p [unfolded b option.sel]
  have "busy_run b" using b bus_steps_run unfolding one_queued_def busy_run_def by blast
  with p that show thesis by blast
qed

theorem rows_accounted_witness:
  "\<exists>b. busy_run b \<and> length (bu_queue b) = 1 \<and> bu_published b = 1 \<and>
     length (concat (map fst (bu_flushed b)) @ bu_batch b @ bu_queue b) = 1"
proof -
  obtain b where b: "busy_run b" "bu_accepted b = [7]" "bu_queue b = [7]" using one_queued_some by metis
  from rows_accounted [OF b(1) [unfolded busy_run_def]] b show ?thesis by (intro exI [of _ b]) auto
qed

theorem closing_drains_witness:
  "\<exists>b. busy_run b \<and> bu_queue b = [7] \<and> bu_worker (drain busy_sink (new_options plain_options) 9 b) = Done \<and>
     concat (map fst (bu_flushed (drain busy_sink (new_options plain_options) 9 b))) = [7]"
proof -
  obtain b where b: "busy_run b" "bu_accepted b = [7]" "bu_queue b = [7]" "bu_stop b" "bu_worker b = Select"
      "steps_left (new_options plain_options) b = 9"
    using one_queued_some by metis
  with closing_drains [OF b(1) [unfolded busy_run_def], of 9] show ?thesis by (intro exI [of _ b]) auto
qed

subsection \<open>A busy store delays, and loses nothing\<close>

definition nothing_lost :: "('e, 's) bus \<Rightarrow> bool" where
  "nothing_lost b \<longleftrightarrow> bu_stop b \<or> list_all snd (bu_flushed b)"

lemma nothing_lost_step:
  assumes "\<And>s xs s' err. sink s xs = (s', Some err) \<Longrightarrow> c err" "op_contended opts = Some c"
    and "nothing_lost b" "bus_step sink opts l b = Some d"
  shows "nothing_lost d"
proof (cases l)
  case (Work ch)
  with assms show ?thesis
    by (auto simp: nothing_lost_def bus_ops retryFlush_def Let_def
        split: worker.splits choice.splits list.splits option.splits prod.splits if_splits)
qed (use assms(3,4) in \<open>auto simp: nothing_lost_def bus_ops split: if_splits\<close>)

lemma run_nothing_lost:
  "bus_run sink opts b d \<Longrightarrow> (\<And>s xs s' err. sink s xs = (s', Some err) \<Longrightarrow> c err) \<Longrightarrow> op_contended opts = Some c \<Longrightarrow>
   nothing_lost b \<Longrightarrow> nothing_lost d"
  by (induction rule: bus_run.induct) (auto dest: nothing_lost_step)

text \<open>
  A store that is only busy loses no row. Where every failure of the sink is one the options call
  contended, then until the bus is closing every batch flushed was taken by the sink, however often it
  failed before, and what is dropped are the rows publishers were refused for want of room
  (\<open>retryFlush\<close>).
\<close>
theorem busy_store_loses_nothing:
  assumes "bus_run sink (new_options r) (NewAsync s) b" "\<not> bu_stop b"
    and "ro_contended r = Some c" "\<And>s xs s' err. sink s xs = (s', Some err) \<Longrightarrow> c err"
  shows "list_all snd (bu_flushed b) \<and> bu_dropped b = int (bu_refused b)"
proof -
  have "nothing_lost b"
    by (rule run_nothing_lost [OF assms(1,4)]) (use assms(3) in \<open>auto simp: new_options_def nothing_lost_def NewAsync_def\<close>)
  with assms(2) have l: "list_all snd (bu_flushed b)" by (simp add: nothing_lost_def)
  then have "lost_rows (bu_flushed b) = 0" by (auto simp: lost_rows_def list_all_iff)
  with run_rows_kept [OF assms(1) rows_kept_start] l show ?thesis by (simp add: rows_kept_def)
qed

text \<open>A store busy for longer than its retries: six attempts, and the row is taken by the seventh.\<close>

definition busy_options :: raw_options where
  "busy_options = plain_options\<lparr>ro_contended := Some (\<lambda>e. e = [''database is locked''])\<rparr>"

definition long_wait :: "nat \<Rightarrow> (nat, nat \<times> nat list) bus option" where
  "long_wait n = bus_steps busy_sink (new_options busy_options)
     ([Call False 7, Send 0, Work TakeRow, Work Timer] @ replicate n (Work Timer)) (NewAsync (6, []))"

theorem busy_store_loses_nothing_witness:
  "\<exists>b. long_wait 7 = Some b \<and> bu_sink b = (0, [7]) \<and> list_all snd (bu_flushed b) \<and> bu_dropped b = 0"
proof -
  have "(case long_wait 7 of None \<Rightarrow> False | Some b \<Rightarrow> bu_sink b = (0, [7]) \<and> \<not> bu_stop b \<and> bu_refused b = 0)"
    by code_simp
  then obtain b where b: "long_wait 7 = Some b" "bu_sink b = (0, [7])" "\<not> bu_stop b" "bu_refused b = 0"
    by (cases "long_wait 7") auto
  have run: "bus_run busy_sink (new_options busy_options) (NewAsync (6, [])) b"
    using b(1) bus_steps_run unfolding long_wait_def by blast
  have "err = [''database is locked'']" if "busy_sink s xs = (s', Some err)" for s s' :: "nat \<times> nat list" and xs err
    using that by (cases s; cases "fst s") auto
  with busy_store_loses_nothing [OF run b(3), of "\<lambda>e. e = [''database is locked'']"] b show ?thesis
    by (auto simp: busy_options_def)
qed
subsection \<open>A row accepted after the worker has ended\<close>

text \<open>
  The check of \<open>closed\<close> and the send are two steps. A call past the check when the bus is closed, with the
  worker drained and gone, still finds room in the queue: it is told its row was accepted, and no one
  reads the queue again.
\<close>

definition late_labels :: "'e \<Rightarrow> 'e label list" where
  "late_labels e = [Call True e, Closing, Signal, Work SeeStop, Work SeeStop, Send 0]"

definition stranded :: "'e \<Rightarrow> ('e, 's) bus \<Rightarrow> bool" where
  "stranded e b \<longleftrightarrow> bu_worker b = Done \<and> bu_queue b \<noteq> [] \<and> hd (bu_queue b) = e \<and> bu_flushed b = []"

lemma stranded_step: "stranded e b \<Longrightarrow> bus_step sink opts l b = Some d \<Longrightarrow> stranded e d"
  by (cases l) (auto simp: stranded_def bus_ops split: if_splits)

lemma stranded_run: "bus_run sink opts b d \<Longrightarrow> stranded e b \<Longrightarrow> stranded e d"
  by (induction rule: bus_run.induct) (auto dest: stranded_step)


text \<open>A row published to a bus already closed is dropped, and not counted.\<close>

lemma closed_publish_uncounted: "bu_closed b \<Longrightarrow> bus_step sink opts (Call wait e) b = Some b"
  by (simp add: start_call_def)

subsection \<open>Several sinks\<close>

text \<open>
  Each sink has its own copy of the batch, so what one does to its rows is not seen by the next; a row
  that cannot be copied is shared, and rows here are values.
\<close>

fun each_sink :: "('s \<Rightarrow> 'e list \<Rightarrow> 's \<times> sink_error option) list \<Rightarrow> 's list \<Rightarrow> 'e list \<Rightarrow> 's list \<times> sink_error list" where
  "each_sink (f # fs) (s # ss) xs =
     (let (s, r) = f s xs; (ss, errs) = each_sink fs ss xs
      in (s # ss, case r of None \<Rightarrow> errs | Some e \<Rightarrow> e # errs))"
| "each_sink fs ss xs = (ss, [])"

definition fan_out :: "('s \<Rightarrow> 'e list \<Rightarrow> 's \<times> sink_error option) list \<Rightarrow> 's list \<Rightarrow> 'e list \<Rightarrow> 's list \<times> sink_error option" where
  "fan_out fs ss xs =
     (case each_sink fs ss xs of (ss, errs) \<Rightarrow> (ss, if errs = [] then None else Some (''events: multisink'' # concat errs)))"

text \<open>An error of any sink is still found in the joined one.\<close>

lemma each_sink_keeps: "(f, s) \<in> set (zip fs ss) \<Longrightarrow> f s xs = (s', Some err) \<Longrightarrow> err \<in> set (snd (each_sink fs ss xs))"
  by (induction fs ss xs rule: each_sink.induct) (fastforce split: prod.splits option.splits)+

lemma fan_out_keeps_errors:
  assumes "(f, s) \<in> set (zip fs ss)" "f s xs = (s', Some err)"
  shows "\<exists>joined. snd (fan_out fs ss xs) = Some joined \<and> set err \<subseteq> set joined"
  using each_sink_keeps [OF assms] by (fastforce simp: fan_out_def split: prod.splits)

text \<open>A store that is busy twice beside a collector that is not.\<close>

definition two_sinks :: "(nat, (nat \<times> nat list) list) bus option" where
  "two_sinks = bus_steps (fan_out [busy_sink, busy_sink]) (new_options plain_options)
     [Call False 7, Send 0, Work TakeRow, Work Timer, Work Timer, Work Timer, Work Timer] (NewAsync [(2, []), (0, [])])"

text \<open>The rows a failed attempt left with a sink that took them are sent to it again by the next.\<close>

lemma retry_sends_again: "map_option bu_sink two_sinks = Some [(0, [7]), (0, [7, 7, 7])]"
  by code_simp

subsection \<open>Rows already stored\<close>

definition skip_known :: "('e \<Rightarrow> bool) option \<Rightarrow> bool \<Rightarrow> 'e \<Rightarrow> ('e, 's) bus \<Rightarrow> ('e, 's) bus" where
  "skip_known known wait e b = (case known of None \<Rightarrow> start_call wait e b | Some k \<Rightarrow> if k e then b else start_call wait e b)"

definition DropWarning :: "int \<Rightarrow> string" where
  "DropWarning n =
     (if n \<le> 0 then []
      else ''telemetry dropped: '' @ itoa n @ '' '' @ (if n = 1 then ''event'' else ''events'') @
        '' failed to persist since the daemon started '' @ [CHR 0xE2, CHR 0x80, CHR 0x94] @ '' spend and usage totals under-report by that much, '' @
        ''and a restart clears the count but not the cause'')"

end
