(* ===== verification/Poller.thy ===== *)
theory Poller
  imports EventBus Ledger
begin

text \<open>
  The poller that hands the ledger's decisions to the event bus
  (\<open>internal/infra/boundaryledger/poller.go\<close>), over the contract of a bus that waits: a row is accepted or
  an error says it was not. The contract is proved of the bus's \<open>PublishWait\<close>.
\<close>

subsection \<open>A publisher that waits\<close>

text \<open>
  \<open>PublishWait\<close> as one call: the check, then waiting while the worker makes up to \<open>n\<close> steps until there is
  room or the context ends.
\<close>

fun wait_room ::
  "('s \<Rightarrow> 'e list \<Rightarrow> 's \<times> sink_error option) \<Rightarrow> options \<Rightarrow> nat \<Rightarrow> ('e, 's) bus \<Rightarrow> 'e \<Rightarrow> ('e, 's) bus \<times> string option" where
  "wait_room sink opts n b e =
     (if room opts b then (accept e b, None)
      else case n of
             0 \<Rightarrow> (b, Some ''context canceled'')
           | Suc m \<Rightarrow>
               (case worker_step sink opts TakeRow b of
                  None \<Rightarrow> (b, Some ''context canceled'')
                | Some d \<Rightarrow> wait_room sink opts m d e))"

declare wait_room.simps [simp del]

definition PublishWait ::
  "('s \<Rightarrow> 'e list \<Rightarrow> 's \<times> sink_error option) \<Rightarrow> options \<Rightarrow> nat \<Rightarrow> ('e, 's) bus \<Rightarrow> 'e \<Rightarrow> ('e, 's) bus \<times> string option" where
  "PublishWait sink opts n b e = (if bu_closed b then (b, Some ''events: bus closed'') else wait_room sink opts n b e)"

lemma worker_step_accepted: "worker_step sink opts c b = Some d \<Longrightarrow> bu_accepted d = bu_accepted b \<and> bu_calls d = bu_calls b"
  by (auto simp: bus_ops Let_def split: worker.splits choice.splits list.splits option.splits prod.splits if_splits)

lemma wait_room_accepted:
  "wait_room sink opts n b e = (d, r) \<Longrightarrow> bu_accepted d = bu_accepted b @ (if r = None then [e] else [])"
proof (induction sink opts n b e rule: wait_room.induct)
  case (1 sink opts n b e)
  show ?case
  proof (cases "room opts b")
    case True
    with "1.prems" show ?thesis by (auto simp: wait_room.simps accept_def notify_def)
  next
    case no_room: False
    show ?thesis
    proof (cases "n = 0 \<or> worker_step sink opts TakeRow b = None")
      case True
      with "1.prems" no_room show ?thesis by (auto simp: wait_room.simps [of sink opts n b e] split: nat.splits)
    next
      case False
      then obtain m c where "n = Suc m" "worker_step sink opts TakeRow b = Some c" by (cases n) auto
      with "1.prems" "1.IH" [of m c] no_room worker_step_accepted [of sink opts TakeRow b c] show ?thesis
        by (simp add: wait_room.simps [of sink opts "Suc m" b e] del: worker_step.simps)
    qed
  qed
qed

text \<open>The call is a run of the bus.\<close>

lemma run_trans: "bus_run sink opts c d \<Longrightarrow> bus_run sink opts b c \<Longrightarrow> bus_run sink opts b d"
  by (induction rule: bus_run.induct) (auto intro: bus_run.step)

lemma without_last [simp]: "without (length xs) (xs @ [x]) = xs"
  by (simp add: without_def)

lemma worker_step_calls:
  "worker_step sink opts c (b\<lparr>bu_calls := cs\<rparr>) = map_option (\<lambda>d. d\<lparr>bu_calls := cs\<rparr>) (worker_step sink opts c b)"
  by (auto simp: bus_ops Let_def split: worker.splits choice.splits list.splits option.splits prod.splits)

lemma wait_room_run:
  "wait_room sink opts n b e = (d, None) \<Longrightarrow> bus_run sink opts (b\<lparr>bu_calls := cs @ [(True, e)]\<rparr>) (d\<lparr>bu_calls := cs\<rparr>)"
proof (induction sink opts n b e rule: wait_room.induct)
  case (1 sink opts n b e)
  let ?b = "b\<lparr>bu_calls := cs @ [(True, e)]\<rparr>"
  show ?case
  proof (cases "room opts b")
    case True
    then have "bus_step sink opts (Send (length cs)) ?b = Some (d\<lparr>bu_calls := cs\<rparr>)"
      using "1.prems" by (auto simp: wait_room.simps [of sink opts n b e] room_def finish_call_def accept_def notify_def)
    with bus_run.start bus_run.step show ?thesis by metis
  next
    case False
    with "1.prems" obtain m c where m: "n = Suc m" "worker_step sink opts TakeRow b = Some c" "wait_room sink opts m c e = (d, None)"
      by (auto simp: wait_room.simps [of sink opts n b e] split: nat.splits option.splits)
    have "bus_step sink opts (Work TakeRow) ?b = Some (c\<lparr>bu_calls := cs @ [(True, e)]\<rparr>)"
      using m(2) by (simp add: worker_step_calls del: worker_step.simps)
    then have "bus_run sink opts ?b (c\<lparr>bu_calls := cs @ [(True, e)]\<rparr>)" by (rule bus_run.step [OF bus_run.start])
    with "1.IH" [OF False m(1,2,3)] run_trans show ?thesis by metis
  qed
qed

lemma wait_room_calls: "wait_room sink opts n b e = (d, r) \<Longrightarrow> bu_calls d = bu_calls b"
proof (induction sink opts n b e rule: wait_room.induct)
  case (1 sink opts n b e)
  then show ?case
    using worker_step_accepted [of sink opts TakeRow b]
    by (auto simp: wait_room.simps [of sink opts n b e] accept_def notify_def split: if_splits nat.splits option.splits)
qed

lemma PublishWait_run: "PublishWait sink opts n b e = (d, None) \<Longrightarrow> bus_run sink opts b d"
proof -
  assume p: "PublishWait sink opts n b e = (d, None)"
  then have w: "\<not> bu_closed b" "wait_room sink opts n b e = (d, None)" by (auto simp: PublishWait_def split: if_splits)
  have "bus_step sink opts (Call True e) b = Some (b\<lparr>bu_calls := bu_calls b @ [(True, e)]\<rparr>)" using w(1) by (simp add: start_call_def)
  then have "bus_run sink opts b (b\<lparr>bu_calls := bu_calls b @ [(True, e)]\<rparr>)" by (rule bus_run.step [OF bus_run.start])
  moreover have "d\<lparr>bu_calls := bu_calls b\<rparr> = d" using wait_room_calls [OF w(2)] by simp
  ultimately show ?thesis using wait_room_run [OF w(2), of "bu_calls b"] run_trans by metis
qed

locale publisher =
  fixes publish :: "'b \<Rightarrow> envelope \<Rightarrow> 'b \<times> string option" and accepted :: "'b \<Rightarrow> envelope list"
  assumes taken: "publish b e = (c, None) \<Longrightarrow> accepted c = accepted b @ [e]"
    and refused: "publish b e = (c, Some x) \<Longrightarrow> accepted c = accepted b"

subsection \<open>Polling\<close>

text \<open>
  What one reading of the ledger hands on: the rows whose ids were not sent, up to the first the bus does
  not take; with whether all of them were.
\<close>

fun send_new ::
  "('b \<Rightarrow> envelope \<Rightarrow> 'b \<times> string option) option \<Rightarrow> string list \<Rightarrow> 'b \<Rightarrow> envelope list \<Rightarrow> string list \<times> 'b \<times> bool" where
  "send_new publish sent b [] = (sent, b, True)"
| "send_new publish sent b (e # es) =
     (case publish of
        None \<Rightarrow> send_new publish sent b es
      | Some p \<Rightarrow>
          if ev_id e \<in> set sent then send_new publish sent b es
          else case p b e of
                 (c, None) \<Rightarrow> send_new publish (ev_id e # sent) c es
               | (c, Some err) \<Rightarrow> (sent, c, False))"

definition ids :: "envelope list \<Rightarrow> string set" where
  "ids es = ev_id ` set es"

lemma ids_Nil [simp]: "ids [] = {}"
  by (simp add: ids_def)

lemma ids_Cons [simp]: "ids (e # es) = insert (ev_id e) (ids es)"
  by (simp add: ids_def)

lemma ids_append [simp]: "ids (xs @ ys) = ids xs \<union> ids ys"
  by (auto simp: ids_def)

text \<open>The ids the ledger dropped are forgotten, after a reading that was sent whole.\<close>

definition poll ::
  "('b \<Rightarrow> envelope \<Rightarrow> 'b \<times> string option) option \<Rightarrow> string list \<Rightarrow> 'b \<Rightarrow> envelope list \<Rightarrow> string list \<times> 'b \<times> bool" where
  "poll publish sent b envs =
     (case send_new publish sent b envs of
        (sent, c, ok) \<Rightarrow> (if ok then filter (\<lambda>i. i \<in> ids envs) sent else sent, c, ok))"

definition Once ::
  "('b \<Rightarrow> envelope \<Rightarrow> 'b \<times> string option) option \<Rightarrow> string list \<Rightarrow> 'b \<Rightarrow> (world, string list \<times> 'b) io" where
  "Once publish sent b =
     io_bind (attempt Read) (\<lambda>r.
       ret (case r of Inl _ \<Rightarrow> (sent, b) | Inr envs \<Rightarrow> (case poll publish sent b envs of (sent, c, _) \<Rightarrow> (sent, c))))"

text \<open>One reading after another, as \<open>Run\<close> makes them; the last says whether it was sent whole.\<close>

fun polls ::
  "('b \<Rightarrow> envelope \<Rightarrow> 'b \<times> string option) option \<Rightarrow> string list \<Rightarrow> 'b \<Rightarrow> envelope list list \<Rightarrow> string list \<times> 'b \<times> bool" where
  "polls publish sent b [] = (sent, b, True)"
| "polls publish sent b [l] = poll publish sent b l"
| "polls publish sent b (l # k # ls) = (case poll publish sent b l of (sent, c, _) \<Rightarrow> polls publish sent c (k # ls))"

text \<open>An id the ledger dropped is not used again.\<close>

fun no_return :: "string set \<Rightarrow> string set \<Rightarrow> envelope list list \<Rightarrow> bool" where
  "no_return seen prev [] = True"
| "no_return seen prev (l # ls) \<longleftrightarrow>
     ids l \<inter> seen \<subseteq> prev \<and> no_return (seen \<union> ids l) (ids l) ls"

subsection \<open>What a publisher that keeps its word is sent\<close>

lemma distinct_ids: "distinct (map ev_id (xs @ ys)) \<longleftrightarrow> distinct (map ev_id xs) \<and> distinct (map ev_id ys) \<and> ids xs \<inter> ids ys = {}"
  by (simp add: ids_def)

lemma fresh_sets: "N \<subseteq> L \<Longrightarrow> L \<inter> A \<subseteq> P \<Longrightarrow> D \<subseteq> A \<Longrightarrow> D \<inter> P \<subseteq> S \<Longrightarrow> N \<inter> S = {} \<Longrightarrow> N \<inter> D = {}"
  by blast

lemma kept_sets: "L \<inter> (S \<union> N) \<subseteq> T \<Longrightarrow> L \<inter> A \<subseteq> P \<Longrightarrow> D \<subseteq> A \<Longrightarrow> D \<inter> P \<subseteq> S \<Longrightarrow> (D \<union> N) \<inter> L \<subseteq> T"
  by blast

context publisher
begin

lemma accepted_step:
  assumes "publish b e = (c, r)"
  shows "accepted c = accepted b @ (if r = None then [e] else [])"
  using assms taken refused by (cases r) auto

text \<open>One reading: what is sent is new, distinct and of the reading, and remembered.\<close>

lemma send_new_spec:
  "send_new (Some publish) sent b es = (sent', c, ok) \<Longrightarrow>
   \<exists>new. accepted c = accepted b @ new \<and> distinct (map ev_id new) \<and> ids new \<inter> set sent = {} \<and>
     set sent' = set sent \<union> ids new \<and> ids new \<subseteq> ids es \<and> (ok \<longrightarrow> ids es \<subseteq> set sent')"
proof (induction es arbitrary: sent b)
  case (Cons e es)
  show ?case
  proof (cases "ev_id e \<in> set sent")
    case True
    with Cons.prems have "send_new (Some publish) sent b es = (sent', c, ok)" by simp
    from Cons.IH [OF this] obtain xs where "accepted c = accepted b @ xs" "distinct (map ev_id xs)"
      "ids xs \<inter> set sent = {}" "set sent' = set sent \<union> ids xs" "ids xs \<subseteq> ids es"
      "ok \<longrightarrow> ids es \<subseteq> set sent'" by blast
    with True show ?thesis unfolding ids_Cons by (intro exI [of _ xs]) blast
  next
    case new: False
    obtain d r where p: "publish b e = (d, r)" by fastforce
    show ?thesis
    proof (cases r)
      case None
      with Cons.prems new p have "send_new (Some publish) (ev_id e # sent) d es = (sent', c, ok)" by simp
      from Cons.IH [OF this] obtain xs where xs: "accepted c = accepted d @ xs" "distinct (map ev_id xs)"
        "ids xs \<inter> set (ev_id e # sent) = {}" "set sent' = set (ev_id e # sent) \<union> ids xs"
        "ids xs \<subseteq> ids es" "ok \<longrightarrow> ids es \<subseteq> set sent'" by blast
      with accepted_step [OF p] None new show ?thesis by (intro exI [of _ "e # xs"]) (auto simp: ids_def)
    next
      case (Some x)
      with Cons.prems new p have "sent' = sent" "c = d" "\<not> ok" by auto
      with accepted_step [OF p] Some show ?thesis by (intro exI [of _ "[]"]) (auto simp: ids_def)
    qed
  qed
qed (simp add: ids_def)

text \<open>Readings one after another: nothing known as sent, and nothing sent, is sent again.\<close>

lemma poll_spec:
  assumes "poll (Some publish) sent b es = (sent', c, ok)"
  shows "\<exists>new. accepted c = accepted b @ new \<and> distinct (map ev_id new) \<and> ids new \<inter> set sent = {} \<and>
     ids new \<subseteq> ids es \<and> set sent' \<subseteq> set sent \<union> ids new \<and>
     ids es \<inter> (set sent \<union> ids new) \<subseteq> set sent' \<and> (ok \<longrightarrow> set sent' = ids es)"
proof -
  obtain s where s: "send_new (Some publish) sent b es = (s, c, ok)"
    "sent' = (if ok then filter (\<lambda>i. i \<in> ids es) s else s)"
    using assms by (auto simp: poll_def split: prod.splits)
  from send_new_spec [OF s(1)] obtain new where "accepted c = accepted b @ new" "distinct (map ev_id new)"
    "ids new \<inter> set sent = {}" "set s = set sent \<union> ids new" "ids new \<subseteq> ids es"
    "ok \<longrightarrow> ids es \<subseteq> set s" by blast
  with s(2) show ?thesis by (cases ok) (intro exI [of _ new], auto)+
qed

lemma polls_spec:
  assumes "polls (Some publish) sent b ls = (sent', c, ok)" "no_return seen prev ls"
    and "set sent \<subseteq> done" "done \<subseteq> seen" "done \<inter> prev \<subseteq> set sent"
  shows "\<exists>new. accepted c = accepted b @ new \<and> distinct (map ev_id new) \<and> ids new \<inter> done = {} \<and>
     set sent' \<subseteq> done \<union> ids new \<and> (ok \<and> ls \<noteq> [] \<longrightarrow> ids (last ls) = set sent')"
  using assms
proof (induction ls arbitrary: sent b seen prev "done")
  case Nil
  then show ?case by (auto simp: ids_def)
next
  case (Cons l ls)
  obtain s d k where p: "poll (Some publish) sent b l = (s, d, k)" by (metis prod_cases3)
  from poll_spec [OF p] obtain new where new: "accepted d = accepted b @ new" "distinct (map ev_id new)"
      "ids new \<inter> set sent = {}" "ids new \<subseteq> ids l" "set s \<subseteq> set sent \<union> ids new"
      "ids l \<inter> (set sent \<union> ids new) \<subseteq> set s" "k \<longrightarrow> set s = ids l" by blast
  have fresh: "ids new \<inter> done = {}"
    by (rule fresh_sets [OF new(4) _ Cons.prems(4,5) new(3)]) (use Cons.prems(2) in simp)
  show ?case
  proof (cases ls)
    case Nil
    with p Cons.prems(1) new fresh Cons.prems(3) show ?thesis by (intro exI [of _ new]) auto
  next
    case (Cons m ms)
    let ?done = "done \<union> ids new"
    have run: "polls (Some publish) s d ls = (sent', c, ok)" using p Cons.prems(1) Cons by simp
    have later: "no_return (seen \<union> ids l) (ids l) ls" using Cons.prems(2) by simp
    have kept: "set s \<subseteq> ?done" "?done \<subseteq> seen \<union> ids l" using new(4,5) Cons.prems(3,4) by blast+
    have known: "?done \<inter> ids l \<subseteq> set s"
      by (rule kept_sets [OF new(6) _ Cons.prems(4,5)]) (use Cons.prems(2) in simp)
    from Cons.IH [OF run later kept known] obtain xs where xs: "accepted c = accepted d @ xs" "distinct (map ev_id xs)"
        "ids xs \<inter> ?done = {}" "set sent' \<subseteq> ?done \<union> ids xs" "ok \<and> ls \<noteq> [] \<longrightarrow> ids (last ls) = set sent'"
      by blast
    have "distinct (map ev_id (new @ xs))" using xs(2,3) new(2) unfolding distinct_ids by blast
    moreover have "ids (new @ xs) \<inter> done = {}" using fresh xs(3) unfolding ids_append by blast
    moreover have "set sent' \<subseteq> done \<union> ids (new @ xs)" using xs(4) unfolding ids_append by blast
    moreover have "accepted c = accepted b @ (new @ xs)" using xs(1) new(1) by simp
    moreover have "ok \<and> l # ls \<noteq> [] \<longrightarrow> ids (last (l # ls)) = set sent'" using xs(5) Cons by simp
    ultimately show ?thesis by blast
  qed
qed

end

subsection \<open>The bus keeps its word\<close>

lemma PublishWait_accepted:
  "PublishWait sink opts n b e = (c, r) \<Longrightarrow> bu_accepted c = bu_accepted b @ (if r = None then [e] else [])"
  using wait_room_accepted [of sink opts n b e c r] by (auto simp: PublishWait_def split: if_splits)

interpretation waiting_bus: publisher "PublishWait sink opts n" bu_accepted for sink opts n
  by unfold_locales (auto dest: PublishWait_accepted)

text \<open>
  C38: Each decision reaches the bus once. Over any readings of the ledger, in which an id that left it is
  not used again, and whatever the bus refuses on the way, the decisions the poller hands over have
  different ids; and when the last reading was sent whole, every decision then in the ledger was among
  them (\<open>Once\<close>, \<open>PublishWait\<close>).
\<close>
theorem decisions_reach_bus_once:
  assumes "polls (Some (PublishWait sink opts n)) [] b ls = (sent, c, ok)" "no_return {} {} ls"
  shows "\<exists>new. bu_accepted c = bu_accepted b @ new \<and> distinct (map ev_id new) \<and>
    (ok \<and> ls \<noteq> [] \<longrightarrow> ids (last ls) \<subseteq> ids new)"
proof -
  from waiting_bus.polls_spec [OF assms, of "{}"] obtain new where
    "bu_accepted c = bu_accepted b @ new" "distinct (map ev_id new)" "set sent \<subseteq> ids new"
    "ok \<and> ls \<noteq> [] \<longrightarrow> ids (last ls) = set sent" by auto
  then show ?thesis by (intro exI [of _ new]) auto
qed

text \<open>A decision that stays while another comes and the first is cut.\<close>

definition decision_of :: "string \<Rightarrow> envelope" where
  "decision_of i = sample_event\<lparr>ev_id := i\<rparr>"

definition keeping :: "envelope list \<Rightarrow> envelope list \<Rightarrow> envelope list \<times> sink_error option" where
  "keeping rows xs = (rows @ xs, None)"

definition three_readings :: "envelope list list" where
  "three_readings = [[decision_of ''a''], [decision_of ''a'', decision_of ''b''], [decision_of ''b'', decision_of ''c'']]"

definition open_bus :: "(envelope, envelope list) bus" where
  "open_bus = NewAsync []"

definition three_polls :: "string list \<times> (envelope, envelope list) bus \<times> bool" where
  "three_polls = polls (Some (PublishWait keeping (new_options plain_options) 4)) [] open_bus three_readings"

theorem decisions_reach_bus_once_witness:
  "distinct (map ev_id (bu_accepted (fst (snd three_polls)))) \<and> {''b'', ''c''} \<subseteq> ids (bu_accepted (fst (snd three_polls)))"
proof -
  have ok: "snd (snd three_polls)" "no_return {} {} three_readings"
    by (code_simp, simp add: three_readings_def decision_of_def)
  have last: "ids (last three_readings) = {''b'', ''c''}" "three_readings \<noteq> []" "bu_accepted open_bus = []"
    by (simp_all add: three_readings_def decision_of_def open_bus_def NewAsync_def)
  have "polls (Some (PublishWait keeping (new_options plain_options) 4)) [] open_bus three_readings =
      (fst three_polls, fst (snd three_polls), True)"
    unfolding three_polls_def [symmetric] using ok(1) by (metis (full_types) prod.collapse)
  from decisions_reach_bus_once [OF this ok(2)] last show ?thesis by auto
qed

end
