(* ===== verification/GoText.thy ===== *)
theory GoText
  imports GoStrings
begin

text \<open>
  More of Go's \<open>strings\<close> package: suffixes, replacing one character, and the first marker of a
  list that a text contains or opens with.
\<close>

definition has_suffix :: "string \<Rightarrow> string \<Rightarrow> bool" where
  "has_suffix s p \<longleftrightarrow> has_prefix (rev s) (rev p)"

definition cut_suffix :: "string \<Rightarrow> string \<Rightarrow> string option" where
  "cut_suffix s p = (if has_suffix s p then Some (take (length s - length p) s) else None)"

definition trim_suffix :: "string \<Rightarrow> string \<Rightarrow> string" where
  "trim_suffix s p = (case cut_suffix s p of None \<Rightarrow> s | Some r \<Rightarrow> r)"

definition replace_char :: "char \<Rightarrow> char \<Rightarrow> string \<Rightarrow> string" where
  "replace_char a b s = map (\<lambda>c. if c = a then b else c) s"

text \<open>\<open>strings.TrimRight(s, cutset)\<close>.\<close>

definition trim_right :: "string \<Rightarrow> string \<Rightarrow> string" where
  "trim_right s cutset = rev (dropWhile (\<lambda>c. c \<in> set cutset) (rev s))"

lemma has_suffix_iff: "has_suffix s p \<longleftrightarrow> (\<exists>r. s = r @ p)"
  unfolding has_suffix_def has_prefix_iff by (metis rev_append rev_rev_ident)

lemma has_suffix_append [simp]: "has_suffix (r @ p) p"
  by (auto simp: has_suffix_iff)

lemma cut_suffix_Some_iff: "cut_suffix s p = Some r \<longleftrightarrow> s = r @ p"
  by (auto simp: cut_suffix_def has_suffix_iff)

lemma cut_suffix_None_iff: "cut_suffix s p = None \<longleftrightarrow> \<not> has_suffix s p"
  by (simp add: cut_suffix_def)

lemma trim_suffix_append [simp]: "trim_suffix (r @ p) p = r"
  by (simp add: trim_suffix_def cut_suffix_def)

lemma trim_suffix_idle: "\<not> has_suffix s p \<Longrightarrow> trim_suffix s p = s"
  by (simp add: trim_suffix_def cut_suffix_def)

lemma has_suffix_trim: "has_suffix s p \<Longrightarrow> trim_suffix s p @ p = s"
  by (auto simp: has_suffix_iff)

lemma length_replace_char [simp]: "length (replace_char a b s) = length s"
  by (simp add: replace_char_def)

lemma split_part_length:
  assumes "p \<in> set (split sep s)"
  shows "length p \<le> length s"
  using assms
proof (induction s arbitrary: p)
  case (Cons c s)
  show ?case
  proof (cases "c = sep")
    case True
    with Cons.prems consider "p = []" | "p \<in> set (split sep s)" by auto
    then show ?thesis using Cons.IH [of p] by cases auto
  next
    case False
    with Cons.prems show ?thesis
      using Cons.IH by (cases "split sep s") (auto intro: le_SucI)
  qed
qed simp

lemma split_first_length: "split sep s = w # v # ws \<Longrightarrow> p \<in> set (v # ws) \<Longrightarrow> length p < length s"
proof (induction s arbitrary: w)
  case (Cons c s)
  show ?case
  proof (cases "c = sep")
    case True
    with Cons.prems have "p \<in> set (split sep s)" by auto
    then show ?thesis using split_part_length by fastforce
  next
    case False
    with Cons.prems obtain w' where "split sep s = w' # v # ws"
      by (cases "split sep s") auto
    from Cons.IH [OF this Cons.prems(2)] show ?thesis by simp
  qed
qed simp

end
