(* ===== verification/Pricing.thy ===== *)
theory Pricing
  imports PlanFacts GoText "HOL-Library.AList"
begin

text \<open>
  What a request costs (\<open>internal/contexts/spend/spend/\<close>): the rate card and how a model is
  found on it (\<open>pricing.go\<close>), the dated cards of an engine and the cost of an event
  (\<open>engine.go\<close>), and the context windows (\<open>contextwindow.go\<close>).

  A card's \<open>map[Key]Rate\<close> is the list of its rows in the order a \<open>range\<close> over it visits
  them, which Go leaves open; \<open>rows_ok\<close> is that no key has two rows. The lemmas say that the
  lookup ends, that it does not depend on that order, which card prices an event, and that a
  cost splits the input tokens without overflow and is never negative.
\<close>

subsection \<open>Rates and rows\<close>

type_synonym provider = string

record rate =
  r_input :: f64
  r_output :: f64
  r_cached :: f64
  r_write :: f64
  r_write1h :: f64

definition no_rate :: rate where
  "no_rate = \<lparr>r_input = Fin 0, r_output = Fin 0, r_cached = Fin 0, r_write = Fin 0, r_write1h = Fin 0\<rparr>"

definition orRate :: "f64 \<Rightarrow> f64 \<Rightarrow> f64" where
  "orRate rate fallback = (if f_eq rate (Fin 0) then fallback else rate)"

definition EffectiveRate :: "rate \<Rightarrow> rate \<Rightarrow> rate" where
  "EffectiveRate r d =
     \<lparr>r_input = orRate (r_input r) (r_input d), r_output = orRate (r_output r) (r_output d),
      r_cached = orRate (r_cached r) (r_cached d), r_write = orRate (r_write r) (r_write d),
      r_write1h = orRate (r_write1h r) (r_write1h d)\<rparr>"

definition CacheReadRate :: "rate \<Rightarrow> f64" where
  "CacheReadRate r = orRate (r_cached r) (r_input r)"

definition CacheWriteRate :: "rate \<Rightarrow> f64" where
  "CacheWriteRate r = orRate (r_write r) (r_input r)"

definition CacheWrite1hRate :: "rate \<Rightarrow> f64" where
  "CacheWrite1hRate r = orRate (r_write1h r) (CacheWriteRate r)"

datatype price_key = Key (k_provider: provider) (k_model: string)

type_synonym rates = "(price_key \<times> rate) list"

record table =
  tb_currency :: string
  tb_rates :: rates

abbreviation rows_ok :: "rates \<Rightarrow> bool" where
  "rows_ok rows \<equiv> distinct (map fst rows)"

text \<open>\<open>fmt.Errorf("%w: ...", ErrUnknownModel)\<close> and its kin; \<open>is_unknown\<close> is \<open>errors.Is\<close>.\<close>

datatype price_error =
    ErrEmptyModel
  | ErrNoRate provider string
  | ErrUnknownModel
  | ErrNoProvider string
  | ErrAmbiguous string nat
  | ErrNoModels provider

fun is_unknown :: "price_error \<Rightarrow> bool" where
  "is_unknown (ErrNoModels p) = False"
| "is_unknown _ = True"

subsection \<open>Layering cards\<close>

definition MergeOverrides :: "table \<Rightarrow> table \<Rightarrow> table" where
  "MergeOverrides t over =
     \<lparr>tb_currency = (if tb_currency over \<noteq> [] then tb_currency over else tb_currency t),
      tb_rates = foldl (\<lambda>m (k, v). AList.update k (case map_of m k of Some b \<Rightarrow> EffectiveRate v b | None \<Rightarrow> v) m)
                   (tb_rates t) (tb_rates over)\<rparr>"

definition Without :: "table \<Rightarrow> price_key list \<Rightarrow> table" where
  "Without t ks = \<lparr>tb_currency = tb_currency t, tb_rates = filter (\<lambda>(k, v). k \<notin> set ks) (tb_rates t)\<rparr>"

subsection \<open>Where a model's name leads\<close>

definition gatewayModel :: "string \<Rightarrow> string" where
  "gatewayModel model0 =
     (let i = length (takeWhile (\<lambda>c. c \<noteq> CHR ''['') model0);
          model = (if 0 < i \<and> i < length model0 \<and> has_suffix model0 '']'' then take i model0 else model0)
      in case split (CHR ''/'') model of
           [a, b, c, d] \<Rightarrow> if a = ''accounts'' \<and> (c = ''models'' \<or> c = ''routers'') then d else model
         | _ \<Rightarrow> model)"

definition localRuntimes :: "provider list" where
  "localRuntimes = [''ollama'', ''llamacpp'', ''lmstudio'']"

definition LocalModel :: "provider \<Rightarrow> string \<Rightarrow> bool" where
  "LocalModel provider model =
     (if to_lower provider \<notin> set localRuntimes then False
      else let (_, tag, ok) = cut (CHR '':'') model
           in \<not> ok \<or> (tag \<noteq> ''cloud'' \<and> \<not> has_suffix tag ''-cloud''))"

definition resellers :: "provider list" where "resellers = [''github'']"

definition vendorFamilies :: "(string \<times> provider) list" where
  "vendorFamilies =
     [(''claude-'', ''anthropic''), (''gpt-'', ''openai''), (''gemini-'', ''gemini''), (''grok-'', ''xai'')]"

definition resoldModel :: "provider \<Rightarrow> string \<Rightarrow> (provider \<times> string) option" where
  "resoldModel provider model =
     (if provider \<notin> set resellers then None
      else case find (\<lambda>(fam, vendor). has_prefix model fam) vendorFamilies of
             None \<Rightarrow> None
           | Some (fam, vendor) \<Rightarrow>
               Some (vendor, if vendor = ''anthropic'' then replace_char (CHR ''.'') (CHR ''-'') model else model))"

definition FreeVariantSuffix :: string where "FreeVariantSuffix = '':free''"

text \<open>The family row that matches the longest part of the name, none of length zero.\<close>

definition family_of :: "provider \<Rightarrow> string \<Rightarrow> price_key \<Rightarrow> string option" where
  "family_of provider model k =
     (if k_provider k \<noteq> provider \<or> \<not> has_suffix (k_model k) ''*'' then None
      else let fam = trim_suffix (k_model k) ''*''
           in if has_prefix model fam then Some fam else None)"

definition family_step :: "provider \<Rightarrow> string \<Rightarrow> nat \<times> rate option \<Rightarrow> price_key \<times> rate \<Rightarrow> nat \<times> rate option" where
  "family_step provider model acc kv =
     (case family_of provider model (fst kv) of
        None \<Rightarrow> acc
      | Some fam \<Rightarrow> if fst acc < length fam then (length fam, Some (snd kv)) else acc)"

definition family_rate :: "rates \<Rightarrow> provider \<Rightarrow> string \<Rightarrow> rate option" where
  "family_rate rows provider model = snd (foldl (family_step provider model) (0, None) rows)"

lemma gatewayModel_shorter: "gatewayModel m \<noteq> m \<Longrightarrow> length (gatewayModel m) < length m"
proof -
  assume ne: "gatewayModel m \<noteq> m"
  define i where "i = length (takeWhile (\<lambda>c. c \<noteq> CHR ''['') m)"
  define m' where "m' = (if 0 < i \<and> i < length m \<and> has_suffix m '']'' then take i m else m)"
  have m': "m' = m \<or> length m' < length m" by (simp add: m'_def)
  have d: "length d < length m'" if "split (CHR ''/'') m' = [a, b, c, d]" for a b c d
    using split_first_length [OF that, of d] by simp
  have "gatewayModel m = (case split (CHR ''/'') m' of
           [a, b, c, d] \<Rightarrow> if a = ''accounts'' \<and> (c = ''models'' \<or> c = ''routers'') then d else m'
         | _ \<Rightarrow> m')"
    by (simp add: gatewayModel_def i_def [symmetric] m'_def [symmetric])
  then have "gatewayModel m = m' \<or> length (gatewayModel m) < length m'"
    using d by (auto split: list.splits if_splits)
  with m' ne show ?thesis by auto
qed

lemma resoldModel_vendor:
  assumes "resoldModel p m = Some (v, m')"
  shows "p \<in> set resellers \<and> v \<notin> set resellers \<and> length m' = length m"
proof -
  obtain f where p: "p \<in> set resellers" and f: "find (\<lambda>(fam, vendor). has_prefix m fam) vendorFamilies = Some (f, v)"
    and m': "m' = (if v = ''anthropic'' then replace_char (CHR ''.'') (CHR ''-'') m else m)"
    using assms by (auto simp: resoldModel_def split: if_splits option.splits)
  have "(f, v) \<in> set vendorFamilies" using find_mem [OF f] by simp
  then have "v \<notin> set resellers" by (auto simp: vendorFamilies_def resellers_def)
  with p m' show ?thesis by simp
qed

subsection \<open>Looking a model up\<close>

function Lookup :: "rates \<Rightarrow> provider \<Rightarrow> string \<Rightarrow> (price_error, rate) result" where
  "Lookup rows provider model =
     (if model = [] then Inl ErrEmptyModel
      else case map_of rows (Key provider model) of
        Some r \<Rightarrow> Inr r
      | None \<Rightarrow>
          (case family_rate rows provider model of
             Some r \<Rightarrow> Inr r
           | None \<Rightarrow>
               if gatewayModel model \<noteq> model then Lookup rows provider (gatewayModel model)
               else if has_suffix model ''-latest'' \<and> trim_suffix model ''-latest'' \<noteq> []
                    then Lookup rows provider (trim_suffix model ''-latest'')
               else if has_suffix model FreeVariantSuffix then Inr no_rate
               else if LocalModel provider model then Inr no_rate
               else (case resoldModel provider model of
                       Some (vendor, vendorModel) \<Rightarrow> Lookup rows vendor vendorModel
                     | None \<Rightarrow> Inl (ErrNoRate provider model))))"
  by pat_completeness auto
termination
proof (relation "measures [\<lambda>(rows, p, m). if p \<in> set resellers then 1 else 0, \<lambda>(rows, p, m). length m]", goal_cases)
  case 1 then show ?case by simp
next
  case (2 rows provider model) then show ?case by (simp add: gatewayModel_shorter)
next
  case (3 rows provider model)
  then show ?case by (auto simp: has_suffix_iff)
next
  case (4 rows provider model x vendor vendorModel)
  then show ?case using resoldModel_vendor by auto
qed

declare Lookup.simps [simp del]

definition providersIn :: "rates \<Rightarrow> provider list" where
  "providersIn rows = remdups (map (\<lambda>(k, v). k_provider k) rows)"

definition LookupAnyProvider :: "rates \<Rightarrow> string \<Rightarrow> (price_error, rate \<times> provider) result" where
  "LookupAnyProvider rows model =
     (if model = [] then Inl ErrEmptyModel
      else let found = concat (map (\<lambda>p. case Lookup rows p model of Inl e \<Rightarrow> [] | Inr r \<Rightarrow> [(r, p)]) (providersIn rows))
           in case found of
                [] \<Rightarrow> Inl (ErrNoProvider model)
              | [(r, p)] \<Rightarrow> Inr (r, p)
              | _ \<Rightarrow> Inl (ErrAmbiguous model (length found)))"

text \<open>\<open>Cheapest\<close>: the running best is its cost, below zero at first, and the row it came from.\<close>

definition cheap_step :: "provider \<Rightarrow> f64 \<times> string \<times> rate \<Rightarrow> price_key \<times> rate \<Rightarrow> f64 \<times> string \<times> rate" where
  "cheap_step provider acc kv =
     (if k_provider (fst kv) \<noteq> provider then acc
      else let cost = f_add (r_input (snd kv)) (r_output (snd kv))
           in if f_lt (fst acc) (Fin 0) \<or> f_lt cost (fst acc) then (cost, k_model (fst kv), snd kv) else acc)"

definition Cheapest :: "rates \<Rightarrow> provider \<Rightarrow> (price_error, string \<times> rate) result" where
  "Cheapest rows provider =
     (let (cost, m, r) = foldl (cheap_step provider) (Fin (- 1), [], no_rate) rows
      in if f_lt cost (Fin 0) then Inl (ErrNoModels provider) else Inr (m, r))"

subsection \<open>Dated cards\<close>

record dated_table =
  dt_from :: gotime
  dt_table :: table

type_synonym engine = "dated_table list"

definition normalizeTables :: "dated_table list \<Rightarrow> dated_table list" where
  "normalizeTables tables =
     sort_key (\<lambda>d. t_ns (dt_from d))
       (map (\<lambda>d. if tb_currency (dt_table d) = [] then d\<lparr>dt_table := (dt_table d)\<lparr>tb_currency := ''USD''\<rparr>\<rparr> else d) tables)"

definition empty_table :: table where
  "empty_table = \<lparr>tb_currency = [], tb_rates = []\<rparr>"

definition NewDatedEngine :: "dated_table list \<Rightarrow> engine" where
  "NewDatedEngine tables =
     normalizeTables (if tables = [] then [\<lparr>dt_from = zero_time, dt_table = empty_table\<rparr>] else tables)"

definition NewEngine :: "table \<Rightarrow> engine" where
  "NewEngine t = NewDatedEngine [\<lparr>dt_from = zero_time, dt_table = t\<rparr>]"

text \<open>The engine after the swap; an empty set is ignored.\<close>

definition Replace :: "engine \<Rightarrow> dated_table list \<Rightarrow> engine" where
  "Replace e tables = (let normalized = normalizeTables tables in if normalized = [] then e else normalized)"

fun index_from :: "nat \<Rightarrow> nat \<Rightarrow> dated_table list \<Rightarrow> gotime \<Rightarrow> nat" where
  "index_from i selected [] ts = selected"
| "index_from i selected (d # ds) ts = (if After (dt_from d) ts then selected else index_from (Suc i) i ds ts)"

definition indexFor :: "dated_table list \<Rightarrow> gotime \<Rightarrow> nat" where
  "indexFor tables ts = index_from 0 0 tables ts"

definition TableAt :: "engine \<Rightarrow> gotime \<Rightarrow> table" where
  "TableAt e ts = dt_table (e ! indexFor e ts)"

definition latest_table :: "engine \<Rightarrow> table" where
  "latest_table e = dt_table (e ! (length e - 1))"

definition Currency :: "engine \<Rightarrow> string" where
  "Currency e = tb_currency (latest_table e)"

abbreviation card_lookup :: "provider \<Rightarrow> string \<Rightarrow> dated_table \<Rightarrow> (price_error, rate) result" where
  "card_lookup provider model d \<equiv> Lookup (tb_rates (dt_table d)) provider model"

fun first_priced :: "provider \<Rightarrow> string \<Rightarrow> dated_table list \<Rightarrow> rate option" where
  "first_priced provider model [] = None"
| "first_priced provider model (d # ds) =
     (case card_lookup provider model d of Inr r \<Rightarrow> Some r | Inl e \<Rightarrow> first_priced provider model ds)"

definition LookupAt :: "engine \<Rightarrow> provider \<Rightarrow> string \<Rightarrow> gotime \<Rightarrow> (price_error, rate) result" where
  "LookupAt e provider model ts =
     (let i = indexFor e ts
      in case card_lookup provider model (e ! i) of
           Inr r \<Rightarrow> Inr r
         | Inl err \<Rightarrow>
             if \<not> is_unknown err then Inl err
             else (case first_priced provider model (rev (take i e)) of
                     Some r \<Rightarrow> Inr r
                   | None \<Rightarrow> (case first_priced provider model (drop (Suc i) e) of
                                Some r \<Rightarrow> Inr r
                              | None \<Rightarrow> Inl err)))"

text \<open>
  The cards of \<open>internal/contexts/spend/pricing/effective.go\<close>: each snapshot layered on the full
  catalogue without the rows verified by hand, and the operator's negotiated rates on every one.
  The catalogue and its pinned keys are embedded data and so arguments; a snapshot is when it was
  fetched and its table.
\<close>

definition SnapshotsToDatedTables :: "table \<Rightarrow> price_key list \<Rightarrow> (gotime \<times> table) list \<Rightarrow> dated_table list" where
  "SnapshotsToDatedTables catalogue pinned snaps =
     map (\<lambda>(fetched, t). \<lparr>dt_from = fetched, dt_table = MergeOverrides catalogue (Without t pinned)\<rparr>) snaps"

definition EffectiveTables :: "table \<Rightarrow> price_key list \<Rightarrow> (gotime \<times> table) list \<Rightarrow> table \<Rightarrow> dated_table list" where
  "EffectiveTables catalogue pinned snaps overrides =
     (let dated = SnapshotsToDatedTables catalogue pinned snaps
      in if tb_rates overrides \<noteq> [] then map (\<lambda>d. d\<lparr>dt_table := MergeOverrides (dt_table d) overrides\<rparr>) dated else dated)"

definition EffectiveEngine :: "table \<Rightarrow> price_key list \<Rightarrow> (gotime \<times> table) list \<Rightarrow> table \<Rightarrow> engine" where
  "EffectiveEngine catalogue pinned snaps overrides = NewDatedEngine (EffectiveTables catalogue pinned snaps overrides)"

subsection \<open>The cost of an event\<close>

text \<open>
  A prompt event. The counts are Go's \<open>int64\<close>; \<open>token_split_exact\<close> below shows that the cost's
  arithmetic on them never leaves that range, so they are integers here.
\<close>

record prompt_event =
  pe_PromptHash :: string
  pe_Provider :: provider
  pe_RequestModel :: string
  pe_ResponseModel :: string
  pe_InputTokens :: int
  pe_OutputTokens :: int
  pe_TotalTokens :: int
  pe_CachedInputTokens :: int
  pe_CacheWriteInputTokens :: int
  pe_CacheWrite1hInputTokens :: int
  pe_ContextSize :: int
  pe_MaxOutputTokens :: int
  pe_Latency :: duration
  pe_TimeToFirstToken :: duration
  pe_Streaming :: bool
  pe_Status :: int
  pe_FinishReason :: string
  pe_ToolCallCount :: int
  pe_ErrorCode :: string
  pe_CacheHit :: bool
  pe_CostUSD :: f64
  pe_CostMeasured :: bool
  pe_TokenSource :: string
  pe_CostSource :: string
  pe_WorkflowID :: string
  pe_AgentID :: string
  pe_SessionID :: string
  pe_UserID :: string

definition zero_event :: prompt_event where
  "zero_event =
     \<lparr>pe_PromptHash = [], pe_Provider = [], pe_RequestModel = [], pe_ResponseModel = [],
      pe_InputTokens = 0, pe_OutputTokens = 0, pe_TotalTokens = 0, pe_CachedInputTokens = 0,
      pe_CacheWriteInputTokens = 0, pe_CacheWrite1hInputTokens = 0, pe_ContextSize = 0,
      pe_MaxOutputTokens = 0, pe_Latency = 0, pe_TimeToFirstToken = 0, pe_Streaming = False,
      pe_Status = 0, pe_FinishReason = [], pe_ToolCallCount = 0, pe_ErrorCode = [],
      pe_CacheHit = False, pe_CostUSD = Fin 0, pe_CostMeasured = False, pe_TokenSource = [],
      pe_CostSource = [], pe_WorkflowID = [], pe_AgentID = [], pe_SessionID = [], pe_UserID = []\<rparr>"

definition CostSourceMetered :: string where "CostSourceMetered = ''metered''"
definition CostSourcePlanIncluded :: string where "CostSourcePlanIncluded = ''plan_included''"
definition CostSourceTrial :: string where "CostSourceTrial = ''trial''"

definition clampTokens :: "int \<Rightarrow> int \<Rightarrow> int" where
  "clampTokens n limit = max 0 (min n limit)"

definition perMillion :: "int \<Rightarrow> f64 \<Rightarrow> f64" where
  "perMillion tokens rate =
     (if tokens \<le> 0 \<or> f_le rate (Fin 0) then Fin 0
      else f_div (f_mul (f_of_int tokens) rate) (Fin 1000000))"

text \<open>The portions of the input: read from the cache, written, written for an hour, and the rest.\<close>

definition token_split :: "prompt_event \<Rightarrow> int \<times> int \<times> int \<times> int" where
  "token_split p =
     (let cached = clampTokens (pe_CachedInputTokens p) (pe_InputTokens p);
          written = clampTokens (pe_CacheWriteInputTokens p) (pe_InputTokens p - cached);
          written1h = clampTokens (pe_CacheWrite1hInputTokens p) written;
          uncached = pe_InputTokens p - cached - written
      in (cached, written, written1h, uncached))"

definition rate_cost :: "rate \<Rightarrow> prompt_event \<Rightarrow> f64" where
  "rate_cost rate p =
     (let (cached, written, written1h, uncached) = token_split p
      in f_add (f_add (f_add (f_add (perMillion uncached (r_input rate))
                                     (perMillion cached (CacheReadRate rate)))
                              (perMillion (written - written1h) (CacheWriteRate rate)))
                       (perMillion written1h (CacheWrite1hRate rate)))
               (perMillion (pe_OutputTokens p) (r_output rate)))"

definition billed_model :: "prompt_event \<Rightarrow> string" where
  "billed_model p = (if pe_ResponseModel p \<noteq> [] then pe_ResponseModel p else pe_RequestModel p)"

definition ComputeAt :: "engine \<Rightarrow> prompt_event option \<Rightarrow> gotime \<Rightarrow> (price_error, f64) result" where
  "ComputeAt e ev ts =
     (case ev of None \<Rightarrow> Inl ErrUnknownModel
      | Some p \<Rightarrow>
          if pe_CostSource p = CostSourcePlanIncluded \<or> pe_CostSource p = CostSourceTrial then Inr (Fin 0)
          else (case LookupAt e (pe_Provider p) (billed_model p) ts of
                  Inl err \<Rightarrow> Inl err
                | Inr rate \<Rightarrow> Inr (rate_cost rate p)))"

definition Compute :: "engine \<Rightarrow> prompt_event option \<Rightarrow> (price_error, f64) result" where
  "Compute e ev = ComputeAt e ev zero_time"

text \<open>\<open>ApplyAt\<close>: the error, if any, and the event as it leaves it.\<close>

definition ApplyAt :: "engine \<Rightarrow> prompt_event option \<Rightarrow> gotime \<Rightarrow> price_error option \<times> prompt_event option" where
  "ApplyAt e ev ts =
     (case ComputeAt e ev ts of
        Inl err \<Rightarrow> (Some err, ev)
      | Inr c \<Rightarrow> (None, map_option (\<lambda>p. p\<lparr>pe_CostUSD := c\<rparr>) ev))"

definition Apply :: "engine \<Rightarrow> prompt_event option \<Rightarrow> price_error option \<times> prompt_event option" where
  "Apply e ev = ApplyAt e ev zero_time"

text \<open>An envelope's payload is a prompt event or another one, which costs nothing here.\<close>

definition ApplyToEnvelope ::
  "engine \<Rightarrow> (gotime \<times> prompt_event option) option \<Rightarrow> price_error option \<times> (gotime \<times> prompt_event option) option" where
  "ApplyToEnvelope e env =
     (case env of None \<Rightarrow> (None, None)
      | Some (ts, None) \<Rightarrow> (None, Some (ts, None))
      | Some (ts, Some p) \<Rightarrow> (let (err, p') = ApplyAt e (Some p) ts in (err, Some (ts, p'))))"

subsection \<open>Context windows\<close>

definition WindowStandard :: int where "WindowStandard = 200000"
definition WindowLong :: int where "WindowLong = 1000000"

definition longWindowPrefixes :: "string list" where
  "longWindowPrefixes =
     [''claude-opus-5'', ''claude-opus-4-8'', ''claude-opus-4-7'', ''claude-opus-4-6'',
      ''claude-sonnet-5'', ''claude-fable-5'', ''claude-mythos'']"

definition standardWindowPrefixes :: "string list" where
  "standardWindowPrefixes =
     [''claude-opus-4-5'', ''claude-opus-4-1'', ''claude-opus-4'',
      ''claude-sonnet-4-6'', ''claude-sonnet-4-5'', ''claude-sonnet-4'',
      ''claude-haiku-4-5'', ''claude-haiku-3-5'', ''claude-3-5'',
      ''claude-3-7'', ''claude-3-opus'', ''claude-3-haiku'']"

definition window_step :: "string \<Rightarrow> int \<Rightarrow> nat \<times> int option \<Rightarrow> string \<Rightarrow> nat \<times> int option" where
  "window_step m window acc p =
     (if has_prefix m p \<and> fst acc < length p then (length p, Some window) else acc)"

definition matchLongest :: "string \<Rightarrow> string list \<Rightarrow> string list \<Rightarrow> int option" where
  "matchLongest m standard long =
     snd (foldl (window_step m WindowLong) (foldl (window_step m WindowStandard) (0, None) standard) long)"

definition ContextWindow :: "string \<Rightarrow> int option" where
  "ContextWindow model =
     (let m = to_lower (trim_space model)
      in if m = [] then None
         else if contains m ''[1m]'' then Some WindowLong
         else matchLongest m standardWindowPrefixes longWindowPrefixes)"

subsection \<open>The lookup does not depend on the order of the rows\<close>

lemma family_of_key: "family_of p m k = Some f \<Longrightarrow> k = Key p (f @ ''*'') \<and> has_prefix m f"
  by (cases k) (auto simp: family_of_def Let_def has_suffix_trim split: if_splits)

lemma family_of_iff: "family_of p m (Key p (f @ ''*'')) = (if has_prefix m f then Some f else None)"
  by (simp add: family_of_def Let_def)

text \<open>The row a name's family gives: it matches, not by nothing, and none matches more.\<close>

definition longest_family :: "rates \<Rightarrow> provider \<Rightarrow> string \<Rightarrow> string \<Rightarrow> rate \<Rightarrow> bool" where
  "longest_family rows p m f r \<longleftrightarrow>
     (Key p (f @ ''*''), r) \<in> set rows \<and> f \<noteq> [] \<and> has_prefix m f \<and>
     (\<forall>(k, r')\<in>set rows. \<forall>f'. family_of p m k = Some f' \<longrightarrow> length f' \<le> length f)"

lemma longest_family_bound:
  "longest_family rows p m f r \<Longrightarrow> (k, r') \<in> set rows \<Longrightarrow> family_of p m k = Some f' \<Longrightarrow> length f' \<le> length f"
  unfolding longest_family_def by blast

lemma longest_family_row:
  "longest_family rows p m f r \<Longrightarrow>
   (Key p (f @ ''*''), r) \<in> set rows \<and> f \<noteq> [] \<and> has_prefix m f \<and> family_of p m (Key p (f @ ''*'')) = Some f"
  unfolding longest_family_def by (simp add: family_of_iff)

lemma longest_family_snoc:
  "longest_family rows p m f r \<Longrightarrow> (\<And>f'. family_of p m k = Some f' \<Longrightarrow> length f' \<le> length f) \<Longrightarrow>
   longest_family (rows @ [(k, v)]) p m f r"
  by (auto simp: longest_family_def)

lemma family_fold:
  assumes "foldl (family_step p m) (0, None) rows = (n, ro)"
  shows "(case ro of
            None \<Rightarrow> n = 0 \<and> (\<forall>(k, r)\<in>set rows. \<forall>f. family_of p m k = Some f \<longrightarrow> f = [])
          | Some r \<Rightarrow> \<exists>f. longest_family rows p m f r \<and> n = length f)"
  using assms
proof (induction rows arbitrary: n ro rule: rev_induct)
  case (snoc kv rows)
  obtain k v where kv: "kv = (k, v)" by (cases kv)
  obtain n0 ro0 where fold: "foldl (family_step p m) (0, None) rows = (n0, ro0)" by (cases "foldl (family_step p m) (0, None) rows")
  note IH = snoc.IH [OF fold]
  have step: "family_step p m (n0, ro0) (k, v) = (n, ro)" using snoc.prems fold kv by simp
  show ?case
  proof (cases "family_of p m k")
    case None
    with step have "n = n0" "ro = ro0" by (simp_all add: family_step_def)
    with IH None show ?thesis by (cases ro) (fastforce simp: kv intro: longest_family_snoc)+
  next
    case (Some f)
    note k = family_of_key [OF Some]
    show ?thesis
    proof (cases "n0 < length f")
      case True
      with step Some have ro: "ro = Some v" "n = length f" by (auto simp: family_step_def)
      have "length f' \<le> length f" if "(k', r') \<in> set rows" "family_of p m k' = Some f'" for k' r' f'
        using IH that True by (cases ro0) (fastforce simp: longest_family_def)+
      with k True Some have "longest_family (rows @ [kv]) p m f v"
        by (auto simp: longest_family_def kv)
      with ro show ?thesis by auto
    next
      case False
      with step Some have ro: "ro = ro0" "n = n0" by (auto simp: family_step_def)
      with IH Some False show ?thesis by (cases ro) (fastforce simp: kv intro: longest_family_snoc)+
    qed
  qed
qed simp

lemma family_rate_Some: "family_rate rows p m = Some r \<Longrightarrow> \<exists>f. longest_family rows p m f r"
  using family_fold [of p m rows "fst (foldl (family_step p m) (0, None) rows)" "Some r"]
  by (auto simp: family_rate_def prod_eq_iff)

lemma family_rate_None:
  "family_rate rows p m = None \<Longrightarrow> (k, r) \<in> set rows \<Longrightarrow> family_of p m k = Some f \<Longrightarrow> f = []"
  using family_fold [of p m rows "fst (foldl (family_step p m) (0, None) rows)" None]
  by (auto simp: family_rate_def prod_eq_iff)

lemma longest_family_unique:
  assumes "rows_ok rows" and "longest_family rows p m f r" and "longest_family rows p m f' r'"
  shows "r = r'"
proof -
  note f = longest_family_row [OF assms(2)] and f' = longest_family_row [OF assms(3)]
  have "length f = length f'"
    using longest_family_bound [OF assms(2), of _ r' f'] longest_family_bound [OF assms(3), of _ r f] f f'
    by (auto intro: antisym)
  moreover have "has_prefix m f" "has_prefix m f'" using f f' by simp_all
  ultimately have eq: "f' = f" by (auto simp: has_prefix_iff)
  then have "(Key p (f @ ''*''), r) \<in> set rows" "(Key p (f @ ''*''), r') \<in> set rows" using f f' by simp_all
  then show ?thesis using assms(1) by (metis map_of_is_SomeI option.inject)
qed

lemma family_rate_iff:
  assumes "rows_ok rows"
  shows "family_rate rows p m = Some r \<longleftrightarrow> (\<exists>f. longest_family rows p m f r)"
proof
  assume "\<exists>f. longest_family rows p m f r"
  then obtain f where f: "longest_family rows p m f r" by blast
  then have "family_rate rows p m \<noteq> None"
    using family_rate_None [of rows p m "Key p (f @ ''*'')" r f] by (auto simp: longest_family_def family_of_iff)
  then obtain r' where r': "family_rate rows p m = Some r'" by blast
  then show "family_rate rows p m = Some r"
    using family_rate_Some [OF r'] longest_family_unique [OF assms _ f] by auto
qed (rule family_rate_Some)

lemma family_rate_order:
  assumes "rows_ok rows" and "rows_ok rows'" and "set rows' = set rows"
  shows "family_rate rows' p m = family_rate rows p m"
proof -
  have "longest_family rows' p m f r = longest_family rows p m f r" for f r
    by (simp add: longest_family_def assms(3))
  then have "family_rate rows' p m = Some r \<longleftrightarrow> family_rate rows p m = Some r" for r
    using assms by (simp add: family_rate_iff)
  then show ?thesis by (metis not_None_eq)
qed

lemma Lookup_rows:
  assumes "rows_ok rows" and "rows_ok rows'" and "set rows' = set rows"
  shows "Lookup rows' p m = Lookup rows p m"
  using assms
proof (induction rows p m rule: Lookup.induct)
  case (1 rows p m)
  note prems = 1(4-6)
  have "map_of rows' = map_of rows" using prems by (simp add: map_of_inject_set)
  moreover have "family_rate rows' p m = family_rate rows p m" by (rule family_rate_order [OF prems])
  ultimately show ?case
    using 1(1-3) prems
    by (subst (1 2) Lookup.simps) (auto split: option.split)
qed

lemma Lookup_exact: "m \<noteq> [] \<Longrightarrow> rows_ok rows \<Longrightarrow> (Key p m, r) \<in> set rows \<Longrightarrow> Lookup rows p m = Inr r"
  by (subst Lookup.simps) simp

lemma Lookup_family:
  "m \<noteq> [] \<Longrightarrow> rows_ok rows \<Longrightarrow> map_of rows (Key p m) = None \<Longrightarrow> longest_family rows p m f r \<Longrightarrow> Lookup rows p m = Inr r"
  using family_rate_iff [of rows p m r] by (subst Lookup.simps) auto

lemma Lookup_unknown: "Lookup rows p m = Inl err \<Longrightarrow> is_unknown err"
proof (induction rows p m rule: Lookup.induct)
  case (1 rows p m)
  show ?case
  proof (cases "m = [] \<or> map_of rows (Key p m) \<noteq> None \<or> family_rate rows p m \<noteq> None")
    case True
    with 1(4) show ?thesis
      unfolding Lookup.simps [of rows p m] by (auto split: if_splits option.splits)
  next
    case False
    then have c: "m \<noteq> []" "map_of rows (Key p m) = None" "family_rate rows p m = None" by auto
    note IH = 1(1) [OF c] 1(2) [OF c] 1(3) [OF c]
    have "Lookup rows p m = Inl err" by (rule 1(4))
    with c IH show ?thesis
      unfolding Lookup.simps [of rows p m]
      by (simp split: if_splits option.splits prod.splits) auto
  qed
qed

subsection \<open>Layering\<close>

lemma merge_fold:
  assumes "rows_ok over"
  shows "map_of (foldl (\<lambda>m (k, v). AList.update k (case map_of m k of Some b \<Rightarrow> EffectiveRate v b | None \<Rightarrow> v) m) rows over) k =
         (case map_of over k of
            None \<Rightarrow> map_of rows k
          | Some v \<Rightarrow> Some (case map_of rows k of Some b \<Rightarrow> EffectiveRate v b | None \<Rightarrow> v))"
  using assms
proof (induction over arbitrary: rows)
  case (Cons kv over)
  obtain k' v where kv: "kv = (k', v)" by (cases kv)
  have "map_of over k' = None" using Cons.prems kv by (simp add: map_of_eq_None_iff)
  then show ?case using Cons by (auto simp: kv update_conv' split: option.split)
qed simp

lemma MergeOverrides_row:
  assumes "rows_ok (tb_rates over)"
  shows "map_of (tb_rates (MergeOverrides t over)) k =
         (case map_of (tb_rates over) k of
            None \<Rightarrow> map_of (tb_rates t) k
          | Some v \<Rightarrow> Some (case map_of (tb_rates t) k of Some b \<Rightarrow> EffectiveRate v b | None \<Rightarrow> v))"
  by (simp add: MergeOverrides_def merge_fold [OF assms])

lemma MergeOverrides_rows_ok: "rows_ok (tb_rates t) \<Longrightarrow> rows_ok (tb_rates (MergeOverrides t over))"
proof -
  have "rows_ok (foldl (\<lambda>m (k, v). AList.update k (g m k v) m) rows ys)" if "rows_ok rows"
    for g and rows :: rates and ys
    using that by (induction ys arbitrary: rows) (auto simp: distinct_update split: prod.split)
  then show "rows_ok (tb_rates t) \<Longrightarrow> ?thesis" by (simp add: MergeOverrides_def)
qed

lemma Without_row: "map_of (tb_rates (Without t ks)) k = (if k \<in> set ks then None else map_of (tb_rates t) k)"
proof -
  have "map_of (filter (\<lambda>(k, v). k \<notin> set ks) rows) k = (if k \<in> set ks then None else map_of rows k)" for rows :: rates
    by (induction rows) auto
  then show ?thesis by (simp add: Without_def)
qed

lemma Without_rows_ok: "rows_ok (tb_rates t) \<Longrightarrow> rows_ok (tb_rates (Without t ks))"
  by (simp add: Without_def distinct_map_filter)

subsection \<open>The card that prices an event\<close>

definition in_force :: "gotime \<Rightarrow> dated_table \<Rightarrow> bool" where
  "in_force ts d \<longleftrightarrow> \<not> After (dt_from d) ts"

abbreviation cards_sorted :: "engine \<Rightarrow> bool" where
  "cards_sorted e \<equiv> sorted (map (\<lambda>d. t_ns (dt_from d)) e)"

lemma normalizeTables_sorted: "cards_sorted (normalizeTables tables)"
  by (simp add: normalizeTables_def)

lemma normalizeTables_Nil [simp]: "normalizeTables tables = [] \<longleftrightarrow> tables = []"
proof -
  have "length (normalizeTables tables) = length tables" by (simp add: normalizeTables_def)
  then show ?thesis by (metis length_0_conv)
qed

lemma NewDatedEngine_ok: "cards_sorted (NewDatedEngine tables) \<and> NewDatedEngine tables \<noteq> []"
  by (simp add: NewDatedEngine_def normalizeTables_sorted)

lemma Replace_ok: "cards_sorted e \<Longrightarrow> e \<noteq> [] \<Longrightarrow> cards_sorted (Replace e tables) \<and> Replace e tables \<noteq> []"
  by (auto simp: Replace_def Let_def normalizeTables_sorted)

lemma index_from_eq:
  "index_from i sel ds ts =
     (let n = length (takeWhile (in_force ts) ds) in if n = 0 then sel else i + n - 1)"
  by (induction i sel ds ts rule: index_from.induct) (auto simp: Let_def in_force_def)

lemma indexFor_eq: "indexFor e ts = length (takeWhile (in_force ts) e) - 1"
  by (simp add: indexFor_def index_from_eq Let_def)

lemma sorted_in_force:
  assumes "cards_sorted e" and "d \<in> set (dropWhile (in_force ts) e)"
  shows "\<not> in_force ts d"
  using assms
proof (induction e)
  case (Cons c e)
  show ?case
  proof (cases "in_force ts c")
    case False
    with Cons.prems show ?thesis by (auto simp: in_force_def After_def split: if_splits)
  qed (use Cons in auto)
qed simp

definition unlisted :: "provider \<Rightarrow> string \<Rightarrow> dated_table \<Rightarrow> bool" where
  "unlisted p m d \<longleftrightarrow> (\<exists>err. card_lookup p m d = Inl err)"

lemma first_priced_at:
  "card_lookup p m d = Inr r \<Longrightarrow> \<forall>c\<in>set as. unlisted p m c \<Longrightarrow> first_priced p m (as @ d # bs) = Some r"
  by (induction as) (auto simp: unlisted_def)

lemma first_priced_Some:
  "first_priced p m ds = Some r \<Longrightarrow>
   \<exists>as d bs. ds = as @ d # bs \<and> card_lookup p m d = Inr r \<and> (\<forall>c\<in>set as. unlisted p m c)"
proof (induction ds)
  case (Cons c ds)
  show ?case
  proof (cases "card_lookup p m c")
    case (Inl e)
    with Cons obtain as d bs where "ds = as @ d # bs" "card_lookup p m d = Inr r" "\<forall>c\<in>set as. unlisted p m c" by auto
    with Inl have "c # ds = (c # as) @ d # bs \<and> card_lookup p m d = Inr r \<and> (\<forall>c\<in>set (c # as). unlisted p m c)"
      by (auto simp: unlisted_def)
    then show ?thesis by blast
  next
    case (Inr r')
    with Cons.prems have "c # ds = [] @ c # ds \<and> card_lookup p m c = Inr r \<and> (\<forall>c\<in>set []. unlisted p m c)" by simp
    then show ?thesis by blast
  qed
qed simp

lemma first_priced_None: "first_priced p m ds = None \<longleftrightarrow> (\<forall>c\<in>set ds. unlisted p m c)"
  by (induction ds) (auto simp: unlisted_def split: sum.splits)

lemma first_priced_append:
  "first_priced p m (as @ bs) = (case first_priced p m as of Some r \<Rightarrow> Some r | None \<Rightarrow> first_priced p m bs)"
  by (induction as) (auto split: sum.splits)

lemma lookup_three:
  "(case card_lookup p m d of
      Inr r \<Rightarrow> Inr r
    | Inl err \<Rightarrow>
        if \<not> is_unknown err then Inl err
        else (case first_priced p m as of
                Some r \<Rightarrow> Inr r
              | None \<Rightarrow> (case first_priced p m bs of Some r \<Rightarrow> Inr r | None \<Rightarrow> Inl err))) = Inr r \<longleftrightarrow>
   first_priced p m (d # as @ bs) = Some r"
proof (cases "card_lookup p m d")
  case (Inl err)
  have un: "is_unknown err" by (rule Lookup_unknown [OF Inl])
  have "first_priced p m (d # as @ bs) = first_priced p m (as @ bs)" by (simp only: first_priced.simps Inl sum.case)
  then show ?thesis
    by (simp only: Inl sum.case un first_priced_append not_True_eq_False if_False split: option.split) auto
next
  case (Inr r')
  then show ?thesis by simp
qed

lemma LookupAt_parts:
  assumes "e \<noteq> []"
  shows "LookupAt e p m ts = Inr r \<longleftrightarrow>
    first_priced p m (rev (takeWhile (in_force ts) e) @ dropWhile (in_force ts) e) = Some r"
proof -
  define n where "n = length (takeWhile (in_force ts) e)"
  have le: "n \<le> length e" by (simp add: n_def length_takeWhile_le)
  have parts: "takeWhile (in_force ts) e = take n e" "dropWhile (in_force ts) e = drop n e"
    unfolding n_def by (rule takeWhile_eq_take, rule dropWhile_eq_drop)
  have at: "indexFor e ts = n - 1" by (simp add: indexFor_eq n_def)
  have step: "LookupAt e p m ts = Inr r \<longleftrightarrow>
      first_priced p m (e ! (n - 1) # rev (take (n - 1) e) @ drop (Suc (n - 1)) e) = Some r"
    unfolding LookupAt_def at Let_def by (rule lookup_three)
  have "e ! (n - 1) # rev (take (n - 1) e) @ drop (Suc (n - 1)) e = rev (take n e) @ drop n e"
  proof (cases n)
    case 0
    with assms show ?thesis by (cases e) auto
  next
    case (Suc k)
    then have "take n e = take k e @ [e ! k]" using le by (simp add: take_Suc_conv_app_nth)
    with Suc show ?thesis by simp
  qed
  with step show ?thesis by (simp only: parts)
qed

text \<open>The latest card in force that prices the model, else the earliest that does.\<close>

definition nearest_card :: "engine \<Rightarrow> provider \<Rightarrow> string \<Rightarrow> gotime \<Rightarrow> dated_table \<Rightarrow> rate \<Rightarrow> bool" where
  "nearest_card e p m ts d r \<longleftrightarrow>
     (\<exists>as bs. e = as @ d # bs \<and> card_lookup p m d = Inr r \<and>
        (if in_force ts d then \<forall>c\<in>set bs. in_force ts c \<longrightarrow> unlisted p m c
         else \<forall>c\<in>set as. unlisted p m c))"


lemma LookupAt_nearest:
  assumes e: "e \<noteq> []" "cards_sorted e"
  shows "LookupAt e p m ts = Inr r \<longleftrightarrow> (\<exists>d. nearest_card e p m ts d r)"
proof -
  define es where "es = takeWhile (in_force ts) e"
  define ls where "ls = dropWhile (in_force ts) e"
  have split: "e = es @ ls" by (simp add: es_def ls_def)
  have es: "in_force ts c" if "c \<in> set es" for c using that set_takeWhileD by (fastforce simp: es_def)
  have ls: "\<not> in_force ts c" if "c \<in> set ls" for c using that sorted_in_force [OF e(2)] by (simp add: ls_def)
  have "first_priced p m (rev es @ ls) = Some r \<longleftrightarrow> (\<exists>d. nearest_card e p m ts d r)"
  proof
    assume one: "first_priced p m (rev es @ ls) = Some r"
    show "\<exists>d. nearest_card e p m ts d r"
    proof (cases "first_priced p m (rev es)")
      case None
      then obtain as d bs where d: "ls = as @ d # bs" "card_lookup p m d = Inr r" "\<forall>c\<in>set as. unlisted p m c"
        using one first_priced_Some [of p m ls r] by (auto simp: first_priced_append)
      have "e = (es @ as) @ d # bs" "\<not> in_force ts d" "\<forall>c\<in>set (es @ as). unlisted p m c"
        using split d ls [of d] None by (auto simp: first_priced_None)
      with d(2) show ?thesis unfolding nearest_card_def by metis
    next
      case (Some r')
      then obtain as d bs where d: "rev es = as @ d # bs" "card_lookup p m d = Inr r" "\<forall>c\<in>set as. unlisted p m c"
        using one first_priced_Some [of p m "rev es" r] by (auto simp: first_priced_append)
      have "es = rev bs @ d # rev as" using d(1) by (simp add: rev_eq_append_conv)
      then have "e = rev bs @ d # (rev as @ ls)" "in_force ts d" "\<forall>c\<in>set (rev as @ ls). in_force ts c \<longrightarrow> unlisted p m c"
        using split d(3) es [of d] ls by auto
      with d(2) show ?thesis unfolding nearest_card_def by metis
    qed
  next
    assume "\<exists>d. nearest_card e p m ts d r"
    then obtain as d bs where d: "e = as @ d # bs" "card_lookup p m d = Inr r"
      and near: "if in_force ts d then \<forall>c\<in>set bs. in_force ts c \<longrightarrow> unlisted p m c else \<forall>c\<in>set as. unlisted p m c"
      unfolding nearest_card_def by blast
    show "first_priced p m (rev es @ ls) = Some r"
    proof (cases "in_force ts d")
      case True
      have asf: "in_force ts c" if "c \<in> set as" for c
        using that e(2) True by (auto simp: d(1) sorted_append in_force_def After_def)
      then have esd: "es = as @ d # takeWhile (in_force ts) bs" by (simp add: es_def d(1) True takeWhile_append2)
      have "\<forall>c\<in>set (rev (takeWhile (in_force ts) bs)). unlisted p m c"
        using near True by (auto dest: set_takeWhileD)
      from first_priced_at [OF d(2) this, of "rev as @ ls"] show ?thesis by (simp add: esd)
    next
      case False
      then have "\<forall>c\<in>set as. unlisted p m c" using near by simp
      have "d \<in> set ls" using False es split d(1) by (metis UnE in_set_conv_decomp set_append)
      then obtain xs ys where lsd: "ls = xs @ d # ys" "d \<notin> set xs" by (meson split_list_first)
      have "es @ xs = as \<or> d \<in> set as"
        using split d(1) lsd es False
        by (auto simp: append_eq_append_conv2 Cons_eq_append_conv append_eq_Cons_conv)
      moreover have "d \<notin> set as" using \<open>\<forall>c\<in>set as. unlisted p m c\<close> d(2) by (auto simp: unlisted_def)
      ultimately have "\<forall>c\<in>set (rev es @ xs). unlisted p m c" using \<open>\<forall>c\<in>set as. unlisted p m c\<close> by auto
      from first_priced_at [OF d(2) this, of ys] show ?thesis by (simp add: lsd(1))
    qed
  qed
  with LookupAt_parts [OF e(1)] show ?thesis by (simp add: es_def ls_def)
qed

subsection \<open>Costs\<close>

text \<open>Zero or more, infinity included, and a rate that is a number.\<close>

definition f_nonneg :: "f64 \<Rightarrow> bool" where
  "f_nonneg v \<longleftrightarrow> f_le (Fin 0) v"

definition is_number :: "f64 \<Rightarrow> bool" where
  "is_number v = (case v of Fin x \<Rightarrow> True | _ \<Rightarrow> False)"

definition rate_finite :: "rate \<Rightarrow> bool" where
  "rate_finite r \<longleftrightarrow> is_number (r_input r) \<and> is_number (r_output r) \<and> is_number (r_cached r) \<and>
     is_number (r_write r) \<and> is_number (r_write1h r)"

lemma f_nonneg_simps [simp]: "f_nonneg (Fin x) \<longleftrightarrow> 0 \<le> x" "f_nonneg PInf" "\<not> f_nonneg NInf" "\<not> f_nonneg NaN"
  by (auto simp: f_nonneg_def f_le_def f_lt_def f_eq_def)

lemma f_nonneg_cases: "f_nonneg v \<longleftrightarrow> v = PInf \<or> (\<exists>x. v = Fin x \<and> 0 \<le> x)"
  by (cases v) auto

lemma round_half_even_nonneg: "0 \<le> x \<Longrightarrow> 0 \<le> round_half_even x"
  using round_half_even_mono [of 0 x] round_half_even_int [of 0] by simp

lemma pow2_pos: "0 < pow2 k"
  by (simp add: pow2_def)

lemma round64_nonneg: "0 \<le> x \<Longrightarrow> f_nonneg (round64 x)"
proof -
  assume "0 \<le> x"
  then have "0 \<le> of_int (round_half_even (\<bar>x\<bar> / pow2 k)) * pow2 k" for k
    using round_half_even_nonneg [of "\<bar>x\<bar> / pow2 k"] pow2_pos [of k]
    by (simp add: less_imp_le)
  with \<open>0 \<le> x\<close> show ?thesis by (simp add: round64_def Let_def del: of_int_mult)
qed

lemma f_add_nonneg: "f_nonneg a \<Longrightarrow> f_nonneg b \<Longrightarrow> f_nonneg (f_add a b)"
  by (cases a; cases b) (simp_all add: round64_nonneg)

lemma perMillion_nonneg: "is_number rate \<Longrightarrow> f_nonneg (perMillion n rate)"
proof -
  assume "is_number rate"
  then obtain x where x: "rate = Fin x" by (auto simp: is_number_def split: f64.splits)
  show ?thesis
  proof (cases "n \<le> 0 \<or> x \<le> 0")
    case False
    then have "f_nonneg (f_of_int n)" unfolding f_of_int_def by (intro round64_nonneg) simp
    then have "f_nonneg (f_mul (f_of_int n) (Fin x))"
      using False by (cases "f_of_int n") (simp_all add: f_sign_def f_inf_def round64_nonneg)
    then have "f_nonneg (f_div (f_mul (f_of_int n) (Fin x)) (Fin 1000000))"
      by (cases "f_mul (f_of_int n) (Fin x)") (simp_all add: f_sign_def f_inf_def round64_nonneg)
    then show ?thesis using False by (simp add: perMillion_def x)
  qed (simp add: perMillion_def x)
qed

lemma orRate_finite: "is_number a \<Longrightarrow> is_number b \<Longrightarrow> is_number (orRate a b)"
  by (simp add: orRate_def)

lemma rate_cost_nonneg: "rate_finite r \<Longrightarrow> f_nonneg (rate_cost r p)"
  unfolding rate_cost_def rate_finite_def CacheReadRate_def CacheWriteRate_def CacheWrite1hRate_def
  by (auto split: prod.split intro!: f_add_nonneg perMillion_nonneg orRate_finite)

lemma no_rate_finite [simp]: "rate_finite no_rate"
  by (simp add: rate_finite_def no_rate_def is_number_def)

lemma Lookup_rate_from:
  "Lookup rows p m = Inr r \<Longrightarrow> r = no_rate \<or> (\<exists>k. (k, r) \<in> set rows)"
proof (induction rows p m rule: Lookup.induct)
  case (1 rows p m)
  show ?case
  proof (cases "m = [] \<or> map_of rows (Key p m) \<noteq> None \<or> family_rate rows p m \<noteq> None")
    case True
    have "Lookup rows p m = Inr r" by (rule 1(4))
    with True show ?thesis
      unfolding Lookup.simps [of rows p m]
      by (auto simp: longest_family_def split: if_splits option.splits dest!: map_of_SomeD family_rate_Some)
  next
    case False
    then have c: "m \<noteq> []" "map_of rows (Key p m) = None" "family_rate rows p m = None" by auto
    note IH = 1(1) [OF c] 1(2) [OF c] 1(3) [OF c]
    have "Lookup rows p m = Inr r" by (rule 1(4))
    with c IH show ?thesis
      unfolding Lookup.simps [of rows p m]
      by (simp split: if_splits option.splits prod.splits)
  qed
qed

lemma first_priced_card: "first_priced p m ds = Some r \<Longrightarrow> \<exists>d\<in>set ds. card_lookup p m d = Inr r"
  using first_priced_Some by fastforce

lemma LookupAt_card: "e \<noteq> [] \<Longrightarrow> LookupAt e p m ts = Inr r \<Longrightarrow> \<exists>d\<in>set e. card_lookup p m d = Inr r"
  using first_priced_card [of p m "rev (takeWhile (in_force ts) e) @ dropWhile (in_force ts) e" r]
  by (auto simp: LookupAt_parts dest: set_takeWhileD set_dropWhileD)

definition engine_finite :: "engine \<Rightarrow> bool" where
  "engine_finite e \<longleftrightarrow> (\<forall>d\<in>set e. \<forall>(k, r)\<in>set (tb_rates (dt_table d)). rate_finite r)"

lemma Compute_nonneg:
  assumes "e \<noteq> []" "engine_finite e" "ComputeAt e ev ts = Inr c"
  shows "f_nonneg c"
proof -
  obtain p where p: "ev = Some p" using assms(3) by (cases ev) (auto simp: ComputeAt_def)
  show ?thesis
  proof (cases "pe_CostSource p = CostSourcePlanIncluded \<or> pe_CostSource p = CostSourceTrial")
    case True
    with assms(3) p show ?thesis by (auto simp: ComputeAt_def)
  next
    case False
    with assms(3) p obtain r where r: "LookupAt e (pe_Provider p) (billed_model p) ts = Inr r" and c: "c = rate_cost r p"
      by (auto simp: ComputeAt_def split: sum.splits)
    have "rate_finite r"
      using LookupAt_card [OF assms(1) r] Lookup_rate_from assms(2) by (fastforce simp: engine_finite_def)
    with c show ?thesis by (simp add: rate_cost_nonneg)
  qed
qed

text \<open>The portions add up to the input and lie between it and zero, so no 64-bit count overflows.\<close>

lemma token_split_parts:
  "case token_split p of (cached, written, written1h, uncached) \<Rightarrow>
     cached + written + uncached = pe_InputTokens p \<and> written1h \<le> written \<and>
     0 \<le> cached \<and> 0 \<le> written1h \<and> cached + written \<le> max 0 (pe_InputTokens p) \<and>
     min 0 (pe_InputTokens p) \<le> uncached \<and> uncached \<le> max 0 (pe_InputTokens p)"
  by (auto simp: token_split_def clampTokens_def Let_def min_def max_def)

lemma window_fold:
  assumes "foldl (window_step m w) (n, v) ps = (n', v')"
  shows "n \<le> n' \<and> (\<forall>p\<in>set ps. has_prefix m p \<longrightarrow> length p \<le> n') \<and>
    ((n', v') = (n, v) \<or> (\<exists>p\<in>set ps. has_prefix m p \<and> length p = n' \<and> v' = Some w))"
  using assms
proof (induction ps arbitrary: n' v' rule: rev_induct)
  case (snoc p ps)
  obtain n1 v1 where fold: "foldl (window_step m w) (n, v) ps = (n1, v1)"
    by (cases "foldl (window_step m w) (n, v) ps")
  have step: "window_step m w (n1, v1) p = (n', v')" using snoc.prems fold by simp
  note IH = snoc.IH [OF fold]
  show ?case
  proof (cases "has_prefix m p \<and> n1 < length p")
    case True
    with step have "n' = length p" "v' = Some w" by (auto simp: window_step_def)
    with IH True show ?thesis by fastforce
  next
    case False
    with step have "n' = n1" "v' = v1" by (auto simp: window_step_def split: if_splits)
    with IH False show ?thesis by auto
  qed
qed simp

text \<open>The window is that of the longest family of either list the name opens with.\<close>

lemma matchLongest_longest:
  assumes "matchLongest m standard long = Some w"
  shows "\<exists>p. has_prefix m p \<and> (\<forall>q\<in>set standard \<union> set long. has_prefix m q \<longrightarrow> length q \<le> length p) \<and>
    (p \<in> set standard \<and> w = WindowStandard \<or> p \<in> set long \<and> w = WindowLong)"
proof -
  obtain n1 v1 where f1: "foldl (window_step m WindowStandard) (0, None) standard = (n1, v1)" by fastforce
  obtain n2 v2 where f2: "foldl (window_step m WindowLong) (n1, v1) long = (n2, v2)" by fastforce
  have w: "v2 = Some w" using assms f1 f2 by (simp add: matchLongest_def)
  note a = window_fold [OF f1] and b = window_fold [OF f2]
  have upper: "length q \<le> n2" if "q \<in> set standard \<union> set long" "has_prefix m q" for q
    using a b that by fastforce
  from b consider "n2 = n1" "v1 = Some w" | p where "p \<in> set long" "has_prefix m p" "length p = n2" "w = WindowLong"
    using w by auto
  then show ?thesis
  proof cases
    case 1
    then obtain p where "p \<in> set standard" "has_prefix m p" "length p = n2" "w = WindowStandard" using a by auto
    with upper show ?thesis by blast
  next
    case (2 p)
    with upper show ?thesis by blast
  qed
qed

lemma windows_read:
  "ContextWindow ''claude-sonnet-4-6'' = Some 200000"
  "ContextWindow ''Claude-Sonnet-4-6[1m] '' = Some 1000000"
  "ContextWindow ''claude-opus-4-6-20260101'' = Some 1000000"
  "ContextWindow ''gpt-5'' = None"
  by code_simp+

text \<open>
  Rows kept by hand survive a fetched snapshot (\<open>Without\<close> before \<open>MergeOverrides\<close>), every
  other row of the snapshot lands, and what it leaves at zero it takes from the row it replaces.
\<close>

lemma pinned_rows_survive:
  assumes "rows_ok (tb_rates fetched)"
  shows "map_of (tb_rates (MergeOverrides t (Without fetched pinned))) k =
    (if k \<in> set pinned then map_of (tb_rates t) k
     else case map_of (tb_rates fetched) k of
            None \<Rightarrow> map_of (tb_rates t) k
          | Some v \<Rightarrow> Some (case map_of (tb_rates t) k of Some b \<Rightarrow> EffectiveRate v b | None \<Rightarrow> v))"
  by (simp add: MergeOverrides_row [OF Without_rows_ok [OF assms]] Without_row)

text \<open>
  Every card of the running engine keeps the catalogue's verified rows unless the operator's own
  negotiated rates set them.
\<close>

lemma EffectiveTables_pinned:
  assumes "d \<in> set (EffectiveTables catalogue pinned snaps overrides)" and "k \<in> set pinned"
    and "\<And>ts t. (ts, t) \<in> set snaps \<Longrightarrow> rows_ok (tb_rates t)" and "rows_ok (tb_rates overrides)"
  shows "map_of (tb_rates (dt_table d)) k =
    (case map_of (tb_rates overrides) k of
       None \<Rightarrow> map_of (tb_rates catalogue) k
     | Some v \<Rightarrow> Some (case map_of (tb_rates catalogue) k of Some b \<Rightarrow> EffectiveRate v b | None \<Rightarrow> v))"
proof -
  have layered: "map_of (tb_rates (MergeOverrides catalogue (Without t pinned))) k = map_of (tb_rates catalogue) k"
    if "(ts, t) \<in> set snaps" for ts t
    using pinned_rows_survive [OF assms(3) [OF that], of catalogue pinned k] assms(2) by simp
  show ?thesis
  proof (cases "tb_rates overrides = []")
    case True
    with assms(1) obtain ts t where "(ts, t) \<in> set snaps" "dt_table d = MergeOverrides catalogue (Without t pinned)"
      by (auto simp: EffectiveTables_def SnapshotsToDatedTables_def)
    with layered True show ?thesis by simp
  next
    case False
    with assms(1) obtain ts t where i: "(ts, t) \<in> set snaps"
      "dt_table d = MergeOverrides (MergeOverrides catalogue (Without t pinned)) overrides"
      by (auto simp: EffectiveTables_def SnapshotsToDatedTables_def)
    show ?thesis by (simp add: i(2) MergeOverrides_row [OF assms(4)] layered [OF i(1)] split: option.split)
  qed
qed

text \<open>A model priced for no vendor in particular has one rate, whichever order the vendors come in.\<close>

lemma LookupAnyProvider_unique:
  assumes "LookupAnyProvider rows m = Inr (r, p)"
  shows "Lookup rows p m = Inr r \<and>
    (\<forall>q r'. q \<in> k_provider ` fst ` set rows \<longrightarrow> Lookup rows q m = Inr r' \<longrightarrow> q = p)"
proof -
  define hits where "hits q = (case Lookup rows q m of Inl e \<Rightarrow> [] | Inr r \<Rightarrow> [(r, q)])" for q
  have one: "concat (map hits (providersIn rows)) = [(r, p)]"
    using assms by (auto simp: LookupAnyProvider_def hits_def [symmetric] Let_def split: if_splits list.splits)
  have mem: "(r', q) \<in> set (concat (map hits (providersIn rows))) \<longleftrightarrow> q \<in> set (providersIn rows) \<and> Lookup rows q m = Inr r'" for r' q
    by (auto simp: hits_def split: sum.splits)
  have "set (providersIn rows) = k_provider ` fst ` set rows" by (force simp: providersIn_def)
  with mem one show ?thesis by (auto simp del: set_concat)
qed

subsection \<open>Properties\<close>

text \<open>
  A model's price on a card does not depend on the order in which Go visits the card's rows:
  two orders of the same rows, each key once, give the same rate or the same error, through the
  exact row, the longest family row and every name the lookup falls back to.
\<close>

theorem price_order_free:
  assumes "rows_ok rows" and "rows_ok rows'" and "set rows' = set rows"
  shows "Lookup rows' p m = Lookup rows p m"
  by (rule Lookup_rows [OF assms])

definition usd :: "rat \<Rightarrow> rat \<Rightarrow> rate" where
  "usd i out = no_rate\<lparr>r_input := Fin i, r_output := Fin out\<rparr>"

definition small_card :: rates where
  "small_card =
     [(Key ''openai'' ''gpt-4o*'', usd 5 15), (Key ''openai'' ''gpt-4o-mini*'', usd 1 2),
      (Key ''anthropic'' ''claude-opus-4-6'', usd 15 75)]"

theorem price_order_free_witness:
  "Lookup (rev small_card) ''openai'' ''gpt-4o-mini-2024'' = Lookup small_card ''openai'' ''gpt-4o-mini-2024''"
proof (rule price_order_free)
  show "rows_ok small_card" "rows_ok (rev small_card)" by (simp_all add: small_card_def)
qed simp

lemma small_card_prices:
  "Lookup small_card ''openai'' ''gpt-4o-mini-2024'' = Inr (usd 1 2)"
  "Lookup small_card ''openai'' ''gpt-4o-2024'' = Inr (usd 5 15)"
  "Lookup small_card ''github'' ''claude-opus-4.6'' = Inr (usd 15 75)"
  "Lookup small_card ''groq'' ''kimi:free'' = Inr no_rate"
  "Lookup small_card ''ollama'' ''glm-4.6:cloud'' = Inl (ErrNoRate ''ollama'' ''glm-4.6:cloud'')"
  by code_simp+

text \<open>
  C36: An event's rate is that of the nearest card in time that prices its model: the latest card
  in force at the event whose rows price it and, when none in force does, the earliest later
  one. Without such a card there is no rate.
\<close>

theorem card_nearest_in_time:
  assumes "e \<noteq> []" and "cards_sorted e"
  shows "LookupAt e p m ts = Inr r \<longleftrightarrow> (\<exists>d. nearest_card e p m ts d r)"
  by (rule LookupAt_nearest [OF assms])

definition day_card :: "int \<Rightarrow> rates \<Rightarrow> dated_table" where
  "day_card n rows = \<lparr>dt_from = \<lparr>t_ns = n, t_off = 0\<rparr>, dt_table = \<lparr>tb_currency = ''USD'', tb_rates = rows\<rparr>\<rparr>"

definition three_cards :: engine where
  "three_cards =
     [day_card 10 [(Key ''xai'' ''grok-3'', usd 3 9)],
      day_card 20 [(Key ''xai'' ''grok-4'', usd 2 6)],
      day_card 30 [(Key ''xai'' ''grok-4'', usd 1 3)]]"

theorem card_nearest_in_time_witness:
  "(\<exists>d. nearest_card three_cards ''xai'' ''grok-3'' \<lparr>t_ns = 25, t_off = 0\<rparr> d (usd 3 9)) \<and>
   (\<exists>d. nearest_card three_cards ''xai'' ''grok-4'' \<lparr>t_ns = 15, t_off = 0\<rparr> d (usd 2 6))"
proof -
  have e: "three_cards \<noteq> []" "cards_sorted three_cards" by (simp_all add: three_cards_def day_card_def)
  have "LookupAt three_cards ''xai'' ''grok-3'' \<lparr>t_ns = 25, t_off = 0\<rparr> = Inr (usd 3 9)" by code_simp
  moreover have "LookupAt three_cards ''xai'' ''grok-4'' \<lparr>t_ns = 15, t_off = 0\<rparr> = Inr (usd 2 6)" by code_simp
  ultimately show ?thesis using card_nearest_in_time [OF e] by blast
qed

text \<open>
  A cost splits the input tokens into those read from the cache, those written to it and the
  rest. Whatever counts a provider reports, the three add up to the input, the hour-long writes
  are some of the writes, and each lies between the input and zero, so that no count overflows.
\<close>

theorem token_split_exact:
  "case token_split p of (cached, written, written1h, uncached) \<Rightarrow>
     cached + written + uncached = pe_InputTokens p \<and> written1h \<le> written \<and>
     0 \<le> cached \<and> 0 \<le> written1h \<and> cached + written \<le> max 0 (pe_InputTokens p) \<and>
     min 0 (pe_InputTokens p) \<le> uncached \<and> uncached \<le> max 0 (pe_InputTokens p)"
  by (rule token_split_parts)

text \<open>
  No event has a negative cost: on cards whose rates are finite, whatever their signs and
  whatever counts the event reports, the cost computed is zero or more.
\<close>

theorem cost_never_negative:
  assumes "e \<noteq> []" and "engine_finite e" and "ComputeAt e ev ts = Inr c"
  shows "f_nonneg c"
  by (rule Compute_nonneg [OF assms])

definition cached_event :: prompt_event where
  "cached_event = zero_event\<lparr>pe_Provider := ''xai'', pe_RequestModel := ''grok-3'', pe_InputTokens := 1000,
     pe_CachedInputTokens := 5000, pe_CacheWriteInputTokens := - 7, pe_OutputTokens := 2000\<rparr>"

theorem cost_never_negative_witness:
  "ComputeAt three_cards (Some cached_event) \<lparr>t_ns = 12, t_off = 0\<rparr> = Inr (rate_cost (usd 3 9) cached_event) \<and>
   f_nonneg (rate_cost (usd 3 9) cached_event) \<and> token_split cached_event = (1000, 0, 0, 0)"
proof -
  have "LookupAt three_cards ''xai'' ''grok-3'' \<lparr>t_ns = 12, t_off = 0\<rparr> = Inr (usd 3 9)" by code_simp
  then have c: "ComputeAt three_cards (Some cached_event) \<lparr>t_ns = 12, t_off = 0\<rparr> = Inr (rate_cost (usd 3 9) cached_event)"
    by (simp add: ComputeAt_def cached_event_def zero_event_def billed_model_def CostSourcePlanIncluded_def CostSourceTrial_def)
  have "three_cards \<noteq> []" "engine_finite three_cards"
    by (simp_all add: three_cards_def day_card_def engine_finite_def rate_finite_def usd_def no_rate_def is_number_def)
  from cost_never_negative [OF this c] c show ?thesis
    by (simp add: token_split_def clampTokens_def cached_event_def zero_event_def)
qed

end
