(* ===== verification/Json.thy ===== *)
theory Json
  imports GoText
begin

text \<open>
  What \<open>encoding/json\<close> reads of a request body: the parsed document, with an object's entries in
  the order written and its keys distinct, also up to case. The decoders follow
  \<open>json.Unmarshal\<close>: \<open>null\<close> leaves a value at its zero, a value of another type is an error, a
  struct's fields match keys in any case and a map's exactly. \<open>json.Marshal\<close> of a map writes its
  keys in order.
\<close>

datatype json =
    JNull
  | JBool bool
  | JNum string
  | JStr string
  | JArr "json list"
  | JObj "(string \<times> json) list"

text \<open>A body is empty, or not JSON at all, or a document.\<close>

datatype body = NoBody | Garbled string | Doc json

text \<open>The entry a struct field reads: \<open>json.RawMessage\<close>, absent where no key matches.\<close>

definition field :: "string \<Rightarrow> (string \<times> json) list \<Rightarrow> json option" where
  "field name kvs = map_option snd (find (\<lambda>(k, v). to_lower k = to_lower name) kvs)"

definition to_string :: "json option \<Rightarrow> string option" where
  "to_string v = (case v of
       None \<Rightarrow> Some []
     | Some JNull \<Rightarrow> Some []
     | Some (JStr s) \<Rightarrow> Some s
     | _ \<Rightarrow> None)"

text \<open>A struct, over its entries; \<open>null\<close> is the zero struct.\<close>

definition to_struct :: "((string \<times> json) list \<Rightarrow> 'a option) \<Rightarrow> json \<Rightarrow> 'a option" where
  "to_struct f v = (case v of JNull \<Rightarrow> f [] | JObj kvs \<Rightarrow> f kvs | _ \<Rightarrow> None)"

fun to_list :: "(json \<Rightarrow> 'a option) \<Rightarrow> json list \<Rightarrow> 'a list option" where
  "to_list f [] = Some []"
| "to_list f (v # vs) =
     (case f v of None \<Rightarrow> None
      | Some x \<Rightarrow> (case to_list f vs of None \<Rightarrow> None | Some xs \<Rightarrow> Some (x # xs)))"

text \<open>A map is its entries; setting a key overwrites it, and marshalling sorts the keys.\<close>

definition put_key :: "string \<Rightarrow> json \<Rightarrow> (string \<times> json) list \<Rightarrow> (string \<times> json) list" where
  "put_key k v kvs = sort_key fst ((k, v) # filter (\<lambda>(k', v'). k' \<noteq> k) kvs)"

lemma map_of_sort_key: "distinct (map fst xs) \<Longrightarrow> map_of (sort_key f xs) = map_of xs"
  by (subst map_of_inject_set) (auto simp: distinct_map)

lemma put_key_row:
  assumes "distinct (map fst kvs)"
  shows "map_of (put_key k v kvs) = (map_of kvs)(k \<mapsto> v)"
proof -
  have d: "distinct (map fst ((k, v) # filter (\<lambda>(k', v'). k' \<noteq> k) kvs))"
    using assms by (auto simp: distinct_map_filter)
  have "map_of (filter (\<lambda>(k', v'). k' \<noteq> k) kvs) x = (if x = k then None else map_of kvs x)" for x
    by (induction kvs) auto
  then have "map_of ((k, v) # filter (\<lambda>(k', v'). k' \<noteq> k) kvs) = (map_of kvs)(k \<mapsto> v)" by auto
  then show ?thesis unfolding put_key_def map_of_sort_key [OF d] .
qed

lemma distinct_map_sort_key: "distinct (map f (sort_key g xs)) = distinct (map f xs)"
  by (simp add: distinct_map)

text \<open>Object keys that differ in more than case.\<close>

abbreviation keys_ok :: "(string \<times> json) list \<Rightarrow> bool" where
  "keys_ok kvs \<equiv> distinct (map (\<lambda>(k, v). to_lower k) kvs)"

lemma keys_ok_fst: "keys_ok kvs \<Longrightarrow> distinct (map fst kvs)"
proof -
  have "map (\<lambda>(k, v). to_lower k) kvs = map to_lower (map fst kvs)" by (simp add: case_prod_unfold)
  then show "keys_ok kvs \<Longrightarrow> ?thesis" by (metis distinct_map)
qed

lemma field_iff:
  assumes "keys_ok kvs"
  shows "field name kvs = Some v \<longleftrightarrow> (\<exists>k. (k, v) \<in> set kvs \<and> to_lower k = to_lower name)"
  using assms
  by (induction kvs) (fastforce simp: field_def image_iff split: if_splits)+

lemma put_key_field:
  assumes ok: "keys_ok kvs" and k: "map_of kvs k = Some v0" and n: "to_lower name \<noteq> to_lower k"
  shows "field name (put_key k v kvs) = field name kvs"
proof -
  have mem: "(k', w) \<in> set (put_key k v kvs) \<longleftrightarrow> (k', w) = (k, v) \<or> k' \<noteq> k \<and> (k', w) \<in> set kvs" for k' w
    unfolding put_key_def set_sort by auto
  have "keys_ok ((k, v) # filter (\<lambda>(k', v'). k' \<noteq> k) kvs)"
    using ok map_of_SomeD [OF k] by (auto simp: distinct_map inj_on_def)
  then have ok': "keys_ok (put_key k v kvs)" unfolding put_key_def distinct_map_sort_key .
  have "field name (put_key k v kvs) = Some w \<longleftrightarrow> field name kvs = Some w" for w
    unfolding field_iff [OF ok'] field_iff [OF ok] mem using n by (metis prod.inject)
  then show ?thesis by (metis not_None_eq)
qed

end
