(* ===== verification/TaskClass.thy ===== *)
theory TaskClass
  imports Json GoFloat
begin

text \<open>
  What kind of work a turn is (\<open>internal/contexts/optimization/taskclass/\<close>): the classifier a
  routing rule is scoped by (\<open>taskclass.go\<close>), the kind an instruction asks for (\<open>kind.go\<close>) and
  the class of a finished change (\<open>change.go\<close>). The lemmas say when a turn is called
  mechanical, that it never is without an instruction, and that Go's map order does not decide
  a kind.
\<close>

subsection \<open>The classifier\<close>

datatype work_class = Unknown | Mechanical | Reasoning

definition class_name :: "work_class \<Rightarrow> string" where
  "class_name c = (case c of Unknown \<Rightarrow> ''unknown'' | Mechanical \<Rightarrow> ''mechanical'' | Reasoning \<Rightarrow> ''reasoning'')"

record class_config =
  cc_MaxMechanicalWords :: int
  cc_MinToolDensity :: f64
  cc_MinReasoningWords :: int

definition class_defaults :: "class_config \<Rightarrow> class_config" where
  "class_defaults c =
     \<lparr>cc_MaxMechanicalWords = (if cc_MaxMechanicalWords c \<le> 0 then 5 else cc_MaxMechanicalWords c),
      cc_MinToolDensity = (if f_le (cc_MinToolDensity c) (Fin 0) then Fin (1 / 2) else cc_MinToolDensity c),
      cc_MinReasoningWords = (if cc_MinReasoningWords c \<le> 0 then 80 else cc_MinReasoningWords c)\<rparr>"

record signals =
  sg_Class :: work_class
  sg_InstructionWords :: int
  sg_ToolDensity :: f64
  sg_Regenerate :: bool
  sg_Reason :: string

definition rejectionMarkers :: "string list" where
  "rejectionMarkers =
     [''no,'', ''nope'', ''wrong'', ''try again'', ''that's not'', ''thats not'',
      ''incorrect'', ''revert'', ''undo'', ''not what i'', ''still broken'',
      ''doesn't work'', ''doesnt work'', ''redo'']"

definition isRejection :: "string \<Rightarrow> bool" where
  "isRejection instruction =
     (let s = to_lower (trim_space instruction)
      in s \<noteq> [] \<and> list_ex (\<lambda>m. contains s m) rejectionMarkers)"

definition ClassifyTurn :: "string \<Rightarrow> f64 \<Rightarrow> class_config \<Rightarrow> signals" where
  "ClassifyTurn instruction toolDensity cfg0 =
     (let cfg = class_defaults cfg0; n = int (length (Fields instruction)); reject = isRejection instruction;
          (c, why) =
            (if reject then (Reasoning, ''operator rejected the previous answer'')
             else if cc_MinReasoningWords cfg \<le> n then (Reasoning, ''long specifying instruction'')
             else if 0 < n \<and> n \<le> cc_MaxMechanicalWords cfg \<and> f_le (cc_MinToolDensity cfg) toolDensity
                  then (Mechanical, ''terse instruction over mostly tool traffic'')
             else (Unknown, ''neither clearly mechanical nor clearly reasoning''))
      in \<lparr>sg_Class = c, sg_InstructionWords = n, sg_ToolDensity = toolDensity, sg_Regenerate = reject, sg_Reason = why\<rparr>)"

subsection \<open>Reading a chat body\<close>

record raw_message =
  rm_Role :: string
  rm_Content :: "json option"

definition raw_message_of :: "json \<Rightarrow> raw_message option" where
  "raw_message_of = to_struct (\<lambda>kvs. map_option (\<lambda>r. \<lparr>rm_Role = r, rm_Content = field ''content'' kvs\<rparr>) (to_string (field ''role'' kvs)))"

text \<open>None where the body is no object or its messages are no list of messages.\<close>

definition parseMessages :: "body \<Rightarrow> raw_message list option" where
  "parseMessages b = (case b of
       Doc (JObj kvs) \<Rightarrow> (case field ''messages'' kvs of Some (JArr vs) \<Rightarrow> to_list raw_message_of vs | _ \<Rightarrow> None)
     | _ \<Rightarrow> None)"

record part =
  pt_Type :: string
  pt_Text :: string

definition part_of :: "json \<Rightarrow> part option" where
  "part_of = to_struct (\<lambda>kvs.
     case (to_string (field ''type'' kvs), to_string (field ''text'' kvs)) of
       (Some k, Some t) \<Rightarrow> Some \<lparr>pt_Type = k, pt_Text = t\<rparr> | _ \<Rightarrow> None)"

definition describeContent :: "json option \<Rightarrow> string list \<times> string" where
  "describeContent raw = (case raw of
       None \<Rightarrow> ([], [])
     | Some JNull \<Rightarrow> ([''text''], [])
     | Some (JStr s) \<Rightarrow> ([''text''], s)
     | Some (JArr vs) \<Rightarrow>
         (case to_list part_of vs of
            None \<Rightarrow> ([], [])
          | Some ps \<Rightarrow>
              (map (\<lambda>p. if pt_Type p = [] then ''text'' else pt_Type p) ps,
               trim_space (concat (map (\<lambda>p. if pt_Text p \<noteq> [] then pt_Text p @ '' '' else []) ps))))
     | _ \<Rightarrow> ([], []))"

definition onlyToolResults :: "string list \<Rightarrow> bool" where
  "onlyToolResults kinds \<longleftrightarrow> kinds \<noteq> [] \<and> list_all (\<lambda>k. k = ''tool_result'') kinds"

text \<open>One message of the loop: the tool parts, all parts and the last instruction so far.\<close>

definition read_message :: "nat \<times> nat \<times> string \<Rightarrow> raw_message \<Rightarrow> nat \<times> nat \<times> string" where
  "read_message acc m =
     (let (tool, parts, instr) = acc; (kinds, txt) = describeContent (rm_Content m)
      in (tool + length (filter (\<lambda>k. k = ''tool_use'' \<or> k = ''tool_result'') kinds), parts + length kinds,
          if rm_Role m = ''user'' \<and> txt \<noteq> [] \<and> \<not> onlyToolResults kinds then txt else instr))"

definition unknown_signals :: "string \<Rightarrow> signals" where
  "unknown_signals why =
     \<lparr>sg_Class = Unknown, sg_InstructionWords = 0, sg_ToolDensity = Fin 0, sg_Regenerate = False, sg_Reason = why\<rparr>"

definition tool_share :: "nat \<Rightarrow> nat \<Rightarrow> f64" where
  "tool_share tool parts = round64 (of_nat tool / of_nat parts)"

definition Classify :: "body \<Rightarrow> class_config \<Rightarrow> signals" where
  "Classify b cfg = (case parseMessages b of
       None \<Rightarrow> unknown_signals ''body is not a recognisable chat request''
     | Some [] \<Rightarrow> unknown_signals ''body is not a recognisable chat request''
     | Some msgs \<Rightarrow>
         (case foldl read_message (0, 0, []) msgs of (tool, parts, instr) \<Rightarrow>
            if parts = 0 then unknown_signals ''no message content to inspect''
            else ClassifyTurn instr (tool_share tool parts) (class_defaults cfg)))"

subsection \<open>The kind an instruction asks for\<close>

datatype kind = KindUnknown | KindLookup | KindResearch | KindEdit | KindDeep

definition kindOrder :: "kind \<Rightarrow> int" where
  "kindOrder k = (case k of KindUnknown \<Rightarrow> 0 | KindLookup \<Rightarrow> 1 | KindResearch \<Rightarrow> 2 | KindEdit \<Rightarrow> 3 | KindDeep \<Rightarrow> 4)"

definition KindAtLeast :: "kind \<Rightarrow> kind \<Rightarrow> bool" where
  "KindAtLeast k other \<longleftrightarrow> kindOrder other \<le> kindOrder k"

definition deepMarkers :: "string list" where
  "deepMarkers =
     [''refactor'', ''redesign'', ''re-architect'', ''architect'', ''rearchitect'',
      ''debug'', ''diagnose'', ''root cause'', ''root-cause'', ''trace down'',
      ''design'', ''decide'', ''choose between'', ''trade-off'', ''tradeoff'',
      ''why is this failing'', ''figure out why'']"

definition researchMarkers :: "string list" where
  "researchMarkers =
     [''research'', ''investigate'', ''look into'', ''compare'', ''evaluate'',
      ''summarise'', ''summarize'', ''explain how'', ''explain why'',
      ''how does'', ''why does'', ''survey'', ''review the'']"

definition lookupMarkers :: "string list" where
  "lookupMarkers =
     [''what does'', ''what is'', ''where is'', ''where does'', ''which'',
      ''show'', ''list'', ''find'', ''grep'', ''read'', ''print'', ''cat '',
      ''look up'', ''check whether'', ''check if'']"

definition editMarkers :: "string list" where
  "editMarkers =
     [''add'', ''fix'', ''change'', ''update'', ''rename'', ''implement'', ''write'',
      ''remove'', ''delete'', ''move'', ''extract'', ''inline'', ''bump'', ''wire'']"

text \<open>The table \<open>leadingMarker\<close> ranges over, in the order Go visits it.\<close>

definition marker_table :: "(kind \<times> string list) list" where
  "marker_table =
     [(KindDeep, deepMarkers), (KindResearch, researchMarkers), (KindLookup, lookupMarkers), (KindEdit, editMarkers)]"

definition marker_step :: "string \<Rightarrow> kind \<Rightarrow> kind \<times> nat \<Rightarrow> string \<Rightarrow> kind \<times> nat" where
  "marker_step t k acc m = (if has_prefix t m \<and> snd acc < length m then (k, length m) else acc)"

definition leading_in :: "(kind \<times> string list) list \<Rightarrow> string \<Rightarrow> kind option" where
  "leading_in tab t =
     (let (k, n) = foldl (\<lambda>acc (k, ms). foldl (marker_step t k) acc ms) (KindUnknown, 0) tab
      in if 0 < n then Some k else None)"

definition leadingMarker :: "string \<Rightarrow> kind option" where
  "leadingMarker t = leading_in marker_table t"

definition ClassifyKind :: "string \<Rightarrow> kind" where
  "ClassifyKind instruction =
     (let t = to_lower (trim_space instruction)
      in if t = [] then KindUnknown
         else if isRejection t then KindDeep
         else case leadingMarker t of
                Some k \<Rightarrow> k
              | None \<Rightarrow> if list_ex (\<lambda>m. contains t m) deepMarkers then KindDeep
                        else if list_ex (\<lambda>m. contains t m) researchMarkers then KindResearch
                        else KindUnknown)"

definition continuations :: "string list" where
  "continuations =
     [''go'', ''continue'', ''proceed'', ''next'', ''do it'', ''go ahead'', ''carry on'', ''keep going'',
      ''resume'', ''more'', ''again'', ''yes'', ''y'', ''yep'', ''yeah'', ''ok'', ''okay'', ''sure'',
      ''please do'', ''agreed'', ''sounds good'', ''that works'']"

definition OwnKind :: "string \<Rightarrow> kind" where
  "OwnKind instruction =
     (let t = trim_right (to_lower (trim_space instruction)) ''.!? ''
      in if t = [] then KindUnknown
         else if isRejection t then KindDeep
         else if t \<in> set continuations then KindUnknown
         else ClassifyKind instruction)"

definition KindForTurn :: "string \<Rightarrow> kind \<Rightarrow> kind" where
  "KindForTurn instruction prev = (if OwnKind instruction \<noteq> KindUnknown then OwnKind instruction else prev)"

subsection \<open>The class of a change\<close>

datatype change_class =
    ChangeFeature | ChangeBugfix | ChangeRefactor | ChangeTest | ChangeDocs | ChangeChore | ChangeOther

definition ChangeClasses :: "change_class list" where
  "ChangeClasses = [ChangeFeature, ChangeBugfix, ChangeRefactor, ChangeTest, ChangeDocs, ChangeChore, ChangeOther]"

definition changeTypes :: "(string \<times> change_class) list" where
  "changeTypes =
     [(''feat'', ChangeFeature), (''fix'', ChangeBugfix), (''refactor'', ChangeRefactor), (''perf'', ChangeRefactor),
      (''test'', ChangeTest), (''docs'', ChangeDocs), (''chore'', ChangeChore), (''ci'', ChangeChore),
      (''build'', ChangeChore), (''style'', ChangeChore), (''revert'', ChangeChore)]"

definition ChangeClassOf :: "string \<Rightarrow> change_class" where
  "ChangeClassOf subject =
     (let s = to_lower (trim_space subject);
          name = takeWhile (\<lambda>c. c \<notin> set ''(!:'') s; rest0 = dropWhile (\<lambda>c. c \<notin> set ''(!:'') s
      in if name = [] \<or> rest0 = [] then ChangeOther
         else case map_of changeTypes name of
                None \<Rightarrow> ChangeOther
              | Some class \<Rightarrow>
                  (case (if has_prefix rest0 ''('' then
                           (let (scope, r, found) = cut (CHR '')'') rest0 in if found then Some r else None)
                         else Some rest0) of
                     None \<Rightarrow> ChangeOther
                   | Some rest \<Rightarrow> if has_prefix (trim_prefix rest ''!'') '':'' then class else ChangeOther))"

subsection \<open>When a turn is mechanical\<close>

lemma class_defaults_pos: "0 < cc_MaxMechanicalWords (class_defaults c)" "0 < cc_MinReasoningWords (class_defaults c)"
  by (simp_all add: class_defaults_def)

lemma class_defaults_idem [simp]: "class_defaults (class_defaults c) = class_defaults c"
  by (cases c) (auto simp: class_defaults_def)

lemma ClassifyTurn_defaults [simp]: "ClassifyTurn i d (class_defaults c) = ClassifyTurn i d c"
  by (simp add: ClassifyTurn_def)

lemma ClassifyTurn_mechanical:
  "sg_Class (ClassifyTurn i d c) = Mechanical \<longleftrightarrow>
     \<not> isRejection i \<and> Fields i \<noteq> [] \<and> int (length (Fields i)) < cc_MinReasoningWords (class_defaults c) \<and>
     int (length (Fields i)) \<le> cc_MaxMechanicalWords (class_defaults c) \<and>
     f_le (cc_MinToolDensity (class_defaults c)) d"
  by (auto simp: ClassifyTurn_def Let_def)

lemma class_name_inj: "class_name a = class_name b \<longleftrightarrow> a = b"
  by (cases a; cases b) (simp_all add: class_name_def)

text \<open>Without tool traffic nothing is mechanical.\<close>

lemma no_density_no_mechanical: "sg_Class (ClassifyTurn i (Fin 0) c) \<noteq> Mechanical"
proof -
  have "\<not> f_le (cc_MinToolDensity (class_defaults c)) (Fin 0)" by (auto simp: class_defaults_def)
  then show ?thesis by (simp add: ClassifyTurn_mechanical)
qed

text \<open>The signals a body gives the classifier: the last instruction and the share of tool parts.\<close>

definition body_signals :: "body \<Rightarrow> (string \<times> f64) option" where
  "body_signals b = (case parseMessages b of
       None \<Rightarrow> None
     | Some msgs \<Rightarrow>
         (case foldl read_message (0, 0, []) msgs of (tool, parts, instr) \<Rightarrow>
            if parts = 0 then None else Some (instr, tool_share tool parts)))"

lemma Classify_turn:
  "sg_Class (Classify b c) =
     (case body_signals b of None \<Rightarrow> Unknown | Some (i, d) \<Rightarrow> sg_Class (ClassifyTurn i d c))"
  by (auto simp: Classify_def body_signals_def unknown_signals_def split: option.split list.split prod.split)

lemma Classify_signals: "body_signals b = Some (i, d) \<Longrightarrow> Classify b c = ClassifyTurn i d c"
  by (auto simp: Classify_def body_signals_def split: option.splits list.split prod.splits if_splits)

subsection \<open>Kinds\<close>

lemma marker_fold:
  "foldl (marker_step t k) acc ms = foldl (marker_step t k) acc (filter (has_prefix t) ms)"
  by (induction ms arbitrary: acc) (auto simp: marker_step_def)

definition marker_rows :: "(kind \<times> string list) list \<Rightarrow> (kind \<times> string) list" where
  "marker_rows tab = concat (map (\<lambda>(k, ms). map (Pair k) ms) tab)"

definition row_step :: "string \<Rightarrow> kind \<times> nat \<Rightarrow> kind \<times> string \<Rightarrow> kind \<times> nat" where
  "row_step t acc r = marker_step t (fst r) acc (snd r)"

lemma leading_rows:
  "foldl (\<lambda>acc (k, ms). foldl (marker_step t k) acc ms) acc tab = foldl (row_step t) acc (marker_rows tab)"
proof (induction tab arbitrary: acc)
  case (Cons x tab)
  have "foldl (row_step t) acc (map (Pair k) ms) = foldl (marker_step t k) acc ms" for k ms acc
    by (induction ms arbitrary: acc) (simp_all add: row_step_def)
  with Cons show ?case by (cases x) (simp add: marker_rows_def)
qed (simp add: marker_rows_def)

lemma row_fold:
  assumes "foldl (row_step t) (KindUnknown, 0) rows = (k, n)"
  shows "(\<forall>(k', m)\<in>set rows. has_prefix t m \<longrightarrow> length m \<le> n) \<and>
    (n = 0 \<and> k = KindUnknown \<or> (\<exists>m. (k, m) \<in> set rows \<and> has_prefix t m \<and> length m = n \<and> 0 < n))"
  using assms
proof (induction rows arbitrary: k n rule: rev_induct)
  case (snoc r rows)
  obtain k' m where r: "r = (k', m)" by (cases r)
  obtain k0 n0 where fold: "foldl (row_step t) (KindUnknown, 0) rows = (k0, n0)"
    by (cases "foldl (row_step t) (KindUnknown, 0) rows")
  have step: "row_step t (k0, n0) (k', m) = (k, n)" using snoc.prems fold r by simp
  note IH = snoc.IH [OF fold]
  show ?case
  proof (cases "has_prefix t m \<and> n0 < length m")
    case True
    with step have "n = length m" "k = k'" by (auto simp: row_step_def marker_step_def)
    with IH True r show ?thesis by fastforce
  next
    case False
    with step have "n = n0" "k = k0" by (auto simp: row_step_def marker_step_def split: if_splits)
    with IH False r show ?thesis by auto
  qed
qed simp

text \<open>No marker stands for two kinds, so the order of the table does not matter.\<close>

lemma marker_rows_functional:
  "(k, m) \<in> set (marker_rows marker_table) \<Longrightarrow> (k', m) \<in> set (marker_rows marker_table) \<Longrightarrow> k = k'"
proof -
  have "distinct (map snd (marker_rows marker_table))" by code_simp
  then have "inj_on snd (set (marker_rows marker_table))" by (simp only: distinct_map)
  from inj_onD [OF this, of "(k, m)" "(k', m)"]
  show "(k, m) \<in> set (marker_rows marker_table) \<Longrightarrow> (k', m) \<in> set (marker_rows marker_table) \<Longrightarrow> k = k'" by simp
qed

lemma leading_order_free:
  assumes "set tab = set marker_table"
  shows "leading_in tab t = leadingMarker t"
proof -
  obtain k n where f: "foldl (row_step t) (KindUnknown, 0) (marker_rows tab) = (k, n)" by fastforce
  obtain k' n' where f': "foldl (row_step t) (KindUnknown, 0) (marker_rows marker_table) = (k', n')" by fastforce
  have rows: "set (marker_rows tab) = set (marker_rows marker_table)" using assms by (simp add: marker_rows_def)
  note a = row_fold [OF f, unfolded rows] and b = row_fold [OF f']
  have n: "n = n'" using a b by (auto intro: antisym)
  have "k = k'" if pos: "0 < n"
  proof -
    obtain m where m: "(k, m) \<in> set (marker_rows marker_table)" "has_prefix t m" "length m = n" using a pos by blast
    obtain m' where m': "(k', m') \<in> set (marker_rows marker_table)" "has_prefix t m'" "length m' = n" using b n pos by blast
    have "m = m'" using m(2,3) m'(2,3) by (auto simp: has_prefix_iff)
    with m(1) m'(1) show ?thesis using marker_rows_functional by blast
  qed
  with n f f' show ?thesis by (auto simp: leading_in_def leadingMarker_def leading_rows)
qed

text \<open>A rejected answer is deep work, whatever was in flight; a word to go on keeps the kind.\<close>

lemma KindForTurn_keeps:
  "trim_right (to_lower (trim_space i)) ''.!? '' \<in> set continuations \<Longrightarrow>
   \<not> isRejection (trim_right (to_lower (trim_space i)) ''.!? '') \<Longrightarrow> KindForTurn i prev = prev"
  by (simp add: KindForTurn_def OwnKind_def Let_def)

lemma kinds_read:
  "ClassifyKind ''Look into the cache'' = KindResearch"
  "ClassifyKind ''add a test for the research reader'' = KindEdit"
  "KindForTurn ''go ahead!'' KindDeep = KindDeep"
  "KindForTurn ''No, try again'' KindLookup = KindDeep"
  "ChangeClassOf ''fix(router)!: keep the model'' = ChangeBugfix"
  "ChangeClassOf ''fix(router: keep'' = ChangeOther"
  by code_simp+

text \<open>
  A turn is called mechanical exactly when its instruction rejects nothing, has a word, has
  fewer words than make it reasoning and no more than a mechanical one may have, and at least the
  configured share of the exchange is tool traffic; a body is classified by its last instruction
  and share, and one with neither is unknown.
\<close>

theorem mechanical_only_when_clear:
  "(sg_Class (Classify b c) = Mechanical) =
     (case body_signals b of
        None \<Rightarrow> False
      | Some (i, d) \<Rightarrow> \<not> isRejection i \<and> Fields i \<noteq> [] \<and>
          int (length (Fields i)) < cc_MinReasoningWords (class_defaults c) \<and>
          int (length (Fields i)) \<le> cc_MaxMechanicalWords (class_defaults c) \<and>
          f_le (cc_MinToolDensity (class_defaults c)) d)"
  by (simp add: Classify_turn ClassifyTurn_mechanical split: option.split)

end
