(* ===== verification/Router.thy ===== *)
theory Router
  imports Pricing TaskClass
begin

text \<open>
  The model router (\<open>internal/contexts/optimization/optimizer/router/\<close>): the routing table and one
  request's way through it (\<open>router.go\<close>), the policy that decides where no rule is written and
  the advice given outside the request path (\<open>policy.go\<close>), and the preferred-model ceiling
  (\<open>preferred.go\<close>). The callbacks of \<open>Config\<close> are functions of the configuration record, fixed
  for one request; what \<open>OnProposal\<close> is called with is the second part of a run's result.
\<close>

subsection \<open>The configuration\<close>

record route_rule =
  ru_Provider :: provider
  ru_FromModel :: string
  ru_ToModel :: string
  ru_Quality :: f64
  ru_Fallbacks :: "string list"
  ru_WindowPctAbove :: f64
  ru_WhenClass :: string

record route_policy =
  po_Enabled :: bool
  po_WindowPctAbove :: f64
  po_Quality :: f64
  po_Models :: "provider \<Rightarrow> string list"

definition DefaultPolicyWindowPct :: f64 where "DefaultPolicyWindowPct = Fin 70"
definition DefaultPolicyQuality :: f64 where "DefaultPolicyQuality = Fin (3 / 4)"

definition policy_defaults :: "route_policy \<Rightarrow> route_policy" where
  "policy_defaults p =
     p\<lparr>po_WindowPctAbove := (if f_le (po_WindowPctAbove p) (Fin 0) then DefaultPolicyWindowPct else po_WindowPctAbove p),
       po_Quality := (if f_le (po_Quality p) (Fin 0) then DefaultPolicyQuality else po_Quality p)\<rparr>"

datatype route_decision = DecisionPending | DecisionApproved | DecisionDenied

record router_config =
  cf_Rules :: "route_rule list"
  cf_IsAvailable :: "(provider \<Rightarrow> string \<Rightarrow> bool) option"
  cf_Permits :: "(provider \<Rightarrow> string \<Rightarrow> bool) option"
  cf_MinQuality :: f64
  cf_Classify :: class_config
  cf_PreferredModel :: "(provider \<Rightarrow> string) option"
  cf_UpgradeDecision :: "(provider \<Rightarrow> string \<Rightarrow> string \<Rightarrow> route_decision) option"
  cf_OnProposal :: bool
  cf_ProposeOnly :: bool
  cf_ObserveOnly :: bool
  cf_Policy :: route_policy
  cf_WindowPressure :: "(provider \<Rightarrow> f64 \<times> bool) option"
  cf_Boundary :: "(provider \<Rightarrow> string \<Rightarrow> string \<Rightarrow> string \<Rightarrow> string \<Rightarrow> bool \<times> string) option"

record router =
  ro_cfg :: router_config
  ro_spend :: "engine option"

definition New :: "router_config \<Rightarrow> engine option \<Rightarrow> router" where
  "New cfg e =
     \<lparr>ro_cfg = cfg\<lparr>cf_MinQuality := (if f_le (cf_MinQuality cfg) (Fin 0) then round64 (7 / 10) else cf_MinQuality cfg),
                   cf_IsAvailable := (case cf_IsAvailable cfg of None \<Rightarrow> Some (\<lambda>p m. True) | Some f \<Rightarrow> Some f),
                   cf_Permits := (case cf_Permits cfg of None \<Rightarrow> Some (\<lambda>p m. True) | Some f \<Rightarrow> Some f)\<rparr>,
      ro_spend = e\<rparr>"

text \<open>The callbacks \<open>New\<close> fills in.\<close>

definition permits :: "router \<Rightarrow> provider \<Rightarrow> string \<Rightarrow> bool" where
  "permits r p m = (case cf_Permits (ro_cfg r) of None \<Rightarrow> True | Some f \<Rightarrow> f p m)"

definition is_available :: "router \<Rightarrow> provider \<Rightarrow> string \<Rightarrow> bool" where
  "is_available r p m = (case cf_IsAvailable (ro_cfg r) of None \<Rightarrow> True | Some f \<Rightarrow> f p m)"

subsection \<open>Requests and recommendations\<close>

record opt_request =
  oq_PromptHash :: string
  oq_Provider :: provider
  oq_Model :: string
  oq_Body :: body
  oq_WorkflowID :: string
  oq_AgentID :: string
  oq_InputTokens :: int
  oq_OutputTokens :: int
  oq_Mode :: string
  oq_CostSource :: string
  oq_LatencyBudget :: duration

record recommendation =
  rc_Kind :: string
  rc_TargetModel :: string
  rc_SavingsTokens :: int
  rc_SavingsUSD :: f64
  rc_QualityScore :: f64
  rc_Reason :: string
  rc_LatencyImpact :: duration
  rc_ApplyBody :: body

record proposal =
  pr_Provider :: provider
  pr_FromModel :: string
  pr_ProposedModel :: string
  pr_PreferredModel :: string
  pr_DeltaUSD :: f64
  pr_Priced :: bool
  pr_Reason :: string

definition proposal_key :: "proposal \<Rightarrow> string" where
  "proposal_key p = pr_Provider p @ ''|'' @ pr_FromModel p @ ''|'' @ pr_ProposedModel p"

definition KindRouter :: string where "KindRouter = ''model_router''"

definition em_dash :: string where "em_dash = [CHR 0xE2, CHR 0x80, CHR 0x94]"

subsection \<open>Rules and targets\<close>

definition rule_matches :: "provider \<Rightarrow> string \<Rightarrow> route_rule \<Rightarrow> bool" where
  "rule_matches provider model r \<longleftrightarrow>
     ru_Provider r = provider \<and>
     (ru_FromModel r = model \<or>
      has_suffix (ru_FromModel r) ''*'' \<and> has_prefix model (trim_suffix (ru_FromModel r) ''*''))"

definition matchRule :: "router \<Rightarrow> provider \<Rightarrow> string \<Rightarrow> route_rule option" where
  "matchRule r provider model = find (rule_matches provider model) (cf_Rules (ro_cfg r))"

definition usable :: "router \<Rightarrow> provider \<Rightarrow> string \<Rightarrow> bool" where
  "usable r provider model \<longleftrightarrow> model \<noteq> [] \<and> permits r provider model \<and> is_available r provider model"

definition pickTarget :: "router \<Rightarrow> provider \<Rightarrow> route_rule \<Rightarrow> string option" where
  "pickTarget r provider rule = find (usable r provider) (ru_ToModel rule # ru_Fallbacks rule)"

text \<open>\<open>consider\<close>: the cheapest so far and its cost, below zero at first; a tie goes to the lesser name.\<close>

definition consider_step :: "router \<Rightarrow> provider \<Rightarrow> string \<times> f64 \<Rightarrow> string \<times> f64 \<Rightarrow> string \<times> f64" where
  "consider_step r provider acc nc =
     (case (acc, nc) of ((name0, cost0), (name, cost)) \<Rightarrow>
        if f_le cost (Fin 0) \<or> \<not> usable r provider name then acc
        else if f_lt cost0 (Fin 0) \<or> f_lt cost cost0 \<or> f_eq cost cost0 \<and> name < name0 then (name, cost)
        else acc)"

definition nameable :: "string \<Rightarrow> string option" where
  "nameable model =
     (let trimmed = trim_suffix model ''*''
      in if trimmed = [] \<or> CHR ''*'' \<in> set trimmed then None else Some trimmed)"

definition blended :: "rate \<Rightarrow> f64" where
  "blended r = f_add (r_input r) (r_output r)"

text \<open>The names and costs \<open>cheapestTarget\<close> considers, in the order it does.\<close>

definition candidates :: "route_policy \<Rightarrow> rates \<Rightarrow> provider \<Rightarrow> (string \<times> f64) list" where
  "candidates pol rows provider =
     (if po_Models pol provider \<noteq> [] then
        concat (map (\<lambda>name. case Lookup rows provider name of Inl e \<Rightarrow> [] | Inr rate \<Rightarrow> [(name, blended rate)])
          (po_Models pol provider))
      else
        concat (map (\<lambda>(k, rate). if k_provider k \<noteq> provider then []
                                 else case nameable (k_model k) of None \<Rightarrow> [] | Some name \<Rightarrow> [(name, blended rate)]) rows))"

definition cheapest_of :: "router \<Rightarrow> provider \<Rightarrow> (string \<times> f64) list \<Rightarrow> string option" where
  "cheapest_of r provider cs =
     (let (name, cost) = foldl (consider_step r provider) ([], Fin (- 1)) cs in if name = [] then None else Some name)"

definition cheapestTarget :: "router \<Rightarrow> provider \<Rightarrow> string option" where
  "cheapestTarget r provider =
     (case ro_spend r of None \<Rightarrow> None
      | Some e \<Rightarrow> cheapest_of r provider (candidates (cf_Policy (ro_cfg r)) (tb_rates (latest_table e)) provider))"

definition list_price :: "rates \<Rightarrow> provider \<Rightarrow> string \<Rightarrow> f64 option" where
  "list_price rows provider m = (case Lookup rows provider m of Inl e \<Rightarrow> None | Inr rate \<Rightarrow> Some (blended rate))"

text \<open>The closest below the asked model's price and above it so far, each with its cost.\<close>

definition closest_step ::
  "router \<Rightarrow> provider \<Rightarrow> rates \<Rightarrow> f64 option \<Rightarrow> (string \<times> f64) \<times> (string \<times> f64) \<Rightarrow> string \<Rightarrow> (string \<times> f64) \<times> (string \<times> f64)" where
  "closest_step r provider rows limit acc m =
     (case list_price rows provider m of
        None \<Rightarrow> acc
      | Some cost \<Rightarrow>
          if \<not> usable r provider m then acc
          else case acc of ((lo, loCost), (hi, hiCost)) \<Rightarrow>
            if (case limit of None \<Rightarrow> True | Some c \<Rightarrow> f_le cost c) then
              (if f_lt loCost cost then ((m, cost), (hi, hiCost)) else acc)
            else if f_lt hiCost (Fin 0) \<or> f_lt cost hiCost then ((lo, loCost), (m, cost))
            else acc)"

definition closestPermitted :: "router \<Rightarrow> provider \<Rightarrow> string \<Rightarrow> string" where
  "closestPermitted r provider model =
     (case ro_spend r of None \<Rightarrow> []
      | Some e \<Rightarrow>
          (let rows = tb_rates (latest_table e);
               ((lo, _), (hi, _)) =
                 foldl (closest_step r provider rows (list_price rows provider model))
                   (([], Fin (- 1)), ([], Fin (- 1))) (po_Models (cf_Policy (ro_cfg r)) provider)
           in if lo \<noteq> [] then lo else hi))"

definition no_rule :: route_rule where
  "no_rule = \<lparr>ru_Provider = [], ru_FromModel = [], ru_ToModel = [], ru_Quality = Fin 0, ru_Fallbacks = [],
     ru_WindowPctAbove = Fin 0, ru_WhenClass = []\<rparr>"

definition forbiddenRule :: "router \<Rightarrow> provider \<Rightarrow> string \<Rightarrow> route_rule option" where
  "forbiddenRule r provider model =
     (if permits r provider model then None
      else Some (no_rule\<lparr>ru_Provider := provider, ru_FromModel := model,
                         ru_ToModel := closestPermitted r provider model, ru_Quality := Fin 1\<rparr>))"

definition policyRule :: "router \<Rightarrow> provider \<Rightarrow> string \<Rightarrow> body \<Rightarrow> route_rule option" where
  "policyRule r provider model b =
     (if \<not> po_Enabled (cf_Policy (ro_cfg r)) then None
      else if sg_Class (Classify b (cf_Classify (ro_cfg r))) \<noteq> Mechanical then None
      else case cheapestTarget r provider of
             None \<Rightarrow> None
           | Some target \<Rightarrow>
               if target = model then None
               else let pol = policy_defaults (cf_Policy (ro_cfg r))
                    in Some (no_rule\<lparr>ru_Provider := provider, ru_FromModel := model, ru_ToModel := target,
                                     ru_Quality := po_Quality pol, ru_WindowPctAbove := po_WindowPctAbove pol,
                                     ru_WhenClass := class_name Mechanical\<rparr>))"

subsection \<open>The preferred-model ceiling\<close>

definition decisionFor :: "router \<Rightarrow> provider \<Rightarrow> string \<Rightarrow> string \<Rightarrow> route_decision" where
  "decisionFor r p from_model to_model =
     (case cf_UpgradeDecision (ro_cfg r) of None \<Rightarrow> DecisionPending | Some f \<Rightarrow> f p from_model to_model)"

definition windowPct :: "router \<Rightarrow> provider \<Rightarrow> f64 \<times> bool" where
  "windowPct r p = (case cf_WindowPressure (ro_cfg r) of None \<Rightarrow> (Fin 0, False) | Some f \<Rightarrow> f p)"

definition preferredFor :: "router \<Rightarrow> provider \<Rightarrow> string" where
  "preferredFor r p = (case cf_PreferredModel (ro_cfg r) of None \<Rightarrow> [] | Some f \<Rightarrow> f p)"

definition million_event :: "provider \<Rightarrow> string \<Rightarrow> prompt_event" where
  "million_event provider model =
     zero_event\<lparr>pe_Provider := provider, pe_RequestModel := model, pe_InputTokens := 1000000,
       pe_OutputTokens := 1000000, pe_CostSource := CostSourceMetered\<rparr>"

definition blendedRate :: "router \<Rightarrow> provider \<Rightarrow> string \<Rightarrow> f64 option" where
  "blendedRate r provider model =
     (case ro_spend r of None \<Rightarrow> None
      | Some e \<Rightarrow> (case Compute e (Some (million_event provider model)) of Inl err \<Rightarrow> None | Inr c \<Rightarrow> Some c))"

text \<open>None where the route may go ahead; else what the operator is asked.\<close>

definition upgradeCheck :: "router \<Rightarrow> provider \<Rightarrow> string \<Rightarrow> string \<Rightarrow> proposal option" where
  "upgradeCheck r provider from_model target =
     (let preferred = preferredFor r provider;
          prop = \<lparr>pr_Provider = provider, pr_FromModel = from_model, pr_ProposedModel = target,
                  pr_PreferredModel = preferred, pr_DeltaUSD = Fin 0, pr_Priced = False, pr_Reason = []\<rparr>
      in if preferred = [] \<or> target = preferred then None
         else case (blendedRate r provider target, blendedRate r provider preferred) of
                (Some targetCost, Some preferredCost) \<Rightarrow>
                  if f_lt preferredCost targetCost then
                    Some (prop\<lparr>pr_Priced := True, pr_DeltaUSD := f_sub targetCost preferredCost,
                               pr_Reason := target @ '' costs more than your preferred '' @ preferred\<rparr>)
                  else None
              | _ \<Rightarrow> Some (prop\<lparr>pr_Reason := ''cannot compare '' @ target @ '' against your preferred '' @ preferred @
                                '' '' @ em_dash @ '' no rate card for one of them''\<rparr>))"

subsection \<open>Savings\<close>

definition wrap64 :: "int \<Rightarrow> int" where
  "wrap64 n = (n + 2 ^ 63) mod 2 ^ 64 - 2 ^ 63"

definition route_event :: "opt_request \<Rightarrow> string \<Rightarrow> prompt_event" where
  "route_event req model =
     zero_event\<lparr>pe_Provider := oq_Provider req, pe_RequestModel := model, pe_InputTokens := oq_InputTokens req,
       pe_OutputTokens := oq_OutputTokens req, pe_CostSource := oq_CostSource req\<rparr>"

definition estimateSavings :: "router \<Rightarrow> opt_request \<Rightarrow> string \<Rightarrow> int \<times> f64" where
  "estimateSavings r req target =
     (let tokens = max (wrap64 (oq_InputTokens req + oq_OutputTokens req)) 0
      in case ro_spend r of
           None \<Rightarrow> (tokens, Fin 0)
         | Some e \<Rightarrow>
             (case (Compute e (Some (route_event req (oq_Model req))), Compute e (Some (route_event req target))) of
                (Inr origCost, Inr newCost) \<Rightarrow>
                  (let usd = f_sub origCost newCost in (tokens, if f_lt usd (Fin 0) then Fin 0 else usd))
              | _ \<Rightarrow> (tokens, Fin 0)))"

subsection \<open>Rewriting the body\<close>

datatype rewrite_error = ErrEmptyBody | ErrParseBody | ErrNoModelField

definition rewriteModel :: "body \<Rightarrow> string \<Rightarrow> (rewrite_error, body) result" where
  "rewriteModel b target =
     (case b of
        NoBody \<Rightarrow> Inl ErrEmptyBody
      | Doc (JObj raw) \<Rightarrow>
          if map_of raw ''model'' = None then Inl ErrNoModelField
          else Inr (Doc (JObj (put_key ''model'' (JStr target) raw)))
      | Doc JNull \<Rightarrow> Inl ErrNoModelField
      | _ \<Rightarrow> Inl ErrParseBody)"

subsection \<open>Advice\<close>

record advice =
  ad_Model :: string
  ad_Stay :: bool
  ad_Reason :: string
  ad_Class :: string
  ad_WindowPct :: f64
  ad_WindowKnown :: bool
  ad_Quality :: f64

record advice_input =
  ai_Provider :: provider
  ai_Model :: string
  ai_Instruction :: string
  ai_ToolDensity :: f64

definition pct0 :: "f64 \<Rightarrow> string" where
  "pct0 x = fmt_fixed 0 x @ ''%''"

definition stay_on :: "string \<Rightarrow> string \<Rightarrow> string" where
  "stay_on model why = ''stay on '' @ model @ '' '' @ em_dash @ '' '' @ why"

definition Advise :: "router \<Rightarrow> advice_input \<Rightarrow> advice" where
  "Advise r i =
     (let pol = policy_defaults (cf_Policy (ro_cfg r)); model = ai_Model i; p = ai_Provider i;
          sig = ClassifyTurn (ai_Instruction i) (ai_ToolDensity i) (cf_Classify (ro_cfg r));
          base = \<lparr>ad_Model = [], ad_Stay = True, ad_Reason = [], ad_Class = class_name (sg_Class sig),
                  ad_WindowPct = Fin 0, ad_WindowKnown = False, ad_Quality = Fin 0\<rparr>
      in if \<not> po_Enabled (cf_Policy (ro_cfg r)) then
           base\<lparr>ad_Reason := ''smart routing is off; only the configured rules apply''\<rparr>
         else if model = [] then
           base\<lparr>ad_Reason := ''no model named, so there is nothing to compare against''\<rparr>
         else let (pct, known) = windowPct r p;
                  adv = base\<lparr>ad_WindowPct := pct, ad_WindowKnown := known\<rparr>
              in if sg_Class sig \<noteq> Mechanical then adv\<lparr>ad_Reason := stay_on model (sg_Reason sig)\<rparr>
                 else if \<not> known then
                   adv\<lparr>ad_Reason := stay_on model ''mechanical work, but the plan window is not being measured''\<rparr>
                 else if f_lt pct (po_WindowPctAbove pol) then
                   adv\<lparr>ad_Reason := stay_on model (''window '' @ pct0 pct @ '' full, below the '' @
                     pct0 (po_WindowPctAbove pol) @ '' at which conserving is worth a quality trade'')\<rparr>
                 else case cheapestTarget r p of
                   None \<Rightarrow> adv\<lparr>ad_Reason := stay_on model (''no priced alternative for '' @ p)\<rparr>
                 | Some target \<Rightarrow>
                     if target = model then
                       adv\<lparr>ad_Reason := stay_on model (''already the cheapest priced model for '' @ p)\<rparr>
                     else if upgradeCheck r p model target \<noteq> None then
                       adv\<lparr>ad_Reason := stay_on model (target @ '' is not cheaper than your preferred model'')\<rparr>
                     else if f_lt (po_Quality pol) (cf_MinQuality (ro_cfg r)) then
                       adv\<lparr>ad_Reason := stay_on model (''the policy's confidence ('' @ fmt_fixed 2 (po_Quality pol) @
                         '') is below your quality floor ('' @ fmt_fixed 2 (cf_MinQuality (ro_cfg r)) @ '')'')\<rparr>
                     else \<lparr>ad_Model = target, ad_Stay = False,
                           ad_Reason = model @ '' -> '' @ target @ '' '' @ em_dash @ '' '' @ sg_Reason sig @
                             '', and the window is '' @ pct0 pct @ '' full'',
                           ad_Class = class_name (sg_Class sig), ad_WindowPct = pct, ad_WindowKnown = True,
                           ad_Quality = po_Quality pol\<rparr>)"

subsection \<open>One request\<close>

definition route_rec :: "route_rule \<Rightarrow> string \<Rightarrow> recommendation" where
  "route_rec rule why =
     \<lparr>rc_Kind = KindRouter, rc_TargetModel = [], rc_SavingsTokens = 0, rc_SavingsUSD = Fin 0,
      rc_QualityScore = ru_Quality rule, rc_Reason = why, rc_LatencyImpact = 0, rc_ApplyBody = NoBody\<rparr>"

text \<open>The rule that decides a request: the policy on models first, then the table, then the policy.\<close>

definition rule_for :: "router \<Rightarrow> opt_request \<Rightarrow> route_rule option" where
  "rule_for r req =
     (case forbiddenRule r (oq_Provider req) (oq_Model req) of
        Some rule \<Rightarrow> Some rule
      | None \<Rightarrow>
          (case matchRule r (oq_Provider req) (oq_Model req) of
             Some rule \<Rightarrow> Some rule
           | None \<Rightarrow> policyRule r (oq_Provider req) (oq_Model req) (oq_Body req)))"

text \<open>None where the rule's window scope keeps it idle; else its note.\<close>

definition window_scope :: "router \<Rightarrow> provider \<Rightarrow> route_rule \<Rightarrow> string option" where
  "window_scope r p rule =
     (if f_lt (Fin 0) (ru_WindowPctAbove rule) then
        (let (pct, ok) = windowPct r p
         in if \<not> ok \<or> f_lt pct (ru_WindowPctAbove rule) then None
            else Some ('' [window '' @ pct0 pct @ '' full, threshold '' @ pct0 (ru_WindowPctAbove rule) @ '']''))
      else Some [])"

definition class_scope :: "router \<Rightarrow> body \<Rightarrow> route_rule \<Rightarrow> string option" where
  "class_scope r b rule =
     (if ru_WhenClass rule \<noteq> [] then
        (let sig = Classify b (cf_Classify (ro_cfg r))
         in if class_name (sg_Class sig) \<noteq> ru_WhenClass rule then None
            else Some ('' ['' @ class_name (sg_Class sig) @ '': '' @ sg_Reason sig @ '']''))
      else Some [])"

text \<open>From the target on: the ceiling, the mode, the boundary and the rewrite.\<close>

definition hold_upgrade :: "router \<Rightarrow> opt_request \<Rightarrow> route_rule \<Rightarrow> string \<Rightarrow> (recommendation list \<times> proposal list) option" where
  "hold_upgrade r req rule target =
     (case upgradeCheck r (oq_Provider req) (oq_Model req) target of
        None \<Rightarrow> None
      | Some prop \<Rightarrow>
          (case decisionFor r (oq_Provider req) (oq_Model req) target of
             DecisionApproved \<Rightarrow> None
           | DecisionDenied \<Rightarrow>
               Some ([route_rec rule (''router: upgrade declined by operator '' @ em_dash @ '' '' @ pr_Reason prop)], [])
           | DecisionPending \<Rightarrow>
               Some ([route_rec rule (''router: upgrade awaiting operator approval '' @ em_dash @ '' '' @ pr_Reason prop)],
                     if cf_OnProposal (ro_cfg r) then [prop] else [])))"

definition apply_route :: "router \<Rightarrow> opt_request \<Rightarrow> route_rule \<Rightarrow> string \<Rightarrow> string \<Rightarrow> recommendation" where
  "apply_route r req rule target notes =
     (let (tokens, usd) = estimateSavings r req target
      in (route_rec rule (''route '' @ oq_Model req @ '' -> '' @ target @ notes))
           \<lparr>rc_TargetModel := target, rc_SavingsTokens := tokens, rc_SavingsUSD := usd,
            rc_ApplyBody := (case rewriteModel (oq_Body req) target of Inl e \<Rightarrow> NoBody | Inr b \<Rightarrow> b)\<rparr>)"

definition route_to :: "router \<Rightarrow> opt_request \<Rightarrow> route_rule \<Rightarrow> string \<Rightarrow> string \<Rightarrow> recommendation list \<times> proposal list" where
  "route_to r req rule target notes =
     (case hold_upgrade r req rule target of
        Some held \<Rightarrow> held
      | None \<Rightarrow>
          (let p = oq_Provider req; m = oq_Model req; decision = decisionFor r p m target
           in if cf_ObserveOnly (ro_cfg r) then
                (let (tokens, usd) = estimateSavings r req target
                 in ([(route_rec rule (''observed: would route '' @ m @ '' -> '' @ target @ notes))
                        \<lparr>rc_TargetModel := target, rc_SavingsTokens := tokens, rc_SavingsUSD := usd\<rparr>], []))
              else if cf_ProposeOnly (ro_cfg r) \<and> decision \<noteq> DecisionApproved then
                (if decision = DecisionDenied then ([route_rec rule ''router: route declined by operator''], [])
                 else ([(route_rec rule ''router: route awaiting operator approval'')\<lparr>rc_TargetModel := target\<rparr>],
                       if cf_OnProposal (ro_cfg r) then
                         (let usd = snd (estimateSavings r req target)
                          in [\<lparr>pr_Provider = p, pr_FromModel = m, pr_ProposedModel = target,
                               pr_PreferredModel = preferredFor r p, pr_DeltaUSD = usd, pr_Priced = (\<not> f_eq usd (Fin 0)),
                               pr_Reason = ''in-request mode: route '' @ m @ '' -> '' @ target @ notes\<rparr>])
                       else []))
              else case cf_Boundary (ro_cfg r) of
                     None \<Rightarrow> ([apply_route r req rule target notes], [])
                   | Some check \<Rightarrow>
                       (case check p m target (oq_WorkflowID req) (oq_AgentID req) of
                          (True, why) \<Rightarrow> ([route_rec rule (''router: route held by a boundary '' @ em_dash @ '' '' @ why)], [])
                        | (False, why) \<Rightarrow> ([apply_route r req rule target notes], []))))"

definition Run :: "router \<Rightarrow> opt_request option \<Rightarrow> recommendation list \<times> proposal list" where
  "Run r oreq =
     (case oreq of None \<Rightarrow> ([], [])
      | Some req \<Rightarrow>
          if oq_Model req = [] then ([], [])
          else case rule_for r req of
                 None \<Rightarrow> ([], [])
               | Some rule \<Rightarrow>
                   if f_lt (ru_Quality rule) (cf_MinQuality (ro_cfg r)) then ([], [])
                   else case (window_scope r (oq_Provider req) rule, class_scope r (oq_Body req) rule) of
                          (Some wnote, Some cnote) \<Rightarrow>
                            (case pickTarget r (oq_Provider req) rule of
                               None \<Rightarrow> ([route_rec rule (''router: no available, permitted target for '' @ oq_Model req)], [])
                             | Some target \<Rightarrow> route_to r req rule target (wnote @ cnote))
                        | _ \<Rightarrow> ([], []))"

definition RunForExplicitTrial :: "router option \<Rightarrow> opt_request option \<Rightarrow> recommendation list \<times> proposal list" where
  "RunForExplicitTrial r oreq =
     (case r of None \<Rightarrow> ([], [])
      | Some r \<Rightarrow> Run (New ((ro_cfg r)\<lparr>cf_ObserveOnly := False\<rparr>) (ro_spend r)) oreq)"

subsection \<open>The cheapest target\<close>

text \<open>The order \<open>consider\<close> keeps the least of, on costs that are numbers.\<close>

definition cheaper :: "string \<times> f64 \<Rightarrow> string \<times> f64 \<Rightarrow> bool" where
  "cheaper a b \<longleftrightarrow> f_lt (snd a) (snd b) \<or> f_eq (snd a) (snd b) \<and> fst a < fst b"

lemma f_lt_irrefl [simp]: "\<not> f_lt a a"
  using f_lt_asym by blast

lemma not_cheaper:
  assumes "snd x \<noteq> NaN" and "snd y \<noteq> NaN" and "\<not> cheaper x y"
  shows "f_lt (snd y) (snd x) \<or> snd y = snd x \<and> fst y \<le> fst x"
  using assms f_lt_total [of "snd x" "snd y"] by (auto simp: cheaper_def f_eq_def)

interpretation cost_order: first_best "\<lambda>c. snd c \<noteq> NaN" cheaper
proof
  fix x y z :: "string \<times> f64"
  assume x: "snd x \<noteq> NaN" and y: "snd y \<noteq> NaN"
  show "cheaper x y \<Longrightarrow> \<not> cheaper y x"
    by (cases x; cases y) (auto simp: cheaper_def f_eq_def dest: f_lt_asym)
  assume z: "snd z \<noteq> NaN" and no: "\<not> cheaper x y" "\<not> cheaper y z"
  have "f_lt (snd z) (snd x) \<or> snd z = snd x \<and> fst z \<le> fst x"
    using not_cheaper [OF x y no(1)] not_cheaper [OF y z no(2)] f_lt_trans [of "snd z" "snd y" "snd x"] by auto
  then show "\<not> cheaper x z"
    by (cases x; cases z) (auto simp: cheaper_def f_eq_def dest: f_lt_asym)
qed

lemma cheaper_total: "snd a \<noteq> NaN \<Longrightarrow> snd b \<noteq> NaN \<Longrightarrow> \<not> cheaper a b \<Longrightarrow> \<not> cheaper b a \<Longrightarrow> a = b"
  using f_lt_total [of "snd a" "snd b"] by (auto simp: cheaper_def f_eq_def prod_eq_iff)

text \<open>What is considered at all.\<close>

definition eligible :: "router \<Rightarrow> provider \<Rightarrow> string \<times> f64 \<Rightarrow> bool" where
  "eligible r p nc \<longleftrightarrow> usable r p (fst nc) \<and> \<not> f_le (snd nc) (Fin 0)"

definition so_far :: "(string \<times> f64) option \<Rightarrow> string \<times> f64" where
  "so_far a = (case a of None \<Rightarrow> ([], Fin (- 1)) | Some nc \<Rightarrow> nc)"

lemma eligible_cost: "eligible r p nc \<Longrightarrow> fst nc \<noteq> [] \<and> \<not> f_lt (snd nc) (Fin 0)"
  by (auto simp: eligible_def usable_def f_le_def)

lemma consider_best:
  assumes "\<And>nc. a = Some nc \<Longrightarrow> eligible r p nc"
  shows "foldl (consider_step r p) (so_far a) cs = so_far (foldl (pick cheaper) a (filter (eligible r p) cs))"
  using assms
proof (induction cs arbitrary: a)
  case (Cons nc cs)
  show ?case
  proof (cases "eligible r p nc")
    case False
    then have "consider_step r p (so_far a) nc = so_far a"
      by (auto simp: consider_step_def eligible_def split: prod.split)
    with Cons False show ?thesis by simp
  next
    case True
    then have "consider_step r p (so_far a) nc = so_far (pick cheaper a nc)"
      using Cons.prems eligible_cost
      by (cases a) (fastforce simp: consider_step_def eligible_def so_far_def cheaper_def pick_def split: prod.split)+
    moreover have "eligible r p x" if "pick cheaper a nc = Some x" for x
      using that True Cons.prems by (auto simp: pick_def split: option.splits if_splits)
    ultimately show ?thesis using Cons.IH True by simp
  qed
qed simp

lemma cheapest_of_best:
  "cheapest_of r p cs = map_option fst (best cheaper (filter (eligible r p) cs))"
proof -
  have f: "foldl (consider_step r p) ([], Fin (- 1)) cs = so_far (best cheaper (filter (eligible r p) cs))"
    using consider_best [of None r p cs] by (simp add: best_def so_far_def)
  show ?thesis
  proof (cases "best cheaper (filter (eligible r p) cs)")
    case (Some nc)
    with best_mem [OF Some] eligible_cost [of r p nc] f show ?thesis
      by (auto simp: cheapest_of_def so_far_def split: prod.split)
  qed (use f in \<open>simp add: cheapest_of_def so_far_def\<close>)
qed

lemma cheapest_of_usable: "cheapest_of r p cs = Some n \<Longrightarrow> usable r p n"
proof -
  assume "cheapest_of r p cs = Some n"
  then obtain c where b: "best cheaper (filter (eligible r p) cs) = Some (n, c)" by (auto simp: cheapest_of_best)
  from best_mem [OF b] show ?thesis by (simp add: eligible_def)
qed

lemma cheapestTarget_usable: "cheapestTarget r p = Some n \<Longrightarrow> usable r p n"
  by (auto simp: cheapestTarget_def cheapest_of_usable split: option.splits)

text \<open>The least eligible candidate, by cost and then by name.\<close>

definition least_candidate :: "router \<Rightarrow> provider \<Rightarrow> (string \<times> f64) list \<Rightarrow> string \<Rightarrow> f64 \<Rightarrow> bool" where
  "least_candidate r p cs n c \<longleftrightarrow>
     (n, c) \<in> set cs \<and> eligible r p (n, c) \<and>
     (\<forall>nc\<in>set cs. eligible r p nc \<longrightarrow> nc = (n, c) \<or> cheaper (n, c) nc)"

lemma cheapest_of_iff:
  assumes num: "\<And>nc. nc \<in> set cs \<Longrightarrow> snd nc \<noteq> NaN"
  shows "cheapest_of r p cs = Some n \<longleftrightarrow> (\<exists>c. least_candidate r p cs n c)"
proof -
  let ?es = "filter (eligible r p) cs"
  have ok: "\<forall>x\<in>set ?es. snd x \<noteq> NaN" using num by auto
  have iff: "best cheaper ?es = Some (n, c) \<longleftrightarrow> least_candidate r p cs n c" for n c
  proof
    assume b: "best cheaper ?es = Some (n, c)"
    have "nc = (n, c) \<or> cheaper (n, c) nc" if "nc \<in> set ?es" for nc
      using cost_order.best_upper [OF ok b that] cheaper_total ok that best_mem [OF b] by blast
    then show "least_candidate r p cs n c" using best_mem [OF b] by (auto simp: least_candidate_def)
  next
    assume l: "least_candidate r p cs n c"
    then have mem: "(n, c) \<in> set ?es" by (auto simp: least_candidate_def)
    then obtain nc where b: "best cheaper ?es = Some nc" and nb: "\<not> cheaper (n, c) nc"
      using cost_order.best_Some_bound [OF ok] by blast
    moreover have "nc \<in> set ?es" using b by (rule best_mem)
    ultimately show "best cheaper ?es = Some (n, c)" using l by (auto simp: least_candidate_def)
  qed
  show ?thesis by (auto simp: cheapest_of_best iff [symmetric])
qed

lemma candidates_order:
  assumes "rows_ok rows" and "rows_ok rows'" and "set rows' = set rows"
  shows "set (candidates pol rows' p) = set (candidates pol rows p)"
  by (simp add: candidates_def Lookup_rows [OF assms] assms(3))

lemma cheapest_of_order:
  assumes "rows_ok rows" and "rows_ok rows'" and "set rows' = set rows"
    and num: "\<And>nc. nc \<in> set (candidates pol rows p) \<Longrightarrow> snd nc \<noteq> NaN"
  shows "cheapest_of r p (candidates pol rows' p) = cheapest_of r p (candidates pol rows p)"
proof -
  note s = candidates_order [OF assms(1-3), of pol p]
  have "cheapest_of r p (candidates pol rows' p) = Some n \<longleftrightarrow> cheapest_of r p (candidates pol rows p) = Some n" for n
    using cheapest_of_iff [of "candidates pol rows p" r p n] cheapest_of_iff [of "candidates pol rows' p" r p n] num
    by (simp add: s least_candidate_def)
  then show ?thesis by (metis not_None_eq)
qed

subsection \<open>What a run may apply\<close>

lemma route_rec_simps [simp]:
  "rc_ApplyBody (route_rec rule why) = NoBody" "rc_TargetModel (route_rec rule why) = []"
  by (simp_all add: route_rec_def)

lemma apply_route_simps [simp]:
  "rc_TargetModel (apply_route r req rule target notes) = target"
  "rc_ApplyBody (apply_route r req rule target notes) =
     (case rewriteModel (oq_Body req) target of Inl e \<Rightarrow> NoBody | Inr b \<Rightarrow> b)"
  by (simp_all add: apply_route_def split: prod.split)

lemma pickTarget_usable: "pickTarget r p rule = Some t \<Longrightarrow> usable r p t"
  unfolding pickTarget_def by (drule find_mem) simp

lemma hold_upgrade_None:
  "hold_upgrade r req rule t = None \<longleftrightarrow>
   upgradeCheck r (oq_Provider req) (oq_Model req) t = None \<or> decisionFor r (oq_Provider req) (oq_Model req) t = DecisionApproved"
  by (auto simp: hold_upgrade_def split: option.split route_decision.split)

lemma hold_upgrade_held: "hold_upgrade r req rule t = Some (recs, props) \<Longrightarrow> rec \<in> set recs \<Longrightarrow> rc_ApplyBody rec = NoBody \<and> rc_TargetModel rec = []"
  by (auto simp: hold_upgrade_def split: option.splits route_decision.splits)

lemma upgradeCheck_None:
  "upgradeCheck r p m t = None \<Longrightarrow> preferredFor r p = [] \<or> t = preferredFor r p \<or>
     (\<exists>ct cp. blendedRate r p t = Some ct \<and> blendedRate r p (preferredFor r p) = Some cp \<and> \<not> f_lt cp ct)"
  by (auto simp: upgradeCheck_def Let_def split: if_splits option.splits)

lemma route_to_applies:
  assumes "rec \<in> set (fst (route_to r req rule t notes))" and "rc_ApplyBody rec \<noteq> NoBody"
  shows "rc_TargetModel rec = t \<and> rewriteModel (oq_Body req) t = Inr (rc_ApplyBody rec) \<and> hold_upgrade r req rule t = None \<and>
    \<not> cf_ObserveOnly (ro_cfg r) \<and>
    (cf_ProposeOnly (ro_cfg r) \<longrightarrow> decisionFor r (oq_Provider req) (oq_Model req) t = DecisionApproved) \<and>
    (\<forall>check. cf_Boundary (ro_cfg r) = Some check \<longrightarrow>
       \<not> fst (check (oq_Provider req) (oq_Model req) t (oq_WorkflowID req) (oq_AgentID req)))"
proof (cases "hold_upgrade r req rule t")
  case (Some held)
  obtain recs props where "held = (recs, props)" by (cases held)
  with Some assms hold_upgrade_held [of r req rule t recs props rec] show ?thesis by (simp add: route_to_def)
next
  case None
  with assms show ?thesis
    by (auto simp: route_to_def Let_def split: if_splits option.splits prod.splits bool.splits sum.splits)
qed

lemma Run_targets:
  assumes "rec \<in> set (fst (Run r (Some req)))"
  shows "rc_ApplyBody rec = NoBody \<and> rc_TargetModel rec = [] \<or>
    (\<exists>rule t notes. rule_for r req = Some rule \<and> \<not> f_lt (ru_Quality rule) (cf_MinQuality (ro_cfg r)) \<and>
       usable r (oq_Provider req) t \<and> rec \<in> set (fst (route_to r req rule t notes)))"
  using assms pickTarget_usable
  by (auto simp: Run_def split: if_splits option.splits)

lemma Run_applies:
  assumes "rec \<in> set (fst (Run r (Some req)))" and "rc_ApplyBody rec \<noteq> NoBody"
  shows "let p = oq_Provider req; m = oq_Model req; t = rc_TargetModel rec; approved = (decisionFor r p m t = DecisionApproved)
         in usable r p t \<and> rewriteModel (oq_Body req) t = Inr (rc_ApplyBody rec) \<and> \<not> cf_ObserveOnly (ro_cfg r) \<and>
            (cf_ProposeOnly (ro_cfg r) \<longrightarrow> approved) \<and>
            (approved \<or> preferredFor r p = [] \<or> t = preferredFor r p \<or>
              (\<exists>ct cp. blendedRate r p t = Some ct \<and> blendedRate r p (preferredFor r p) = Some cp \<and> \<not> f_lt cp ct)) \<and>
            (\<forall>check. cf_Boundary (ro_cfg r) = Some check \<longrightarrow> \<not> fst (check p m t (oq_WorkflowID req) (oq_AgentID req)))"
proof -
  obtain rule t ns where t: "usable r (oq_Provider req) t" "rec \<in> set (fst (route_to r req rule t ns))"
    using Run_targets [OF assms(1)] assms(2) by auto
  note a = route_to_applies [OF t(2) assms(2)]
  then have "upgradeCheck r (oq_Provider req) (oq_Model req) t = None \<or> decisionFor r (oq_Provider req) (oq_Model req) t = DecisionApproved"
    by (simp add: hold_upgrade_None)
  with a t(1) show ?thesis using upgradeCheck_None [of r "oq_Provider req" "oq_Model req" t] by (auto simp: Let_def)
qed

text \<open>A rewrite changes the model and nothing else, so the turn is still classified the same.\<close>

lemma rewriteModel_only:
  assumes "rewriteModel b t = Inr b'"
  obtains raw where "b = Doc (JObj raw)" "b' = Doc (JObj (put_key ''model'' (JStr t) raw))" "map_of raw ''model'' \<noteq> None"
  using assms by (auto simp: rewriteModel_def split: body.splits json.splits if_splits)

lemma rewriteModel_fields:
  assumes "rewriteModel (Doc (JObj raw)) t = Inr (Doc (JObj raw'))" and "distinct (map fst raw)"
  shows "map_of raw' = (map_of raw)(''model'' \<mapsto> JStr t)"
  using assms put_key_row by (auto simp: rewriteModel_def split: if_splits)

lemma rewriteModel_classify:
  assumes "rewriteModel (Doc (JObj raw)) t = Inr b" and "keys_ok raw"
  shows "Classify b c = Classify (Doc (JObj raw)) c"
proof -
  obtain v where v: "map_of raw ''model'' = Some v" and b: "b = Doc (JObj (put_key ''model'' (JStr t) raw))"
    using assms(1) by (auto simp: rewriteModel_def split: if_splits)
  have "to_lower ''messages'' \<noteq> to_lower ''model''" by code_simp
  then have "field ''messages'' (put_key ''model'' (JStr t) raw) = field ''messages'' raw"
    by (rule put_key_field [OF assms(2) v])
  then show ?thesis by (simp add: Classify_def parseMessages_def b)
qed

text \<open>Savings are never negative.\<close>

lemma savings_nonneg:
  "0 \<le> fst (estimateSavings r req t)" "snd (estimateSavings r req t) = NaN \<or> f_nonneg (snd (estimateSavings r req t))"
proof -
  show "0 \<le> fst (estimateSavings r req t)"
    by (simp add: estimateSavings_def Let_def split: option.split sum.split)
  have floor: "u = NaN \<or> f_nonneg u" if "\<not> f_lt u (Fin 0)" for u
    using that by (cases u) (auto simp: f_lt_def)
  show "snd (estimateSavings r req t) = NaN \<or> f_nonneg (snd (estimateSavings r req t))"
  proof (cases "ro_spend r")
    case (Some e)
    then show ?thesis
      using floor
      by (cases "Compute e (Some (route_event req (oq_Model req)))"; cases "Compute e (Some (route_event req t))")
        (auto simp: estimateSavings_def Let_def)
  qed (simp add: estimateSavings_def)
qed

subsection \<open>Advice and enforcement\<close>

text \<open>The turn as an agent would describe it, when asking for advice on the same request.\<close>

definition asked :: "opt_request \<Rightarrow> string \<Rightarrow> f64 \<Rightarrow> advice_input" where
  "asked req instruction density =
     \<lparr>ai_Provider = oq_Provider req, ai_Model = oq_Model req, ai_Instruction = instruction, ai_ToolDensity = density\<rparr>"

definition moved_to :: "recommendation list \<Rightarrow> string list" where
  "moved_to recs = filter (\<lambda>t. t \<noteq> []) (map rc_TargetModel recs)"

lemma route_to_target:
  assumes "\<And>a b. decisionFor r (oq_Provider req) a b = DecisionPending" and "cf_Boundary (ro_cfg r) = None" and "t \<noteq> []"
  shows "moved_to (fst (route_to r req rule t notes)) =
    (if upgradeCheck r (oq_Provider req) (oq_Model req) t = None then [t] else [])"
proof (cases "upgradeCheck r (oq_Provider req) (oq_Model req) t")
  case None
  with assms show ?thesis
    by (simp add: route_to_def hold_upgrade_def moved_to_def Let_def split: prod.split)
next
  case (Some pr)
  with assms show ?thesis by (simp add: route_to_def hold_upgrade_def moved_to_def)
qed

lemma policy_threshold_pos:
  "po_WindowPctAbove pol \<noteq> NaN \<Longrightarrow> f_lt (Fin 0) (po_WindowPctAbove (policy_defaults pol))"
  using f_lt_total [of "po_WindowPctAbove pol" "Fin 0"]
  by (cases "po_WindowPctAbove pol") (auto simp: policy_defaults_def DefaultPolicyWindowPct_def f_le_def f_eq_def f_lt_def)

lemma policy_run:
  assumes model: "oq_Model req \<noteq> []" and sigs: "body_signals (oq_Body req) = Some (i, d)"
    and own: "permits r (oq_Provider req) (oq_Model req)" "matchRule r (oq_Provider req) (oq_Model req) = None"
    and open_road: "\<And>a b. decisionFor r (oq_Provider req) a b = DecisionPending" "cf_Boundary (ro_cfg r) = None"
    and num: "po_WindowPctAbove (cf_Policy (ro_cfg r)) \<noteq> NaN"
  shows "moved_to (fst (Run r (Some req))) =
    (if ad_Stay (Advise r (asked req i d)) then [] else [ad_Model (Advise r (asked req i d))])"
proof -
  let ?p = "oq_Provider req" and ?m = "oq_Model req" and ?pol = "cf_Policy (ro_cfg r)"
  let ?sig = "ClassifyTurn i d (cf_Classify (ro_cfg r))"
  have cl: "Classify (oq_Body req) (cf_Classify (ro_cfg r)) = ?sig" by (rule Classify_signals [OF sigs])
  have rf: "rule_for r req = policyRule r ?p ?m (oq_Body req)"
    by (simp add: rule_for_def forbiddenRule_def own)
  note th = policy_threshold_pos [OF num]
  obtain pct known where w: "windowPct r ?p = (pct, known)" by fastforce
  show ?thesis
  proof (cases "po_Enabled ?pol \<and> sg_Class ?sig = Mechanical")
    case False
    then have "policyRule r ?p ?m (oq_Body req) = None" by (auto simp: policyRule_def cl)
    then have "fst (Run r (Some req)) = []" by (simp add: Run_def rf model)
    moreover have "ad_Stay (Advise r (asked req i d))"
      using False w model by (auto simp: Advise_def asked_def Let_def)
    ultimately show ?thesis by (simp add: moved_to_def)
  next
    case on: True
    show ?thesis
    proof (cases "cheapestTarget r ?p")
      case None
      then have "fst (Run r (Some req)) = []" by (simp add: Run_def rf model policyRule_def)
      moreover have "ad_Stay (Advise r (asked req i d))"
        using None w on model by (simp add: Advise_def asked_def Let_def)
      ultimately show ?thesis by (simp add: moved_to_def)
    next
      case (Some t)
      have ut: "usable r ?p t" by (rule cheapestTarget_usable [OF Some])
      then have tne: "t \<noteq> []" by (simp add: usable_def)
      show ?thesis
      proof (cases "t = ?m")
        case True
        with Some have "fst (Run r (Some req)) = []" by (simp add: Run_def rf model policyRule_def)
        moreover have "ad_Stay (Advise r (asked req i d))"
          using True Some w on model by (simp add: Advise_def asked_def Let_def)
        ultimately show ?thesis by (simp add: moved_to_def)
      next
        case False
        define rule where "rule = no_rule\<lparr>ru_Provider := ?p, ru_FromModel := ?m, ru_ToModel := t,
          ru_Quality := po_Quality (policy_defaults ?pol), ru_WindowPctAbove := po_WindowPctAbove (policy_defaults ?pol),
          ru_WhenClass := class_name Mechanical\<rparr>"
        have pr: "policyRule r ?p ?m (oq_Body req) = Some rule"
          using on Some False by (simp add: policyRule_def cl rule_def Let_def)
        have cs: "class_scope r (oq_Body req) rule = Some ('' ['' @ class_name Mechanical @ '': '' @ sg_Reason ?sig @ '']'')"
          using on by (simp add: class_scope_def rule_def cl Let_def class_name_def)
        have ws: "window_scope r ?p rule =
          (if \<not> known \<or> f_lt pct (po_WindowPctAbove (policy_defaults ?pol)) then None
           else Some ('' [window '' @ pct0 pct @ '' full, threshold '' @ pct0 (po_WindowPctAbove (policy_defaults ?pol)) @ '']''))"
          using th by (simp add: window_scope_def rule_def w)
        have pt: "pickTarget r ?p rule = Some t" using ut by (simp add: pickTarget_def rule_def)
        have q: "ru_Quality rule = po_Quality (policy_defaults ?pol)" by (simp add: rule_def)
        have run: "moved_to (fst (Run r (Some req))) =
          (if f_lt (po_Quality (policy_defaults ?pol)) (cf_MinQuality (ro_cfg r)) \<or> \<not> known \<or>
              f_lt pct (po_WindowPctAbove (policy_defaults ?pol)) \<or> upgradeCheck r ?p ?m t \<noteq> None then [] else [t])"
          using route_to_target [OF open_road tne]
          by (auto simp: Run_def rf model pr q cs ws pt) (simp_all add: moved_to_def)
        have adv: "ad_Stay (Advise r (asked req i d)) \<longleftrightarrow>
            f_lt (po_Quality (policy_defaults ?pol)) (cf_MinQuality (ro_cfg r)) \<or> \<not> known \<or>
            f_lt pct (po_WindowPctAbove (policy_defaults ?pol)) \<or> upgradeCheck r ?p ?m t \<noteq> None"
          "\<not> ad_Stay (Advise r (asked req i d)) \<Longrightarrow> ad_Model (Advise r (asked req i d)) = t"
          using False Some w on model by (simp_all add: Advise_def asked_def Let_def split: if_splits)
        show ?thesis using adv by (simp add: run)
      qed
    qed
  qed
qed

subsection \<open>The closest permitted model\<close>

text \<open>The models on offer that may be routed to, with their prices, and the two choices among them.\<close>

definition offers :: "router \<Rightarrow> provider \<Rightarrow> rates \<Rightarrow> (string \<times> f64) list" where
  "offers r p rows =
     concat (map (\<lambda>m. case list_price rows p m of None \<Rightarrow> [] | Some c \<Rightarrow> if usable r p m then [(m, c)] else [])
       (po_Models (cf_Policy (ro_cfg r)) p))"

definition in_limit :: "f64 option \<Rightarrow> string \<times> f64 \<Rightarrow> bool" where
  "in_limit limit nc = (case limit of None \<Rightarrow> True | Some c \<Rightarrow> f_le (snd nc) c)"

definition dearer :: "string \<times> f64 \<Rightarrow> string \<times> f64 \<Rightarrow> bool" where
  "dearer a b = f_lt (snd b) (snd a)"

interpretation price_down: first_best "\<lambda>c. snd c \<noteq> NaN" "\<lambda>a b. dearer b a"
  unfolding dearer_def using f_lt_asym f_lt_negtrans by unfold_locales blast+

interpretation price_up: first_best "\<lambda>c. snd c \<noteq> NaN" dearer
  unfolding dearer_def using f_lt_asym f_lt_negtrans by unfold_locales blast+

abbreviation cheapest_above :: "f64 option \<Rightarrow> (string \<times> f64) list \<Rightarrow> (string \<times> f64) option" where
  "cheapest_above limit os \<equiv> best (\<lambda>a b. dearer b a) (filter (\<lambda>nc. \<not> in_limit limit nc) os)"

abbreviation dearest_within :: "f64 option \<Rightarrow> (string \<times> f64) list \<Rightarrow> (string \<times> f64) option" where
  "dearest_within limit os \<equiv> best dearer (filter (in_limit limit) os)"

definition offer_step :: "f64 option \<Rightarrow> (string \<times> f64) \<times> (string \<times> f64) \<Rightarrow> string \<times> f64 \<Rightarrow> (string \<times> f64) \<times> (string \<times> f64)" where
  "offer_step limit acc nc =
     (case acc of (lo, hi) \<Rightarrow>
        if in_limit limit nc then (if f_lt (snd lo) (snd nc) then (nc, hi) else acc)
        else if f_lt (snd hi) (Fin 0) \<or> f_lt (snd nc) (snd hi) then (lo, nc) else acc)"

lemma closest_offers:
  "foldl (closest_step r p rows limit) acc (po_Models (cf_Policy (ro_cfg r)) p) = foldl (offer_step limit) acc (offers r p rows)"
proof -
  have "foldl (closest_step r p rows limit) acc ms = foldl (offer_step limit) acc
      (concat (map (\<lambda>m. case list_price rows p m of None \<Rightarrow> [] | Some c \<Rightarrow> if usable r p m then [(m, c)] else []) ms))" for ms
    by (induction ms arbitrary: acc)
      (auto simp: closest_step_def offer_step_def in_limit_def split: option.split prod.split)
  then show ?thesis by (simp add: offers_def)
qed

lemma offer_fold:
  assumes "\<And>nc. nc \<in> set os \<Longrightarrow> f_nonneg (snd nc)"
  shows "foldl (offer_step limit) (([], Fin (- 1)), ([], Fin (- 1))) os =
    (so_far (dearest_within limit os), so_far (cheapest_above limit os))"
  using assms
proof (induction os rule: rev_induct)
  case (snoc nc os)
  have nn: "f_nonneg (snd x)" if "x \<in> set (os @ [nc])" for x using snoc.prems that .
  have lo: "f_nonneg (snd b)" if "dearest_within limit os = Some b" for b
    using best_mem [OF that] nn by auto
  have hi: "f_nonneg (snd b)" if "cheapest_above limit os = Some b" for b
    using best_mem [OF that] nn by auto
  have nc: "f_lt (Fin (- 1)) (snd nc)" using nn [of nc] by (auto simp: f_nonneg_cases f_lt_def)
  have pos: "\<not> f_lt (snd b) (Fin 0)" if "f_nonneg (snd b)" for b :: "string \<times> f64"
    using that by (auto simp: f_nonneg_cases f_lt_def)
  have "foldl (offer_step limit) (([], Fin (- 1)), ([], Fin (- 1))) (os @ [nc]) =
      offer_step limit (so_far (dearest_within limit os), so_far (cheapest_above limit os)) nc"
    using snoc by simp
  also have "\<dots> = (so_far (dearest_within limit (os @ [nc])), so_far (cheapest_above limit (os @ [nc])))"
  proof (cases "in_limit limit nc")
    case True
    then have "offer_step limit (so_far l, h) nc = (so_far (pick dearer l nc), h)" for l h
      using nc by (cases l) (auto simp: offer_step_def so_far_def dearer_def)
    with True show ?thesis by (simp add: best_snoc)
  next
    case False
    then have "offer_step limit (l, so_far (cheapest_above limit os)) nc =
        (l, so_far (pick (\<lambda>a b. dearer b a) (cheapest_above limit os) nc))" for l
      using hi pos by (cases "cheapest_above limit os") (auto simp: offer_step_def so_far_def dearer_def)
    with False show ?thesis by (simp add: best_snoc)
  qed
  finally show ?case .
qed (simp add: so_far_def)

lemma offers_named: "nc \<in> set (offers r p rows) \<Longrightarrow> fst nc \<noteq> [] \<and> usable r p (fst nc) \<and> list_price rows p (fst nc) = Some (snd nc)"
  by (auto simp: offers_def usable_def split: option.splits if_splits)

lemma closestPermitted_eq:
  assumes "ro_spend r = Some e" and rows: "rows = tb_rates (latest_table e)"
    and nn: "\<And>nc. nc \<in> set (offers r p rows) \<Longrightarrow> f_nonneg (snd nc)"
  shows "closestPermitted r p m =
    (case dearest_within (list_price rows p m) (offers r p rows) of
       Some nc \<Rightarrow> fst nc
     | None \<Rightarrow> (case cheapest_above (list_price rows p m) (offers r p rows) of Some nc \<Rightarrow> fst nc | None \<Rightarrow> []))"
proof -
  let ?os = "offers r p rows" and ?l = "list_price rows p m"
  have named: "fst nc \<noteq> []" if "best b (filter P ?os) = Some nc" for b P nc
    using best_mem [OF that] offers_named [of nc] by auto
  have "closestPermitted r p m =
      (let ((lo, _), (hi, _)) = (so_far (dearest_within ?l ?os), so_far (cheapest_above ?l ?os)) in if lo \<noteq> [] then lo else hi)"
    by (simp only: closestPermitted_def assms(1) rows [symmetric] option.case Let_def closest_offers offer_fold [OF nn])
  then show ?thesis
    using named [of dearer "in_limit ?l"] by (auto simp: so_far_def Let_def split: option.split prod.split)
qed

lemma closest_spec:
  assumes "ro_spend r = Some e" and "rows = tb_rates (latest_table e)"
    and nn: "\<And>nc. nc \<in> set (offers r p rows) \<Longrightarrow> f_nonneg (snd nc)"
  shows "if closestPermitted r p m = [] then offers r p rows = []
    else \<exists>nc\<in>set (offers r p rows). fst nc = closestPermitted r p m \<and>
      (\<forall>x\<in>set (offers r p rows). if in_limit (list_price rows p m) nc then in_limit (list_price rows p m) x \<longrightarrow> \<not> dearer x nc
        else \<not> in_limit (list_price rows p m) x \<and> \<not> dearer nc x)"
proof -
  let ?os = "offers r p rows" and ?l = "list_price rows p m"
  have num: "\<forall>x\<in>set (filter P ?os). snd x \<noteq> NaN" for P using nn by fastforce
  have eq: "closestPermitted r p m =
    (case dearest_within ?l ?os of Some nc \<Rightarrow> fst nc
     | None \<Rightarrow> (case cheapest_above ?l ?os of Some nc \<Rightarrow> fst nc | None \<Rightarrow> []))"
    by (rule closestPermitted_eq [OF assms])
  show ?thesis
  proof (cases "dearest_within ?l ?os")
    case (Some nc)
    have mem: "nc \<in> set ?os" "in_limit ?l nc" using best_mem [OF Some] by auto
    moreover have "\<not> dearer x nc" if "x \<in> set ?os" "in_limit ?l x" for x
      using price_up.best_upper [OF num Some] that by auto
    ultimately show ?thesis using eq Some offers_named [OF mem(1)] by auto
  next
    case None
    then have all: "\<not> in_limit ?l x" if "x \<in> set ?os" for x using that by (auto simp: filter_empty_conv)
    show ?thesis
    proof (cases "cheapest_above ?l ?os")
      case Some': (Some nc)
      have mem: "nc \<in> set ?os" using best_mem [OF Some'] by auto
      have "\<not> dearer nc x" if "x \<in> set ?os" for x
        using price_down.best_upper [OF num Some', of x] that all by auto
      then show ?thesis using eq None Some' mem all offers_named [OF mem] by auto
    next
      case None': None
      then have "?os = []" using all by (auto simp: filter_empty_conv intro: ccontr)
      then show ?thesis using eq None None' by simp
    qed
  qed
qed

subsection \<open>Which card the ceiling reads\<close>

lemma first_card:
  assumes "\<And>c. c \<in> set es \<Longrightarrow> zero_ns < t_ns (dt_from c)"
  shows "indexFor (d # es) zero_time = 0"
proof -
  have "takeWhile (in_force zero_time) es = []"
    using assms by (cases es) (auto simp: in_force_def After_def zero_time_def)
  then show ?thesis by (simp add: indexFor_eq)
qed

lemma blendedRate_first:
  assumes "ro_spend r = Some (d # es)" and "\<And>c. c \<in> set es \<Longrightarrow> zero_ns < t_ns (dt_from c)"
    and "card_lookup p m d = Inr rate" and "m \<noteq> []"
  shows "blendedRate r p m = Some (rate_cost rate (million_event p m))"
  using assms
  by (simp add: blendedRate_def Compute_def ComputeAt_def LookupAt_def first_card million_event_def zero_event_def
      billed_model_def CostSourceMetered_def CostSourcePlanIncluded_def CostSourceTrial_def)

subsection \<open>Properties\<close>

text \<open>
  C8: The router rewrites a request only as the operator allows. A recommendation that carries a
  body carries the request's own with the model replaced, by a model that is named, up and
  permitted; the router is not observing; where it only proposes, the operator approved the route;
  unless they did, the model is their preferred one or both have a rate and it costs no more, or
  they prefer none; and no boundary held the route.
\<close>

theorem rewrite_as_allowed:
  assumes "rec \<in> set (fst (Run r (Some req)))" and "rc_ApplyBody rec \<noteq> NoBody"
  shows "let p = oq_Provider req; m = oq_Model req; t = rc_TargetModel rec; approved = (decisionFor r p m t = DecisionApproved)
         in usable r p t \<and> rewriteModel (oq_Body req) t = Inr (rc_ApplyBody rec) \<and> \<not> cf_ObserveOnly (ro_cfg r) \<and>
            (cf_ProposeOnly (ro_cfg r) \<longrightarrow> approved) \<and>
            (approved \<or> preferredFor r p = [] \<or> t = preferredFor r p \<or>
              (\<exists>ct cp. blendedRate r p t = Some ct \<and> blendedRate r p (preferredFor r p) = Some cp \<and> \<not> f_lt cp ct)) \<and>
            (\<forall>check. cf_Boundary (ro_cfg r) = Some check \<longrightarrow> \<not> fst (check p m t (oq_WorkflowID req) (oq_AgentID req)))"
  by (rule Run_applies [OF assms])

definition quiet_policy :: route_policy where
  "quiet_policy = \<lparr>po_Enabled = False, po_WindowPctAbove = Fin 0, po_Quality = Fin 0, po_Models = (\<lambda>p. [])\<rparr>"

definition quiet_classify :: class_config where
  "quiet_classify = \<lparr>cc_MaxMechanicalWords = 0, cc_MinToolDensity = Fin 0, cc_MinReasoningWords = 0\<rparr>"

definition quiet_config :: router_config where
  "quiet_config =
     \<lparr>cf_Rules = [], cf_IsAvailable = None, cf_Permits = None, cf_MinQuality = Fin (1 / 2), cf_Classify = quiet_classify,
      cf_PreferredModel = None, cf_UpgradeDecision = None, cf_OnProposal = True, cf_ProposeOnly = False,
      cf_ObserveOnly = False, cf_Policy = quiet_policy, cf_WindowPressure = None, cf_Boundary = None\<rparr>"

definition down_rule :: route_rule where
  "down_rule = no_rule\<lparr>ru_Provider := ''anthropic'', ru_FromModel := ''claude-opus*'', ru_ToModel := ''claude-haiku'', ru_Quality := Fin 1\<rparr>"

definition chat_body :: body where
  "chat_body = Doc (JObj
     [(''model'', JStr ''claude-opus''),
      (''messages'', JArr
        [JObj [(''role'', JStr ''user''), (''content'', JStr ''continue'')],
         JObj [(''role'', JStr ''assistant''), (''content'', JArr [JObj [(''type'', JStr ''tool_use'')]])]])])"

definition opus_request :: opt_request where
  "opus_request =
     \<lparr>oq_PromptHash = [], oq_Provider = ''anthropic'', oq_Model = ''claude-opus'', oq_Body = chat_body, oq_WorkflowID = [],
      oq_AgentID = [], oq_InputTokens = 10, oq_OutputTokens = 5, oq_Mode = [], oq_CostSource = [], oq_LatencyBudget = 0\<rparr>"

definition down_router :: router where
  "down_router = New (quiet_config\<lparr>cf_Rules := [down_rule]\<rparr>) None"

definition down_rec :: recommendation where
  "down_rec = apply_route down_router opus_request down_rule ''claude-haiku'' []"

lemma down_rec_run: "Run down_router (Some opus_request) = ([down_rec], [])"
proof -
  have "rule_for down_router opus_request = Some down_rule" by code_simp
  moreover have "\<not> f_lt (ru_Quality down_rule) (cf_MinQuality (ro_cfg down_router))" by code_simp
  moreover have "window_scope down_router ''anthropic'' down_rule = Some []" "class_scope down_router chat_body down_rule = Some []"
    by code_simp+
  moreover have "pickTarget down_router ''anthropic'' down_rule = Some ''claude-haiku''" by code_simp
  moreover have "route_to down_router opus_request down_rule ''claude-haiku'' [] = ([down_rec], [])"
    by (simp add: route_to_def down_rec_def down_router_def New_def quiet_config_def hold_upgrade_def upgradeCheck_def preferredFor_def Let_def)
  ultimately show ?thesis by (simp add: Run_def opus_request_def)
qed

theorem rewrite_as_allowed_witness:
  "rc_TargetModel down_rec = ''claude-haiku'' \<and> rc_ApplyBody down_rec \<noteq> NoBody \<and>
   rewriteModel chat_body ''claude-haiku'' = Inr (rc_ApplyBody down_rec)"
proof -
  have b: "rc_ApplyBody down_rec \<noteq> NoBody" "rc_TargetModel down_rec = ''claude-haiku''"
    by (simp_all add: down_rec_def) code_simp
  have "down_rec \<in> set (fst (Run down_router (Some opus_request)))" by (simp add: down_rec_run)
  from rewrite_as_allowed [OF this b(1)] b show ?thesis by (simp add: Let_def opus_request_def)
qed


definition claude_card :: rates where
  "claude_card = [(Key ''anthropic'' ''claude-opus*'', usd 15 75), (Key ''anthropic'' ''claude-haiku*'', usd 1 5)]"

definition tight_config :: router_config where
  "tight_config = quiet_config\<lparr>cf_Policy := quiet_policy\<lparr>po_Enabled := True\<rparr>,
     cf_WindowPressure := Some (\<lambda>p. (Fin 90, True))\<rparr>"

definition tight_router :: router where
  "tight_router = New tight_config (Some [day_card 10 claude_card])"

lemmas round64_eval = round64_def ilog2_def bit_len.simps pow2_def round_half_even_def Let_def

lemma round64_few: "round64 (1 / 2) = Fin (1 / 2)" "round64 6 = Fin 6" "round64 90 = Fin 90"
proof -
  have q: "quotient_of (1 / 2) = (1, 2)" "quotient_of 6 = (6, 1)" "quotient_of 90 = (90, 1)" by code_simp+
  show "round64 (1 / 2) = Fin (1 / 2)" "round64 6 = Fin 6" "round64 90 = Fin 90" by (simp_all add: round64_eval q)
qed

lemma blended_few: "blended (usd 15 75) = Fin 90" "blended (usd 1 5) = Fin 6"
  by (simp_all add: blended_def usd_def no_rate_def round64_few)

lemma tight_cheapest: "cheapestTarget tight_router ''anthropic'' = Some ''claude-haiku''"
proof -
  have n: "nameable ''claude-opus*'' = Some ''claude-opus''" "nameable ''claude-haiku*'' = Some ''claude-haiku''" by code_simp+
  have "candidates quiet_policy claude_card ''anthropic'' = [(''claude-opus'', Fin 90), (''claude-haiku'', Fin 6)]"
    by (simp add: candidates_def claude_card_def quiet_policy_def n blended_few)
  moreover have "cheapest_of tight_router ''anthropic'' [(''claude-opus'', Fin 90), (''claude-haiku'', Fin 6)] = Some ''claude-haiku''"
    by code_simp
  moreover have "candidates (cf_Policy (ro_cfg tight_router)) rows p = candidates quiet_policy rows p" for rows p
    by (simp add: candidates_def tight_router_def New_def tight_config_def quiet_config_def quiet_policy_def)
  moreover have "ro_spend tight_router = Some (NewDatedEngine [day_card 10 claude_card]) \<or> ro_spend tight_router = Some [day_card 10 claude_card]"
    by (simp add: tight_router_def New_def)
  ultimately show ?thesis
    by (simp add: cheapestTarget_def tight_router_def New_def latest_table_def day_card_def)
qed

lemma opus_signals: "body_signals chat_body = Some (''continue'', Fin (1 / 2))"
proof -
  have "parseMessages chat_body = Some
      [\<lparr>rm_Role = ''user'', rm_Content = Some (JStr ''continue'')\<rparr>,
       \<lparr>rm_Role = ''assistant'', rm_Content = Some (JArr [JObj [(''type'', JStr ''tool_use'')]])\<rparr>]" by code_simp
  moreover have "foldl read_message (0, 0, [])
      [\<lparr>rm_Role = ''user'', rm_Content = Some (JStr ''continue'')\<rparr>,
       \<lparr>rm_Role = ''assistant'', rm_Content = Some (JArr [JObj [(''type'', JStr ''tool_use'')]])\<rparr>] = (1, 2, ''continue'')"
    by code_simp
  ultimately show ?thesis by (simp add: body_signals_def tool_share_def round64_few)
qed

lemma tight_advice:
  "\<not> ad_Stay (Advise tight_router (asked opus_request ''continue'' (Fin (1 / 2)))) \<and>
   ad_Model (Advise tight_router (asked opus_request ''continue'' (Fin (1 / 2)))) = ''claude-haiku''"
proof -
  have m: "sg_Class (ClassifyTurn ''continue'' (Fin (1 / 2)) quiet_classify) = Mechanical" by code_simp
  have w: "windowPct tight_router ''anthropic'' = (Fin 90, True)"
    by (simp add: windowPct_def tight_router_def New_def tight_config_def)
  have f: "\<not> f_lt (Fin 90) (po_WindowPctAbove (policy_defaults (cf_Policy (ro_cfg tight_router))))"
    "\<not> f_lt (po_Quality (policy_defaults (cf_Policy (ro_cfg tight_router)))) (cf_MinQuality (ro_cfg tight_router))"
    "po_Enabled (cf_Policy (ro_cfg tight_router))" "cf_Classify (ro_cfg tight_router) = quiet_classify"
    by (simp_all add: tight_router_def New_def tight_config_def quiet_config_def quiet_policy_def policy_defaults_def
        DefaultPolicyWindowPct_def DefaultPolicyQuality_def)
  have u: "upgradeCheck tight_router ''anthropic'' m t = None" for m t
    by (simp add: upgradeCheck_def preferredFor_def tight_router_def New_def tight_config_def quiet_config_def)
  show ?thesis
    by (simp add: Advise_def asked_def opus_request_def Let_def m w f u tight_cheapest)
qed


text \<open>
  The policy's target is the cheapest model on offer, by cost and then by name, among those that
  are named, up, permitted and cost something; where costs are numbers that decides it whatever
  order the card's rows come in.
\<close>

theorem cheapest_target_least:
  assumes "ro_spend r = Some e"
    and "\<And>nc. nc \<in> set (candidates (cf_Policy (ro_cfg r)) (tb_rates (latest_table e)) p) \<Longrightarrow> snd nc \<noteq> NaN"
  shows "cheapestTarget r p = Some n \<longleftrightarrow>
    (\<exists>c. least_candidate r p (candidates (cf_Policy (ro_cfg r)) (tb_rates (latest_table e)) p) n c)"
  using cheapest_of_iff [OF assms(2)] by (simp add: cheapestTarget_def assms(1))


lemma tight_candidates:
  "candidates (cf_Policy (ro_cfg tight_router)) claude_card ''anthropic'' = [(''claude-opus'', Fin 90), (''claude-haiku'', Fin 6)]"
proof -
  have n: "nameable ''claude-opus*'' = Some ''claude-opus''" "nameable ''claude-haiku*'' = Some ''claude-haiku''" by code_simp+
  show ?thesis
    by (simp add: candidates_def claude_card_def tight_router_def New_def tight_config_def quiet_config_def quiet_policy_def n blended_few)
qed

theorem cheapest_target_least_witness:
  "\<exists>c. least_candidate tight_router ''anthropic'' [(''claude-opus'', Fin 90), (''claude-haiku'', Fin 6)] ''claude-haiku'' c"
proof -
  have e: "ro_spend tight_router = Some [day_card 10 claude_card]" by (simp add: tight_router_def New_def)
  have c: "candidates (cf_Policy (ro_cfg tight_router)) (tb_rates (latest_table [day_card 10 claude_card])) ''anthropic'' =
      [(''claude-opus'', Fin 90), (''claude-haiku'', Fin 6)]"
    by (simp add: latest_table_def day_card_def tight_candidates)
  have "cheapestTarget tight_router ''anthropic'' = Some ''claude-haiku'' \<longleftrightarrow>
      (\<exists>c. least_candidate tight_router ''anthropic''
         (candidates (cf_Policy (ro_cfg tight_router)) (tb_rates (latest_table [day_card 10 claude_card])) ''anthropic'') ''claude-haiku'' c)"
    by (rule cheapest_target_least [OF e]) (auto simp: c)
  with tight_cheapest show ?thesis by (simp add: c)
qed

text \<open>
  C40: A refreshed rate card never reaches the preferred-model ceiling. Where the engine's later cards
  are dated after the zero time and its first lists both the target and the preferred model, whether
  a route needs approval is the same whatever the later cards say; the policy's target, meanwhile,
  is picked from the last (\<open>blendedRate\<close> computes at the zero time, \<open>cheapestTarget\<close> reads
  \<open>Table\<close>).
\<close>

theorem ceiling_reads_first_card:
  assumes "ro_spend r = Some (d # es)"
    and "\<And>c. c \<in> set es \<union> set es' \<Longrightarrow> zero_ns < t_ns (dt_from c)"
    and "card_lookup p t d = Inr rate" and "card_lookup p (preferredFor r p) d = Inr rate'" and "t \<noteq> []"
  shows "upgradeCheck (r\<lparr>ro_spend := Some (d # es')\<rparr>) p m t = upgradeCheck r p m t"
proof -
  let ?r = "r\<lparr>ro_spend := Some (d # es')\<rparr>"
  have pref: "preferredFor ?r p = preferredFor r p" by (simp add: preferredFor_def)
  have t: "blendedRate ?r p t = blendedRate r p t"
    using blendedRate_first [OF assms(1) _ assms(3,5)] blendedRate_first [of ?r d es', OF _ _ assms(3,5)] assms(2) by simp
  show ?thesis
  proof (cases "preferredFor r p = []")
    case False
    then have "blendedRate ?r p (preferredFor r p) = blendedRate r p (preferredFor r p)"
      using blendedRate_first [OF assms(1) _ assms(4)] blendedRate_first [of ?r d es', OF _ _ assms(4)] assms(2) by simp
    with t show ?thesis unfolding upgradeCheck_def pref Let_def by simp
  qed (simp add: upgradeCheck_def pref)
qed

definition dear_card :: rates where
  "dear_card = [(Key ''anthropic'' ''claude-opus*'', usd 15 75), (Key ''anthropic'' ''claude-haiku*'', usd 100 500)]"

definition opus_ceiling :: router where
  "opus_ceiling = New (quiet_config\<lparr>cf_PreferredModel := Some (\<lambda>p. ''claude-opus'')\<rparr>) (Some [day_card 10 claude_card])"

theorem ceiling_reads_first_card_witness:
  "upgradeCheck (opus_ceiling\<lparr>ro_spend := Some [day_card 10 claude_card, day_card 20 dear_card]\<rparr>) ''anthropic'' ''claude-opus'' ''claude-haiku'' =
   upgradeCheck opus_ceiling ''anthropic'' ''claude-opus'' ''claude-haiku'' \<and>
   list_price claude_card ''anthropic'' ''claude-haiku'' = Some (blended (usd 1 5)) \<and>
   list_price dear_card ''anthropic'' ''claude-haiku'' = Some (blended (usd 100 500))"
proof -
  have l: "Lookup claude_card ''anthropic'' ''claude-haiku'' = Inr (usd 1 5)" "Lookup claude_card ''anthropic'' ''claude-opus'' = Inr (usd 15 75)"
    "Lookup dear_card ''anthropic'' ''claude-haiku'' = Inr (usd 100 500)"
    by code_simp+
  have "ro_spend opus_ceiling = Some (day_card 10 claude_card # [])" by (simp add: opus_ceiling_def New_def)
  from ceiling_reads_first_card [OF this, of "[day_card 20 dear_card]" "''anthropic''" "''claude-haiku''"] l
  show ?thesis
    by (simp add: day_card_def zero_ns_def preferredFor_def opus_ceiling_def New_def list_price_def)
qed

text \<open>
  A request for a model the operator's policy rules out is moved to the permitted model on offer
  closest in price: the dearest of those that cost no more than the one asked for (any, when that
  one has no price), else the cheapest. Only where no model on offer is priced, up and permitted is
  there no target. Prices on the current card are taken to be zero or more.
\<close>

theorem forbidden_model_moves_closest:
  assumes "ro_spend r = Some e" and "rows = tb_rates (latest_table e)"
    and "\<And>nc. nc \<in> set (offers r p rows) \<Longrightarrow> f_nonneg (snd nc)"
    and "forbiddenRule r p m = Some rule"
  shows "ru_Quality rule = Fin 1 \<and>
    (if ru_ToModel rule = [] then offers r p rows = []
     else \<exists>nc\<in>set (offers r p rows). fst nc = ru_ToModel rule \<and>
       (\<forall>x\<in>set (offers r p rows). if in_limit (list_price rows p m) nc then in_limit (list_price rows p m) x \<longrightarrow> \<not> dearer x nc
         else \<not> in_limit (list_price rows p m) x \<and> \<not> dearer nc x))"
proof -
  have "ru_ToModel rule = closestPermitted r p m" "ru_Quality rule = Fin 1"
    using assms(4) by (auto simp: forbiddenRule_def split: if_splits)
  then show ?thesis using closest_spec [OF assms(1,2), of p m, OF assms(3)] by simp
qed

definition no_opus :: router where
  "no_opus = New (quiet_config\<lparr>cf_Permits := Some (\<lambda>p m. m \<noteq> ''claude-opus''),
     cf_Policy := quiet_policy\<lparr>po_Models := (\<lambda>p. [''claude-opus'', ''claude-haiku''])\<rparr>\<rparr>) (Some [day_card 10 claude_card])"

lemma no_opus_offers: "offers no_opus ''anthropic'' claude_card = [(''claude-haiku'', Fin 6)]"
proof -
  have l: "Lookup claude_card ''anthropic'' ''claude-haiku'' = Inr (usd 1 5)" "Lookup claude_card ''anthropic'' ''claude-opus'' = Inr (usd 15 75)"
    by code_simp+
  show ?thesis
    by (simp add: offers_def no_opus_def New_def list_price_def l blended_few usable_def permits_def is_available_def quiet_config_def)
qed

theorem forbidden_model_moves_closest_witness:
  "\<exists>rule. forbiddenRule no_opus ''anthropic'' ''claude-opus'' = Some rule \<and> ru_ToModel rule = ''claude-haiku''"
proof -
  have e: "ro_spend no_opus = Some [day_card 10 claude_card]" by (simp add: no_opus_def New_def)
  have rows: "claude_card = tb_rates (latest_table [day_card 10 claude_card])" by (simp add: latest_table_def day_card_def)
  obtain rule where rule: "forbiddenRule no_opus ''anthropic'' ''claude-opus'' = Some rule"
    by (simp add: forbiddenRule_def permits_def no_opus_def New_def)
  from forbidden_model_moves_closest [OF e rows, of "''anthropic''", OF _ rule] have "ru_ToModel rule = ''claude-haiku''"
    by (auto simp: no_opus_offers split: if_splits)
  with rule show ?thesis by blast
qed

end
