(* ===== verification/RoutingApproval.thy ===== *)
theory RoutingApproval
  imports Router Store "HOL-Library.Product_Lexorder"
begin

text \<open>
  The operator's answers on routes the router would not take on its own: the log of proposals and
  decisions (\<open>internal/contexts/optimization/routingapproval/store.go\<close>), the answer and its
  presence proof (\<open>internal/capability/actions/choices.go\<close>) and the gate the router asks
  (\<open>internal/capability/routers/approvals.go\<close>). The log's accesses can fail; the presence
  key's trust is what the key store answers at an instant (\<open>KeyStore.Trust\<close>), or an error.
\<close>

subsection \<open>The log\<close>

datatype record_kind = KindProposed | KindDecided | KindOther string

record route_record =
  rr_Kind :: record_kind
  rr_At :: gotime
  rr_Key :: string
  rr_Provider :: string
  rr_From :: string
  rr_To :: string
  rr_Preferred :: string
  rr_DeltaUSD :: f64
  rr_Priced :: bool
  rr_Reason :: string
  rr_Decision :: string
  rr_ChosenModel :: string
  rr_Seen :: int
  rr_Proof :: "proof_stmt option"

record route_state =
  rv_Record :: route_record
  rv_Decided :: bool
  rv_RaisedAt :: gotime

definition blank_record :: route_record where
  "blank_record =
     \<lparr>rr_Kind = KindOther [], rr_At = zero_time, rr_Key = [], rr_Provider = [], rr_From = [], rr_To = [], rr_Preferred = [],
      rr_DeltaUSD = Fin 0, rr_Priced = False, rr_Reason = [], rr_Decision = [], rr_ChosenModel = [], rr_Seen = 0, rr_Proof = None\<rparr>"

definition blank_state :: route_state where
  "blank_state = \<lparr>rv_Record = blank_record, rv_Decided = False, rv_RaisedAt = zero_time\<rparr>"

text \<open>One line of the loop of \<open>Load\<close>, on the state of the record's own key.\<close>

definition take_record :: "route_state \<Rightarrow> route_record \<Rightarrow> route_state" where
  "take_record cur r =
     (case rr_Kind r of
        KindProposed \<Rightarrow>
          (let seen = rr_Seen (rv_Record cur) + 1;
               raised = (if IsZero (rv_RaisedAt cur) then rr_At r else rv_RaisedAt cur);
               rec = (if rv_Decided cur then rv_Record cur else r)
           in \<lparr>rv_Record = rec\<lparr>rr_Seen := seen\<rparr>, rv_Decided = rv_Decided cur, rv_RaisedAt = raised\<rparr>)
      | KindDecided \<Rightarrow>
          cur\<lparr>rv_Record := (rv_Record cur)\<lparr>rr_Decision := rr_Decision r, rr_ChosenModel := rr_ChosenModel r,
                 rr_Proof := rr_Proof r, rr_Key := rr_Key r, rr_At := rr_At r\<rparr>, rv_Decided := True\<rparr>
      | KindOther k \<Rightarrow> cur)"

type_synonym route_states = "(string \<times> route_state) list"

definition state_of :: "route_states \<Rightarrow> string \<Rightarrow> route_state" where
  "state_of sts k = (case map_of sts k of None \<Rightarrow> blank_state | Some st \<Rightarrow> st)"

definition fold_record :: "route_states \<Rightarrow> route_record \<Rightarrow> route_states" where
  "fold_record sts r =
     (if rr_Key r = [] \<or> (rr_Kind r \<noteq> KindProposed \<and> rr_Kind r \<noteq> KindDecided) then sts
      else AList.update (rr_Key r) (take_record (state_of sts (rr_Key r)) r) sts)"

definition fold_log :: "route_record list \<Rightarrow> route_states" where
  "fold_log rs = foldl fold_record [] rs"

text \<open>
  The log's file, absent at first; what each access comes to; how long a record's line is; the
  clock; and what the key store answers.
\<close>

record rstore =
  rw_log :: "route_record jsonl option"
  rw_step :: nat
  rw_outcome :: "nat \<Rightarrow> outcome"
  rw_bytes :: "route_record \<Rightarrow> nat"
  rw_now :: "nat \<Rightarrow> gotime"
  rw_trust :: "gotime \<Rightarrow> string + trust"

definition r_tick :: "rstore \<Rightarrow> rstore" where
  "r_tick w = w\<lparr>rw_step := rw_step w + 1\<rparr>"

definition r_outcome :: "(rstore, outcome) io" where
  "r_outcome w = (Inr (rw_outcome w (rw_step w)), r_tick w)"

definition r_now :: "(rstore, gotime) io" where
  "r_now w = (Inr (rw_now w (rw_step w)), r_tick w)"

definition log_now :: "rstore \<Rightarrow> route_record jsonl" where
  "log_now w = (case rw_log w of None \<Rightarrow> empty_log | Some l \<Rightarrow> l)"

definition store_append :: "route_record \<Rightarrow> (rstore, unit) io" where
  "store_append r =
     (if \<not> is_number (rr_DeltaUSD r) then fail (Failed ''routingapproval: encode: json: unsupported value'')
      else io_bind r_outcome (\<lambda>oc w.
        (case oc of
           Works \<Rightarrow> (Inr (), w\<lparr>rw_log := Some (append_line (rw_bytes w r) r (log_now w))\<rparr>)
         | Fails e \<Rightarrow> (Inl (Failed (''routingapproval: open: '' @ e)), w)
         | Partly n e \<Rightarrow> (Inl (Failed (''routingapproval: write: '' @ e)), w\<lparr>rw_log := Some (append_part n (rw_bytes w r) r (log_now w))\<rparr>)
         | Late e \<Rightarrow> (Inr (), w\<lparr>rw_log := Some (append_line (rw_bytes w r) r (log_now w))\<rparr>))))"

definition Propose :: "route_record \<Rightarrow> (rstore, unit) io" where
  "Propose r0 =
     (let r = r0\<lparr>rr_Kind := KindProposed\<rparr>
      in if IsZero (rr_At r) then io_bind r_now (\<lambda>t. store_append (r\<lparr>rr_At := UTC t\<rparr>)) else store_append r)"

definition DecideSigned :: "string \<Rightarrow> string \<Rightarrow> string \<Rightarrow> proof_stmt option \<Rightarrow> (rstore, unit) io" where
  "DecideSigned key decision chosen pf =
     io_bind r_now (\<lambda>t. store_append (blank_record\<lparr>rr_Kind := KindDecided, rr_At := UTC t, rr_Key := key,
       rr_Decision := decision, rr_ChosenModel := chosen, rr_Proof := pf\<rparr>))"

definition maxRouteLine :: nat where "maxRouteLine = 1048576"

definition LoadRoutes :: "(rstore, route_states) io" where
  "LoadRoutes = io_bind r_outcome (\<lambda>oc. io_bind (look id) (\<lambda>w.
     (case (oc, rw_log w) of
        (Fails e, _) \<Rightarrow> fail (Failed (''routingapproval: open: '' @ e))
      | (_, None) \<Rightarrow> ret []
      | (Partly n e, Some l) \<Rightarrow> fail (Failed (''routingapproval: read: '' @ e))
      | (_, Some l) \<Rightarrow>
          if scan_fails maxRouteLine l then fail (Failed ''routingapproval: read: bufio.Scanner: token too long'')
          else ret (fold_log (scan maxRouteLine l)))))"

text \<open>Undecided routes, the most recently proposed first and then by key; keys differ, so the order is total.\<close>

definition route_before :: "route_state \<Rightarrow> route_state \<Rightarrow> bool" where
  "route_before a b =
     (if \<not> Equal (rr_At (rv_Record a)) (rr_At (rv_Record b)) then After (rr_At (rv_Record a)) (rr_At (rv_Record b))
      else rr_Key (rv_Record a) < rr_Key (rv_Record b))"

definition PendingRoutes :: "(rstore, route_state list) io" where
  "PendingRoutes = io_bind LoadRoutes (\<lambda>sts.
     ret (sort_key (\<lambda>st. (- t_ns (rr_At (rv_Record st)), rr_Key (rv_Record st))) (filter (\<lambda>st. \<not> rv_Decided st) (map snd sts))))"

subsection \<open>The operator's answer\<close>

definition VerifyRoutingProof ::
  "(string \<Rightarrow> string \<Rightarrow> string \<Rightarrow> bool) \<Rightarrow> route_state \<Rightarrow> proof_stmt option \<Rightarrow> gotime \<Rightarrow> (rstore, vresult) io" where
  "VerifyRoutingProof ecdsa st pf now =
     io_bind r_now (\<lambda>t. io_bind (look (\<lambda>w. rw_trust w (UTC t))) (\<lambda>tr.
       ret (case tr of
              Inl e \<Rightarrow> \<lparr>vr_reason = ReasonKeyUnreadable, vr_key_id = []\<rparr>
            | Inr trust \<Rightarrow> Verify ecdsa pf (RoutingExpect (rr_Key (rv_Record st)) (rv_RaisedAt st) now) trust)))"

datatype routing_method = MethodCLI | MethodAPI | MethodMCP

record routing_answer =
  ra_Key :: string
  ra_Decision :: string
  ra_Approval :: mode
  ra_Proof :: "proof_stmt option"
  ra_Method :: routing_method

record routing_decision =
  rd_Key :: string
  rd_Decision :: string
  rd_Model :: string
  rd_Presence :: string
  rd_PresenceKey :: string
  rd_Note :: string

definition shellQuote :: "string \<Rightarrow> string" where
  "shellQuote s = CHR 0x27 # concat (map (\<lambda>c. if c = CHR 0x27 then [CHR 0x27, CHR 0x5C, CHR 0x27, CHR 0x27] else [c]) s) @ [CHR 0x27]"

definition mode_name :: "mode \<Rightarrow> string" where
  "mode_name m = (case m of ModeChannel \<Rightarrow> ''channel'' | ModePresence \<Rightarrow> ''presence'' | ModeStrict \<Rightarrow> ''presence-strict'')"

definition decide_command :: "route_state \<Rightarrow> string" where
  "decide_command st = ''tokenops routing decide '' @ shellQuote (rr_Key (rv_Record st)) @ '' approve''"

definition checkRoutingProof ::
  "(string \<Rightarrow> string \<Rightarrow> string \<Rightarrow> bool) \<Rightarrow> route_state \<Rightarrow> routing_answer \<Rightarrow> (rstore, proof_stmt option) io" where
  "checkRoutingProof ecdsa st req =
     (let enforced = mode_Enforced (ra_Approval req); name = mode_name (ra_Approval req)
      in if enforced \<and> ra_Method req = MethodMCP then
           fail (InputError (''boundary_approval is '' @ name @ '': a model upgrade is approved in person, not through an agent; run `'' @
             decide_command st @ ''` in your own terminal (it asks for Touch ID, a paired Apple Watch or your password), or deny here''))
         else if ra_Proof req = None \<and> \<not> enforced then ret None
         else io_bind r_now (\<lambda>t. io_bind (VerifyRoutingProof ecdsa st (ra_Proof req) (UTC t)) (\<lambda>res.
           if vresult_OK res then ret (ra_Proof req)
           else if \<not> enforced then ret None
           else if vr_reason res = ReasonNotEnrolled then
             fail (InputError (''boundary_approval is '' @ name @ '', and no presence key is enrolled on this machine: '' @
               ''enrol one with `tokenops boundaries presence enroll`, or deny''))
           else fail (InputError (''boundary_approval is '' @ name @ '', and this approval is not honoured: '' @ Phrase (vr_reason res) @
               ''. `'' @ decide_command st @ ''` in your own terminal signs it; denying needs no signature'')))))"

definition routing_choice :: "route_state \<Rightarrow> string \<Rightarrow> (string \<times> string) option" where
  "routing_choice st d =
     (let word = to_lower (trim_space d)
      in if word = ''approve'' \<or> word = ''approved'' then Some (''approved'', rr_To (rv_Record st))
         else if word = ''deny'' \<or> word = ''denied'' then Some (''denied'', rr_From (rv_Record st))
         else None)"

definition AnswerRouting :: "(string \<Rightarrow> string \<Rightarrow> string \<Rightarrow> bool) \<Rightarrow> routing_answer \<Rightarrow> (rstore, routing_decision) io" where
  "AnswerRouting ecdsa req =
     (let key = trim_space (ra_Key req)
      in if key = [] then fail (InputError ''key is required (from the pending routing proposals)'')
         else io_bind LoadRoutes (\<lambda>sts.
           case map_of sts key of
             None \<Rightarrow> fail (InputError (''no routing proposal with key '' @ key))
           | Some st \<Rightarrow>
               (case routing_choice st (ra_Decision req) of
                  None \<Rightarrow> fail (InputError (''decision must be '' @ CHR 0x22 # ''approve'' @ CHR 0x22 # '' or '' @ CHR 0x22 # ''deny'' @ [CHR 0x22]))
                | Some (decision, chosen) \<Rightarrow>
                    io_bind (if decision = ''approved'' then checkRoutingProof ecdsa st req else ret None) (\<lambda>pf.
                    io_then (DecideSigned key decision chosen pf)
                      (ret (let out = \<lparr>rd_Key = key, rd_Decision = decision, rd_Model = chosen, rd_Presence = [], rd_PresenceKey = [],
                                      rd_Note = ''applies to matching requests from now on; no restart needed''\<rparr>
                            in case pf of None \<Rightarrow> out
                               | Some p \<Rightarrow> out\<lparr>rd_Presence := ''signed'', rd_PresenceKey := pf_key p,
                                              rd_Note := rd_Note out @ ''; signed with presence key '' @ pf_key p\<rparr>))))))"

definition DecideRouting :: "(string \<Rightarrow> string \<Rightarrow> string \<Rightarrow> bool) \<Rightarrow> string \<Rightarrow> string \<Rightarrow> (rstore, routing_decision) io" where
  "DecideRouting ecdsa key decision =
     AnswerRouting ecdsa \<lparr>ra_Key = key, ra_Decision = decision, ra_Approval = ModeChannel, ra_Proof = None, ra_Method = MethodCLI\<rparr>"

subsection \<open>What the router is told\<close>

definition route_key :: "provider \<Rightarrow> string \<Rightarrow> string \<Rightarrow> string" where
  "route_key p from_model to_model = p @ ''|'' @ from_model @ ''|'' @ to_model"

definition UpgradeDecision ::
  "mode \<Rightarrow> (string \<Rightarrow> string \<Rightarrow> string \<Rightarrow> bool) \<Rightarrow> provider \<Rightarrow> string \<Rightarrow> string \<Rightarrow> (rstore, route_decision) io" where
  "UpgradeDecision m ecdsa p from_model to_model =
     io_bind (attempt LoadRoutes) (\<lambda>loaded.
       case loaded of
         Inl e \<Rightarrow> ret DecisionPending
       | Inr sts \<Rightarrow>
           (case map_of sts (route_key p from_model to_model) of
              None \<Rightarrow> ret DecisionPending
            | Some st \<Rightarrow>
                if \<not> rv_Decided st then ret DecisionPending
                else if rr_Decision (rv_Record st) = ''approved'' then
                  (if mode_Enforced m then
                     io_bind (VerifyRoutingProof ecdsa st (rr_Proof (rv_Record st)) (rr_At (rv_Record st))) (\<lambda>res.
                       ret (if vresult_OK res then DecisionApproved else DecisionPending))
                   else ret DecisionApproved)
                else if rr_Decision (rv_Record st) = ''denied'' then ret DecisionDenied
                else ret DecisionPending))"

definition proposal_record :: "proposal \<Rightarrow> route_record" where
  "proposal_record p =
     blank_record\<lparr>rr_Key := proposal_key p, rr_Provider := pr_Provider p, rr_From := pr_FromModel p, rr_To := pr_ProposedModel p,
       rr_Preferred := pr_PreferredModel p, rr_DeltaUSD := pr_DeltaUSD p, rr_Priced := pr_Priced p, rr_Reason := pr_Reason p\<rparr>"

text \<open>\<open>OnProposal\<close>: a record that cannot be kept is logged and left.\<close>

definition OnProposal :: "proposal \<Rightarrow> (rstore, unit) io" where
  "OnProposal p = io_then (attempt (Propose (proposal_record p))) (ret ())"

subsection \<open>What the fold keeps of one route\<close>

definition of_route :: "string \<Rightarrow> route_record \<Rightarrow> bool" where
  "of_route k r \<longleftrightarrow> rr_Key r = k \<and> (rr_Kind r = KindProposed \<or> rr_Kind r = KindDecided)"

lemma fold_log_snoc: "fold_log (rs @ [r]) = fold_record (fold_log rs) r"
  by (simp add: fold_log_def)

lemma fold_log_route:
  assumes "k \<noteq> []"
  shows "map_of (fold_log rs) k =
    (if filter (of_route k) rs = [] then None else Some (foldl take_record blank_state (filter (of_route k) rs)))"
proof (induction rs rule: rev_induct)
  case (snoc r rs)
  show ?case
  proof (cases "of_route k r")
    case True
    then have "fold_record (fold_log rs) r = AList.update k (take_record (state_of (fold_log rs) k) r) (fold_log rs)"
      using assms by (auto simp: fold_record_def of_route_def)
    moreover have "state_of (fold_log rs) k = foldl take_record blank_state (filter (of_route k) rs)"
      using snoc by (simp add: state_of_def)
    ultimately show ?thesis using True by (simp add: fold_log_snoc map_of_update)
  next
    case False
    then have "map_of (fold_record (fold_log rs) r) k = map_of (fold_log rs) k"
      by (auto simp: fold_record_def of_route_def map_of_update)
    with False snoc show ?thesis by (simp add: fold_log_snoc)
  qed
qed (simp add: fold_log_def)

lemma take_proposed:
  "rr_Kind r = KindProposed \<Longrightarrow> rv_Decided (take_record cur r) = rv_Decided cur"
  "rr_Kind r = KindProposed \<Longrightarrow> rv_Decided cur \<Longrightarrow> rv_Record (take_record cur r) = (rv_Record cur)\<lparr>rr_Seen := rr_Seen (rv_Record cur) + 1\<rparr>"
  "rr_Kind r = KindProposed \<Longrightarrow> \<not> rv_Decided cur \<Longrightarrow> rv_Record (take_record cur r) = r\<lparr>rr_Seen := rr_Seen (rv_Record cur) + 1\<rparr>"
  by (simp_all add: take_record_def Let_def)

lemma take_decided:
  "rr_Kind r = KindDecided \<Longrightarrow> rv_Decided (take_record cur r)"
  "rr_Kind r = KindDecided \<Longrightarrow> rv_RaisedAt (take_record cur r) = rv_RaisedAt cur"
  "rr_Kind r = KindDecided \<Longrightarrow> rr_Decision (rv_Record (take_record cur r)) = rr_Decision r"
  "rr_Kind r = KindDecided \<Longrightarrow> rr_ChosenModel (rv_Record (take_record cur r)) = rr_ChosenModel r"
  "rr_Kind r = KindDecided \<Longrightarrow> rr_Proof (rv_Record (take_record cur r)) = rr_Proof r"
  "rr_Kind r = KindDecided \<Longrightarrow> rr_Key (rv_Record (take_record cur r)) = rr_Key r"
  "rr_Kind r = KindDecided \<Longrightarrow> rr_At (rv_Record (take_record cur r)) = rr_At r"
  by (simp_all add: take_record_def)

text \<open>The answer a state carries: what the gate reads of it.\<close>

definition answer_part :: "route_state \<Rightarrow> bool \<times> string \<times> string \<times> proof_stmt option \<times> string \<times> gotime" where
  "answer_part st = (let r = rv_Record st in
     (rv_Decided st, rr_Decision r, rr_ChosenModel r, rr_Proof r, rr_Key r, rr_At r))"

definition answer_of :: "route_record \<Rightarrow> bool \<times> string \<times> string \<times> proof_stmt option \<times> string \<times> gotime" where
  "answer_of r = (True, rr_Decision r, rr_ChosenModel r, rr_Proof r, rr_Key r, rr_At r)"

lemma take_decided_answer: "rr_Kind r = KindDecided \<Longrightarrow> answer_part (take_record cur r) = answer_of r"
  by (simp add: answer_part_def answer_of_def Let_def take_decided)

lemma take_proposed_answer: "rr_Kind r = KindProposed \<Longrightarrow> rv_Decided cur \<Longrightarrow> answer_part (take_record cur r) = answer_part cur"
  by (simp add: answer_part_def Let_def take_proposed)

lemma proposals_keep_answer:
  assumes "\<forall>r\<in>set ps. rr_Kind r = KindProposed" and "rv_Decided cur"
  shows "answer_part (foldl take_record cur ps) = answer_part cur \<and> rv_Decided (foldl take_record cur ps)"
  using assms by (induction ps arbitrary: cur) (simp_all add: take_proposed take_proposed_answer)

lemma raised_stays:
  assumes "\<not> IsZero (rv_RaisedAt cur)"
  shows "rv_RaisedAt (foldl take_record cur rs) = rv_RaisedAt cur"
  using assms
proof (induction rs arbitrary: cur)
  case (Cons r rs)
  have "rv_RaisedAt (take_record cur r) = rv_RaisedAt cur"
    using Cons.prems by (cases "rr_Kind r") (simp_all add: take_record_def Let_def)
  with Cons show ?case by simp
qed simp

lemma decisions_keep_raised:
  "\<forall>r\<in>set ds. rr_Kind r = KindDecided \<Longrightarrow> rv_RaisedAt (foldl take_record cur ds) = rv_RaisedAt cur"
  by (induction ds arbitrary: cur) (simp_all add: take_decided)

lemma seen_counts:
  "\<forall>r\<in>set rs. rr_Kind r = KindProposed \<or> rr_Kind r = KindDecided \<Longrightarrow>
   rr_Seen (rv_Record (foldl take_record cur rs)) =
     rr_Seen (rv_Record cur) + int (length (filter (\<lambda>r. rr_Kind r = KindProposed) rs))"
  by (induction rs arbitrary: cur) (auto simp: take_record_def Let_def)

lemma newest_fold:
  assumes "k \<noteq> []" and "of_route k d" "rr_Kind d = KindDecided"
    and "\<And>r. r \<in> set ps \<Longrightarrow> of_route k r \<Longrightarrow> rr_Kind r = KindProposed"
  shows "\<exists>st. map_of (fold_log (rs @ d # ps)) k = Some st \<and> answer_part st = answer_of d"
proof -
  let ?cur = "take_record (foldl take_record blank_state (filter (of_route k) rs)) d"
  have "answer_part (foldl take_record ?cur (filter (of_route k) ps)) = answer_part ?cur"
    using assms(4) take_decided(1) [OF assms(3)] by (intro conjunct1 [OF proposals_keep_answer]) auto
  then show ?thesis using assms(2,3) by (simp add: fold_log_route [OF assms(1)] take_decided_answer)
qed

subsection \<open>A store that works\<close>

definition calm :: "rstore \<Rightarrow> route_record list \<Rightarrow> trust \<Rightarrow> bool" where
  "calm w rs tr \<longleftrightarrow>
     (\<forall>n. rw_outcome w n = Works) \<and> (\<forall>t. rw_trust w t = Inr tr) \<and>
     (case rw_log w of
        None \<Rightarrow> rs = []
      | Some l \<Rightarrow> \<not> scan_fails maxRouteLine l \<and> \<not> jl_open l \<and> scan maxRouteLine l = rs)"

lemma calm_tick [simp]: "calm (r_tick w) rs tr = calm w rs tr"
  by (simp add: calm_def r_tick_def)

lemma calm_tick_step [simp]: "calm (w\<lparr>rw_step := n\<rparr>) rs tr = calm w rs tr"
  by (simp add: calm_def)

lemma calm_load: "calm w rs tr \<Longrightarrow> LoadRoutes w = (Inr (fold_log rs), r_tick w)"
  by (cases "rw_log w") (simp_all add: calm_def LoadRoutes_def io_bind_def r_outcome_def look_def r_tick_def fold_log_def)

lemma calm_now: "r_now w = (Inr (rw_now w (rw_step w)), r_tick w)"
  by (simp add: r_now_def)

lemma calm_verify:
  "calm w rs tr \<Longrightarrow> VerifyRoutingProof ecdsa st pf now w =
    (Inr (Verify ecdsa pf (RoutingExpect (rr_Key (rv_Record st)) (rv_RaisedAt st) now) tr), r_tick w)"
  by (simp add: VerifyRoutingProof_def io_bind_def r_now_def look_def calm_def r_tick_def)

lemma calm_append:
  assumes "calm w rs tr" and "is_number (rr_DeltaUSD r)" and "rw_bytes w r < maxRouteLine"
  shows "\<exists>w'. store_append r w = (Inr (), w') \<and> calm w' (rs @ [r]) tr \<and> rw_now w' = rw_now w \<and> rw_bytes w' = rw_bytes w"
proof -
  let ?w = "(r_tick w)\<lparr>rw_log := Some (append_line (rw_bytes w r) r (log_now w))\<rparr>"
  have "store_append r w = (Inr (), ?w)"
    using assms by (simp add: store_append_def io_bind_def r_outcome_def calm_def r_tick_def log_now_def)
  moreover have "\<not> scan_fails maxRouteLine (log_now w) \<and> \<not> jl_open (log_now w) \<and> scan maxRouteLine (log_now w) = rs"
    using assms(1) by (cases "rw_log w") (auto simp: calm_def log_now_def scan_fails_def empty_log_def scan_def List.map_filter_simps)
  moreover have "\<not> scan_fails maxRouteLine (append_line n v l) \<and> \<not> jl_open (append_line n v l)"
    if "\<not> scan_fails maxRouteLine l" "\<not> jl_open l" "n < maxRouteLine" for n v and l :: "route_record jsonl"
    using that by (auto simp: append_line_def add_bytes_def joins_def scan_fails_def)
  ultimately have "calm ?w (rs @ [r]) tr"
    using assms scan_append [of maxRouteLine "log_now w"] by (simp add: calm_def r_tick_def)
  then show ?thesis using \<open>store_append r w = (Inr (), ?w)\<close> by (intro exI [of _ ?w]) (simp add: r_tick_def)
qed

text \<open>What the gate answers of a state, against the key as it is trusted.\<close>

definition gate_answer :: "mode \<Rightarrow> (string \<Rightarrow> string \<Rightarrow> string \<Rightarrow> bool) \<Rightarrow> trust \<Rightarrow> route_state option \<Rightarrow> route_decision" where
  "gate_answer m ecdsa tr st =
     (case st of None \<Rightarrow> DecisionPending
      | Some st \<Rightarrow> let r = rv_Record st in
          if \<not> rv_Decided st then DecisionPending
          else if rr_Decision r = ''approved'' then
            (if \<not> mode_Enforced m \<or> vresult_OK (Verify ecdsa (rr_Proof r) (RoutingExpect (rr_Key r) (rv_RaisedAt st) (rr_At r)) tr)
             then DecisionApproved else DecisionPending)
          else if rr_Decision r = ''denied'' then DecisionDenied else DecisionPending)"

lemma calm_gate:
  "calm w rs tr \<Longrightarrow> fst (UpgradeDecision m ecdsa p a b w) = Inr (gate_answer m ecdsa tr (map_of (fold_log rs) (route_key p a b)))"
  using calm_verify [of "r_tick w" rs tr ecdsa]
  by (auto simp: UpgradeDecision_def io_bind_def attempt_def calm_load gate_answer_def Let_def split: option.split)

lemma gate_answer_part:
  "answer_part st = answer_part st' \<Longrightarrow> rv_RaisedAt st = rv_RaisedAt st' \<Longrightarrow>
   gate_answer m ecdsa tr (Some st) = gate_answer m ecdsa tr (Some st')"
  by (auto simp: gate_answer_def answer_part_def Let_def)

subsection \<open>Properties\<close>


text \<open>A route raised, an approval of it signed a minute later, and a denial.\<close>

definition raised_route :: route_record where
  "raised_route = blank_record\<lparr>rr_Kind := KindProposed, rr_At := sample_time 900, rr_Key := ''anthropic|claude-haiku|claude-opus'',
     rr_Provider := ''anthropic'', rr_From := ''claude-haiku'', rr_To := ''claude-opus''\<rparr>"

definition route_proof :: proof_stmt where
  "route_proof = \<lparr>pf_v = 1, pf_key = ''pk-1'', pf_decision = ''anthropic|claude-haiku|claude-opus'', pf_rule = RoutingRule,
     pf_session = [], pf_scope = ScopeSession, pf_challenge = RoutingChallenge ''anthropic|claude-haiku|claude-opus'' (sample_time 900),
     pf_crossed = CrossingsDigest [], pf_issued = sample_time 950, pf_sig = ''sig''\<rparr>"

definition approved_route :: route_record where
  "approved_route = blank_record\<lparr>rr_Kind := KindDecided, rr_At := sample_time 960, rr_Key := ''anthropic|claude-haiku|claude-opus'',
     rr_Decision := ''approved'', rr_ChosenModel := ''claude-opus'', rr_Proof := Some route_proof\<rparr>"

definition denied_route :: route_record where
  "denied_route = blank_record\<lparr>rr_Kind := KindDecided, rr_At := sample_time 9000, rr_Key := ''anthropic|claude-haiku|claude-opus'',
     rr_Decision := ''denied'', rr_ChosenModel := ''claude-haiku''\<rparr>"

definition route_store :: "route_record list \<Rightarrow> rstore" where
  "route_store rs = \<lparr>rw_log = Some (whole_log (map (\<lambda>r. (100, Some r)) rs)), rw_step = 0, rw_outcome = (\<lambda>n. Works),
     rw_bytes = (\<lambda>r. 100), rw_now = (\<lambda>n. sample_time 960), rw_trust = (\<lambda>t. Inr sample_trust)\<rparr>"

lemma route_store_calm: "calm (route_store rs) rs sample_trust"
proof -
  have "scan maxRouteLine (whole_log (map (\<lambda>r. (100, Some r)) rs)) = rs"
    by (subst scan_whole_log) (simp_all add: list_all_iff maxRouteLine_def)
  then show ?thesis by (auto simp: calm_def route_store_def scan_fails_def whole_log_def list_all_iff maxRouteLine_def)
qed

lemma route_key_sample: "route_key ''anthropic'' ''claude-haiku'' ''claude-opus'' = ''anthropic|claude-haiku|claude-opus''"
  by (simp add: route_key_def)

lemma RoutingChallenge_not_Nil [simp]: "RoutingChallenge k t \<noteq> []"
proof -
  have "length (RoutingChallenge k t) = 32" by (simp add: RoutingChallenge_def length_hex_encode length_sha256)
  then show ?thesis by auto
qed

lemma route_proof_ok:
  "vresult_OK (Verify (\<lambda>_ _ _. True) (Some route_proof)
     (RoutingExpect ''anthropic|claude-haiku|claude-opus'' (sample_time 900) (sample_time 960)) sample_trust)"
proof -
  have "Message route_proof = Inr (ApprovalDomain @ write_fields (proof_fields route_proof))"
    by (simp add: Message_def route_proof_def sample_time_def IsZero_def zero_ns_def nanosecond_def RoutingRule_def)
  moreover have "approval_about route_proof (RoutingExpect ''anthropic|claude-haiku|claude-opus'' (sample_time 900) (sample_time 960))"
    by (simp add: approval_about_def route_proof_def RoutingExpect_def)
  moreover have "approval_timely route_proof (RoutingExpect ''anthropic|claude-haiku|claude-opus'' (sample_time 900) (sample_time 960)) sample_trust"
    by (simp add: approval_timely_def route_proof_def RoutingExpect_def sample_trust_def sample_time_def truncate_second_def
        clockSkew_def SessionTTL_def ScopeSession_def ScopeOnce_def)
  moreover have "key_verify (\<lambda>_ _ _. True) (tr_key sample_trust) m (pf_sig route_proof)" for m
    by (simp add: key_verify_def sample_trust_def sample_key_def route_proof_def)
  moreover have "pf_key route_proof = k_id (tr_key sample_trust)" "tr_state sample_trust = TrustPinned"
    by (simp_all add: route_proof_def sample_trust_def sample_key_def)
  ultimately show ?thesis by (auto simp: Verify_OK_iff)
qed

lemma route_answers:
  "map_of (fold_log [raised_route, approved_route]) ''anthropic|claude-haiku|claude-opus'' =
     Some (take_record (take_record blank_state raised_route) approved_route)"
  "map_of (fold_log [raised_route, approved_route, denied_route]) ''anthropic|claude-haiku|claude-opus'' =
     Some (take_record (take_record (take_record blank_state raised_route) approved_route) denied_route)"
  by (simp_all add: fold_log_route of_route_def raised_route_def approved_route_def denied_route_def blank_record_def)

lemma signed_route_approved:
  "fst (UpgradeDecision ModePresence (\<lambda>_ _ _. True) ''anthropic'' ''claude-haiku'' ''claude-opus'' (route_store [raised_route, approved_route])) =
   Inr DecisionApproved"
proof -
  let ?st = "take_record (take_record blank_state raised_route) approved_route"
  have d: "rr_Kind approved_route = KindDecided" "rr_Key approved_route = ''anthropic|claude-haiku|claude-opus''"
    "rr_Decision approved_route = ''approved''" "rr_Proof approved_route = Some route_proof" "rr_At approved_route = sample_time 960"
    by (simp_all add: approved_route_def)
  have "rv_RaisedAt ?st = sample_time 900"
    by (simp add: take_decided d) (simp add: take_record_def raised_route_def blank_state_def IsZero_def zero_time_def)
  then have "gate_answer ModePresence (\<lambda>_ _ _. True) sample_trust (Some ?st) = DecisionApproved"
    using route_proof_ok by (simp add: gate_answer_def Let_def take_decided d)
  then show ?thesis by (simp only: calm_gate [OF route_store_calm] route_key_sample route_answers)
qed


text \<open>
  C27: A signed approval can be played back over a later denial. On a store that works, with any
  setting of \<open>boundary_approval\<close>: where the log ends with an approval of a route that the router
  honours, and later decisions, a denial among them, are then followed by a copy of that line, the
  router is told the route is approved again. The proof binds the route and its first raising,
  both as before, and is judged as of the copied line's own time; nothing is spent.
\<close>

theorem replayed_approval_returns:
  assumes "calm w (rs @ [x]) tr" and "fst (UpgradeDecision m ecdsa p a b w) = Inr DecisionApproved"
    and "rr_Kind x = KindDecided" "rr_Key x = route_key p a b"
    and "\<And>d. d \<in> set ds \<Longrightarrow> rr_Kind d = KindDecided" and "calm w' (rs @ x # ds @ [x]) tr"
  shows "fst (UpgradeDecision m ecdsa p a b w') = Inr DecisionApproved"
proof -
  let ?k = "route_key p a b"
  have k: "?k \<noteq> []" by (simp add: route_key_def)
  have own: "of_route ?k x" using assms(3,4) by (simp add: of_route_def)
  let ?st = "foldl take_record blank_state (filter (of_route ?k) rs)"
  let ?st' = "foldl take_record (take_record ?st x) (filter (of_route ?k) ds)"
  have now: "gate_answer m ecdsa tr (Some (take_record ?st x)) = DecisionApproved"
    using assms(2) own by (simp add: calm_gate [OF assms(1)] fold_log_route [OF k])
  have ds: "\<forall>d\<in>set (filter (of_route ?k) ds). rr_Kind d = KindDecided" using assms(5) by simp
  have "gate_answer m ecdsa tr (Some (take_record ?st' x)) = gate_answer m ecdsa tr (Some (take_record ?st x))"
    by (rule gate_answer_part) (simp_all add: take_decided_answer take_decided assms(3) decisions_keep_raised [OF ds])
  with now own show ?thesis by (simp add: calm_gate [OF assms(6)] fold_log_route [OF k])
qed

theorem replayed_approval_returns_witness:
  "fst (UpgradeDecision ModePresence (\<lambda>_ _ _. True) ''anthropic'' ''claude-haiku'' ''claude-opus''
      (route_store [raised_route, approved_route, denied_route])) = Inr DecisionDenied \<and>
   fst (UpgradeDecision ModePresence (\<lambda>_ _ _. True) ''anthropic'' ''claude-haiku'' ''claude-opus''
      (route_store [raised_route, approved_route, denied_route, approved_route])) = Inr DecisionApproved"
proof
  show "fst (UpgradeDecision ModePresence (\<lambda>_ _ _. True) ''anthropic'' ''claude-haiku'' ''claude-opus''
      (route_store [raised_route, approved_route, denied_route])) = Inr DecisionDenied"
  proof -
    have "rr_Kind denied_route = KindDecided" "rr_Decision denied_route = ''denied''" by (simp_all add: denied_route_def)
    then have "gate_answer ModePresence (\<lambda>_ _ _. True) sample_trust (Some (take_record st denied_route)) = DecisionDenied" for st
      by (simp add: gate_answer_def Let_def take_decided)
    then show ?thesis by (simp only: calm_gate [OF route_store_calm] route_key_sample route_answers)
  qed
  have c: "calm (route_store [raised_route, approved_route]) ([raised_route] @ [approved_route]) sample_trust"
    "calm (route_store [raised_route, approved_route, denied_route, approved_route])
       ([raised_route] @ approved_route # [denied_route] @ [approved_route]) sample_trust"
    using route_store_calm by simp_all
  show "fst (UpgradeDecision ModePresence (\<lambda>_ _ _. True) ''anthropic'' ''claude-haiku'' ''claude-opus''
      (route_store [raised_route, approved_route, denied_route, approved_route])) = Inr DecisionApproved"
    by (rule replayed_approval_returns [OF c(1) signed_route_approved _ _ _ c(2)])
      (simp_all add: approved_route_def denied_route_def route_key_sample)
qed

lemma Verify_at_answer:
  assumes "calm w rs tr" and "checkRoutingProof ecdsa st req w = (Inr pf, w')"
  shows "calm w' rs tr \<and> rw_now w' = rw_now w \<and> rw_bytes w' = rw_bytes w \<and>
    (mode_Enforced (ra_Approval req) \<longrightarrow> ra_Method req \<noteq> MethodMCP \<and> pf = ra_Proof req \<and>
       (\<exists>n. vresult_OK (Verify ecdsa pf (RoutingExpect (rr_Key (rv_Record st)) (rv_RaisedAt st) (UTC (rw_now w n))) tr)))"
proof -
  note v = calm_verify [of "r_tick w" rs tr ecdsa st "ra_Proof req" "UTC (rw_now w (rw_step w))"]
  show ?thesis
    using assms v
    by (auto simp: checkRoutingProof_def Let_def io_bind_def calm_now split: if_splits) (auto simp: r_tick_def)
qed

lemma decided_record:
  assumes "calm w rs tr" and "\<And>r. rw_bytes w r < maxRouteLine"
  shows "\<exists>w' t. DecideSigned k d c pf w = (Inr (), w') \<and> t = UTC (rw_now w (rw_step w)) \<and>
    calm w' (rs @ [blank_record\<lparr>rr_Kind := KindDecided, rr_At := t, rr_Key := k, rr_Decision := d, rr_ChosenModel := c, rr_Proof := pf\<rparr>]) tr"
proof -
  have c: "calm (r_tick w) rs tr" using assms(1) by simp
  let ?r = "blank_record\<lparr>rr_Kind := KindDecided, rr_At := UTC (rw_now w (rw_step w)), rr_Key := k, rr_Decision := d, rr_ChosenModel := c, rr_Proof := pf\<rparr>"
  have "is_number (rr_DeltaUSD ?r)" "rw_bytes (r_tick w) ?r < maxRouteLine"
    using assms(2) by (simp_all add: blank_record_def is_number_def r_tick_def)
  from calm_append [OF c this] show ?thesis by (auto simp: DecideSigned_def io_bind_def calm_now)
qed

text \<open>What an answer that was taken leaves in the log.\<close>

lemma answer_recorded:
  assumes calm: "calm w rs tr" and short: "\<And>r. rw_bytes w r < maxRouteLine"
    and ok: "AnswerRouting ecdsa req w = (Inr out, w')"
  obtains st d c pf t n where "map_of (fold_log rs) (trim_space (ra_Key req)) = Some st"
    "routing_choice st (ra_Decision req) = Some (d, c)" "rd_Decision out = d" "rd_Model out = c"
    "calm w' (rs @ [blank_record\<lparr>rr_Kind := KindDecided, rr_At := UTC (rw_now w t), rr_Key := trim_space (ra_Key req),
       rr_Decision := d, rr_ChosenModel := c, rr_Proof := pf\<rparr>]) tr"
    "d = ''approved'' \<Longrightarrow> mode_Enforced (ra_Approval req) \<Longrightarrow> ra_Method req \<noteq> MethodMCP \<and> pf = ra_Proof req \<and>
       vresult_OK (Verify ecdsa pf (RoutingExpect (rr_Key (rv_Record st)) (rv_RaisedAt st) (UTC (rw_now w n))) tr)"
proof -
  let ?key = "trim_space (ra_Key req)"
  have ne: "?key \<noteq> []" using ok by (auto simp: AnswerRouting_def Let_def)
  from ok obtain st where st: "map_of (fold_log rs) ?key = Some st"
    by (auto simp: AnswerRouting_def Let_def ne io_bind_def calm_load [OF calm] split: option.splits)
  from ok obtain d c where dc: "routing_choice st (ra_Decision req) = Some (d, c)"
    by (auto simp: AnswerRouting_def Let_def ne io_bind_def calm_load [OF calm] st split: option.splits)
  let ?check = "if d = ''approved'' then checkRoutingProof ecdsa st req else ret None"
  from ok obtain pf v where chk: "?check (r_tick w) = (Inr pf, v)"
    by (auto simp: AnswerRouting_def Let_def ne io_bind_def calm_load [OF calm] st dc split: prod.splits sum.splits)
  have v: "calm v rs tr \<and> rw_now v = rw_now w \<and> rw_bytes v = rw_bytes w"
  proof (cases "d = ''approved''")
    case True
    with chk Verify_at_answer [of "r_tick w" rs tr ecdsa st req pf v] calm show ?thesis by (simp add: r_tick_def [of w])
  next
    case False
    with chk calm show ?thesis by (auto simp: r_tick_def)
  qed
  have "\<exists>n. d = ''approved'' \<longrightarrow> mode_Enforced (ra_Approval req) \<longrightarrow> ra_Method req \<noteq> MethodMCP \<and> pf = ra_Proof req \<and>
       vresult_OK (Verify ecdsa pf (RoutingExpect (rr_Key (rv_Record st)) (rv_RaisedAt st) (UTC (rw_now w n))) tr)"
    using chk Verify_at_answer [of "r_tick w" rs tr ecdsa st req pf v] calm
    by (cases "d = ''approved'' \<and> mode_Enforced (ra_Approval req)") (auto simp: r_tick_def [of w])
  then obtain n where n: "d = ''approved'' \<Longrightarrow> mode_Enforced (ra_Approval req) \<Longrightarrow> ra_Method req \<noteq> MethodMCP \<and> pf = ra_Proof req \<and>
       vresult_OK (Verify ecdsa pf (RoutingExpect (rr_Key (rv_Record st)) (rv_RaisedAt st) (UTC (rw_now w n))) tr)" by blast
  obtain u where rec: "DecideSigned ?key d c pf v = (Inr (), u)"
    "calm u (rs @ [blank_record\<lparr>rr_Kind := KindDecided, rr_At := UTC (rw_now w (rw_step v)), rr_Key := ?key,
       rr_Decision := d, rr_ChosenModel := c, rr_Proof := pf\<rparr>]) tr"
    using decided_record [of v rs tr ?key d c pf] v short by auto
  have "w' = u \<and> rd_Decision out = d \<and> rd_Model out = c"
    using ok chk rec(1)
    by (auto simp: AnswerRouting_def Let_def ne io_bind_def io_then_def calm_load [OF calm] st dc split: option.splits)
  with that [OF st dc _ _ _ n] rec(2) show ?thesis by blast
qed


definition approve_route :: routing_answer where
  "approve_route = \<lparr>ra_Key = '' anthropic|claude-haiku|claude-opus'', ra_Decision = ''Approve'', ra_Approval = ModePresence,
     ra_Proof = Some route_proof, ra_Method = MethodCLI\<rparr>"

lemma raised_state:
  "map_of (fold_log [raised_route]) ''anthropic|claude-haiku|claude-opus'' = Some (take_record blank_state raised_route)"
  by (simp add: fold_log_route of_route_def raised_route_def)

lemma raised_parts:
  "rr_Key (rv_Record (take_record blank_state raised_route)) = ''anthropic|claude-haiku|claude-opus''"
  "rr_To (rv_Record (take_record blank_state raised_route)) = ''claude-opus''"
  "rv_RaisedAt (take_record blank_state raised_route) = sample_time 900"
  by (simp_all add: take_record_def raised_route_def blank_state_def IsZero_def zero_time_def Let_def)

lemma approve_route_key: "trim_space (ra_Key approve_route) = ''anthropic|claude-haiku|claude-opus''"
proof -
  have "trim_space '' anthropic|claude-haiku|claude-opus'' = ''anthropic|claude-haiku|claude-opus''" by code_simp
  then show ?thesis by (simp add: approve_route_def)
qed

lemma approve_route_taken: "\<exists>out w'. AnswerRouting (\<lambda>_ _ _. True) approve_route (route_store [raised_route]) = (Inr out, w') \<and> rd_Decision out = ''approved''"
proof -
  let ?w = "route_store [raised_route]" and ?st = "take_record blank_state raised_route"
  let ?k = "''anthropic|claude-haiku|claude-opus''"
  note c = route_store_calm [of "[raised_route]"]
  note key = approve_route_key
  have choice: "routing_choice ?st (ra_Decision approve_route) = Some (''approved'', ''claude-opus'')"
  proof -
    have "to_lower (trim_space ''Approve'') = ''approve''" by code_simp
    then show ?thesis by (simp add: routing_choice_def approve_route_def raised_parts)
  qed
  have now: "rw_now (r_tick w) n = rw_now w n" for w n by (simp add: r_tick_def)
  have "UTC (sample_time 960) = sample_time 960" by (simp add: UTC_def sample_time_def)
  then have chk: "checkRoutingProof (\<lambda>_ _ _. True) ?st approve_route (r_tick ?w) = (Inr (Some route_proof), r_tick (r_tick (r_tick ?w)))"
    using route_proof_ok calm_verify [of "r_tick (r_tick ?w)" "[raised_route]" sample_trust "\<lambda>_ _ _. True" ?st "Some route_proof" "sample_time 960"] c
    by (simp add: checkRoutingProof_def approve_route_def mode_Enforced_def io_bind_def calm_now Let_def now raised_parts)
      (simp add: route_store_def)
  have "calm (r_tick (r_tick (r_tick ?w))) [raised_route] sample_trust" using c by simp
  from decided_record [OF this, of ?k "''approved''" "''claude-opus''" "Some route_proof"] obtain w' where
    "DecideSigned ?k ''approved'' ''claude-opus'' (Some route_proof) (r_tick (r_tick (r_tick ?w))) = (Inr (), w')"
    by (auto simp: r_tick_def route_store_def maxRouteLine_def)
  then show ?thesis
    by (simp add: AnswerRouting_def Let_def key io_bind_def io_then_def calm_load [OF c] raised_state choice chk)
qed


end
