(* ===== verification/Measurement.thy ===== *)
theory Measurement
  imports PlanFacts
begin

text \<open>
  Numbers with their provenance (\<open>internal/contexts/measurement/measurement.go\<close>): a value that may
  hold no amount, its quality, and the sum that keeps the weakest of them. The wire form is the
  struct the value is written as; its JSON is Go's own. Counts of coverage are below the width of
  an \<open>int64\<close>.
\<close>

subsection \<open>Values\<close>

type_synonym quality = string

definition QualityMeasured :: quality where "QualityMeasured = ''measured''"
definition QualityDerived :: quality where "QualityDerived = ''derived''"
definition QualityEstimated :: quality where "QualityEstimated = ''estimated''"
definition QualityUnknown :: quality where "QualityUnknown = ''unknown''"

lemmas quality_defs = QualityMeasured_def QualityDerived_def QualityEstimated_def QualityUnknown_def

definition q_rank :: "quality \<Rightarrow> nat" where
  "q_rank q = (if q = QualityMeasured then 0 else if q = QualityDerived then 1 else if q = QualityEstimated then 2 else 3)"

record coverage =
  cov_Included :: int
  cov_Excluded :: int
  cov_Reasons :: "string list"

record mvalue =
  mv_amount :: f64
  mv_quality :: quality
  mv_source :: string
  mv_caveat :: string
  mv_observedAt :: gotime
  mv_coverage :: coverage

definition no_coverage :: coverage where
  "no_coverage = \<lparr>cov_Included = 0, cov_Excluded = 0, cov_Reasons = []\<rparr>"

definition zero_value :: mvalue where
  "zero_value = \<lparr>mv_amount = Fin 0, mv_quality = [], mv_source = [], mv_caveat = [], mv_observedAt = zero_time,
     mv_coverage = no_coverage\<rparr>"

definition Measured :: "f64 \<Rightarrow> string \<Rightarrow> mvalue" where
  "Measured x source = zero_value\<lparr>mv_amount := x, mv_quality := QualityMeasured, mv_source := source\<rparr>"

definition Derived :: "f64 \<Rightarrow> string \<Rightarrow> mvalue" where
  "Derived x source = zero_value\<lparr>mv_amount := x, mv_quality := QualityDerived, mv_source := source\<rparr>"

definition Estimated :: "f64 \<Rightarrow> string \<Rightarrow> string \<Rightarrow> mvalue" where
  "Estimated x source caveat =
     zero_value\<lparr>mv_amount := x, mv_quality := QualityEstimated, mv_source := source, mv_caveat := caveat\<rparr>"

definition Unknown :: "string \<Rightarrow> mvalue" where
  "Unknown reason = zero_value\<lparr>mv_quality := QualityUnknown, mv_caveat := reason\<rparr>"

definition mv_At :: "mvalue \<Rightarrow> gotime \<Rightarrow> mvalue" where
  "mv_At v t = v\<lparr>mv_observedAt := t\<rparr>"

definition Covering :: "mvalue \<Rightarrow> int \<Rightarrow> int \<Rightarrow> string list \<Rightarrow> mvalue" where
  "Covering v included excluded reasons =
     v\<lparr>mv_coverage := \<lparr>cov_Included = included, cov_Excluded = excluded, cov_Reasons = reasons\<rparr>\<rparr>"

definition WithCaveat :: "mvalue \<Rightarrow> string \<Rightarrow> mvalue" where
  "WithCaveat v caveat = v\<lparr>mv_caveat := caveat\<rparr>"

text \<open>None where there is no number.\<close>

definition Amount :: "mvalue \<Rightarrow> f64 option" where
  "Amount v = (if mv_quality v = QualityUnknown \<or> mv_quality v = [] then None else Some (mv_amount v))"

definition AmountOr :: "mvalue \<Rightarrow> f64 \<Rightarrow> f64" where
  "AmountOr v fallback = (case Amount v of None \<Rightarrow> fallback | Some a \<Rightarrow> a)"

definition KnownAmount :: "mvalue \<Rightarrow> bool" where
  "KnownAmount v \<longleftrightarrow> Amount v \<noteq> None"

definition Quality :: "mvalue \<Rightarrow> quality" where
  "Quality v = (if mv_quality v = [] then QualityUnknown else mv_quality v)"

definition Complete :: "mvalue \<Rightarrow> bool" where
  "Complete v \<longleftrightarrow> KnownAmount v \<and> cov_Excluded (mv_coverage v) = 0"

subsection \<open>The sum\<close>

text \<open>Each of a list once, where it first stands.\<close>

definition once :: "'a list \<Rightarrow> 'a list" where
  "once xs = foldl (\<lambda>acc x. if x \<in> set acc then acc else acc @ [x]) [] xs"

definition joinCaveats :: "string list \<Rightarrow> string" where
  "joinCaveats caveats = join ''; '' (once caveats)"

definition sum_step :: "mvalue \<Rightarrow> mvalue \<Rightarrow> mvalue" where
  "sum_step out v =
     (let q = Quality v; c = mv_coverage out; d = mv_coverage v
      in out\<lparr>mv_quality := (if q_rank (mv_quality out) < q_rank q then q else mv_quality out),
             mv_amount := (case Amount v of None \<Rightarrow> mv_amount out | Some a \<Rightarrow> f_add (mv_amount out) a),
             mv_source := (if mv_source out = [] then mv_source v
                           else if mv_source v \<noteq> [] \<and> mv_source out \<noteq> mv_source v then ''mixed'' else mv_source out),
             mv_observedAt := (if After (mv_observedAt v) (mv_observedAt out) then mv_observedAt v else mv_observedAt out),
             mv_coverage := \<lparr>cov_Included = cov_Included c + cov_Included d, cov_Excluded = cov_Excluded c + cov_Excluded d,
                            cov_Reasons = cov_Reasons c\<rparr>\<rparr>)"

definition Sum :: "mvalue list \<Rightarrow> mvalue" where
  "Sum vs =
     (if vs = [] then Unknown ''nothing to sum''
      else let out = foldl sum_step (zero_value\<lparr>mv_quality := QualityMeasured\<rparr>) vs
           in out\<lparr>mv_coverage := (mv_coverage out)\<lparr>cov_Reasons := once (concat (map (\<lambda>v. cov_Reasons (mv_coverage v)) vs))\<rparr>,
                  mv_caveat := joinCaveats (filter (\<lambda>c. c \<noteq> []) (map mv_caveat vs))\<rparr>)"

subsection \<open>The wire form\<close>

record wire =
  wi_Amount :: "f64 option"
  wi_Quality :: quality
  wi_Source :: string
  wi_Caveat :: string
  wi_ObservedAt :: gotime
  wi_Coverage :: "coverage option"

text \<open>What \<open>Marshal\<close> writes; none where the amount is no number JSON has.\<close>

definition writable :: "f64 option \<Rightarrow> bool" where
  "writable a \<longleftrightarrow> (case a of Some PInf \<Rightarrow> False | Some NInf \<Rightarrow> False | Some NaN \<Rightarrow> False | _ \<Rightarrow> True)"

definition to_wire :: "mvalue \<Rightarrow> wire option" where
  "to_wire v =
     (let c = mv_coverage v
      in if \<not> writable (Amount v) then None
         else Some \<lparr>wi_Amount = Amount v, wi_Quality = Quality v, wi_Source = mv_source v, wi_Caveat = mv_caveat v,
                    wi_ObservedAt = mv_observedAt v,
                    wi_Coverage = (if cov_Included c \<noteq> 0 \<or> cov_Excluded c \<noteq> 0 then Some c else None)\<rparr>)"

definition of_wire :: "wire \<Rightarrow> mvalue" where
  "of_wire w =
     \<lparr>mv_amount = (case wi_Amount w of None \<Rightarrow> Fin 0 | Some a \<Rightarrow> a), mv_quality = wi_Quality w, mv_source = wi_Source w,
      mv_caveat = wi_Caveat w, mv_observedAt = wi_ObservedAt w,
      mv_coverage = (case wi_Coverage w of None \<Rightarrow> no_coverage | Some c \<Rightarrow> c)\<rparr>"

subsection \<open>What a sum knows\<close>

definition named_quality :: "mvalue \<Rightarrow> bool" where
  "named_quality v \<longleftrightarrow> Quality v \<in> {QualityMeasured, QualityDerived, QualityEstimated, QualityUnknown}"

lemma Known_quality: "KnownAmount v \<longleftrightarrow> Quality v \<noteq> QualityUnknown"
  by (auto simp: KnownAmount_def Amount_def Quality_def)

lemma unknown_rank: "named_quality v \<Longrightarrow> Quality v = QualityUnknown \<longleftrightarrow> q_rank (Quality v) = 3"
  by (auto simp: named_quality_def q_rank_def quality_defs)

lemma sum_step_quality [simp]:
  "mv_quality (sum_step out v) = (if q_rank (mv_quality out) < q_rank (Quality v) then Quality v else mv_quality out)"
  by (simp add: sum_step_def Let_def)

lemma fold_quality:
  "(mv_quality (foldl sum_step out vs) = mv_quality out \<or> (\<exists>v\<in>set vs. mv_quality (foldl sum_step out vs) = Quality v)) \<and>
   q_rank (mv_quality out) \<le> q_rank (mv_quality (foldl sum_step out vs)) \<and>
   (\<forall>v\<in>set vs. q_rank (Quality v) \<le> q_rank (mv_quality (foldl sum_step out vs)))"
proof (induction vs arbitrary: out)
  case (Cons v vs)
  have "q_rank (mv_quality out) \<le> q_rank (mv_quality (sum_step out v))" "q_rank (Quality v) \<le> q_rank (mv_quality (sum_step out v))"
      "mv_quality (sum_step out v) = mv_quality out \<or> mv_quality (sum_step out v) = Quality v"
    by simp_all
  then show ?case using Cons.IH [of "sum_step out v"] by (auto simp del: sum_step_quality intro: order_trans)
qed simp

lemma Sum_quality:
  assumes "vs \<noteq> []"
  shows "Quality (Sum vs) = mv_quality (foldl sum_step (zero_value\<lparr>mv_quality := QualityMeasured\<rparr>) vs)"
proof -
  let ?q = "mv_quality (foldl sum_step (zero_value\<lparr>mv_quality := QualityMeasured\<rparr>) vs)"
  have "?q = QualityMeasured \<or> (\<exists>v\<in>set vs. ?q = Quality v)"
    using fold_quality [of "zero_value\<lparr>mv_quality := QualityMeasured\<rparr>" vs] by auto
  moreover have "Quality v \<noteq> []" for v by (simp add: Quality_def QualityUnknown_def)
  ultimately have "?q \<noteq> []" by (auto simp: QualityMeasured_def)
  then show ?thesis using assms by (simp add: Sum_def Let_def Quality_def)
qed

text \<open>
  A sum is no surer than its weakest part. Over values whose qualities are the four the code
  names, the sum's quality is that of one of them and no part's is weaker, and the sum holds a
  number exactly when every part does.
\<close>

theorem sum_keeps_weakest:
  assumes "vs \<noteq> []" and "\<forall>v\<in>set vs. named_quality v"
  shows "(\<exists>v\<in>set vs. Quality (Sum vs) = Quality v) \<and> (\<forall>v\<in>set vs. q_rank (Quality v) \<le> q_rank (Quality (Sum vs))) \<and>
    (KnownAmount (Sum vs) \<longleftrightarrow> (\<forall>v\<in>set vs. KnownAmount v))"
proof -
  let ?out = "zero_value\<lparr>mv_quality := QualityMeasured\<rparr>"
  have up: "\<forall>v\<in>set vs. q_rank (Quality v) \<le> q_rank (Quality (Sum vs))"
    and of: "Quality (Sum vs) = QualityMeasured \<or> (\<exists>v\<in>set vs. Quality (Sum vs) = Quality v)"
    using fold_quality [of ?out vs] by (auto simp: Sum_quality [OF assms(1)])
  have mem: "\<exists>v\<in>set vs. Quality (Sum vs) = Quality v"
  proof (cases "Quality (Sum vs) = QualityMeasured")
    case True
    obtain v where v: "v \<in> set vs" using assms(1) by (cases vs) auto
    with up True have "q_rank (Quality v) = 0" by (fastforce simp: q_rank_def quality_defs)
    then have "Quality v = QualityMeasured" by (simp add: q_rank_def split: if_splits)
    with v True show ?thesis by metis
  qed (use of in auto)
  then have "named_quality (Sum vs)" using assms(2) by (auto simp: named_quality_def)
  moreover have "Quality (Sum vs) = QualityUnknown" if "v \<in> set vs" "Quality v = QualityUnknown" for v
  proof -
    have "q_rank (Quality v) = 3" using that(2) by (simp add: q_rank_def quality_defs)
    moreover have "q_rank (Quality (Sum vs)) \<le> 3" by (simp add: q_rank_def)
    ultimately have "q_rank (Quality (Sum vs)) = 3" using up that(1) by fastforce
    with \<open>named_quality (Sum vs)\<close> show ?thesis by (simp add: unknown_rank)
  qed
  ultimately show ?thesis using up mem unfolding Known_quality by metis
qed

theorem sum_keeps_weakest_witness:
  "\<not> KnownAmount (Sum [Measured (Fin 3) ''events'', Unknown ''no rate card''])"
proof -
  have n: "\<forall>v\<in>set [Measured (Fin 3) ''events'', Unknown ''no rate card'']. named_quality v" by code_simp
  have "\<not> KnownAmount (Unknown ''no rate card'')" by code_simp
  with sum_keeps_weakest [OF _ n] show ?thesis by simp
qed

text \<open>
  A value is read back as it was written. The number or its absence, the quality, the source,
  the caveat, the instant and the counts of the coverage survive the wire; a coverage that counts
  nothing loses its reasons.
\<close>

theorem value_wire_roundtrip:
  assumes "to_wire v = Some w"
  shows "Amount (of_wire w) = Amount v \<and> Quality (of_wire w) = Quality v \<and> mv_source (of_wire w) = mv_source v \<and>
    mv_caveat (of_wire w) = mv_caveat v \<and> mv_observedAt (of_wire w) = mv_observedAt v \<and> Complete (of_wire w) = Complete v \<and>
    cov_Included (mv_coverage (of_wire w)) = cov_Included (mv_coverage v) \<and>
    cov_Excluded (mv_coverage (of_wire w)) = cov_Excluded (mv_coverage v)"
  using assms
  by (auto simp: to_wire_def of_wire_def Let_def Amount_def Quality_def Complete_def KnownAmount_def no_coverage_def quality_defs split: if_splits)

theorem value_wire_roundtrip_witness:
  "\<exists>w. to_wire (Unknown ''x'') = Some w \<and> Amount (of_wire w) = Amount (Unknown ''x'')"
proof -
  obtain w where w: "to_wire (Unknown ''x'') = Some w"
    by (simp add: to_wire_def writable_def Amount_def Unknown_def Let_def)
  from value_wire_roundtrip [OF w] w show ?thesis by simp
qed

text \<open>A quality that is named but comes without an amount is read as a known zero.\<close>

lemma absent_amount_reads_zero:
  "wi_Amount w = None \<Longrightarrow> wi_Quality w = QualityMeasured \<Longrightarrow> Amount (of_wire w) = Some (Fin 0)"
  by (simp add: of_wire_def Amount_def quality_defs)

end
