(* ===== verification/Learning.thy ===== *)
theory Learning
  imports Measurement "HOL-Library.Multiset"
begin

text \<open>
  What the outcomes of routed work are taken to show (\<open>internal/contexts/learning/routing.go\<close>): the
  gates a route's matched pairs pass before the route is trusted, and the ladder a capability
  climbs on its record (\<open>graduation.go\<close>).
\<close>

subsection \<open>Outcomes\<close>

record outcome_metric =
  om_Name :: string
  om_Unit :: string
  om_Value :: f64
  om_Source :: string

text \<open>The evidence of an outcome is not read here.\<close>

record outcome_event =
  oo_Result :: string
  oo_Assessment :: string
  oo_Caveat :: string
  oo_Metrics :: "outcome_metric list"

definition OutcomeUnknown :: string where "OutcomeUnknown = ''unknown''"
definition OutcomeAchieved :: string where "OutcomeAchieved = ''achieved''"
definition OutcomePartial :: string where "OutcomePartial = ''partial''"
definition OutcomeNotAchieved :: string where "OutcomeNotAchieved = ''not_achieved''"
definition OutcomeSelfReport :: string where "OutcomeSelfReport = ''self_report''"
definition OutcomeVerification :: string where "OutcomeVerification = ''verification''"
definition OutcomeHuman :: string where "OutcomeHuman = ''human''"

lemmas outcome_defs = OutcomeUnknown_def OutcomeAchieved_def OutcomePartial_def OutcomeNotAchieved_def
  OutcomeSelfReport_def OutcomeVerification_def OutcomeHuman_def

definition strong :: "outcome_event \<Rightarrow> bool" where
  "strong out \<longleftrightarrow>
     (oo_Assessment out = OutcomeVerification \<or> oo_Assessment out = OutcomeHuman) \<and> oo_Result out \<noteq> OutcomeUnknown"

definition qualityRank :: "string \<Rightarrow> nat" where
  "qualityRank r = (if r = OutcomeAchieved then 3 else if r = OutcomePartial then 2 else if r = OutcomeNotAchieved then 1 else 0)"

subsection \<open>The evidence\<close>

datatype tier = TierUnknown | TierObserved | TierSupported | TierTrusted

record pair_evidence =
  pp_Baseline :: outcome_event
  pp_Variant :: outcome_event
  pp_ResourceChangePct :: f64
  pp_Metrics :: "string \<Rightarrow> (f64 \<times> f64) option"
  pp_At :: gotime
  pp_Fingerprint :: string

record guardrail =
  gd_Metric :: string
  gd_MaxRegressionPct :: f64

record route_evidence =
  re_Eligible :: int
  re_Pairs :: "pair_evidence list"
  re_Fingerprint :: string
  re_ObjectiveMetric :: string
  re_MinImprovementPct :: f64
  re_Guardrails :: "guardrail list"
  re_Now :: gotime
  re_Window :: duration

record belief =
  bf_Tier :: tier
  bf_CompletedPairs :: int
  bf_StrongCoverage :: f64
  bf_QualitySafePairs :: int
  bf_ImprovedPairs :: int
  bf_MedianChangePct :: f64
  bf_GuardrailPassPairs :: int
  bf_GuardrailUnknownPairs :: int
  bf_ObjectiveUnknownPairs :: int
  bf_ObjectiveMetric :: string
  bf_Caveat :: string

text \<open>\<open>sort.Float64s\<close> puts what is not a number first.\<close>

instantiation f64 :: linorder
begin

definition less_f64 :: "f64 \<Rightarrow> f64 \<Rightarrow> bool" where
  "less_f64 a b \<longleftrightarrow> f_lt a b \<or> a = NaN \<and> b \<noteq> NaN"

definition less_eq_f64 :: "f64 \<Rightarrow> f64 \<Rightarrow> bool" where
  "less_eq_f64 a b \<longleftrightarrow> f_lt a b \<or> a = NaN \<or> a = b"

instance
proof
  fix x y z :: f64
  show "x < y \<longleftrightarrow> x \<le> y \<and> \<not> y \<le> x"
    by (cases x; cases y) (auto simp: less_f64_def less_eq_f64_def f_lt_def)
  show "x \<le> x" by (simp add: less_eq_f64_def)
  show "x \<le> y \<Longrightarrow> y \<le> z \<Longrightarrow> x \<le> z"
    by (cases x; cases y; cases z) (auto simp: less_eq_f64_def f_lt_def)
  show "x \<le> y \<Longrightarrow> y \<le> x \<Longrightarrow> x = y"
    by (cases x; cases y) (auto simp: less_eq_f64_def f_lt_def)
  show "x \<le> y \<or> y \<le> x"
    by (cases x; cases y) (auto simp: less_eq_f64_def f_lt_def)
qed

end

definition median :: "f64 list \<Rightarrow> f64" where
  "median vs =
     (if vs = [] then Fin 0
      else let v = sort vs; mid = length v div 2
           in if even (length v) then f_div (f_add (v ! (mid - 1)) (v ! mid)) (Fin 2) else v ! mid)"

definition relativeRegression :: "f64 \<Rightarrow> f64 \<Rightarrow> f64" where
  "relativeRegression baseline variant =
     (if f_le baseline (Fin 0) then (if f_le variant (Fin 0) then Fin 0 else Fin 100)
      else f_div (f_mul (Fin 100) (f_sub variant baseline)) baseline)"

definition relativeImprovement :: "f64 \<Rightarrow> f64 \<Rightarrow> f64" where
  "relativeImprovement baseline variant =
     (if f_le baseline (Fin 0) then (if f_le variant (Fin 0) then Fin 0 else Fin (- 100))
      else f_div (f_mul (Fin 100) (f_sub baseline variant)) baseline)"

definition objectives :: "string list" where
  "objectives = [''tokens'', ''plan_quota_tokens'', ''metered_cost_usd'', ''latency_ms'', ''attention_minutes'']"

definition guardrail_ok :: "guardrail \<Rightarrow> bool" where
  "guardrail_ok g \<longleftrightarrow>
     (if gd_Metric g = ''quality'' then f_eq (gd_MaxRegressionPct g) (Fin 0)
      else gd_Metric g \<in> set objectives \<and> \<not> f_lt (gd_MaxRegressionPct g) (Fin 0) \<and> \<not> f_lt (Fin 100) (gd_MaxRegressionPct g))"

definition validUtilityPolicy :: "string \<Rightarrow> f64 \<Rightarrow> guardrail list \<Rightarrow> bool" where
  "validUtilityPolicy objective minImprovement gs \<longleftrightarrow>
     objective \<in> set objectives \<and>
     \<not> (f_le minImprovement (Fin 0) \<or> f_lt (Fin 100) minImprovement \<or> gs = []) \<and>
     distinct (map gd_Metric gs) \<and> list_all guardrail_ok gs \<and> ''quality'' \<in> set (map gd_Metric gs)"

text \<open>Known and passed; the first guardrail that is unknown or not passed decides.\<close>

definition guardrail_pass :: "pair_evidence \<Rightarrow> guardrail \<Rightarrow> bool \<times> bool" where
  "guardrail_pass p g =
     (if gd_Metric g = ''quality'' then
        (if \<not> strong (pp_Baseline p) \<or> \<not> strong (pp_Variant p) then (False, False)
         else (True, \<not> qualityRank (oo_Result (pp_Variant p)) < qualityRank (oo_Result (pp_Baseline p))))
      else case pp_Metrics p (gd_Metric g) of
             None \<Rightarrow> (False, False)
           | Some (b, v) \<Rightarrow> (True, \<not> f_lt (gd_MaxRegressionPct g) (relativeRegression b v)))"

fun guardrails_from :: "pair_evidence \<Rightarrow> guardrail list \<Rightarrow> bool \<times> bool" where
  "guardrails_from p [] = (True, True)"
| "guardrails_from p (g # gs) =
     (case guardrail_pass p g of (True, True) \<Rightarrow> guardrails_from p gs | stop \<Rightarrow> stop)"

definition guardrailsPass :: "pair_evidence \<Rightarrow> guardrail list \<Rightarrow> bool \<times> bool" where
  "guardrailsPass p gs = (if gs = [] then (False, False) else guardrails_from p gs)"

subsection \<open>The gates\<close>

definition re_now :: "gotime \<Rightarrow> route_evidence \<Rightarrow> gotime" where
  "re_now wall e = (let now = UTC (re_Now e) in if IsZero now then UTC wall else now)"

definition re_window :: "route_evidence \<Rightarrow> duration" where
  "re_window e = (if re_Window e \<le> 0 then 90 * 24 * hour else re_Window e)"

definition fresh_pair :: "gotime \<Rightarrow> route_evidence \<Rightarrow> pair_evidence \<Rightarrow> bool" where
  "fresh_pair wall e p \<longleftrightarrow>
     \<not> (pp_Fingerprint p \<noteq> re_Fingerprint e \<or> Before (pp_At p) (Add (re_now wall e) (- re_window e)) \<or>
        \<not> strong (pp_Baseline p) \<or> \<not> strong (pp_Variant p))"

definition count :: "('a \<Rightarrow> bool) \<Rightarrow> 'a list \<Rightarrow> int" where
  "count P xs = int (length (filter P xs))"

definition pair_change :: "route_evidence \<Rightarrow> pair_evidence \<Rightarrow> f64 option" where
  "pair_change e p = map_option (\<lambda>(b, v). relativeImprovement b v) (pp_Metrics p (re_ObjectiveMetric e))"

definition quality_safe :: "pair_evidence \<Rightarrow> bool" where
  "quality_safe p \<longleftrightarrow> qualityRank (oo_Result (pp_Baseline p)) \<le> qualityRank (oo_Result (pp_Variant p))"

definition improved :: "route_evidence \<Rightarrow> pair_evidence \<Rightarrow> bool" where
  "improved e p \<longleftrightarrow> (case pair_change e p of None \<Rightarrow> False | Some c \<Rightarrow> f_le (re_MinImprovementPct e) c)"

text \<open>The belief's counts, before its tier is set.\<close>

definition counted :: "route_evidence \<Rightarrow> pair_evidence list \<Rightarrow> belief" where
  "counted e ps =
     \<lparr>bf_Tier = TierUnknown, bf_CompletedPairs = int (length ps),
      bf_StrongCoverage = (if 0 < re_Eligible e then f_div (f_int (int (length ps) * 2)) (f_int (re_Eligible e)) else Fin 0),
      bf_QualitySafePairs = count quality_safe ps,
      bf_ImprovedPairs = count (improved e) ps,
      bf_MedianChangePct = median (List.map_filter (pair_change e) ps),
      bf_GuardrailPassPairs = count (\<lambda>p. guardrailsPass p (re_Guardrails e) = (True, True)) ps,
      bf_GuardrailUnknownPairs = count (\<lambda>p. \<not> fst (guardrailsPass p (re_Guardrails e))) ps,
      bf_ObjectiveUnknownPairs = count (\<lambda>p. pp_Metrics p (re_ObjectiveMetric e) = None) ps,
      bf_ObjectiveMetric = re_ObjectiveMetric e, bf_Caveat = []\<rparr>"

definition p60 :: f64 where "p60 = round64 (3 / 5)"
definition p80 :: f64 where "p80 = round64 (4 / 5)"
definition p90 :: f64 where "p90 = round64 (9 / 10)"

definition share :: "int \<Rightarrow> int \<Rightarrow> f64" where
  "share n m = f_div (f_int n) (f_int m)"

definition gates :: "route_evidence \<Rightarrow> belief \<Rightarrow> belief" where
  "gates e b =
     (let n = bf_CompletedPairs b; seen = b\<lparr>bf_Tier := TierObserved\<rparr>
      in if n = 0 then b\<lparr>bf_Tier := TierUnknown, bf_Caveat := ''no fresh matched pairs with independent or human outcomes''\<rparr>
         else if \<not> validUtilityPolicy (re_ObjectiveMetric e) (re_MinImprovementPct e) (re_Guardrails e) then
           seen\<lparr>bf_Caveat := ''explicit objective and quality/resource guardrails are required; legacy trials remain observational''\<rparr>
         else if n < 5 \<or> f_lt (bf_StrongCoverage b) p60 then
           seen\<lparr>bf_Caveat := ''at least five matched pairs and 60% strong outcome coverage are required''\<rparr>
         else if 0 < bf_GuardrailUnknownPairs b then seen\<lparr>bf_Caveat := ''unknown guardrail evidence blocks promotion''\<rparr>
         else if 0 < bf_ObjectiveUnknownPairs b then seen\<lparr>bf_Caveat := ''unknown objective measurements block promotion''\<rparr>
         else if bf_GuardrailPassPairs b \<noteq> n then seen\<lparr>bf_Caveat := ''at least one pair violated a declared guardrail''\<rparr>
         else if f_lt (share (bf_QualitySafePairs b) n) p80 \<or> f_lt (share (bf_ImprovedPairs b) n) p60 \<or>
                 f_lt (bf_MedianChangePct b) (re_MinImprovementPct e) then
           seen\<lparr>bf_Caveat := ''quality non-inferiority or declared objective-improvement gates were not met''\<rparr>
         else b\<lparr>bf_Tier := (if 20 \<le> n \<and> f_le p90 (bf_StrongCoverage b) then TierTrusted else TierSupported)\<rparr>)"

definition Evaluate_route :: "gotime \<Rightarrow> route_evidence \<Rightarrow> belief" where
  "Evaluate_route wall e = gates e (counted e (filter (fresh_pair wall e) (re_Pairs e)))"

definition IsTrusted :: "belief \<Rightarrow> bool" where
  "IsTrusted b \<longleftrightarrow> bf_Tier b = TierTrusted"

subsection \<open>Numbers that are exact\<close>

lemma bit_len_le: "n < 2 ^ m \<Longrightarrow> bit_len n \<le> int m"
proof (induction m arbitrary: n)
  case (Suc m)
  have "bit_len (n div 2) \<le> int m" using Suc by (intro Suc.IH) simp
  then show ?case by (subst bit_len.simps) simp
qed (subst bit_len.simps, simp)

lemma bit_len_one: "bit_len 1 = 1" by (simp add: bit_len.simps)

lemma round64_int:
  assumes "\<bar>n\<bar> < 2 ^ 53"
  shows "round64 (of_int n) = Fin (of_int n)"
proof (cases "n = 0")
  case False
  define k where "k = max (ilog2 \<bar>of_int n\<bar> - 52) (- 1074)"
  have q: "quotient_of \<bar>of_int n\<bar> = (\<bar>n\<bar>, 1)"
    using quotient_of_int [of "\<bar>n\<bar>"] by (simp add: Rat.of_int_def)
  have "bit_len \<bar>n\<bar> \<le> 53" using bit_len_le [of "\<bar>n\<bar>" 53] assms by simp
  then have "ilog2 \<bar>of_int n\<bar> \<le> 52" by (simp add: ilog2_def q bit_len_one Let_def)
  then have k: "k \<le> 0" by (simp add: k_def)
  then have p: "pow2 k = 1 / 2 ^ nat (- k)" by (auto simp: pow2_def)
  have "round_half_even (\<bar>of_int n\<bar> / pow2 k) = \<bar>n\<bar> * 2 ^ nat (- k)"
    using round_half_even_int [of "\<bar>n\<bar> * 2 ^ nat (- k)"] by (simp add: p)
  then have v: "of_int (round_half_even (\<bar>of_int n\<bar> / pow2 k)) * pow2 k = \<bar>of_int n :: rat\<bar>" by (simp add: p)
  have "\<bar>n\<bar> < 2 ^ 1024" using assms by (rule order_less_le_trans) simp
  then have "\<not> (2 ^ 1024 \<le> \<bar>of_int n :: rat\<bar>)" by (metis not_le of_int_abs of_int_less_iff of_int_numeral of_int_power)
  then show ?thesis using False unfolding round64_def Let_def k_def [symmetric] v by simp
qed (simp add: round64_def)

lemma round64_num: "x = of_int n \<Longrightarrow> \<bar>n\<bar> < 2 ^ 53 \<Longrightarrow> round64 x = Fin x"
  using round64_int by simp
lemmas round64_steps = round64_def ilog2_def bit_len.simps pow2_def round_half_even_def Let_def

lemma quotients: "quotient_of (3 / 5) = (3, 5)" "quotient_of (4 / 5) = (4, 5)" "quotient_of (9 / 10) = (9, 10)" by code_simp+

lemma p90_value: "p90 = Fin (8106479329266893 / 9007199254740992)"
proof -
  have "\<lfloor>40532396646334464 / 5 :: rat\<rfloor> = 8106479329266892" by (simp add: floor_eq_iff)
  then show ?thesis by (simp add: p90_def round64_steps quotients)
qed

lemma p80_value: "p80 = Fin (3602879701896397 / 4503599627370496)"
proof -
  have "\<lfloor>36028797018963968 / 5 :: rat\<rfloor> = 7205759403792793" by (simp add: floor_eq_iff)
  then show ?thesis by (simp add: p80_def round64_steps quotients)
qed

lemma p60_value: "p60 = Fin (5404319552844595 / 9007199254740992)"
proof -
  have "\<lfloor>27021597764222976 / 5 :: rat\<rfloor> = 5404319552844595" by (simp add: floor_eq_iff)
  then show ?thesis by (simp add: p60_def round64_steps quotients)
qed

subsection \<open>What trust rests on\<close>

lemma count_all: "count P xs = int (length xs) \<longleftrightarrow> (\<forall>x\<in>set xs. P x)"
  by (simp add: count_def) (metis filter_True length_filter_less nat_neq_iff)

lemma count_none: "\<not> 0 < count P xs \<longleftrightarrow> (\<forall>x\<in>set xs. \<not> P x)"
  by (auto simp: count_def filter_empty_conv)

lemma guardrails_all: "guardrails_from p gs = (True, True) \<longleftrightarrow> (\<forall>g\<in>set gs. guardrail_pass p g = (True, True))"
  by (induction gs) (auto split: prod.split bool.split)

lemma gates_trusted:
  "bf_Tier (gates e b) = TierTrusted \<longleftrightarrow>
     validUtilityPolicy (re_ObjectiveMetric e) (re_MinImprovementPct e) (re_Guardrails e) \<and>
     20 \<le> bf_CompletedPairs b \<and> \<not> f_lt (bf_StrongCoverage b) p60 \<and> f_le p90 (bf_StrongCoverage b) \<and>
     \<not> 0 < bf_GuardrailUnknownPairs b \<and> \<not> 0 < bf_ObjectiveUnknownPairs b \<and> bf_GuardrailPassPairs b = bf_CompletedPairs b \<and>
     \<not> f_lt (share (bf_QualitySafePairs b) (bf_CompletedPairs b)) p80 \<and>
     \<not> f_lt (share (bf_ImprovedPairs b) (bf_CompletedPairs b)) p60 \<and>
     \<not> f_lt (bf_MedianChangePct b) (re_MinImprovementPct e)"
  by (auto simp: gates_def Let_def)

lemma guardrails_pass:
  assumes "guardrailsPass p gs = (True, True)" and "g \<in> set gs"
  shows "guardrail_pass p g = (True, True)"
  using assms by (auto simp: guardrailsPass_def guardrails_all split: if_splits)

lemma quality_guard_safe:
  "guardrail_pass p g = (True, True) \<Longrightarrow> gd_Metric g = ''quality'' \<Longrightarrow> quality_safe p"
  by (auto simp: guardrail_pass_def quality_safe_def split: if_splits)

text \<open>With a quality guardrail declared, pairs that pass their guardrails are all quality-safe: the share of four fifths is met.\<close>

lemma quality_share_met:
  assumes "validUtilityPolicy m x gs" and "\<forall>p\<in>set ps. guardrailsPass p gs = (True, True)"
  shows "count quality_safe ps = int (length ps)"
proof -
  obtain g where "g \<in> set gs" "gd_Metric g = ''quality''" using assms(1) by (auto simp: validUtilityPolicy_def)
  with assms(2) show ?thesis unfolding count_all by (blast intro: quality_guard_safe guardrails_pass)
qed

text \<open>
  C17: A route is trusted only on enough clean evidence. Of the pairs that are fresh, of the same
  execution path and judged by a person or a verifier on both sides, there are then at least
  twenty, nine tenths of the eligible executions are in them and three fifths improved; and in
  every one of them the routed side did no worse, the objective was measured, and each resource
  the policy guards was measured and regressed by no more than its bound.
\<close>

theorem trust_needs_evidence:
  assumes "IsTrusted (Evaluate_route wall e)"
  shows "let ps = filter (fresh_pair wall e) (re_Pairs e) in
    20 \<le> length ps \<and> f_le p90 (f_div (f_int (int (length ps) * 2)) (f_int (re_Eligible e))) \<and>
    \<not> f_lt (share (count (improved e) ps) (int (length ps))) p60 \<and>
    (\<forall>p\<in>set ps. quality_safe p \<and> pp_Metrics p (re_ObjectiveMetric e) \<noteq> None \<and>
       (\<forall>g\<in>set (re_Guardrails e). gd_Metric g \<noteq> ''quality'' \<longrightarrow>
          (\<exists>b v. pp_Metrics p (gd_Metric g) = Some (b, v) \<and> \<not> f_lt (gd_MaxRegressionPct g) (relativeRegression b v))))"
proof -
  let ?ps = "filter (fresh_pair wall e) (re_Pairs e)"
  from assms have t: "bf_Tier (gates e (counted e ?ps)) = TierTrusted" by (simp add: IsTrusted_def Evaluate_route_def)
  note g = t [unfolded gates_trusted, unfolded counted_def, simplified]
  have pass: "\<forall>p\<in>set ?ps. guardrailsPass p (re_Guardrails e) = (True, True)"
    using g by (simp only: count_all [symmetric])
  have pol: "validUtilityPolicy (re_ObjectiveMetric e) (re_MinImprovementPct e) (re_Guardrails e)" using g by simp
  have safe: "\<forall>p\<in>set ?ps. quality_safe p" using quality_share_met [OF pol pass] by (simp only: count_all)
  have obj: "\<forall>p\<in>set ?ps. pp_Metrics p (re_ObjectiveMetric e) \<noteq> None" using g by (simp only: count_none) simp
  have res: "\<exists>b v. pp_Metrics p (gd_Metric gr) = Some (b, v) \<and> \<not> f_lt (gd_MaxRegressionPct gr) (relativeRegression b v)"
    if "p \<in> set ?ps" "gr \<in> set (re_Guardrails e)" "gd_Metric gr \<noteq> ''quality''" for p gr
    using guardrails_pass [OF pass [rule_format, OF that(1)] that(2)] that(3)
    by (auto simp: guardrail_pass_def split: option.splits)
  have "0 < re_Eligible e"
  proof (rule ccontr)
    assume "\<not> 0 < re_Eligible e"
    with g have "f_le p90 (Fin 0)" by simp
    then show False by (simp add: p90_value)
  qed
  with g safe obj res show ?thesis by (auto simp: Let_def)
qed

text \<open>Twenty pairs in which the cheaper model did as well on half the tokens.\<close>

definition human_done :: outcome_event where
  "human_done = \<lparr>oo_Result = OutcomeAchieved, oo_Assessment = OutcomeHuman, oo_Caveat = [], oo_Metrics = []\<rparr>"

definition good_pair :: pair_evidence where
  "good_pair = \<lparr>pp_Baseline = human_done, pp_Variant = human_done, pp_ResourceChangePct = Fin 50,
     pp_Metrics = [''tokens'' \<mapsto> (Fin 100, Fin 50)], pp_At = \<lparr>t_ns = 1000, t_off = 0\<rparr>, pp_Fingerprint = ''route''\<rparr>"

definition twenty_pairs :: route_evidence where
  "twenty_pairs = \<lparr>re_Eligible = 40, re_Pairs = replicate 20 good_pair, re_Fingerprint = ''route'', re_ObjectiveMetric = ''tokens'',
     re_MinImprovementPct = Fin 10,
     re_Guardrails = [\<lparr>gd_Metric = ''quality'', gd_MaxRegressionPct = Fin 0\<rparr>, \<lparr>gd_Metric = ''tokens'', gd_MaxRegressionPct = Fin 5\<rparr>],
     re_Now = \<lparr>t_ns = 2000, t_off = 0\<rparr>, re_Window = 0\<rparr>"

lemma halved: "relativeImprovement (Fin 100) (Fin 50) = Fin 50" "relativeRegression (Fin 100) (Fin 50) = Fin (- 50)"
  using round64_int [of 50] round64_int [of 5000] round64_int [of "- 50"] round64_int [of "- 5000"]
  by (simp_all add: relativeImprovement_def relativeRegression_def)

lemma twenty_trusted: "IsTrusted (Evaluate_route wall twenty_pairs)"
proof -
  let ?ps = "replicate 20 good_pair"
  have "fresh_pair wall twenty_pairs good_pair" by code_simp
  then have f: "filter (fresh_pair wall twenty_pairs) (re_Pairs twenty_pairs) = ?ps" by (simp add: twenty_pairs_def)
  have ch: "pair_change twenty_pairs good_pair = Some (Fin 50)"
    by (simp add: pair_change_def twenty_pairs_def good_pair_def halved)
  have gp: "guardrailsPass good_pair (re_Guardrails twenty_pairs) = (True, True)"
    by (simp add: guardrailsPass_def twenty_pairs_def guardrail_pass_def good_pair_def halved human_done_def strong_def outcome_defs)
  have "validUtilityPolicy (re_ObjectiveMetric twenty_pairs) (re_MinImprovementPct twenty_pairs) (re_Guardrails twenty_pairs)"
    by code_simp
  moreover have "counted twenty_pairs ?ps =
    \<lparr>bf_Tier = TierUnknown, bf_CompletedPairs = 20, bf_StrongCoverage = Fin 1, bf_QualitySafePairs = 20, bf_ImprovedPairs = 20,
     bf_MedianChangePct = Fin 50, bf_GuardrailPassPairs = 20, bf_GuardrailUnknownPairs = 0, bf_ObjectiveUnknownPairs = 0,
     bf_ObjectiveMetric = ''tokens'', bf_Caveat = []\<rparr>"
  proof -
    have "List.map_filter (pair_change twenty_pairs) ?ps = replicate 20 (Fin 50)"
      by (simp add: List.map_filter_def ch)
    moreover have "median (replicate 20 (Fin 50)) = Fin 50"
      using round64_int [of 100] round64_int [of 50] by (simp add: median_def sorted_sort_id Let_def)
    moreover have "f_div (f_int 40) (f_int 40) = Fin 1" using round64_int [of 1] by (simp add: f_int_def)
    moreover have "quality_safe good_pair" by code_simp
    moreover have "pp_Metrics good_pair ''tokens'' \<noteq> None" by (simp add: good_pair_def)
    moreover have "re_Eligible twenty_pairs = 40" "re_ObjectiveMetric twenty_pairs = ''tokens''" "re_MinImprovementPct twenty_pairs = Fin 10"
      by (simp_all add: twenty_pairs_def)
    moreover have "improved twenty_pairs good_pair" using calculation by (simp add: improved_def ch)
    ultimately show ?thesis by (simp add: counted_def count_def gp)
  qed
  moreover have "share 20 20 = Fin 1" using round64_int [of 1] by (simp add: share_def f_int_def)
  ultimately show ?thesis
    unfolding IsTrusted_def Evaluate_route_def f gates_trusted
    by (simp add: p60_value p80_value p90_value) (simp add: twenty_pairs_def)
qed

theorem trust_needs_evidence_witness:
  "20 \<le> length (filter (fresh_pair zero_time twenty_pairs) (re_Pairs twenty_pairs))"
  using trust_needs_evidence [OF twenty_trusted [of zero_time]] by (simp add: Let_def)

text \<open>
  The belief does not depend on the order of the pairs, which the code takes from a map: the same
  pairs in any order give the same belief, caveat included.
\<close>

theorem belief_order_free:
  assumes "mset ps' = mset (re_Pairs e)"
  shows "Evaluate_route wall (e\<lparr>re_Pairs := ps'\<rparr>) = Evaluate_route wall e"
proof -
  let ?e = "e\<lparr>re_Pairs := ps'\<rparr>"
  have [simp]: "fresh_pair wall ?e = fresh_pair wall e" "pair_change ?e = pair_change e" "improved ?e = improved e" "gates ?e = gates e"
    by (auto simp: fun_eq_iff fresh_pair_def re_now_def re_window_def pair_change_def improved_def gates_def Let_def split: option.split)
  let ?ps = "filter (fresh_pair wall e) ps'" and ?qs = "filter (fresh_pair wall e) (re_Pairs e)"
  have m: "mset ?ps = mset ?qs" using assms by simp
  have len: "length ?ps = length ?qs" by (metis m size_mset)
  have c: "count P ?ps = count P ?qs" for P
    unfolding count_def by (metis m mset_filter size_mset)
  have "mset (List.map_filter (pair_change e) ?ps) = mset (List.map_filter (pair_change e) ?qs)"
    unfolding List.map_filter_def using m by (simp only: mset_map mset_filter)
  then have "sort (List.map_filter (pair_change e) ?ps) = sort (List.map_filter (pair_change e) ?qs)"
    by (metis mset_sort properties_for_sort sorted_sort)
  moreover have "median vs = median ws" if "sort vs = sort ws" for vs ws
  proof -
    have "length vs = length ws" using that by (metis length_sort)
    with that show ?thesis by (auto simp: median_def)
  qed
  ultimately have "median (List.map_filter (pair_change e) ?ps) = median (List.map_filter (pair_change e) ?qs)" by blast
  then show ?thesis by (simp add: Evaluate_route_def counted_def c len del: re_Pairs_update_def)
qed

definition worse_pair :: pair_evidence where
  "worse_pair = good_pair\<lparr>pp_Variant := human_done\<lparr>oo_Result := OutcomeNotAchieved\<rparr>\<rparr>"

theorem belief_order_free_witness:
  "Evaluate_route zero_time (twenty_pairs\<lparr>re_Pairs := worse_pair # re_Pairs twenty_pairs\<rparr>) =
   Evaluate_route zero_time (twenty_pairs\<lparr>re_Pairs := re_Pairs twenty_pairs @ [worse_pair]\<rparr>)"
  using belief_order_free [of "worse_pair # re_Pairs twenty_pairs" "twenty_pairs\<lparr>re_Pairs := re_Pairs twenty_pairs @ [worse_pair]\<rparr>" zero_time]
  by simp

subsection \<open>Graduation\<close>

text \<open>A rung other than the three is carried as it is written.\<close>

type_synonym stage_name = string

definition StageShadow :: stage_name where "StageShadow = ''shadow''"
definition StageAdvise :: stage_name where "StageAdvise = ''advise''"
definition StageAct :: stage_name where "StageAct = ''act''"

lemmas stage_names = StageShadow_def StageAdvise_def StageAct_def

definition StageOf :: "string \<Rightarrow> stage_name" where
  "StageOf rung =
     (if rung = ''advise'' then StageAdvise else if rung = ''ask'' \<or> rung = ''autonomous'' then StageAct else StageShadow)"

definition GraduationMinEvents :: int where "GraduationMinEvents = 50"
definition CapabilityReadGuard :: string where "CapabilityReadGuard = ''read_guard''"

record graduation_evidence =
  ge_Shadow :: int
  ge_ShadowConfirmed :: int
  ge_Advised :: int
  ge_Accepted :: int
  ge_Realized :: mvalue
  ge_RealizedUnit :: string
  ge_Harmed :: bool

record criterion =
  cr_Name :: string
  cr_Want :: string
  cr_Have :: string
  cr_Met :: bool

record graduation =
  gr_Capability :: string
  gr_Stage :: stage_name
  gr_Next :: stage_name
  gr_Criteria :: "criterion list"
  gr_Ready :: bool

definition countCriterion :: "string \<Rightarrow> int \<Rightarrow> criterion" where
  "countCriterion name n =
     \<lparr>cr_Name = name, cr_Want = ''at least 50'', cr_Have = itoa n, cr_Met = (GraduationMinEvents \<le> n)\<rparr>"

definition precisionCriterion :: "string \<Rightarrow> int \<Rightarrow> int \<Rightarrow> criterion" where
  "precisionCriterion name hit total_of =
     (let c = \<lparr>cr_Name = name, cr_Want = ''at least 90%'', cr_Have = ''none yet'', cr_Met = False\<rparr>
      in if 0 < total_of then
           (let s = share hit total_of
            in c\<lparr>cr_Have := fmt_fixed 0 (f_mul s (Fin 100)) @ ''% ('' @ itoa hit @ '' of '' @ itoa total_of @ '')'',
                 cr_Met := f_le p90 s\<rparr>)
         else c)"

definition compactCount :: "f64 \<Rightarrow> string" where
  "compactCount n =
     (if f_le (Fin 1000000) n then fmt_fixed 1 (f_div n (Fin 1000000)) @ ''M''
      else if f_le (Fin 1000) n then fmt_fixed 0 (f_div n (Fin 1000)) @ ''k''
      else fmt_fixed 0 n)"

definition realizedCriterion :: "graduation_evidence \<Rightarrow> criterion" where
  "realizedCriterion ev =
     (let c = \<lparr>cr_Name = ''realized saving'', cr_Want = ''above zero'', cr_Have = [], cr_Met = False\<rparr>; v = ge_Realized ev
      in case Amount v of
           None \<Rightarrow> c\<lparr>cr_Have := ''not established'' @ (if mv_caveat v \<noteq> [] then '' ('' @ mv_caveat v @ '')'' else [])\<rparr>
         | Some a \<Rightarrow>
             c\<lparr>cr_Have := (if ge_RealizedUnit ev = ''tokens'' then ''~'' @ compactCount a @ '' tokens'' else ''$'' @ fmt_fixed 2 a),
               cr_Met := f_lt (Fin 0) a\<rparr>)"

definition harmWords :: "bool \<Rightarrow> string" where
  "harmWords harmed = (if harmed then ''the holdout found worse outcomes'' else ''none found'')"

definition shadowCriteria :: "graduation_evidence \<Rightarrow> criterion list" where
  "shadowCriteria ev =
     [countCriterion ''shadow calls'' (ge_Shadow ev), precisionCriterion ''shadow precision'' (ge_ShadowConfirmed ev) (ge_Shadow ev)]"

definition Graduate :: "string \<Rightarrow> stage_name \<Rightarrow> graduation_evidence \<Rightarrow> graduation" where
  "Graduate capability stage ev =
     (let g = \<lparr>gr_Capability = capability, gr_Stage = stage, gr_Next = [], gr_Criteria = [], gr_Ready = False\<rparr>;
          judged = (\<lambda>next_stage cs. g\<lparr>gr_Next := next_stage, gr_Criteria := cs, gr_Ready := list_all cr_Met cs\<rparr>)
      in if stage = StageShadow then judged StageAdvise (shadowCriteria ev)
         else if stage = StageAdvise \<and> capability = CapabilityReadGuard then
           judged StageAct (shadowCriteria ev @ [realizedCriterion ev])
         else if stage = StageAdvise then
           judged StageAct
             [countCriterion ''advice with an outcome'' (ge_Advised ev),
              precisionCriterion ''acted on'' (ge_Accepted ev) (ge_Advised ev),
              realizedCriterion ev,
              \<lparr>cr_Name = ''harm'', cr_Want = ''none'', cr_Have = harmWords (ge_Harmed ev), cr_Met = (\<not> ge_Harmed ev)\<rparr>]
         else g)"

text \<open>Fifty events, nine tenths of them right; and a saving that is known and above zero.\<close>

definition precise :: "int \<Rightarrow> int \<Rightarrow> bool" where
  "precise hit n \<longleftrightarrow> GraduationMinEvents \<le> n \<and> f_le p90 (share hit n)"

definition saves :: "graduation_evidence \<Rightarrow> bool" where
  "saves ev \<longleftrightarrow> (case Amount (ge_Realized ev) of None \<Rightarrow> False | Some a \<Rightarrow> f_lt (Fin 0) a)"

lemma criteria_met:
  "cr_Met (countCriterion name n) \<longleftrightarrow> GraduationMinEvents \<le> n"
  "GraduationMinEvents \<le> n \<Longrightarrow> cr_Met (precisionCriterion name' hit n) \<longleftrightarrow> f_le p90 (share hit n)"
  "cr_Met (realizedCriterion ev) \<longleftrightarrow> saves ev"
  by (auto simp: countCriterion_def precisionCriterion_def GraduationMinEvents_def realizedCriterion_def saves_def Let_def split: option.split)

text \<open>
  A promotion is offered one rung at a time and never past acting. A shadowing capability is
  ready to advise on fifty shadow calls nine tenths of which were right; an advising one is ready
  to act on fifty pieces of advice nine tenths of which were taken, a saving known to be above
  zero and no harm found, the read guard on its shadow calls and the saving; nothing else is ready.
\<close>

theorem graduation_bar:
  "gr_Ready (Graduate capability stage ev) \<longleftrightarrow>
     (if stage = StageShadow then precise (ge_ShadowConfirmed ev) (ge_Shadow ev) \<and> gr_Next (Graduate capability stage ev) = StageAdvise
      else stage = StageAdvise \<and> gr_Next (Graduate capability stage ev) = StageAct \<and> saves ev \<and>
        (if capability = CapabilityReadGuard then precise (ge_ShadowConfirmed ev) (ge_Shadow ev)
         else precise (ge_Accepted ev) (ge_Advised ev) \<and> \<not> ge_Harmed ev))"
  using criteria_met(2)
  by (auto simp: Graduate_def Let_def shadowCriteria_def criteria_met(1,3) precise_def stage_names)

end
