(* ===== verification/Experiments.thy ===== *)
theory Experiments
  imports Learning LedgerState Pricing Sha256 "HOL-Library.Product_Lexorder"
begin

text \<open>
  Bounded trials of one model against another (\<open>internal/capability/experiments/experiments.go\<close>): the
  ledger they are read back from, and starting, assigning to and stopping one. The ledger is the
  event store's, given back by time and then by id, the newest hundred thousand at most
  (\<open>internal/storage/sqlite/store.go\<close>, \<open>ExperimentEvents\<close>); a read or an append can fail.
\<close>

subsection \<open>Events\<close>

datatype xstage = XStarted | XAssigned | XPaused | XCompleted | XStopped

text \<open>What a trial is about, which each of its events repeats.\<close>

record trial_terms =
  tt_Baseline :: resource_option
  tt_Variant :: resource_option
  tt_MaxPairs :: int
  tt_EndsAt :: gotime
  tt_Fingerprint :: string
  tt_ObjectiveMetric :: string
  tt_MinImprovementPct :: f64
  tt_Guardrails :: "guardrail list"

record exp_event =
  xp_Stage :: xstage
  xp_Kind :: string
  xp_Terms :: trial_terms
  xp_Assignment :: string
  xp_Pair :: int
  xp_Reason :: string

text \<open>A decision is given with its fingerprint.\<close>

datatype xpayload = XExperiment exp_event | XDecision decision_event string | XPrompt prompt_event | XOutcome outcome_event | XOther

record xenv =
  xe_ID :: string
  xe_Timestamp :: gotime
  xe_Execution :: string
  xe_Decision :: string
  xe_Intervention :: string
  xe_Experiment :: string
  xe_Attributes :: "(string \<times> string) list"
  xe_Payload :: xpayload

text \<open>A trial's state; the stage is none only where no event gave one.\<close>

record trial =
  tr_ID :: string
  tr_Stage :: xstage
  tr_Terms :: trial_terms
  tr_Assignments :: int
  tr_Reason :: string

definition no_terms :: trial_terms where
  "no_terms = \<lparr>tt_Baseline = no_option, tt_Variant = no_option, tt_MaxPairs = 0, tt_EndsAt = zero_time, tt_Fingerprint = [],
     tt_ObjectiveMetric = [], tt_MinImprovementPct = Fin 0, tt_Guardrails = []\<rparr>"

definition no_trial :: trial where
  "no_trial = \<lparr>tr_ID = [], tr_Stage = XStarted, tr_Terms = no_terms, tr_Assignments = 0, tr_Reason = []\<rparr>"

definition of_stage :: "xstage \<Rightarrow> bool" where
  "of_stage s \<longleftrightarrow> s = XStarted \<or> s = XAssigned"

subsection \<open>The fold\<close>

definition take_event :: "string \<Rightarrow> exp_event \<Rightarrow> trial \<Rightarrow> trial" where
  "take_event i p s0 =
     (let s = s0\<lparr>tr_ID := i, tr_Stage := xp_Stage p\<rparr>;
          s = (if ro_model (tt_Baseline (xp_Terms p)) \<noteq> [] then s\<lparr>tr_Terms := xp_Terms p\<rparr> else s);
          s = (if xp_Stage p = XAssigned then s\<lparr>tr_Assignments := tr_Assignments s + 1\<rparr> else s)
      in if xp_Reason p \<noteq> [] then s\<lparr>tr_Reason := xp_Reason p\<rparr> else s)"

type_synonym trials = "(string \<times> trial) list"

definition trial_of :: "trials \<Rightarrow> string \<Rightarrow> trial" where
  "trial_of ts i = (case map_of ts i of None \<Rightarrow> no_trial | Some s \<Rightarrow> s)"

definition fold_event :: "trials \<Rightarrow> xenv \<Rightarrow> trials" where
  "fold_event ts env =
     (case xe_Payload env of
        XExperiment p \<Rightarrow>
          if xe_Experiment env = [] then ts
          else AList.update (xe_Experiment env) (take_event (xe_Experiment env) p (trial_of ts (xe_Experiment env))) ts
      | _ \<Rightarrow> ts)"

definition complete_due :: "gotime \<Rightarrow> trial \<Rightarrow> trial" where
  "complete_due now s =
     (if of_stage (tr_Stage s) \<and> (\<not> After (tt_EndsAt (tr_Terms s)) now \<or> tt_MaxPairs (tr_Terms s) * 2 \<le> tr_Assignments s)
      then s\<lparr>tr_Stage := XCompleted\<rparr> else s)"

definition by_time :: "xenv list \<Rightarrow> xenv list" where
  "by_time events = sort_key (\<lambda>x. t_ns (xe_Timestamp x)) events"

definition Fold :: "xenv list \<Rightarrow> gotime \<Rightarrow> trials" where
  "Fold events now = map (\<lambda>(i, s). (i, complete_due now s)) (foldl fold_event [] (by_time events))"

text \<open>Trials that end at one instant stand in the order they came in; the code leaves theirs open.\<close>

definition ActiveTrials :: "xenv list \<Rightarrow> gotime \<Rightarrow> trial list" where
  "ActiveTrials events now = sort_key (\<lambda>s. t_ns (tt_EndsAt (tr_Terms s))) (filter (\<lambda>s. of_stage (tr_Stage s)) (map snd (Fold events now)))"

subsection \<open>The ledger\<close>

record xworld =
  xw_ledger :: "xenv list"
  xw_uuid :: "nat \<Rightarrow> string"
  xw_step :: nat
  xw_now :: "nat \<Rightarrow> gotime"
  xw_read_error :: "nat \<Rightarrow> string option"
  xw_append_error :: "nat \<Rightarrow> string option"

definition x_tick :: "xworld \<Rightarrow> xworld" where
  "x_tick w = w\<lparr>xw_step := xw_step w + 1\<rparr>"

definition read_limit :: nat where "read_limit = 100000"

definition stored_events :: "string \<Rightarrow> xenv list \<Rightarrow> xenv list" where
  "stored_events i ledger =
     (let rows = filter (\<lambda>x. if i = [] then (case xe_Payload x of XExperiment p \<Rightarrow> True | _ \<Rightarrow> False) else xe_Experiment x = i) ledger;
          rows = sort_key (\<lambda>x. (t_ns (xe_Timestamp x), xe_ID x)) rows
      in drop (length rows - read_limit) rows)"

definition ExperimentEvents :: "string \<Rightarrow> (xworld, xenv list) io" where
  "ExperimentEvents i w =
     (case xw_read_error w (xw_step w) of
        Some e \<Rightarrow> (Inl (Failed e), x_tick w) | None \<Rightarrow> (Inr (stored_events i (xw_ledger w)), x_tick w))"

definition ledger_append :: "xenv \<Rightarrow> (xworld, unit) io" where
  "ledger_append x w =
     (case xw_append_error w (xw_step w) of
        Some e \<Rightarrow> (Inl (Failed e), x_tick w) | None \<Rightarrow> (Inr (), (x_tick w)\<lparr>xw_ledger := xw_ledger w @ [x]\<rparr>))"

definition x_uuid :: "(xworld, string) io" where
  "x_uuid w = (Inr (xw_uuid w (xw_step w)), x_tick w)"

definition utcNow :: "gotime \<Rightarrow> (xworld, gotime) io" where
  "utcNow t w = (if IsZero t then (Inr (UTC (xw_now w (xw_step w))), x_tick w) else (Inr (UTC t), w))"

definition experimentEnvelope :: "string \<Rightarrow> string \<Rightarrow> string \<Rightarrow> gotime \<Rightarrow> exp_event \<Rightarrow> xenv" where
  "experimentEnvelope uid i execution t p =
     \<lparr>xe_ID = uid, xe_Timestamp = t, xe_Execution = execution, xe_Decision = [], xe_Intervention = [], xe_Experiment = i, xe_Attributes = [],
      xe_Payload = XExperiment p\<rparr>"

subsection \<open>Starting a trial\<close>

record start_input =
  si_Provider :: string
  si_BaselineModel :: string
  si_VariantModel :: string
  si_Fingerprint :: string
  si_ObjectiveMetric :: string
  si_MinImprovementPct :: f64
  si_Guardrails :: "guardrail list"
  si_At :: gotime
  si_Duration :: duration
  si_MaxPairs :: int
  si_Reason :: string

text \<open>None where the policy stands; the loop over the guardrails stops at the first that is wrong.\<close>

definition f_special :: "f64 \<Rightarrow> bool" where
  "f_special v \<longleftrightarrow> v = NaN \<or> v = PInf \<or> v = NInf"

fun guardrails_wrong :: "string list \<Rightarrow> bool \<Rightarrow> guardrail list \<Rightarrow> string option" where
  "guardrails_wrong seen quality [] = (if quality then None else Some ''experiments: quality guardrail is required'')"
| "guardrails_wrong seen quality (g # gs) =
     (let m = gd_Metric g; x = gd_MaxRegressionPct g
      in if m \<in> set seen then Some (''experiments: duplicate guardrail '' @ CHR 0x22 # m @ [CHR 0x22])
         else if m = ''quality'' then
           (if \<not> f_eq x (Fin 0) then Some ''experiments: quality guardrail is strict non-inferiority and must use a zero threshold''
            else guardrails_wrong (m # seen) True gs)
         else if m \<notin> set objectives then Some (''experiments: unsupported guardrail '' @ CHR 0x22 # m @ [CHR 0x22])
         else if f_special x \<or> f_lt x (Fin 0) \<or> f_lt (Fin 100) x then
           Some (''experiments: guardrail '' @ CHR 0x22 # m @ CHR 0x22 # '' max regression must be between 0 and 100'')
         else guardrails_wrong (m # seen) quality gs)"

definition ValidateUtilityPolicy :: "string \<Rightarrow> f64 \<Rightarrow> guardrail list \<Rightarrow> string option" where
  "ValidateUtilityPolicy objective x gs =
     (if objective \<notin> set objectives then
        Some ''experiments: objective must be tokens, plan_quota_tokens, metered_cost_usd, latency_ms, or attention_minutes''
      else if f_special x \<or> f_le x (Fin 0) \<or> f_lt (Fin 100) x then
        Some ''experiments: min_improvement_pct must be greater than 0 and no more than 100''
      else if gs = [] then Some ''experiments: at least one guardrail is required''
      else guardrails_wrong [] False gs)"

definition defaultPairs :: int where "defaultPairs = 10"
definition maxPairs :: int where "maxPairs = 10"
definition defaultDuration :: duration where "defaultDuration = 14 * 24 * hour"

definition ModelRoute :: string where "ModelRoute = ''model_route''"

definition Start :: "bool \<Rightarrow> start_input \<Rightarrow> (xworld, trial) io" where
  "Start ledger inp =
     (let pairs = (if si_MaxPairs inp = 0 then defaultPairs else si_MaxPairs inp);
          dur = (if si_Duration inp = 0 then defaultDuration else si_Duration inp)
      in if \<not> ledger then fail (Failed ''experiments: storage is disabled'')
         else if si_Provider inp = [] \<or> si_BaselineModel inp = [] \<or> si_VariantModel inp = [] then
           fail (Failed ''experiments: provider, baseline model and variant model are required'')
         else if si_BaselineModel inp = si_VariantModel inp then fail (Failed ''experiments: baseline and variant models must differ'')
         else case ValidateUtilityPolicy (si_ObjectiveMetric inp) (si_MinImprovementPct inp) (si_Guardrails inp) of
           Some e \<Rightarrow> fail (Failed e)
         | None \<Rightarrow>
             if pairs < 1 \<or> maxPairs < pairs then fail (Failed ''experiments: max_pairs must be between 1 and 10'')
             else if dur \<le> 0 \<or> defaultDuration < dur then
               fail (Failed ''experiments: duration must be positive and no more than 14 days'')
             else io_bind (utcNow (si_At inp)) (\<lambda>t. io_bind x_uuid (\<lambda>u. io_bind x_uuid (\<lambda>uid.
               let i = ''experiment:'' @ u;
                   terms = \<lparr>tt_Baseline = \<lparr>ro_provider = si_Provider inp, ro_model = si_BaselineModel inp, ro_reason = []\<rparr>,
                            tt_Variant = \<lparr>ro_provider = si_Provider inp, ro_model = si_VariantModel inp, ro_reason = []\<rparr>,
                            tt_MaxPairs = pairs, tt_EndsAt = Add t dur, tt_Fingerprint = si_Fingerprint inp,
                            tt_ObjectiveMetric = si_ObjectiveMetric inp, tt_MinImprovementPct = si_MinImprovementPct inp,
                            tt_Guardrails = si_Guardrails inp\<rparr>;
                   p = \<lparr>xp_Stage = XStarted, xp_Kind = ModelRoute, xp_Terms = terms, xp_Assignment = [], xp_Pair = 0,
                        xp_Reason = si_Reason inp\<rparr>
               in io_then (ledger_append (experimentEnvelope uid i [] t p))
                    (ret \<lparr>tr_ID = i, tr_Stage = XStarted, tr_Terms = terms, tr_Assignments = 0, tr_Reason = si_Reason inp\<rparr>)))))"

subsection \<open>Assigning a request\<close>

record assign_input =
  as_Provider :: string
  as_BaselineModel :: string
  as_VariantModel :: string
  as_ExecutionID :: string
  as_Fingerprint :: string
  as_At :: gotime

record assignment =
  an_ExperimentID :: string
  an_Pair :: int
  an_Variant :: bool

definition trial_for :: "assign_input \<Rightarrow> trial \<Rightarrow> bool" where
  "trial_for inp s \<longleftrightarrow>
     (let t = tr_Terms s
      in \<not> (ro_provider (tt_Baseline t) \<noteq> as_Provider inp \<or> ro_model (tt_Baseline t) \<noteq> as_BaselineModel inp \<or>
            ro_model (tt_Variant t) \<noteq> as_VariantModel inp) \<and>
         \<not> (tt_Fingerprint t \<noteq> [] \<and> tt_Fingerprint t \<noteq> as_Fingerprint inp))"

text \<open>The arm an execution was given before, from one event.\<close>

definition earlier_arm :: "assign_input \<Rightarrow> trials \<Rightarrow> xenv \<Rightarrow> assignment option" where
  "earlier_arm inp states env =
     (if xe_Execution env \<noteq> as_ExecutionID inp then None
      else case xe_Payload env of
        XExperiment p \<Rightarrow>
          if xp_Stage p \<noteq> XAssigned then None
          else (case map_of states (xe_Experiment env) of
                  None \<Rightarrow> None
                | Some s \<Rightarrow>
                    if trial_for inp s then
                      Some \<lparr>an_ExperimentID = tr_ID s, an_Pair = xp_Pair p, an_Variant = (xp_Assignment p = ''variant'')\<rparr>
                    else None)
      | _ \<Rightarrow> None)"

definition first_arm :: "assign_input \<Rightarrow> trials \<Rightarrow> xenv list \<Rightarrow> assignment option" where
  "first_arm inp states envs = (case List.map_filter (earlier_arm inp states) envs of [] \<Rightarrow> None | a # as \<Rightarrow> Some a)"

definition randomizedFirst :: "string \<Rightarrow> int \<Rightarrow> bool" where
  "randomizedFirst i pair = (code (hd (sha256 (i @ CHR 0x00 # itoa pair))) mod 2 = 1)"

definition arm_name :: "bool \<Rightarrow> string" where
  "arm_name variant = (if variant then ''variant'' else ''baseline'')"

text \<open>The arm at a place of a trial: each pair holds both, in an order drawn from the trial's id.\<close>

definition arm_at :: "string \<Rightarrow> int \<Rightarrow> assignment" where
  "arm_at i used =
     (let pair = used div 2 + 1; first = randomizedFirst i pair
      in \<lparr>an_ExperimentID = i, an_Pair = pair, an_Variant = (if used mod 2 = 1 then \<not> first else first)\<rparr>)"

definition next_trial :: "assign_input \<Rightarrow> xenv list \<Rightarrow> gotime \<Rightarrow> trial option" where
  "next_trial inp events now =
     find (\<lambda>s. trial_for inp s \<and> tr_Assignments s < tt_MaxPairs (tr_Terms s) * 2) (ActiveTrials events now)"

definition assigned_event :: "trial \<Rightarrow> exp_event" where
  "assigned_event s =
     (let a = arm_at (tr_ID s) (tr_Assignments s)
      in \<lparr>xp_Stage = XAssigned, xp_Kind = ModelRoute, xp_Terms = tr_Terms s, xp_Assignment = arm_name (an_Variant a),
          xp_Pair = an_Pair a, xp_Reason = []\<rparr>)"

definition Assign :: "bool \<Rightarrow> assign_input \<Rightarrow> (xworld, assignment option) io" where
  "Assign ledger inp =
     (if \<not> ledger \<or> as_ExecutionID inp = [] \<or> 256 < length (as_ExecutionID inp) then ret None
      else io_bind (ExperimentEvents []) (\<lambda>events. io_bind (utcNow (as_At inp)) (\<lambda>t.
        case first_arm inp (Fold events t) (rev events) of
          Some a \<Rightarrow> ret (Some a)
        | None \<Rightarrow>
            (case next_trial inp events t of
               None \<Rightarrow> ret None
             | Some s \<Rightarrow>
                 io_bind x_uuid (\<lambda>uid.
                   io_then (ledger_append (experimentEnvelope uid (tr_ID s) (as_ExecutionID inp) t (assigned_event s)))
                     (ret (Some (arm_at (tr_ID s) (tr_Assignments s)))))))))"

subsection \<open>Stopping and reading a trial\<close>

definition Status :: "bool \<Rightarrow> string \<Rightarrow> gotime \<Rightarrow> (xworld, trial option) io" where
  "Status ledger i now =
     (if \<not> ledger then fail (Failed ''experiments: storage is disabled'')
      else io_bind (ExperimentEvents i) (\<lambda>events. io_bind (utcNow now) (\<lambda>t. ret (map_of (Fold events t) i))))"

definition Stop :: "bool \<Rightarrow> string \<Rightarrow> string \<Rightarrow> gotime \<Rightarrow> (xworld, unit) io" where
  "Stop ledger i reason now =
     (if \<not> ledger then fail (Failed ''experiments: storage is disabled'')
      else io_bind (Status ledger i now) (\<lambda>st.
        case st of
          None \<Rightarrow> fail (Failed ''experiments: experiment not found'')
        | Some s \<Rightarrow> io_bind (utcNow now) (\<lambda>t. io_bind x_uuid (\<lambda>uid.
            ledger_append (experimentEnvelope uid i [] t
              \<lparr>xp_Stage = XStopped, xp_Kind = ModelRoute, xp_Terms = tr_Terms s, xp_Assignment = [], xp_Pair = 0, xp_Reason = reason\<rparr>)))))"

definition States :: "bool \<Rightarrow> gotime \<Rightarrow> (xworld, trial list) io" where
  "States ledger now =
     (if \<not> ledger then fail (Failed ''experiments: storage is disabled'')
      else io_bind (ExperimentEvents []) (\<lambda>events. io_bind (utcNow now) (\<lambda>t.
        ret (sort_key (\<lambda>s. - t_ns (tt_EndsAt (tr_Terms s))) (map snd (Fold events t))))))"

definition Events :: "bool \<Rightarrow> string \<Rightarrow> (xworld, xenv list) io" where
  "Events ledger i = (if \<not> ledger then fail (Failed ''experiments: storage is disabled'') else ExperimentEvents i)"

text \<open>\<open>%.8g\<close>.\<close>

definition fmt_g8_pos :: "rat \<Rightarrow> string" where
  "fmt_g8_pos a =
     (let (m, e) = sig_digits 8 a; ds = rev (dropWhile (\<lambda>c. c = CHR ''0'') (rev (dec_str m))); n = int (length ds)
      in if e < - 4 \<or> 8 \<le> e
         then take 1 ds @ (if n = 1 then [] else ''.'' @ drop 1 ds) @ ''e'' @ (if e < 0 then ''-'' else ''+'') @ pad_int 2 \<bar>e\<bar>
         else if e < 0 then ''0.'' @ replicate (nat (- e - 1)) (CHR ''0'') @ ds
         else if n \<le> e + 1 then ds @ replicate (nat (e + 1 - n)) (CHR ''0'')
         else take (nat (e + 1)) ds @ ''.'' @ drop (nat (e + 1)) ds)"

definition fmt_g8 :: "f64 \<Rightarrow> string" where
  "fmt_g8 v = (case v of
       Fin x \<Rightarrow> if x = 0 then ''0'' else if x < 0 then ''-'' @ fmt_g8_pos (- x) else fmt_g8_pos x
     | PInf \<Rightarrow> ''+Inf'' | NInf \<Rightarrow> ''-Inf'' | NaN \<Rightarrow> ''NaN'')"

definition UtilityPolicyFingerprint :: "string \<Rightarrow> f64 \<Rightarrow> guardrail list \<Rightarrow> string" where
  "UtilityPolicyFingerprint objective x gs =
     hex_encode (sha256 (objective @ CHR 0x00 # fmt_g8 x @
       concat (map (\<lambda>g. CHR 0x00 # gd_Metric g @ '':'' @ fmt_g8 (gd_MaxRegressionPct g))
         (sort_key (\<lambda>g. (gd_Metric g, gd_MaxRegressionPct g)) gs))))"

subsection \<open>One policy, checked twice\<close>

lemma guardrails_wrong_None:
  "guardrails_wrong seen quality gs = None \<longleftrightarrow>
     distinct (map gd_Metric gs) \<and> set (map gd_Metric gs) \<inter> set seen = {} \<and> list_all guardrail_ok gs \<and>
     (\<forall>g\<in>set gs. \<not> f_special (gd_MaxRegressionPct g)) \<and> (quality \<or> ''quality'' \<in> set (map gd_Metric gs))"
proof (induction gs arbitrary: seen quality)
  case (Cons g gs)
  let ?x = "gd_MaxRegressionPct g"
  have z: "f_eq ?x (Fin 0) \<Longrightarrow> \<not> f_special ?x" by (auto simp: f_eq_def f_special_def)
  have q: "''quality'' \<notin> set objectives" by (simp add: objectives_def)
  show ?case
  proof (cases "gd_Metric g = ''quality''")
    case True
    then show ?thesis using z by (auto simp: Let_def Cons.IH guardrail_ok_def)
  next
    case False
    then show ?thesis by (auto simp: Let_def Cons.IH guardrail_ok_def)
  qed
qed simp

text \<open>
  A trial can be started on a policy exactly when its evidence could ever earn trust. Over
  bounds that are numbers, what \<open>Start\<close> refuses and what the gates of \<open>Evaluate\<close> refuse are the same
  policies; a bound that is not a number, which the gates let through, \<open>Start\<close> refuses too.
\<close>

theorem start_refuses_what_gates_refuse:
  "ValidateUtilityPolicy objective x gs = None \<longleftrightarrow>
   validUtilityPolicy objective x gs \<and> \<not> f_special x \<and> list_all (\<lambda>g. \<not> f_special (gd_MaxRegressionPct g)) gs"
  unfolding ValidateUtilityPolicy_def validUtilityPolicy_def
  by (cases "gs = []") (auto simp: guardrails_wrong_None list_all_iff)

subsection \<open>The events of one trial\<close>

definition own_event :: "string \<Rightarrow> xenv \<Rightarrow> exp_event option" where
  "own_event i x = (if xe_Experiment x = i then (case xe_Payload x of XExperiment p \<Rightarrow> Some p | _ \<Rightarrow> None) else None)"

definition xev :: "string \<Rightarrow> xenv list \<Rightarrow> exp_event list" where
  "xev i L = List.map_filter (own_event i) L"

definition arms :: "string \<Rightarrow> xenv list \<Rightarrow> exp_event list" where
  "arms i L = filter (\<lambda>p. xp_Stage p = XAssigned) (xev i L)"

lemma xev_simps [simp]:
  "xev i [] = []"
  "xev i (L @ M) = xev i L @ xev i M"
  "xev i (x # L) = (case own_event i x of None \<Rightarrow> [] | Some p \<Rightarrow> [p]) @ xev i L"
  by (auto simp: xev_def List.map_filter_def split: option.split)

lemma arms_append [simp]: "arms i (L @ M) = arms i L @ arms i M"
  by (simp add: arms_def)

lemma mset_xev: "mset L = mset M \<Longrightarrow> mset (xev i L) = mset (xev i M)"
  unfolding xev_def List.map_filter_def mset_map mset_filter by simp

lemma fold_event_own:
  assumes "i \<noteq> []"
  shows "map_of (foldl fold_event ts L) i =
    (if xev i L = [] then map_of ts i else Some (foldl (\<lambda>s p. take_event i p s) (trial_of ts i) (xev i L)))"
proof (induction L arbitrary: ts)
  case (Cons x L)
  show ?case
  proof (cases "own_event i x")
    case None
    then have "map_of (fold_event ts x) i = map_of ts i"
      using assms by (auto simp: own_event_def fold_event_def map_of_update split: xpayload.splits if_splits)
    with None Cons show ?thesis by (simp add: trial_of_def)
  next
    case (Some p)
    then have "map_of (fold_event ts x) i = Some (take_event i p (trial_of ts i))"
      using assms by (auto simp: own_event_def fold_event_def map_of_update split: xpayload.splits if_splits)
    with Some Cons show ?thesis by (simp add: trial_of_def)
  qed
qed simp

lemma fold_event_nameless: "map_of ts [] = None \<Longrightarrow> map_of (foldl fold_event ts L) [] = None"
proof (induction L arbitrary: ts)
  case (Cons x L)
  have "map_of (fold_event ts x) [] = None"
    using Cons.prems by (auto simp: fold_event_def map_of_update split: xpayload.splits)
  then show ?case using Cons.IH by simp
qed simp

lemma fold_event_keys: "distinct (map fst ts) \<Longrightarrow> distinct (map fst (foldl fold_event ts L))"
  by (induction L arbitrary: ts) (auto simp: fold_event_def distinct_update split: xpayload.split)

text \<open>With terms that every event repeats, the fold gives the terms, the number of arms and the last stage.\<close>

lemma take_events:
  assumes "ps \<noteq> []" and "\<forall>p\<in>set ps. xp_Terms p = t" and "ro_model (tt_Baseline t) \<noteq> []"
  shows "let s = foldl (\<lambda>s p. take_event i p s) s0 ps in
    tr_ID s = i \<and> tr_Stage s = xp_Stage (last ps) \<and> tr_Terms s = t \<and>
    tr_Assignments s = tr_Assignments s0 + int (length (filter (\<lambda>p. xp_Stage p = XAssigned) ps))"
  using assms(1,2)
proof (induction ps arbitrary: s0)
  case (Cons p ps)
  have one: "tr_ID (take_event i p s0) = i" "tr_Stage (take_event i p s0) = xp_Stage p" "tr_Terms (take_event i p s0) = t"
      "tr_Assignments (take_event i p s0) = tr_Assignments s0 + (if xp_Stage p = XAssigned then 1 else 0)"
    using Cons.prems(2) assms(3) by (simp_all add: take_event_def Let_def)
  show ?case
  proof (cases "ps = []")
    case False
    with Cons.IH [of "take_event i p s0"] Cons.prems(2) one show ?thesis by (simp add: Let_def)
  qed (use one in \<open>simp add: Let_def\<close>)
qed simp

lemma complete_due_simps [simp]:
  "tr_ID (complete_due now s) = tr_ID s" "tr_Terms (complete_due now s) = tr_Terms s" "tr_Assignments (complete_due now s) = tr_Assignments s"
  by (simp_all add: complete_due_def)

lemma map_of_Fold: "map_of (Fold events now) i = map_option (complete_due now) (map_of (foldl fold_event [] (by_time events)) i)"
  by (simp add: Fold_def map_of_map)

subsection \<open>The ledgers the operations write\<close>

definition terms_ok :: "trial_terms \<Rightarrow> bool" where
  "terms_ok t \<longleftrightarrow> ro_model (tt_Baseline t) \<noteq> [] \<and> 1 \<le> tt_MaxPairs t \<and> tt_MaxPairs t \<le> 10 \<and>
     ValidateUtilityPolicy (tt_ObjectiveMetric t) (tt_MinImprovementPct t) (tt_Guardrails t) = None"

definition arm_ok :: "string \<Rightarrow> int \<Rightarrow> exp_event \<Rightarrow> bool" where
  "arm_ok i k p \<longleftrightarrow> xp_Pair p = an_Pair (arm_at i k) \<and> xp_Assignment p = arm_name (an_Variant (arm_at i k))"

text \<open>What holds of the events of a trial: one set of terms, at most two arms a pair, each arm the one its place has.\<close>

definition trial_ok :: "string \<Rightarrow> trial_terms \<Rightarrow> xenv list \<Rightarrow> bool" where
  "trial_ok i t L \<longleftrightarrow>
     terms_ok t \<and> (\<forall>p\<in>set (xev i L). xp_Terms p = t) \<and> int (length (arms i L)) \<le> tt_MaxPairs t * 2 \<and>
     (\<forall>k<length (arms i L). arm_ok i (int k) (arms i L ! k))"

definition ledger_ok :: "xenv list \<Rightarrow> bool" where
  "ledger_ok L \<longleftrightarrow> xev [] L = [] \<and> (\<forall>i. xev i L \<noteq> [] \<longrightarrow> (\<exists>t. trial_ok i t L))"

definition no_arms :: "xenv list \<Rightarrow> bool" where
  "no_arms L \<longleftrightarrow> (\<forall>i. arms i L = [])"

text \<open>
  The ledgers that come about. The daemon assigns under its lock, one request after the other; the
  other processes may start and stop trials, and record other events, between the daemon's reading
  of the ledger and its writing to it. A trial's id is fresh.
\<close>

inductive trial_ledger :: "xenv list \<Rightarrow> bool" where
  empty_ledger: "trial_ledger []"
| other_event: "trial_ledger L \<Longrightarrow> \<forall>p. xe_Payload x \<noteq> XExperiment p \<Longrightarrow> trial_ledger (L @ [x])"
| start_trial: "trial_ledger (xw_ledger w) \<Longrightarrow> Start True inp w = (r, w') \<Longrightarrow>
    (\<And>s. r = Inr s \<Longrightarrow> xev (tr_ID s) (xw_ledger w) = []) \<Longrightarrow> trial_ledger (xw_ledger w')"
| stop_trial: "trial_ledger (xw_ledger w) \<Longrightarrow> length (xw_ledger w) \<le> read_limit \<Longrightarrow> Stop True i reason now w = (r, w') \<Longrightarrow>
    trial_ledger (xw_ledger w')"
| assign_arm: "trial_ledger (xw_ledger w @ M) \<Longrightarrow> no_arms M \<Longrightarrow> length (xw_ledger w) \<le> read_limit \<Longrightarrow>
    Assign True inp w = (r, w') \<Longrightarrow> xw_ledger w' = xw_ledger w @ N \<Longrightarrow> trial_ledger (xw_ledger w @ M @ N)"

lemma xev_stored:
  assumes "length L \<le> read_limit" and "j = [] \<or> j = i"
  shows "mset (xev i (stored_events j L)) = mset (xev i L)"
proof -
  let ?P = "\<lambda>x. if j = [] then (case xe_Payload x of XExperiment p \<Rightarrow> True | _ \<Rightarrow> False) else xe_Experiment x = j"
  have "length (filter ?P L) \<le> read_limit" using assms(1) length_filter_le [of ?P L] by linarith
  then have "mset (stored_events j L) = mset (filter ?P L)" by (simp add: stored_events_def Let_def)
  then have "mset (xev i (stored_events j L)) = mset (xev i (filter ?P L))" by (rule mset_xev)
  moreover have "xev i (filter ?P L) = xev i L"
    using assms(2) by (induction L) (auto simp: own_event_def split: xpayload.split)
  ultimately show ?thesis by simp
qed

text \<open>What a read of a ledger folds a trial to.\<close>

definition folded :: "string \<Rightarrow> trial_terms \<Rightarrow> xenv list \<Rightarrow> trial \<Rightarrow> bool" where
  "folded i t L s \<longleftrightarrow> tr_ID s = i \<and> tr_Terms s = t \<and> tr_Assignments s = int (length (arms i L))"

lemma Fold_trial:
  assumes "length L \<le> read_limit" and "j = [] \<or> j = i" and "trial_ok i t L" and "xev i L \<noteq> []" and "i \<noteq> []"
  shows "\<exists>s. map_of (Fold (stored_events j L) now) i = Some s \<and> folded i t L s"
proof -
  let ?es = "by_time (stored_events j L)"
  have "mset ?es = mset (stored_events j L)" by (simp add: by_time_def)
  then have m: "mset (xev i ?es) = mset (xev i L)" using mset_xev xev_stored [OF assms(1,2)] by metis
  then have ne: "xev i ?es \<noteq> []" using assms(4) by auto
  have "\<forall>p\<in>set (xev i ?es). xp_Terms p = t" using m assms(3) by (metis mset_eq_setD trial_ok_def)
  from take_events [OF ne this, where ?s0.0 = no_trial and i = i] assms(3) have
    "folded i t ?es (foldl (\<lambda>s p. take_event i p s) no_trial (xev i ?es))"
    by (simp add: Let_def folded_def trial_ok_def terms_ok_def no_trial_def arms_def)
  moreover have "length (arms i ?es) = length (arms i L)"
    unfolding arms_def by (metis m mset_filter size_mset)
  ultimately show ?thesis
    using ne assms(5) by (simp add: map_of_Fold fold_event_own trial_of_def folded_def)
qed

lemma Fold_none:
  assumes "length L \<le> read_limit" and "j = [] \<or> j = i" and "xev i L = [] \<or> i = []"
  shows "map_of (Fold (stored_events j L) now) i = None"
proof (cases "i = []")
  case True
  then show ?thesis by (simp add: map_of_Fold fold_event_nameless)
next
  case False
  let ?es = "by_time (stored_events j L)"
  have "mset ?es = mset (stored_events j L)" by (simp add: by_time_def)
  then have "mset (xev i ?es) = mset (xev i L)" using mset_xev xev_stored [OF assms(1,2)] by metis
  then show ?thesis using False assms(3) by (simp add: map_of_Fold fold_event_own)
qed

lemma next_trial_found:
  assumes "next_trial inp (stored_events [] L) now = Some s"
  shows "\<exists>i. map_of (Fold (stored_events [] L) now) i = Some s"
    and "tr_Assignments s < tt_MaxPairs (tr_Terms s) * 2" and "trial_for inp s" and "of_stage (tr_Stage s)"
proof -
  note s = find_mem [OF assms [unfolded next_trial_def]]
  then show "tr_Assignments s < tt_MaxPairs (tr_Terms s) * 2" "trial_for inp s" by simp_all
  from s show "of_stage (tr_Stage s)" by (auto simp: ActiveTrials_def)
  from s obtain i where "(i, s) \<in> set (Fold (stored_events [] L) now)" by (auto simp: ActiveTrials_def)
  moreover have "distinct (map fst (Fold (stored_events [] L) now))"
    using fold_event_keys [of "[]"] by (simp add: Fold_def case_prod_unfold comp_def)
  ultimately show "\<exists>i. map_of (Fold (stored_events [] L) now) i = Some s"
    by auto
qed

subsection \<open>What each operation appends\<close>

lemma io_steps:
  "ExperimentEvents i w = (r, w') \<Longrightarrow> xw_ledger w' = xw_ledger w \<and> (\<forall>es. r = Inr es \<longrightarrow> es = stored_events i (xw_ledger w))"
  "utcNow t w = (q, w') \<Longrightarrow> xw_ledger w' = xw_ledger w"
  "x_uuid w = (u, w') \<Longrightarrow> xw_ledger w' = xw_ledger w"
  "ledger_append x w = (z, w') \<Longrightarrow> (z = Inr () \<and> xw_ledger w' = xw_ledger w @ [x]) \<or> ((\<exists>e. z = Inl e) \<and> xw_ledger w' = xw_ledger w)"
  by (auto simp: ExperimentEvents_def utcNow_def x_uuid_def ledger_append_def x_tick_def split: option.splits if_splits)

lemma utcNow_runs: "\<exists>t w'. utcNow q w = (Inr t, w')"
  by (simp add: utcNow_def)

lemma Start_appends:
  assumes "Start True inp w = (r, w')"
  shows "xw_ledger w' = xw_ledger w \<or>
    (\<exists>s uid t p. r = Inr s \<and> tr_ID s \<noteq> [] \<and> xw_ledger w' = xw_ledger w @ [experimentEnvelope uid (tr_ID s) [] t p] \<and>
       xp_Stage p = XStarted \<and> terms_ok (xp_Terms p) \<and> tr_Terms s = xp_Terms p)"
proof -
  note d = assms [unfolded Start_def Let_def]
  show ?thesis
  proof (cases "utcNow (si_At inp) w")
    case (Pair q w1)
    obtain u w2 where u: "x_uuid w1 = (Inr u, w2)" by (simp add: x_uuid_def)
    obtain uid w3 where v: "x_uuid w2 = (Inr uid, w3)" by (simp add: x_uuid_def)
    have w3: "xw_ledger w3 = xw_ledger w" using io_steps(2) [OF Pair] io_steps(3) [OF u] io_steps(3) [OF v] by simp
    obtain t where q: "q = Inr t" using Pair by (auto simp: utcNow_def split: if_splits)
    let ?pairs = "if si_MaxPairs inp = 0 then defaultPairs else si_MaxPairs inp"
    let ?terms = "\<lparr>tt_Baseline = \<lparr>ro_provider = si_Provider inp, ro_model = si_BaselineModel inp, ro_reason = []\<rparr>,
        tt_Variant = \<lparr>ro_provider = si_Provider inp, ro_model = si_VariantModel inp, ro_reason = []\<rparr>,
        tt_MaxPairs = ?pairs, tt_EndsAt = Add t (if si_Duration inp = 0 then defaultDuration else si_Duration inp),
        tt_Fingerprint = si_Fingerprint inp, tt_ObjectiveMetric = si_ObjectiveMetric inp,
        tt_MinImprovementPct = si_MinImprovementPct inp, tt_Guardrails = si_Guardrails inp\<rparr>"
    let ?p = "\<lparr>xp_Stage = XStarted, xp_Kind = ModelRoute, xp_Terms = ?terms, xp_Assignment = [], xp_Pair = 0,
        xp_Reason = si_Reason inp\<rparr>"
    let ?i = "''experiment:'' @ u"
    obtain z w4 where z: "ledger_append (experimentEnvelope uid ?i [] t ?p) w3 = (z, w4)" by fastforce
    have "xw_ledger w' = xw_ledger w \<or> terms_ok ?terms \<and> xw_ledger w' = xw_ledger w4 \<and>
        (z = Inr () \<longrightarrow> r = Inr \<lparr>tr_ID = ?i, tr_Stage = XStarted, tr_Terms = ?terms, tr_Assignments = 0, tr_Reason = si_Reason inp\<rparr>)"
      using d Pair [unfolded q] u v z
      by (auto simp: io_bind_def io_then_def fail_def ret_def terms_ok_def maxPairs_def split: if_splits option.splits prod.splits sum.splits)
    then consider "xw_ledger w' = xw_ledger w"
      | "terms_ok ?terms" "xw_ledger w' = xw_ledger w @ [experimentEnvelope uid ?i [] t ?p]"
          "r = Inr \<lparr>tr_ID = ?i, tr_Stage = XStarted, tr_Terms = ?terms, tr_Assignments = 0, tr_Reason = si_Reason inp\<rparr>"
      using io_steps(4) [OF z] w3 by argo
    then show ?thesis
    proof cases
      case 2
      then show ?thesis by (intro disjI2 exI conjI) (rule 2(3), simp_all only: exp_event.select_convs trial.select_convs, simp_all)
    qed simp
  qed
qed

lemma Assign_appends:
  assumes "Assign True inp w = (r, w')"
  shows "xw_ledger w' = xw_ledger w \<and>
      (\<forall>q. r = Inr q \<longrightarrow> as_ExecutionID inp \<noteq> [] \<longrightarrow> length (as_ExecutionID inp) \<le> 256 \<longrightarrow>
       (\<exists>t. first_arm inp (Fold (stored_events [] (xw_ledger w)) t) (rev (stored_events [] (xw_ledger w))) = q)) \<or>
    (\<exists>s uid t. r = Inr (Some (arm_at (tr_ID s) (tr_Assignments s))) \<and>
       first_arm inp (Fold (stored_events [] (xw_ledger w)) t) (rev (stored_events [] (xw_ledger w))) = None \<and>
       next_trial inp (stored_events [] (xw_ledger w)) t = Some s \<and>
       xw_ledger w' = xw_ledger w @ [experimentEnvelope uid (tr_ID s) (as_ExecutionID inp) t (assigned_event s)])"
proof (cases "as_ExecutionID inp = [] \<or> 256 < length (as_ExecutionID inp)")
  case True
  then show ?thesis using assms by (auto simp: Assign_def ret_def)
next
  case False
  note d = assms [unfolded Assign_def]
  obtain q w1 where e: "ExperimentEvents [] w = (q, w1)" by (cases "ExperimentEvents [] w")
  show ?thesis
  proof (cases q)
    case (Inl er)
    then show ?thesis using d False e io_steps(1) [OF e] by (auto simp: io_bind_def)
  next
    case (Inr es)
    then have es: "es = stored_events [] (xw_ledger w)" "xw_ledger w1 = xw_ledger w" using io_steps(1) [OF e] by auto
    obtain t w2 where t: "utcNow (as_At inp) w1 = (Inr t, w2)" using utcNow_runs by blast
    have w2: "xw_ledger w2 = xw_ledger w" using io_steps(2) [OF t] es by simp
    obtain uid w3 where v: "x_uuid w2 = (Inr uid, w3)" by (simp add: x_uuid_def)
    have w3: "xw_ledger w3 = xw_ledger w" using io_steps(3) [OF v] w2 by simp
    let ?events = "stored_events [] (xw_ledger w)"
    have go: "(case first_arm inp (Fold ?events t) (rev ?events) of
          Some a \<Rightarrow> ret (Some a)
        | None \<Rightarrow>
            (case next_trial inp ?events t of
               None \<Rightarrow> ret None
             | Some s \<Rightarrow>
                 io_bind x_uuid (\<lambda>uid.
                   io_then (ledger_append (experimentEnvelope uid (tr_ID s) (as_ExecutionID inp) t (assigned_event s)))
                     (ret (Some (arm_at (tr_ID s) (tr_Assignments s))))))) w2 = (r, w')"
      using d False by (simp add: run_bind [of "ExperimentEvents []" w, OF e [unfolded Inr es(1)]] run_bind [of "utcNow (as_At inp)" w1, OF t])
    show ?thesis
    proof (cases "first_arm inp (Fold ?events t) (rev ?events)")
      case (Some a)
      then show ?thesis using go w2 by (auto simp: ret_def)
    next
      case None
      show ?thesis
      proof (cases "next_trial inp ?events t")
        case none: None
        then show ?thesis using go None w2 by (auto simp: ret_def)
      next
        case (Some s)
        obtain z w4 where z: "ledger_append (experimentEnvelope uid (tr_ID s) (as_ExecutionID inp) t (assigned_event s)) w3 = (z, w4)"
          by fastforce
        from io_steps(4) [OF z] show ?thesis
        proof
          assume "z = Inr () \<and> xw_ledger w4 = xw_ledger w3 @ [experimentEnvelope uid (tr_ID s) (as_ExecutionID inp) t (assigned_event s)]"
          then have "r = Inr (Some (arm_at (tr_ID s) (tr_Assignments s)))"
              "xw_ledger w' = xw_ledger w @ [experimentEnvelope uid (tr_ID s) (as_ExecutionID inp) t (assigned_event s)]"
            using go None Some v z w3 by (auto simp: io_bind_def io_then_def ret_def)
          with None Some show ?thesis by blast
        next
          assume "(\<exists>e. z = Inl e) \<and> xw_ledger w4 = xw_ledger w3"
          then have "xw_ledger w' = xw_ledger w" "\<forall>a. r \<noteq> Inr a"
            using go None Some v z w3 by (auto simp: io_bind_def io_then_def ret_def)
          then show ?thesis by simp
        qed
      qed
    qed
  qed
qed

lemma Stop_appends:
  assumes "Stop True i reason now w = (r, w')"
  shows "xw_ledger w' = xw_ledger w \<or>
    (\<exists>s u uid t. map_of (Fold (stored_events i (xw_ledger w)) u) i = Some s \<and>
       xw_ledger w' = xw_ledger w @ [experimentEnvelope uid i [] t
         \<lparr>xp_Stage = XStopped, xp_Kind = ModelRoute, xp_Terms = tr_Terms s, xp_Assignment = [], xp_Pair = 0, xp_Reason = reason\<rparr>])"
proof -
  obtain q w1 where e: "ExperimentEvents i w = (q, w1)" by (cases "ExperimentEvents i w")
  show ?thesis
  proof (cases q)
    case (Inl er)
    then show ?thesis using assms e io_steps(1) [OF e] by (auto simp: Stop_def Status_def io_bind_def)
  next
    case (Inr es)
    then have es: "es = stored_events i (xw_ledger w)" "xw_ledger w1 = xw_ledger w" using io_steps(1) [OF e] by auto
    obtain u w2 where u: "utcNow now w1 = (Inr u, w2)" using utcNow_runs by blast
    obtain t w3 where t: "utcNow now w2 = (Inr t, w3)" using utcNow_runs by blast
    obtain uid w4 where v: "x_uuid w3 = (Inr uid, w4)" by (simp add: x_uuid_def)
    have w4: "xw_ledger w2 = xw_ledger w" "xw_ledger w4 = xw_ledger w"
      using io_steps(2) [OF u] io_steps(2) [OF t] io_steps(3) [OF v] es by simp_all
    show ?thesis
      using assms e [unfolded Inr es(1)] u t v w4
      by (auto simp: Stop_def Status_def io_bind_def ret_def fail_def split: option.splits prod.splits sum.splits dest!: io_steps(4))
        blast
  qed
qed

subsection \<open>The ledgers stay sound\<close>

lemma own_event_envelope [simp]:
  "own_event i (experimentEnvelope uid j ex t p) = (if j = i then Some p else None)"
  by (simp add: own_event_def experimentEnvelope_def)

lemma arms_one [simp]:
  "arms i [experimentEnvelope uid j ex t p] = (if j = i \<and> xp_Stage p = XAssigned then [p] else [])"
  by (simp add: arms_def)

lemma ledger_ok_same:
  assumes "ledger_ok L" and "xev [] M = []" and "\<And>i. xev i M \<noteq> [] \<Longrightarrow> \<exists>t. trial_ok i t (L @ M)"
  shows "ledger_ok (L @ M)"
  unfolding ledger_ok_def
proof (intro conjI allI impI)
  fix i
  assume "xev i (L @ M) \<noteq> []"
  show "\<exists>t. trial_ok i t (L @ M)"
  proof (cases "xev i M = []")
    case True
    then have "arms i M = []" by (simp add: arms_def)
    with True \<open>xev i (L @ M) \<noteq> []\<close> assms(1) show ?thesis by (auto simp: ledger_ok_def trial_ok_def)
  qed (rule assms(3))
qed (use assms in \<open>simp add: ledger_ok_def\<close>)

lemma trial_ok_prefix: "trial_ok i t (L @ M) \<Longrightarrow> no_arms M \<Longrightarrow> trial_ok i t L"
  by (auto simp: trial_ok_def no_arms_def)

lemma ledger_ok_prefix: "ledger_ok (L @ M) \<Longrightarrow> no_arms M \<Longrightarrow> ledger_ok L"
  unfolding ledger_ok_def using trial_ok_prefix by fastforce

lemma trial_ledger_ok: "trial_ledger L \<Longrightarrow> ledger_ok L"
proof (induction rule: trial_ledger.induct)
  case empty_ledger
  then show ?case by (simp add: ledger_ok_def)
next
  case (other_event L x)
  then have "own_event i x = None" for i by (auto simp: own_event_def split: xpayload.split)
  then show ?case using other_event by (intro ledger_ok_same) simp_all
next
  case (start_trial w inp r w')
  from Start_appends [OF start_trial.hyps(2)] show ?case
  proof
    assume "xw_ledger w' = xw_ledger w"
    then show ?thesis using start_trial.IH by simp
  next
    assume "\<exists>s uid t p. r = Inr s \<and> tr_ID s \<noteq> [] \<and> xw_ledger w' = xw_ledger w @ [experimentEnvelope uid (tr_ID s) [] t p] \<and>
       xp_Stage p = XStarted \<and> terms_ok (xp_Terms p) \<and> tr_Terms s = xp_Terms p"
    then obtain s uid t p where s: "r = Inr s" "tr_ID s \<noteq> []" "xw_ledger w' = xw_ledger w @ [experimentEnvelope uid (tr_ID s) [] t p]"
        "xp_Stage p = XStarted" "terms_ok (xp_Terms p)" by blast
    have "xev (tr_ID s) (xw_ledger w) = []" using start_trial.hyps(3) [OF s(1)] .
    then have "trial_ok (tr_ID s) (xp_Terms p) (xw_ledger w')" using s by (auto simp: trial_ok_def arms_def terms_ok_def)
    then show ?thesis unfolding s(3) using s(2) start_trial.IH by (intro ledger_ok_same) (auto split: if_splits)
  qed
next
  case (stop_trial w i reason now r w')
  from Stop_appends [OF stop_trial.hyps(3)] show ?case
  proof
    assume "xw_ledger w' = xw_ledger w"
    then show ?thesis using stop_trial.IH by simp
  next
    assume "\<exists>s u uid t. map_of (Fold (stored_events i (xw_ledger w)) u) i = Some s \<and>
       xw_ledger w' = xw_ledger w @ [experimentEnvelope uid i [] t
         \<lparr>xp_Stage = XStopped, xp_Kind = ModelRoute, xp_Terms = tr_Terms s, xp_Assignment = [], xp_Pair = 0, xp_Reason = reason\<rparr>]"
    then obtain s u uid t where s: "map_of (Fold (stored_events i (xw_ledger w)) u) i = Some s"
      and l: "xw_ledger w' = xw_ledger w @ [experimentEnvelope uid i [] t
         \<lparr>xp_Stage = XStopped, xp_Kind = ModelRoute, xp_Terms = tr_Terms s, xp_Assignment = [], xp_Pair = 0, xp_Reason = reason\<rparr>]"
      by blast
    have i: "i \<noteq> []" "xev i (xw_ledger w) \<noteq> []"
      using Fold_none [OF stop_trial.hyps(2), of i i u] s by fastforce+
    then obtain tt where tt: "trial_ok i tt (xw_ledger w)" using stop_trial.IH by (auto simp: ledger_ok_def)
    from Fold_trial [OF stop_trial.hyps(2) _ tt i(2,1), of i u] s have "tr_Terms s = tt" by (auto simp: folded_def)
    then have "trial_ok i tt (xw_ledger w')" using tt unfolding l by (auto simp: trial_ok_def)
    then show ?thesis unfolding l using i stop_trial.IH by (intro ledger_ok_same) (auto split: if_splits)
  qed
next
  case (assign_arm w M inp r w' N)
  have prefix: "ledger_ok (xw_ledger w)" using assign_arm.IH assign_arm.hyps(2) by (rule ledger_ok_prefix)
  from Assign_appends [OF assign_arm.hyps(4)] assign_arm.hyps(5) consider "N = []"
    | s uid t where "next_trial inp (stored_events [] (xw_ledger w)) t = Some s"
        "N = [experimentEnvelope uid (tr_ID s) (as_ExecutionID inp) t (assigned_event s)]" by auto
  then show ?case
  proof cases
    case 1
    then show ?thesis using assign_arm.IH by simp
  next
    case 2
    let ?L = "xw_ledger w"
    obtain i where i: "map_of (Fold (stored_events [] ?L) t) i = Some s" using next_trial_found(1) [OF 2(1)] by blast
    then have own: "i \<noteq> []" "xev i ?L \<noteq> []" using Fold_none [OF assign_arm.hyps(3), of "[]" i t] by fastforce+
    then obtain tt where tt: "trial_ok i tt (?L @ M)" using assign_arm.IH by (auto simp: ledger_ok_def)
    have tl: "trial_ok i tt ?L" using tt assign_arm.hyps(2) by (rule trial_ok_prefix)
    from Fold_trial [OF assign_arm.hyps(3) _ tl own(2,1), of "[]" t] i
    have s: "tr_ID s = i" "tr_Terms s = tt" "tr_Assignments s = int (length (arms i ?L))" by (auto simp: folded_def)
    have room: "tr_Assignments s < tt_MaxPairs tt * 2" using next_trial_found(2) [OF 2(1)] s(2) by simp
    have none: "arms i M = []" using assign_arm.hyps(2) by (simp add: no_arms_def)
    have p: "xp_Stage (assigned_event s) = XAssigned" "xp_Terms (assigned_event s) = tt" "arm_ok i (tr_Assignments s) (assigned_event s)"
      by (simp_all add: assigned_event_def Let_def arm_ok_def s)
    have sound: "trial_ok i tt (?L @ M @ N)"
      using tt p room none s(1,3) unfolding 2(2) by (auto simp: trial_ok_def nth_append less_Suc_eq)
    have "ledger_ok ((?L @ M) @ N)"
      by (rule ledger_ok_same [OF assign_arm.IH]) (use own s(1) sound in \<open>auto simp: 2(2) split: if_splits\<close>)
    then show ?thesis by simp
  qed
qed

text \<open>
  C18: A trial is bounded and balanced. In every ledger that the operations write, whatever the daemon's
  assignments, other processes' starts and stops and the requests' times, a trial has at most
  twenty assignments, and the two of each pair are one baseline and one variant.
\<close>

theorem trial_bounded_balanced:
  assumes "trial_ledger L"
  shows "length (arms i L) \<le> 20 \<and>
    (\<forall>k. 2 * k + 1 < length (arms i L) \<longrightarrow>
      xp_Pair (arms i L ! (2 * k)) = int k + 1 \<and> xp_Pair (arms i L ! (2 * k + 1)) = int k + 1 \<and>
      {xp_Assignment (arms i L ! (2 * k)), xp_Assignment (arms i L ! (2 * k + 1))} = {''baseline'', ''variant''})"
proof (cases "xev i L = []")
  case True
  then show ?thesis by (simp add: arms_def)
next
  case False
  with trial_ledger_ok [OF assms] obtain t where t: "trial_ok i t L" by (auto simp: ledger_ok_def)
  have "arm_ok i (int (2 * k)) (arms i L ! (2 * k))" "arm_ok i (int (2 * k + 1)) (arms i L ! (2 * k + 1))"
    if "2 * k + 1 < length (arms i L)" for k
    using t that unfolding trial_ok_def by (metis Suc_eq_plus1 Suc_lessD, metis)
  then have pair: "xp_Pair (arms i L ! (2 * k)) = int k + 1 \<and> xp_Pair (arms i L ! (2 * k + 1)) = int k + 1 \<and>
      {xp_Assignment (arms i L ! (2 * k)), xp_Assignment (arms i L ! (2 * k + 1))} = {''baseline'', ''variant''}"
    if "2 * k + 1 < length (arms i L)" for k
    using that by (auto simp: arm_ok_def arm_at_def arm_name_def Let_def)
  have "int (length (arms i L)) \<le> 20" using t unfolding trial_ok_def terms_ok_def by linarith
  then show ?thesis using pair by simp
qed

subsection \<open>An execution keeps its arm\<close>

definition own_arm :: "string \<Rightarrow> xenv \<Rightarrow> bool" where
  "own_arm ex x \<longleftrightarrow> xe_Execution x = ex \<and> (case xe_Payload x of XExperiment p \<Rightarrow> xp_Stage p = XAssigned | _ \<Rightarrow> False)"

lemma earlier_arm_own: "earlier_arm inp st x = (if own_arm (as_ExecutionID inp) x then earlier_arm inp st x else None)"
  by (auto simp: earlier_arm_def own_arm_def split: xpayload.split)

lemma first_arm_own: "first_arm inp st es = first_arm inp st (filter (own_arm (as_ExecutionID inp)) es)"
proof -
  have "List.map_filter (earlier_arm inp st) es = List.map_filter (earlier_arm inp st) (filter (own_arm (as_ExecutionID inp)) es)"
  proof (induction es)
    case (Cons x es)
    then show ?case using earlier_arm_own [of inp st x] by (auto simp: List.map_filter_def)
  qed simp
  then show ?thesis by (simp add: first_arm_def)
qed

definition event_order :: "xenv \<Rightarrow> int \<times> string" where
  "event_order x = (t_ns (xe_Timestamp x), xe_ID x)"

lemma stored_own:
  assumes "length L \<le> read_limit"
  shows "filter (own_arm ex) (stored_events [] L) = sort_key event_order (filter (own_arm ex) L)"
proof -
  let ?P = "\<lambda>x. case xe_Payload x of XExperiment p \<Rightarrow> True | _ \<Rightarrow> False"
  have n: "length (filter ?P L) \<le> read_limit" using assms length_filter_le [of ?P L] by linarith
  have "filter (\<lambda>x. own_arm ex x \<and> ?P x) L = filter (own_arm ex) L"
    by (rule filter_cong) (auto simp: own_arm_def split: xpayload.split)
  then show ?thesis using n
    by (simp add: stored_events_def Let_def event_order_def [abs_def] filter_sort conj_commute)
qed

text \<open>The trial an event belongs to has the same terms in every later ledger.\<close>

lemma earlier_arm_terms:
  assumes "length L \<le> read_limit" and "ledger_ok L" and "own_event (xe_Experiment x) x = Some p" and "x \<in> set L"
  shows "xe_Experiment x \<noteq> [] \<and> (\<exists>s. map_of (Fold (stored_events [] L) now) (xe_Experiment x) = Some s \<and>
    tr_ID s = xe_Experiment x \<and> tr_Terms s = xp_Terms p)"
proof -
  let ?i = "xe_Experiment x"
  have mem: "p \<in> set (xev ?i L)" using assms(3,4) by (force simp: xev_def List.map_filter_def)
  then have ne: "xev ?i L \<noteq> []" by auto
  with assms(2) obtain t where t: "trial_ok ?i t L" and i: "?i \<noteq> []" unfolding ledger_ok_def by metis
  from Fold_trial [OF assms(1) _ t ne i, of "[]" now] mem t show ?thesis using i by (auto simp: folded_def trial_ok_def)
qed

lemma earlier_arm_lasting:
  assumes "length L \<le> read_limit" and "length L' \<le> read_limit" and "ledger_ok L" and "ledger_ok L'"
    and "x \<in> set L" and "x \<in> set L'"
  shows "earlier_arm inp (Fold (stored_events [] L) t) x = earlier_arm inp (Fold (stored_events [] L') t') x"
proof (cases "own_event (xe_Experiment x) x")
  case None
  then show ?thesis by (auto simp: earlier_arm_def own_event_def split: xpayload.split)
next
  case (Some p)
  from earlier_arm_terms [OF assms(1,3) Some assms(5), of t] earlier_arm_terms [OF assms(2,4) Some assms(6), of t'] Some
  show ?thesis by (auto simp: earlier_arm_def own_event_def trial_for_def Let_def split: xpayload.splits)
qed

lemma first_arm_cong:
  assumes "\<And>x. x \<in> set es \<Longrightarrow> earlier_arm inp st x = earlier_arm inp st' x"
  shows "first_arm inp st es = first_arm inp st' es"
proof -
  have "List.map_filter (earlier_arm inp st) es = List.map_filter (earlier_arm inp st') es"
    using assms by (induction es) (auto simp: List.map_filter_simps split: option.split)
  then show ?thesis by (simp add: first_arm_def)
qed

lemma first_arm_None: "first_arm inp st es = None \<longleftrightarrow> (\<forall>x\<in>set es. earlier_arm inp st x = None)"
  by (induction es) (auto simp: first_arm_def List.map_filter_simps split: option.split list.split)

lemma first_arm_only:
  assumes "earlier_arm inp st e = Some a" and "e \<in> set es" and "\<And>x. x \<in> set es \<Longrightarrow> x = e \<or> earlier_arm inp st x = None"
  shows "first_arm inp st es = Some a"
  using assms(2,3)
proof (induction es)
  case (Cons x es)
  then show ?case
  proof (cases "x = e")
    case False
    with Cons have "earlier_arm inp st x = None" "e \<in> set es" by auto
    with Cons show ?thesis by (auto simp: first_arm_def List.map_filter_simps)
  qed (use assms(1) in \<open>simp add: first_arm_def List.map_filter_simps\<close>)
qed simp


lemma trial_for_at [simp]: "trial_for (inp\<lparr>as_At := u\<rparr>) = trial_for inp"
  by (intro ext) (simp add: trial_for_def Let_def)

lemma earlier_arm_at [simp]: "earlier_arm (inp\<lparr>as_At := u\<rparr>) = earlier_arm inp"
  unfolding earlier_arm_def [abs_def] trial_for_at by simp

lemma first_arm_at [simp]: "first_arm (inp\<lparr>as_At := u\<rparr>) = first_arm inp"
  by (intro ext) (simp add: first_arm_def)

lemma own_arm_experiment: "own_arm ex x \<Longrightarrow> own_event (xe_Experiment x) x \<noteq> None"
  by (auto simp: own_arm_def own_event_def split: xpayload.splits)

text \<open>What the arms of an execution give does not change with other events of the ledger.\<close>

lemma first_arm_lasting:
  assumes "length L' \<le> read_limit" and "ledger_ok L" and "ledger_ok L'" and "L' = L @ M"
    and "\<forall>x\<in>set M. \<not> own_arm (as_ExecutionID inp) x"
  shows "first_arm inp (Fold (stored_events [] L') t') (rev (stored_events [] L')) =
    first_arm inp (Fold (stored_events [] L) t) (rev (stored_events [] L))"
proof -
  let ?ex = "as_ExecutionID inp" and ?f = "\<lambda>L. rev (sort_key event_order (filter (own_arm (as_ExecutionID inp)) L))"
  have n: "length L \<le> read_limit" using assms(1,4) by simp
  have own: "filter (own_arm ?ex) L' = filter (own_arm ?ex) L" using assms(4,5) by (simp add: filter_empty_conv)
  have "first_arm inp (Fold (stored_events [] L') t') (rev (stored_events [] L')) =
      first_arm inp (Fold (stored_events [] L') t') (?f L)"
    using first_arm_own [of inp _ "rev (stored_events [] L')"] stored_own [OF assms(1), of ?ex] own by (simp flip: rev_filter)
  also have "\<dots> = first_arm inp (Fold (stored_events [] L) t) (?f L)"
    using earlier_arm_lasting [OF assms(1) n assms(3,2)] assms(4) by (intro first_arm_cong) auto
  also have "\<dots> = first_arm inp (Fold (stored_events [] L) t) (rev (stored_events [] L))"
    using first_arm_own [of inp _ "rev (stored_events [] L)"] stored_own [OF n, of ?ex] by (simp flip: rev_filter)
  finally show ?thesis .
qed

text \<open>The arm just given is what the ledger gives its execution from then on.\<close>

lemma first_arm_given:
  assumes "length (L @ [e]) \<le> read_limit" and "ledger_ok L" and "ledger_ok (L @ [e])"
    and "next_trial inp (stored_events [] L) t = Some s"
    and "first_arm inp (Fold (stored_events [] L) t) (rev (stored_events [] L)) = None"
    and "e = experimentEnvelope uid (tr_ID s) (as_ExecutionID inp) t (assigned_event s)"
  shows "first_arm inp (Fold (stored_events [] (L @ [e])) u) (rev (stored_events [] (L @ [e]))) =
    Some (arm_at (tr_ID s) (tr_Assignments s))"
proof -
  let ?L = "L @ [e]" let ?st = "Fold (stored_events [] ?L) u" and ?ex = "as_ExecutionID inp"
  have n: "length L \<le> read_limit" using assms(1) by simp
  have own: "own_event (xe_Experiment e) e = Some (assigned_event s)" and ex: "xe_Execution e = ?ex" "xe_Experiment e = tr_ID s"
    by (simp_all add: assms(6) own_event_def experimentEnvelope_def)
  have staged: "xp_Stage (assigned_event s) = XAssigned" "xp_Terms (assigned_event s) = tr_Terms s"
    by (simp_all add: assigned_event_def Let_def)
  obtain q where q: "map_of ?st (tr_ID s) = Some q" "tr_ID q = tr_ID s" "tr_Terms q = tr_Terms s"
    using earlier_arm_terms [OF assms(1,3) own, of u] ex staged by auto
  have "trial_for inp q" using next_trial_found(3) [OF assms(4)] q(3) by (simp add: trial_for_def)
  then have given: "earlier_arm inp ?st e = Some (arm_at (tr_ID s) (tr_Assignments s))"
    using q staged by (simp add: earlier_arm_def assms(6) experimentEnvelope_def assigned_event_def Let_def arm_name_def arm_at_def)
  have other: "earlier_arm inp ?st x = None" if "x \<in> set L" "own_arm ?ex x" for x
  proof -
    have "x \<in> set (stored_events [] L)"
      using that arg_cong [OF stored_own [OF n, of ?ex], of set] by (auto simp: set_eq_iff)
    with assms(5) have "earlier_arm inp (Fold (stored_events [] L) t) x = None" by (simp add: first_arm_None)
    then show ?thesis using earlier_arm_lasting [OF n assms(1,2,3) that(1), of inp t u] that(1) by simp
  qed
  have mine: "own_arm ?ex e" using ex staged by (simp add: own_arm_def assms(6) experimentEnvelope_def)
  have "first_arm inp ?st (rev (stored_events [] ?L)) = first_arm inp ?st (rev (sort_key event_order (filter (own_arm ?ex) ?L)))"
    using first_arm_own [of inp ?st "rev (stored_events [] ?L)"] stored_own [OF assms(1), of ?ex] by (simp flip: rev_filter)
  also have "\<dots> = Some (arm_at (tr_ID s) (tr_Assignments s))"
    using given by (rule first_arm_only) (use mine other in auto)
  finally show ?thesis .
qed

text \<open>
  C19: An execution keeps its arm. Once a request of an execution has been given an arm, every later
  request of it on the same route is given the same one and writes nothing more to the ledger: whatever else
  was recorded in between, also when the trial was stopped, filled up or ended.
\<close>

theorem arm_sticks:
  assumes "trial_ledger (xw_ledger w)" and "Assign True inp w = (Inr (Some a), w1)"
    and "trial_ledger (xw_ledger w1)" and "trial_ledger (xw_ledger w2)" and "xw_ledger w2 = xw_ledger w1 @ M"
    and "\<forall>x\<in>set M. \<not> own_arm (as_ExecutionID inp) x" and "length (xw_ledger w2) \<le> read_limit"
    and "Assign True (inp\<lparr>as_At := u\<rparr>) w2 = (Inr q, w3)"
  shows "q = Some a \<and> xw_ledger w3 = xw_ledger w2"
proof -
  let ?first = "\<lambda>L t. first_arm inp (Fold (stored_events [] L) t) (rev (stored_events [] L))"
  note ok = assms(1,3,4) [THEN trial_ledger_ok]
  have id: "as_ExecutionID inp \<noteq> []" "length (as_ExecutionID inp) \<le> 256"
    using assms(2) by (auto simp: Assign_def ret_def split: if_splits)
  have n: "length (xw_ledger w1) \<le> read_limit" using assms(5,7) by simp
  have "\<exists>t. ?first (xw_ledger w1) t = Some a" using Assign_appends [OF assms(2)]
  proof (elim disjE exE conjE)
    fix s uid t
    assume "Inr (Some a) = Inr (Some (arm_at (tr_ID s) (tr_Assignments s)))" and "?first (xw_ledger w) t = None"
      and "next_trial inp (stored_events [] (xw_ledger w)) t = Some s"
      and "xw_ledger w1 = xw_ledger w @ [experimentEnvelope uid (tr_ID s) (as_ExecutionID inp) t (assigned_event s)]"
    then show ?thesis using first_arm_given [OF _ ok(1)] ok(2) n by auto
  qed (use id in auto)
  then obtain t where t: "?first (xw_ledger w1) t = Some a" ..
  have later: "?first (xw_ledger w2) t' = Some a" for t'
    using first_arm_lasting [OF assms(7) ok(2,3) assms(5,6)] t by metis
  from Assign_appends [OF assms(8)] show ?thesis
    using later id by auto
qed


subsection \<open>A stop that an arm overtakes\<close>

lemma insort_key_snoc: "f x \<le> f e \<Longrightarrow> insort_key f x (ys @ [e]) = insort_key f x ys @ [e]"
  by (induction ys) auto

lemma sort_key_snoc: "(\<forall>x\<in>set xs. f x \<le> f e) \<Longrightarrow> sort_key f (xs @ [e]) = sort_key f xs @ [e]"
  by (induction xs) (auto simp: insort_key_snoc)

lemma latest_stage:
  assumes "length (L @ [e]) \<le> read_limit" and "trial_ok i t (L @ [e])" and "own_event i e = Some p" and "i \<noteq> []"
    and "\<forall>y\<in>set L. Before (xe_Timestamp y) (xe_Timestamp e)"
  shows "\<exists>s. map_of (Fold (stored_events [] (L @ [e])) now) i = Some s \<and>
    tr_Stage s = tr_Stage (complete_due now (s\<lparr>tr_Stage := xp_Stage p\<rparr>))"
proof -
  let ?P = "\<lambda>x. case xe_Payload x of XExperiment p \<Rightarrow> True | _ \<Rightarrow> False"
  let ?K = "sort_key (\<lambda>x. (t_ns (xe_Timestamp x), xe_ID x)) (filter ?P L)"
  have e: "?P e" using assms(3) by (auto simp: own_event_def split: xpayload.splits if_splits)
  have n: "length (filter ?P (L @ [e])) \<le> read_limit" using assms(1) length_filter_le [of ?P "L @ [e]"] by linarith
  have older: "\<forall>y\<in>set L. t_ns (xe_Timestamp y) < t_ns (xe_Timestamp e)" using assms(5) by (simp add: Before_def)
  have k: "sort_key (\<lambda>x. (t_ns (xe_Timestamp x), xe_ID x)) (filter ?P L @ [e]) = ?K @ [e]"
    by (rule sort_key_snoc) (use older in auto)
  have stored: "stored_events [] (L @ [e]) = ?K @ [e]"
    using n e k by (simp add: stored_events_def Let_def)
  have timed: "by_time (?K @ [e]) = by_time ?K @ [e]" unfolding by_time_def
    by (rule sort_key_snoc) (use older in auto)
  let ?es = "by_time ?K @ [e]"
  have "mset ?es = mset (stored_events [] (L @ [e]))" unfolding stored by_time_def by simp
  then have same: "mset (xev i ?es) = mset (xev i (L @ [e]))"
    using mset_xev xev_stored [OF assms(1) disjI1 [OF refl]] by metis
  have ne: "xev i ?es \<noteq> []" and latest: "last (xev i ?es) = p" using assms(3) by simp_all
  have "\<forall>q\<in>set (xev i ?es). xp_Terms q = t" unfolding mset_eq_setD [OF same] using assms(2) unfolding trial_ok_def by blast
  moreover have "ro_model (tt_Baseline t) \<noteq> []" using assms(2) unfolding trial_ok_def terms_ok_def by blast
  ultimately obtain s where s: "foldl (\<lambda>s p. take_event i p s) no_trial (xev i ?es) = s" "tr_Stage s = xp_Stage p"
    using take_events [OF ne, of t, where ?s0.0 = no_trial and i = i] latest by (simp add: Let_def)
  have "map_of (foldl fold_event [] ?es) i = Some s"
    using fold_event_own [OF assms(4), of "[]" ?es] ne s(1) by (simp only: trial_of_def) simp
  then have "map_of (Fold (stored_events [] (L @ [e])) now) i = Some (complete_due now s)"
    by (simp only: map_of_Fold stored timed option.map)
  moreover have "tr_Stage (complete_due now s) = tr_Stage (complete_due now ((complete_due now s)\<lparr>tr_Stage := xp_Stage p\<rparr>))"
    using s(2) by (auto simp: complete_due_def)
  ultimately show ?thesis by blast
qed


subsection \<open>A trial with one request\<close>

definition demo_start :: start_input where
  "demo_start = \<lparr>si_Provider = ''anthropic'', si_BaselineModel = ''opus'', si_VariantModel = ''sonnet'', si_Fingerprint = ''route'',
     si_ObjectiveMetric = ''tokens'', si_MinImprovementPct = Fin 10,
     si_Guardrails = [\<lparr>gd_Metric = ''quality'', gd_MaxRegressionPct = Fin 0\<rparr>], si_At = \<lparr>t_ns = 0, t_off = 0\<rparr>, si_Duration = 0,
     si_MaxPairs = 0, si_Reason = ''try''\<rparr>"

definition demo_request :: assign_input where
  "demo_request = \<lparr>as_Provider = ''anthropic'', as_BaselineModel = ''opus'', as_VariantModel = ''sonnet'', as_ExecutionID = ''run'',
     as_Fingerprint = ''route'', as_At = \<lparr>t_ns = 1, t_off = 0\<rparr>\<rparr>"

definition demo_trial :: trial where
  "demo_trial = \<lparr>tr_ID = ''experiment:u'', tr_Stage = XStarted,
     tr_Terms = \<lparr>tt_Baseline = \<lparr>ro_provider = ''anthropic'', ro_model = ''opus'', ro_reason = []\<rparr>,
       tt_Variant = \<lparr>ro_provider = ''anthropic'', ro_model = ''sonnet'', ro_reason = []\<rparr>, tt_MaxPairs = 10,
       tt_EndsAt = \<lparr>t_ns = defaultDuration, t_off = 0\<rparr>, tt_Fingerprint = ''route'', tt_ObjectiveMetric = ''tokens'',
       tt_MinImprovementPct = Fin 10, tt_Guardrails = [\<lparr>gd_Metric = ''quality'', gd_MaxRegressionPct = Fin 0\<rparr>]\<rparr>,
     tr_Assignments = 0, tr_Reason = ''try''\<rparr>"

definition demo_started :: xenv where
  "demo_started = experimentEnvelope ''u'' ''experiment:u'' [] \<lparr>t_ns = 0, t_off = 0\<rparr>
     \<lparr>xp_Stage = XStarted, xp_Kind = ModelRoute, xp_Terms = tr_Terms demo_trial, xp_Assignment = [], xp_Pair = 0, xp_Reason = ''try''\<rparr>"

definition demo_armed :: xenv where
  "demo_armed = experimentEnvelope ''u'' ''experiment:u'' ''run'' \<lparr>t_ns = 1, t_off = 0\<rparr> (assigned_event demo_trial)"

definition demo_xworld :: "xenv list \<Rightarrow> nat \<Rightarrow> xworld" where
  "demo_xworld L n = \<lparr>xw_ledger = L, xw_uuid = \<lambda>_. ''u'', xw_step = n, xw_now = \<lambda>_. \<lparr>t_ns = 2, t_off = 0\<rparr>,
     xw_read_error = \<lambda>_. None, xw_append_error = \<lambda>_. None\<rparr>"

lemma demo_policy: "ValidateUtilityPolicy ''tokens'' (Fin 10) [\<lparr>gd_Metric = ''quality'', gd_MaxRegressionPct = Fin 0\<rparr>] = None"
  by code_simp

lemma demo_starts: "Start True demo_start (demo_xworld [] 0) = (Inr demo_trial, demo_xworld [demo_started] 3)"
  using demo_policy
  by (simp add: Start_def Let_def demo_start_def demo_xworld_def demo_trial_def demo_started_def io_bind_def io_then_def ret_def
      utcNow_def x_uuid_def x_tick_def ledger_append_def IsZero_def UTC_def zero_ns_def defaultPairs_def maxPairs_def
      defaultDuration_def Add_def)

lemma demo_folded: "next_trial demo_request (stored_events [] [demo_started]) \<lparr>t_ns = 1, t_off = 0\<rparr> = Some demo_trial"
  by code_simp

lemma demo_first: "first_arm demo_request sts (rev (stored_events [] [demo_started])) = None"
  by (simp add: first_arm_def List.map_filter_simps stored_events_def Let_def demo_started_def experimentEnvelope_def
      earlier_arm_def demo_request_def read_limit_def)

lemma demo_assigns:
  "Assign True demo_request (demo_xworld [demo_started] 3) =
    (Inr (Some (arm_at ''experiment:u'' 0)), demo_xworld [demo_started, demo_armed] 6)"
proof -
  have r: "ExperimentEvents [] (demo_xworld [demo_started] 3) = (Inr (stored_events [] [demo_started]), demo_xworld [demo_started] 4)"
    by (simp add: ExperimentEvents_def demo_xworld_def x_tick_def)
  have t: "utcNow (as_At demo_request) (demo_xworld [demo_started] 4) = (Inr \<lparr>t_ns = 1, t_off = 0\<rparr>, demo_xworld [demo_started] 4)"
    by (simp add: utcNow_def demo_request_def IsZero_def zero_ns_def UTC_def)
  have u: "x_uuid (demo_xworld [demo_started] 4) = (Inr ''u'', demo_xworld [demo_started] 5)"
    by (simp add: x_uuid_def demo_xworld_def x_tick_def)
  have v: "ledger_append demo_armed (demo_xworld [demo_started] 5) = (Inr (), demo_xworld [demo_started, demo_armed] 6)"
    by (simp add: ledger_append_def demo_xworld_def x_tick_def)
  have "tr_ID demo_trial = ''experiment:u''" "tr_Assignments demo_trial = 0" "as_ExecutionID demo_request = ''run''"
    by (simp_all add: demo_trial_def demo_request_def)
  then show ?thesis
    by (simp add: Assign_def io_bind_def r t u demo_first demo_folded io_then_def ret_def v [unfolded demo_armed_def] demo_armed_def)
qed

lemma demo_ledgers:
  "trial_ledger []" "trial_ledger [demo_started]" "trial_ledger [demo_started, demo_armed]"
proof -
  show e: "trial_ledger []" by (rule empty_ledger)
  show s: "trial_ledger [demo_started]"
    using start_trial [OF _ demo_starts] e by (simp add: demo_xworld_def)
  show "trial_ledger [demo_started, demo_armed]"
    using assign_arm [OF _ _ _ demo_assigns, of "[]" "[demo_armed]"] s
    by (simp add: demo_xworld_def no_arms_def arms_def read_limit_def)
qed

theorem trial_bounded_balanced_witness:
  "length (arms ''experiment:u'' [demo_started, demo_armed]) = 1 \<and>
   length (arms ''experiment:u'' [demo_started, demo_armed]) \<le> 20"
  using trial_bounded_balanced [OF demo_ledgers(3), of "''experiment:u''"]
  by (simp add: arms_def demo_started_def demo_armed_def assigned_event_def Let_def)

text \<open>The request's second call comes two weeks later, when the trial has ended.\<close>

theorem arm_sticks_witness:
  "\<exists>w3. Assign True (demo_request\<lparr>as_At := \<lparr>t_ns = 2 * defaultDuration, t_off = 0\<rparr>\<rparr>) (demo_xworld [demo_started, demo_armed] 6) =
     (Inr (Some (arm_at ''experiment:u'' 0)), w3)"
proof -
  let ?inp = "demo_request\<lparr>as_At := \<lparr>t_ns = 2 * defaultDuration, t_off = 0\<rparr>\<rparr>" and ?w = "demo_xworld [demo_started, demo_armed] 6"
  obtain r w3 where a: "Assign True ?inp ?w = (r, w3)" by fastforce
  have "\<exists>q. r = Inr q"
    using a by (auto simp: Assign_def io_bind_def ExperimentEvents_def utcNow_def x_uuid_def ledger_append_def io_then_def ret_def
        demo_xworld_def x_tick_def split: option.splits if_splits)
  then obtain q where q: "r = Inr q" ..
  have "q = Some (arm_at ''experiment:u'' 0) \<and> xw_ledger w3 = xw_ledger ?w"
    by (rule arm_sticks [OF _ demo_assigns _ _ _ _ _ a [unfolded q], where M = "[]"])
      (use demo_ledgers in \<open>simp_all add: demo_xworld_def read_limit_def\<close>)
  with a q show ?thesis by blast
qed

text \<open>The trial's owner stops it while its first request is being assigned.\<close>

definition demo_stopped :: xenv where
  "demo_stopped = experimentEnvelope ''u'' ''experiment:u'' [] \<lparr>t_ns = 0, t_off = 0\<rparr>
     \<lparr>xp_Stage = XStopped, xp_Kind = ModelRoute, xp_Terms = tr_Terms demo_trial, xp_Assignment = [], xp_Pair = 0, xp_Reason = ''no''\<rparr>"

lemma demo_stops:
  "Stop True ''experiment:u'' ''no'' \<lparr>t_ns = 0, t_off = 0\<rparr> (demo_xworld [demo_started] 3) =
    (Inr (), demo_xworld [demo_started, demo_stopped] 6)"
proof -
  have f: "map_of (Fold (stored_events ''experiment:u'' [demo_started]) \<lparr>t_ns = 0, t_off = 0\<rparr>) ''experiment:u'' = Some demo_trial"
    by code_simp
  have r: "ExperimentEvents ''experiment:u'' (demo_xworld [demo_started] 3) =
      (Inr (stored_events ''experiment:u'' [demo_started]), demo_xworld [demo_started] 4)"
    by (simp add: ExperimentEvents_def demo_xworld_def x_tick_def)
  have t: "utcNow \<lparr>t_ns = 0, t_off = 0\<rparr> v = (Inr \<lparr>t_ns = 0, t_off = 0\<rparr>, v)" for v
    by (simp add: utcNow_def IsZero_def zero_ns_def UTC_def)
  have u: "x_uuid (demo_xworld [demo_started] 4) = (Inr ''u'', demo_xworld [demo_started] 5)"
    by (simp add: x_uuid_def demo_xworld_def x_tick_def)
  have v: "ledger_append demo_stopped (demo_xworld [demo_started] 5) = (Inr (), demo_xworld [demo_started, demo_stopped] 6)"
    by (simp add: ledger_append_def demo_xworld_def x_tick_def)
  show ?thesis
    by (simp add: Stop_def Status_def io_bind_def r t u f ret_def v [unfolded demo_stopped_def] demo_stopped_def)
qed


end
