(* ===== verification/Evidence.thy ===== *)
theory Evidence
  imports Experiments
begin

text \<open>
  From recorded events to a belief: outcomes of executions, a person's, a verifier's or the agent's own
  (\<open>internal/capability/outcomes/outcomes.go\<close>), and the matched pairs of a trial they are joined to
  (\<open>internal/capability/learn/routing.go\<close>), which the gates of \<open>Learning\<close> judge.
\<close>

subsection \<open>Outcomes\<close>

record outcome_record =
  or_ExecutionID :: string
  or_DecisionID :: string
  or_InterventionID :: string
  or_Result :: string
  or_Assessment :: string
  or_Caveat :: string
  or_At :: gotime
  or_AttentionMinutes :: "f64 option"

definition attention_metrics :: "f64 option \<Rightarrow> outcome_metric list" where
  "attention_metrics minutes =
     (case minutes of
        None \<Rightarrow> []
      | Some v \<Rightarrow>
          if f_special v \<or> \<not> f_le (Fin 0) v then []
          else [\<lparr>om_Name = ''human_attention_minutes'', om_Unit = ''minutes'', om_Value = v, om_Source = ''human_self_report''\<rparr>])"

text \<open>The id is drawn and the clock read where the code does.\<close>

definition Event :: "string \<Rightarrow> gotime \<Rightarrow> outcome_record \<Rightarrow> xenv" where
  "Event uid wall r =
     (let t = (if IsZero (UTC (or_At r)) then UTC wall else UTC (or_At r))
      in \<lparr>xe_ID = uid, xe_Timestamp = t, xe_Execution = or_ExecutionID r, xe_Decision = or_DecisionID r,
          xe_Intervention = or_InterventionID r, xe_Experiment = [], xe_Attributes = [],
          xe_Payload = XOutcome \<lparr>oo_Result = or_Result r, oo_Assessment = or_Assessment r, oo_Caveat = or_Caveat r,
            oo_Metrics = attention_metrics (or_AttentionMinutes r)\<rparr>\<rparr>)"

definition correlate_step :: "string \<Rightarrow> xenv \<Rightarrow> xenv \<Rightarrow> xenv" where
  "correlate_step decision env candidate =
     (if xe_Decision candidate \<noteq> decision then env
      else let env = (if xe_Intervention candidate \<noteq> [] then env\<lparr>xe_Intervention := xe_Intervention candidate\<rparr> else env)
           in if xe_Experiment candidate \<noteq> [] then env\<lparr>xe_Experiment := xe_Experiment candidate\<rparr> else env)"

definition CorrelateDecisionLifecycle :: "xenv \<Rightarrow> xenv list \<Rightarrow> xenv" where
  "CorrelateDecisionLifecycle env history =
     (if xe_Decision env = [] then env else foldl (correlate_step (xe_Decision env)) env history)"

definition strength :: "string \<Rightarrow> nat" where
  "strength a = (if a = OutcomeHuman then 3 else if a = OutcomeVerification then 2 else if a = OutcomeSelfReport then 1 else 0)"

text \<open>The strongest assessment so far and the outcomes that have it.\<close>

definition resolve_step :: "nat \<times> outcome_event list \<Rightarrow> xenv \<Rightarrow> nat \<times> outcome_event list" where
  "resolve_step acc env =
     (case xe_Payload env of
        XOutcome out \<Rightarrow>
          (let s = strength (oo_Assessment out)
           in if fst acc < s then (s, [out]) else if s = fst acc then (s, snd acc @ [out]) else acc)
      | _ \<Rightarrow> acc)"

definition unassessed :: outcome_event where
  "unassessed = \<lparr>oo_Result = OutcomeUnknown, oo_Assessment = [], oo_Caveat = ''nothing assessed this execution'', oo_Metrics = []\<rparr>"

definition agreed :: "outcome_event list \<Rightarrow> outcome_event" where
  "agreed selected =
     (if selected = [] then unassessed
      else let result = last selected
           in if \<exists>other\<in>set (butlast selected). oo_Result other \<noteq> oo_Result result
              then \<lparr>oo_Result = OutcomePartial, oo_Assessment = oo_Assessment result,
                    oo_Caveat = ''conflicting assessments of equal strength'', oo_Metrics = []\<rparr>
              else result)"

definition Resolve :: "xenv list \<Rightarrow> outcome_event" where
  "Resolve events = agreed (snd (foldl resolve_step (0, []) events))"

subsection \<open>The verifier of a transcript\<close>

record tool_event =
  te_Timestamp :: gotime
  te_SessionID :: string
  te_IsResult :: bool
  te_ToolUseID :: string
  te_Name :: string
  te_RawCommand :: string
  te_IsError :: bool

definition isEdit :: "string \<Rightarrow> bool" where
  "isEdit n \<longleftrightarrow> to_lower n \<in> {''edit'', ''write'', ''multiedit'', ''notebookedit'', ''apply_patch'', ''patch''}"

definition verifiers :: "(string \<times> string) list" where
  "verifiers =
     [(''go test'', ''go_test''), (''go vet'', ''go_vet''), (''golangci-lint'', ''golangci_lint''), (''pytest'', ''pytest''),
      (''python -m pytest'', ''pytest''), (''npm test'', ''npm_test''), (''npm run test'', ''npm_test''),
      (''pnpm test'', ''pnpm_test''), (''cargo test'', ''cargo_test''), (''make test'', ''make_test''), (''make verify'', ''make_verify'')]"

definition verifierKind :: "string \<Rightarrow> string" where
  "verifierKind command =
     (let c = to_lower (trim_space command)
      in case find (\<lambda>pk. has_prefix c (fst pk)) verifiers of None \<Rightarrow> [] | Some (p, k) \<Rightarrow> k)"

definition isVerifier :: "tool_event \<Rightarrow> bool" where
  "isVerifier ev \<longleftrightarrow> to_lower (te_Name ev) = ''bash'' \<and> verifierKind (te_RawCommand ev) \<noteq> []"

text \<open>The uses and results by id, the last of each, and the time of the last edit.\<close>

record tool_scan =
  ts_uses :: "(string \<times> tool_event) list"
  ts_results :: "(string \<times> tool_event) list"
  ts_edit :: gotime

definition scan_step :: "tool_scan \<Rightarrow> tool_event \<Rightarrow> tool_scan" where
  "scan_step s ev =
     (if te_IsResult ev then s\<lparr>ts_results := AList.update (te_ToolUseID ev) ev (ts_results s)\<rparr>
      else s\<lparr>ts_uses := AList.update (te_ToolUseID ev) ev (ts_uses s),
             ts_edit := (if isEdit (te_Name ev) \<and> After (te_Timestamp ev) (ts_edit s) then te_Timestamp ev else ts_edit s)\<rparr>)"

definition scan_tools :: "tool_event list \<Rightarrow> tool_scan" where
  "scan_tools events = foldl scan_step \<lparr>ts_uses = [], ts_results = [], ts_edit = zero_time\<rparr> events"

definition completed :: "tool_scan \<Rightarrow> string \<times> tool_event \<Rightarrow> (tool_event \<times> tool_event) option" where
  "completed s iu =
     (case map_of (ts_results s) (fst iu) of
        None \<Rightarrow> None
      | Some r \<Rightarrow> if \<not> isVerifier (snd iu) \<or> Before (te_Timestamp r) (ts_edit s) then None else Some (snd iu, r))"

text \<open>Verifiers that ended at one instant stand in the order of their uses; the code leaves theirs open.\<close>

definition completed_verifiers :: "tool_event list \<Rightarrow> (tool_event \<times> tool_event) list" where
  "completed_verifiers events =
     sort_key (\<lambda>c. t_ns (te_Timestamp (snd c))) (List.map_filter (completed (scan_tools events)) (ts_uses (scan_tools events)))"

definition FromToolEvents :: "string \<Rightarrow> gotime \<Rightarrow> string \<Rightarrow> string \<Rightarrow> tool_event list \<Rightarrow> xenv option" where
  "FromToolEvents uid wall execution decision events =
     (case completed_verifiers events of
        [] \<Rightarrow> None
      | c # cs \<Rightarrow>
          (let r = snd (last (c # cs))
           in Some (Event uid wall
                \<lparr>or_ExecutionID = execution, or_DecisionID = decision, or_InterventionID = [],
                 or_Result = (if te_IsError r then OutcomeNotAchieved else OutcomeAchieved),
                 or_Assessment = OutcomeVerification,
                 or_Caveat = (if te_IsError r then ''the final verifier after the last edit failed''
                   else ''the final verifier after the last edit passed; this establishes only the verifier's scope''),
                 or_At = te_Timestamp r, or_AttentionMinutes = None\<rparr>)))"

subsection \<open>The arms of a pair\<close>

record arm =
  ar_at :: gotime
  ar_metrics :: "(string \<times> (f64 \<times> int)) list"
  ar_outcomes :: "xenv list"

definition no_arm :: arm where
  "no_arm = \<lparr>ar_at = zero_time, ar_metrics = [], ar_outcomes = []\<rparr>"

definition arm_add :: "string \<Rightarrow> f64 \<Rightarrow> arm \<Rightarrow> arm" where
  "arm_add metric v a =
     (let (t, n) = (case map_of (ar_metrics a) metric of None \<Rightarrow> (Fin 0, 0) | Some m \<Rightarrow> m)
      in a\<lparr>ar_metrics := AList.update metric (f_add t v, n + 1) (ar_metrics a)\<rparr>)"

definition arm_value :: "arm \<Rightarrow> string \<Rightarrow> f64 option" where
  "arm_value a metric =
     (case map_of (ar_metrics a) metric of
        None \<Rightarrow> None
      | Some (t, n) \<Rightarrow>
          if n = 0 then None
          else if metric = ''latency_ms'' \<or> metric = ''attention_minutes'' then Some (f_div t (f_int n)) else Some t)"

definition TokenProvenance :: "prompt_event \<Rightarrow> string" where
  "TokenProvenance p = (if pe_TokenSource p = [] then ''counted'' else pe_TokenSource p)"

definition TokensCounted :: "prompt_event \<Rightarrow> bool" where
  "TokensCounted p \<longleftrightarrow> TokenProvenance p \<noteq> ''uncounted''"

definition prompt_metrics :: "prompt_event \<Rightarrow> arm \<Rightarrow> arm" where
  "prompt_metrics p a =
     (let n = round64 (of_int (pe_TotalTokens p));
          a = (if TokensCounted p then
                 (let a = arm_add ''tokens'' n a
                  in if pe_CostSource p = CostSourcePlanIncluded then arm_add ''plan_quota_tokens'' n a else a)
               else a);
          a = (if pe_CostMeasured p \<and> (pe_CostSource p = [] \<or> pe_CostSource p = CostSourceMetered)
               then arm_add ''metered_cost_usd'' (pe_CostUSD p) a else a)
      in if 0 < pe_Latency p then arm_add ''latency_ms'' (f_div (round64 (of_int (pe_Latency p))) (Fin 1000000)) a else a)"

definition own_attention :: "outcome_metric \<Rightarrow> bool" where
  "own_attention m \<longleftrightarrow>
     om_Name m = ''human_attention_minutes'' \<and> om_Unit m = ''minutes'' \<and> om_Source m = ''human_self_report'' \<and>
     f_le (Fin 0) (om_Value m)"

definition credit_arm :: "xenv \<Rightarrow> arm \<Rightarrow> arm" where
  "credit_arm env a0 =
     (let a = (if After (xe_Timestamp env) (ar_at a0) then a0\<lparr>ar_at := xe_Timestamp env\<rparr> else a0)
      in case xe_Payload env of
           XPrompt p \<Rightarrow> prompt_metrics p a
         | XOutcome out \<Rightarrow>
             foldl (\<lambda>a m. if own_attention m then arm_add ''attention_minutes'' (om_Value m) a else a)
               (a\<lparr>ar_outcomes := ar_outcomes a @ [env]\<rparr>) (oo_Metrics out)
         | _ \<Rightarrow> a)"

subsection \<open>Joining events to pairs\<close>

text \<open>A pair and whether its variant.\<close>

type_synonym arm_key = "string \<times> bool"

record tally =
  ta_pairs :: "(string \<times> (arm \<times> arm)) list"
  ta_decisions :: "(string \<times> arm_key) list"
  ta_executions :: "(string \<times> arm_key) list"
  ta_eligible :: "string list"
  ta_objective :: string
  ta_improvement :: f64
  ta_guardrails :: "guardrail list"

definition no_tally :: tally where
  "no_tally = \<lparr>ta_pairs = [], ta_decisions = [], ta_executions = [], ta_eligible = [], ta_objective = [],
     ta_improvement = Fin 0, ta_guardrails = []\<rparr>"

definition attribute :: "xenv \<Rightarrow> string \<Rightarrow> string" where
  "attribute env k = (case map_of (xe_Attributes env) k of None \<Rightarrow> [] | Some v \<Rightarrow> v)"

text \<open>\<open>Atoi\<close> with its error ignored: zero for what is no number, the nearest \<open>int\<close> for what does not fit.\<close>

definition atoi_or :: "string \<Rightarrow> int" where
  "atoi_or s =
     (case Atoi s of
        Some v \<Rightarrow> v
      | None \<Rightarrow>
          (let ds = (if has_prefix s ''-'' \<or> has_prefix s ''+'' then tl s else s)
           in if ds = [] \<or> \<not> list_all is_digit ds then 0 else if has_prefix s ''-'' then - (2 ^ 63) else 2 ^ 63 - 1))"

text \<open>The pair and arm a decision was enrolled in.\<close>

definition enrolled_pair :: "xenv \<Rightarrow> int option" where
  "enrolled_pair env =
     (case xe_Payload env of
        XDecision d f \<Rightarrow>
          (let n = atoi_or (attribute env ''tokenops.experiment.pair''); a = attribute env ''tokenops.experiment.arm''
           in if n < 1 \<or> a \<noteq> ''baseline'' \<and> a \<noteq> ''variant'' then None else Some n)
      | _ \<Rightarrow> None)"

definition pair_id :: "string \<Rightarrow> int \<Rightarrow> string" where
  "pair_id experiment n = experiment @ '':'' @ itoa n"

definition enroll_step :: "tally \<Rightarrow> xenv \<Rightarrow> tally" where
  "enroll_step ta env =
     (case xe_Payload env of
        XExperiment p \<Rightarrow>
          if xp_Stage p = XStarted then
            ta\<lparr>ta_objective := tt_ObjectiveMetric (xp_Terms p), ta_improvement := tt_MinImprovementPct (xp_Terms p),
               ta_guardrails := tt_Guardrails (xp_Terms p)\<rparr>
          else ta
      | _ \<Rightarrow>
          (case enrolled_pair env of
             None \<Rightarrow> ta
           | Some n \<Rightarrow>
               (let i = pair_id (xe_Experiment env) n; key = (i, attribute env ''tokenops.experiment.arm'' = ''variant'');
                    identity = (if xe_Execution env \<noteq> [] then ''execution:'' @ xe_Execution env else ''decision:'' @ xe_Decision env)
                in ta\<lparr>ta_decisions := AList.update (xe_Decision env) key (ta_decisions ta),
                      ta_executions := (if xe_Execution env \<noteq> [] then AList.update (xe_Execution env) key (ta_executions ta)
                        else ta_executions ta),
                      ta_eligible := List.insert identity (ta_eligible ta),
                      ta_pairs := (if map_of (ta_pairs ta) i = None then AList.update i (no_arm, no_arm) (ta_pairs ta)
                        else ta_pairs ta)\<rparr>)))"

definition credited_to :: "tally \<Rightarrow> xenv \<Rightarrow> arm_key option" where
  "credited_to ta env =
     (case map_of (ta_decisions ta) (xe_Decision env) of
        Some key \<Rightarrow> Some key
      | None \<Rightarrow> if xe_Execution env \<noteq> [] then map_of (ta_executions ta) (xe_Execution env) else None)"

definition credit_step :: "tally \<Rightarrow> (string \<times> (arm \<times> arm)) list \<Rightarrow> xenv \<Rightarrow> (string \<times> (arm \<times> arm)) list" where
  "credit_step ta pairs env =
     (case credited_to ta env of
        None \<Rightarrow> pairs
      | Some (i, variant) \<Rightarrow>
          AList.map_entry i (\<lambda>(b, v). if variant then (b, credit_arm env v) else (credit_arm env b, v)) pairs)"

text \<open>A metric of both arms.\<close>

definition pair_metrics :: "arm \<Rightarrow> arm \<Rightarrow> string \<Rightarrow> (f64 \<times> f64) option" where
  "pair_metrics b v metric =
     (case (arm_value b metric, arm_value v metric) of (Some x, Some y) \<Rightarrow> Some (x, y) | _ \<Rightarrow> None)"

definition resource_change :: "(f64 \<times> f64) option \<Rightarrow> f64" where
  "resource_change m =
     (case m of
        None \<Rightarrow> Fin 0
      | Some (b, v) \<Rightarrow>
          if f_lt (Fin 0) b then f_div (f_mul (Fin 100) (f_sub b v)) b else if f_lt (Fin 0) v then Fin (- 100) else Fin 0)"

definition pair_judged :: "string \<Rightarrow> string \<Rightarrow> string \<times> (arm \<times> arm) \<Rightarrow> pair_evidence option" where
  "pair_judged objective fingerprint p =
     (case snd p of (b, v) \<Rightarrow>
        if ar_outcomes b = [] \<or> ar_outcomes v = [] then None
        else Some \<lparr>pp_Baseline = Resolve (ar_outcomes b), pp_Variant = Resolve (ar_outcomes v),
               pp_ResourceChangePct = resource_change (pair_metrics b v objective), pp_Metrics = pair_metrics b v,
               pp_At = (if After (ar_at v) (ar_at b) then ar_at v else ar_at b), pp_Fingerprint = fingerprint\<rparr>)"

definition joined_pairs :: "xenv list \<Rightarrow> (string \<times> (arm \<times> arm)) list" where
  "joined_pairs events = (let ta = foldl enroll_step no_tally events in foldl (credit_step ta) (ta_pairs ta) events)"

definition route_history :: "xenv list \<Rightarrow> string \<Rightarrow> gotime \<Rightarrow> route_evidence" where
  "route_history events fingerprint now =
     (let ta = foldl enroll_step no_tally events
      in \<lparr>re_Eligible = int (length (ta_eligible ta)),
          re_Pairs = List.map_filter (pair_judged (ta_objective ta) fingerprint) (joined_pairs events),
          re_Fingerprint = fingerprint, re_ObjectiveMetric = ta_objective ta, re_MinImprovementPct = ta_improvement ta,
          re_Guardrails = ta_guardrails ta, re_Now = now, re_Window = 0\<rparr>)"

definition Routing :: "gotime \<Rightarrow> xenv list \<Rightarrow> string \<Rightarrow> gotime \<Rightarrow> belief" where
  "Routing wall events fingerprint now = Evaluate_route wall (route_history events fingerprint now)"

subsection \<open>Finding the belief of a route\<close>

text \<open>The history of the trials of a path that share the newest one's policy; none where no trial is of the path.\<close>

fun gather :: "string \<Rightarrow> string option \<Rightarrow> xenv list \<Rightarrow> trial list \<Rightarrow> (xworld, xenv list option) io" where
  "gather fingerprint found history [] = ret (map_option (\<lambda>_. history) found)"
| "gather fingerprint found history (s # ss) =
     (let t = tr_Terms s
      in if tt_Fingerprint t \<noteq> fingerprint then gather fingerprint found history ss
         else let candidate = UtilityPolicyFingerprint (tt_ObjectiveMetric t) (tt_MinImprovementPct t) (tt_Guardrails t)
              in if found \<noteq> None \<and> found \<noteq> Some candidate then gather fingerprint found history ss
                 else io_bind (Events True (tr_ID s)) (\<lambda>es. gather fingerprint (Some candidate) (history @ es) ss))"

definition latest_end_first :: "trial list \<Rightarrow> trial list" where
  "latest_end_first = sort_key (\<lambda>s. - t_ns (tt_EndsAt (tr_Terms s)))"

definition FindRouting :: "gotime \<Rightarrow> string \<Rightarrow> gotime \<Rightarrow> (xworld, belief option) io" where
  "FindRouting wall fingerprint now =
     (if fingerprint = [] then ret None
      else io_bind (States True now) (\<lambda>states. io_bind (gather fingerprint None [] (latest_end_first states)) (\<lambda>h.
        ret (map_option (\<lambda>history. Routing wall history fingerprint now) h))))"

subsection \<open>The strongest assessment decides\<close>

definition outcome_of :: "xenv \<Rightarrow> outcome_event option" where
  "outcome_of env = (case xe_Payload env of XOutcome out \<Rightarrow> Some out | _ \<Rightarrow> None)"

abbreviation weight :: "outcome_event \<Rightarrow> nat" where
  "weight out \<equiv> strength (oo_Assessment out)"

definition outs :: "xenv list \<Rightarrow> outcome_event list" where
  "outs events = List.map_filter outcome_of events"

lemma outs_simps [simp]:
  "outs [] = []"
  "outs (e # es) = (case outcome_of e of None \<Rightarrow> [] | Some out \<Rightarrow> [out]) @ outs es"
  by (auto simp: outs_def List.map_filter_simps split: option.split)

lemma resolve_step_outcome:
  "resolve_step acc env =
    (case outcome_of env of
       None \<Rightarrow> acc
     | Some out \<Rightarrow> if fst acc < weight out then (weight out, [out])
         else if weight out = fst acc then (weight out, snd acc @ [out]) else acc)"
  by (cases acc) (auto simp: resolve_step_def outcome_of_def Let_def split: xpayload.split)

lemma resolve_fold:
  assumes "foldl resolve_step (n, sel) es = (m, sel')"
  shows "n \<le> m \<and> (\<forall>out\<in>set (outs es). weight out \<le> m) \<and>
    sel' = (if n = m then sel else []) @ filter (\<lambda>out. weight out = m) (outs es)"
  using assms
proof (induction es arbitrary: n sel)
  case (Cons e es)
  show ?case
  proof (cases "outcome_of e")
    case None
    then show ?thesis using Cons by (simp add: resolve_step_outcome)
  next
    case (Some out)
    have step: "resolve_step (n, sel) e =
        (if n < weight out then (weight out, [out]) else if weight out = n then (n, sel @ [out]) else (n, sel))"
      using Some by (simp add: resolve_step_outcome)
    obtain n1 sel1 where n1: "resolve_step (n, sel) e = (n1, sel1)" by fastforce
    then have "foldl resolve_step (n1, sel1) es = (m, sel')" using Cons.prems by simp
    from Cons.IH [OF this] n1 [unfolded step] Some show ?thesis by (auto split: if_splits)
  qed
qed simp

lemma Resolve_strongest:
  "\<exists>m. (\<forall>out\<in>set (outs es). weight out \<le> m) \<and> Resolve es = agreed (filter (\<lambda>out. weight out = m) (outs es))"
proof -
  obtain m sel where f: "foldl resolve_step (0, []) es = (m, sel)" by fastforce
  from resolve_fold [OF this] f show ?thesis by (auto simp: Resolve_def)
qed

lemma agreed_cases:
  "agreed sel = unassessed \<and> sel = [] \<or>
   (\<exists>out\<in>set sel. agreed sel = out \<and> (\<forall>other\<in>set sel. oo_Result other = oo_Result out)) \<or>
   (\<exists>out\<in>set sel. oo_Result (agreed sel) = OutcomePartial \<and> oo_Assessment (agreed sel) = oo_Assessment out)"
proof (cases sel rule: rev_cases)
  case (snoc ys y)
  then show ?thesis by (auto simp: agreed_def)
qed (simp add: agreed_def)

text \<open>
  C21: An execution is taken for achieved only where the best witnesses agree. What \<open>Resolve\<close> calls
  achieved is one of the recorded outcomes, none is assessed more strongly (a person's outweighs a
  verifier's, which outweighs the agent's own), and every outcome assessed as strongly says achieved as well.
\<close>

theorem achieved_is_unanimous:
  assumes "oo_Result (Resolve es) = OutcomeAchieved"
  shows "\<exists>out\<in>set (outs es). Resolve es = out \<and>
    (\<forall>other\<in>set (outs es). strength (oo_Assessment other) \<le> strength (oo_Assessment out) \<and>
      (strength (oo_Assessment other) = strength (oo_Assessment out) \<longrightarrow> oo_Result other = OutcomeAchieved))"
proof -
  obtain m where m: "\<forall>out\<in>set (outs es). weight out \<le> m" and r: "Resolve es = agreed (filter (\<lambda>out. weight out = m) (outs es))"
    using Resolve_strongest by blast
  define sel where "sel = filter (\<lambda>out. weight out = m) (outs es)"
  then have sel: "Resolve es = agreed sel" using r by simp
  from agreed_cases [of sel] obtain out where out: "out \<in> set sel" "Resolve es = out" "\<forall>other\<in>set sel. oo_Result other = oo_Result out"
  proof (elim disjE bexE conjE)
    assume "agreed sel = unassessed"
    with assms sel show thesis by (simp add: unassessed_def outcome_defs)
  next
    fix out assume "oo_Result (agreed sel) = OutcomePartial"
    with assms sel show thesis by (simp add: outcome_defs)
  next
    fix out assume out: "out \<in> set sel" "agreed sel = out" "\<forall>other\<in>set sel. oo_Result other = oo_Result out"
    show thesis by (rule that [OF out(1) trans [OF sel out(2)] out(3)])
  qed
  note out = out [unfolded sel_def]
  have "oo_Result other = OutcomeAchieved" if "other \<in> set (outs es)" "weight other = weight out" for other
  proof -
    have "other \<in> set (filter (\<lambda>out. weight out = m) (outs es))" using out(1) that by simp
    then have "oo_Result other = oo_Result out" using out(3) by blast
    then show ?thesis using assms unfolding out(2) by (rule trans)
  qed
  moreover have "weight other \<le> weight out" if "other \<in> set (outs es)" for other using out(1) m that by simp
  moreover have "out \<in> set (outs es)" using out(1) by simp
  ultimately show ?thesis using out(2) by blast
qed

definition told :: "string \<Rightarrow> string \<Rightarrow> xenv" where
  "told assessment result =
     Event ''e'' zero_time \<lparr>or_ExecutionID = ''run'', or_DecisionID = [], or_InterventionID = [], or_Result = result,
       or_Assessment = assessment, or_Caveat = [], or_At = \<lparr>t_ns = 0, t_off = 0\<rparr>, or_AttentionMinutes = None\<rparr>"

theorem achieved_is_unanimous_witness:
  "oo_Assessment (Resolve [told OutcomeSelfReport OutcomeNotAchieved, told OutcomeVerification OutcomeAchieved]) = OutcomeVerification \<and>
   (\<exists>out\<in>set (outs [told OutcomeSelfReport OutcomeNotAchieved, told OutcomeVerification OutcomeAchieved]).
      oo_Result out = OutcomeAchieved)"
proof -
  let ?es = "[told OutcomeSelfReport OutcomeNotAchieved, told OutcomeVerification OutcomeAchieved]"
  have r: "oo_Result (Resolve ?es) = OutcomeAchieved" "oo_Assessment (Resolve ?es) = OutcomeVerification" by code_simp+
  from achieved_is_unanimous [OF r(1)] have "\<exists>out\<in>set (outs ?es). oo_Result out = OutcomeAchieved" using r(1) by metis
  with r(2) show ?thesis by blast
qed

subsection \<open>The final verifier\<close>

text \<open>What a scan has seen.\<close>

lemma update_mem: "x \<in> set (AList.update k v al) \<Longrightarrow> x = (k, v) \<or> x \<in> set al"
  by (induction al) (auto split: if_splits)

lemma scan_snoc: "scan_tools (es @ [e]) = scan_step (scan_tools es) e"
  by (simp add: scan_tools_def)

lemma scan_uses: "(i, u) \<in> set (ts_uses (scan_tools es)) \<Longrightarrow> u \<in> set es \<and> te_ToolUseID u = i"
proof (induction es rule: rev_induct)
  case (snoc e es)
  then show ?case by (auto simp: scan_snoc scan_step_def split: if_splits dest!: update_mem)
qed (simp add: scan_tools_def)

lemma scan_results: "(i, r) \<in> set (ts_results (scan_tools es)) \<Longrightarrow> r \<in> set es \<and> te_IsResult r \<and> te_ToolUseID r = i"
proof (induction es rule: rev_induct)
  case (snoc e es)
  then show ?case by (auto simp: scan_snoc scan_step_def split: if_splits dest!: update_mem)
qed (simp add: scan_tools_def)

lemma scan_edits:
  "e \<in> set es \<Longrightarrow> \<not> te_IsResult e \<Longrightarrow> isEdit (te_Name e) \<Longrightarrow> t_ns (te_Timestamp e) \<le> t_ns (ts_edit (scan_tools es))"
proof (induction es rule: rev_induct)
  case (snoc x es)
  have "t_ns (ts_edit (scan_tools es)) \<le> t_ns (ts_edit (scan_step (scan_tools es) x))"
    by (simp add: scan_step_def After_def)
  with snoc show ?case by (auto simp: scan_snoc scan_step_def After_def split: if_splits)
qed simp

lemma last_sorted: "c \<in> set cs \<Longrightarrow> f c \<le> f (last (sort_key f cs))" for f :: "'a \<Rightarrow> int"
proof -
  assume c: "c \<in> set cs"
  then have ne: "sort_key f cs \<noteq> []" by (metis set_empty set_sort empty_iff)
  have "c \<in> set (sort_key f cs)" using c by simp
  then obtain k where k: "k < length (sort_key f cs)" "sort_key f cs ! k = c" unfolding in_set_conv_nth by blast
  have "sorted (map f (sort_key f cs))" by simp
  then have "map f (sort_key f cs) ! k \<le> map f (sort_key f cs) ! (length (sort_key f cs) - 1)"
    using k(1) by (intro sorted_nth_mono) auto
  then show ?thesis using k ne by (simp add: last_conv_nth)
qed

text \<open>
  C22: A transcript is read as verified only by a verifier that ended after the last edit. Where
  \<open>FromToolEvents\<close> reports an outcome, a test, vet or lint command it knows was run and ended no earlier
  than any edit was made, no such command ended later, and the outcome is achieved exactly when that one ended without an error.
\<close>

theorem verified_after_last_edit:
  assumes "FromToolEvents uid wall execution decision events = Some env" and "outcome_of env = Some out"
  shows "\<exists>u r. u \<in> set events \<and> r \<in> set events \<and> isVerifier u \<and> te_IsResult r \<and> te_ToolUseID r = te_ToolUseID u \<and>
    (\<forall>e\<in>set events. \<not> te_IsResult e \<longrightarrow> isEdit (te_Name e) \<longrightarrow> \<not> Before (te_Timestamp r) (te_Timestamp e)) \<and>
    (\<forall>(u', r')\<in>set (completed_verifiers events). \<not> After (te_Timestamp r') (te_Timestamp r)) \<and>
    oo_Result out = (if te_IsError r then OutcomeNotAchieved else OutcomeAchieved)"
proof -
  let ?s = "scan_tools events" and ?cs = "completed_verifiers events"
  let ?c = "last ?cs"
  have ne: "?cs \<noteq> []" using assms(1) by (auto simp: FromToolEvents_def split: list.splits)
  then have mem: "?c \<in> set ?cs" by simp
  have "set ?cs = {c. \<exists>iu\<in>set (ts_uses ?s). completed ?s iu = Some c}"
    by (force simp: completed_verifiers_def List.map_filter_def)
  with mem obtain i u where iu: "(i, u) \<in> set (ts_uses ?s)" "completed ?s (i, u) = Some ?c" by auto
  then obtain r where r: "map_of (ts_results ?s) i = Some r" "isVerifier u" "\<not> Before (te_Timestamp r) (ts_edit ?s)" "(u, r) = ?c"
    by (auto simp: completed_def split: option.splits if_splits)
  note c = r(4) [symmetric] iu(1) r(1-3)
  have u: "u \<in> set events" "te_ToolUseID u = i" using scan_uses [OF c(2)] by auto
  have r: "r \<in> set events" "te_IsResult r" "te_ToolUseID r = i" using scan_results [OF map_of_SomeD [OF c(3)]] by auto
  have edits: "\<forall>e\<in>set events. \<not> te_IsResult e \<longrightarrow> isEdit (te_Name e) \<longrightarrow> \<not> Before (te_Timestamp r) (te_Timestamp e)"
    using scan_edits c(5) by (force simp: Before_def)
  have latest: "\<forall>(u', r')\<in>set ?cs. \<not> After (te_Timestamp r') (te_Timestamp r)"
  proof
    fix d assume "d \<in> set ?cs"
    then have "t_ns (te_Timestamp (snd d)) \<le> t_ns (te_Timestamp (snd ?c))"
      unfolding completed_verifiers_def set_sort by (intro last_sorted)
    then show "case d of (u', r') \<Rightarrow> \<not> After (te_Timestamp r') (te_Timestamp r)"
      using c(1) by (auto simp: After_def)
  qed
  have "oo_Result out = (if te_IsError r then OutcomeNotAchieved else OutcomeAchieved)"
    using assms c(1) ne by (auto simp: FromToolEvents_def Event_def outcome_of_def Let_def split: list.splits)
  then show ?thesis using u r edits latest c(4) by blast
qed

text \<open>Tests that failed, an edit, and tests that passed.\<close>

definition demo_tools :: "tool_event list" where
  "demo_tools =
     (let use = (\<lambda>t i n c. \<lparr>te_Timestamp = \<lparr>t_ns = t, t_off = 0\<rparr>, te_SessionID = [], te_IsResult = False, te_ToolUseID = i, te_Name = n,
            te_RawCommand = c, te_IsError = False\<rparr>);
          res = (\<lambda>t i e. \<lparr>te_Timestamp = \<lparr>t_ns = t, t_off = 0\<rparr>, te_SessionID = [], te_IsResult = True, te_ToolUseID = i, te_Name = [],
            te_RawCommand = [], te_IsError = e\<rparr>)
      in [use 1 ''a'' ''Bash'' ''go test ./...'', res 2 ''a'' True, use 3 ''b'' ''Edit'' [], res 4 ''b'' False,
          use 5 ''c'' ''Bash'' '' go vet ./... && go test ./...'', res 6 ''c'' False])"

theorem verified_after_last_edit_witness:
  "\<exists>u r. u \<in> set demo_tools \<and> r \<in> set demo_tools \<and> isVerifier u \<and> \<not> te_IsError r"
proof -
  let ?out = "\<lparr>oo_Result = OutcomeAchieved, oo_Assessment = OutcomeVerification,
    oo_Caveat = ''the final verifier after the last edit passed; this establishes only the verifier's scope'', oo_Metrics = []\<rparr>"
  have r: "map_option outcome_of (FromToolEvents ''e'' zero_time ''run'' [] demo_tools) = Some (Some ?out)" by code_simp
  then obtain env where "FromToolEvents ''e'' zero_time ''run'' [] demo_tools = Some env" "outcome_of env = Some ?out" by auto
  from verified_after_last_edit [OF this] show ?thesis by (auto simp: outcome_defs split: if_splits)
qed

subsection \<open>What a completed pair rests on\<close>

definition judged :: "xenv \<Rightarrow> bool" where
  "judged env \<longleftrightarrow>
     (case outcome_of env of
        None \<Rightarrow> False
      | Some out \<Rightarrow> oo_Assessment out = OutcomeVerification \<or> oo_Assessment out = OutcomeHuman)"

abbreviation judgements :: "arm \<Rightarrow> nat" where
  "judgements a \<equiv> length (filter judged (ar_outcomes a))"

lemma arm_add_outcomes [simp]: "ar_outcomes (arm_add m v a) = ar_outcomes a"
  by (simp add: arm_add_def split_beta)

lemma prompt_metrics_outcomes [simp]: "ar_outcomes (prompt_metrics p a) = ar_outcomes a"
  by (simp add: prompt_metrics_def Let_def)

lemma attention_outcomes [simp]:
  "ar_outcomes (foldl (\<lambda>a m. if own_attention m then arm_add x (om_Value m) a else a) a ms) = ar_outcomes a"
  by (induction ms arbitrary: a) auto

lemma credit_arm_outcomes: "ar_outcomes (credit_arm env a) = ar_outcomes a @ (if outcome_of env = None then [] else [env])"
  by (auto simp: credit_arm_def outcome_of_def Let_def split: xpayload.split)

definition pair_judgements :: "(string \<times> (arm \<times> arm)) list \<Rightarrow> nat" where
  "pair_judgements ps = sum_list (map (\<lambda>(i, b, v). judgements b + judgements v) ps)"

lemma pair_judgements_simps [simp]:
  "pair_judgements [] = 0"
  "pair_judgements ((i, b, v) # ps) = judgements b + judgements v + pair_judgements ps"
  by (simp_all add: pair_judgements_def)

lemma credit_judgements: "judgements (credit_arm env a) = judgements a + (if judged env then 1 else 0)"
  by (simp add: credit_arm_outcomes judged_def)

lemma credit_step_judgements: "pair_judgements (credit_step ta ps env) \<le> pair_judgements ps + (if judged env then 1 else 0)"
proof (cases "credited_to ta env")
  case (Some iv)
  obtain i variant where iv: "iv = (i, variant)" by fastforce
  have "pair_judgements (AList.map_entry i (\<lambda>(b, v). if variant then (b, credit_arm env v) else (credit_arm env b, v)) ps)
      \<le> pair_judgements ps + (if judged env then 1 else 0)"
    by (induction ps) (auto simp: credit_judgements)
  then show ?thesis using Some iv by (simp add: credit_step_def)
qed (simp add: credit_step_def)

lemma credit_fold_judgements:
  "pair_judgements (foldl (credit_step ta) ps events) \<le> pair_judgements ps + length (filter judged events)"
proof (induction events arbitrary: ps)
  case (Cons e events)
  from Cons [of "credit_step ta ps e"] credit_step_judgements [of ta ps e] show ?case by (auto split: if_splits)
qed simp

lemma enrolled_empty: "\<forall>p\<in>set (ta_pairs ta). snd p = (no_arm, no_arm) \<Longrightarrow>
  \<forall>p\<in>set (ta_pairs (foldl enroll_step ta events)). snd p = (no_arm, no_arm)"
proof (induction events arbitrary: ta)
  case (Cons e events)
  have "\<forall>p\<in>set (ta_pairs (enroll_step ta e)). snd p = (no_arm, no_arm)"
    using Cons.prems by (auto simp: enroll_step_def Let_def split: xpayload.splits option.splits if_splits dest!: update_mem)
  then show ?case using Cons.IH by simp
qed simp

lemma no_judgements: "\<forall>p\<in>set ps. snd p = (no_arm, no_arm) \<Longrightarrow> pair_judgements ps = 0"
  by (induction ps) (auto simp: no_arm_def)

lemma strong_judged: "strong (Resolve es) \<Longrightarrow> 1 \<le> length (filter judged es)"
proof -
  assume strong: "strong (Resolve es)"
  obtain m where r: "Resolve es = agreed (filter (\<lambda>out. weight out = m) (outs es))"
    using Resolve_strongest by blast
  from agreed_cases [of "filter (\<lambda>out. weight out = m) (outs es)"] strong
  obtain out where "out \<in> set (outs es)" "oo_Assessment out = oo_Assessment (Resolve es)"
    unfolding r [symmetric] by (auto simp: strong_def unassessed_def outcome_defs)
  then obtain e where "e \<in> set es" "outcome_of e = Some out" by (auto simp: outs_def List.map_filter_def)
  with strong \<open>oo_Assessment out = _\<close> have "e \<in> set (filter judged es)" by (auto simp: judged_def strong_def)
  then show ?thesis by (cases "filter judged es") auto
qed

lemma fresh_judgements:
  "2 * length (filter (fresh_pair wall e) (List.map_filter (pair_judged objective fp) ps)) \<le> pair_judgements ps"
proof (induction ps)
  case (Cons p ps)
  obtain i b v where p: "p = (i, b, v)" by (cases p) auto
  show ?case
  proof (cases "pair_judged objective fp p")
    case None
    then show ?thesis using Cons p by (simp add: List.map_filter_simps)
  next
    case (Some pe)
    then have pe: "pp_Baseline pe = Resolve (ar_outcomes b)" "pp_Variant pe = Resolve (ar_outcomes v)"
      by (auto simp: p pair_judged_def split: if_splits)
    have "2 \<le> judgements b + judgements v" if "fresh_pair wall e pe"
    proof -
      have "strong (Resolve (ar_outcomes b))" "strong (Resolve (ar_outcomes v))" using that by (simp_all add: fresh_pair_def pe)
      then show ?thesis using strong_judged [of "ar_outcomes b"] strong_judged [of "ar_outcomes v"] by linarith
    qed
    then show ?thesis using Cons p Some by (auto simp: List.map_filter_simps)
  qed
qed (simp add: List.map_filter_simps)

lemma gates_completed [simp]: "bf_CompletedPairs (gates e b) = bf_CompletedPairs b"
  by (simp add: gates_def Let_def)

lemma Routing_completed:
  "bf_CompletedPairs (Routing wall events fp now) =
    int (length (filter (fresh_pair wall (route_history events fp now)) (re_Pairs (route_history events fp now))))"
  by (simp add: Routing_def Evaluate_route_def counted_def)

text \<open>
  C20: Each completed pair of a route's evidence has two judgements of its own. Whatever events a history
  holds, in whatever order, the outcomes in it that a person or a verifier judged are at least twice its
  completed pairs: no outcome is counted for two arms, and none of the agent's own counts. A route that is trusted, which takes
  twenty pairs, was judged forty times.
\<close>

theorem pairs_judged_twice:
  "2 * bf_CompletedPairs (Routing wall events fp now) \<le> int (length (filter judged events))"
proof -
  let ?ta = "foldl enroll_step no_tally events"
  have "pair_judgements (ta_pairs ?ta) = 0"
    by (rule no_judgements, rule enrolled_empty) (simp add: no_tally_def)
  then have "pair_judgements (joined_pairs events) \<le> length (filter judged events)"
    using credit_fold_judgements [of ?ta "ta_pairs ?ta" events] by (simp add: joined_pairs_def Let_def)
  then have "2 * length (filter (fresh_pair wall (route_history events fp now)) (re_Pairs (route_history events fp now)))
      \<le> length (filter judged events)"
    using fresh_judgements [of wall "route_history events fp now" "ta_objective ?ta" fp "joined_pairs events"]
    by (simp add: route_history_def Let_def)
  then show ?thesis unfolding Routing_completed by linarith
qed

subsection \<open>Pairs and trials\<close>

lemma credit_keys [simp]: "map fst (credit_step ta ps env) = map fst ps"
proof (cases "credited_to ta env")
  case (Some iv)
  have "map fst (AList.map_entry i f ps) = map fst ps" for i f by (induction ps) auto
  with Some show ?thesis by (cases iv) (simp add: credit_step_def)
qed (simp add: credit_step_def)

lemma credit_fold_keys [simp]: "map fst (foldl (credit_step ta) ps events) = map fst ps"
  by (induction events arbitrary: ps) auto

definition enrolments :: "xenv list \<Rightarrow> (string \<times> int) set" where
  "enrolments events = {(xe_Experiment env, n) | env n. env \<in> set events \<and> enrolled_pair env = Some n}"

lemma finite_enrolments: "finite (enrolments events)"
proof -
  have "enrolments events \<subseteq> (\<lambda>env. (xe_Experiment env, the (enrolled_pair env))) ` set events"
    by (force simp: enrolments_def)
  then show ?thesis by (rule finite_subset) simp
qed

lemma enroll_keys:
  "distinct (map fst (ta_pairs (foldl enroll_step no_tally events))) \<and>
   fst ` set (ta_pairs (foldl enroll_step no_tally events)) \<subseteq> (\<lambda>(i, n). pair_id i n) ` enrolments events"
proof (induction events rule: rev_induct)
  case (snoc e events)
  let ?ta = "foldl enroll_step no_tally events"
  have mono: "(\<lambda>(i, n). pair_id i n) ` enrolments events \<subseteq> (\<lambda>(i, n). pair_id i n) ` enrolments (events @ [e])"
    by (force simp: enrolments_def)
  show ?case
  proof (cases "enrolled_pair e")
    case None
    then have same: "ta_pairs (enroll_step ?ta e) = ta_pairs ?ta" by (auto simp: enroll_step_def split: xpayload.split)
    show ?thesis unfolding foldl_append foldl.simps same using snoc mono by (meson subset_trans)
  next
    case (Some n)
    let ?i = "pair_id (xe_Experiment e) n"
    from Some have step: "ta_pairs (enroll_step ?ta e) =
        (if map_of (ta_pairs ?ta) ?i = None then AList.update ?i (no_arm, no_arm) (ta_pairs ?ta) else ta_pairs ?ta)"
      by (auto simp: enroll_step_def enrolled_pair_def Let_def split: xpayload.splits)
    have mem: "?i \<in> (\<lambda>(i, n). pair_id i n) ` enrolments (events @ [e])" using Some by (force simp: enrolments_def)
    have keys: "fst ` set (ta_pairs (enroll_step ?ta e)) \<subseteq> insert ?i (fst ` set (ta_pairs ?ta))"
      unfolding step by (auto simp: dom_update)
    have d: "distinct (map fst (ta_pairs (enroll_step ?ta e)))"
      using snoc unfolding step by (simp add: distinct_update)
    have "insert ?i (fst ` set (ta_pairs ?ta)) \<subseteq> (\<lambda>(i, n). pair_id i n) ` enrolments (events @ [e])"
      using mem subset_trans [OF conjunct2 [OF snoc] mono] by (rule insert_subsetI)
    from conjI [OF d subset_trans [OF keys this]] show ?thesis unfolding foldl_append foldl.simps .
  qed
qed (simp add: no_tally_def)

lemma completed_enrolments: "bf_CompletedPairs (Routing wall events fp now) \<le> int (card (enrolments events))"
proof -
  let ?ta = "foldl enroll_step no_tally events" and ?h = "route_history events fp now"
  have "length (filter (fresh_pair wall ?h) (re_Pairs ?h)) \<le> length (re_Pairs ?h)" by simp
  also have "\<dots> \<le> length (joined_pairs events)"
    by (simp add: route_history_def Let_def List.map_filter_def)
  also have "\<dots> = length (map fst (ta_pairs ?ta))"
    by (metis credit_fold_keys joined_pairs_def length_map)
  also have "\<dots> = card (fst ` set (ta_pairs ?ta))" using enroll_keys distinct_card by (metis set_map)
  also have "\<dots> \<le> card ((\<lambda>(i, n). pair_id i n) ` enrolments events)"
    using enroll_keys by (intro card_mono) (auto simp: finite_enrolments)
  also have "\<dots> \<le> card (enrolments events)" by (rule card_image_le) (rule finite_enrolments)
  finally show ?thesis unfolding Routing_completed by simp
qed

lemma gather_history:
  assumes "gather fp found hist ss w = (Inr (Some h), w')" and "e \<in> set h"
  shows "e \<in> set hist \<or> (\<exists>s\<in>set ss. tt_Fingerprint (tr_Terms s) = fp \<and> e \<in> set (stored_events (tr_ID s) (xw_ledger w)))"
  using assms
proof (induction ss arbitrary: found hist w)
  case Nil
  then show ?case by (cases found) (auto simp: ret_def)
next
  case (Cons s ss)
  let ?t = "tr_Terms s"
  let ?c = "UtilityPolicyFingerprint (tt_ObjectiveMetric ?t) (tt_MinImprovementPct ?t) (tt_Guardrails ?t)"
  show ?case
  proof (cases "tt_Fingerprint ?t \<noteq> fp \<or> found \<noteq> None \<and> found \<noteq> Some ?c")
    case True
    then have "gather fp found hist (s # ss) = gather fp found hist ss" by (auto simp: Let_def)
    then have "gather fp found hist ss w = (Inr (Some h), w')" using Cons.prems(1) by simp
    from Cons.IH [OF this Cons.prems(2)] show ?thesis by auto
  next
    case False
    obtain r v where r: "ExperimentEvents (tr_ID s) w = (r, v)" by fastforce
    note l = io_steps(1) [OF r]
    from False have "gather fp found hist (s # ss) = io_bind (Events True (tr_ID s)) (\<lambda>es. gather fp (Some ?c) (hist @ es) ss)"
      by (auto simp: Let_def)
    with Cons.prems(1) obtain es where "r = Inr es" and g: "gather fp (Some ?c) (hist @ es) ss v = (Inr (Some h), w')"
      by (cases r) (auto simp: Events_def io_bind_def r)
    then have es: "es = stored_events (tr_ID s) (xw_ledger w)" "xw_ledger v = xw_ledger w" using l by auto
    from Cons.IH [OF g Cons.prems(2)] es False show ?thesis by auto
  qed
qed

lemma stored_mem: "e \<in> set (stored_events i L) \<Longrightarrow> e \<in> set L \<and> (i \<noteq> [] \<longrightarrow> xe_Experiment e = i)"
  by (auto simp: stored_events_def Let_def dest!: in_set_dropD split: if_splits)

text \<open>The trials of an execution path.\<close>

definition path_trials :: "string \<Rightarrow> xenv list \<Rightarrow> string set" where
  "path_trials fp L = {i. \<exists>p\<in>set (arms i L). tt_Fingerprint (xp_Terms p) = fp}"

lemma finite_path_trials: "finite (path_trials fp L)"
proof -
  have "path_trials fp L \<subseteq> xe_Experiment ` set L"
    by (force simp: path_trials_def arms_def xev_def List.map_filter_def own_event_def split: if_splits)
  then show ?thesis by (rule finite_subset) simp
qed

lemma pair_bounds:
  assumes "trial_ledger L" and "p \<in> set (arms i L)"
  shows "xp_Pair p \<in> {1..10}"
proof -
  have "xev i L \<noteq> []" using assms(2) by (auto simp: arms_def)
  with trial_ledger_ok [OF assms(1)] obtain t where t: "trial_ok i t L" by (auto simp: ledger_ok_def)
  obtain k where k: "k < length (arms i L)" "p = arms i L ! k" using assms(2) by (auto simp: in_set_conv_nth)
  have "int (length (arms i L)) \<le> 20" using t unfolding trial_ok_def terms_ok_def by linarith
  moreover have "xp_Pair p = int k div 2 + 1" using t k by (auto simp: trial_ok_def arm_ok_def arm_at_def Let_def)
  ultimately show ?thesis using k(1) by auto
qed

lemma States_found:
  assumes "States True now w = (Inr ss, w')" and "s \<in> set ss" and "length (xw_ledger w) \<le> read_limit" and "trial_ledger (xw_ledger w)"
  shows "xw_ledger w' = xw_ledger w \<and> tr_ID s \<noteq> [] \<and> (\<forall>p\<in>set (arms (tr_ID s) (xw_ledger w)). xp_Terms p = tr_Terms s)"
proof -
  let ?L = "xw_ledger w"
  obtain r v where r: "ExperimentEvents [] w = (r, v)" by fastforce
  obtain t u where t: "utcNow now v = (Inr t, u)" using utcNow_runs by blast
  have v: "xw_ledger v = ?L" "xw_ledger u = ?L" using io_steps(1) [OF r] io_steps(2) [OF t] by simp_all
  obtain es where es: "r = Inr es" using assms(1) r by (cases r) (auto simp: States_def io_bind_def)
  have "States True now w = (Inr (sort_key (\<lambda>s. - t_ns (tt_EndsAt (tr_Terms s))) (map snd (Fold es t))), u)"
    by (simp add: States_def io_bind_def r es t ret_def)
  with assms(1) have "ss = sort_key (\<lambda>s. - t_ns (tt_EndsAt (tr_Terms s))) (map snd (Fold es t))" "w' = u" by simp_all
  moreover have "es = stored_events [] ?L" using io_steps(1) [OF r] es by blast
  ultimately have ss: "set ss = snd ` set (Fold (stored_events [] ?L) t)" "w' = u" by simp_all
  with assms(2) obtain i where "(i, s) \<in> set (Fold (stored_events [] ?L) t)" by auto
  moreover have "distinct (map fst (Fold (stored_events [] ?L) t))"
    using fold_event_keys [of "[]"] by (simp add: Fold_def case_prod_unfold comp_def)
  ultimately have i: "map_of (Fold (stored_events [] ?L) t) i = Some s" by simp
  then have own: "i \<noteq> []" "xev i ?L \<noteq> []" using Fold_none [OF assms(3), of "[]" i t] by fastforce+
  with trial_ledger_ok [OF assms(4)] obtain tt where tt: "trial_ok i tt ?L" by (auto simp: ledger_ok_def)
  from Fold_trial [OF assms(3) _ tt own(2,1), of "[]" t] i have "tr_ID s = i" "tr_Terms s = tt" by (auto simp: folded_def)
  moreover have "\<forall>p\<in>set (arms i ?L). xp_Terms p = tt" using tt unfolding trial_ok_def arms_def by simp
  ultimately show ?thesis using own(1) v(2) ss(2) by simp
qed

text \<open>The decisions of a ledger carry the pairs of its assignments.\<close>

definition decisions_assigned :: "xenv list \<Rightarrow> bool" where
  "decisions_assigned L \<longleftrightarrow>
     (\<forall>env\<in>set L. \<forall>n. enrolled_pair env = Some n \<longrightarrow> (\<exists>p\<in>set (arms (xe_Experiment env) L). xp_Pair p = n))"

text \<open>
  A route's belief rests on as many trials as its pairs need. On a ledger that the operations wrote
  and whose decisions carry the pairs they were assigned, the belief \<open>FindRouting\<close> reads back
  has at most ten completed pairs for each trial of that execution path, so that no single trial ever makes a route trusted.
\<close>

theorem trust_takes_two_trials:
  assumes "trial_ledger (xw_ledger w)" and "length (xw_ledger w) \<le> read_limit" and "decisions_assigned (xw_ledger w)"
    and "FindRouting wall fp now w = (Inr (Some b), w')"
  shows "bf_CompletedPairs b \<le> 10 * int (card (path_trials fp (xw_ledger w))) \<and>
    (IsTrusted b \<longrightarrow> 2 \<le> card (path_trials fp (xw_ledger w)))"
proof -
  let ?L = "xw_ledger w"
  obtain r v where r: "States True now w = (r, v)" by fastforce
  from assms(4) r obtain ss h where ss: "r = Inr ss" and g: "gather fp None [] (latest_end_first ss) v = (Inr (Some h), w')"
      and b: "b = Routing wall h fp now"
    by (auto simp: FindRouting_def io_bind_def ret_def split: if_splits sum.splits prod.splits)
  have "enrolments h \<subseteq> path_trials fp ?L \<times> {1..10}"
  proof
    fix x assume "x \<in> enrolments h"
    then obtain e n where e: "x = (xe_Experiment e, n)" "e \<in> set h" "enrolled_pair e = Some n" by (auto simp: enrolments_def)
    from gather_history [OF g e(2)] obtain s where s: "s \<in> set ss" "tt_Fingerprint (tr_Terms s) = fp"
        "e \<in> set (stored_events (tr_ID s) (xw_ledger v))" by (auto simp: latest_end_first_def)
    note f = States_found [OF r [unfolded ss] s(1) assms(2,1)]
    with stored_mem [OF s(3)] have "e \<in> set ?L" "xe_Experiment e = tr_ID s" by auto
    with assms(3) e(3) obtain p where "p \<in> set (arms (tr_ID s) ?L)" "xp_Pair p = n" by (metis decisions_assigned_def)
    then show "x \<in> path_trials fp ?L \<times> {1..10}"
      using f s(2) e(1) pair_bounds [OF assms(1)] \<open>xe_Experiment e = tr_ID s\<close> by (auto simp: path_trials_def)
  qed
  then have "card (enrolments h) \<le> card (path_trials fp ?L \<times> {1..10 :: int})"
    by (intro card_mono) (simp_all add: finite_path_trials)
  then have c: "bf_CompletedPairs b \<le> 10 * int (card (path_trials fp ?L))"
    using completed_enrolments [of wall h fp now] b by (simp add: card_cartesian_product)
  moreover have "20 \<le> bf_CompletedPairs b" if "IsTrusted b"
    using that gates_trusted by (auto simp: IsTrusted_def b Routing_def Evaluate_route_def)
  ultimately show ?thesis by linarith
qed

text \<open>On a ledger that can be read a belief is found where there is a trial of the path.\<close>

lemma reads_work:
  assumes "xw_read_error w = (\<lambda>_. None)"
  shows "\<exists>v. ExperimentEvents i w = (Inr (stored_events i (xw_ledger w)), v) \<and> xw_read_error v = (\<lambda>_. None)"
  using assms by (simp add: ExperimentEvents_def x_tick_def)

lemma gather_finds:
  assumes "xw_read_error w = (\<lambda>_. None)"
  shows "\<exists>h w'. gather fp found hist ss w = (Inr h, w') \<and>
    (found \<noteq> None \<or> (\<exists>s\<in>set ss. tt_Fingerprint (tr_Terms s) = fp) \<longrightarrow> h \<noteq> None)"
  using assms
proof (induction ss arbitrary: found hist w)
  case Nil
  then show ?case by (simp add: ret_def)
next
  case (Cons s ss)
  let ?t = "tr_Terms s"
  let ?c = "UtilityPolicyFingerprint (tt_ObjectiveMetric ?t) (tt_MinImprovementPct ?t) (tt_Guardrails ?t)"
  show ?case
  proof (cases "tt_Fingerprint ?t \<noteq> fp \<or> found \<noteq> None \<and> found \<noteq> Some ?c")
    case True
    then have "gather fp found hist (s # ss) = gather fp found hist ss" by (auto simp: Let_def)
    with Cons.IH [OF Cons.prems, of found hist] True show ?thesis by auto
  next
    case False
    obtain v where v: "ExperimentEvents (tr_ID s) w = (Inr (stored_events (tr_ID s) (xw_ledger w)), v)"
        "xw_read_error v = (\<lambda>_. None)" using reads_work [OF Cons.prems] by blast
    from False have "gather fp found hist (s # ss) = io_bind (Events True (tr_ID s)) (\<lambda>es. gather fp (Some ?c) (hist @ es) ss)"
      by (auto simp: Let_def)
    then have "gather fp found hist (s # ss) w = gather fp (Some ?c) (hist @ stored_events (tr_ID s) (xw_ledger w)) ss v"
      by (simp add: Events_def io_bind_def v)
    with Cons.IH [OF v(2), of "Some ?c" "hist @ stored_events (tr_ID s) (xw_ledger w)"] show ?thesis by auto
  qed
qed

lemma FindRouting_finds:
  assumes "xw_read_error w = (\<lambda>_. None)" and "trial_ledger (xw_ledger w)" and "length (xw_ledger w) \<le> read_limit"
    and "p \<in> set (xev i (xw_ledger w))" and "tt_Fingerprint (xp_Terms p) = fp" and "fp \<noteq> []"
  shows "\<exists>b w'. FindRouting wall fp now w = (Inr (Some b), w')"
proof -
  let ?L = "xw_ledger w"
  obtain v where v: "ExperimentEvents [] w = (Inr (stored_events [] ?L), v)" "xw_read_error v = (\<lambda>_. None)"
    using reads_work [OF assms(1)] by blast
  obtain t u where t: "utcNow now v = (Inr t, u)" and u: "xw_read_error u = (\<lambda>_. None)"
    using v(2) by (cases "IsZero now") (simp_all add: utcNow_def x_tick_def)
  let ?ss = "sort_key (\<lambda>s. - t_ns (tt_EndsAt (tr_Terms s))) (map snd (Fold (stored_events [] ?L) t))"
  have ss: "States True now w = (Inr ?ss, u)" by (simp add: States_def io_bind_def v t ret_def)
  have own: "xev i ?L \<noteq> []" using assms(4) by auto
  with trial_ledger_ok [OF assms(2)] obtain tt where tt: "trial_ok i tt ?L" and i: "i \<noteq> []"
    unfolding ledger_ok_def by metis
  from Fold_trial [OF assms(3) _ tt own i, of "[]" t] obtain s where s: "map_of (Fold (stored_events [] ?L) t) i = Some s"
      "tr_Terms s = tt" by (auto simp: folded_def)
  have "xp_Terms p = tt" using tt assms(4) unfolding trial_ok_def by blast
  with s assms(5) have "\<exists>s\<in>set (latest_end_first ?ss). tt_Fingerprint (tr_Terms s) = fp"
    by (auto simp: latest_end_first_def dest!: map_of_SomeD) force
  with gather_finds [OF u, of fp None "[]" "latest_end_first ?ss"] obtain h w' where
    "gather fp None [] (latest_end_first ?ss) u = (Inr (Some h), w')" by auto
  then show ?thesis using assms(6) by (simp add: FindRouting_def io_bind_def ss ret_def)
qed

text \<open>The demonstration's trial, with the decision of its one request.\<close>

definition demo_decided :: xenv where
  "demo_decided =
     \<lparr>xe_ID = ''d'', xe_Timestamp = \<lparr>t_ns = 2, t_off = 0\<rparr>, xe_Execution = ''run'', xe_Decision = ''decision:d'',
      xe_Intervention = [], xe_Experiment = ''experiment:u'',
      xe_Attributes = [(''tokenops.experiment.pair'', ''1''), (''tokenops.experiment.arm'', ''variant'')],
      xe_Payload = XDecision
        \<lparr>de_kind = ModelRoute, de_stage = DecisionStageApplied, de_alternatives = [], de_selected = no_option, de_evidence = [],
         de_policy = [], de_authority = [], de_confidence = Fin 1, de_rationale = [], de_executable = True, de_adapter = ''proxy'',
         de_actor = no_actor, de_approval = no_approval\<rparr> ''route''\<rparr>"

lemma demo_decided_pair: "enrolled_pair demo_decided = Some 1"
  by code_simp

theorem trust_takes_two_trials_witness:
  "\<exists>b w'. FindRouting zero_time ''route'' zero_time (demo_xworld [demo_started, demo_armed, demo_decided] 6) = (Inr (Some b), w') \<and>
     bf_CompletedPairs b \<le> 10"
proof -
  let ?L = "[demo_started, demo_armed, demo_decided]"
  let ?w = "demo_xworld ?L 6"
  have l: "xw_ledger ?w = ?L" by (simp add: demo_xworld_def)
  have tl: "trial_ledger ?L" using other_event [OF demo_ledgers(3), of demo_decided] by (simp add: demo_decided_def)
  have n: "length ?L \<le> read_limit" by (simp add: read_limit_def)
  have x: "xev i ?L = (if i = ''experiment:u'' then
      [\<lparr>xp_Stage = XStarted, xp_Kind = ModelRoute, xp_Terms = tr_Terms demo_trial, xp_Assignment = [], xp_Pair = 0, xp_Reason = ''try''\<rparr>,
       assigned_event demo_trial] else [])" for i
  proof -
    have "own_event i demo_started = (if ''experiment:u'' = i then
        Some \<lparr>xp_Stage = XStarted, xp_Kind = ModelRoute, xp_Terms = tr_Terms demo_trial, xp_Assignment = [], xp_Pair = 0,
          xp_Reason = ''try''\<rparr> else None)"
      "own_event i demo_armed = (if ''experiment:u'' = i then Some (assigned_event demo_trial) else None)"
      "own_event i demo_decided = None"
      unfolding demo_started_def demo_armed_def own_event_envelope by (simp_all add: own_event_def demo_decided_def)
    then show ?thesis by simp
  qed
  have a: "arms i ?L = (if i = ''experiment:u'' then [assigned_event demo_trial] else [])" for i
    unfolding arms_def x by (simp add: assigned_event_def Let_def)
  have fp: "tt_Fingerprint (tr_Terms demo_trial) = ''route''" by (simp add: demo_trial_def)
  have p: "xp_Pair (assigned_event demo_trial) = 1" "xp_Terms (assigned_event demo_trial) = tr_Terms demo_trial"
    by (simp_all add: assigned_event_def arm_at_def Let_def) (simp add: demo_trial_def)
  have none: "enrolled_pair demo_started = None" "enrolled_pair demo_armed = None"
    by (simp_all add: enrolled_pair_def demo_started_def demo_armed_def experimentEnvelope_def)
  have d: "decisions_assigned ?L"
    using none demo_decided_pair p(1) by (auto simp: decisions_assigned_def a) (simp add: demo_decided_def)
  have path: "path_trials ''route'' ?L = {''experiment:u''}" using fp p(2) by (auto simp: path_trials_def a)
  have "assigned_event demo_trial \<in> set (xev ''experiment:u'' (xw_ledger ?w))" unfolding l x by simp
  from FindRouting_finds [OF _ _ _ this, of "''route''" zero_time zero_time] obtain b w' where
    f: "FindRouting zero_time ''route'' zero_time ?w = (Inr (Some b), w')"
    using tl n fp p(2) unfolding l by (auto simp: demo_xworld_def)
  from trust_takes_two_trials [OF _ _ _ f] have "bf_CompletedPairs b \<le> 10" unfolding l using tl n d path by simp
  with f show ?thesis by blast
qed

end
