(* ===== verification/ModelPolicy.thy ===== *)
theory ModelPolicy
  imports GoText
begin

text \<open>
  Which models work may be routed to (\<open>internal/contexts/governance/modelpolicy/modelpolicy.go\<close>): the
  allow and deny lists and the glob they are matched by. The matcher's indices are the parts of the
  pattern and the name still to be read, and a star's \<open>star\<close> and \<open>mark\<close> the parts to go back to; a
  rune is a byte here. The lemmas compare it with the glob a recursion on the pattern defines.
\<close>

subsection \<open>The matcher\<close>

function glob_loop :: "string \<Rightarrow> string \<Rightarrow> (string \<times> string) option \<Rightarrow> bool" where
  "glob_loop p s star =
     (if s = [] then dropWhile (\<lambda>c. c = CHR ''*'') p = []
      else if p \<noteq> [] \<and> (hd p = CHR ''?'' \<or> hd p = hd s) then glob_loop (tl p) (tl s) star
      else if p \<noteq> [] \<and> hd p = CHR ''*'' then glob_loop (tl p) s (Some (tl p, s))
      else case star of
             None \<Rightarrow> False
           | Some (rest, mark) \<Rightarrow> glob_loop rest (tl mark) (Some (rest, tl mark)))"
  by pat_completeness auto
termination
proof (relation "measures
    [\<lambda>(p, s, star). max (length p) (case star of None \<Rightarrow> 0 | Some (rest, mark) \<Rightarrow> length rest),
     \<lambda>(p, s, star). case star of None \<Rightarrow> 0 | Some (rest, mark) \<Rightarrow> length mark,
     \<lambda>(p, s, star). length s]", goal_cases)
  case (2 p s star)
  then show ?case by (cases p; cases s) (auto split: option.splits)
next
  case (3 p s star)
  then show ?case by (cases p) (auto split: option.splits)
next
  case (4 p s star a rest mark)
  then show ?case by (cases mark; cases s) auto
qed simp

declare glob_loop.simps [simp del]

definition glob_match :: "string \<Rightarrow> string \<Rightarrow> bool" where
  "glob_match p s = glob_loop p s None"

definition MatchModel :: "string \<Rightarrow> string \<Rightarrow> bool" where
  "MatchModel pattern name = glob_match (to_lower pattern) (to_lower name)"

subsection \<open>The policy\<close>

record model_policy =
  mp_Allow :: "string list"
  mp_Deny :: "string list"

record policy_verdict =
  pv_Permitted :: bool
  pv_Reason :: string

definition firstMatch :: "string list \<Rightarrow> string \<Rightarrow> string \<Rightarrow> string option" where
  "firstMatch patterns provider model =
     find (\<lambda>pat. pat \<noteq> [] \<and> (MatchModel pat model \<or> provider \<noteq> [] \<and> MatchModel pat (provider @ ''/'' @ model))) (map trim_space patterns)"

definition policy_Empty :: "model_policy \<Rightarrow> bool" where
  "policy_Empty p \<longleftrightarrow> mp_Allow p = [] \<and> mp_Deny p = []"

text \<open>The reason quotes the pattern; \<open>quote\<close> is \<open>%q\<close>.\<close>

definition policy_Check :: "(string \<Rightarrow> string) \<Rightarrow> model_policy \<Rightarrow> string \<Rightarrow> string \<Rightarrow> policy_verdict" where
  "policy_Check quote p provider model0 =
     (let model = trim_space model0
      in if model = [] then \<lparr>pv_Permitted = True, pv_Reason = []\<rparr>
         else case firstMatch (mp_Deny p) provider model of
                Some pat \<Rightarrow> \<lparr>pv_Permitted = False, pv_Reason = ''denied by '' @ quote pat\<rparr>
              | None \<Rightarrow>
                  if mp_Allow p = [] then \<lparr>pv_Permitted = True, pv_Reason = []\<rparr>
                  else (case firstMatch (mp_Allow p) provider model of
                          Some pat \<Rightarrow> \<lparr>pv_Permitted = True, pv_Reason = []\<rparr>
                        | None \<Rightarrow> \<lparr>pv_Permitted = False, pv_Reason = ''not on the allow list''\<rparr>))"

definition Permits :: "model_policy \<Rightarrow> string \<Rightarrow> string \<Rightarrow> bool" where
  "Permits p provider model = pv_Permitted (policy_Check (\<lambda>s. s) p provider model)"

definition policy_Filter :: "model_policy \<Rightarrow> string \<Rightarrow> string list \<Rightarrow> string list" where
  "policy_Filter p provider models = (if policy_Empty p then models else filter (Permits p provider) models)"

text \<open>The list and the index of the first pattern that is blank.\<close>

definition policy_Validate :: "model_policy \<Rightarrow> (string \<times> nat) option" where
  "policy_Validate p =
     find (\<lambda>(list, i). trim_space ((if list = ''allow'' then mp_Allow p else mp_Deny p) ! i) = [])
       (map (Pair ''allow'') [0..<length (mp_Allow p)] @ map (Pair ''deny'') [0..<length (mp_Deny p)])"

subsection \<open>The glob a pattern means\<close>

fun glob :: "string \<Rightarrow> string \<Rightarrow> bool" where
  "glob [] s = (s = [])"
| "glob (q # p) s =
     (if q = CHR ''*'' then (\<exists>n\<le>length s. glob p (drop n s))
      else s \<noteq> [] \<and> (q = CHR ''?'' \<or> q = hd s) \<and> glob p (tl s))"

lemma glob_star_drop: "glob (CHR ''*'' # p) (drop k s) \<Longrightarrow> glob (CHR ''*'' # p) s"
proof -
  assume "glob (CHR ''*'' # p) (drop k s)"
  then obtain n where "n \<le> length s - k" "glob p (drop n (drop k s))" by auto
  then have "glob p (drop (min (n + k) (length s)) s)" by (simp add: drop_drop min_def) (metis drop_all nat_le_linear)
  then show ?thesis by (auto intro!: exI [of _ "min (n + k) (length s)"])
qed

lemma glob_stars: "glob p [] \<longleftrightarrow> dropWhile (\<lambda>c. c = CHR ''*'') p = []"
  by (induction p) auto

text \<open>\<open>u\<close> reads \<open>x\<close> character by character.\<close>

definition reads :: "string \<Rightarrow> string \<Rightarrow> bool" where
  "reads u x \<longleftrightarrow> list_all2 (\<lambda>q c. q \<noteq> CHR ''*'' \<and> (q = CHR ''?'' \<or> q = c)) u x"

lemma glob_plain: "CHR ''*'' \<notin> set u \<Longrightarrow> glob (u @ p) s \<Longrightarrow> length u \<le> length s \<and> glob p (drop (length u) s)"
proof (induction u arbitrary: s)
  case (Cons q u)
  then show ?case by (cases s) auto
qed simp

definition again :: "(string \<times> string) option \<Rightarrow> bool" where
  "again star = (case star of None \<Rightarrow> False | Some (rest, mark) \<Rightarrow> \<exists>n. 0 < n \<and> n \<le> length mark \<and> glob rest (drop n mark))"

definition on_track :: "string \<Rightarrow> string \<Rightarrow> (string \<times> string) option \<Rightarrow> bool" where
  "on_track p s star = (case star of None \<Rightarrow> True
     | Some (rest, mark) \<Rightarrow> \<exists>u x. rest = u @ p \<and> mark = x @ s \<and> reads u x)"

lemma reads_length: "reads u x \<Longrightarrow> length u = length x \<and> CHR ''*'' \<notin> set u"
  unfolding reads_def by (induction rule: list_all2_induct) auto

lemma glob_loop_glob:
  "CHR ''*'' \<notin> set s \<Longrightarrow> on_track p s star \<Longrightarrow> (\<And>rest mark. star = Some (rest, mark) \<Longrightarrow> CHR ''*'' \<notin> set mark) \<Longrightarrow>
   glob_loop p s star \<longleftrightarrow> glob p s \<or> again star"
proof (induction p s star rule: glob_loop.induct)
  case (1 p s star)
  show ?case
  proof (cases s)
    case Nil
    have "\<not> again star"
    proof
      assume "again star"
      then obtain rest mark n where n: "star = Some (rest, mark)" "0 < n" "n \<le> length mark" "glob rest (drop n mark)"
        by (auto simp: again_def split: option.splits)
      with 1(5) obtain u x where "rest = u @ p" "mark = x" "reads u x" by (auto simp: on_track_def Nil)
      with n reads_length [of u x] glob_plain [of u p "drop n mark"] show False by auto
    qed
    with Nil show ?thesis by (subst glob_loop.simps) (simp add: glob_stars)
  next
    case (Cons c s')
    show ?thesis
    proof (cases "p \<noteq> [] \<and> (hd p = CHR ''?'' \<or> hd p = hd s)")
      case True
      then obtain q p' where p: "p = q # p'" by (cases p) auto
      have q: "q \<noteq> CHR ''*''" "q = CHR ''?'' \<or> q = c" using True 1(4) p Cons by auto
      have "on_track p' s' star"
      proof (cases star)
        case (Some rm)
        obtain rest mark where rm: "rm = (rest, mark)" by (cases rm)
        with 1(5) Some p Cons obtain u x where "rest = u @ q # p'" "mark = x @ c # s'" "reads u x" by (auto simp: on_track_def)
        with q have "rest = (u @ [q]) @ p' \<and> mark = (x @ [c]) @ s' \<and> reads (u @ [q]) (x @ [c])"
          by (auto simp: reads_def intro: list_all2_appendI)
        then show ?thesis using Some rm unfolding on_track_def by auto
      qed (simp add: on_track_def)
      with 1(1) 1(4,6) True p Cons have "glob_loop p' s' star \<longleftrightarrow> glob p' s' \<or> again star" by auto
      then show ?thesis using True p Cons q by (subst glob_loop.simps) simp
    next
      case no: False
      show ?thesis
      proof (cases "p \<noteq> [] \<and> hd p = CHR ''*''")
        case True
        then obtain p' where p: "p = CHR ''*'' # p'" by (cases p) auto
        have "on_track p' s (Some (p', s))"
          unfolding on_track_def by (auto simp: reads_def intro!: exI [of _ "[]"])
        with 1(2) 1(4) no True p Cons have "glob_loop p' s (Some (p', s)) \<longleftrightarrow> glob p' s \<or> again (Some (p', s))" by auto
        also have "\<dots> \<longleftrightarrow> glob p s"
          by (auto simp: p again_def) (metis drop0 gr0I)
        finally have loop: "glob_loop p s star \<longleftrightarrow> glob p s" using no True p Cons by (subst glob_loop.simps) auto
        have "glob p s" if ag: "again star"
        proof -
          obtain rest mark n where n: "star = Some (rest, mark)" "0 < n" "n \<le> length mark" "glob rest (drop n mark)"
            using ag by (auto simp: again_def split: option.splits)
          with 1(5) obtain u x where ux: "rest = u @ p" "mark = x @ s" "reads u x" by (auto simp: on_track_def)
          with n reads_length [of u x] glob_plain [of u p "drop n mark"]
          have "glob p (drop (length u) (drop n mark))" by auto
          moreover have "drop (length u) (drop n mark) = drop n s"
          proof -
            have "drop (length u) (drop n mark) = drop n (drop (length x) mark)"
              using reads_length [OF ux(3)] by (simp only: drop_drop add.commute)
            also have "\<dots> = drop n s" by (simp add: ux(2))
            finally show ?thesis .
          qed
          ultimately have "glob p (drop n s)" by simp
          then show ?thesis unfolding p by (rule glob_star_drop)
        qed
        with loop show ?thesis by blast
      next
        case False
        have ng: "\<not> glob p s" using no False Cons by (cases p) auto
        show ?thesis
        proof (cases star)
          case None
          with ng no False Cons show ?thesis by (subst glob_loop.simps) (auto simp: again_def)
        next
          case (Some rm)
          obtain rest mark where rm: "rm = (rest, mark)" by (cases rm)
          with 1(5) Some obtain u x where ux: "mark = x @ s" by (auto simp: on_track_def)
          then obtain m ms where mark: "mark = m # ms" using Cons by (cases x) auto
          have "on_track rest ms (Some (rest, ms))"
            unfolding on_track_def by (auto simp: reads_def intro!: exI [of _ "[]"])
          moreover have "CHR ''*'' \<notin> set ms" using 1(6) [of rest mark] Some rm mark by auto
          ultimately have "glob_loop rest ms (Some (rest, ms)) \<longleftrightarrow> glob rest ms \<or> again (Some (rest, ms))"
            using 1(3) no False Some rm mark Cons by auto
          also have "\<dots> \<longleftrightarrow> again star"
          proof -
            have "(\<exists>n. 0 < n \<and> n \<le> length (m # ms) \<and> glob rest (drop n (m # ms))) \<longleftrightarrow> (\<exists>n\<le>length ms. glob rest (drop n ms))"
              by (metis (no_types, lifting) Suc_le_mono drop_Suc_Cons gr0_implies_Suc length_Cons zero_less_Suc)
            moreover have "(\<exists>n\<le>length ms. glob rest (drop n ms)) \<longleftrightarrow> glob rest ms \<or> (\<exists>n. 0 < n \<and> n \<le> length ms \<and> glob rest (drop n ms))"
              by (metis drop0 gr0I le0)
            ultimately show ?thesis by (simp add: again_def Some rm mark)
          qed
          finally show ?thesis using ng no False Some rm mark Cons by (subst glob_loop.simps) auto
        qed
      qed
    qed
  qed
qed

lemma glob_match_glob: "CHR ''*'' \<notin> set s \<Longrightarrow> glob_match p s = glob p s"
  unfolding glob_match_def using glob_loop_glob [of s p None] by (simp add: on_track_def again_def)


subsection \<open>Properties\<close>

lemma lower_char_star [simp]: "lower_char c = CHR ''*'' \<longleftrightarrow> c = CHR ''*''"
proof
  assume l: "lower_char c = CHR ''*''"
  show "c = CHR ''*''"
  proof (cases "is_upper c")
    case True
    then have "code c < 91" "64 < code c" by (simp_all add: is_upper_def)
    then have "code (lower_char c) = code c + 32" using True by (simp add: lower_char_def of_char_of)
    with l \<open>64 < code c\<close> show ?thesis by simp
  qed (use l lower_char_idle in auto)
qed (simp add: lower_char_def is_upper_def)

lemma to_lower_star [simp]: "CHR ''*'' \<in> set (to_lower s) \<longleftrightarrow> CHR ''*'' \<in> set s"
  by (induction s) (auto simp: to_lower_def eq_commute [of "CHR ''*''"])

lemma Match_glob: "CHR ''*'' \<notin> set name \<Longrightarrow> MatchModel pat name = glob (to_lower pat) (to_lower name)"
  by (simp add: MatchModel_def glob_match_glob)

definition pattern_hits :: "string \<Rightarrow> string \<Rightarrow> string \<Rightarrow> bool" where
  "pattern_hits provider model pat \<longleftrightarrow>
     trim_space pat \<noteq> [] \<and>
     (glob (to_lower (trim_space pat)) (to_lower model) \<or>
      provider \<noteq> [] \<and> glob (to_lower (trim_space pat)) (to_lower (provider @ ''/'' @ model)))"

lemma firstMatch_hits:
  assumes "CHR ''*'' \<notin> set provider" and "CHR ''*'' \<notin> set model"
  shows "firstMatch pats provider model = None \<longleftrightarrow> (\<forall>pat\<in>set pats. \<not> pattern_hits provider model pat)"
  using assms by (simp add: firstMatch_def find_None_iff pattern_hits_def Match_glob)

text \<open>
  C35: A model policy means its two lists of globs. For a provider and a model whose names hold no
  star, a model is permitted exactly when its name is blank, or no pattern of the deny list fits its
  name or its name after the provider's, in any case, and the allow list is empty or has one that
  does. The matcher's loop with one remembered star decides what the recursive reading of a glob does.
\<close>

theorem policy_means_its_lists:
  assumes "CHR ''*'' \<notin> set provider" and "CHR ''*'' \<notin> set model"
  shows "Permits p provider model \<longleftrightarrow>
    trim_space model = [] \<or>
    (\<forall>pat\<in>set (mp_Deny p). \<not> pattern_hits provider (trim_space model) pat) \<and>
    (mp_Allow p = [] \<or> (\<exists>pat\<in>set (mp_Allow p). pattern_hits provider (trim_space model) pat))"
proof -
  have m: "CHR ''*'' \<notin> set (trim_space model)" using assms(2) set_trim_space by fastforce
  note none = firstMatch_hits [OF assms(1) m]
  show ?thesis
    by (cases "firstMatch (mp_Deny p) provider (trim_space model)"; cases "firstMatch (mp_Allow p) provider (trim_space model)")
      (use none [of "mp_Deny p"] none [of "mp_Allow p"] in \<open>auto simp: Permits_def policy_Check_def Let_def\<close>)
qed

definition no_vendor :: model_policy where
  "no_vendor = \<lparr>mp_Allow = [], mp_Deny = [''OpenAI/*'', ''*opus*'']\<rparr>"

theorem policy_means_its_lists_witness:
  "\<not> Permits no_vendor ''openai'' ''gpt-5'' \<and> Permits no_vendor ''anthropic'' ''claude-haiku''"
proof -
  have g: "pattern_hits ''openai'' ''gpt-5'' ''OpenAI/*''"
  proof -
    have "trim_space ''OpenAI/*'' = ''OpenAI/*''" "to_lower ''OpenAI/*'' = ''openai/*''" "to_lower ''openai/gpt-5'' = ''openai/gpt-5''"
      by code_simp+
    then show ?thesis by (auto simp: pattern_hits_def intro!: exI [of _ 5])
  qed
  have n: "\<not> Permits no_vendor ''openai'' ''gpt-5''"
    using policy_means_its_lists [of "''openai''" "''gpt-5''" no_vendor] g
    by (simp add: no_vendor_def) code_simp
  have "Permits no_vendor ''anthropic'' ''claude-haiku''" by code_simp
  with n show ?thesis by blast
qed

text \<open>
  A star in the name is read as the pattern's star before the pattern's star is read as any run, so
  a name that holds one can slip past a deny list that rules out every model of its vendor.
\<close>

lemma starred_name_slips_past:
  "Permits \<lparr>mp_Allow = [], mp_Deny = [''openai/*'']\<rparr> ''openai'' ''*gpt-5''"
  "\<not> Permits \<lparr>mp_Allow = [], mp_Deny = [''openai/*'']\<rparr> ''openai'' ''gpt-5''"
  by code_simp+

end
