(* ===== verification/RouteConfig.thy ===== *)
theory RouteConfig
  imports Router ModelPolicy Ledger
begin

text \<open>
  The operator's routing settings and the router's configuration made of them
  (\<open>internal/config/optimizer.go\<close>, \<open>optimizer_mode.go\<close>, \<open>modelpolicy.go\<close> and the routing part of
  \<open>validate.go\<close>). A map of the settings is a list of its pairs, each key once.
\<close>

subsection \<open>The mode\<close>

type_synonym optimizer_mode = string

definition OptimizerAutomatic :: optimizer_mode where "OptimizerAutomatic = ''automatic''"
definition OptimizerInRequest :: optimizer_mode where "OptimizerInRequest = ''in_request''"
definition OptimizerOff :: optimizer_mode where "OptimizerOff = ''off''"

definition mode_Applies :: "optimizer_mode \<Rightarrow> bool" where
  "mode_Applies m \<longleftrightarrow> to_lower m = to_lower OptimizerAutomatic"

definition mode_Proposes :: "optimizer_mode \<Rightarrow> bool" where
  "mode_Proposes m \<longleftrightarrow> to_lower m = to_lower OptimizerInRequest"

definition mode_ObserveOnly :: "optimizer_mode \<Rightarrow> bool" where
  "mode_ObserveOnly m \<longleftrightarrow> \<not> mode_Applies m \<and> \<not> mode_Proposes m"

definition mode_Valid :: "optimizer_mode \<Rightarrow> bool" where
  "mode_Valid m \<longleftrightarrow> to_lower (trim_space m) \<in> {[], OptimizerAutomatic, OptimizerInRequest, OptimizerOff}"

subsection \<open>The settings\<close>

record rule_setting =
  rg_Provider :: string
  rg_FromModel :: string
  rg_ToModel :: string
  rg_Quality :: f64
  rg_Fallbacks :: "string list"
  rg_WhenClass :: string
  rg_WhenWindowPctAbove :: f64

record smart_routing =
  sm_Enabled :: bool
  sm_WindowPctAbove :: f64
  sm_Quality :: f64
  sm_Intervention :: string
  sm_AutoKinds :: "string list"
  sm_Models :: "(string \<times> string list) list"

record optimizer_config =
  oc_Mode :: optimizer_mode
  oc_RoutingRules :: "rule_setting list"
  oc_RoutingMinQuality :: f64
  oc_SmartRouting :: smart_routing

record route_settings =
  cg_Optimizer :: optimizer_config
  cg_PreferredModels :: "(string \<times> string) list"
  cg_ModelPolicy :: model_policy
  cg_Plans :: "(string \<times> string) list"

text \<open>None where the setting stands; else the argument that is wrong, as the message names it.\<close>

definition rule_Validate :: "rule_setting \<Rightarrow> string option" where
  "rule_Validate r =
     (if trim_space (rg_Provider r) = [] then Some ''provider is required''
      else if trim_space (rg_FromModel r) = [] then Some ''from_model is required''
      else if trim_space (rg_ToModel r) = [] then Some ''to_model is required''
      else if to_lower (rg_WhenClass r) \<notin> {[], class_name Mechanical, class_name Reasoning} then
        Some (''when_class must be '' @ quoted (class_name Mechanical) @ '' or '' @ quoted (class_name Reasoning) @ '', got '' @
          quoted (rg_WhenClass r))
      else if f_lt (rg_WhenWindowPctAbove r) (Fin 0) \<or> f_lt (Fin 100) (rg_WhenWindowPctAbove r) then
        Some (''when_window_pct_above must be in [0,100], got '' @ fmt_g (rg_WhenWindowPctAbove r))
      else if f_le (rg_Quality r) (Fin 0) \<or> f_lt (Fin 1) (rg_Quality r) then
        Some (''quality must be in (0,1], got '' @ fmt_g (rg_Quality r))
      else None)"

definition interventions :: "string list" where
  "interventions = [[], ''off'', ''false'', ''no'', ''advise'', ''delegate'', ''auto'']"

definition smart_Validate :: "smart_routing \<Rightarrow> string option" where
  "smart_Validate s =
     (if f_lt (sm_WindowPctAbove s) (Fin 0) \<or> f_lt (Fin 100) (sm_WindowPctAbove s) then
        Some (''optimizer.smart_routing.window_pct_above must be in [0,100], got '' @ fmt_g (sm_WindowPctAbove s))
      else if f_lt (sm_Quality s) (Fin 0) \<or> f_lt (Fin 1) (sm_Quality s) then
        Some (''optimizer.smart_routing.quality must be in [0,1], got '' @ fmt_g (sm_Quality s))
      else if to_lower (trim_space (sm_Intervention s)) \<notin> set interventions then
        Some (''optimizer.smart_routing.intervention must be off, advise, delegate, or auto, got '' @ quoted (sm_Intervention s))
      else None)"

subsection \<open>The router's configuration\<close>

definition at_key :: "(string \<times> 'a list) list \<Rightarrow> string \<Rightarrow> 'a list" where
  "at_key m k = (case map_of m k of None \<Rightarrow> [] | Some v \<Rightarrow> v)"

definition offered :: "smart_routing \<Rightarrow> provider \<Rightarrow> string list" where
  "offered s = at_key (sm_Models s)"

definition to_rule :: "rule_setting \<Rightarrow> route_rule" where
  "to_rule r =
     \<lparr>ru_Provider = rg_Provider r, ru_FromModel = rg_FromModel r, ru_ToModel = rg_ToModel r, ru_Quality = rg_Quality r,
      ru_Fallbacks = rg_Fallbacks r, ru_WindowPctAbove = rg_WhenWindowPctAbove r, ru_WhenClass = to_lower (rg_WhenClass r)\<rparr>"

text \<open>The zero value of the classifier's settings, and the configuration with only what \<open>routerConfig\<close> sets.\<close>

definition zero_classify :: class_config where
  "zero_classify = \<lparr>cc_MaxMechanicalWords = 0, cc_MinToolDensity = Fin 0, cc_MinReasoningWords = 0\<rparr>"

definition routerConfig :: "optimizer_config \<Rightarrow> router_config" where
  "routerConfig o1 =
     (let s = oc_SmartRouting o1
      in \<lparr>cf_Rules = map to_rule (oc_RoutingRules o1), cf_IsAvailable = None, cf_Permits = None,
          cf_MinQuality = oc_RoutingMinQuality o1, cf_Classify = zero_classify, cf_PreferredModel = None,
          cf_UpgradeDecision = None, cf_OnProposal = False, cf_ProposeOnly = mode_Proposes (oc_Mode o1),
          cf_ObserveOnly = mode_ObserveOnly (oc_Mode o1),
          cf_Policy = \<lparr>po_Enabled = sm_Enabled s, po_WindowPctAbove = sm_WindowPctAbove s, po_Quality = sm_Quality s,
                       po_Models = offered s\<rparr>,
          cf_WindowPressure = None, cf_Boundary = None\<rparr>)"

definition optimizer_RouterConfig :: "optimizer_config \<Rightarrow> router_config option" where
  "optimizer_RouterConfig o1 =
     (if oc_RoutingRules o1 = [] \<and> \<not> sm_Enabled (oc_SmartRouting o1) then None else Some (routerConfig o1))"

definition RouterConfig :: "route_settings \<Rightarrow> router_config option" where
  "RouterConfig c =
     (let pol = cg_ModelPolicy c
      in if policy_Empty pol then optimizer_RouterConfig (cg_Optimizer c)
         else Some ((routerConfig (cg_Optimizer c))\<lparr>cf_Permits := Some (Permits pol)\<rparr>))"

definition RoutingCandidates :: "route_settings \<Rightarrow> provider \<Rightarrow> string list" where
  "RoutingCandidates c p = policy_Filter (cg_ModelPolicy c) p (at_key (sm_Models (oc_SmartRouting (cg_Optimizer c))) p)"

definition PreferredModel :: "route_settings \<Rightarrow> provider \<Rightarrow> string" where
  "PreferredModel c p = at_key (cg_PreferredModels c) p"

text \<open>
  The routing checks of \<open>Validate\<close>, in its order: the first that fails. The map of preferred models is
  walked in any order; which blank entry is named first is not fixed, and the model names the first
  of the list. Checks of other settings stand between these in the code.
\<close>

definition first_wrong :: "string option list \<Rightarrow> string option" where
  "first_wrong cs = (case List.map_filter id cs of [] \<Rightarrow> None | e # es \<Rightarrow> Some e)"

definition routing_Validate :: "route_settings \<Rightarrow> string option" where
  "routing_Validate c =
     (let o1 = cg_Optimizer c; q = oc_RoutingMinQuality o1
      in first_wrong
        ([if f_lt q (Fin 0) \<or> f_lt (Fin 1) q then Some (''optimizer.routing_min_quality must be in [0,1], got '' @ fmt_g q) else None] @
         map (\<lambda>(i, r). map_option (\<lambda>e. ''optimizer.routing_rules['' @ itoa (int i) @ '']: '' @ e) (rule_Validate r))
           (enumerate 0 (oc_RoutingRules o1)) @
         [smart_Validate (oc_SmartRouting o1),
          map_option (\<lambda>(list, i). ''model_policy.'' @ list @ ''['' @ itoa (int i) @ ''] is empty'')
            (policy_Validate (cg_ModelPolicy c)),
          if mode_Valid (oc_Mode o1) then None
          else Some (''optimizer.mode must be '' @ quoted OptimizerAutomatic @ '', '' @ quoted OptimizerInRequest @ '', or '' @
                 quoted OptimizerOff @ '', got '' @ quoted (oc_Mode o1))] @
         map (\<lambda>(p, m). if trim_space m = [] then Some (''preferred_models['' @ p @ '']: model must not be empty'') else None)
           (cg_PreferredModels c)))"

end
