(* ===== verification/RouteGate.thy ===== *)
theory RouteGate
  imports Evidence RouteConfig
begin

text \<open>
  A proxied request on its way past the router: how the daemon wires the router
  (\<open>internal/daemon/startup.go\<close>, \<open>windowprobe.go\<close>), the middleware that applies what it recommends
  (\<open>internal/proxy/routing.go\<close>) and the record of each decision (\<open>internal/capability/decide/route.go\<close>).
  The state is the one of \<open>Experiments\<close>: the event ledger, the clock and the ids to come.
\<close>

subsection \<open>The record of a route\<close>

definition RouteFingerprint :: "string \<Rightarrow> string \<Rightarrow> string \<Rightarrow> string \<Rightarrow> string" where
  "RouteFingerprint provider current selected adapter =
     ''sha256:'' @ hex_encode (take 8 (sha256 (provider @ CHR 0x00 # current @ CHR 0x00 # selected @ CHR 0x00 # adapter)))"

definition percentCaveat :: "f64 \<Rightarrow> string" where
  "percentCaveat pct = ''the plan window had '' @ fmt_fixed 1 (f_max (Fin 0) (f_sub (Fin 100) pct)) @ ''% left before this decision''"

definition beliefConfidence :: "belief \<Rightarrow> f64" where
  "beliefConfidence b =
     (case bf_Tier b of TierTrusted \<Rightarrow> Fin 1 | TierSupported \<Rightarrow> round64 (4 / 5) | TierObserved \<Rightarrow> round64 (2 / 5) | TierUnknown \<Rightarrow> Fin 0)"

definition tier_text :: "tier \<Rightarrow> string" where
  "tier_text t = (case t of TierUnknown \<Rightarrow> ''unknown'' | TierObserved \<Rightarrow> ''observed'' | TierSupported \<Rightarrow> ''supported'' | TierTrusted \<Rightarrow> ''trusted'')"

record route_input =
  ri_ID :: string
  ri_At :: gotime
  ri_Provider :: string
  ri_CurrentModel :: string
  ri_Advice :: advice
  ri_Authority :: authority
  ri_Adapter :: string
  ri_CanApplyRoute :: bool
  ri_Execution :: string
  ri_WindowKnown :: bool
  ri_WindowPct :: f64
  ri_ObservedAt :: gotime
  ri_Belief :: "belief option"

record route_result =
  rs_DecisionID :: string
  rs_Stage :: decision_stage
  rs_Executable :: bool
  rs_Event :: xenv

definition route_evidence_refs :: "route_input \<Rightarrow> gotime \<Rightarrow> evidence_ref list" where
  "route_evidence_refs i t =
     (let ref = \<lparr>rf_event = [], rf_kind = [], rf_source = [], rf_observed = t, rf_fresh_until = zero_time, rf_confidence = Fin 0,
            rf_scope = [], rf_caveat = []\<rparr>;
          observed = (if IsZero (UTC (ri_ObservedAt i)) then t else UTC (ri_ObservedAt i))
      in [ref\<lparr>rf_kind := ''task_classification'', rf_source := ''local_router'', rf_confidence := ad_Quality (ri_Advice i),
              rf_scope := ad_Class (ri_Advice i)\<rparr>] @
         (if ri_WindowKnown i then
            [ref\<lparr>rf_kind := ''capacity_pressure'', rf_source := ''local_event_store'', rf_observed := observed,
                 rf_fresh_until := Add observed (15 * minute), rf_confidence := Fin 1, rf_scope := ri_Provider i,
                 rf_caveat := percentCaveat (ri_WindowPct i)\<rparr>]
          else []) @
         (case ri_Belief i of
            None \<Rightarrow> []
          | Some b \<Rightarrow>
              [ref\<lparr>rf_kind := ''routing_belief'', rf_source := ''local_outcomes'', rf_confidence := beliefConfidence b,
                   rf_scope := tier_text (bf_Tier b), rf_caveat := bf_Caveat b\<rparr>]))"

definition route_changed :: "route_input \<Rightarrow> bool" where
  "route_changed i \<longleftrightarrow>
     \<not> ad_Stay (ri_Advice i) \<and> ad_Model (ri_Advice i) \<noteq> [] \<and> ad_Model (ri_Advice i) \<noteq> ri_CurrentModel i"

definition route_stage :: "route_input \<Rightarrow> decision_stage" where
  "route_stage i =
     (if route_changed i \<and> MayAct (ri_Authority i) \<and> ri_CanApplyRoute i \<and> \<not> NeedsApproval (ri_Authority i) then DecisionStageApplied
      else if MaySpeak (ri_Authority i) \<and> route_changed i then DecisionStageProposed
      else DecisionStageShadow)"

definition Route :: "route_input \<Rightarrow> (xworld, route_result) io" where
  "Route i =
     io_bind (utcNow (ri_At i)) (\<lambda>t.
     io_bind (if ri_ID i = [] then io_bind x_uuid (\<lambda>u. ret (''decision:'' @ u)) else ret (ri_ID i)) (\<lambda>d.
     io_bind x_uuid (\<lambda>uid.
       let changed = route_changed i;
           selected = (if changed then ad_Model (ri_Advice i) else ri_CurrentModel i);
           option = (\<lambda>m. \<lparr>ro_provider = ri_Provider i, ro_model = m, ro_reason = []\<rparr>);
           executable = changed \<and> MayAct (ri_Authority i) \<and> ri_CanApplyRoute i;
           payload = \<lparr>de_kind = ModelRoute, de_stage = route_stage i,
             de_alternatives = [option (ri_CurrentModel i), option (ad_Model (ri_Advice i))], de_selected = option selected,
             de_evidence = route_evidence_refs i t, de_policy = ''quality_first_capacity_second'',
             de_authority = authority_String (ri_Authority i), de_confidence = ad_Quality (ri_Advice i),
             de_rationale = ad_Reason (ri_Advice i), de_executable = executable, de_adapter = ri_Adapter i, de_actor = no_actor,
             de_approval = no_approval\<rparr>
       in ret \<lparr>rs_DecisionID = d, rs_Stage = route_stage i, rs_Executable = executable,
            rs_Event = \<lparr>xe_ID = uid, xe_Timestamp = t, xe_Execution = ri_Execution i, xe_Decision = d,
              xe_Intervention = (if changed then ''intervention:'' @ trim_prefix d ''decision:'' else []), xe_Experiment = [],
              xe_Attributes = [],
              xe_Payload = XDecision payload (RouteFingerprint (ri_Provider i) (ri_CurrentModel i) selected (ri_Adapter i))\<rparr>\<rparr>)))"

subsection \<open>Requests and what is published\<close>

record observation =
  ob_PromptHash :: string
  ob_RequestModel :: string
  ob_RoutedModel :: string
  ob_WorkflowID :: string
  ob_AgentID :: string
  ob_ExecutionID :: string
  ob_InputTokens :: int
  ob_MaxOutput :: int
  ob_CostSource :: string
  ob_Decision :: string
  ob_Intervention :: string
  ob_Experiment :: string

datatype opt_decision = OptimizationDecisionApplied | OptimizationDecisionSkipped

text \<open>The id and time of an optimization event, fresh on each, are left out.\<close>

record opt_event =
  oe_PromptHash :: string
  oe_Kind :: string
  oe_SavingsTokens :: int
  oe_SavingsUSD :: f64
  oe_QualityScore :: f64
  oe_Decision :: opt_decision
  oe_Reason :: string
  oe_WorkflowID :: string
  oe_AgentID :: string
  oe_Execution :: string
  oe_Correlation :: "string \<times> string \<times> string"

datatype published = PubDecision xenv | PubOptimization opt_event

record proxy =
  px_router :: "router option"
  px_experiments :: bool
  px_bus :: bool

text \<open>What goes on to the upstream, the observation it is metered by, what was published and proposed.\<close>

record forwarded =
  fw_body :: body
  fw_obs :: observation
  fw_events :: "published list"
  fw_proposals :: "proposal list"

definition correlation :: "xenv \<Rightarrow> string \<times> string \<times> string" where
  "correlation env = (xe_Decision env, xe_Intervention env, xe_Experiment env)"

definition correlated :: "observation \<Rightarrow> xenv \<Rightarrow> observation" where
  "correlated obs env =
     obs\<lparr>ob_Decision := xe_Decision env, ob_Intervention := xe_Intervention env, ob_Experiment := xe_Experiment env\<rparr>"

definition recorded_reason :: "xenv \<Rightarrow> string \<Rightarrow> string" where
  "recorded_reason env reason =
     (case xe_Payload env of XDecision d f \<Rightarrow> if de_rationale d \<noteq> [] then de_rationale d else reason | _ \<Rightarrow> reason)"

definition publishRoutingEvent :: "proxy \<Rightarrow> observation \<Rightarrow> recommendation \<Rightarrow> opt_decision \<Rightarrow> xenv option \<Rightarrow> published list" where
  "publishRoutingEvent px obs rec decision control =
     (if \<not> px_bus px then []
      else (case control of None \<Rightarrow> [] | Some env \<Rightarrow> [PubDecision env]) @
        [PubOptimization
           \<lparr>oe_PromptHash = ob_PromptHash obs, oe_Kind = rc_Kind rec, oe_SavingsTokens = rc_SavingsTokens rec,
            oe_SavingsUSD = rc_SavingsUSD rec, oe_QualityScore = rc_QualityScore rec, oe_Decision = decision,
            oe_Reason = (case control of None \<Rightarrow> rc_Reason rec | Some env \<Rightarrow> recorded_reason env (rc_Reason rec)),
            oe_WorkflowID = ob_WorkflowID obs, oe_AgentID = ob_AgentID obs, oe_Execution = ob_ExecutionID obs,
            oe_Correlation = (case control of None \<Rightarrow> ([], [], []) | Some env \<Rightarrow> correlation env)\<rparr>])"

definition experimentAttributes :: "assignment \<Rightarrow> bool \<Rightarrow> (string \<times> string) list" where
  "experimentAttributes a variant =
     [(''tokenops.experiment.pair'', itoa (an_Pair a)), (''tokenops.experiment.arm'', arm_name variant)]"

subsection \<open>What a target cannot take\<close>

definition rawJSONPresent :: "json option \<Rightarrow> bool" where
  "rawJSONPresent v \<longleftrightarrow> v \<noteq> None \<and> v \<noteq> Some JNull"

text \<open>The type and budget of \<open>thinking\<close>; none where it is no object or its type no string.\<close>

definition thinking_of :: "json option \<Rightarrow> (string \<times> json option) option" where
  "thinking_of v =
     (case v of
        None \<Rightarrow> Some ([], None)
      | Some j \<Rightarrow> to_struct (\<lambda>kvs. map_option (\<lambda>t. (t, field ''budget_tokens'' kvs)) (to_string (field ''type'' kvs))) j)"

definition anthropicCompatibilityTraits :: "body \<Rightarrow> bool \<times> bool" where
  "anthropicCompatibilityTraits b =
     (case b of
        Doc v \<Rightarrow>
          (case to_struct (\<lambda>kvs. map_option (\<lambda>th. (kvs, th)) (thinking_of (field ''thinking'' kvs))) v of
             None \<Rightarrow> (False, False)
           | Some (kvs, kind, budget) \<Rightarrow>
               (kind = ''enabled'' \<and> rawJSONPresent budget,
                rawJSONPresent (field ''temperature'' kvs) \<or> rawJSONPresent (field ''top_p'' kvs) \<or> rawJSONPresent (field ''top_k'' kvs)))
      | _ \<Rightarrow> (False, False))"

text \<open>The roles of the messages; none where the body does not decode.\<close>

definition message_roles :: "body \<Rightarrow> string list option" where
  "message_roles b =
     (case b of
        Doc v \<Rightarrow>
          to_struct (\<lambda>kvs.
            case field ''messages'' kvs of
              None \<Rightarrow> Some []
            | Some JNull \<Rightarrow> Some []
            | Some (JArr vs) \<Rightarrow> to_list (to_struct (\<lambda>kvs. to_string (field ''role'' kvs))) vs
            | _ \<Rightarrow> None) v
      | _ \<Rightarrow> None)"

definition ProviderAnthropic :: string where "ProviderAnthropic = ''anthropic''"

definition anthropicRouteIncompatibility :: "string \<Rightarrow> string \<Rightarrow> body \<Rightarrow> string" where
  "anthropicRouteIncompatibility provider target b =
     (if provider \<noteq> ProviderAnthropic \<or> \<not> has_prefix target ''claude-sonnet-5'' then []
      else case anthropicCompatibilityTraits b of (thinking, sampling) \<Rightarrow>
        if thinking then ''target claude-sonnet-5 does not support manual extended thinking''
        else if sampling then ''target claude-sonnet-5 does not support explicit sampling parameters''
        else (case message_roles b of
                None \<Rightarrow> []
              | Some roles \<Rightarrow>
                  if ''system'' \<in> set roles then ''target claude-sonnet-5 does not support mid-conversation system messages''
                  else if roles \<noteq> [] \<and> last roles = ''assistant'' then
                    ''target claude-sonnet-5 does not support assistant response prefills''
                  else []))"

subsection \<open>The middleware\<close>

definition routing_request :: "string \<Rightarrow> observation \<Rightarrow> body \<Rightarrow> opt_request" where
  "routing_request provider obs b =
     \<lparr>oq_PromptHash = ob_PromptHash obs, oq_Provider = provider, oq_Model = ob_RequestModel obs, oq_Body = b,
      oq_WorkflowID = ob_WorkflowID obs, oq_AgentID = ob_AgentID obs, oq_InputTokens = ob_InputTokens obs,
      oq_OutputTokens = ob_MaxOutput obs, oq_Mode = ''interactive'', oq_CostSource = ob_CostSource obs, oq_LatencyBudget = 0\<rparr>"

text \<open>The candidate for an explicit trial where the normal policy only observes.\<close>

definition trial_candidate :: "proxy \<Rightarrow> router \<Rightarrow> opt_request \<Rightarrow> observation \<Rightarrow> recommendation \<Rightarrow> recommendation option \<times> proposal list" where
  "trial_candidate px r req obs rec =
     (if rc_ApplyBody rec = NoBody \<and> has_prefix (rc_Reason rec) ''observed:'' \<and> rc_TargetModel rec \<noteq> [] \<and>
         ob_ExecutionID obs \<noteq> [] \<and> px_experiments px
      then (case RunForExplicitTrial (Some r) (Some req) of
              ([], props) \<Rightarrow> (None, props)
            | (trial # _, props) \<Rightarrow>
                (if rc_TargetModel trial = rc_TargetModel rec \<and> rc_ApplyBody trial \<noteq> NoBody then Some trial else None, props))
      else (None, []))"

definition unrouted :: "observation \<Rightarrow> body \<Rightarrow> published list \<Rightarrow> proposal list \<Rightarrow> forwarded" where
  "unrouted obs b events props = \<lparr>fw_body = b, fw_obs = obs, fw_events = events, fw_proposals = props\<rparr>"

definition route_advice :: "recommendation \<Rightarrow> string \<Rightarrow> advice" where
  "route_advice rec why =
     \<lparr>ad_Model = rc_TargetModel rec, ad_Stay = False, ad_Reason = why, ad_Class = [], ad_WindowPct = Fin 0, ad_WindowKnown = False,
      ad_Quality = rc_QualityScore rec\<rparr>"

definition route_input_for :: "string \<Rightarrow> observation \<Rightarrow> recommendation \<Rightarrow> string \<Rightarrow> authority \<Rightarrow> belief option \<Rightarrow> route_input" where
  "route_input_for provider obs rec why a b =
     \<lparr>ri_ID = [], ri_At = zero_time, ri_Provider = provider, ri_CurrentModel = ob_RequestModel obs, ri_Advice = route_advice rec why,
      ri_Authority = a, ri_Adapter = ''proxy'', ri_CanApplyRoute = True, ri_Execution = ob_ExecutionID obs, ri_WindowKnown = False,
      ri_WindowPct = Fin 0, ri_ObservedAt = zero_time, ri_Belief = b\<rparr>"

definition preserveUntrustedRoute ::
  "proxy \<Rightarrow> string \<Rightarrow> observation \<Rightarrow> body \<Rightarrow> recommendation \<Rightarrow> belief option \<Rightarrow> string \<Rightarrow> proposal list \<Rightarrow> (xworld, forwarded) io" where
  "preserveUntrustedRoute px provider obs b rec bel reason props =
     io_bind (Route (route_input_for provider obs rec (reason @ '': '' @ rc_Reason rec) Recommend bel)) (\<lambda>res.
       ret (unrouted (correlated obs (rs_Event res)) b
         (publishRoutingEvent px obs rec OptimizationDecisionSkipped (Some (rs_Event res))) props))"

text \<open>A request that enrolled: its decision carries the trial and the arm.\<close>

definition enrolled_event :: "assignment option \<Rightarrow> xenv \<Rightarrow> xenv" where
  "enrolled_event a env =
     (case a of
        None \<Rightarrow> env
      | Some a \<Rightarrow> env\<lparr>xe_Experiment := an_ExperimentID a, xe_Attributes := experimentAttributes a (an_Variant a)\<rparr>)"

definition apply_routing ::
  "proxy \<Rightarrow> string \<Rightarrow> observation \<Rightarrow> recommendation \<Rightarrow> assignment option \<Rightarrow> belief option \<Rightarrow> proposal list \<Rightarrow> (xworld, forwarded) io" where
  "apply_routing px provider obs rec a bel props =
     io_bind (Route (route_input_for provider obs rec (rc_Reason rec) Automatic bel)) (\<lambda>res.
       let env = enrolled_event a (rs_Event res); obs' = obs\<lparr>ob_RoutedModel := rc_TargetModel rec\<rparr>
       in ret \<lparr>fw_body = rc_ApplyBody rec, fw_obs = correlated obs' env,
            fw_events = publishRoutingEvent px obs' rec OptimizationDecisionApplied (Some env), fw_proposals = props\<rparr>)"

text \<open>A request that is in no trial goes only where the outcomes have earned trust.\<close>

definition route_on_trust ::
  "proxy \<Rightarrow> string \<Rightarrow> observation \<Rightarrow> body \<Rightarrow> recommendation \<Rightarrow> proposal list \<Rightarrow> (xworld, forwarded) io" where
  "route_on_trust px provider obs b rec props =
     (if \<not> px_experiments px then
        preserveUntrustedRoute px provider obs b rec None ''outcome history unavailable; preserving the baseline model'' props
      else io_bind (utcNow zero_time) (\<lambda>t.
        io_bind (attempt (FindRouting t (RouteFingerprint provider (ob_RequestModel obs) (rc_TargetModel rec) ''proxy'') t)) (\<lambda>learned.
          case learned of
            Inl e \<Rightarrow>
              preserveUntrustedRoute px provider obs b rec None ''outcome history could not be read; preserving the baseline model'' props
          | Inr None \<Rightarrow>
              preserveUntrustedRoute px provider obs b rec None
                ''no trusted outcome-linked evidence for this route; preserving the baseline model'' props
          | Inr (Some bel) \<Rightarrow>
              if \<not> IsTrusted bel then
                preserveUntrustedRoute px provider obs b rec (Some bel)
                  (''route evidence tier is '' @ tier_text (bf_Tier bel) @ ''; preserving the baseline model'') props
              else apply_routing px provider obs rec None (Some bel) props)))"

definition assign_for :: "proxy \<Rightarrow> string \<Rightarrow> observation \<Rightarrow> string \<Rightarrow> (xworld, assignment option) io" where
  "assign_for px provider obs target =
     io_bind (utcNow zero_time) (\<lambda>t.
       Assign (px_experiments px)
         \<lparr>as_Provider = provider, as_BaselineModel = ob_RequestModel obs, as_VariantModel = target, as_ExecutionID = ob_ExecutionID obs,
          as_Fingerprint = RouteFingerprint provider (ob_RequestModel obs) target ''proxy'', as_At = t\<rparr>)"

text \<open>From the assignment on; the candidate stands in for a recommendation that only observes once its variant is drawn.\<close>

definition after_assignment ::
  "proxy \<Rightarrow> string \<Rightarrow> observation \<Rightarrow> body \<Rightarrow> recommendation \<Rightarrow> recommendation option \<Rightarrow> assignment option \<Rightarrow> proposal list \<Rightarrow>
    (xworld, forwarded) io" where
  "after_assignment px provider obs b rec trial a props =
     (case a of
        Some asg \<Rightarrow>
          if \<not> an_Variant asg then
            io_bind (Route (route_input_for provider obs rec (rc_Reason rec) ObserveOnly None)) (\<lambda>res.
              let env = enrolled_event a (rs_Event res)
              in ret (unrouted (correlated obs env) b (publishRoutingEvent px obs rec OptimizationDecisionSkipped (Some env)) props))
          else (case (rc_ApplyBody rec, trial) of
                  (NoBody, Some t) \<Rightarrow> apply_routing px provider obs t a None props
                | (NoBody, None) \<Rightarrow> ret (unrouted obs b (publishRoutingEvent px obs rec OptimizationDecisionSkipped None) props)
                | _ \<Rightarrow> apply_routing px provider obs rec a None props)
      | None \<Rightarrow>
          if rc_ApplyBody rec = NoBody then
            ret (unrouted obs b (publishRoutingEvent px obs rec OptimizationDecisionSkipped None) props)
          else route_on_trust px provider obs b rec props)"

text \<open>What the body capture gave: none where it failed or the body is too long to hold.\<close>

definition routingMiddleware ::
  "proxy \<Rightarrow> string \<Rightarrow> observation \<Rightarrow> body \<Rightarrow> bool \<Rightarrow> (xworld, forwarded) io" where
  "routingMiddleware px provider obs b whole =
     (case px_router px of
        None \<Rightarrow> ret (unrouted obs b [] [])
      | Some r \<Rightarrow>
          if ob_RequestModel obs = [] \<or> \<not> whole then ret (unrouted obs b [] [])
          else let req = routing_request provider obs b
               in case Run r (Some req) of
                    ([], props) \<Rightarrow> ret (unrouted obs b [] props)
                  | (rec # _, props) \<Rightarrow>
                      (case trial_candidate px r req obs rec of (trial, extra) \<Rightarrow>
                         let reason = anthropicRouteIncompatibility provider (rc_TargetModel rec) b
                         in if reason \<noteq> [] then
                              ret (unrouted obs b
                                (publishRoutingEvent px obs
                                   (rec\<lparr>rc_ApplyBody := NoBody, rc_Reason := reason @ ''; preserving the baseline model''\<rparr>)
                                   OptimizationDecisionSkipped None) (props @ extra))
                            else if rc_ApplyBody rec \<noteq> NoBody \<or> trial \<noteq> None then
                              io_bind (attempt (assign_for px provider obs (rc_TargetModel rec))) (\<lambda>asg.
                                case asg of
                                  Inl e \<Rightarrow> ret (unrouted obs b [] (props @ extra))
                                | Inr a \<Rightarrow> after_assignment px provider obs b rec trial a (props @ extra))
                            else after_assignment px provider obs b rec trial None (props @ extra)))"

subsection \<open>Wiring\<close>

text \<open>The cached reading of a window: none, or one older than ten minutes, is not trusted.\<close>

definition maxWindowAge :: duration where "maxWindowAge = 10 * minute"

type_synonym window_probe = "(string \<times> (f64 \<times> gotime)) list"

definition probe_Pct :: "gotime \<Rightarrow> window_probe \<Rightarrow> string \<Rightarrow> f64 \<times> bool" where
  "probe_Pct now probe provider =
     (case map_of probe provider of
        None \<Rightarrow> (Fin 0, False)
      | Some (pct, t) \<Rightarrow> if maxWindowAge < Sub now t then (Fin 0, False) else (pct, True))"

definition probe_set :: "gotime \<Rightarrow> string \<Rightarrow> f64 \<Rightarrow> window_probe \<Rightarrow> window_probe" where
  "probe_set now provider pct probe = AList.update provider (pct, now) probe"

text \<open>One refresh, over the plans in the order of the map.\<close>

definition probe_refresh :: "(string \<Rightarrow> f64 option) \<Rightarrow> gotime \<Rightarrow> string list \<Rightarrow> window_probe \<Rightarrow> window_probe" where
  "probe_refresh pressure now plans probe =
     foldl (\<lambda>pr p. case pressure p of None \<Rightarrow> pr | Some pct \<Rightarrow> probe_set now p pct pr) probe plans"

definition AttachApprovalGate ::
  "(provider \<Rightarrow> string \<Rightarrow> string \<Rightarrow> route_decision) \<Rightarrow> route_settings \<Rightarrow> router_config \<Rightarrow> router_config" where
  "AttachApprovalGate decision cfg rc =
     rc\<lparr>cf_PreferredModel := Some (PreferredModel cfg), cf_UpgradeDecision := Some decision, cf_OnProposal := True\<rparr>"

definition WithActiveRouting :: "router_config \<Rightarrow> engine option \<Rightarrow> proxy \<Rightarrow> proxy" where
  "WithActiveRouting cfg e px = (if cf_Rules cfg = [] then px else px\<lparr>px_router := Some (New cfg e)\<rparr>)"

text \<open>
  The window reading, the gate's answers (none where the approval log does not open) and the boundary
  check are what the middleware's router asks; \<open>pressure\<close> is none where the window reader is not started.
\<close>

definition configureRouting ::
  "route_settings \<Rightarrow> (provider \<Rightarrow> f64 \<times> bool) option \<Rightarrow> (provider \<Rightarrow> string \<Rightarrow> string \<Rightarrow> route_decision) option \<Rightarrow>
    (provider \<Rightarrow> string \<Rightarrow> string \<Rightarrow> string \<Rightarrow> string \<Rightarrow> bool \<times> string) \<Rightarrow> bool \<Rightarrow> engine option \<Rightarrow> proxy \<Rightarrow> proxy" where
  "configureRouting cfg pressure approvals check store e px =
     (case RouterConfig cfg of
        None \<Rightarrow> px
      | Some rc \<Rightarrow>
          (let rc = rc\<lparr>cf_WindowPressure := pressure\<rparr>;
               rc = (if cg_PreferredModels cfg \<noteq> [] \<or> mode_Proposes (oc_Mode (cg_Optimizer cfg)) then
                       (case approvals of None \<Rightarrow> rc | Some decision \<Rightarrow> AttachApprovalGate decision cfg rc)
                     else rc);
               px = WithActiveRouting (rc\<lparr>cf_Boundary := Some check\<rparr>) e px
           in if store then px\<lparr>px_experiments := True\<rparr> else px))"

subsection \<open>What a step leaves behind\<close>

lemma Route_runs:
  "\<exists>res w'. Route i w = (Inr res, w') \<and> xw_ledger w' = xw_ledger w \<and> xe_Attributes (rs_Event res) = [] \<and>
    (\<exists>d f. xe_Payload (rs_Event res) = XDecision d f)"
proof -
  obtain t v where t: "utcNow (ri_At i) w = (Inr t, v)" using utcNow_runs by blast
  obtain d u where d: "(if ri_ID i = [] then io_bind x_uuid (\<lambda>u. ret (''decision:'' @ u)) else ret (ri_ID i)) v = (Inr d, u)"
      and u: "xw_ledger u = xw_ledger v"
    by (cases "ri_ID i = []") (simp_all add: io_bind_def x_uuid_def ret_def x_tick_def)
  show ?thesis
    using io_steps(2) [OF t] u
    by (simp add: Route_def io_bind_def [of "utcNow (ri_At i)"] t io_bind_def [of "if ri_ID i = [] then _ else _"] d io_bind_def [of x_uuid]
        x_uuid_def ret_def Let_def x_tick_def)
qed

lemma published_decision [simp]:
  "PubDecision env \<in> set (publishRoutingEvent px obs rec d control) \<longleftrightarrow> px_bus px \<and> control = Some env"
  by (cases control) (auto simp: publishRoutingEvent_def)

lemma published_optimization [simp]:
  "(\<exists>e. PubOptimization e \<in> set (publishRoutingEvent px obs rec d control) \<and> oe_Decision e = d') \<longleftrightarrow> px_bus px \<and> d = d'"
  by (cases control) (auto simp: publishRoutingEvent_def)

lemma apply_routing_gives:
  assumes "apply_routing px provider obs rec a bel props w = (Inr out, w')"
  shows "fw_body out = rc_ApplyBody rec \<and> ob_RoutedModel (fw_obs out) = rc_TargetModel rec \<and> xw_ledger w' = xw_ledger w \<and>
    (px_bus px \<longrightarrow> (\<exists>e. PubOptimization e \<in> set (fw_events out) \<and> oe_Decision e = OptimizationDecisionApplied)) \<and>
    (\<forall>env. PubDecision env \<in> set (fw_events out) \<longrightarrow>
      (\<exists>env0. env = enrolled_event a env0 \<and> xe_Attributes env0 = []))"
proof -
  obtain res v where r: "Route (route_input_for provider obs rec (rc_Reason rec) Automatic bel) w = (Inr res, v)"
      "xw_ledger v = xw_ledger w" "xe_Attributes (rs_Event res) = []"
    using Route_runs by blast
  then show ?thesis using assms
    by (auto simp: apply_routing_def io_bind_def Let_def ret_def correlated_def)
qed

lemma preserve_gives:
  assumes "preserveUntrustedRoute px provider obs b rec bel why props w = (Inr out, w')"
  shows "fw_body out = b \<and> xw_ledger w' = xw_ledger w \<and>
    (\<forall>env. PubDecision env \<in> set (fw_events out) \<longrightarrow> xe_Attributes env = [])"
proof -
  obtain res v where r: "Route (route_input_for provider obs rec (why @ '': '' @ rc_Reason rec) Recommend bel) w = (Inr res, v)"
      "xw_ledger v = xw_ledger w" "xe_Attributes (rs_Event res) = []"
    using Route_runs by blast
  then show ?thesis using assms
    by (auto simp: preserveUntrustedRoute_def io_bind_def ret_def unrouted_def)
qed

lemma leaves_reads [leaves_intros]:
  "leaves xw_ledger (ExperimentEvents i)" "leaves xw_ledger (utcNow t)" "leaves xw_ledger x_uuid"
  by (rule leavesI, drule io_steps, simp)+

lemma leaves_gather: "leaves xw_ledger (gather fp found hist ss)"
  by (induction ss arbitrary: found hist) (auto simp: Let_def Events_def intro!: leaves_intros)

lemma leaves_FindRouting: "leaves xw_ledger (FindRouting wall fp now)"
  by (auto simp: FindRouting_def States_def intro!: leaves_intros leaves_gather)

lemmas FindRouting_ledger = leavesD [OF leaves_FindRouting]

text \<open>How a request in no trial is moved.\<close>

lemma route_on_trust_gives:
  assumes "route_on_trust px provider obs b rec props w = (Inr out, w')"
  shows "xw_ledger w' = xw_ledger w \<and> (\<forall>env. PubDecision env \<in> set (fw_events out) \<longrightarrow> xe_Attributes env = []) \<and>
    (fw_body out = b \<or>
     fw_body out = rc_ApplyBody rec \<and> ob_RoutedModel (fw_obs out) = rc_TargetModel rec \<and>
     (px_bus px \<longrightarrow> (\<exists>e. PubOptimization e \<in> set (fw_events out) \<and> oe_Decision e = OptimizationDecisionApplied)) \<and>
     (\<exists>t v bel u. xw_ledger v = xw_ledger w \<and> IsTrusted bel \<and>
        FindRouting t (RouteFingerprint provider (ob_RequestModel obs) (rc_TargetModel rec) ''proxy'') t v = (Inr (Some bel), u)))"
proof (cases "px_experiments px")
  case False
  then show ?thesis using assms preserve_gives by (simp add: route_on_trust_def)
next
  case True
  let ?fp = "RouteFingerprint provider (ob_RequestModel obs) (rc_TargetModel rec) ''proxy''"
  obtain t v where t: "utcNow zero_time w = (Inr t, v)" using utcNow_runs by blast
  obtain r u where r: "FindRouting t ?fp t v = (r, u)" by fastforce
  have l: "xw_ledger v = xw_ledger w" "xw_ledger u = xw_ledger w"
    using io_steps(2) [OF t] FindRouting_ledger [OF r] by simp_all
  show ?thesis
  proof (cases "\<exists>bel. r = Inr (Some bel) \<and> IsTrusted bel")
    case trusted: True
    then obtain bel where bel: "r = Inr (Some bel)" "IsTrusted bel" by blast
    then have "apply_routing px provider obs rec None (Some bel) props u = (Inr out, w')"
      using assms True t r by (simp add: route_on_trust_def io_bind_def attempt_def)
    from apply_routing_gives [OF this] bel r l show ?thesis by (auto simp: enrolled_event_def)
  next
    case False
    then obtain why bel where "preserveUntrustedRoute px provider obs b rec bel why props u = (Inr out, w')"
      using assms True t r by (cases r) (auto simp: route_on_trust_def io_bind_def attempt_def split: option.splits)
    from preserve_gives [OF this] l show ?thesis by simp
  qed
qed

subsection \<open>Once the arm is known\<close>

lemma after_assignment_gives:
  assumes "after_assignment px provider obs b rec trial a props w = (Inr out, w')"
    and "\<And>t. trial = Some t \<Longrightarrow> rc_TargetModel t = rc_TargetModel rec \<and> rc_ApplyBody t \<noteq> NoBody"
  shows "xw_ledger w' = xw_ledger w \<and>
    (\<forall>env. PubDecision env \<in> set (fw_events out) \<longrightarrow> (\<exists>env0. env = enrolled_event a env0 \<and> xe_Attributes env0 = [])) \<and>
    (fw_body out = b \<or>
     (\<exists>t. (t = rec \<or> trial = Some t) \<and> rc_ApplyBody t \<noteq> NoBody \<and> fw_body out = rc_ApplyBody t) \<and>
     ob_RoutedModel (fw_obs out) = rc_TargetModel rec \<and>
     (px_bus px \<longrightarrow> (\<exists>e. PubOptimization e \<in> set (fw_events out) \<and> oe_Decision e = OptimizationDecisionApplied)) \<and>
     ((\<exists>asg. a = Some asg \<and> an_Variant asg) \<or>
      a = None \<and> (\<exists>t v bel u. xw_ledger v = xw_ledger w \<and> IsTrusted bel \<and>
        FindRouting t (RouteFingerprint provider (ob_RequestModel obs) (rc_TargetModel rec) ''proxy'') t v = (Inr (Some bel), u))))"
proof (cases a)
  case None
  show ?thesis
  proof (cases "rc_ApplyBody rec = NoBody")
    case True
    then show ?thesis using assms(1) None by (auto simp: after_assignment_def unrouted_def)
  next
    case False
    then have "route_on_trust px provider obs b rec props w = (Inr out, w')" using assms(1) None by (simp add: after_assignment_def)
    from route_on_trust_gives [OF this] None False show ?thesis
      by (auto simp: enrolled_event_def intro!: exI [of _ rec])
  qed
next
  case (Some asg)
  show ?thesis
  proof (cases "an_Variant asg")
    case False
    obtain res v where r: "Route (route_input_for provider obs rec (rc_Reason rec) ObserveOnly None) w = (Inr res, v)"
        "xw_ledger v = xw_ledger w" "xe_Attributes (rs_Event res) = []"
      using Route_runs by blast
    then show ?thesis using assms(1) Some False by (auto simp: after_assignment_def io_bind_def unrouted_def Let_def)
  next
    case True
    then consider rec' where "apply_routing px provider obs rec' a None props w = (Inr out, w')"
          "rec' = rec \<or> trial = Some rec'" "rc_TargetModel rec' = rc_TargetModel rec" "rc_ApplyBody rec' \<noteq> NoBody"
      | "unrouted obs b (publishRoutingEvent px obs rec OptimizationDecisionSkipped None) props = out" "w' = w"
      using assms Some by (auto simp: after_assignment_def split: body.splits option.splits)
    then show ?thesis
    proof cases
      case (1 rec')
      from apply_routing_gives [OF 1(1)] 1(2-4) Some True show ?thesis by auto
    next
      case 2
      then show ?thesis by (auto simp: unrouted_def)
    qed
  qed
qed

lemma trial_candidate_gives:
  assumes "trial_candidate px r req obs rec = (Some t, props)"
  shows "t \<in> set (fst (RunForExplicitTrial (Some r) (Some req))) \<and> rc_TargetModel t = rc_TargetModel rec \<and> rc_ApplyBody t \<noteq> NoBody"
  using assms by (auto simp: trial_candidate_def split: if_splits prod.splits list.splits)

text \<open>A request is left alone, or its recommendation comes to an assignment.\<close>

lemma middleware_cases:
  assumes "routingMiddleware px provider obs b whole w = (Inr out, w')"
  obtains (idle) "fw_body out = b" "\<forall>env. PubDecision env \<notin> set (fw_events out)"
  | (go) r rec trial a v props where "px_router px = Some r" "rec \<in> set (fst (Run r (Some (routing_request provider obs b))))"
      "\<And>t. trial = Some t \<Longrightarrow> t \<in> set (fst (RunForExplicitTrial (Some r) (Some (routing_request provider obs b)))) \<and>
        rc_TargetModel t = rc_TargetModel rec \<and> rc_ApplyBody t \<noteq> NoBody"
      "anthropicRouteIncompatibility provider (rc_TargetModel rec) b = []"
      "assign_for px provider obs (rc_TargetModel rec) w = (Inr a, v) \<or> a = None \<and> v = w"
      "after_assignment px provider obs b rec trial a props v = (Inr out, w')"
proof (cases "px_router px")
  case None
  then show thesis using assms by (intro idle) (auto simp: routingMiddleware_def unrouted_def)
next
  case (Some r)
  let ?req = "routing_request provider obs b"
  obtain recs props where run: "Run r (Some ?req) = (recs, props)" by fastforce
  show thesis
  proof (cases "ob_RequestModel obs = [] \<or> \<not> whole \<or> recs = []")
    case True
    then show thesis using assms Some run by (intro idle) (auto simp: routingMiddleware_def unrouted_def Let_def split: if_splits)
  next
    case False
    then obtain rec more_recs where recs: "recs = rec # more_recs" by (cases recs) auto
    obtain trial extra where trial: "trial_candidate px r ?req obs rec = (trial, extra)" by fastforce
    let ?why = "anthropicRouteIncompatibility provider (rc_TargetModel rec) b"
    obtain asg v where asg: "assign_for px provider obs (rc_TargetModel rec) w = (asg, v)" by fastforce
    note d = assms [unfolded routingMiddleware_def Some option.case] run recs trial False
    have cand: "\<And>t. trial = Some t \<Longrightarrow> t \<in> set (fst (RunForExplicitTrial (Some r) (Some ?req))) \<and>
        rc_TargetModel t = rc_TargetModel rec \<and> rc_ApplyBody t \<noteq> NoBody"
      using trial_candidate_gives trial by blast
    show thesis
    proof (cases "?why \<noteq> []")
      case True
      then show thesis using d by (intro idle) (auto simp: unrouted_def Let_def)
    next
      case False
      show thesis
      proof (cases "rc_ApplyBody rec \<noteq> NoBody \<or> trial \<noteq> None")
        case assign: True
        show thesis
        proof (cases asg)
          case (Inl e)
          then show thesis using d False assign asg by (intro idle) (auto simp: unrouted_def Let_def io_bind_def attempt_def)
        next
          case (Inr a)
          then have "after_assignment px provider obs b rec trial a (props @ extra) v = (Inr out, w')"
            using d False assign asg by (simp add: Let_def io_bind_def attempt_def)
          with Some run recs cand False asg Inr show thesis by (intro go [of r rec trial a v]) auto
        qed
      next
        case none: False
        then have "after_assignment px provider obs b rec trial None (props @ extra) w = (Inr out, w')"
          using d False by (simp add: Let_def)
        with Some run recs cand False show thesis by (intro go [of r rec trial None w]) auto
      qed
    qed
  qed
qed

subsection \<open>What a decision carries\<close>

lemma Assign_keeps_ledger:
  assumes "Assign True inp w = (r, w')" and "trial_ledger (xw_ledger w)" and "length (xw_ledger w) \<le> read_limit"
  shows "trial_ledger (xw_ledger w')"
proof -
  obtain N where N: "xw_ledger w' = xw_ledger w @ N" using Assign_appends [OF assms(1)] by (metis append_Nil2)
  have "trial_ledger (xw_ledger w @ [] @ N)"
    by (rule assign_arm [OF _ _ assms(3,1) N]) (simp_all add: assms(2) no_arms_def arms_def)
  then show ?thesis using N by simp
qed

lemma arm_recorded:
  assumes "Assign True inp w = (Inr (Some a), w')" and "trial_ledger (xw_ledger w)" and "length (xw_ledger w) \<le> read_limit"
  shows "\<exists>p\<in>set (arms (an_ExperimentID a) (xw_ledger w')). xp_Pair p = an_Pair a \<and> an_Variant a = (xp_Assignment p = ''variant'')"
proof -
  let ?L = "xw_ledger w"
  have id: "as_ExecutionID inp \<noteq> []" "length (as_ExecutionID inp) \<le> 256"
    using assms(1) by (auto simp: Assign_def split: if_splits)
  from Assign_appends [OF assms(1)] show ?thesis
  proof (elim disjE exE conjE)
    assume keep: "xw_ledger w' = ?L"
      and "\<forall>q. Inr (Some a) = Inr q \<longrightarrow> as_ExecutionID inp \<noteq> [] \<longrightarrow> length (as_ExecutionID inp) \<le> 256 \<longrightarrow>
        (\<exists>t. first_arm inp (Fold (stored_events [] ?L) t) (rev (stored_events [] ?L)) = q)"
    then obtain t where "first_arm inp (Fold (stored_events [] ?L) t) (rev (stored_events [] ?L)) = Some a" using id by auto
    then have "a \<in> set (List.map_filter (earlier_arm inp (Fold (stored_events [] ?L) t)) (rev (stored_events [] ?L)))"
      by (auto simp: first_arm_def split: list.splits)
    then obtain x where x: "x \<in> set (stored_events [] ?L)" "earlier_arm inp (Fold (stored_events [] ?L) t) x = Some a"
      by (auto simp: List.map_filter_def)
    then obtain p s where p: "xe_Payload x = XExperiment p" "xp_Stage p = XAssigned"
        "map_of (Fold (stored_events [] ?L) t) (xe_Experiment x) = Some s"
        "a = \<lparr>an_ExperimentID = tr_ID s, an_Pair = xp_Pair p, an_Variant = (xp_Assignment p = ''variant'')\<rparr>"
      by (auto simp: earlier_arm_def split: if_splits xpayload.splits option.splits)
    have mem: "x \<in> set ?L" using stored_mem [OF x(1)] by simp
    have own: "own_event (xe_Experiment x) x = Some p" using p(1) by (simp add: own_event_def)
    from earlier_arm_terms [OF assms(3) trial_ledger_ok [OF assms(2)] own mem, of t] p(3) have "tr_ID s = xe_Experiment x" by auto
    moreover have "p \<in> set (arms (xe_Experiment x) ?L)"
      using own mem p(2) by (force simp: arms_def xev_def List.map_filter_def)
    ultimately show ?thesis using p(4) keep by auto
  next
    fix s uid t
    assume "Inr (Some a) = Inr (Some (arm_at (tr_ID s) (tr_Assignments s)))"
      and "xw_ledger w' = ?L @ [experimentEnvelope uid (tr_ID s) (as_ExecutionID inp) t (assigned_event s)]"
    then show ?thesis
      by (auto simp: assigned_event_def Let_def arm_at_def arm_name_def)
  qed
qed

lemma arm_named:
  assumes "trial_ledger L" and "p \<in> set (arms i L)"
  shows "xp_Assignment p = arm_name (xp_Assignment p = ''variant'')"
proof -
  have "xev i L \<noteq> []" using assms(2) by (auto simp: arms_def)
  with trial_ledger_ok [OF assms(1)] obtain t where t: "trial_ok i t L" by (auto simp: ledger_ok_def)
  obtain k where k: "k < length (arms i L)" "p = arms i L ! k" using assms(2) by (auto simp: in_set_conv_nth)
  then have "xp_Assignment p = arm_name (an_Variant (arm_at i (int k)))" using t by (auto simp: trial_ok_def arm_ok_def)
  then show ?thesis by (auto simp: arm_name_def split: if_splits)
qed

lemma atoi_itoa: "0 \<le> n \<Longrightarrow> n < 2 ^ 63 \<Longrightarrow> atoi_or (itoa n) = n"
  by (simp add: atoi_or_def itoa_def Atoi_dec_str)

subsection \<open>Properties\<close>

text \<open>The candidate for a trial is judged by the same policy, approvals and boundary.\<close>

lemma trial_router_simps:
  assumes "r' = New ((ro_cfg r)\<lparr>cf_ObserveOnly := False\<rparr>) (ro_spend r)"
  shows "usable r' p t = usable r p t" "cf_Boundary (ro_cfg r') = cf_Boundary (ro_cfg r)"
    "cf_ProposeOnly (ro_cfg r') = cf_ProposeOnly (ro_cfg r)" "decisionFor r' p m t = decisionFor r p m t"
  by (auto simp: assms New_def usable_def permits_def is_available_def decisionFor_def split: option.split)

lemma applied_as_allowed:
  assumes "rec \<in> set (fst (Run r (Some (routing_request provider obs b)))) \<or>
      rec \<in> set (fst (RunForExplicitTrial (Some r) (Some (routing_request provider obs b))))"
    and "rc_ApplyBody rec \<noteq> NoBody"
  shows "let t = rc_TargetModel rec; m = ob_RequestModel obs
    in usable r provider t \<and> rewriteModel b t = Inr (rc_ApplyBody rec) \<and>
       (cf_ProposeOnly (ro_cfg r) \<longrightarrow> decisionFor r provider m t = DecisionApproved) \<and>
       (\<forall>check. cf_Boundary (ro_cfg r) = Some check \<longrightarrow> \<not> fst (check provider m t (ob_WorkflowID obs) (ob_AgentID obs)))"
proof -
  let ?r' = "New ((ro_cfg r)\<lparr>cf_ObserveOnly := False\<rparr>) (ro_spend r)"
  from assms(1) show ?thesis
  proof
    assume "rec \<in> set (fst (Run r (Some (routing_request provider obs b))))"
    from Run_applies [OF this assms(2)] show ?thesis by (auto simp: Let_def routing_request_def)
  next
    assume "rec \<in> set (fst (RunForExplicitTrial (Some r) (Some (routing_request provider obs b))))"
    then have "rec \<in> set (fst (Run ?r' (Some (routing_request provider obs b))))" by (simp add: RunForExplicitTrial_def)
    from Run_applies [OF this assms(2)] show ?thesis
      by (auto simp: Let_def routing_request_def trial_router_simps [OF refl])
  qed
qed

text \<open>
  C9: A proxied request is moved to another model only on evidence. Where the middleware forwards other
  than the body it was given, that is the same body with the model replaced by one that is permitted and up, that
  takes everything the request uses, on no route a boundary holds and, where the optimizer only proposes, on one the operator
  approved; and either the execution drew the variant in a trial, or the outcomes of that very
  path were read back as trusted. The move is published as applied.
\<close>

theorem moved_on_evidence:
  assumes "routingMiddleware px provider obs b whole w = (Inr out, w')" and "fw_body out \<noteq> b"
  shows "let t = ob_RoutedModel (fw_obs out); m = ob_RequestModel obs
    in \<exists>r. px_router px = Some r \<and> usable r provider t \<and> rewriteModel b t = Inr (fw_body out) \<and>
       anthropicRouteIncompatibility provider t b = [] \<and>
       (cf_ProposeOnly (ro_cfg r) \<longrightarrow> decisionFor r provider m t = DecisionApproved) \<and>
       (\<forall>check. cf_Boundary (ro_cfg r) = Some check \<longrightarrow> \<not> fst (check provider m t (ob_WorkflowID obs) (ob_AgentID obs))) \<and>
       ((\<exists>asg v. assign_for px provider obs t w = (Inr (Some asg), v) \<and> an_Variant asg) \<or>
        (\<exists>now v bel u. xw_ledger v = xw_ledger w' \<and> IsTrusted bel \<and>
          FindRouting now (RouteFingerprint provider m t ''proxy'') now v = (Inr (Some bel), u))) \<and>
       (px_bus px \<longrightarrow> (\<exists>e. PubOptimization e \<in> set (fw_events out) \<and> oe_Decision e = OptimizationDecisionApplied))"
  using assms(1)
proof (cases rule: middleware_cases)
  case (go r rec trial a v props)
  let ?t = "ob_RoutedModel (fw_obs out)" and ?m = "ob_RequestModel obs"
  from after_assignment_gives [OF go(6)] go(3) assms(2) obtain rec' where rec': "rec' = rec \<or> trial = Some rec'"
      "rc_ApplyBody rec' \<noteq> NoBody" "fw_body out = rc_ApplyBody rec'" and t: "?t = rc_TargetModel rec" and l: "xw_ledger w' = xw_ledger v"
      and bus: "px_bus px \<longrightarrow> (\<exists>e. PubOptimization e \<in> set (fw_events out) \<and> oe_Decision e = OptimizationDecisionApplied)"
      and why: "(\<exists>asg. a = Some asg \<and> an_Variant asg) \<or>
        a = None \<and> (\<exists>t u bel u'. xw_ledger u = xw_ledger v \<and> IsTrusted bel \<and>
          FindRouting t (RouteFingerprint provider ?m (rc_TargetModel rec) ''proxy'') t u = (Inr (Some bel), u'))"
    by auto
  have t': "rc_TargetModel rec' = ?t" using rec'(1) go(3) t by auto
  have "rec' \<in> set (fst (Run r (Some (routing_request provider obs b)))) \<or>
      rec' \<in> set (fst (RunForExplicitTrial (Some r) (Some (routing_request provider obs b))))"
    using rec'(1) go(2,3) by blast
  from applied_as_allowed [OF this rec'(2)] t' rec'(3)
  have ok: "usable r provider ?t" "rewriteModel b ?t = Inr (fw_body out)"
      "cf_ProposeOnly (ro_cfg r) \<longrightarrow> decisionFor r provider ?m ?t = DecisionApproved"
      "\<forall>check. cf_Boundary (ro_cfg r) = Some check \<longrightarrow> \<not> fst (check provider ?m ?t (ob_WorkflowID obs) (ob_AgentID obs))"
    by (simp_all add: Let_def)
  have "(\<exists>asg v. assign_for px provider obs ?t w = (Inr (Some asg), v) \<and> an_Variant asg) \<or>
      (\<exists>now u bel u'. xw_ledger u = xw_ledger w' \<and> IsTrusted bel \<and>
        FindRouting now (RouteFingerprint provider ?m ?t ''proxy'') now u = (Inr (Some bel), u'))"
    using why go(5) unfolding t l by auto
  moreover have "anthropicRouteIncompatibility provider ?t b = []" using go(4) t by simp
  ultimately show ?thesis using go(1) ok bus unfolding Let_def by blast
qed (use assms(2) in simp)

text \<open>
  A decision says truly what trial it was part of. Where the decision published for a request names a
  pair and an arm, the ledger holds that assignment: the same trial, pair and arm. With this the ledgers the
  proxy's decisions are stored in are of the kind on which a belief takes two trials.
\<close>

theorem decision_carries_assignment:
  assumes "trial_ledger (xw_ledger w)" and "length (xw_ledger w) \<le> read_limit"
    and "routingMiddleware px provider obs b whole w = (Inr out, w')"
    and "PubDecision env \<in> set (fw_events out)" and "enrolled_pair env = Some n"
  shows "\<exists>p\<in>set (arms (xe_Experiment env) (xw_ledger w')). xp_Pair p = n \<and>
    attribute env ''tokenops.experiment.arm'' = xp_Assignment p"
  using assms(3)
proof (cases rule: middleware_cases)
  case (go r rec trial a v props)
  from after_assignment_gives [OF go(6)] go(3) assms(4) obtain env0 where env: "env = enrolled_event a env0" "xe_Attributes env0 = []"
      and l: "xw_ledger w' = xw_ledger v" by blast
  obtain asg where a: "a = Some asg"
    using env assms(5) by (cases a) (auto simp: enrolled_event_def enrolled_pair_def attribute_def atoi_or_def Atoi_def Let_def split: xpayload.splits)
  with go(5) have as: "assign_for px provider obs (rc_TargetModel rec) w = (Inr (Some asg), v)" by simp
  obtain t u where t: "utcNow zero_time w = (Inr t, u)" using utcNow_runs by blast
  have off: "Assign False inp u = (Inr None, u)" for inp by (simp add: Assign_def)
  have on: "px_experiments px"
  proof (rule ccontr)
    assume "\<not> px_experiments px"
    then show False using as by (simp add: assign_for_def io_bind_def t off)
  qed
  have u: "xw_ledger u = xw_ledger w" using io_steps(2) [OF t] .
  from as on t obtain inp where inp: "Assign True inp u = (Inr (Some asg), v)" by (auto simp: assign_for_def io_bind_def)
  from arm_recorded [OF inp] assms(1,2) u obtain p where p: "p \<in> set (arms (an_ExperimentID asg) (xw_ledger v))"
      "xp_Pair p = an_Pair asg" "an_Variant asg = (xp_Assignment p = ''variant'')" by auto
  have tl: "trial_ledger (xw_ledger v)" using Assign_keeps_ledger [OF inp] assms(1,2) u by simp
  have "xp_Pair p \<in> {1..10}" by (rule pair_bounds [OF tl p(1)])
  then have range: "atoi_or (itoa (an_Pair asg)) = an_Pair asg" using p(2) by (intro atoi_itoa) auto
  have x: "xe_Experiment env = an_ExperimentID asg" "xe_Attributes env = experimentAttributes asg (an_Variant asg)"
    using env(1) a by (simp_all add: enrolled_event_def)
  then have "n = an_Pair asg" "attribute env ''tokenops.experiment.arm'' = arm_name (an_Variant asg)"
    using assms(5) range by (auto simp: enrolled_pair_def attribute_def experimentAttributes_def Let_def split: xpayload.splits if_splits)
  then show ?thesis using p x(1) l arm_named [OF tl p(1)] by auto
qed (use assms(4) in simp)

text \<open>
  C24: A daemon whose routing is configured without written rules routes nothing. Smart routing and the
  policy on models both make a configuration of the router, and \<open>configureRouting\<close> reports it as wired; but
  \<open>WithActiveRouting\<close> drops one with no rules, and every request goes on as it came, one for a model the policy forbids as well.
\<close>

theorem rules_free_never_routes:
  assumes "oc_RoutingRules (cg_Optimizer cfg) = []" and "px_router px = None"
  shows "routingMiddleware (configureRouting cfg pressure approvals check store e px) provider obs b whole w = (Inr (unrouted obs b [] []), w)"
proof -
  have "cf_Rules rc = []" if "RouterConfig cfg = Some rc" for rc
    using that assms(1) by (auto simp: RouterConfig_def optimizer_RouterConfig_def routerConfig_def Let_def split: if_splits)
  then have rules: "WithActiveRouting (rc'\<lparr>cf_Boundary := c\<rparr>) e px = px"
    if "RouterConfig cfg = Some rc" "cf_Rules rc' = cf_Rules rc" for rc rc' c
    using that by (simp add: WithActiveRouting_def)
  have "px_router (configureRouting cfg pressure approvals check store e px) = None"
  proof (cases "RouterConfig cfg")
    case None
    then show ?thesis using assms(2) by (simp add: configureRouting_def)
  next
    case (Some rc)
    then show ?thesis using assms(2) rules [OF Some]
      by (cases approvals) (simp_all add: configureRouting_def AttachApprovalGate_def Let_def)
  qed
  then show ?thesis by (simp add: routingMiddleware_def)
qed

subsection \<open>One request\<close>

definition gate_proxy :: proxy where
  "gate_proxy = \<lparr>px_router = Some down_router, px_experiments = True, px_bus = True\<rparr>"

definition gate_obs :: observation where
  "gate_obs =
     \<lparr>ob_PromptHash = [], ob_RequestModel = ''claude-opus'', ob_RoutedModel = [], ob_WorkflowID = [], ob_AgentID = [],
      ob_ExecutionID = ''run'', ob_InputTokens = 10, ob_MaxOutput = 5, ob_CostSource = [], ob_Decision = [], ob_Intervention = [],
      ob_Experiment = []\<rparr>"

abbreviation gate_request :: opt_request where
  "gate_request \<equiv> routing_request ''anthropic'' gate_obs chat_body"

definition gate_rec :: recommendation where
  "gate_rec = apply_route down_router gate_request down_rule ''claude-haiku'' []"

lemma gate_run: "Run down_router (Some gate_request) = ([gate_rec], [])"
proof -
  have "rule_for down_router gate_request = Some down_rule" by code_simp
  moreover have "\<not> f_lt (ru_Quality down_rule) (cf_MinQuality (ro_cfg down_router))" by code_simp
  moreover have "window_scope down_router ''anthropic'' down_rule = Some []" "class_scope down_router chat_body down_rule = Some []"
    by code_simp+
  moreover have "pickTarget down_router ''anthropic'' down_rule = Some ''claude-haiku''" by code_simp
  moreover have "route_to down_router gate_request down_rule ''claude-haiku'' [] = ([gate_rec], [])"
    by (simp add: route_to_def gate_rec_def down_router_def New_def quiet_config_def hold_upgrade_def upgradeCheck_def preferredFor_def Let_def)
  ultimately show ?thesis by (simp add: Run_def routing_request_def gate_obs_def)
qed

lemma gate_rec_body: "rc_ApplyBody gate_rec \<noteq> NoBody" "rc_ApplyBody gate_rec \<noteq> chat_body" "rc_TargetModel gate_rec = ''claude-haiku''"
  by (simp_all add: gate_rec_def) code_simp+

lemma gate_compatible: "anthropicRouteIncompatibility ''anthropic'' ''claude-haiku'' chat_body = []"
  by code_simp

text \<open>The middleware on this request: the assignment, then what it decides.\<close>

lemma gate_middleware:
  assumes "assign_for gate_proxy ''anthropic'' gate_obs ''claude-haiku'' w = (Inr a, v)"
  shows "routingMiddleware gate_proxy ''anthropic'' gate_obs chat_body True w =
    after_assignment gate_proxy ''anthropic'' gate_obs chat_body gate_rec None a [] v"
proof -
  have "trial_candidate gate_proxy down_router gate_request gate_obs gate_rec = (None, [])"
    using gate_rec_body by (simp add: trial_candidate_def)
  moreover have "px_router gate_proxy = Some down_router" "ob_RequestModel gate_obs \<noteq> []"
    by (simp_all add: gate_proxy_def gate_obs_def)
  ultimately show ?thesis using gate_rec_body gate_compatible assms
    by (simp add: routingMiddleware_def gate_run Let_def io_bind_def attempt_def)
qed

definition gate_terms :: trial_terms where
  "gate_terms = (tr_Terms demo_trial)\<lparr>tt_Baseline := \<lparr>ro_provider = ''anthropic'', ro_model = ''claude-opus'', ro_reason = []\<rparr>,
     tt_Variant := \<lparr>ro_provider = ''anthropic'', ro_model = ''claude-haiku'', ro_reason = []\<rparr>, tt_Fingerprint := []\<rparr>"

definition gate_event :: "xstage \<Rightarrow> string \<Rightarrow> int \<Rightarrow> exp_event" where
  "gate_event stage arm n = \<lparr>xp_Stage = stage, xp_Kind = ModelRoute, xp_Terms = gate_terms, xp_Assignment = arm, xp_Pair = n, xp_Reason = []\<rparr>"

definition gate_drawn :: "xenv list" where
  "gate_drawn =
     [experimentEnvelope ''u'' ''experiment:u'' [] \<lparr>t_ns = 0, t_off = 0\<rparr> (gate_event XStarted [] 0),
      experimentEnvelope ''v'' ''experiment:u'' ''run'' \<lparr>t_ns = 1, t_off = 0\<rparr> (gate_event XAssigned ''variant'' 1)]"

abbreviation gate_input :: "string \<Rightarrow> assign_input" where
  "gate_input f \<equiv> \<lparr>as_Provider = ''anthropic'', as_BaselineModel = ''claude-opus'', as_VariantModel = ''claude-haiku'',
     as_ExecutionID = ''run'', as_Fingerprint = f, as_At = \<lparr>t_ns = 2, t_off = 0\<rparr>\<rparr>"

lemma gate_first:
  "first_arm (gate_input f) (Fold (stored_events [] gate_drawn) \<lparr>t_ns = 2, t_off = 0\<rparr>) (rev (stored_events [] gate_drawn)) =
    Some \<lparr>an_ExperimentID = ''experiment:u'', an_Pair = 1, an_Variant = True\<rparr>"
  by code_simp

lemma gate_assigned:
  "assign_for gate_proxy ''anthropic'' gate_obs ''claude-haiku'' (demo_xworld gate_drawn 0) =
    (Inr (Some \<lparr>an_ExperimentID = ''experiment:u'', an_Pair = 1, an_Variant = True\<rparr>), demo_xworld gate_drawn 2)"
proof -
  have t: "utcNow zero_time (demo_xworld gate_drawn 0) = (Inr \<lparr>t_ns = 2, t_off = 0\<rparr>, demo_xworld gate_drawn (Suc 0))"
    by (simp add: utcNow_def IsZero_def zero_time_def UTC_def demo_xworld_def x_tick_def)
  have r: "ExperimentEvents [] (demo_xworld gate_drawn (Suc 0)) = (Inr (stored_events [] gate_drawn), demo_xworld gate_drawn 2)"
    by (simp add: ExperimentEvents_def demo_xworld_def x_tick_def)
  have u: "utcNow \<lparr>t_ns = 2, t_off = 0\<rparr> (demo_xworld gate_drawn 2) = (Inr \<lparr>t_ns = 2, t_off = 0\<rparr>, demo_xworld gate_drawn 2)"
    by (simp add: utcNow_def IsZero_def zero_ns_def UTC_def)
  show ?thesis
    by (simp add: assign_for_def io_bind_def t r u Assign_def gate_proxy_def gate_obs_def gate_first)
qed

theorem moved_on_evidence_witness:
  "\<exists>out w'. routingMiddleware gate_proxy ''anthropic'' gate_obs chat_body True (demo_xworld gate_drawn 0) = (Inr out, w') \<and>
     rewriteModel chat_body (ob_RoutedModel (fw_obs out)) = Inr (fw_body out) \<and>
     (\<exists>e. PubOptimization e \<in> set (fw_events out) \<and> oe_Decision e = OptimizationDecisionApplied)"
proof -
  let ?a = "Some \<lparr>an_ExperimentID = ''experiment:u'', an_Pair = 1, an_Variant = True\<rparr>"
  obtain res w' where "Route (route_input_for ''anthropic'' gate_obs gate_rec (rc_Reason gate_rec) Automatic None) (demo_xworld gate_drawn 2) = (Inr res, w')"
    using Route_runs by blast
  then obtain out where "apply_routing gate_proxy ''anthropic'' gate_obs gate_rec ?a None [] (demo_xworld gate_drawn 2) = (Inr out, w')"
      "fw_body out = rc_ApplyBody gate_rec"
    by (simp add: apply_routing_def io_bind_def Let_def)
  then have m: "routingMiddleware gate_proxy ''anthropic'' gate_obs chat_body True (demo_xworld gate_drawn 0) = (Inr out, w')" "fw_body out \<noteq> chat_body"
    using gate_rec_body unfolding gate_middleware [OF gate_assigned]
    by (auto simp: after_assignment_def split: body.split)
  from moved_on_evidence [OF m] have "rewriteModel chat_body (ob_RoutedModel (fw_obs out)) = Inr (fw_body out)"
      "\<exists>e. PubOptimization e \<in> set (fw_events out) \<and> oe_Decision e = OptimizationDecisionApplied"
    by (auto simp: Let_def gate_proxy_def)
  with m show ?thesis by blast
qed

text \<open>The same request with a trial just started: whichever arm is drawn, the decision says so.\<close>

lemma gate_decides:
  "\<exists>out w' env0 d f. after_assignment gate_proxy ''anthropic'' gate_obs chat_body gate_rec None (Some asg) [] v = (Inr out, w') \<and>
     PubDecision (enrolled_event (Some asg) env0) \<in> set (fw_events out) \<and> xe_Payload env0 = XDecision d f"
proof (cases "an_Variant asg")
  case True
  obtain res v' d f where "Route (route_input_for ''anthropic'' gate_obs gate_rec (rc_Reason gate_rec) Automatic None) v = (Inr res, v')"
      "xe_Payload (rs_Event res) = XDecision d f"
    using Route_runs by blast
  then show ?thesis using True gate_rec_body(1)
    by (cases "rc_ApplyBody gate_rec") (auto simp: after_assignment_def apply_routing_def io_bind_def Let_def gate_proxy_def)
next
  case False
  obtain res v' d f where "Route (route_input_for ''anthropic'' gate_obs gate_rec (rc_Reason gate_rec) ObserveOnly None) v = (Inr res, v')"
      "xe_Payload (rs_Event res) = XDecision d f"
    using Route_runs by blast
  then show ?thesis using False by (auto simp: after_assignment_def io_bind_def Let_def gate_proxy_def unrouted_def)
qed

definition gate_start :: start_input where
  "gate_start = demo_start\<lparr>si_BaselineModel := ''claude-opus'', si_VariantModel := ''claude-haiku'', si_Fingerprint := [], si_Reason := []\<rparr>"

definition gate_trial :: trial where
  "gate_trial = \<lparr>tr_ID = ''experiment:u'', tr_Stage = XStarted, tr_Terms = gate_terms, tr_Assignments = 0, tr_Reason = []\<rparr>"

abbreviation gate_started :: "xenv list" where
  "gate_started \<equiv> [hd gate_drawn]"

lemma gate_starts: "Start True gate_start (demo_xworld [] 0) = (Inr gate_trial, demo_xworld gate_started 3)"
  using demo_policy
  by (simp add: Start_def Let_def gate_start_def demo_start_def demo_xworld_def gate_trial_def gate_terms_def demo_trial_def gate_drawn_def
      gate_event_def io_bind_def io_then_def utcNow_def x_uuid_def x_tick_def ledger_append_def IsZero_def UTC_def zero_ns_def
      defaultPairs_def maxPairs_def defaultDuration_def Add_def)

lemma gate_ledger: "trial_ledger gate_started"
  using start_trial [OF _ gate_starts] empty_ledger by (simp add: demo_xworld_def)

lemma gate_next:
  "first_arm (gate_input f) (Fold (stored_events [] gate_started) \<lparr>t_ns = 2, t_off = 0\<rparr>) (rev (stored_events [] gate_started)) = None"
  "next_trial (gate_input f) (stored_events [] gate_started) \<lparr>t_ns = 2, t_off = 0\<rparr> = Some gate_trial"
  by code_simp+

lemma gate_assigns:
  "\<exists>v. assign_for gate_proxy ''anthropic'' gate_obs ''claude-haiku'' (demo_xworld gate_started 3) =
    (Inr (Some (arm_at ''experiment:u'' 0)), v)"
proof -
  have t: "utcNow zero_time (demo_xworld gate_started 3) = (Inr \<lparr>t_ns = 2, t_off = 0\<rparr>, demo_xworld gate_started 4)"
    by (simp add: utcNow_def IsZero_def zero_time_def UTC_def demo_xworld_def x_tick_def)
  have r: "ExperimentEvents [] (demo_xworld gate_started 4) = (Inr (stored_events [] gate_started), demo_xworld gate_started 5)"
    by (simp add: ExperimentEvents_def demo_xworld_def x_tick_def)
  have u: "utcNow \<lparr>t_ns = 2, t_off = 0\<rparr> (demo_xworld gate_started 5) = (Inr \<lparr>t_ns = 2, t_off = 0\<rparr>, demo_xworld gate_started 5)"
    by (simp add: utcNow_def IsZero_def zero_ns_def UTC_def)
  have x: "x_uuid (demo_xworld gate_started 5) = (Inr ''u'', demo_xworld gate_started 6)"
    by (simp add: x_uuid_def demo_xworld_def x_tick_def)
  have a: "\<exists>v. ledger_append env (demo_xworld gate_started 6) = (Inr (), v)" for env
    by (simp add: ledger_append_def demo_xworld_def)
  have g: "tr_ID gate_trial = ''experiment:u''" "tr_Assignments gate_trial = 0" by (simp_all add: gate_trial_def)
  obtain v where "ledger_append (experimentEnvelope ''u'' ''experiment:u'' ''run'' \<lparr>t_ns = 2, t_off = 0\<rparr> (assigned_event gate_trial))
      (demo_xworld gate_started 6) = (Inr (), v)" using a by blast
  then show ?thesis
    by (simp add: assign_for_def io_bind_def t r u x Assign_def gate_proxy_def gate_obs_def gate_next io_then_def g)
qed

theorem decision_carries_assignment_witness:
  "\<exists>out w' env. routingMiddleware gate_proxy ''anthropic'' gate_obs chat_body True (demo_xworld gate_started 3) = (Inr out, w') \<and>
     PubDecision env \<in> set (fw_events out) \<and>
     (\<exists>p\<in>set (arms (xe_Experiment env) (xw_ledger w')). xp_Pair p = 1 \<and> attribute env ''tokenops.experiment.arm'' = xp_Assignment p)"
proof -
  let ?a = "arm_at ''experiment:u'' 0"
  obtain v where v: "assign_for gate_proxy ''anthropic'' gate_obs ''claude-haiku'' (demo_xworld gate_started 3) = (Inr (Some ?a), v)"
    using gate_assigns by blast
  obtain out w' env0 d f where m: "routingMiddleware gate_proxy ''anthropic'' gate_obs chat_body True (demo_xworld gate_started 3) = (Inr out, w')"
      and env: "PubDecision (enrolled_event (Some ?a) env0) \<in> set (fw_events out)" "xe_Payload env0 = XDecision d f"
    using gate_decides unfolding gate_middleware [OF v] by blast
  have one: "itoa 1 = ''1''" by code_simp
  have "atoi_or ''1'' = 1" by code_simp
  then have n: "enrolled_pair (enrolled_event (Some ?a) env0) = Some 1"
    using env(2) by (simp add: enrolled_pair_def enrolled_event_def experimentAttributes_def attribute_def arm_at_def Let_def one arm_name_def)
  have l: "xw_ledger (demo_xworld gate_started 3) = gate_started" by (simp add: demo_xworld_def)
  from decision_carries_assignment [OF _ _ m env(1) n] m env(1) show ?thesis
    unfolding l using gate_ledger by (auto simp: read_limit_def)
qed

definition smart_only :: route_settings where
  "smart_only =
     \<lparr>cg_Optimizer = \<lparr>oc_Mode = ''automatic'', oc_RoutingRules = [], oc_RoutingMinQuality = Fin 0,
        oc_SmartRouting = \<lparr>sm_Enabled = True, sm_WindowPctAbove = Fin 0, sm_Quality = Fin 0, sm_Intervention = [], sm_AutoKinds = [],
          sm_Models = []\<rparr>\<rparr>,
      cg_PreferredModels = [], cg_ModelPolicy = \<lparr>mp_Allow = [], mp_Deny = [''*opus*'']\<rparr>, cg_Plans = []\<rparr>"

theorem rules_free_never_routes_witness:
  "RouterConfig smart_only \<noteq> None \<and> \<not> Permits (cg_ModelPolicy smart_only) ''anthropic'' ''claude-opus'' \<and>
   routingMiddleware (configureRouting smart_only None None (\<lambda>_ _ _ _ _. (False, [])) True None \<lparr>px_router = None, px_experiments = False, px_bus = True\<rparr>)
     ''anthropic'' gate_obs chat_body True (demo_xworld [] 0) = (Inr (unrouted gate_obs chat_body [] []), demo_xworld [] 0)"
proof (intro conjI)
  show "RouterConfig smart_only \<noteq> None" by code_simp
  show "\<not> Permits (cg_ModelPolicy smart_only) ''anthropic'' ''claude-opus''" by code_simp
qed (rule rules_free_never_routes; simp add: smart_only_def)

end
