(* ===== verification/ResponseCache.thy ===== *)
theory ResponseCache
  imports Sha256 GoTime "HOL-Library.AList"
begin

text \<open>
  The response cache of the proxy (\<open>internal/proxy/cache/cache.go\<close>) and the middleware that asks
  it before a request goes upstream (\<open>internal/proxy/cache_middleware.go\<close>, \<open>captureRequestBody\<close> of
  \<open>observation.go\<close>). The elements of the recency list carry an identity, as the pointers of
  \<open>container/list\<close> do, so that the key table refers to them. A request is two steps, the look-up and
  the storing, with the upstream call in between; \<open>cache_traffic\<close> interleaves the steps of any
  number of requests. Headers are tables from canonical names to values.
\<close>

subsection \<open>The store\<close>

type_synonym http_header = "(string \<times> string list) list"

record cache_entry =
  ce_Status :: int
  ce_Headers :: http_header
  ce_Body :: string
  ce_StoredAt :: gotime
  ce_ContentType :: string

record lru_item =
  li_id :: nat
  li_key :: string
  li_entry :: cache_entry

record cache_options =
  co_MaxEntries :: int
  co_MaxBytes :: int
  co_MaxEntryBytes :: int
  co_TTL :: duration

record response_cache =
  rc_entries :: "(string \<times> nat) list"
  rc_lru :: "lru_item list"
  rc_next :: nat
  rc_maxEntries :: int
  rc_maxBytes :: int
  rc_maxEntryBytes :: int
  rc_ttl :: duration
  rc_bytes :: int
  rc_hits :: int
  rc_misses :: int
  rc_stores :: int
  rc_bypasses :: int
  rc_evictions :: int

record cache_metrics =
  cm_Hits :: int
  cm_Misses :: int
  cm_Stores :: int
  cm_Bypasses :: int
  cm_Evictions :: int
  cm_Entries :: int
  cm_Bytes :: int

definition New_cache :: "cache_options \<Rightarrow> response_cache" where
  "New_cache opts =
     \<lparr>rc_entries = [], rc_lru = [], rc_next = 0,
      rc_maxEntries = (if co_MaxEntries opts \<le> 0 then 1024 else co_MaxEntries opts),
      rc_maxBytes = (if co_MaxBytes opts \<le> 0 then 64 * 1024 * 1024 else co_MaxBytes opts),
      rc_maxEntryBytes = (if co_MaxEntryBytes opts \<le> 0 then 4 * 1024 * 1024 else co_MaxEntryBytes opts),
      rc_ttl = (if co_TTL opts \<le> 0 then 600 * 10 ^ 9 else co_TTL opts),
      rc_bytes = 0, rc_hits = 0, rc_misses = 0, rc_stores = 0, rc_bypasses = 0, rc_evictions = 0\<rparr>"

definition body_size :: "lru_item \<Rightarrow> int" where
  "body_size it = int (length (ce_Body (li_entry it)))"

definition find_item :: "response_cache \<Rightarrow> string \<Rightarrow> lru_item option" where
  "find_item c key =
     (case map_of (rc_entries c) key of None \<Rightarrow> None
      | Some i \<Rightarrow> find (\<lambda>it. li_id it = i) (rc_lru c))"

definition removeElement :: "lru_item \<Rightarrow> response_cache \<Rightarrow> response_cache" where
  "removeElement it c =
     c\<lparr>rc_entries := AList.delete (li_key it) (rc_entries c),
       rc_lru := filter (\<lambda>x. li_id x \<noteq> li_id it) (rc_lru c),
       rc_bytes := rc_bytes c - body_size it,
       rc_evictions := rc_evictions c + 1\<rparr>"

definition move_to_front :: "lru_item \<Rightarrow> lru_item list \<Rightarrow> lru_item list" where
  "move_to_front it l = it # filter (\<lambda>x. li_id x \<noteq> li_id it) l"

definition over_limit :: "response_cache \<Rightarrow> bool" where
  "over_limit c \<longleftrightarrow> rc_maxEntries c < int (length (rc_lru c)) \<or> rc_maxBytes c < rc_bytes c"

function evictWhileOverLimit :: "response_cache \<Rightarrow> response_cache" where
  "evictWhileOverLimit c =
     (if over_limit c \<and> rc_lru c \<noteq> [] then evictWhileOverLimit (removeElement (last (rc_lru c)) c) else c)"
  by pat_completeness auto
termination
proof (relation "measure (\<lambda>c. length (rc_lru c))")
  fix c :: response_cache
  assume "over_limit c \<and> rc_lru c \<noteq> []"
  then have "last (rc_lru c) \<in> set (rc_lru c)" by simp
  then have "length (filter (\<lambda>x. li_id x \<noteq> li_id (last (rc_lru c))) (rc_lru c)) < length (rc_lru c)"
    by (intro length_filter_less) auto
  then show "(removeElement (last (rc_lru c)) c, c) \<in> measure (\<lambda>c. length (rc_lru c))"
    by (simp add: removeElement_def)
qed simp

declare evictWhileOverLimit.simps [simp del]

text \<open>\<open>Get\<close> at the instant the cache's clock shows; a hit is a copy of the entry.\<close>

definition Get :: "gotime \<Rightarrow> string \<Rightarrow> response_cache \<Rightarrow> cache_entry option \<times> response_cache" where
  "Get now key c =
     (case find_item c key of
        None \<Rightarrow> (None, c\<lparr>rc_misses := rc_misses c + 1\<rparr>)
      | Some it \<Rightarrow>
          if rc_ttl c < Sub now (ce_StoredAt (li_entry it))
          then (let d = removeElement it c in (None, d\<lparr>rc_misses := rc_misses d + 1\<rparr>))
          else (Some (li_entry it),
                c\<lparr>rc_lru := move_to_front it (rc_lru c), rc_hits := rc_hits c + 1\<rparr>))"

definition stamp :: "gotime \<Rightarrow> cache_entry \<Rightarrow> cache_entry" where
  "stamp now e = (if IsZero (ce_StoredAt e) then e\<lparr>ce_StoredAt := now\<rparr> else e)"

definition place :: "string \<Rightarrow> cache_entry \<Rightarrow> response_cache \<Rightarrow> response_cache" where
  "place key e c =
     (case find_item c key of
        Some it \<Rightarrow>
          c\<lparr>rc_bytes := rc_bytes c - body_size it + int (length (ce_Body e)),
            rc_lru := move_to_front (it\<lparr>li_entry := e\<rparr>) (rc_lru c)\<rparr>
      | None \<Rightarrow>
          c\<lparr>rc_lru := \<lparr>li_id = rc_next c, li_key = key, li_entry = e\<rparr> # rc_lru c,
            rc_entries := AList.update key (rc_next c) (rc_entries c),
            rc_next := Suc (rc_next c),
            rc_bytes := rc_bytes c + int (length (ce_Body e))\<rparr>)"

definition Put :: "gotime \<Rightarrow> string \<Rightarrow> cache_entry option \<Rightarrow> response_cache \<Rightarrow> bool \<times> response_cache" where
  "Put now key entry c =
     (case entry of
        None \<Rightarrow> (False, c)
      | Some e \<Rightarrow>
          if rc_maxEntryBytes c < int (length (ce_Body e)) then (False, c)
          else (let d = place key (stamp now e) c
                in (True, evictWhileOverLimit (d\<lparr>rc_stores := rc_stores d + 1\<rparr>))))"

definition MarkBypass :: "response_cache \<Rightarrow> response_cache" where
  "MarkBypass c = c\<lparr>rc_bypasses := rc_bypasses c + 1\<rparr>"

definition Delete :: "string \<Rightarrow> response_cache \<Rightarrow> response_cache" where
  "Delete key c = (case find_item c key of None \<Rightarrow> c | Some it \<Rightarrow> removeElement it c)"

definition Purge :: "response_cache \<Rightarrow> response_cache" where
  "Purge c = c\<lparr>rc_entries := [], rc_lru := [], rc_bytes := 0\<rparr>"

definition Len :: "response_cache \<Rightarrow> nat" where
  "Len c = length (rc_entries c)"

definition Metrics :: "response_cache \<Rightarrow> cache_metrics" where
  "Metrics c =
     \<lparr>cm_Hits = rc_hits c, cm_Misses = rc_misses c, cm_Stores = rc_stores c,
      cm_Bypasses = rc_bypasses c, cm_Evictions = rc_evictions c,
      cm_Entries = int (length (rc_entries c)), cm_Bytes = rc_bytes c\<rparr>"

text \<open>The calls of the store, in any order.\<close>

datatype cache_call =
    Look gotime string | Keep gotime string cache_entry | Bypass | Drop string | Clear

fun cache_do :: "cache_call \<Rightarrow> response_cache \<Rightarrow> response_cache" where
  "cache_do (Look now key) c = snd (Get now key c)"
| "cache_do (Keep now key e) c = snd (Put now key (Some e) c)"
| "cache_do Bypass c = MarkBypass c"
| "cache_do (Drop key) c = Delete key c"
| "cache_do Clear c = Purge c"

subsection \<open>What holds between calls\<close>

text \<open>
  Between calls the table and the list name the same elements: \<open>linked\<close> says so, with the byte count
  the sum of the bodies and no body above the limit. \<open>inside\<close> adds the two totals.
\<close>

definition linked :: "response_cache \<Rightarrow> bool" where
  "linked c \<longleftrightarrow>
     distinct (map li_id (rc_lru c)) \<and> distinct (map li_key (rc_lru c))
     \<and> distinct (map fst (rc_entries c))
     \<and> set (rc_entries c) = (\<lambda>it. (li_key it, li_id it)) ` set (rc_lru c)
     \<and> list_all (\<lambda>it. li_id it < rc_next c \<and> body_size it \<le> rc_maxEntryBytes c) (rc_lru c)
     \<and> rc_bytes c = sum_list (map body_size (rc_lru c))"

definition inside :: "response_cache \<Rightarrow> bool" where
  "inside c \<longleftrightarrow> linked c \<and> \<not> over_limit c"

text \<open>What the store has under a key, whatever its age.\<close>

definition resident :: "response_cache \<Rightarrow> string \<Rightarrow> cache_entry option" where
  "resident c key = map_option li_entry (find_item c key)"

definition limits_set :: "response_cache \<Rightarrow> bool" where
  "limits_set c \<longleftrightarrow> 0 < rc_maxEntries c \<and> 0 < rc_maxBytes c \<and> 0 < rc_maxEntryBytes c \<and> 0 < rc_ttl c"

lemma New_cache_limits: "limits_set (New_cache opts)"
  by (simp add: New_cache_def limits_set_def)

lemma New_cache_inside: "inside (New_cache opts)"
  by (simp add: New_cache_def inside_def linked_def over_limit_def)

lemma find_item_Some:
  assumes "linked c"
  shows "find_item c key = Some it \<longleftrightarrow> it \<in> set (rc_lru c) \<and> li_key it = key"
proof -
  have d: "distinct (map li_id (rc_lru c))" and dk: "distinct (map fst (rc_entries c))"
    and s: "set (rc_entries c) = (\<lambda>it. (li_key it, li_id it)) ` set (rc_lru c)"
    using assms by (auto simp: linked_def)
  have one: "x = y" if "x \<in> set (rc_lru c)" "y \<in> set (rc_lru c)" "li_id x = li_id y" for x y
    using d that by (simp add: distinct_map inj_on_def)
  have m: "map_of (rc_entries c) key = Some i \<longleftrightarrow> (\<exists>x\<in>set (rc_lru c). li_key x = key \<and> li_id x = i)" for i
    using dk s by (auto simp: image_iff)
  show ?thesis
  proof
    assume "find_item c key = Some it"
    then obtain i where i: "map_of (rc_entries c) key = Some i" "find (\<lambda>it. li_id it = i) (rc_lru c) = Some it"
      by (auto simp: find_item_def split: option.splits)
    then have "it \<in> set (rc_lru c)" "li_id it = i" by (auto simp: find_Some_iff)
    with i(1) m one show "it \<in> set (rc_lru c) \<and> li_key it = key" by blast
  next
    assume it: "it \<in> set (rc_lru c) \<and> li_key it = key"
    then have mi: "map_of (rc_entries c) key = Some (li_id it)" using m by blast
    obtain x where x: "find (\<lambda>x. li_id x = li_id it) (rc_lru c) = Some x"
      using it by (cases "find (\<lambda>x. li_id x = li_id it) (rc_lru c)") (auto simp: find_None_iff)
    then have "x \<in> set (rc_lru c)" "li_id x = li_id it" by (auto simp: find_Some_iff)
    with it one have "x = it" by blast
    with mi x show "find_item c key = Some it" by (simp add: find_item_def)
  qed
qed

lemma find_item_None:
  "linked c \<Longrightarrow> find_item c key = None \<longleftrightarrow> (\<forall>it\<in>set (rc_lru c). li_key it \<noteq> key)"
  using find_item_Some by (metis option.exhaust option.distinct(1))

lemma resident_Some:
  "linked c \<Longrightarrow> resident c key = Some e \<longleftrightarrow> (\<exists>it\<in>set (rc_lru c). li_key it = key \<and> li_entry it = e)"
  using find_item_Some by (auto simp: resident_def)

lemma keys_one:
  "linked c \<Longrightarrow> x \<in> set (rc_lru c) \<Longrightarrow> y \<in> set (rc_lru c) \<Longrightarrow> li_key x = li_key y \<longleftrightarrow> li_id x = li_id y"
  by (auto simp: linked_def distinct_map inj_on_def)

lemma sum_split:
  "distinct (map li_id l) \<Longrightarrow> it \<in> set l \<Longrightarrow>
   sum_list (map f l) = (f it :: int) + sum_list (map f (filter (\<lambda>x. li_id x \<noteq> li_id it) l))"
proof (induction l)
  case (Cons y l)
  show ?case
  proof (cases "li_id y = li_id it")
    case True
    with Cons.prems have "y = it" "filter (\<lambda>x. li_id x \<noteq> li_id it) l = l"
      by (auto simp: filter_id_conv image_iff)
    then show ?thesis by simp
  next
    case False
    with Cons.prems have "it \<in> set l" "distinct (map li_id l)" by auto
    with Cons.IH False show ?thesis by simp
  qed
qed simp

lemma limits_removeElement [simp]:
  "rc_maxEntries (removeElement it c) = rc_maxEntries c" "rc_maxBytes (removeElement it c) = rc_maxBytes c"
  "rc_maxEntryBytes (removeElement it c) = rc_maxEntryBytes c" "rc_ttl (removeElement it c) = rc_ttl c"
  "rc_next (removeElement it c) = rc_next c"
  by (simp_all add: removeElement_def)

lemma linked_removeElement:
  assumes c: "linked c" and it: "it \<in> set (rc_lru c)"
  shows "linked (removeElement it c)"
proof -
  have sub: "set (AList.delete (li_key it) (rc_entries c)) = {kv \<in> set (rc_entries c). fst kv \<noteq> li_key it}"
    by (auto simp: AList.delete_eq)
  have "{kv \<in> set (rc_entries c). fst kv \<noteq> li_key it}
        = (\<lambda>x. (li_key x, li_id x)) ` set (filter (\<lambda>x. li_id x \<noteq> li_id it) (rc_lru c))"
    using c it keys_one [OF c _ it] by (auto simp: linked_def)
  moreover have "rc_bytes c - body_size it = sum_list (map body_size (filter (\<lambda>x. li_id x \<noteq> li_id it) (rc_lru c)))"
    using c it sum_split [of "rc_lru c" it body_size] by (simp add: linked_def)
  moreover have "distinct (map fst (AList.delete (li_key it) (rc_entries c)))"
    using c distinct_delete by (auto simp: linked_def)
  ultimately show ?thesis
    using c sub by (auto simp: linked_def removeElement_def distinct_map_filter list_all_iff)
qed

lemma set_removeElement:
  "linked c \<Longrightarrow> it \<in> set (rc_lru c) \<Longrightarrow>
   set (rc_lru (removeElement it c)) = {x \<in> set (rc_lru c). li_key x \<noteq> li_key it}"
  using keys_one by (auto simp: removeElement_def)

lemma over_removeElement: "\<not> over_limit c \<Longrightarrow> \<not> over_limit (removeElement it c)"
proof -
  assume c: "\<not> over_limit c"
  have "int (length (filter (\<lambda>x. li_id x \<noteq> li_id it) (rc_lru c))) \<le> int (length (rc_lru c))" by simp
  also have "\<dots> \<le> rc_maxEntries c" using c by (simp add: over_limit_def)
  finally show ?thesis using c by (simp add: over_limit_def removeElement_def body_size_def)
qed

lemma set_others:
  "distinct (map li_id l) \<Longrightarrow> it \<in> set l \<Longrightarrow> set (filter (\<lambda>x. li_id x \<noteq> li_id it) l) = set l - {it}"
  by (auto simp: distinct_map inj_on_def)

lemma same_mapI:
  assumes "\<And>k v. m k = Some v \<longleftrightarrow> m' k = Some v"
  shows "m = m'"
proof
  fix k
  show "m k = m' k" using assms [of k] by (cases "m' k"; cases "m k") auto
qed

text \<open>Putting an element in front, with another entry or the same, keeps the table and the list together.\<close>

lemma linked_front:
  assumes c: "linked c" and it: "it \<in> set (rc_lru c)"
    and fits: "int (length (ce_Body e)) \<le> rc_maxEntryBytes c"
  shows "linked (c\<lparr>rc_bytes := rc_bytes c - body_size it + int (length (ce_Body e)),
                  rc_lru := move_to_front (it\<lparr>li_entry := e\<rparr>) (rc_lru c)\<rparr>)"
    (is "linked ?d")
proof -
  let ?r = "filter (\<lambda>x. li_id x \<noteq> li_id it) (rc_lru c)"
  have lru: "rc_lru ?d = it\<lparr>li_entry := e\<rparr> # ?r" by (simp add: move_to_front_def)
  have d: "distinct (map li_id (rc_lru c))" using c by (simp add: linked_def)
  have r: "set ?r = {x \<in> set (rc_lru c). li_key x \<noteq> li_key it}"
    using keys_one [OF c] it by auto
  have "set (rc_lru c) = insert it (set ?r)" using set_others [OF d it] it by blast
  then have "(\<lambda>x. (li_key x, li_id x)) ` set (rc_lru c) = (\<lambda>x. (li_key x, li_id x)) ` insert it (set ?r)"
    by (rule arg_cong)
  then have "(\<lambda>x. (li_key x, li_id x)) ` set (rc_lru ?d) = (\<lambda>x. (li_key x, li_id x)) ` set (rc_lru c)"
    by (simp add: lru)
  moreover have "distinct (map li_id (rc_lru ?d))" using d by (auto simp: lru distinct_map_filter)
  moreover have "distinct (map li_key (rc_lru ?d))"
    unfolding lru using c r by (auto simp: linked_def distinct_map_filter simp del: set_filter)
  moreover have "rc_bytes ?d = sum_list (map body_size (rc_lru ?d))"
    unfolding lru using c it sum_split [OF d it, of body_size] by (simp add: linked_def body_size_def)
  moreover have "list_all (\<lambda>x. li_id x < rc_next c \<and> body_size x \<le> rc_maxEntryBytes c) (rc_lru ?d)"
    unfolding lru using c it fits by (auto simp: linked_def list_all_iff body_size_def)
  ultimately show ?thesis using c by (simp add: linked_def)
qed

lemma linked_refresh:
  assumes c: "linked c" and it: "it \<in> set (rc_lru c)"
  shows "linked (c\<lparr>rc_lru := move_to_front it (rc_lru c)\<rparr>)"
proof -
  have b: "int (length (ce_Body (li_entry it))) = body_size it" by (simp add: body_size_def)
  have "int (length (ce_Body (li_entry it))) \<le> rc_maxEntryBytes c"
    using c it by (auto simp: linked_def list_all_iff body_size_def)
  from linked_front [OF c it this] show ?thesis by (simp add: b)
qed

lemma linked_counters [simp]:
  "linked (c\<lparr>rc_hits := n\<rparr>) = linked c" "linked (c\<lparr>rc_misses := n\<rparr>) = linked c"
  "linked (c\<lparr>rc_stores := n\<rparr>) = linked c" "linked (c\<lparr>rc_bypasses := n\<rparr>) = linked c"
  by (simp_all add: linked_def)

lemma over_counters [simp]:
  "over_limit (c\<lparr>rc_hits := n\<rparr>) = over_limit c" "over_limit (c\<lparr>rc_misses := n\<rparr>) = over_limit c"
  "over_limit (c\<lparr>rc_stores := n\<rparr>) = over_limit c" "over_limit (c\<lparr>rc_bypasses := n\<rparr>) = over_limit c"
  by (simp_all add: over_limit_def)

lemma find_counters [simp]:
  "find_item (c\<lparr>rc_hits := n\<rparr>) = find_item c" "find_item (c\<lparr>rc_misses := n\<rparr>) = find_item c"
  "find_item (c\<lparr>rc_stores := n\<rparr>) = find_item c" "find_item (c\<lparr>rc_bypasses := n\<rparr>) = find_item c"
  by (auto simp: find_item_def fun_eq_iff split: option.split)

lemma resident_counters [simp]:
  "resident (c\<lparr>rc_hits := n\<rparr>) = resident c" "resident (c\<lparr>rc_misses := n\<rparr>) = resident c"
  "resident (c\<lparr>rc_stores := n\<rparr>) = resident c" "resident (c\<lparr>rc_bypasses := n\<rparr>) = resident c"
  by (simp_all add: resident_def fun_eq_iff)

lemma update_absent: "k \<notin> fst ` set l \<Longrightarrow> AList.update k v l = l @ [(k, v)]"
  by (induction l) auto

lemma linked_place:
  assumes c: "linked c" and fits: "int (length (ce_Body e)) \<le> rc_maxEntryBytes c"
  shows "linked (place key e c)"
proof (cases "find_item c key")
  case (Some it)
  then have "it \<in> set (rc_lru c)" using find_item_Some [OF c] by blast
  with Some linked_front [OF c _ fits] show ?thesis by (simp add: place_def)
next
  case None
  then have k: "key \<notin> li_key ` set (rc_lru c)" using find_item_None [OF c] by auto
  moreover have "fst ` set (rc_entries c) = li_key ` set (rc_lru c)" using c by (auto simp: linked_def image_iff)
  ultimately have "AList.update key (rc_next c) (rc_entries c) = rc_entries c @ [(key, rc_next c)]"
    by (intro update_absent) auto
  moreover have "rc_next c \<notin> li_id ` set (rc_lru c)" using c by (auto simp: linked_def list_all_iff)
  ultimately show ?thesis
    using c k None fits \<open>fst ` set (rc_entries c) = li_key ` set (rc_lru c)\<close>
    by (auto simp: linked_def place_def list_all_iff body_size_def)
qed

lemma limits_place [simp]:
  "rc_maxEntries (place key e c) = rc_maxEntries c" "rc_maxBytes (place key e c) = rc_maxBytes c"
  "rc_maxEntryBytes (place key e c) = rc_maxEntryBytes c" "rc_ttl (place key e c) = rc_ttl c"
  by (simp_all add: place_def split: option.split)

lemma resident_front:
  assumes c: "linked c" and d: "linked d" and it: "it \<in> set (rc_lru c)" "li_key it = key"
    and lru: "rc_lru d = move_to_front (it\<lparr>li_entry := e\<rparr>) (rc_lru c)"
  shows "resident d = (resident c)(key \<mapsto> e)"
proof (rule same_mapI)
  have s: "set (rc_lru d) = insert (it\<lparr>li_entry := e\<rparr>) {x \<in> set (rc_lru c). li_key x \<noteq> key}"
    using keys_one [OF c _ it(1)] it(2) by (auto simp: lru move_to_front_def)
  show "resident d k = Some v \<longleftrightarrow> ((resident c)(key \<mapsto> e)) k = Some v" for k v
    unfolding fun_upd_apply using it(2) by (auto simp: resident_Some [OF c] resident_Some [OF d] s)
qed

lemma resident_place:
  assumes c: "linked c" and fits: "int (length (ce_Body e)) \<le> rc_maxEntryBytes c"
  shows "resident (place key e c) = (resident c)(key \<mapsto> e)"
proof (cases "find_item c key")
  case (Some it)
  then have it: "it \<in> set (rc_lru c)" "li_key it = key" using find_item_Some [OF c] by auto
  have "rc_lru (place key e c) = move_to_front (it\<lparr>li_entry := e\<rparr>) (rc_lru c)"
    using Some by (simp add: place_def)
  with resident_front [OF c linked_place [OF c fits] it] show ?thesis by blast
next
  case None
  have lru: "rc_lru (place key e c) = \<lparr>li_id = rc_next c, li_key = key, li_entry = e\<rparr> # rc_lru c"
    using None by (simp add: place_def)
  have k: "\<forall>it\<in>set (rc_lru c). li_key it \<noteq> key" using None find_item_None [OF c] by blast
  show ?thesis
  proof (rule same_mapI)
    show "resident (place key e c) k = Some v \<longleftrightarrow> ((resident c)(key \<mapsto> e)) k = Some v" for k v
      unfolding fun_upd_apply using k
      by (auto simp: resident_Some [OF c] resident_Some [OF linked_place [OF c fits]] lru)
  qed
qed

lemma resident_removeElement:
  assumes c: "linked c" and it: "it \<in> set (rc_lru c)"
  shows "resident (removeElement it c) = (resident c)(li_key it := None)"
proof (rule same_mapI)
  show "resident (removeElement it c) k = Some v \<longleftrightarrow> ((resident c)(li_key it := None)) k = Some v" for k v
    unfolding fun_upd_apply
    by (auto simp: resident_Some [OF c] resident_Some [OF linked_removeElement [OF c it]]
        set_removeElement [OF c it])
qed

subsection \<open>Evicting\<close>

lemma evict_induct [case_names step]:
  assumes "\<And>c. (over_limit c \<Longrightarrow> rc_lru c \<noteq> [] \<Longrightarrow> P (removeElement (last (rc_lru c)) c)) \<Longrightarrow> P c"
  shows "P c"
  by (rule evictWhileOverLimit.induct) (use assms in blast)

lemma evict_limits [simp]:
  "rc_maxEntries (evictWhileOverLimit c) = rc_maxEntries c \<and> rc_maxBytes (evictWhileOverLimit c) = rc_maxBytes c
   \<and> rc_maxEntryBytes (evictWhileOverLimit c) = rc_maxEntryBytes c \<and> rc_ttl (evictWhileOverLimit c) = rc_ttl c"
  by (induction c rule: evict_induct) (simp add: evictWhileOverLimit.simps)

lemma linked_evict: "linked c \<Longrightarrow> linked (evictWhileOverLimit c)"
  by (induction c rule: evict_induct) (simp add: evictWhileOverLimit.simps linked_removeElement)

lemma not_over_empty: "linked c \<Longrightarrow> limits_set c \<Longrightarrow> rc_lru c = [] \<Longrightarrow> \<not> over_limit c"
  by (simp add: linked_def limits_set_def over_limit_def)

lemma limits_set_remove [simp]: "limits_set (removeElement it c) = limits_set c"
  by (simp add: limits_set_def)

lemma evict_inside: "linked c \<Longrightarrow> limits_set c \<Longrightarrow> inside (evictWhileOverLimit c)"
proof (induction c rule: evict_induct)
  case (step c)
  show ?case
  proof (cases "over_limit c \<and> rc_lru c \<noteq> []")
    case True
    with step show ?thesis by (simp add: evictWhileOverLimit.simps [of c] linked_removeElement)
  next
    case False
    with step.prems not_over_empty have "\<not> over_limit c" by blast
    with step.prems show ?thesis by (simp add: evictWhileOverLimit.simps [of c] inside_def)
  qed
qed

lemma remove_last: "linked c \<Longrightarrow> rc_lru c \<noteq> [] \<Longrightarrow> rc_lru (removeElement (last (rc_lru c)) c) = butlast (rc_lru c)"
proof -
  assume c: "linked c" "rc_lru c \<noteq> []"
  then obtain l x where l: "rc_lru c = l @ [x]" by (metis rev_exhaust)
  with c(1) have "li_id x \<notin> li_id ` set l" by (auto simp: linked_def)
  then have "filter (\<lambda>y. li_id y \<noteq> li_id x) l = l" by (metis (mono_tags, lifting) filter_True image_eqI)
  with l show ?thesis by (simp add: removeElement_def)
qed

text \<open>
  What is kept: the longest run of the most recently used elements that respects both totals.
\<close>

definition run_fits :: "response_cache \<Rightarrow> lru_item list \<Rightarrow> bool" where
  "run_fits c l \<longleftrightarrow> int (length l) \<le> rc_maxEntries c \<and> sum_list (map body_size l) \<le> rc_maxBytes c"

fun longest_run :: "response_cache \<Rightarrow> nat \<Rightarrow> lru_item list" where
  "longest_run c 0 = []"
| "longest_run c (Suc n) =
     (if run_fits c (take (Suc n) (rc_lru c)) then take (Suc n) (rc_lru c) else longest_run c n)"

lemma over_run: "linked c \<Longrightarrow> over_limit c \<longleftrightarrow> \<not> run_fits c (rc_lru c)"
  by (auto simp: linked_def over_limit_def run_fits_def)

lemma longest_run_cong:
  "rc_maxEntries c = rc_maxEntries d \<Longrightarrow> rc_maxBytes c = rc_maxBytes d \<Longrightarrow>
   (\<And>k. k \<le> n \<Longrightarrow> take k (rc_lru c) = take k (rc_lru d)) \<Longrightarrow> longest_run c n = longest_run d n"
  by (induction n) (auto simp: run_fits_def)

lemma evict_longest_run: "linked c \<Longrightarrow> rc_lru (evictWhileOverLimit c) = longest_run c (length (rc_lru c))"
proof (induction c rule: evict_induct)
  case (step c)
  show ?case
  proof (cases "rc_lru c")
    case Nil
    then show ?thesis by (simp add: evictWhileOverLimit.simps [of c])
  next
    case (Cons x l)
    let ?d = "removeElement (last (rc_lru c)) c"
    have r: "longest_run c (length (rc_lru c)) =
             (if over_limit c then longest_run c (length l) else rc_lru c)"
      using Cons over_run [OF step.prems] by simp
    show ?thesis
    proof (cases "over_limit c")
      case False
      with r show ?thesis by (simp add: evictWhileOverLimit.simps [of c])
    next
      case True
      have lru: "rc_lru ?d = butlast (rc_lru c)" using remove_last [OF step.prems] Cons by simp
      have "longest_run ?d (length l) = longest_run c (length l)"
        by (rule longest_run_cong) (simp, simp, simp only: lru, simp add: Cons butlast_conv_take min_def)
      moreover have "rc_lru (evictWhileOverLimit ?d) = longest_run ?d (length l)"
        using step.IH [OF True] step.prems linked_removeElement Cons lru by simp
      ultimately show ?thesis using True r Cons by (simp add: evictWhileOverLimit.simps [of c])
    qed
  qed
qed

lemma resident_evict: "linked c \<Longrightarrow> resident (evictWhileOverLimit c) \<subseteq>\<^sub>m resident c"
proof (induction c rule: evict_induct)
  case (step c)
  show ?case
  proof (cases "over_limit c \<and> rc_lru c \<noteq> []")
    case True
    then have l: "last (rc_lru c) \<in> set (rc_lru c)" by simp
    with step True have "resident (evictWhileOverLimit c) \<subseteq>\<^sub>m resident (removeElement (last (rc_lru c)) c)"
      by (simp add: evictWhileOverLimit.simps [of c] linked_removeElement)
    moreover have "resident (removeElement (last (rc_lru c)) c) \<subseteq>\<^sub>m resident c"
      unfolding resident_removeElement [OF step.prems l] by (auto simp: map_le_def)
    ultimately show ?thesis by (rule map_le_trans)
  next
    case False
    then have "evictWhileOverLimit c = c" unfolding evictWhileOverLimit.simps [of c] by (rule if_not_P)
    then show ?thesis by (simp add: map_le_def)
  qed
qed

subsection \<open>What each call does\<close>

lemma limits_counters [simp]:
  "limits_set (c\<lparr>rc_hits := n\<rparr>) = limits_set c" "limits_set (c\<lparr>rc_misses := n\<rparr>) = limits_set c"
  "limits_set (c\<lparr>rc_stores := n\<rparr>) = limits_set c" "limits_set (c\<lparr>rc_bypasses := n\<rparr>) = limits_set c"
  "limits_set (c\<lparr>rc_lru := l\<rparr>) = limits_set c" "limits_set (place key e c) = limits_set c"
  by (simp_all add: limits_set_def)

lemma inside_counters [simp]:
  "inside (c\<lparr>rc_hits := n\<rparr>) = inside c" "inside (c\<lparr>rc_misses := n\<rparr>) = inside c"
  "inside (c\<lparr>rc_stores := n\<rparr>) = inside c" "inside (c\<lparr>rc_bypasses := n\<rparr>) = inside c"
  by (simp_all add: inside_def)

lemma inside_remove: "inside c \<Longrightarrow> it \<in> set (rc_lru c) \<Longrightarrow> inside (removeElement it c)"
  by (simp add: inside_def linked_removeElement over_removeElement)

lemma length_front: "distinct (map li_id l) \<Longrightarrow> it \<in> set l \<Longrightarrow> length (move_to_front it l) = length l"
proof (induction l)
  case (Cons y l)
  show ?case
  proof (cases "li_id y = li_id it")
    case True
    with Cons.prems have "filter (\<lambda>x. li_id x \<noteq> li_id it) l = l"
      by (metis (mono_tags, lifting) distinct.simps(2) filter_True image_eqI list.map(2) set_map)
    with True show ?thesis by (simp add: move_to_front_def)
  next
    case False
    with Cons.prems have "it \<in> set l" "distinct (map li_id l)" by auto
    with Cons.IH False show ?thesis by (simp add: move_to_front_def)
  qed
qed simp

lemma inside_refresh: "inside c \<Longrightarrow> it \<in> set (rc_lru c) \<Longrightarrow> inside (c\<lparr>rc_lru := move_to_front it (rc_lru c)\<rparr>)"
  using linked_refresh length_front by (auto simp: inside_def over_limit_def linked_def)

lemma resident_refresh:
  assumes c: "linked c" and it: "it \<in> set (rc_lru c)"
  shows "resident (c\<lparr>rc_lru := move_to_front it (rc_lru c)\<rparr>) = resident c"
proof -
  have "resident (c\<lparr>rc_lru := move_to_front it (rc_lru c)\<rparr>) = (resident c)(li_key it \<mapsto> li_entry it)"
    by (rule resident_front [OF c linked_refresh [OF c it] it refl]) simp
  moreover have "resident c (li_key it) = Some (li_entry it)" using it resident_Some [OF c] by auto
  ultimately show ?thesis by (simp add: fun_upd_idem)
qed

lemma Get_cases:
  assumes c: "linked c" and g: "Get now key c = (r, d)"
  obtains (miss) "resident c key = None" "r = None" "d = c\<lparr>rc_misses := rc_misses c + 1\<rparr>"
  | (old) it where "it \<in> set (rc_lru c)" "li_key it = key" "r = None"
      "rc_ttl c < Sub now (ce_StoredAt (li_entry it))"
      "d = (removeElement it c)\<lparr>rc_misses := rc_misses c + 1\<rparr>"
  | (hit) it where "it \<in> set (rc_lru c)" "li_key it = key" "r = Some (li_entry it)"
      "Sub now (ce_StoredAt (li_entry it)) \<le> rc_ttl c"
      "d = c\<lparr>rc_lru := move_to_front it (rc_lru c), rc_hits := rc_hits c + 1\<rparr>"
proof (cases "find_item c key")
  case None
  then show ?thesis using g miss by (auto simp: Get_def resident_def)
next
  case (Some it)
  then have it: "it \<in> set (rc_lru c)" "li_key it = key" using find_item_Some [OF c] by auto
  have m: "rc_misses (removeElement it c) = rc_misses c" by (simp add: removeElement_def)
  show ?thesis
  proof (cases "rc_ttl c < Sub now (ce_StoredAt (li_entry it))")
    case True
    with g Some m old [OF it] show ?thesis by (auto simp: Get_def Let_def)
  next
    case False
    with g Some hit [OF it] show ?thesis by (auto simp: Get_def)
  qed
qed

lemma Get_keeps:
  assumes c: "inside c" and g: "Get now key c = (r, d)"
  shows "inside d \<and> resident d \<subseteq>\<^sub>m resident c \<and> (limits_set c \<longrightarrow> limits_set d)"
proof -
  have l: "linked c" using c by (simp add: inside_def)
  from l g show ?thesis
  proof (cases rule: Get_cases)
    case miss
    with c show ?thesis by simp
  next
    case (old it)
    then show ?thesis
      using inside_remove [OF c] resident_removeElement [OF l] by (auto simp: map_le_def)
  next
    case (hit it)
    then show ?thesis
      using inside_refresh [OF c] resident_refresh [OF l] by simp
  qed
qed

lemma Get_hit:
  assumes c: "linked c" and g: "Get now key c = (Some e, d)"
  shows "resident c key = Some e \<and> Sub now (ce_StoredAt e) \<le> rc_ttl c"
  using c g
proof (cases rule: Get_cases)
  case (hit it)
  have "resident c key = Some (li_entry it)"
    using resident_Some [OF c, of key "li_entry it"] hit(1,2) by blast
  with hit show ?thesis by simp
qed simp_all

lemma Put_cases:
  assumes "Put now key (Some e) c = (b, d)"
  obtains (large) "rc_maxEntryBytes c < int (length (ce_Body e))" "\<not> b" "d = c"
  | (kept) "int (length (ce_Body (stamp now e))) \<le> rc_maxEntryBytes c" "b"
      "d = evictWhileOverLimit ((place key (stamp now e) c)\<lparr>rc_stores := rc_stores (place key (stamp now e) c) + 1\<rparr>)"
proof (cases "rc_maxEntryBytes c < int (length (ce_Body e))")
  case True
  show ?thesis by (rule large) (use True assms in \<open>simp_all add: Put_def\<close>)
next
  case False
  show ?thesis by (rule kept) (use False assms in \<open>simp_all add: Put_def Let_def stamp_def split: if_splits\<close>)
qed

lemma Put_keeps:
  assumes c: "inside c" and lim: "limits_set c" and p: "Put now key (Some e) c = (b, d)"
  shows "inside d \<and> limits_set d \<and> resident d \<subseteq>\<^sub>m (resident c)(key \<mapsto> stamp now e)
         \<or> d = c"
  using p
proof (cases rule: Put_cases)
  case kept
  let ?p = "(place key (stamp now e) c)\<lparr>rc_stores := rc_stores (place key (stamp now e) c) + 1\<rparr>"
  have l: "linked c" using c by (simp add: inside_def)
  have p: "linked ?p" "limits_set ?p" using linked_place [OF l kept(1)] lim by simp_all
  have "resident ?p = (resident c)(key \<mapsto> stamp now e)" using resident_place [OF l kept(1)] by simp
  with resident_evict [OF p(1)] have "resident d \<subseteq>\<^sub>m (resident c)(key \<mapsto> stamp now e)" using kept(3) by simp
  moreover have "limits_set d" using p(2) kept(3) by (simp add: limits_set_def)
  ultimately show ?thesis using evict_inside [OF p] kept(3) by simp
qed simp

lemma inside_delete: "inside c \<Longrightarrow> inside (Delete key c) \<and> resident (Delete key c) \<subseteq>\<^sub>m resident c"
proof (cases "find_item c key")
  case (Some it)
  assume c: "inside c"
  then have l: "linked c" by (simp add: inside_def)
  then have "it \<in> set (rc_lru c)" using Some find_item_Some by blast
  with Some inside_remove [OF c] resident_removeElement [OF l] show ?thesis by (auto simp: Delete_def map_le_def)
qed (simp add: Delete_def)

lemma inside_purge: "inside c \<Longrightarrow> limits_set c \<Longrightarrow> inside (Purge c) \<and> resident (Purge c) = Map.empty"
  by (auto simp: Purge_def inside_def linked_def over_limit_def limits_set_def resident_def find_item_def)

lemma limits_delete [simp]: "limits_set (Delete key c) = limits_set c"
  by (simp add: Delete_def split: option.split)

lemma limits_purge [simp]: "limits_set (Purge c) = limits_set c"
  by (simp add: Purge_def limits_set_def)

lemma cache_do_keeps:
  assumes c: "inside c" and lim: "limits_set c"
  shows "inside (cache_do call c) \<and> limits_set (cache_do call c)"
proof (cases call)
  case (Look now key)
  with Get_keeps [OF c] lim show ?thesis by (cases "Get now key c") auto
next
  case (Keep now key e)
  obtain b d where p: "Put now key (Some e) c = (b, d)" by fastforce
  from Put_keeps [OF c lim p] c lim have "inside d \<and> limits_set d" by blast
  with p Keep show ?thesis by simp
qed (use c lim inside_delete inside_purge in \<open>auto simp: MarkBypass_def\<close>)

lemma calls_keep:
  "inside c \<Longrightarrow> limits_set c \<Longrightarrow> inside (foldl (\<lambda>c call. cache_do call c) c calls)"
  by (induction calls arbitrary: c) (simp_all add: cache_do_keeps)

text \<open>The limits are set once, by \<open>New\<close>.\<close>

definition limits :: "response_cache \<Rightarrow> int \<times> int \<times> int \<times> duration" where
  "limits c = (rc_maxEntries c, rc_maxBytes c, rc_maxEntryBytes c, rc_ttl c)"

lemma limits_evict [simp]: "limits (evictWhileOverLimit c) = limits c"
  by (simp add: limits_def)

lemma limits_kept [simp]:
  "limits (removeElement it c) = limits c" "limits (place key e c) = limits c"
  "limits (c\<lparr>rc_hits := n\<rparr>) = limits c" "limits (c\<lparr>rc_misses := n\<rparr>) = limits c"
  "limits (c\<lparr>rc_stores := n\<rparr>) = limits c" "limits (c\<lparr>rc_bypasses := n\<rparr>) = limits c"
  "limits (c\<lparr>rc_lru := l\<rparr>) = limits c"
  by (simp_all add: limits_def)

lemma limits_Get [simp]: "limits (snd (Get now key c)) = limits c"
  by (simp add: Get_def Let_def split: option.split)

lemma limits_Put [simp]: "limits (snd (Put now key e c)) = limits c"
  by (simp add: Put_def Let_def split: option.split)

lemma limits_Delete [simp]: "limits (Delete key c) = limits c"
  by (simp add: Delete_def split: option.split)

lemma limits_Purge [simp]: "limits (Purge c) = limits c"
  by (simp add: Purge_def limits_def)

lemma limits_cache_do [simp]: "limits (cache_do call c) = limits c"
  by (cases call) (simp_all add: MarkBypass_def)

lemma limits_calls: "limits (foldl (\<lambda>c call. cache_do call c) c calls) = limits c"
  by (induction calls arbitrary: c) simp_all

text \<open>What was just stored stays, if it fits at all, and a look-up finds it while it is young.\<close>

lemma longest_run_front:
  "rc_lru c = x # l \<Longrightarrow> run_fits c [x] \<Longrightarrow> 0 < n \<Longrightarrow> \<exists>l'. longest_run c n = x # l'"
proof (induction n)
  case (Suc n)
  then show ?case by (cases n) auto
qed simp

lemma place_front:
  "linked c \<Longrightarrow> \<exists>x l. rc_lru (place key e c) = x # l \<and> li_key x = key \<and> li_entry x = e"
  using find_item_Some by (auto simp: place_def move_to_front_def split: option.split)

lemma Put_resident:
  assumes c: "inside c" and lim: "limits_set c"
    and small: "int (length (ce_Body e)) \<le> rc_maxEntryBytes c" "int (length (ce_Body e)) \<le> rc_maxBytes c"
  shows "resident (snd (Put now key (Some e) c)) key = Some (stamp now e)"
proof -
  let ?e = "stamp now e"
  let ?d = "(place key ?e c)\<lparr>rc_stores := rc_stores (place key ?e c) + 1\<rparr>"
  have l: "linked c" using c by (simp add: inside_def)
  have b: "ce_Body ?e = ce_Body e" by (simp add: stamp_def)
  have d: "linked ?d" using linked_place [OF l] small(1) b by simp
  obtain x r where x: "rc_lru (place key ?e c) = x # r" "li_key x = key" "li_entry x = ?e"
    using place_front [OF l] by blast
  have "run_fits ?d [x]" using x small(2) b lim by (simp add: run_fits_def body_size_def limits_set_def)
  with x(1) longest_run_front [of ?d x r "length (rc_lru ?d)"]
  obtain r' where r': "rc_lru (evictWhileOverLimit ?d) = x # r'" using evict_longest_run [OF d] by auto
  have "resident (evictWhileOverLimit ?d) key = Some ?e"
    unfolding resident_Some [OF linked_evict [OF d]] using r' x by auto
  with small(1) show ?thesis by (simp add: Put_def Let_def)
qed

lemma Get_young:
  assumes c: "linked c" and e: "resident c key = Some e" and young: "Sub now (ce_StoredAt e) \<le> rc_ttl c"
  shows "\<exists>d. Get now key c = (Some e, d)"
proof -
  obtain it where "it \<in> set (rc_lru c)" "li_key it = key" "li_entry it = e" using e resident_Some [OF c] by blast
  then have "find_item c key = Some it" using find_item_Some [OF c] by blast
  with \<open>li_entry it = e\<close> young show ?thesis by (simp add: Get_def)
qed

subsection \<open>Requests and their keys\<close>

definition header_values :: "http_header \<Rightarrow> string \<Rightarrow> string list" where
  "header_values h n = (case map_of h n of None \<Rightarrow> [] | Some vs \<Rightarrow> vs)"

definition header_get :: "http_header \<Rightarrow> string \<Rightarrow> string" where
  "header_get h n = (case header_values h n of [] \<Rightarrow> [] | v # _ \<Rightarrow> v)"

definition header_set :: "string \<Rightarrow> string \<Rightarrow> http_header \<Rightarrow> http_header" where
  "header_set n v h = AList.update n [v] h"

definition header_add :: "string \<Rightarrow> string \<Rightarrow> http_header \<Rightarrow> http_header" where
  "header_add n v h = AList.update n (header_values h n @ [v]) h"

text \<open>A body to be read: its bytes, and whether reading fails once they are used up.\<close>

datatype req_body = NoBody | Stream string bool

record http_req =
  hr_Method :: string
  hr_Path :: string
  hr_Query :: string
  hr_Header :: http_header
  hr_Body :: req_body
  hr_ContentLength :: int

definition maxRequestBodyCapture :: nat where
  "maxRequestBodyCapture = 4 * 1024 * 1024"

text \<open>
  The bytes captured, whether they are all, whether reading failed, and the request as it goes on.
  Reading a closed body fails.
\<close>

definition captureRequestBody :: "http_req \<Rightarrow> string \<times> bool \<times> bool \<times> http_req" where
  "captureRequestBody r =
     (case hr_Body r of
        NoBody \<Rightarrow> ([], True, False, r)
      | Stream bs fails \<Rightarrow>
          let n = length (take (maxRequestBodyCapture + 1) bs)
          in if fails \<and> n < maxRequestBodyCapture + 1 then ([], False, True, r\<lparr>hr_Body := Stream [] True\<rparr>)
             else if maxRequestBodyCapture < n then (take maxRequestBodyCapture bs, False, False, r)
             else (bs, True, False,
                   r\<lparr>hr_Body := Stream bs False, hr_ContentLength := int n,
                     hr_Header := header_set ''Content-Length'' (itoa (int n)) (hr_Header r)\<rparr>))"

definition credentialHeaders :: "string list" where
  "credentialHeaders =
     [''Authorization'', ''X-Api-Key'', ''X-Goog-Api-Key'', ''Api-Key'', ''Openai-Organization'', ''Openai-Project'']"

definition credential_line :: "string \<times> string \<Rightarrow> string" where
  "credential_line nv = fst nv @ '':'' @ itoa (int (length (snd nv))) @ '':'' @ snd nv @ [CHR 0x0A]"

definition credentials :: "http_header \<Rightarrow> (string \<times> string) list" where
  "credentials h = concat (map (\<lambda>n. map (Pair n) (header_values h n)) credentialHeaders)"

definition credential_text :: "http_header \<Rightarrow> string" where
  "credential_text h = concat (map credential_line (credentials h))"

definition credentialDigest :: "http_header \<Rightarrow> string" where
  "credentialDigest h = sha256 (credential_text h)"

definition key_text :: "string \<Rightarrow> http_req \<Rightarrow> string \<Rightarrow> string" where
  "key_text provider r body =
     provider @ CHR 0x00 # hr_Method r @ CHR 0x00 # hr_Path r @ CHR 0x00 # hr_Query r @ CHR 0x00
       # credentialDigest (hr_Header r) @ CHR 0x00 # body"

definition cacheKey :: "string \<Rightarrow> http_req \<Rightarrow> string \<Rightarrow> string" where
  "cacheKey provider r body = hex_encode (sha256 (key_text provider r body))"

subsection \<open>Writing a reply\<close>

text \<open>
  The writer of \<open>net/http\<close>: the header being prepared, the informational replies already sent, the
  status and header sent last and the bytes after it. \<open>WriteHeader\<close> sends an informational status
  at once and leaves the final one to come; only the first final status counts.
\<close>

record http_writer =
  hw_Header :: http_header
  hw_Info :: "(int \<times> http_header) list"
  hw_Sent :: "(int \<times> http_header) option"
  hw_Body :: string

definition fresh_writer :: "http_header \<Rightarrow> http_writer" where
  "fresh_writer h = \<lparr>hw_Header = h, hw_Info = [], hw_Sent = None, hw_Body = []\<rparr>"

definition informational :: "int \<Rightarrow> bool" where
  "informational st \<longleftrightarrow> 100 \<le> st \<and> st \<le> 199 \<and> st \<noteq> 101"

definition write_status :: "int \<Rightarrow> http_writer \<Rightarrow> http_writer" where
  "write_status st w =
     (if hw_Sent w \<noteq> None then w
      else if informational st then w\<lparr>hw_Info := hw_Info w @ [(st, hw_Header w)]\<rparr>
      else w\<lparr>hw_Sent := Some (st, hw_Header w)\<rparr>)"

definition body_allowed :: "int \<Rightarrow> bool" where
  "body_allowed st \<longleftrightarrow> \<not> (100 \<le> st \<and> st \<le> 199) \<and> st \<noteq> 204 \<and> st \<noteq> 304"

definition write_body :: "string \<Rightarrow> http_writer \<Rightarrow> http_writer" where
  "write_body b w =
     (let w = (if hw_Sent w = None then write_status 200 w else w)
      in case hw_Sent w of
           None \<Rightarrow> w
         | Some (st, _) \<Rightarrow> if body_allowed st then w\<lparr>hw_Body := hw_Body w @ b\<rparr> else w)"

definition flush_writer :: "http_writer \<Rightarrow> http_writer" where
  "flush_writer w = (if hw_Sent w = None then write_status 200 w else w)"

record recorder =
  re_inner :: http_writer
  re_buf :: string
  re_status :: int
  re_headerSent :: bool
  re_streaming :: bool
  re_overflowed :: bool
  re_maxBufBytes :: nat

definition newRecordingResponseWriter :: "http_writer \<Rightarrow> recorder" where
  "newRecordingResponseWriter w =
     \<lparr>re_inner = w, re_buf = [], re_status = 200, re_headerSent = False, re_streaming = False,
      re_overflowed = False, re_maxBufBytes = 4 * 1024 * 1024\<rparr>"

definition rec_WriteHeader :: "int \<Rightarrow> recorder \<Rightarrow> recorder" where
  "rec_WriteHeader st r =
     (if re_headerSent r then r
      else r\<lparr>re_headerSent := True, re_status := st,
             re_streaming := (re_streaming r \<or>
               has_prefix (to_lower (trim_space (header_get (hw_Header (re_inner r)) ''Content-Type'')))
                 ''text/event-stream''),
             re_inner := write_status st (re_inner r)\<rparr>)"

definition rec_Write :: "string \<Rightarrow> recorder \<Rightarrow> recorder" where
  "rec_Write b r =
     (let r = (if \<not> re_headerSent r then rec_WriteHeader 200 r else r);
          r = (if \<not> re_streaming r \<and> \<not> re_overflowed r
               then if re_maxBufBytes r < length (re_buf r) + length b
                    then r\<lparr>re_overflowed := True, re_buf := []\<rparr>
                    else r\<lparr>re_buf := re_buf r @ b\<rparr>
               else r)
      in r\<lparr>re_inner := write_body b (re_inner r)\<rparr>)"

definition rec_Flush :: "recorder \<Rightarrow> recorder" where
  "rec_Flush r = r\<lparr>re_inner := flush_writer (re_inner r)\<rparr>"

definition shouldCache :: "recorder \<Rightarrow> bool" where
  "shouldCache r \<longleftrightarrow>
     \<not> (re_streaming r \<or> re_overflowed r) \<and> 200 \<le> re_status r \<and> re_status r < 300 \<and> re_buf r \<noteq> []"

subsection \<open>The middleware\<close>

text \<open>
  What the handler behind the middleware does to the writer it is given, in its order; \<open>Abort\<close> is a
  panic, as the reverse proxy's when the upstream body breaks off. A status outside 100..999 panics too.
  The flag says that the handler returned.
\<close>

datatype handler_op =
    SetHeader string string | AddHeader string string | ClearHeader | SendHeader int | SendBody string | FlushNow | Abort

definition on_header :: "(http_header \<Rightarrow> http_header) \<Rightarrow> http_writer \<Rightarrow> http_writer" where
  "on_header f w = w\<lparr>hw_Header := f (hw_Header w)\<rparr>"

definition on_inner :: "(http_writer \<Rightarrow> http_writer) \<Rightarrow> recorder \<Rightarrow> recorder" where
  "on_inner f r = r\<lparr>re_inner := f (re_inner r)\<rparr>"

definition bad_status :: "int \<Rightarrow> bool" where
  "bad_status st \<longleftrightarrow> st < 100 \<or> 999 < st"

fun serve :: "handler_op list \<Rightarrow> recorder \<Rightarrow> recorder \<times> bool" where
  "serve [] r = (r, True)"
| "serve (SetHeader n v # ops) r = serve ops (on_inner (on_header (header_set n v)) r)"
| "serve (AddHeader n v # ops) r = serve ops (on_inner (on_header (header_add n v)) r)"
| "serve (ClearHeader # ops) r = serve ops (on_inner (on_header (\<lambda>_. [])) r)"
| "serve (SendHeader st # ops) r =
     (if \<not> re_headerSent r \<and> hw_Sent (re_inner r) = None \<and> bad_status st then (r, False)
      else serve ops (rec_WriteHeader st r))"
| "serve (SendBody b # ops) r = serve ops (rec_Write b r)"
| "serve (FlushNow # ops) r = serve ops (rec_Flush r)"
| "serve (Abort # ops) r = (r, False)"

fun serve_plain :: "handler_op list \<Rightarrow> http_writer \<Rightarrow> http_writer \<times> bool" where
  "serve_plain [] w = (w, True)"
| "serve_plain (SetHeader n v # ops) w = serve_plain ops (on_header (header_set n v) w)"
| "serve_plain (AddHeader n v # ops) w = serve_plain ops (on_header (header_add n v) w)"
| "serve_plain (ClearHeader # ops) w = serve_plain ops (on_header (\<lambda>_. []) w)"
| "serve_plain (SendHeader st # ops) w =
     (if hw_Sent w = None \<and> bad_status st then (w, False) else serve_plain ops (write_status st w))"
| "serve_plain (SendBody b # ops) w = serve_plain ops (write_body b w)"
| "serve_plain (FlushNow # ops) w = serve_plain ops (flush_writer w)"
| "serve_plain (Abort # ops) w = (w, False)"

definition headerCacheControl :: string where
  "headerCacheControl = ''X-Tokenops-Cache''"

definition headerCacheStatus :: string where
  "headerCacheStatus = ''X-Tokenops-Cache-Status''"

definition cache_directive :: "http_req \<Rightarrow> string" where
  "cache_directive r = to_lower (trim_space (header_get (hr_Header r) headerCacheControl))"

definition writeCachedResponse :: "http_writer \<Rightarrow> cache_entry \<Rightarrow> http_writer \<times> cache_entry" where
  "writeCachedResponse w e =
     (let w = foldl (\<lambda>w (n, vs). foldl (\<lambda>w v. on_header (header_add n v) w) w vs) w (ce_Headers e);
          e = (if ce_Status e = 0 then e\<lparr>ce_Status := 200\<rparr> else e)
      in (write_body (ce_Body e) (write_status (ce_Status e) w), e))"

text \<open>
  The step before the upstream call: either the reply out of the store, or the request on its way,
  with the plain writer or with a recorder and the key to store under.
\<close>

datatype look_result =
    FromCache http_writer cache_entry string
  | Plain http_writer http_req
  | Recorded recorder http_req string string

definition cache_lookup :: "string \<Rightarrow> gotime \<Rightarrow> http_req \<Rightarrow> http_writer \<Rightarrow> response_cache \<Rightarrow> look_result \<times> response_cache" where
  "cache_lookup provider now r w c =
     (if cache_directive r = ''bypass''
      then (Plain (on_header (header_set headerCacheStatus ''bypass'') w) r, MarkBypass c)
      else if hr_Method r \<noteq> ''POST'' then (Plain w r, c)
      else
        (let (body, whole, failed, r') = captureRequestBody r
         in if failed \<or> \<not> whole \<or> body = [] then (Plain w r', c)
            else
              (let key = cacheKey provider r' body;
                   (found, c') = (if cache_directive r \<noteq> ''refresh'' then Get now key c else (None, c))
               in case found of
                    Some e \<Rightarrow>
                      (let (w', e') = writeCachedResponse (on_header (header_set headerCacheStatus ''hit'') w) e
                       in (FromCache w' e' body, c'))
                  | None \<Rightarrow>
                      (Recorded (newRecordingResponseWriter
                         (on_header (header_set headerCacheStatus
                            (if cache_directive r = ''refresh'' then ''refresh'' else ''miss'')) w)) r' key body,
                       c'))))"

text \<open>The step after it: the entry to store, and the store and writer afterwards.\<close>

definition recorded_entry :: "gotime \<Rightarrow> recorder \<Rightarrow> cache_entry" where
  "recorded_entry now r =
     \<lparr>ce_Status = re_status r, ce_Headers = hw_Header (re_inner r), ce_Body = re_buf r, ce_StoredAt = now,
      ce_ContentType = header_get (hw_Header (re_inner r)) ''Content-Type''\<rparr>"

definition cache_store :: "gotime \<Rightarrow> gotime \<Rightarrow> string \<Rightarrow> recorder \<times> bool \<Rightarrow> response_cache \<Rightarrow> http_writer \<times> response_cache" where
  "cache_store wall now key served c =
     (let (r, returned) = served
      in if \<not> returned \<or> \<not> shouldCache r then (re_inner r, c)
         else (on_header (header_set headerCacheStatus ''store'') (re_inner r),
               snd (Put now key (Some (recorded_entry wall r)) c)))"

text \<open>
  One request from end to end when nothing else happens in between. \<open>upstream\<close> is the handler behind
  the middleware, the three instants are those of the look-up, of \<open>StoredAt\<close> and of \<open>Put\<close>.
\<close>

definition cacheMiddleware ::
    "string \<Rightarrow> (http_req \<Rightarrow> handler_op list) \<Rightarrow> gotime \<times> gotime \<times> gotime \<Rightarrow> http_req \<Rightarrow> http_writer \<Rightarrow>
     response_cache option \<Rightarrow> http_writer \<times> response_cache option" where
  "cacheMiddleware provider upstream instants r w cc =
     (case cc of
        None \<Rightarrow> (fst (serve_plain (upstream r) w), None)
      | Some c \<Rightarrow>
          (let (looked_at, wall, put_at) = instants
           in case cache_lookup provider looked_at r w c of
                (FromCache w' e body, c') \<Rightarrow> (w', Some c')
              | (Plain w' r', c') \<Rightarrow> (fst (serve_plain (upstream r') w'), Some c')
              | (Recorded rec r' key body, c') \<Rightarrow>
                  (let (w', c'') = cache_store wall put_at key (serve (upstream r') rec) c' in (w', Some c''))))"

subsection \<open>Requests in flight\<close>

text \<open>
  Any number of requests at once: a request looks up, is out with the handler behind while others go
  on, and comes back to store. \<open>Stored\<close> and \<open>Replayed\<close> record what was stored for whom and what was
  served to whom.
\<close>

record open_request =
  or_provider :: string
  or_request :: http_req
  or_body :: string
  or_key :: string
  or_recorder :: recorder

datatype traffic_event =
    Stored string http_req string "handler_op list" cache_entry
  | Replayed gotime string http_req string cache_entry

type_synonym traffic = "response_cache \<times> open_request list \<times> traffic_event list"

inductive cache_traffic :: "cache_options \<Rightarrow> traffic \<Rightarrow> bool" for opts where
  idle: "cache_traffic opts (New_cache opts, [], [])"
| replay: "cache_traffic opts (c, open_reqs, hist) \<Longrightarrow>
    cache_lookup p now r w c = (FromCache w' e body, c') \<Longrightarrow>
    cache_traffic opts (c', open_reqs, hist @ [Replayed now p r body e])"
| pass_on: "cache_traffic opts (c, open_reqs, hist) \<Longrightarrow>
    cache_lookup p now r w c = (Plain w' r', c') \<Longrightarrow>
    cache_traffic opts (c', open_reqs, hist)"
| go_out: "cache_traffic opts (c, open_reqs, hist) \<Longrightarrow>
    cache_lookup p now r (fresh_writer h) c = (Recorded rec r' key body, c') \<Longrightarrow>
    cache_traffic opts
      (c', \<lparr>or_provider = p, or_request = r', or_body = body, or_key = key, or_recorder = rec\<rparr> # open_reqs, hist)"
| come_back: "cache_traffic opts (c, open_reqs, hist) \<Longrightarrow>
    q \<in> set open_reqs \<Longrightarrow> serve ops (or_recorder q) = (rec, True) \<Longrightarrow> shouldCache rec \<Longrightarrow>
    cache_store wall now (or_key q) (rec, True) c = (w', c') \<Longrightarrow>
    cache_traffic opts
      (c', remove1 q open_reqs,
       hist @ [Stored (or_provider q) (or_request q) (or_body q) ops (stamp now (recorded_entry wall rec))])"
| give_up: "cache_traffic opts (c, open_reqs, hist) \<Longrightarrow>
    q \<in> set open_reqs \<Longrightarrow> serve ops (or_recorder q) = (rec, returned) \<Longrightarrow>
    \<not> returned \<or> \<not> shouldCache rec \<Longrightarrow>
    cache_store wall now (or_key q) (rec, returned) c = (w', c') \<Longrightarrow>
    cache_traffic opts (c', remove1 q open_reqs, hist)"
| drop_one: "cache_traffic opts (c, open_reqs, hist) \<Longrightarrow> cache_traffic opts (Delete key c, open_reqs, hist)"
| drop_all: "cache_traffic opts (c, open_reqs, hist) \<Longrightarrow> cache_traffic opts (Purge c, open_reqs, hist)"

subsection \<open>What a store promises\<close>

definition backed :: "(string \<Rightarrow> 'e \<Rightarrow> bool) \<Rightarrow> (string \<Rightarrow> 'e option) \<Rightarrow> bool" where
  "backed P m \<longleftrightarrow> (\<forall>k e. m k = Some e \<longrightarrow> P k e)"

lemma backed_sub: "backed P m \<Longrightarrow> m' \<subseteq>\<^sub>m m \<Longrightarrow> backed P m'"
  by (auto simp: backed_def map_le_def dom_def)

lemma backed_upd: "backed P m \<Longrightarrow> P k e \<Longrightarrow> m' \<subseteq>\<^sub>m m(k \<mapsto> e) \<Longrightarrow> backed P m'"
  by (rule backed_sub [of P "m(k \<mapsto> e)"]) (auto simp: backed_def)

lemma backed_mono: "backed P m \<Longrightarrow> (\<And>k e. P k e \<Longrightarrow> Q k e) \<Longrightarrow> backed Q m"
  by (auto simp: backed_def)

locale entry_store =
  fixes look :: "gotime \<Rightarrow> string \<Rightarrow> 's \<Rightarrow> 'e option \<times> 's"
    and keep :: "gotime \<Rightarrow> string \<Rightarrow> 'e \<Rightarrow> 's \<Rightarrow> 's"
    and mark :: "gotime \<Rightarrow> 'e \<Rightarrow> 'e"
    and young :: "'s \<Rightarrow> gotime \<Rightarrow> 'e \<Rightarrow> bool"
    and at_hand :: "'s \<Rightarrow> string \<Rightarrow> 'e option"
    and ok :: "'s \<Rightarrow> bool"
  assumes look_ok: "ok s \<Longrightarrow> look now k s = (r, s') \<Longrightarrow> ok s' \<and> at_hand s' \<subseteq>\<^sub>m at_hand s"
    and look_found: "ok s \<Longrightarrow> look now k s = (Some e, s') \<Longrightarrow> at_hand s k = Some e \<and> young s now e"
    and keep_ok: "ok s \<Longrightarrow> ok (keep now k e s)
      \<and> (at_hand (keep now k e s) \<subseteq>\<^sub>m (at_hand s)(k \<mapsto> mark now e) \<or> at_hand (keep now k e s) \<subseteq>\<^sub>m at_hand s)"
begin

lemma look_backed:
  "ok s \<Longrightarrow> backed P (at_hand s) \<Longrightarrow> look now k s = (r, s') \<Longrightarrow>
   ok s' \<and> backed P (at_hand s') \<and> (\<forall>e. r = Some e \<longrightarrow> P k e \<and> young s now e)"
  using look_ok look_found backed_sub by (metis backed_def)

lemma keep_backed:
  "ok s \<Longrightarrow> backed P (at_hand s) \<Longrightarrow> P k (mark now e) \<Longrightarrow>
   ok (keep now k e s) \<and> backed P (at_hand (keep now k e s))"
  using keep_ok [of s now k e] backed_sub [of P "at_hand s"] backed_upd [of P "at_hand s"] by blast

end

definition store_ok :: "response_cache \<Rightarrow> bool" where
  "store_ok c \<longleftrightarrow> inside c \<and> limits_set c"

definition young_entry :: "response_cache \<Rightarrow> gotime \<Rightarrow> cache_entry \<Rightarrow> bool" where
  "young_entry c now e \<longleftrightarrow> Sub now (ce_StoredAt e) \<le> rc_ttl c"

interpretation reply_store: entry_store Get "\<lambda>now k e c. snd (Put now k (Some e) c)" stamp young_entry resident store_ok
proof
  fix c now k r d
  assume c: "store_ok c" and g: "Get now k c = (r, d)"
  show "store_ok d \<and> resident d \<subseteq>\<^sub>m resident c" using Get_keeps [OF _ g] c by (auto simp: store_ok_def)
next
  fix c now k e d
  assume c: "store_ok c" and g: "Get now k c = (Some e, d)"
  show "resident c k = Some e \<and> young_entry c now e"
    using Get_hit [OF _ g] c by (auto simp: store_ok_def inside_def young_entry_def)
next
  fix c now k e
  assume c: "store_ok c"
  obtain b d where p: "Put now k (Some e) c = (b, d)" by fastforce
  from Put_keeps [OF _ _ p] c show "store_ok (snd (Put now k (Some e) c))
      \<and> (resident (snd (Put now k (Some e) c)) \<subseteq>\<^sub>m (resident c)(k \<mapsto> stamp now e)
         \<or> resident (snd (Put now k (Some e) c)) \<subseteq>\<^sub>m resident c)"
    by (auto simp: store_ok_def p)
qed

subsection \<open>One key, one request\<close>

definition collide :: "string \<Rightarrow> string \<Rightarrow> bool" where
  "collide x y \<longleftrightarrow> x \<noteq> y \<and> sha256 x = sha256 y"

text \<open>No NUL byte in what the key text separates by one; a decoded path may hold one.\<close>

definition plain_line :: "string \<Rightarrow> http_req \<Rightarrow> bool" where
  "plain_line provider r \<longleftrightarrow> CHR 0x00 \<notin> set (provider @ hr_Method r @ hr_Path r @ hr_Query r)"

definition same_request :: "string \<times> http_req \<times> string \<Rightarrow> string \<times> http_req \<times> string \<Rightarrow> bool" where
  "same_request a b =
     (let (p, r, body) = a; (p', r', body') = b
      in p = p' \<and> hr_Method r = hr_Method r' \<and> hr_Path r = hr_Path r' \<and> hr_Query r = hr_Query r'
         \<and> credentials (hr_Header r) = credentials (hr_Header r') \<and> body = body')"

lemma stop_split: "x \<notin> set a \<Longrightarrow> x \<notin> set b \<Longrightarrow> a @ x # s = b @ x # t \<Longrightarrow> a = b \<and> s = t"
proof (induction a arbitrary: b)
  case Nil
  then show ?case by (cases b) auto
next
  case (Cons y a)
  then show ?case by (cases b) auto
qed

lemma colon_not_digits: "CHR '':'' \<notin> set (itoa (int n))"
  using dec_str_digits [of "int n"] by (auto simp: itoa_def is_digit_def)

lemma itoa_length_inj: "itoa (int m) = itoa (int n) \<Longrightarrow> m = n"
  using dec_str_inj [of "int m" "int n"] by (simp add: itoa_def)

lemma credential_line_split:
  assumes "CHR '':'' \<notin> set (fst a)" "CHR '':'' \<notin> set (fst b)"
    and "credential_line a @ s = credential_line b @ t"
  shows "a = b \<and> s = t"
proof -
  have "fst a @ CHR '':'' # (itoa (int (length (snd a))) @ CHR '':'' # (snd a @ CHR 0x0A # s))
        = fst b @ CHR '':'' # (itoa (int (length (snd b))) @ CHR '':'' # (snd b @ CHR 0x0A # t))"
    using assms(3) by (simp add: credential_line_def)
  from stop_split [OF assms(1,2) this] have f: "fst a = fst b"
    and r: "itoa (int (length (snd a))) @ CHR '':'' # (snd a @ CHR 0x0A # s)
            = itoa (int (length (snd b))) @ CHR '':'' # (snd b @ CHR 0x0A # t)" by auto
  from stop_split [OF colon_not_digits colon_not_digits r]
  have l: "length (snd a) = length (snd b)" and v: "snd a @ CHR 0x0A # s = snd b @ CHR 0x0A # t"
    using itoa_length_inj by auto
  with f show ?thesis by (auto simp: prod_eq_iff)
qed

lemma credential_lines_inj:
  "\<forall>x\<in>set l. CHR '':'' \<notin> set (fst x) \<Longrightarrow> \<forall>x\<in>set l'. CHR '':'' \<notin> set (fst x) \<Longrightarrow>
   concat (map credential_line l) = concat (map credential_line l') \<Longrightarrow> l = l'"
proof (induction l arbitrary: l')
  case Nil
  then show ?case by (cases l') (auto simp: credential_line_def)
next
  case (Cons x l)
  then obtain y k where l': "l' = y # k" by (cases l') (auto simp: credential_line_def)
  with Cons.prems credential_line_split [of x y "concat (map credential_line l)" "concat (map credential_line k)"]
  have x: "x = y" and c: "concat (map credential_line l) = concat (map credential_line k)" by auto
  have "\<forall>x\<in>set l. CHR '':'' \<notin> set (fst x)" "\<forall>x\<in>set k. CHR '':'' \<notin> set (fst x)"
    using Cons.prems(1,2) l' by auto
  from Cons.IH [OF this c] x l' show ?case by simp
qed

lemma credentials_named: "\<forall>x\<in>set (credentials h). CHR '':'' \<notin> set (fst x)"
  by (auto simp: credentials_def credentialHeaders_def)

lemma credential_text_inj: "credential_text h = credential_text h' \<Longrightarrow> credentials h = credentials h'"
  unfolding credential_text_def by (rule credential_lines_inj [OF credentials_named credentials_named])

lemma key_text_inj:
  assumes p: "plain_line p r" and p': "plain_line p' r'" and k: "key_text p r body = key_text p' r' body'"
  shows "same_request (p, r, body) (p', r', body')
         \<or> collide (credential_text (hr_Header r)) (credential_text (hr_Header r'))"
proof -
  have n: "CHR 0x00 \<notin> set p" "CHR 0x00 \<notin> set (hr_Method r)" "CHR 0x00 \<notin> set (hr_Path r)" "CHR 0x00 \<notin> set (hr_Query r)"
    "CHR 0x00 \<notin> set p'" "CHR 0x00 \<notin> set (hr_Method r')" "CHR 0x00 \<notin> set (hr_Path r')" "CHR 0x00 \<notin> set (hr_Query r')"
    using p p' by (auto simp: plain_line_def)
  note s1 = stop_split [OF n(1) n(5) k [unfolded key_text_def]]
  note s2 = stop_split [OF n(2) n(6) conjunct2 [OF s1]]
  note s3 = stop_split [OF n(3) n(7) conjunct2 [OF s2]]
  note s4 = stop_split [OF n(4) n(8) conjunct2 [OF s3]]
  have d: "credentialDigest (hr_Header r) = credentialDigest (hr_Header r')" "body = body'"
    using conjunct2 [OF s4] by (auto simp: credentialDigest_def append_eq_append_conv)
  show ?thesis
  proof (cases "credential_text (hr_Header r) = credential_text (hr_Header r')")
    case True
    with s1 s2 s3 s4 d(2) credential_text_inj [OF True] show ?thesis by (simp add: same_request_def)
  next
    case False
    with d(1) show ?thesis by (simp add: collide_def credentialDigest_def)
  qed
qed

lemma cacheKey_eq:
  "cacheKey p r body = cacheKey p' r' body' \<Longrightarrow>
   key_text p r body = key_text p' r' body' \<or> collide (key_text p r body) (key_text p' r' body')"
  using hex_encode_inj by (auto simp: cacheKey_def collide_def)

lemma same_request_key: "same_request (p, r, body) (p', r', body') \<Longrightarrow> cacheKey p r body = cacheKey p' r' body'"
  by (simp add: same_request_def cacheKey_def key_text_def credentialDigest_def credential_text_def)

lemma header_values_set: "header_values (header_set n v h) m = (if m = n then [v] else header_values h m)"
  by (simp add: header_values_def header_set_def update_conv')

lemma credentials_content_length: "credentials (header_set ''Content-Length'' v h) = credentials h"
  by (simp add: credentials_def credentialHeaders_def header_values_set)

text \<open>Reading the body ahead changes nothing the key is made of, nor what is read from it later.\<close>

lemma capture_same:
  "captureRequestBody r = (body, whole, failed, r') \<Longrightarrow>
   hr_Method r' = hr_Method r \<and> hr_Path r' = hr_Path r \<and> hr_Query r' = hr_Query r
   \<and> credentials (hr_Header r') = credentials (hr_Header r)
   \<and> header_get (hr_Header r') headerCacheControl = header_get (hr_Header r) headerCacheControl"
  by (auto simp: captureRequestBody_def Let_def credentials_content_length header_get_def header_values_set
      headerCacheControl_def split: req_body.splits if_splits)

lemma capture_transparent:
  "captureRequestBody r = (body, whole, False, r') \<Longrightarrow>
   (case hr_Body r of NoBody \<Rightarrow> hr_Body r' = NoBody | Stream bs fails \<Rightarrow> \<exists>f. hr_Body r' = Stream bs f)
   \<and> (whole \<longrightarrow> (case hr_Body r of NoBody \<Rightarrow> body = [] | Stream bs fails \<Rightarrow> body = bs))"
  by (auto simp: captureRequestBody_def Let_def split: req_body.splits if_splits)

subsection \<open>What a recorder holds\<close>

fun op_bytes :: "handler_op \<Rightarrow> string" where
  "op_bytes (SendBody b) = b"
| "op_bytes _ = []"

definition sent_bytes :: "handler_op list \<Rightarrow> string" where
  "sent_bytes ops = concat (map op_bytes ops)"

text \<open>A recorder that has gone on from another by these bytes.\<close>

definition went_on :: "recorder \<Rightarrow> string \<Rightarrow> recorder \<Rightarrow> bool" where
  "went_on r b r' \<longleftrightarrow>
     re_maxBufBytes r' = re_maxBufBytes r \<and> (re_streaming r \<longrightarrow> re_streaming r') \<and> (re_overflowed r \<longrightarrow> re_overflowed r')
     \<and> (\<not> re_streaming r' \<longrightarrow> \<not> re_overflowed r' \<longrightarrow> re_buf r' = re_buf r @ b)
     \<and> (length (re_buf r) \<le> re_maxBufBytes r \<longrightarrow> length (re_buf r') \<le> re_maxBufBytes r)"

lemma went_on_refl [simp]: "went_on r [] r"
  by (simp add: went_on_def)

lemma went_on_trans: "went_on r a s \<Longrightarrow> went_on s b t \<Longrightarrow> went_on r (a @ b) t"
  by (auto simp: went_on_def)

lemma went_on_inner: "went_on r [] (on_inner f r)"
  by (simp add: went_on_def on_inner_def)

lemma went_on_header: "went_on r [] (rec_WriteHeader st r)"
  by (simp add: went_on_def rec_WriteHeader_def)

lemma went_on_flush: "went_on r [] (rec_Flush r)"
  by (simp add: went_on_def rec_Flush_def)

lemma went_on_write: "went_on r b (rec_Write b r)"
proof -
  have "went_on s b
    ((if \<not> re_streaming s \<and> \<not> re_overflowed s
      then if re_maxBufBytes s < length (re_buf s) + length b then s\<lparr>re_overflowed := True, re_buf := []\<rparr>
           else s\<lparr>re_buf := re_buf s @ b\<rparr>
      else s)\<lparr>re_inner := w\<rparr>)" for s w
    by (simp add: went_on_def)
  then have "went_on s b (rec_Write b r)" if "s = (if \<not> re_headerSent r then rec_WriteHeader 200 r else r)" for s
    unfolding rec_Write_def Let_def that by blast
  then show ?thesis using went_on_trans [OF went_on_header, of 200 r b] by (cases "re_headerSent r") auto
qed

lemma serve_went_on: "serve ops r = (r', True) \<Longrightarrow> went_on r (sent_bytes ops) r'"
proof (induction ops arbitrary: r)
  case (Cons x ops)
  have step: "went_on r (op_bytes x @ sent_bytes ops) r'" if "went_on r (op_bytes x) s" "serve ops s = (r', True)" for s
    using went_on_trans [OF that(1) Cons.IH [OF that(2)]] .
  have "\<exists>s. went_on r (op_bytes x) s \<and> serve ops s = (r', True)"
    using Cons.prems
    by (cases x) (auto intro: went_on_inner went_on_header went_on_write went_on_flush split: if_splits)
  with step show ?case by (auto simp: sent_bytes_def)
qed (simp add: sent_bytes_def)

text \<open>A new recorder, and the entry it is worth keeping for.\<close>

definition new_recorder :: "recorder \<Rightarrow> bool" where
  "new_recorder r \<longleftrightarrow> re_buf r = [] \<and> re_maxBufBytes r = 4 * 1024 * 1024"

definition whole_answer :: "handler_op list \<Rightarrow> cache_entry \<Rightarrow> bool" where
  "whole_answer ops e \<longleftrightarrow>
     200 \<le> ce_Status e \<and> ce_Status e < 300 \<and> ce_Body e = sent_bytes ops \<and> ce_Body e \<noteq> []
     \<and> length (ce_Body e) \<le> 4 * 1024 * 1024"

lemma recorded_whole:
  assumes "new_recorder r" "serve ops r = (r', True)" "shouldCache r'"
  shows "whole_answer ops (stamp now (recorded_entry wall r'))"
proof -
  have g: "went_on r (sent_bytes ops) r'" using assms(2) by (rule serve_went_on)
  have "re_buf r' = sent_bytes ops" using g assms by (simp add: went_on_def shouldCache_def new_recorder_def)
  moreover have "length (re_buf r') \<le> 4 * 1024 * 1024" using g assms(1) by (simp add: went_on_def new_recorder_def)
  ultimately show ?thesis
    using assms(3) by (auto simp: whole_answer_def stamp_def recorded_entry_def shouldCache_def)
qed

subsection \<open>What a look-up gives\<close>

definition replayed_status :: "cache_entry \<Rightarrow> cache_entry" where
  "replayed_status e = (if ce_Status e = 0 then e\<lparr>ce_Status := 200\<rparr> else e)"

lemma writeCached_entry: "snd (writeCachedResponse w e) = replayed_status e"
  by (simp add: writeCachedResponse_def Let_def replayed_status_def)

definition look_for :: "string \<Rightarrow> gotime \<Rightarrow> http_req \<Rightarrow> string \<Rightarrow> response_cache \<Rightarrow> cache_entry option \<times> response_cache" where
  "look_for p now r body c = (if cache_directive r \<noteq> ''refresh'' then Get now (cacheKey p r body) c else (None, c))"

lemma capture_directive: "captureRequestBody r = (body, whole, failed, r') \<Longrightarrow> cache_directive r' = cache_directive r"
  using capture_same by (simp add: cache_directive_def)

lemma lookup_eq:
  assumes "captureRequestBody r = (body, whole, failed, r')"
    and "look_for p now r' body c = (found, d)"
  shows "cache_lookup p now r w c =
    (if cache_directive r = ''bypass''
     then (Plain (on_header (header_set headerCacheStatus ''bypass'') w) r, MarkBypass c)
     else if hr_Method r \<noteq> ''POST'' then (Plain w r, c)
     else if failed \<or> \<not> whole \<or> body = [] then (Plain w r', c)
     else case found of
            Some e \<Rightarrow> (FromCache (fst (writeCachedResponse (on_header (header_set headerCacheStatus ''hit'') w) e))
                       (replayed_status e) body, d)
          | None \<Rightarrow> (Recorded (newRecordingResponseWriter
              (on_header (header_set headerCacheStatus
                 (if cache_directive r = ''refresh'' then ''refresh'' else ''miss'')) w)) r' (cacheKey p r' body) body, d))"
  using assms capture_directive [OF assms(1)]
  by (auto simp: cache_lookup_def look_for_def Let_def split_beta writeCached_entry split: option.split)

lemma lookup_FromCache:
  assumes "cache_lookup p now r w c = (FromCache w' e body, c')"
  shows "\<exists>r' e'. captureRequestBody r = (body, True, False, r') \<and> Get now (cacheKey p r' body) c = (Some e', c')
    \<and> e = replayed_status e'"
proof -
  obtain body' whole failed r' where cap: "captureRequestBody r = (body', whole, failed, r')" by (metis prod_cases4)
  obtain found d where g: "look_for p now r' body' c = (found, d)" by fastforce
  show ?thesis
    using assms g cap unfolding lookup_eq [OF cap g]
    by (auto simp: look_for_def split: if_splits option.splits)
qed

lemma lookup_Plain: "cache_lookup p now r w c = (Plain w' r', c') \<Longrightarrow> c' = c \<or> c' = MarkBypass c"
proof -
  assume a: "cache_lookup p now r w c = (Plain w' r', c')"
  obtain body' whole failed r' where cap: "captureRequestBody r = (body', whole, failed, r')" by (metis prod_cases4)
  obtain found d where g: "look_for p now r' body' c = (found, d)" by fastforce
  show ?thesis
    using a unfolding lookup_eq [OF cap g] by (auto split: if_splits option.splits)
qed

lemma lookup_Recorded:
  assumes "cache_lookup p now r w c = (Recorded rec r' key body, c')"
  shows "captureRequestBody r = (body, True, False, r') \<and> key = cacheKey p r' body \<and> new_recorder rec
    \<and> (c' = c \<or> Get now key c = (None, c'))"
proof -
  obtain body' whole failed r'' where cap: "captureRequestBody r = (body', whole, failed, r'')" by (metis prod_cases4)
  obtain found d where g: "look_for p now r'' body' c = (found, d)" by fastforce
  show ?thesis
    using assms g cap unfolding lookup_eq [OF cap g]
    by (auto simp: look_for_def new_recorder_def newRecordingResponseWriter_def split: if_splits option.splits)
qed

subsection \<open>What holds in traffic\<close>

text \<open>What a replay rests on: an answer stored before it.\<close>

definition answered_before :: "traffic_event list \<Rightarrow> string \<Rightarrow> cache_entry \<Rightarrow> bool" where
  "answered_before hist key e \<longleftrightarrow>
     (\<exists>p r body ops. Stored p r body ops e \<in> set hist \<and> cacheKey p r body = key \<and> whole_answer ops e)"

definition rests :: "cache_options \<Rightarrow> traffic_event list \<Rightarrow> traffic_event \<Rightarrow> bool" where
  "rests opts hist ev =
     (case ev of Stored p r body ops e \<Rightarrow> True
      | Replayed now p r body e \<Rightarrow>
          answered_before hist (cacheKey p r body) e \<and> Sub now (ce_StoredAt e) \<le> rc_ttl (New_cache opts))"

fun all_rest :: "cache_options \<Rightarrow> traffic_event list \<Rightarrow> traffic_event list \<Rightarrow> bool" where
  "all_rest opts before [] = True"
| "all_rest opts before (ev # hist) = (rests opts before ev \<and> all_rest opts (before @ [ev]) hist)"

lemma all_rest_append: "all_rest opts d (xs @ ys) \<longleftrightarrow> all_rest opts d xs \<and> all_rest opts (d @ xs) ys"
  by (induction xs arbitrary: d) auto

definition out_ok :: "open_request \<Rightarrow> bool" where
  "out_ok q \<longleftrightarrow> or_key q = cacheKey (or_provider q) (or_request q) (or_body q) \<and> new_recorder (or_recorder q)"

definition traffic_ok :: "cache_options \<Rightarrow> traffic \<Rightarrow> bool" where
  "traffic_ok opts t =
     (let (c, open_reqs, hist) = t
      in store_ok c \<and> limits c = limits (New_cache opts) \<and> backed (answered_before hist) (resident c)
         \<and> list_all out_ok open_reqs \<and> all_rest opts [] hist)"

lemma answered_more: "answered_before hist k e \<Longrightarrow> answered_before (hist @ later) k e"
  by (auto simp: answered_before_def)

lemma list_all_remove1: "list_all P l \<Longrightarrow> list_all P (remove1 x l)"
  using set_remove1_subset [of x l] by (auto simp: list_all_iff)

lemma new_store_ok: "store_ok (New_cache opts)" "resident (New_cache opts) = Map.empty"
proof -
  show "store_ok (New_cache opts)" by (simp add: store_ok_def New_cache_inside New_cache_limits)
  show "resident (New_cache opts) = Map.empty"
    by (simp add: resident_def find_item_def New_cache_def fun_eq_iff)
qed

lemma captured_key:
  "captureRequestBody r = (body, whole, failed, r') \<Longrightarrow> cacheKey p r' body' = cacheKey p r body'"
  using capture_same [of r body whole failed r'] by (intro same_request_key) (simp add: same_request_def)

lemma store_bypass: "store_ok (MarkBypass c) = store_ok c" "resident (MarkBypass c) = resident c" "limits (MarkBypass c) = limits c"
  by (simp_all add: MarkBypass_def store_ok_def)

lemma traffic_kept: "cache_traffic opts t \<Longrightarrow> traffic_ok opts t"
proof (induction rule: cache_traffic.induct)
  case idle
  show ?case by (simp add: traffic_ok_def new_store_ok backed_def)
next
  case (replay c open_reqs hist p now r w w' e body c')
  from lookup_FromCache [OF replay.hyps(2)] obtain r' e' where
    cap: "captureRequestBody r = (body, True, False, r')"
    and g: "Get now (cacheKey p r' body) c = (Some e', c')" and e: "e = replayed_status e'" by blast
  have ok: "store_ok c" "backed (answered_before hist) (resident c)" "limits c = limits (New_cache opts)"
    using replay.IH by (auto simp: traffic_ok_def)
  from reply_store.look_backed [OF ok(1,2) g]
  have c': "store_ok c'" "backed (answered_before hist) (resident c')"
    and a: "answered_before hist (cacheKey p r body) e'" "young_entry c now e'"
    by (auto simp: captured_key [OF cap])
  have "e = e'" using a(1) e by (auto simp: answered_before_def whole_answer_def replayed_status_def)
  moreover have "limits c' = limits c" using limits_Get [of now "cacheKey p r' body" c] g by simp
  moreover have "backed (answered_before (hist @ [Replayed now p r body e])) (resident c')"
    using c'(2) by (rule backed_mono) (rule answered_more)
  ultimately show ?case
    using replay.IH c' a ok(3) by (simp add: traffic_ok_def all_rest_append rests_def young_entry_def limits_def)
next
  case (pass_on c open_reqs hist p now r w w' r' c')
  from lookup_Plain [OF pass_on.hyps(2)] pass_on.IH show ?case
    by (auto simp: traffic_ok_def store_bypass)
next
  case (go_out c open_reqs hist p now r h rec r' key body c')
  from lookup_Recorded [OF go_out.hyps(2)] have
    k: "key = cacheKey p r' body" "new_recorder rec" and c': "c' = c \<or> Get now key c = (None, c')" by auto
  have ok: "store_ok c" "backed (answered_before hist) (resident c)" using go_out.IH by (auto simp: traffic_ok_def)
  have "store_ok c' \<and> backed (answered_before hist) (resident c') \<and> limits c' = limits c"
    using c' reply_store.look_backed [OF ok] ok limits_Get [of now key c] by (metis snd_conv)
  with k go_out.IH show ?case by (simp add: traffic_ok_def out_ok_def)
next
  case (come_back c open_reqs hist q ops rec wall now w' c')
  let ?e = "stamp now (recorded_entry wall rec)"
  let ?ev = "Stored (or_provider q) (or_request q) (or_body q) ops ?e"
  have ok: "store_ok c" "backed (answered_before hist) (resident c)" and q: "out_ok q"
    using come_back.IH come_back.hyps(2) by (auto simp: traffic_ok_def list_all_iff)
  have c': "c' = snd (Put now (or_key q) (Some (recorded_entry wall rec)) c)"
    using come_back.hyps(4,5) by (simp add: cache_store_def)
  have "backed (answered_before (hist @ [?ev])) (resident c)" using ok(2) by (rule backed_mono) (rule answered_more)
  moreover have "whole_answer ops ?e"
    using q come_back.hyps(3,4) by (intro recorded_whole) (auto simp: out_ok_def)
  then have "answered_before (hist @ [?ev]) (or_key q) ?e"
    using q unfolding answered_before_def out_ok_def by fastforce
  ultimately have "store_ok c' \<and> backed (answered_before (hist @ [?ev])) (resident c')"
    unfolding c' by (rule reply_store.keep_backed [OF ok(1)])
  then show ?case
    using come_back.IH c' by (simp add: traffic_ok_def all_rest_append rests_def list_all_remove1)
next
  case (give_up c open_reqs hist q ops rec returned wall now w' c')
  have "c' = c" using give_up.hyps(4,5) by (simp add: cache_store_def)
  with give_up.IH show ?case by (simp add: traffic_ok_def list_all_remove1)
next
  case (drop_one c open_reqs hist key)
  then show ?case using inside_delete [of c key] backed_sub by (auto simp: traffic_ok_def store_ok_def)
next
  case (drop_all c open_reqs hist)
  then show ?case using inside_purge [of c] by (auto simp: traffic_ok_def store_ok_def backed_def)
qed

lemma traffic_store:
  "cache_traffic opts (c, open_reqs, hist) \<Longrightarrow> store_ok c \<and> limits c = limits (New_cache opts)"
  using traffic_kept [of opts "(c, open_reqs, hist)"] by (simp add: traffic_ok_def)

lemma status_final: "200 \<le> st \<Longrightarrow> hw_Sent w = None \<Longrightarrow> write_status st w = w\<lparr>hw_Sent := Some (st, hw_Header w)\<rparr>"
  by (simp add: write_status_def informational_def)

lemma header_adds_keep:
  "hw_Sent (foldl (\<lambda>w v. on_header (header_add n v) w) w vs) = hw_Sent w"
  "hw_Body (foldl (\<lambda>w v. on_header (header_add n v) w) w vs) = hw_Body w"
  by (induction vs arbitrary: w) (simp_all add: on_header_def)

lemma headers_copied_keep:
  "hw_Sent (foldl (\<lambda>w (n, vs). foldl (\<lambda>w v. on_header (header_add n v) w) w vs) w h) = hw_Sent w
   \<and> hw_Body (foldl (\<lambda>w (n, vs). foldl (\<lambda>w v. on_header (header_add n v) w) w vs) w h) = hw_Body w"
  by (induction h arbitrary: w) (auto simp: header_adds_keep)

lemma replayed_bytes:
  assumes "200 \<le> ce_Status e" "hw_Sent w = None"
  shows "\<exists>h. hw_Sent (fst (writeCachedResponse w e)) = Some (ce_Status e, h)
    \<and> hw_Body (fst (writeCachedResponse w e)) = hw_Body w @ (if body_allowed (ce_Status e) then ce_Body e else [])"
  using assms headers_copied_keep [of w "ce_Headers e"]
  by (simp add: writeCachedResponse_def Let_def status_final write_body_def)

lemma stored_found:
  assumes c: "store_ok c" and rec: "shouldCache rec"
    and put: "cache_store wall now key (rec, True) c = (w', c')"
    and small: "int (length (re_buf rec)) \<le> rc_maxEntryBytes c" "int (length (re_buf rec)) \<le> rc_maxBytes c"
    and young: "Sub later (ce_StoredAt (stamp now (recorded_entry wall rec))) \<le> rc_ttl c"
    and cap: "captureRequestBody r = (body, True, False, r')" and key: "cacheKey p r' body = key"
    and post: "hr_Method r = ''POST''" "cache_directive r \<notin> {''bypass'', ''refresh''}" "body \<noteq> []"
  shows "\<exists>c2. cache_lookup p later r w c' =
    (FromCache (fst (writeCachedResponse (on_header (header_set headerCacheStatus ''hit'') w) (stamp now (recorded_entry wall rec))))
       (stamp now (recorded_entry wall rec)) body, c2)"
proof -
  let ?e = "recorded_entry wall rec"
  have c': "c' = snd (Put now key (Some ?e) c)" using put rec by (simp add: cache_store_def)
  have ok: "store_ok c'" "limits c' = limits c"
    using reply_store.keep_ok [OF c] limits_Put [of now key "Some ?e" c] by (simp_all add: c')
  have "resident c' key = Some (stamp now ?e)"
    unfolding c' using c small by (intro Put_resident) (auto simp: store_ok_def recorded_entry_def)
  with Get_young [of c' key "stamp now ?e" later] ok young
  obtain c2 where "Get later key c' = (Some (stamp now ?e), c2)" by (auto simp: store_ok_def inside_def limits_def)
  then have look: "look_for p later r' body c' = (Some (stamp now ?e), c2)"
    using key capture_directive [OF cap] post(2) by (simp add: look_for_def)
  have "ce_Status (stamp now ?e) \<noteq> 0" using rec by (simp add: stamp_def recorded_entry_def shouldCache_def)
  then show ?thesis using lookup_eq [OF cap look, of w] post by (simp add: replayed_status_def)
qed

text \<open>
  C10: Whatever the order in which requests come and go, a reply out of the store is one the handler
  behind finished earlier: its status is a success, its body is every byte the handler sent, not empty
  and at most 4 MiB, it is no older than the time to live, and it was given to a request with the same
  provider, method, path, query, credentials and body, unless two texts collide under SHA-256 or one of
  the two request lines has a NUL byte.
\<close>

theorem replay_is_own_answer:
  assumes "cache_traffic opts (c, open_reqs, xs @ Replayed now p r body e # ys)" and "plain_line p r"
  shows "\<exists>p' r' body' ops. Stored p' r' body' ops e \<in> set xs \<and> whole_answer ops e
    \<and> Sub now (ce_StoredAt e) \<le> rc_ttl (New_cache opts)
    \<and> (\<not> plain_line p' r' \<or> same_request (p, r, body) (p', r', body')
       \<or> collide (key_text p r body) (key_text p' r' body')
       \<or> collide (credential_text (hr_Header r)) (credential_text (hr_Header r')))"
proof -
  have "rests opts xs (Replayed now p r body e)"
    using traffic_kept [OF assms(1)] by (simp add: traffic_ok_def all_rest_append)
  then obtain p' r' body' ops where s: "Stored p' r' body' ops e \<in> set xs" "whole_answer ops e"
    "Sub now (ce_StoredAt e) \<le> rc_ttl (New_cache opts)" and k: "cacheKey p r body = cacheKey p' r' body'"
    by (auto simp: rests_def answered_before_def)
  from cacheKey_eq [OF k] key_text_inj [OF assms(2)] s show ?thesis by blast
qed


subsection \<open>What the client sees\<close>

definition seen :: "http_writer \<Rightarrow> (int \<times> http_header) list \<times> (int \<times> http_header) option \<times> string" where
  "seen w = (hw_Info w, hw_Sent w, hw_Body w)"

definition no_hint :: "handler_op \<Rightarrow> bool" where
  "no_hint x \<longleftrightarrow> (case x of SendHeader st \<Rightarrow> \<not> informational st | _ \<Rightarrow> True)"

lemma write_status_sent: "hw_Sent w \<noteq> None \<Longrightarrow> write_status st w = w"
  by (simp add: write_status_def)

lemma sends_status: "\<not> informational st \<Longrightarrow> hw_Sent (write_status st w) \<noteq> None"
  by (simp add: write_status_def)

lemma write_body_sent: "hw_Sent w \<noteq> None \<Longrightarrow> hw_Sent (write_body b w) = hw_Sent w"
  by (auto simp: write_body_def)

lemma write_body_first: "write_body b (write_status 200 w) = write_body b w"
  by (auto simp: write_body_def write_status_def informational_def)

lemma body_sends: "hw_Sent (write_body b w) \<noteq> None"
  by (auto simp: write_body_def write_status_def informational_def Let_def)

lemma rec_Write_inner: "re_inner (rec_Write b r) = write_body b (re_inner r)"
  by (simp add: rec_Write_def rec_WriteHeader_def Let_def write_body_first)

lemma rec_Write_headerSent: "re_headerSent (rec_Write b r)"
  by (simp add: rec_Write_def rec_WriteHeader_def Let_def)

text \<open>Without informational replies the recorder hands on exactly what the plain writer would be given.\<close>

lemma recorder_hands_on:
  "list_all no_hint ops \<Longrightarrow> (re_headerSent r \<longrightarrow> hw_Sent (re_inner r) \<noteq> None) \<Longrightarrow>
   re_inner (fst (serve ops r)) = fst (serve_plain ops (re_inner r)) \<and> snd (serve ops r) = snd (serve_plain ops (re_inner r))"
proof (induction ops arbitrary: r)
  case (Cons x ops)
  note IH = Cons.IH [OF _ ] and inv = Cons.prems(2)
  have ops: "list_all no_hint ops" "no_hint x" using Cons.prems(1) by auto
  show ?case
  proof (cases x)
    case (SendHeader st)
    have h: "\<not> informational st" using ops(2) SendHeader by (simp add: no_hint_def)
    have i: "re_inner (rec_WriteHeader st r) = write_status st (re_inner r)"
      using inv write_status_sent by (auto simp: rec_WriteHeader_def)
    have "hw_Sent (re_inner (rec_WriteHeader st r)) \<noteq> None" unfolding i by (rule sends_status [OF h])
    with Cons.IH [OF ops(1), of "rec_WriteHeader st r"] i inv SendHeader show ?thesis by auto
  next
    case (SendBody b)
    have "hw_Sent (re_inner (rec_Write b r)) \<noteq> None" unfolding rec_Write_inner by (rule body_sends)
    with Cons.IH [OF ops(1), of "rec_Write b r"] SendBody show ?thesis by (simp add: rec_Write_inner)
  next
    case FlushNow
    have "re_headerSent (rec_Flush r) \<longrightarrow> hw_Sent (re_inner (rec_Flush r)) \<noteq> None"
      using inv by (auto simp: rec_Flush_def flush_writer_def)
    with Cons.IH [OF ops(1), of "rec_Flush r"] FlushNow show ?thesis by (simp add: rec_Flush_def)
  next
    case (SetHeader n v)
    with Cons.IH [OF ops(1), of "on_inner (on_header (header_set n v)) r"] inv show ?thesis
      by (simp add: on_inner_def on_header_def)
  next
    case (AddHeader n v)
    with Cons.IH [OF ops(1), of "on_inner (on_header (header_add n v)) r"] inv show ?thesis
      by (simp add: on_inner_def on_header_def)
  next
    case ClearHeader
    with Cons.IH [OF ops(1), of "on_inner (on_header (\<lambda>_. [])) r"] inv show ?thesis
      by (simp add: on_inner_def on_header_def)
  qed simp
qed simp

lemma store_seen: "seen (fst (cache_store wall now key served c)) = seen (re_inner (fst served))"
  by (simp add: cache_store_def seen_def on_header_def split: prod.split)

lemma capture_forwards:
  "captureRequestBody r = (body, whole, failed, r') \<Longrightarrow> hr_Body r = Stream bs False \<Longrightarrow> hr_Body r' = Stream bs False"
  by (auto simp: captureRequestBody_def Let_def split: if_splits)


text \<open>
  After any calls the store holds at most the entries and the bytes it was made for, none above the
  limit of a single body; its byte count is the sum of the bodies it holds and its table has each of
  their keys once.
\<close>

theorem cache_within_bounds:
  "let c = foldl (\<lambda>c call. cache_do call c) (New_cache opts) calls
   in int (Len c) \<le> rc_maxEntries (New_cache opts) \<and> rc_bytes c \<le> rc_maxBytes (New_cache opts)
      \<and> list_all (\<lambda>it. body_size it \<le> rc_maxEntryBytes (New_cache opts)) (rc_lru c)
      \<and> rc_bytes c = sum_list (map body_size (rc_lru c))
      \<and> distinct (map fst (rc_entries c)) \<and> fst ` set (rc_entries c) = li_key ` set (rc_lru c)"
proof -
  let ?c = "foldl (\<lambda>c call. cache_do call c) (New_cache opts) calls"
  have i: "inside ?c" by (rule calls_keep [OF New_cache_inside New_cache_limits])
  then have l: "linked ?c" by (simp add: inside_def)
  have m: "limits ?c = limits (New_cache opts)" by (rule limits_calls)
  have s: "fst ` set (rc_entries ?c) = li_key ` set (rc_lru ?c)"
    using l by (simp add: linked_def image_image)
  have "length (rc_entries ?c) = card (fst ` set (rc_entries ?c))"
    using l by (metis distinct_card length_map linked_def list.set_map)
  also have "\<dots> \<le> length (rc_lru ?c)" unfolding s by (metis card_image_le card_length le_trans List.finite_set)
  finally have "Len ?c \<le> length (rc_lru ?c)" by (simp add: Len_def)
  with i l m s show ?thesis by (auto simp: inside_def over_limit_def limits_def linked_def list_all_iff)
qed

text \<open>
  C13: Storing a reply keeps, of the entries in the order of their use with the new one first, the longest
  run that respects the limits of count and bytes; a reply above the limit of a single body changes
  nothing.
\<close>

theorem least_used_go_first:
  "let c = foldl (\<lambda>c call. cache_do call c) (New_cache opts) calls; d = place key (stamp now e) c
   in rc_lru (snd (Put now key (Some e) c)) =
      (if rc_maxEntryBytes c < int (length (ce_Body e)) then rc_lru c else longest_run d (length (rc_lru d)))"
proof -
  let ?c = "foldl (\<lambda>c call. cache_do call c) (New_cache opts) calls"
  let ?d = "place key (stamp now e) ?c"
  have l: "linked ?c" using calls_keep [OF New_cache_inside New_cache_limits] by (simp add: inside_def)
  have "linked ?d" if "int (length (ce_Body e)) \<le> rc_maxEntryBytes ?c"
    by (rule linked_place [OF l]) (use that in \<open>simp add: stamp_def\<close>)
  moreover have "longest_run (?d\<lparr>rc_stores := n\<rparr>) k = longest_run ?d k" for n k
    by (rule longest_run_cong) simp_all
  ultimately show ?thesis
    using evict_longest_run [of "?d\<lparr>rc_stores := rc_stores ?d + 1\<rparr>"] by (simp add: Put_def Let_def)
qed

text \<open>
  C14: Behind the recorder an informational reply hides the status that follows it: the client reads 200
  where, without a store, it reads the status the handler sent.
\<close>

theorem early_hint_hides_status:
  assumes "informational hint" and "\<not> informational st" and "\<not> bad_status st"
  shows "hw_Sent (re_inner (fst (serve [SendHeader hint, ClearHeader, SendHeader st, SendBody b]
      (newRecordingResponseWriter (fresh_writer h))))) = Some (200, [])
    \<and> hw_Sent (fst (serve_plain [SendHeader hint, ClearHeader, SendHeader st, SendBody b] (fresh_writer h))) = Some (st, [])"
  using assms
  by (simp add: fresh_writer_def newRecordingResponseWriter_def write_status_def write_body_def rec_WriteHeader_def
      rec_Write_def on_inner_def on_header_def informational_def bad_status_def Let_def)

subsection \<open>Examples\<close>

definition demo_cache_options :: cache_options where
  "demo_cache_options = \<lparr>co_MaxEntries = 0, co_MaxBytes = 0, co_MaxEntryBytes = 0, co_TTL = 0\<rparr>"

definition demo_post :: "http_header \<Rightarrow> http_req" where
  "demo_post h = \<lparr>hr_Method = ''POST'', hr_Path = ''/v1/messages'', hr_Query = [], hr_Header = h,
     hr_Body = Stream ''q'' False, hr_ContentLength = 1\<rparr>"

definition demo_captured :: "http_header \<Rightarrow> http_req" where
  "demo_captured h = (demo_post h)\<lparr>hr_Header := header_set ''Content-Length'' (itoa 1) h\<rparr>"

definition demo_instant :: gotime where
  "demo_instant = \<lparr>t_ns = 0, t_off = 0\<rparr>"

definition demo_ops :: "handler_op list" where
  "demo_ops = [SendHeader 200, SendBody ''ok'']"

definition demo_recorder :: recorder where
  "demo_recorder = newRecordingResponseWriter (fresh_writer [(''X-Tokenops-Cache-Status'', [''miss''])])"

definition demo_open :: open_request where
  "demo_open = \<lparr>or_provider = ''anthropic'', or_request = demo_captured [], or_body = ''q'',
     or_key = cacheKey ''anthropic'' (demo_captured []) ''q'', or_recorder = demo_recorder\<rparr>"

definition demo_asked :: response_cache where
  "demo_asked = (New_cache demo_cache_options)\<lparr>rc_misses := 1\<rparr>"

lemma demo_capture: "captureRequestBody (demo_post h) = (''q'', True, False, demo_captured h)"
  by (simp add: captureRequestBody_def demo_post_def demo_captured_def maxRequestBodyCapture_def)

lemma demo_directive:
  "header_values h headerCacheControl = [] \<Longrightarrow> cache_directive (demo_post h) = []"
  by (simp add: cache_directive_def demo_post_def header_get_def trim_space_def trim_left_def to_lower_def)

lemma demo_goes_out:
  "cache_lookup ''anthropic'' now (demo_post []) (fresh_writer []) (New_cache demo_cache_options)
   = (Recorded demo_recorder (demo_captured []) (cacheKey ''anthropic'' (demo_captured []) ''q'') ''q'', demo_asked)"
proof -
  have d: "cache_directive (demo_post []) = []" by (rule demo_directive) (simp add: header_values_def)
  have "find_item (New_cache demo_cache_options) k = None" for k by (simp add: find_item_def New_cache_def)
  then have "Get now k (New_cache demo_cache_options) = (None, demo_asked)" for k
    by (simp add: Get_def demo_asked_def New_cache_def)
  then have "look_for ''anthropic'' now (demo_captured []) ''q'' (New_cache demo_cache_options) = (None, demo_asked)"
    using d capture_directive [OF demo_capture [of "[]"]] by (simp add: look_for_def)
  from lookup_eq [OF demo_capture this, of "fresh_writer []"] d show ?thesis
    by (simp add: demo_post_def demo_recorder_def on_header_def fresh_writer_def header_set_def headerCacheStatus_def)
qed

definition demo_recorded :: recorder where
  "demo_recorded = fst (serve demo_ops demo_recorder)"

lemma demo_served:
  "serve demo_ops (or_recorder demo_open) = (demo_recorded, True)" "shouldCache demo_recorded"
  "re_buf demo_recorded = ''ok''" "re_status demo_recorded = 200"
  unfolding demo_recorded_def demo_ops_def demo_open_def demo_recorder_def
  by (simp_all add: newRecordingResponseWriter_def fresh_writer_def rec_WriteHeader_def
      rec_Write_def bad_status_def Let_def shouldCache_def header_get_def header_values_def has_prefix_def trim_space_def
      trim_left_def to_lower_def)

definition demo_stored :: "http_writer \<times> response_cache" where
  "demo_stored = cache_store demo_instant demo_instant (or_key demo_open) (demo_recorded, True) demo_asked"

definition demo_entry :: cache_entry where
  "demo_entry = stamp demo_instant (recorded_entry demo_instant demo_recorded)"

lemma demo_out: "cache_traffic demo_cache_options (demo_asked, [demo_open], [])"
  using cache_traffic.go_out [OF cache_traffic.idle demo_goes_out [of demo_instant]] by (simp add: demo_open_def)

lemma demo_back: "cache_traffic demo_cache_options
  (snd demo_stored, [], [Stored ''anthropic'' (demo_captured []) ''q'' demo_ops demo_entry])"
proof -
  have s: "cache_store demo_instant demo_instant (or_key demo_open) (demo_recorded, True) demo_asked
    = (fst demo_stored, snd demo_stored)" by (simp add: demo_stored_def)
  have "demo_open \<in> set [demo_open]" by simp
  from cache_traffic.come_back [OF demo_out this demo_served(1,2) s]
  show ?thesis by (simp add: demo_open_def demo_entry_def)
qed

lemma demo_same:
  "credentials h = [] \<Longrightarrow> same_request (''anthropic'', demo_captured h, ''q'') (''anthropic'', demo_captured [], ''q'')"
  by (simp add: same_request_def demo_captured_def demo_post_def credentials_content_length)
    (simp add: credentials_def credentialHeaders_def header_values_def)

lemma demo_young: "Sub demo_instant (ce_StoredAt demo_entry) \<le> rc_ttl (New_cache demo_cache_options)"
  by (simp add: demo_entry_def recorded_entry_def stamp_def demo_instant_def IsZero_def zero_ns_def Sub_def New_cache_def
      demo_cache_options_def)

lemma demo_limits:
  "rc_maxEntryBytes (New_cache demo_cache_options) = 4194304" "rc_maxBytes (New_cache demo_cache_options) = 67108864"
  by (simp_all add: New_cache_def demo_cache_options_def)


lemma demo_replayed:
  "\<exists>c. cache_traffic demo_cache_options (c, [],
     [Stored ''anthropic'' (demo_captured []) ''q'' demo_ops demo_entry]
     @ Replayed demo_instant ''anthropic'' (demo_post []) ''q'' demo_entry # [])"
proof -
  have t: "store_ok demo_asked" "limits demo_asked = limits (New_cache demo_cache_options)"
    using traffic_store [OF demo_out] by auto
  have s: "cache_store demo_instant demo_instant (or_key demo_open) (demo_recorded, True) demo_asked
    = (fst demo_stored, snd demo_stored)" by (simp add: demo_stored_def)
  have d: "cache_directive (demo_post []) \<notin> {''bypass'', ''refresh''}"
    using demo_directive [of "[]"] by (simp add: header_values_def)
  have "\<exists>w c2. cache_lookup ''anthropic'' demo_instant (demo_post []) (fresh_writer []) (snd demo_stored)
    = (FromCache w demo_entry ''q'', c2)"
    using stored_found [OF t(1) demo_served(2) s _ _ _ demo_capture _ _ d,
        of demo_instant "''anthropic''" "fresh_writer []"] demo_young t(2) demo_served(3)
    by (auto simp: demo_entry_def limits_def demo_limits demo_open_def demo_post_def)
  then obtain w c2 where "cache_lookup ''anthropic'' demo_instant (demo_post []) (fresh_writer []) (snd demo_stored)
    = (FromCache w demo_entry ''q'', c2)" by blast
  from cache_traffic.replay [OF demo_back this] show ?thesis by auto
qed

lemma replay_is_own_answer_witness:
  "\<exists>p' r' body' ops. Stored p' r' body' ops demo_entry
     \<in> set [Stored ''anthropic'' (demo_captured []) ''q'' demo_ops demo_entry] \<and> whole_answer ops demo_entry"
proof -
  obtain c where t: "cache_traffic demo_cache_options (c, [],
     [Stored ''anthropic'' (demo_captured []) ''q'' demo_ops demo_entry]
     @ Replayed demo_instant ''anthropic'' (demo_post []) ''q'' demo_entry # [])"
    using demo_replayed by (elim exE)
  have "plain_line ''anthropic'' (demo_post [])" by (simp add: plain_line_def demo_post_def)
  note own = replay_is_own_answer [OF t this]
  from own obtain p' r' body' ops where "Stored p' r' body' ops demo_entry
     \<in> set [Stored ''anthropic'' (demo_captured []) ''q'' demo_ops demo_entry]" and "whole_answer ops demo_entry"
    by (elim exE conjE) (rule that)
  then show ?thesis by (intro exI conjI)
qed

lemma early_hint_hides_status_witness:
  "hw_Sent (re_inner (fst (serve [SendHeader 103, ClearHeader, SendHeader 429, SendBody ''slow down'']
      (newRecordingResponseWriter (fresh_writer []))))) = Some (200, [])
    \<and> hw_Sent (fst (serve_plain [SendHeader 103, ClearHeader, SendHeader 429, SendBody ''slow down'']
      (fresh_writer []))) = Some (429, [])"
  by (rule early_hint_hides_status) (simp_all add: informational_def bad_status_def)


end
