(* ===== verification/Spec2Isabelle.thy ===== *)
theory Spec2Isabelle
  imports Points Poller RoutingApproval RouteGate ResponseCache
begin

text \<open>
  TokenOps watches what coding agents spend and stops them at the operator's boundaries. This library
  models the part of it that decides and remembers: the boundary rules, the pause point that checks them
  before an agent's next step, the approvals and extra allowances that let a step through, the keys that
  prove a person gave them, the files all of that rests on, and the event bus the decisions travel by; and
  the router that moves a request to another model: the prices it compares, the kind of work it reads in a
  turn, the operator's policy and approvals, and the evidence a route needs before it is trusted; and the
  store of replies that may answer a request before either is asked.
  Names are the code's wherever Isabelle allows; each theory says at its head which files it holds.

  How the parts interact. A harness's hook calls \<open>Guard\<close> with the call about to be made. \<open>Guard\<close> reads
  the figures the rules compare (\<open>ReadFacts\<close>, \<open>PlanFacts\<close>, \<open>Calls\<close>, \<open>Transcript\<close>), evaluates the rules on
  them (\<open>Boundaries\<close>), takes out those an allowance lifts (\<open>Extras\<close>, \<open>Guard\<close>), and for the match that
  binds looks for an answer on file, checks the presence proof an approval carries (\<open>Approvals\<close>,
  \<open>Presence\<close>, \<open>KeyStore\<close>) and lets the step through, asks, or refuses; every decision is appended to the
  ledger (\<open>Ledger\<close>, \<open>Reasons\<close>). Answers come from \<open>Decide\<close> or from the team plane, proofs from
  \<open>Signing\<close>, allowances from \<open>ExtraGrants\<close>. The router and the senders of figures are checked by the same
  \<open>Guard\<close> (\<open>Points\<close>). The poller hands the ledger's decisions to the event bus (\<open>Poller\<close>, \<open>EventBus\<close>).

  A proxied request goes through the router's \<open>Run\<close> (\<open>Router\<close>), whose configuration is made of the
  settings (\<open>RouteConfig\<close>, \<open>ModelPolicy\<close>). It reads the turn (\<open>TaskClass\<close>, over \<open>Json\<close>), prices the candidates
  (\<open>Pricing\<close>), and refers what passes the operator's ceiling to the log of proposals and signed answers
  (\<open>RoutingApproval\<close>, over \<open>Presence\<close>). The proxy's middleware (\<open>RouteGate\<close>) applies what \<open>Run\<close> recommends only
  to an execution that drew the variant of a running trial (\<open>Experiments\<close>) or on a trusted route. What the
  outcomes of routed work show decides whether a route is trusted: the events of its trials are joined to matched
  pairs (\<open>Evidence\<close>) and judged (\<open>Learning\<close>, over the values of \<open>Measurement\<close>). In front of that middleware
  a server made with a cache asks the store of replies first (\<open>ResponseCache\<close>); the daemon as shipped
  makes none.

  Theories, in the order of their imports:
  \<^item> \<open>Prelude\<close>, \<open>GoStrings\<close>, \<open>GoFloat\<close>, \<open>GoTime\<close>, \<open>GoPath\<close>, \<open>Sha256\<close>: what the code uses of Go's library
    (strings, numbers as text, times in zones, \<open>path.Match\<close>, the hash of a decision's id), with the
    collections of facts the other theories share.
  \<^item> \<open>Policy\<close>: the ladder of authority (\<open>internal/contexts/policy\<close>).
  \<^item> \<open>FolderHours\<close>, \<open>Loops\<close>, \<open>Rules\<close>, \<open>Boundaries\<close>: \<open>internal/contexts/boundaries\<close>: conditions on folders
    and hours, loop readings, the rules as data and as text, and their evaluation to a verdict.
  \<^item> \<open>Presence\<close>: \<open>internal/contexts/boundaries/presence\<close>: the statements a person signs, the verifier, the
    trust in an enrolled key and the modes.
  \<^item> \<open>Store\<close>, \<open>LedgerState\<close>, \<open>Ledger\<close>, \<open>Calls\<close>, \<open>Extras\<close>, \<open>KeyStore\<close>: the files
    (\<open>internal/infra/boundaryledger\<close>, \<open>internal/infra/presence\<close>), with every access that may fail.
  \<^item> \<open>Transcript\<close>, \<open>PlanFacts\<close>, \<open>Approvals\<close>, \<open>ReadFacts\<close>, \<open>Reasons\<close>, \<open>Guard\<close>, \<open>Steady\<close>, \<open>PausePoint\<close>: the
    pause point (\<open>internal/capability/boundaries/guard.go\<close> and the files it calls), its words, that it
    answers on a working disk, and its properties.
  \<^item> \<open>Decide\<close>, \<open>Signing\<close>, \<open>ExtraGrants\<close>: the operator's operations (\<open>decide.go\<close>, \<open>org.go\<close>,
    \<open>presence_sign.go\<close>, \<open>extra.go\<close>).
  \<^item> \<open>Points\<close>: the router's and the senders' points, the plans a command starts (\<open>points.go\<close>,
    \<open>crossagent.go\<close>).
  \<^item> \<open>EventBus\<close>, \<open>Poller\<close>: the bus and what feeds it the ledger (\<open>internal/events\<close>, \<open>poller.go\<close>).
  \<^item> \<open>GoText\<close>, \<open>Json\<close>: suffixes and the reading and writing of JSON values, for what follows.
  \<^item> \<open>Pricing\<close>: rate cards, dated cards, costs and context windows (\<open>internal/contexts/spend/spend\<close>).
  \<^item> \<open>TaskClass\<close>, \<open>Router\<close>, \<open>RoutingApproval\<close>: classification, the router and the log of routing answers
    (\<open>internal/contexts/optimization\<close>, \<open>internal/capability/actions/choices.go\<close>, \<open>routers/approvals.go\<close>).
  \<^item> \<open>ModelPolicy\<close>, \<open>RouteConfig\<close>: the globs that rule models out and the routing settings
    (\<open>internal/contexts/governance/modelpolicy\<close>, \<open>internal/config\<close>).
  \<^item> \<open>Measurement\<close>, \<open>Learning\<close>: values with their provenance, the gates of a trusted route and the ladder of a
    capability (\<open>internal/contexts/measurement\<close>, \<open>internal/contexts/learning\<close>).
  \<^item> \<open>Experiments\<close>, \<open>Evidence\<close>: bounded trials over the event ledger, the outcomes of executions, and the belief
    of a route made of both (\<open>internal/capability/experiments\<close>, \<open>outcomes\<close>, \<open>learn\<close>).
  \<^item> \<open>RouteGate\<close>: the proxy's routing middleware, its wiring and the record of each decision
    (\<open>internal/proxy/routing.go\<close>, \<open>internal/daemon/startup.go\<close>, \<open>windowprobe.go\<close>, \<open>internal/capability/decide\<close>).
  \<^item> \<open>ResponseCache\<close>: the store of replies, the key of a request, the recorder, and requests in flight as
    one relation (\<open>internal/proxy/cache/cache.go\<close>, \<open>cache_middleware.go\<close>, \<open>captureRequestBody\<close>).

  How state is modelled. A \<open>world\<close> (\<open>LedgerState\<close>) holds the files by what they decode to, a byte length
  where the code compares one, the outcome of each access to come, a supply of random ids and the clock
  of file times. An operation is a function of the world that gives an error or a value and the world
  after it (\<open>Store\<close>); an access that fails is an error of that operation, as in the code, and a write may
  stop partway. What an operation leaves alone (\<open>leaves\<close>) and that it returns on a working disk (\<open>steady\<close>)
  are proved once per operation and composed. The bus is a step relation over one shared state: each
  publisher, the closing call and the worker take one step at a time, in any order (\<open>bus_step\<close>,
  \<open>bus_run\<close>); a row's acceptance, its count and its notices are one step.

  What the lemmas show, by part:
  \<^item> Rules and verdicts: parsing accepts exactly well-formed rules; the binding match is the first of the
    strictest; adding rules never loosens; shadow rules bind nothing; windows, folders and loop readings
    mean what they say (\<open>FolderHours\<close>, \<open>Loops\<close>, \<open>Rules\<close>, \<open>Boundaries\<close>).
  \<^item> Presence: the verifier accepts exactly the statements the pinned key signed for that decision, the
    signed bytes determine every field, kinds of statement are never mixed, and a key put in place of
    the pinned one waits out its hold (\<open>Presence\<close>, \<open>KeyStore\<close>).
  \<^item> Files: the log keeps what was recorded last and stays bounded; an answer is spent once under any
    interleaving; the call log reader is the plain window of the newest calls (\<open>Ledger\<close>, \<open>Calls\<close>).
  \<^item> The pause point: a rule that denies is not got past, a stopped call waits for an answer, an
    approval that counts lets it through, and it always answers on a working disk (\<open>PausePoint\<close>).
  \<^item> The operator: an approval accepted is a person's, a grant lifts what it names for a day at most,
    ending allowances leaves none in force (\<open>Decide\<close>, \<open>ExtraGrants\<close>, \<open>Extras\<close>).
  \<^item> The senders and the router: figures a rule keeps stay on the machine, and a check that fails lets
    the request through and is recorded (\<open>Points\<close>).
  \<^item> The bus: every accepted row is accounted for, a busy store loses none, closing ends, and each
    decision is handed over once (\<open>EventBus\<close>, \<open>Poller\<close>); with the cases where that is not so.
  \<^item> Prices: a price does not depend on the order of a map, comes from the card nearest in time, and is
    never below zero (\<open>Pricing\<close>).
  \<^item> The router: a rewrite went where policy, ceiling, mode and boundary allow; advice and enforcement
    agree; a forbidden model moves to the closest permitted one; an answer given reaches the router, and
    where presence counts an upgrade was signed; with the replay that undoes a denial (\<open>Router\<close>,
    \<open>RoutingApproval\<close>, \<open>ModelPolicy\<close>).
  \<^item> Evidence: a sum is no surer than its weakest part, a route is trusted only on enough clean pairs in
    whatever order they come, and a capability climbs one rung at a time (\<open>Measurement\<close>, \<open>Learning\<close>); each
    completed pair has two judgements of its own, no trial gives more than ten, and an execution counts as
    achieved only where its best witnesses agree (\<open>Evidence\<close>).
  \<^item> Trials: bounded and balanced on every ledger the operations write, an execution keeps its arm, and a stop
    may be undone by a request in flight (\<open>Experiments\<close>, whose \<open>trial_ledger\<close> interleaves the daemon's
    assignments with what other processes write).
  \<^item> The proxy: a request is moved only on evidence, its decision carries the assignment the ledger holds, and
    settings without written rules route nothing (\<open>RouteGate\<close>).
  \<^item> The store of replies: within its limits whatever is called, the least used go first, a replay is a whole
    answer to the same request with the same credentials, a repeat is served, and a request not served sees
    no difference, but for a status that an informational reply hides (\<open>ResponseCache\<close>).

  Bounds and fuel. Loops over lists are structural or end by the measure given with them. \<open>drain\<close> takes
  as many steps as \<open>steps_left\<close>, which its termination lemma shows to be enough. \<open>wait_room\<close> takes the
  number of worker steps a publisher is willing to wait for, every number being a behaviour of the code.

  Parameters, for code that is not in the repository or that only runs elsewhere: the signature check and
  the test of a curve point, how many bytes a value takes as JSON, how a transcript line decodes, the
  random ids, the signer (the helper program behind \<open>Signer\<close>), the team plane's client, and the event
  sink. Each call reads the clock once; Go reads it again in places, moments later.

  Not modelled, and why. Strings are taken to be ASCII and their characters bytes, so case folding and
  trimming beyond ASCII is left out. Numbers are exact rationals with the infinities and NaN; the
  rounding of a computed figure is written out where the code compares one. Locks are taken to work: an
  operation under the ledger's lock is one transition. Of the boundary package, the status, advice and
  promotion views and the edits of \<open>config.yaml\<close> are not modelled, nor the verification of the
  organisation's rules; of the bus, logging. The rest of the program (the rest of the proxy, the SQL store, the
  rest of the daemon's wiring, the command line and MCP server, the rest of the configuration, plans and budgets, the
  coaching, governance and observability contexts, vendor clients and presentation) is listed in the manifest with the reason it is
  left out.
\<close>

end
